(* ===== verification/Lcm_Prelude.thy ===== *)
theory Lcm_Prelude
  imports Complex_Main "HOL-Library.AList"
begin

text \<open>
  What the component theories share.

  The program handles messages as JSON objects: Python dictionaries with string keys
  whose values are strings, numbers, booleans, lists and dictionaries again. The datatype
  \<open>gjson\<close> is that value space, over the type of its texts: \<open>json\<close> has texts that are lists of
  code points. A dictionary key is the UTF-8 form of its text. A dictionary keeps Python's insertion order, so it is an
  association list; \<open>jget\<close> is \<open>d.get(key)\<close> (\<open>JNull\<close> stands for Python's \<open>None\<close>, both
  for a missing key and for a stored null) and \<open>jset\<close> is \<open>d[key] = v\<close> on a copy.

  The collection \<open>lcm_simps\<close> gathers the rewrite rules that component proofs share.
\<close>

named_theorems lcm_simps

datatype 's gjson =
    JNull
  | JBool bool
  | JInt int
  | JStr 's
  | JArr "'s gjson list"
  | JObj "(string \<times> 's gjson) list"

text \<open>A Python text is the list of its code points; \<open>cps\<close> is a text literal.\<close>

type_synonym utext = "nat list"

definition cps :: "string \<Rightarrow> utext" where
  "cps s = map of_char s"

lemma cps_inject [simp]: "cps s = cps t \<longleftrightarrow> s = t"
proof -
  have "inj (of_char :: char \<Rightarrow> nat)" by (simp add: inj_def)
  then show ?thesis by (simp add: cps_def inj_map_eq_map)
qed

lemma cps_eq_Nil [simp]: "cps s = [] \<longleftrightarrow> s = []" "[] = cps s \<longleftrightarrow> s = []"
  by (auto simp: cps_def)

type_synonym json = "utext gjson"
type_synonym message = json
type_synonym block = json

subsection \<open>Reading and updating dictionaries\<close>

fun is_obj :: "'s gjson \<Rightarrow> bool" where
  "is_obj (JObj _) = True"
| "is_obj _ = False"

fun jget :: "string \<Rightarrow> 's gjson \<Rightarrow> 's gjson" where
  "jget k (JObj kvs) = (case map_of kvs k of None \<Rightarrow> JNull | Some v \<Rightarrow> v)"
| "jget k _ = JNull"

fun jset :: "string \<Rightarrow> 's gjson \<Rightarrow> 's gjson \<Rightarrow> 's gjson" where
  "jset k v (JObj kvs) = JObj (AList.update k v kvs)"
| "jset k v j = j"

text \<open>\<open>isinstance(v, str) and v\<close>: a string that is not empty.\<close>

fun nonempty_str :: "'a list gjson \<Rightarrow> 'a list option" where
  "nonempty_str (JStr s) = (if s = [] then None else Some s)"
| "nonempty_str _ = None"

fun str_of :: "'s gjson \<Rightarrow> 's option" where
  "str_of (JStr s) = Some s"
| "str_of _ = None"

fun arr_of :: "'s gjson \<Rightarrow> 's gjson list option" where
  "arr_of (JArr xs) = Some xs"
| "arr_of _ = None"

lemma jget_jset [simp]: "is_obj m \<Longrightarrow> jget k (jset k' v m) = (if k = k' then v else jget k m)"
  by (cases m) (auto simp: update_conv)

lemma is_obj_jset [simp]: "is_obj (jset k v m) = is_obj m"
  by (cases m) auto

lemma nonempty_str_Some [simp]: "nonempty_str j = Some s \<longleftrightarrow> j = JStr s \<and> s \<noteq> []"
  by (cases j) auto

lemma arr_of_Some [simp]: "arr_of j = Some xs \<longleftrightarrow> j = JArr xs"
  by (cases j) auto

subsection \<open>Lists\<close>

lemma takeWhile_all: "(\<And>x. x \<in> set xs \<Longrightarrow> P x) \<Longrightarrow> takeWhile P (xs @ ys) = xs @ takeWhile P ys"
  by (induction xs) auto

lemma dropWhile_all: "(\<And>x. x \<in> set xs \<Longrightarrow> P x) \<Longrightarrow> dropWhile P (xs @ ys) = dropWhile P ys"
  by (induction xs) auto

lemma find_append: "List.find P (xs @ ys) = (case List.find P xs of None \<Rightarrow> List.find P ys | Some x \<Rightarrow> Some x)"
  by (induction xs) auto

lemma find_SomeD: "List.find P xs = Some x \<Longrightarrow> P x \<and> x \<in> set xs"
  by (induction xs) (auto split: if_splits)

lemma find_None_filter: "List.find P xs = None \<longleftrightarrow> filter P xs = []"
  by (induction xs) auto

lemma map_Some_map_filter:
  "(\<And>x. x \<in> set xs \<Longrightarrow> f x \<noteq> None) \<Longrightarrow> map Some (List.map_filter f xs) = map f xs"
  by (induction xs) (auto split: option.splits)

lemma set_map_filter: "set (List.map_filter f xs) = {y. \<exists>x \<in> set xs. f x = Some y}"
  by (induction xs) (auto split: option.splits)

subsection \<open>Strings and numbers of Python\<close>

text \<open>
  \<open>str.isspace\<close> on the characters of one byte, \<open>str.strip\<close>, and \<open>round\<close> on a number,
  which rounds halves to the even neighbour.
\<close>

definition py_isspace :: "char \<Rightarrow> bool" where
  "py_isspace c \<longleftrightarrow> (let n = of_char c :: nat in
     (9 \<le> n \<and> n \<le> 13) \<or> (28 \<le> n \<and> n \<le> 32) \<or> n = 133 \<or> n = 160)"

definition py_strip :: "string \<Rightarrow> string" where
  "py_strip s = rev (dropWhile py_isspace (rev (dropWhile py_isspace s)))"

definition py_round :: "real \<Rightarrow> int" where
  "py_round x = (let f = \<lfloor>x\<rfloor> in
     if x - of_int f < 1 / 2 then f
     else if 1 / 2 < x - of_int f then f + 1
     else if even f then f else f + 1)"

subsection \<open>Errors\<close>

text \<open>A call that may raise returns \<open>Inl\<close> the exception; the statements after it run on \<open>Inr\<close>.\<close>

fun bindE :: "'e + 'a \<Rightarrow> ('a \<Rightarrow> 'e + 'b) \<Rightarrow> 'e + 'b" where
  "bindE (Inl e) f = Inl e"
| "bindE (Inr x) f = f x"

fun foldE :: "('a \<Rightarrow> 's \<Rightarrow> 'e + 's) \<Rightarrow> 'a list \<Rightarrow> 's \<Rightarrow> 'e + 's" where
  "foldE f [] s = Inr s"
| "foldE f (x # xs) s = bindE (f x s) (foldE f xs)"

lemma bindE_Inr [simp]: "bindE r f = Inr y \<longleftrightarrow> (\<exists>x. r = Inr x \<and> f x = Inr y)"
  by (cases r) auto

lemma foldE_append: "foldE f (xs @ ys) s = bindE (foldE f xs s) (foldE f ys)"
proof (induction xs arbitrary: s)
  case (Cons x xs)
  then show ?case by (cases "f x s") auto
qed simp

lemma foldE_invariant:
  assumes "foldE f xs s = Inr s'" "P s" "\<And>x s s'. P s \<Longrightarrow> f x s = Inr s' \<Longrightarrow> P s'"
  shows "P s'"
  using assms(1,2) by (induction xs arbitrary: s) (auto intro: assms(3))

lemma dropWhile_all_Nil: "(\<forall>x \<in> set (dropWhile P xs). P x) \<longleftrightarrow> (\<forall>x \<in> set xs. P x)"
  by (induction xs) auto

lemma py_strip_eq_Nil [simp]: "py_strip s = [] \<longleftrightarrow> list_all py_isspace s"
  by (simp add: py_strip_def dropWhile_eq_Nil_conv dropWhile_all_Nil list_all_iff)

lemma py_round_of_int [simp]: "py_round (of_int n) = n"
  by (simp add: py_round_def)

end
