(* ===== verification/Estimate_Tokens.thy ===== *)
theory Estimate_Tokens
  imports Lcm_Prelude
begin

text \<open>
  The token estimator of \<open>estimate_tokens.py\<close>.

  A text is the list of its Unicode code points, which is what iterating a Python string
  gives. The weights 0.25, 1.5 and 2 and their sums are multiples of a quarter, which
  binary floats represent exactly up to \<open>2 ^ 51\<close>, so the float sum of the program is the
  real sum written here for every text that fits in memory.

  The lemmas show what the callers of the estimator rely on: it is monotone under
  extension, subadditive up to one token, bounded by the length of the text on both
  sides, and the truncation returns the longest prefix that fits.
\<close>

definition is_cjk_code_point :: "nat \<Rightarrow> bool" where
  "is_cjk_code_point cp \<longleftrightarrow>
     (0x4E00 \<le> cp \<and> cp \<le> 0x9FFF)
     \<or> (0x3400 \<le> cp \<and> cp \<le> 0x4DBF)
     \<or> (0x20000 \<le> cp \<and> cp \<le> 0x2A6DF)
     \<or> (0x2A700 \<le> cp \<and> cp \<le> 0x2B73F)
     \<or> (0x2B740 \<le> cp \<and> cp \<le> 0x2B81F)
     \<or> (0x2B820 \<le> cp \<and> cp \<le> 0x2CEAF)
     \<or> (0x2CEB0 \<le> cp \<and> cp \<le> 0x2EBEF)
     \<or> (0x3000 \<le> cp \<and> cp \<le> 0x303F)
     \<or> (0x3040 \<le> cp \<and> cp \<le> 0x30FF)
     \<or> (0xAC00 \<le> cp \<and> cp \<le> 0xD7AF)
     \<or> (0xFF00 \<le> cp \<and> cp \<le> 0xFFEF)"

definition estimate_code_point_tokens :: "nat \<Rightarrow> real" where
  "estimate_code_point_tokens cp =
     (if is_cjk_code_point cp then 3 / 2 else if 0xFFFF < cp then 2 else 1 / 4)"

definition estimate_tokens :: "utext \<Rightarrow> int" where
  "estimate_tokens tx = \<lceil>foldl (\<lambda>tokens c. tokens + estimate_code_point_tokens c) 0 tx\<rceil>"

text \<open>The loop of the truncation, with the index \<open>end\<close> counted by the recursion.\<close>

fun truncate_end :: "int \<Rightarrow> real \<Rightarrow> utext \<Rightarrow> nat" where
  "truncate_end max_tokens tokens [] = 0"
| "truncate_end max_tokens tokens (c # cs) =
     (let next_tokens = tokens + estimate_code_point_tokens c in
      if max_tokens < \<lceil>next_tokens\<rceil> then 0
      else Suc (truncate_end max_tokens next_tokens cs))"

definition truncate_text_to_estimated_tokens :: "utext \<Rightarrow> int \<Rightarrow> utext" where
  "truncate_text_to_estimated_tokens tx max_tokens =
     (if max_tokens \<le> 0 \<or> tx = [] then []
      else take (truncate_end max_tokens 0 tx) tx)"

subsection \<open>Facts about the estimate\<close>

definition weight :: "utext \<Rightarrow> real" where
  "weight tx = sum_list (map estimate_code_point_tokens tx)"

lemma foldl_weight: "foldl (\<lambda>tokens c. tokens + estimate_code_point_tokens c) a tx = a + weight tx"
  by (induction tx arbitrary: a) (auto simp: weight_def)

lemma estimate_weight: "estimate_tokens tx = \<lceil>weight tx\<rceil>"
  by (simp add: estimate_tokens_def foldl_weight)

lemma weight_simps [simp]:
  "weight [] = 0" "weight (c # cs) = estimate_code_point_tokens c + weight cs"
  "weight (xs @ ys) = weight xs + weight ys"
  by (auto simp: weight_def)

lemma code_point_bounds: "1 / 4 \<le> estimate_code_point_tokens c" "estimate_code_point_tokens c \<le> 2"
  by (auto simp: estimate_code_point_tokens_def)

lemma weight_bounds: "real (length tx) / 4 \<le> weight tx" "weight tx \<le> 2 * real (length tx)"
proof (induction tx)
  case (Cons c cs)
  { case 1 with Cons.IH(1) code_point_bounds(1)[of c] show ?case by simp }
  { case 2 with Cons.IH(2) code_point_bounds(2)[of c] show ?case by simp }
qed simp_all

lemma weight_nonneg: "0 \<le> weight tx"
  using weight_bounds(1)[of tx] by (rule order_trans[rotated]) simp

lemma estimate_nonneg [simp]: "0 \<le> estimate_tokens tx"
  using weight_nonneg[of tx] by (simp add: estimate_weight)

lemma estimate_Nil [simp]: "estimate_tokens [] = 0"
  by (simp add: estimate_weight)

lemma estimate_pos_iff: "0 < estimate_tokens tx \<longleftrightarrow> tx \<noteq> []"
proof (cases tx)
  case (Cons c cs)
  then show ?thesis
    using weight_nonneg[of cs] code_point_bounds(1)[of c] by (simp add: estimate_weight)
qed simp

lemma truncate_end_spec:
  assumes "\<lceil>tokens\<rceil> \<le> max_tokens"
  shows "\<lceil>tokens + weight (take (truncate_end max_tokens tokens tx) tx)\<rceil> \<le> max_tokens
     \<and> (truncate_end max_tokens tokens tx < length tx \<longrightarrow>
          max_tokens < \<lceil>tokens + weight (take (Suc (truncate_end max_tokens tokens tx)) tx)\<rceil>)"
  using assms
proof (induction tx arbitrary: tokens)
  case (Cons c cs)
  show ?case
  proof (cases "max_tokens < \<lceil>tokens + estimate_code_point_tokens c\<rceil>")
    case False
    then show ?thesis
      using Cons.IH[of "tokens + estimate_code_point_tokens c"]
      by (auto simp: Let_def add.assoc)
  qed (use Cons.prems in \<open>auto simp: Let_def\<close>)
qed simp

lemma weight_take_mono: "m \<le> n \<Longrightarrow> weight (take m tx) \<le> weight (take n tx)"
  using weight_nonneg[of "take (n - m) (drop m tx)"] take_add[of m "n - m" tx] by simp

text \<open>The truncation returns the longest prefix of the text whose estimate is within
  the cap: what it returns is a prefix that fits, and every prefix that fits is no longer.\<close>

theorem truncate_longest_prefix:
  fixes tx max_tokens
  defines "r \<equiv> truncate_text_to_estimated_tokens tx max_tokens"
  shows "r = take (length r) tx
     \<and> estimate_tokens r \<le> max 0 max_tokens
     \<and> (\<forall>m. estimate_tokens (take m tx) \<le> max_tokens \<longrightarrow> length (take m tx) \<le> length r)"
proof (cases "max_tokens \<le> 0 \<or> tx = []")
  case True
  have "length (take m tx) = 0" if "estimate_tokens (take m tx) \<le> max_tokens" for m
    using True that estimate_pos_iff[of "take m tx"] by auto
  then show ?thesis
    using True by (auto simp: r_def truncate_text_to_estimated_tokens_def)
next
  case False
  let ?n = "truncate_end max_tokens 0 tx"
  have r: "r = take ?n tx"
    using False by (simp add: r_def truncate_text_to_estimated_tokens_def)
  have fits: "estimate_tokens (take ?n tx) \<le> max_tokens"
    and over: "?n < length tx \<Longrightarrow> max_tokens < estimate_tokens (take (Suc ?n) tx)"
    using truncate_end_spec[of 0 max_tokens tx] False by (auto simp: estimate_weight)
  have "length (take m tx) \<le> length r" if m: "estimate_tokens (take m tx) \<le> max_tokens" for m
  proof (rule ccontr)
    assume "\<not> ?thesis"
    then have *: "?n < length tx" "Suc ?n \<le> m" by (auto simp: r)
    have "estimate_tokens (take (Suc ?n) tx) \<le> estimate_tokens (take m tx)"
      unfolding estimate_weight by (intro ceiling_mono weight_take_mono *)
    with over[OF *(1)] m show False by simp
  qed
  with fits False show ?thesis by (auto simp: r min_def)
qed

theorem truncate_longest_prefix_witness:
  "estimate_tokens (take 4 [97, 98, 99, 100, 0x4E00]) = 1
   \<and> 4 \<le> length (truncate_text_to_estimated_tokens [97, 98, 99, 100, 0x4E00] 1)"
proof -
  have "estimate_tokens (take 4 [97, 98, 99, 100, 0x4E00]) = 1"
    by (simp add: estimate_weight estimate_code_point_tokens_def is_cjk_code_point_def)
  with truncate_longest_prefix[of "[97, 98, 99, 100, 0x4E00]" 1] show ?thesis
    by (elim conjE allE[of _ 4]) simp
qed

text \<open>The estimate of a text lies between a quarter of its length and twice its length,
  and cutting a text in two changes the estimate by at most the one token that the second
  rounding adds.\<close>

theorem estimate_bounds:
  "real (length tx) / 4 \<le> estimate_tokens tx
   \<and> estimate_tokens tx \<le> 2 * int (length tx)
   \<and> estimate_tokens (xs @ ys) \<le> estimate_tokens xs + estimate_tokens ys
   \<and> estimate_tokens xs + estimate_tokens ys \<le> estimate_tokens (xs @ ys) + 1"
proof -
  have "real (length tx) / 4 \<le> estimate_tokens tx"
    using weight_bounds(1)[of tx] by (simp add: estimate_weight) linarith
  moreover have "estimate_tokens tx \<le> 2 * int (length tx)"
    using weight_bounds(2)[of tx] by (simp add: estimate_weight ceiling_le_iff)
  moreover have "\<lceil>a + b\<rceil> \<le> \<lceil>a\<rceil> + \<lceil>b\<rceil> \<and> \<lceil>a\<rceil> + \<lceil>b\<rceil> \<le> \<lceil>a + b\<rceil> + 1" for a b :: real
    by linarith
  ultimately show ?thesis by (simp add: estimate_weight)
qed

end
