(* ===== verification/Lcm_Db.thy ===== *)
theory Lcm_Db
  imports Estimate_Tokens
begin

text \<open>
  The tables of the database that compaction and assembly work on (\<open>db/migration.py\<close>):
  \<open>messages\<close>, \<open>message_parts\<close>, \<open>summaries\<close>, \<open>summary_messages\<close>, \<open>summary_parents\<close> and \<open>context_items\<close>, as a
  record of row lists, with the insert, update and delete statements the stores run on
  them. A statement that breaks a primary key, a uniqueness constraint or a foreign key
  (the program asserts that foreign keys are enforced on every connection) raises
  \<open>sqlite3.IntegrityError\<close>, here \<open>Inl Integrity_Error\<close>. The \<open>CHECK\<close> constraint of
  \<open>context_items\<close> (a message reference or a summary reference, never both) is the datatype
  \<open>context_ref\<close>. Times are numbers; the clock is an argument of the operations that stamp
  a row. The tables of conversations, files and of the search indexes are not part
  of this record.
\<close>

datatype db_error = Integrity_Error

datatype message_role = Role_System | Role_User | Role_Assistant | Role_Tool

record message_record =
  mr_message_id :: int
  mr_conversation_id :: int
  mr_seq :: int
  mr_role :: message_role
  mr_content :: utext
  mr_token_count :: int
  mr_identity_hash :: string
  mr_created_at :: int
  mr_suppressed :: bool

datatype summary_kind = Leaf | Condensed

record summary_record =
  sr_summary_id :: string
  sr_conversation_id :: int
  sr_kind :: summary_kind
  sr_depth :: int
  sr_content :: utext
  sr_token_count :: int
  sr_file_ids :: "utext list"
  sr_earliest_at :: "int option"
  sr_latest_at :: "int option"
  sr_descendant_count :: int
  sr_descendant_token_count :: int
  sr_source_message_token_count :: int
  sr_model :: string
  sr_created_at :: int
  sr_suppressed :: bool

datatype context_ref = Msg int | Sum string

record context_item =
  ci_conversation_id :: int
  ci_ordinal :: int
  ci_ref :: context_ref

text \<open>What a caller gives for a part, and the row it becomes.\<close>

record create_message_part_input =
  mp_session_id :: utext
  mp_part_type :: utext
  mp_ordinal :: int
  mp_text_content :: "utext option"
  mp_tool_call_id :: "utext option"
  mp_tool_name :: "utext option"
  mp_tool_input :: "utext option"
  mp_tool_output :: "utext option"
  mp_metadata :: "utext option"

record message_part = create_message_part_input +
  mp_part_id :: utext
  mp_message_id :: int

record lcm_db =
  db_messages :: "message_record list"
  db_next_message_id :: int
  db_message_parts :: "message_part list"
  db_summaries :: "summary_record list"
  db_summary_messages :: "(string \<times> int \<times> int) list"
  db_summary_parents :: "(string \<times> string \<times> int) list"
  db_context_items :: "context_item list"

subsection \<open>Statements on \<open>context_items\<close>\<close>

definition context_rows :: "lcm_db \<Rightarrow> int \<Rightarrow> context_item list" where
  "context_rows db c = filter (\<lambda>i. ci_conversation_id i = c) (db_context_items db)"

definition has_context_key :: "lcm_db \<Rightarrow> int \<Rightarrow> int \<Rightarrow> bool" where
  "has_context_key db c ord \<longleftrightarrow>
     list_ex (\<lambda>i. ci_conversation_id i = c \<and> ci_ordinal i = ord) (db_context_items db)"

fun ref_exists :: "lcm_db \<Rightarrow> context_ref \<Rightarrow> bool" where
  "ref_exists db (Msg mid) = list_ex (\<lambda>m. mr_message_id m = mid) (db_messages db)"
| "ref_exists db (Sum sid) = list_ex (\<lambda>s. sr_summary_id s = sid) (db_summaries db)"

text \<open>\<open>INSERT INTO context_items\<close>: the primary key and the foreign key of the reference.\<close>

definition insert_context_item :: "int \<Rightarrow> int \<Rightarrow> context_ref \<Rightarrow> lcm_db \<Rightarrow> db_error + lcm_db" where
  "insert_context_item c ord r db =
     (if has_context_key db c ord \<or> \<not> ref_exists db r then Inl Integrity_Error
      else Inr (db\<lparr>db_context_items := db_context_items db @
                  [\<lparr>ci_conversation_id = c, ci_ordinal = ord, ci_ref = r\<rparr>]\<rparr>))"

text \<open>\<open>UPDATE context_items SET ordinal = new WHERE conversation_id = c AND ordinal = old\<close>: the
  new key must be free, unless no row has the old one.\<close>

definition update_ordinal :: "int \<Rightarrow> int \<times> int \<Rightarrow> lcm_db \<Rightarrow> db_error + lcm_db" where
  "update_ordinal c p db = (case p of (old, new) \<Rightarrow>
     if has_context_key db c old \<and> new \<noteq> old \<and> has_context_key db c new then Inl Integrity_Error
     else Inr (db\<lparr>db_context_items :=
            map (\<lambda>i. if ci_conversation_id i = c \<and> ci_ordinal i = old then i\<lparr>ci_ordinal := new\<rparr> else i)
              (db_context_items db)\<rparr>))"

definition delete_context_items :: "(context_item \<Rightarrow> bool) \<Rightarrow> lcm_db \<Rightarrow> lcm_db" where
  "delete_context_items P db = db\<lparr>db_context_items := filter (\<lambda>i. \<not> P i) (db_context_items db)\<rparr>"

definition max_ordinal :: "lcm_db \<Rightarrow> int \<Rightarrow> int" where
  "max_ordinal db c = (case map ci_ordinal (context_rows db c) of
     [] \<Rightarrow> -1 | x # xs \<Rightarrow> fold max xs x)"

subsection \<open>The invariant of the tables\<close>

definition context_key :: "context_item \<Rightarrow> int \<times> int" where
  "context_key i = (ci_conversation_id i, ci_ordinal i)"

definition wf_db :: "lcm_db \<Rightarrow> bool" where
  "wf_db db \<longleftrightarrow>
     distinct (map mr_message_id (db_messages db))
   \<and> distinct (map (\<lambda>m. (mr_conversation_id m, mr_seq m)) (db_messages db))
   \<and> list_all (\<lambda>p. ref_exists db (Msg (mp_message_id p))) (db_message_parts db)
   \<and> distinct (map mp_part_id (db_message_parts db))
   \<and> distinct (map (\<lambda>p. (mp_message_id p, mp_ordinal p)) (db_message_parts db))
   \<and> list_all (\<lambda>m. mr_message_id m < db_next_message_id db) (db_messages db)
   \<and> distinct (map sr_summary_id (db_summaries db))
   \<and> distinct (map context_key (db_context_items db))
   \<and> list_all (\<lambda>i. 0 \<le> ci_ordinal i \<and> ref_exists db (ci_ref i)) (db_context_items db)
   \<and> distinct (map (\<lambda>(s, m, _). (s, m)) (db_summary_messages db))
   \<and> list_all (\<lambda>(s, m, _). ref_exists db (Sum s) \<and> ref_exists db (Msg m)) (db_summary_messages db)
   \<and> distinct (map (\<lambda>(s, p, _). (s, p)) (db_summary_parents db))
   \<and> list_all (\<lambda>(s, p, _). ref_exists db (Sum s) \<and> ref_exists db (Sum p)) (db_summary_parents db)"

lemma ref_exists_context [simp]: "ref_exists (db\<lparr>db_context_items := x\<rparr>) r = ref_exists db r"
  by (cases r) auto

lemma has_context_key_iff:
  "has_context_key db c ord \<longleftrightarrow> (c, ord) \<in> context_key ` set (db_context_items db)"
  by (auto simp: has_context_key_def list_ex_iff context_key_def image_iff)

lemma fold_max_ge: "(x::int) \<le> fold max xs x \<and> (\<forall>y \<in> set xs. y \<le> fold max xs x)"
proof (induction xs arbitrary: x)
  case (Cons a xs)
  from Cons.IH[of "max a x"] show ?case by (auto simp: max.commute)
qed simp

lemma max_ordinal_ge:
  "i \<in> set (db_context_items db) \<Longrightarrow> ci_conversation_id i = c \<Longrightarrow> ci_ordinal i \<le> max_ordinal db c"
proof -
  assume "i \<in> set (db_context_items db)" "ci_conversation_id i = c"
  then have "ci_ordinal i \<in> set (map ci_ordinal (context_rows db c))"
    by (simp add: context_rows_def)
  then show ?thesis
    using fold_max_ge by (fastforce simp: max_ordinal_def split: list.splits)
qed

lemma max_ordinal_free: "max_ordinal db c < ord \<Longrightarrow> \<not> has_context_key db c ord"
  using max_ordinal_ge[of _ db c] by (fastforce simp: has_context_key_def list_ex_iff)

lemma max_ordinal_lower: "wf_db db \<Longrightarrow> -1 \<le> max_ordinal db c"
proof -
  assume "wf_db db"
  then have *: "\<forall>x \<in> set (map ci_ordinal (context_rows db c)). 0 \<le> x"
    by (auto simp: wf_db_def list_all_iff context_rows_def)
  then show ?thesis
  proof (cases "map ci_ordinal (context_rows db c)")
    case (Cons x xs)
    then have "0 \<le> x" using * by simp
    then show ?thesis
      unfolding max_ordinal_def Cons using fold_max_ge[of x xs] by simp
  qed (simp add: max_ordinal_def)
qed

lemma wf_insert_context_item:
  assumes "wf_db db" "0 \<le> ord" "insert_context_item c ord r db = Inr db'"
  shows "wf_db db'"
  using assms
  by (auto simp: insert_context_item_def wf_db_def has_context_key_iff context_key_def list_all_iff
      split: if_splits)

lemma wf_delete_context_items: "wf_db db \<Longrightarrow> wf_db (delete_context_items P db)"
  by (auto simp: delete_context_items_def wf_db_def list_all_iff distinct_map intro: inj_on_subset)

end
