(* ===== verification/Context_Store.thy ===== *)
theory Context_Store
  imports Lcm_Db "HOL-Library.Multiset"
begin

text \<open>
  The summary store (\<open>store/summary.py\<close>): summaries, their links, and the ordered list of
  context items of a conversation.

  Each definition runs the statements of the method of the same name. The abstract view of
  a conversation's context is the list of its references in ordinal order, \<open>context_refs\<close>;
  the lemmas show that appends extend that list, and that replacing a range puts one
  summary in the place of the references of the range, whatever gaps the ordinals have,
  and leaves the ordinals without gaps.
\<close>

subsection \<open>Summaries\<close>

text \<open>\<open>_coerce_nonneg_int\<close> on integers and \<open>None\<close>; a row's own counters are integers.\<close>

fun coerce_nonneg_int :: "int option \<Rightarrow> int" where
  "coerce_nonneg_int None = 0"
| "coerce_nonneg_int (Some v) = (if v < 0 then 0 else v)"

record create_summary_input =
  cs_summary_id :: string
  cs_conversation_id :: int
  cs_kind :: summary_kind
  cs_content :: utext
  cs_token_count :: int
  cs_depth :: "int option"
  cs_file_ids :: "utext list option"
  cs_earliest_at :: "int option"
  cs_latest_at :: "int option"
  cs_descendant_count :: "int option"
  cs_descendant_token_count :: "int option"
  cs_source_message_token_count :: "int option"
  cs_model :: "string option"

definition summary_depth :: "create_summary_input \<Rightarrow> int" where
  "summary_depth inp = (case cs_depth inp of
     Some d \<Rightarrow> if 0 \<le> d then d else if cs_kind inp = Leaf then 0 else 1
   | None \<Rightarrow> if cs_kind inp = Leaf then 0 else 1)"

definition summary_of_input :: "int \<Rightarrow> create_summary_input \<Rightarrow> summary_record" where
  "summary_of_input now inp =
     \<lparr>sr_summary_id = cs_summary_id inp,
      sr_conversation_id = cs_conversation_id inp,
      sr_kind = cs_kind inp,
      sr_depth = summary_depth inp,
      sr_content = cs_content inp,
      sr_token_count = cs_token_count inp,
      sr_file_ids = (case cs_file_ids inp of Some fs \<Rightarrow> fs | None \<Rightarrow> []),
      sr_earliest_at = cs_earliest_at inp,
      sr_latest_at = cs_latest_at inp,
      sr_descendant_count = coerce_nonneg_int (cs_descendant_count inp),
      sr_descendant_token_count = coerce_nonneg_int (cs_descendant_token_count inp),
      sr_source_message_token_count = coerce_nonneg_int (cs_source_message_token_count inp),
      sr_model = (case cs_model inp of Some m \<Rightarrow> m | None \<Rightarrow> ''unknown''),
      sr_created_at = now,
      sr_suppressed = False\<rparr>"

definition insert_summary :: "int \<Rightarrow> create_summary_input \<Rightarrow> lcm_db \<Rightarrow> db_error + lcm_db" where
  "insert_summary now inp db =
     (if ref_exists db (Sum (cs_summary_id inp)) then Inl Integrity_Error
      else Inr (db\<lparr>db_summaries := db_summaries db @ [summary_of_input now inp]\<rparr>))"

definition get_summary :: "lcm_db \<Rightarrow> string \<Rightarrow> bool \<Rightarrow> summary_record option" where
  "get_summary db sid include_suppressed =
     List.find (\<lambda>s. sr_summary_id s = sid \<and> (include_suppressed \<or> \<not> sr_suppressed s)) (db_summaries db)"

definition get_conversation_max_summary_depth :: "lcm_db \<Rightarrow> int \<Rightarrow> int option" where
  "get_conversation_max_summary_depth db c =
     (case map sr_depth (filter (\<lambda>s. sr_conversation_id s = c) (db_summaries db)) of
        [] \<Rightarrow> None | x # xs \<Rightarrow> Some (fold max xs x))"

subsection \<open>Links\<close>

text \<open>One row of \<open>executemany\<close>: \<open>ON CONFLICT DO NOTHING\<close> keeps the row that is there.\<close>

definition link_message :: "string \<Rightarrow> int \<times> int \<Rightarrow> lcm_db \<Rightarrow> db_error + lcm_db" where
  "link_message sid p db = (case p of (idx, mid) \<Rightarrow>
     if list_ex (\<lambda>(s, m, _). s = sid \<and> m = mid) (db_summary_messages db) then Inr db
     else if \<not> ref_exists db (Sum sid) \<or> \<not> ref_exists db (Msg mid) then Inl Integrity_Error
     else Inr (db\<lparr>db_summary_messages := db_summary_messages db @ [(sid, mid, idx)]\<rparr>))"

definition link_summary_to_messages :: "string \<Rightarrow> int list \<Rightarrow> lcm_db \<Rightarrow> db_error + lcm_db" where
  "link_summary_to_messages sid message_ids db =
     foldE (link_message sid) (zip (map int [0..<length message_ids]) message_ids) db"

definition link_parent :: "string \<Rightarrow> int \<times> string \<Rightarrow> lcm_db \<Rightarrow> db_error + lcm_db" where
  "link_parent sid p db = (case p of (idx, pid) \<Rightarrow>
     if list_ex (\<lambda>(s, q, _). s = sid \<and> q = pid) (db_summary_parents db) then Inr db
     else if \<not> ref_exists db (Sum sid) \<or> \<not> ref_exists db (Sum pid) then Inl Integrity_Error
     else Inr (db\<lparr>db_summary_parents := db_summary_parents db @ [(sid, pid, idx)]\<rparr>))"

definition link_summary_to_parents :: "string \<Rightarrow> string list \<Rightarrow> lcm_db \<Rightarrow> db_error + lcm_db" where
  "link_summary_to_parents sid parent_summary_ids db =
     foldE (link_parent sid) (zip (map int [0..<length parent_summary_ids]) parent_summary_ids) db"

definition get_summary_messages :: "lcm_db \<Rightarrow> string \<Rightarrow> int list" where
  "get_summary_messages db sid =
     map (\<lambda>(_, m, _). m) (sort_key (\<lambda>(_, _, ord). ord)
       (filter (\<lambda>(s, _, _). s = sid) (db_summary_messages db)))"

definition get_summary_parents :: "lcm_db \<Rightarrow> string \<Rightarrow> bool \<Rightarrow> summary_record list" where
  "get_summary_parents db sid include_suppressed =
     List.map_filter (\<lambda>(_, p, _). get_summary db p include_suppressed)
       (sort_key (\<lambda>(_, _, ord). ord) (filter (\<lambda>(s, _, _). s = sid) (db_summary_parents db)))"

definition get_summary_children :: "lcm_db \<Rightarrow> string \<Rightarrow> bool \<Rightarrow> summary_record list" where
  "get_summary_children db parent include_suppressed =
     List.map_filter (\<lambda>(s, _, _). get_summary db s include_suppressed)
       (sort_key (\<lambda>(_, _, ord). ord) (filter (\<lambda>(_, p, _). p = parent) (db_summary_parents db)))"

subsection \<open>Context items\<close>

definition get_context_items :: "lcm_db \<Rightarrow> int \<Rightarrow> context_item list" where
  "get_context_items db c = sort_key ci_ordinal (context_rows db c)"

definition get_distinct_depths_in_context :: "lcm_db \<Rightarrow> int \<Rightarrow> int option \<Rightarrow> int list" where
  "get_distinct_depths_in_context db c max_ordinal_exclusive =
     remdups (sort (List.map_filter
       (\<lambda>i. if (case max_ordinal_exclusive of None \<Rightarrow> True | Some b \<Rightarrow> ci_ordinal i < b)
            then (case ci_ref i of
                Msg _ \<Rightarrow> None
              | Sum sid \<Rightarrow> map_option sr_depth (get_summary db sid True))
            else None)
       (context_rows db c)))"

text \<open>\<open>retain_depth\<close> is a float; \<open>None\<close> stands for NaN and the infinities.\<close>

definition prune_for_new_session :: "int \<Rightarrow> real option \<Rightarrow> lcm_db \<Rightarrow> lcm_db" where
  "prune_for_new_session c retain_depth db =
     (if (case retain_depth of Some d \<Rightarrow> d < 0 | None \<Rightarrow> False) then db
      else
        let db1 = delete_context_items
              (\<lambda>i. ci_conversation_id i = c \<and> (case ci_ref i of Msg _ \<Rightarrow> True | Sum _ \<Rightarrow> False)) db in
        case retain_depth of
          None \<Rightarrow> delete_context_items
              (\<lambda>i. ci_conversation_id i = c \<and> (case ci_ref i of Msg _ \<Rightarrow> False | Sum _ \<Rightarrow> True)) db1
        | Some d \<Rightarrow> delete_context_items
              (\<lambda>i. ci_conversation_id i = c \<and> (case ci_ref i of Msg _ \<Rightarrow> False | Sum sid \<Rightarrow>
                 list_ex (\<lambda>s. sr_summary_id s = sid \<and> sr_conversation_id s = c \<and> sr_depth s < \<lfloor>d\<rfloor>)
                   (db_summaries db1))) db1)"

definition append_context_message :: "int \<Rightarrow> int \<Rightarrow> lcm_db \<Rightarrow> db_error + lcm_db" where
  "append_context_message c mid db = insert_context_item c (max_ordinal db c + 1) (Msg mid) db"

definition append_context_messages :: "int \<Rightarrow> int list \<Rightarrow> lcm_db \<Rightarrow> db_error + lcm_db" where
  "append_context_messages c message_ids db =
     (if message_ids = [] then Inr db
      else let base_ordinal = max_ordinal db c + 1 in
        foldE (\<lambda>(idx, mid). insert_context_item c (base_ordinal + idx) (Msg mid))
          (zip (map int [0..<length message_ids]) message_ids) db)"

definition append_context_summary :: "int \<Rightarrow> string \<Rightarrow> lcm_db \<Rightarrow> db_error + lcm_db" where
  "append_context_summary c sid db = insert_context_item c (max_ordinal db c + 1) (Sum sid) db"

text \<open>
  The renumbering after a replacement: when the ordinals of the conversation are not
  \<open>0, 1, 2, \<dots>\<close>, a first pass moves the \<open>i\<close>-th row to \<open>-(i + 1)\<close> and a second one to \<open>i\<close>.
\<close>

definition resequence :: "int \<Rightarrow> lcm_db \<Rightarrow> db_error + lcm_db" where
  "resequence c db =
     (let items = map ci_ordinal (get_context_items db c);
          idx = map int [0..<length items] in
      if list_ex (\<lambda>(cur, i). cur \<noteq> i) (zip items idx) then
        bindE (foldE (update_ordinal c) (zip items (map (\<lambda>i. - (i + 1)) idx)) db)
          (foldE (update_ordinal c) (zip (map (\<lambda>i. - (i + 1)) idx) idx))
      else Inr db)"

definition replace_context_range_with_summary ::
    "int \<Rightarrow> int \<Rightarrow> int \<Rightarrow> string \<Rightarrow> lcm_db \<Rightarrow> db_error + lcm_db" where
  "replace_context_range_with_summary c start_ordinal end_ordinal sid db =
     bindE (insert_context_item c start_ordinal (Sum sid)
        (delete_context_items (\<lambda>i. ci_conversation_id i = c
           \<and> start_ordinal \<le> ci_ordinal i \<and> ci_ordinal i \<le> end_ordinal) db))
       (resequence c)"

text \<open>The token count of a reference, as the joins of the query find it.\<close>

fun ref_tokens :: "lcm_db \<Rightarrow> context_ref \<Rightarrow> int" where
  "ref_tokens db (Msg mid) = sum_list (map mr_token_count (filter (\<lambda>m. mr_message_id m = mid) (db_messages db)))"
| "ref_tokens db (Sum sid) = sum_list (map sr_token_count (filter (\<lambda>s. sr_summary_id s = sid) (db_summaries db)))"

definition get_context_token_count :: "lcm_db \<Rightarrow> int \<Rightarrow> int" where
  "get_context_token_count db c = sum_list (map (\<lambda>i. ref_tokens db (ci_ref i)) (context_rows db c))"

subsection \<open>The context in order\<close>

definition context_refs :: "lcm_db \<Rightarrow> int \<Rightarrow> context_ref list" where
  "context_refs db c = map ci_ref (get_context_items db c)"

lemma set_get_context_items [simp]:
  "set (get_context_items db c) = {i \<in> set (db_context_items db). ci_conversation_id i = c}"
  by (auto simp: get_context_items_def context_rows_def)

lemma wf_distinct_ordinals:
  assumes "wf_db db"
  shows "distinct (map ci_ordinal (context_rows db c))"
proof -
  have "distinct (map context_key (context_rows db c))"
    using assms by (auto simp: wf_db_def context_rows_def distinct_map intro: inj_on_subset)
  moreover have "map context_key (context_rows db c) = map (Pair c) (map ci_ordinal (context_rows db c))"
    by (auto simp: context_rows_def context_key_def)
  ultimately have "distinct (map (Pair c) (map ci_ordinal (context_rows db c)))" by metis
  then show ?thesis by (simp only: distinct_map)
qed

lemma sorted_items: "sorted (map ci_ordinal (get_context_items db c))"
  by (simp add: get_context_items_def)

lemma strict_items: "wf_db db \<Longrightarrow> sorted_wrt (<) (map ci_ordinal (get_context_items db c))"
  using wf_distinct_ordinals[of db c]
  by (simp add: strict_sorted_iff get_context_items_def distinct_map)

text \<open>Any list of the conversation's rows in the order of their ordinals is the context.\<close>

lemma items_unique:
  assumes "wf_db db" "mset L = mset (context_rows db c)" "sorted (map ci_ordinal L)"
  shows "get_context_items db c = L"
  unfolding get_context_items_def
proof (rule sort_key_inj_key_eq)
  show "inj_on ci_ordinal (set (context_rows db c))"
    using wf_distinct_ordinals[OF assms(1)] by (simp add: distinct_map)
qed (use assms in auto)

text \<open>Deletion filters the context; an insertion at a free place is seen at that place.\<close>

lemma items_delete:
  "get_context_items (delete_context_items P db) c = filter (\<lambda>i. \<not> P i) (get_context_items db c)"
  by (simp add: get_context_items_def context_rows_def delete_context_items_def filter_sort
      filter_filter conj_commute cong: filter_cong)

lemma rows_insert:
  "insert_context_item c ord r db = Inr db' \<Longrightarrow> context_rows db' c' =
     context_rows db c' @ (if c' = c then [\<lparr>ci_conversation_id = c, ci_ordinal = ord, ci_ref = r\<rparr>] else [])"
  by (auto simp: insert_context_item_def context_rows_def split: if_splits)

lemma items_insert:
  assumes wf: "wf_db db" and ord: "0 \<le> ord" and ins: "insert_context_item c ord r db = Inr db'"
  shows "get_context_items db' c =
     filter (\<lambda>i. ci_ordinal i < ord) (get_context_items db c)
     @ \<lparr>ci_conversation_id = c, ci_ordinal = ord, ci_ref = r\<rparr>
     # filter (\<lambda>i. ord < ci_ordinal i) (get_context_items db c)"
    (is "_ = ?L")
proof (rule items_unique)
  show "wf_db db'" by (rule wf_insert_context_item[OF wf ord ins])
  have ne: "ci_ordinal i \<noteq> ord" if "i \<in> set (context_rows db c)" for i
    using ins that by (auto simp: insert_context_item_def has_context_key_def list_ex_iff context_rows_def
        split: if_splits)
  have "mset (filter (\<lambda>i. ci_ordinal i < ord) (get_context_items db c))
      + mset (filter (\<lambda>i. ord < ci_ordinal i) (get_context_items db c)) = mset (context_rows db c)"
  proof -
    have "filter_mset (\<lambda>i. ord < ci_ordinal i) (mset (context_rows db c))
        = filter_mset (\<lambda>i. \<not> ci_ordinal i < ord) (mset (context_rows db c))"
      using ne by (intro filter_mset_cong) (auto simp: less_le)
    then show ?thesis by (simp add: get_context_items_def)
  qed
  then show "mset ?L = mset (context_rows db' c)"
    by (simp add: rows_insert[OF ins])
  show "sorted (map ci_ordinal ?L)"
    using sorted_items[of db c]
    by (auto simp: sorted_append sorted_map intro: sorted_wrt_filter)
qed

lemma items_insert_other:
  "c' \<noteq> c \<Longrightarrow> insert_context_item c ord r db = Inr db' \<Longrightarrow> get_context_items db' c' = get_context_items db c'"
  by (simp add: get_context_items_def rows_insert)

lemma items_append:
  assumes "wf_db db" "max_ordinal db c < ord" "insert_context_item c ord r db = Inr db'"
  shows "get_context_items db' c = get_context_items db c
     @ [\<lparr>ci_conversation_id = c, ci_ordinal = ord, ci_ref = r\<rparr>]"
proof -
  have "\<forall>i \<in> set (get_context_items db c). ci_ordinal i < ord"
    using max_ordinal_ge[of _ db c] assms(2) by fastforce
  then have "filter (\<lambda>i. ci_ordinal i < ord) (get_context_items db c) = get_context_items db c"
    "filter (\<lambda>i. ord < ci_ordinal i) (get_context_items db c) = []"
    by (auto simp: filter_id_conv filter_empty_conv)
  then show ?thesis
    using items_insert[OF assms(1) _ assms(3)] max_ordinal_lower[OF assms(1), of c] assms(2) by simp
qed

subsection \<open>Renumbering\<close>

definition move_item :: "int \<Rightarrow> (int \<Rightarrow> int) \<Rightarrow> context_item \<Rightarrow> context_item" where
  "move_item c f i = (if ci_conversation_id i = c then i\<lparr>ci_ordinal := f (ci_ordinal i)\<rparr> else i)"

definition renumber :: "int \<Rightarrow> (int \<Rightarrow> int) \<Rightarrow> lcm_db \<Rightarrow> lcm_db" where
  "renumber c f db = db\<lparr>db_context_items := map (move_item c f) (db_context_items db)\<rparr>"

lemma move_item_simps [simp]:
  "ci_conversation_id (move_item c f i) = ci_conversation_id i"
  "ci_ref (move_item c f i) = ci_ref i"
  "ci_ordinal (move_item c f i) = (if ci_conversation_id i = c then f (ci_ordinal i) else ci_ordinal i)"
  by (auto simp: move_item_def)

lemma renumber_items [simp]: "db_context_items (renumber c f db) = map (move_item c f) (db_context_items db)"
  by (simp add: renumber_def)

definition ren :: "(int \<times> int) list \<Rightarrow> int \<Rightarrow> int" where
  "ren ps ord = (case map_of ps ord of None \<Rightarrow> ord | Some new \<Rightarrow> new)"

lemma renumber_cong:
  "(\<And>i. i \<in> set (db_context_items db) \<Longrightarrow> ci_conversation_id i = c \<Longrightarrow> f (ci_ordinal i) = g (ci_ordinal i))
   \<Longrightarrow> renumber c f db = renumber c g db"
  by (simp add: renumber_def move_item_def)

lemma renumber_id: "renumber c (\<lambda>x. x) db = db"
proof -
  have "move_item c (\<lambda>x. x) = id" by (simp add: move_item_def fun_eq_iff)
  then show ?thesis by (simp add: renumber_def)
qed

lemma renumber_renumber: "renumber c g (renumber c f db) = renumber c (g \<circ> f) db"
  by (simp add: renumber_def move_item_def)

lemma has_key_renumber:
  "has_context_key (renumber c f db) c n \<longleftrightarrow>
     (\<exists>i \<in> set (db_context_items db). ci_conversation_id i = c \<and> f (ci_ordinal i) = n)"
  by (auto simp: has_context_key_def list_ex_iff)

lemma update_ordinal_renumber:
  assumes "\<not> has_context_key db c new"
  shows "update_ordinal c (old, new) db = Inr (renumber c (\<lambda>x. if x = old then new else x) db)"
  using assms by (auto simp: update_ordinal_def renumber_def move_item_def)

text \<open>
  One pass of updates whose new numbers are fresh: none is in the table and none is
  among the old numbers. It never fails, and renumbers every row at once.
\<close>

lemma update_pass:
  assumes "distinct (map fst ps)" "distinct (map snd ps)"
    "\<forall>new \<in> set (map snd ps). \<not> has_context_key db c new \<and> new \<notin> set (map fst ps)"
  shows "foldE (update_ordinal c) ps db = Inr (renumber c (ren ps) db)"
  using assms
proof (induction ps arbitrary: db)
  case (Cons p ps)
  obtain old new where p: "p = (old, new)" by (cases p)
  let ?f = "\<lambda>x. if x = old then new else x"
  let ?db = "renumber c ?f db"
  have key: "\<not> has_context_key ?db c n" if "n \<in> set (map snd ps)" for n
  proof -
    have "\<not> has_context_key db c n" "n \<noteq> new" using Cons.prems that by (auto simp: p)
    then show ?thesis by (auto simp: has_key_renumber split: if_splits) (auto simp: has_context_key_def list_ex_iff split: if_splits)
  qed
  have "foldE (update_ordinal c) ps ?db = Inr (renumber c (ren ps) ?db)"
    using Cons.prems key by (intro Cons.IH) auto
  moreover have "renumber c (ren ps) ?db = renumber c (ren (p # ps)) db"
    unfolding renumber_renumber
  proof (rule renumber_cong)
    fix i
    have "map_of ps new = None" using Cons.prems by (auto simp: p map_of_eq_None_iff)
    then show "(ren ps \<circ> ?f) (ci_ordinal i) = ren (p # ps) (ci_ordinal i)"
      by (simp add: ren_def p)
  qed
  ultimately show ?case
    using Cons.prems by (simp add: p update_ordinal_renumber)
next
  case Nil
  have "ren [] = (\<lambda>x. x)" by (simp add: ren_def fun_eq_iff)
  then show ?case by (simp add: renumber_id)
qed

lemma ren_zip:
  "distinct os \<Longrightarrow> length ys = length os \<Longrightarrow> k < length os \<Longrightarrow> ren (zip os ys) (os ! k) = ys ! k"
  by (simp add: ren_def map_of_zip_nth)

lemma rows_renumber:
  "context_rows (renumber c f db) c' = map (move_item c f) (context_rows db c')"
  by (simp add: context_rows_def filter_map comp_def)

lemma items_renumber_other: "c' \<noteq> c \<Longrightarrow> get_context_items (renumber c f db) c' = get_context_items db c'"
proof -
  assume "c' \<noteq> c"
  then have "context_rows (renumber c f db) c' = context_rows db c'"
    unfolding rows_renumber by (intro map_idI) (auto simp: context_rows_def move_item_def)
  then show ?thesis by (simp add: get_context_items_def)
qed

lemma wf_renumber:
  assumes "wf_db db" "inj_on f (ci_ordinal ` set (context_rows db c))"
    "\<forall>i \<in> set (context_rows db c). 0 \<le> f (ci_ordinal i)"
  shows "wf_db (renumber c f db)"
proof -
  have dist: "distinct (db_context_items db)" and inj: "inj_on context_key (set (db_context_items db))"
    using assms(1) by (auto simp: wf_db_def distinct_map)
  have "inj_on (context_key \<circ> move_item c f) (set (db_context_items db))"
  proof (rule inj_onI)
    fix i j assume ij: "i \<in> set (db_context_items db)" "j \<in> set (db_context_items db)"
      "(context_key \<circ> move_item c f) i = (context_key \<circ> move_item c f) j"
    then have conv: "ci_conversation_id i = ci_conversation_id j"
      and ord: "ci_ordinal (move_item c f i) = ci_ordinal (move_item c f j)"
      by (auto simp: context_key_def split: if_splits)
    have "ci_ordinal i = ci_ordinal j"
    proof (cases "ci_conversation_id i = c")
      case True
      then show ?thesis
        using ij(1,2) conv ord by - (rule inj_onD[OF assms(2)], auto simp: context_rows_def)
    qed (use conv ord in simp)
    with conv have "context_key i = context_key j" by (simp add: context_key_def)
    then show "i = j" by (rule inj_onD[OF inj _ ij(1,2)])
  qed
  then have "distinct (map (context_key \<circ> move_item c f) (db_context_items db))"
    using dist by (simp add: distinct_map)
  then have "distinct (map context_key (map (move_item c f) (db_context_items db)))"
    by simp
  moreover have "0 \<le> ci_ordinal (move_item c f i) \<and> ref_exists db (ci_ref i)"
    if "i \<in> set (db_context_items db)" for i
    using assms(1,3) that by (auto simp: wf_db_def list_all_iff context_rows_def)
  ultimately show ?thesis
    using assms(1) unfolding wf_db_def renumber_def by (simp add: list_all_iff)
qed

definition item_ordinals :: "lcm_db \<Rightarrow> int \<Rightarrow> int list" where
  "item_ordinals db c = map ci_ordinal (get_context_items db c)"

text \<open>The numbers that the renumbering gives to the rows.\<close>

definition seq_map :: "lcm_db \<Rightarrow> int \<Rightarrow> int \<Rightarrow> int" where
  "seq_map db c = ren (zip (item_ordinals db c) (map int [0..<length (item_ordinals db c)]))"

lemma row_ordinal_nth:
  assumes "i \<in> set (db_context_items db)" "ci_conversation_id i = c" "os = item_ordinals db c"
  obtains k where "k < length os" "ci_ordinal i = os ! k"
proof -
  have "ci_ordinal i \<in> set os" using assms by (simp add: item_ordinals_def)
  then show ?thesis by (metis in_set_conv_nth that)
qed

lemma distinct_item_ordinals: "wf_db db \<Longrightarrow> distinct (item_ordinals db c)"
  using strict_items[of db c] by (simp add: item_ordinals_def strict_sorted_iff)

lemma item_ordinals_nonneg: "wf_db db \<Longrightarrow> o' \<in> set (item_ordinals db c) \<Longrightarrow> 0 \<le> o'"
  by (auto simp: item_ordinals_def wf_db_def list_all_iff)

lemma seq_map_nth:
  "wf_db db \<Longrightarrow> k < length (item_ordinals db c) \<Longrightarrow> seq_map db c (item_ordinals db c ! k) = int k"
  by (simp add: seq_map_def ren_zip distinct_item_ordinals)

lemma has_key_item_ordinals: "has_context_key db c n \<longleftrightarrow> n \<in> set (item_ordinals db c)"
  by (auto simp: has_context_key_def list_ex_iff item_ordinals_def)

lemma resequence_renumber:
  assumes wf: "wf_db db"
  shows "resequence c db = Inr (renumber c (seq_map db c) db)"
proof -
  define os where "os = item_ordinals db c"
  define idx where "idx = map int [0..<length os]"
  define neg where "neg = map (\<lambda>i. - (i + 1)) idx"
  have os: "distinct os" "\<forall>x \<in> set os. 0 \<le> x"
    using distinct_item_ordinals[OF wf] item_ordinals_nonneg[OF wf] by (auto simp: os_def)
  have len: "length idx = length os" "length neg = length os" by (auto simp: idx_def neg_def)
  have idx: "distinct idx" "distinct neg" "\<forall>x \<in> set idx. 0 \<le> x" "\<forall>x \<in> set neg. x < 0"
    by (auto simp: idx_def neg_def distinct_map intro!: inj_onI)
  have def: "resequence c db = (if list_ex (\<lambda>(cur, i). cur \<noteq> i) (zip os idx)
      then bindE (foldE (update_ordinal c) (zip os neg) db) (foldE (update_ordinal c) (zip neg idx))
      else Inr db)"
    by (simp add: resequence_def Let_def os_def item_ordinals_def idx_def neg_def)
  have first: "foldE (update_ordinal c) (zip os neg) db = Inr (renumber c (ren (zip os neg)) db)"
  proof (rule update_pass)
    show "\<forall>new \<in> set (map snd (zip os neg)). \<not> has_context_key db c new \<and> new \<notin> set (map fst (zip os neg))"
      using os idx len by (force simp: has_key_item_ordinals simp flip: os_def)
  qed (use os idx len in simp_all)
  have key: "\<not> has_context_key (renumber c (ren (zip os neg)) db) c n" if "n \<in> set idx" for n
  proof
    assume "has_context_key (renumber c (ren (zip os neg)) db) c n"
    then obtain i where i: "i \<in> set (db_context_items db)" "ci_conversation_id i = c"
      "ren (zip os neg) (ci_ordinal i) = n"
      by (auto simp: has_key_renumber)
    obtain k where "k < length os" "ci_ordinal i = os ! k"
      using i(1,2) os_def by (rule row_ordinal_nth)
    with i os len have "n = neg ! k" by (simp add: ren_zip)
    with idx that \<open>k < length os\<close> len show False by (metis nth_mem not_less)
  qed
  have second: "foldE (update_ordinal c) (zip neg idx) (renumber c (ren (zip os neg)) db) =
      Inr (renumber c (ren (zip neg idx)) (renumber c (ren (zip os neg)) db))"
    using idx len key by (intro update_pass) fastforce+
  have "renumber c (ren (zip neg idx) \<circ> ren (zip os neg)) db = renumber c (seq_map db c) db"
  proof (rule renumber_cong)
    fix i assume "i \<in> set (db_context_items db)" "ci_conversation_id i = c"
    then obtain k where "k < length os" "ci_ordinal i = os ! k"
      using os_def by (rule row_ordinal_nth)
    then show "(ren (zip neg idx) \<circ> ren (zip os neg)) (ci_ordinal i) = seq_map db c (ci_ordinal i)"
      using os idx len by (simp add: ren_zip seq_map_def flip: os_def idx_def)
  qed
  moreover have "renumber c (seq_map db c) db = db" if "\<not> list_ex (\<lambda>(cur, i). cur \<noteq> i) (zip os idx)"
  proof -
    have "os = idx" using that len by (auto simp: list_ex_iff list_eq_iff_zip_eq)
    have "renumber c (seq_map db c) db = renumber c (\<lambda>x. x) db"
    proof (rule renumber_cong)
      fix i assume "i \<in> set (db_context_items db)" "ci_conversation_id i = c"
      then obtain k where "k < length os" "ci_ordinal i = os ! k"
        using os_def by (rule row_ordinal_nth)
      then show "seq_map db c (ci_ordinal i) = ci_ordinal i"
        using seq_map_nth[OF wf, of k c] arg_cong[OF \<open>os = idx\<close>, of "\<lambda>l. l ! k"]
        by (simp add: os_def idx_def)
    qed
    then show ?thesis by (simp add: renumber_id)
  qed
  ultimately show ?thesis
    unfolding def first using second by (simp add: renumber_renumber)
qed

lemma seq_map_items:
  assumes wf: "wf_db db"
  shows "get_context_items (renumber c (seq_map db c) db) c =
       map (\<lambda>i. i\<lparr>ci_ordinal := seq_map db c (ci_ordinal i)\<rparr>) (get_context_items db c)"
    and "wf_db (renumber c (seq_map db c) db)"
    and "map (seq_map db c) (item_ordinals db c) = map int [0..<length (item_ordinals db c)]"
proof -
  let ?os = "item_ordinals db c"
  show seq: "map (seq_map db c) ?os = map int [0..<length ?os]"
    by (rule nth_equalityI) (auto simp: seq_map_nth[OF wf])
  have rows: "ci_ordinal ` set (context_rows db c) = set ?os"
    by (auto simp: item_ordinals_def context_rows_def)
  have "inj_on (seq_map db c) (set ?os)"
    using arg_cong[OF seq, of distinct] by (simp add: distinct_map del: map_map)
  moreover have "\<forall>x \<in> set ?os. 0 \<le> seq_map db c x"
    using arg_cong[OF seq, of set] by (metis (no_types, lifting) imageE imageI list.set_map of_nat_0_le_iff)
  ultimately show wf': "wf_db (renumber c (seq_map db c) db)"
    using rows by (intro wf_renumber[OF wf]) auto
  have move: "map (move_item c (seq_map db c)) (get_context_items db c)
      = map (\<lambda>i. i\<lparr>ci_ordinal := seq_map db c (ci_ordinal i)\<rparr>) (get_context_items db c)"
    by (auto simp: move_item_def)
  have "get_context_items (renumber c (seq_map db c) db) c = map (move_item c (seq_map db c)) (get_context_items db c)"
  proof (rule items_unique[OF wf'])
    show "mset (map (move_item c (seq_map db c)) (get_context_items db c)) =
        mset (context_rows (renumber c (seq_map db c) db) c)"
      by (simp add: rows_renumber get_context_items_def)
    have "map ci_ordinal (map (move_item c (seq_map db c)) (get_context_items db c)) = map (seq_map db c) ?os"
      unfolding move by (simp add: item_ordinals_def)
    then show "sorted (map ci_ordinal (map (move_item c (seq_map db c)) (get_context_items db c)))"
      unfolding seq by (simp add: sorted_map sorted_wrt_upt)
  qed
  then show "get_context_items (renumber c (seq_map db c) db) c =
       map (\<lambda>i. i\<lparr>ci_ordinal := seq_map db c (ci_ordinal i)\<rparr>) (get_context_items db c)"
    unfolding move .
qed

text \<open>The rows of the other tables are untouched by a change of the context.\<close>

definition same_records :: "lcm_db \<Rightarrow> lcm_db \<Rightarrow> bool" where
  "same_records db db' \<longleftrightarrow> db'\<lparr>db_context_items := []\<rparr> = db\<lparr>db_context_items := []\<rparr>"

lemma same_records_fields:
  "same_records db db' \<Longrightarrow> db_messages db' = db_messages db \<and> db_summaries db' = db_summaries db
     \<and> db_next_message_id db' = db_next_message_id db \<and> db_message_parts db' = db_message_parts db
     \<and> db_summary_messages db' = db_summary_messages db \<and> db_summary_parents db' = db_summary_parents db"
  by (cases db; cases db') (simp add: same_records_def)

lemma resequence_ok:
  assumes wf: "wf_db db"
  shows "\<exists>db'. resequence c db = Inr db' \<and> wf_db db' \<and> same_records db db'
     \<and> context_refs db' c = context_refs db c
     \<and> item_ordinals db' c = map int [0..<length (item_ordinals db c)]
     \<and> (\<forall>c'. c' \<noteq> c \<longrightarrow> get_context_items db' c' = get_context_items db c')"
proof (intro exI conjI allI impI)
  show "resequence c db = Inr (renumber c (seq_map db c) db)" by (rule resequence_renumber[OF wf])
  show "wf_db (renumber c (seq_map db c) db)" by (rule seq_map_items(2)[OF wf])
  show "same_records db (renumber c (seq_map db c) db)" by (simp add: same_records_def renumber_def)
  show "context_refs (renumber c (seq_map db c) db) c = context_refs db c"
    by (simp add: context_refs_def seq_map_items(1)[OF wf] comp_def)
  show "item_ordinals (renumber c (seq_map db c) db) c = map int [0..<length (item_ordinals db c)]"
    using seq_map_items(3)[OF wf, of c] by (simp add: item_ordinals_def seq_map_items(1)[OF wf] comp_def)
qed (simp add: items_renumber_other)

lemma replace_ok:
  assumes wf: "wf_db db" and range: "0 \<le> s" "s \<le> e" and ref: "ref_exists db (Sum sid)"
  shows "\<exists>db'. replace_context_range_with_summary c s e sid db = Inr db' \<and> wf_db db' \<and> same_records db db'
     \<and> context_refs db' c = map ci_ref (filter (\<lambda>i. ci_ordinal i < s) (get_context_items db c))
          @ Sum sid # map ci_ref (filter (\<lambda>i. e < ci_ordinal i) (get_context_items db c))
     \<and> item_ordinals db' c = map int [0..<length (context_refs db' c)]
     \<and> (\<forall>c'. c' \<noteq> c \<longrightarrow> get_context_items db' c' = get_context_items db c')"
proof -
  let ?P = "\<lambda>i. ci_conversation_id i = c \<and> s \<le> ci_ordinal i \<and> ci_ordinal i \<le> e"
  define db1 where "db1 = delete_context_items ?P db"
  have wf1: "wf_db db1" unfolding db1_def by (rule wf_delete_context_items[OF wf])
  have "\<not> has_context_key db1 c s"
    using range by (auto simp: db1_def delete_context_items_def has_context_key_def list_ex_iff)
  moreover have "ref_exists db1 (Sum sid)" using ref by (simp add: db1_def delete_context_items_def)
  ultimately obtain db2 where db2: "insert_context_item c s (Sum sid) db1 = Inr db2"
    by (simp add: insert_context_item_def)
  have wf2: "wf_db db2" by (rule wf_insert_context_item[OF wf1 range(1) db2])
  have same: "same_records db db2"
    using db2 by (auto simp: insert_context_item_def same_records_def db1_def delete_context_items_def split: if_splits)
  have items2: "get_context_items db2 c = filter (\<lambda>i. ci_ordinal i < s) (get_context_items db c)
      @ \<lparr>ci_conversation_id = c, ci_ordinal = s, ci_ref = Sum sid\<rparr>
      # filter (\<lambda>i. e < ci_ordinal i) (get_context_items db c)"
    unfolding items_insert[OF wf1 range(1) db2] db1_def items_delete filter_filter
    using range by (intro arg_cong2[of _ _ _ _ "(@)"] arg_cong[of _ _ "(#) _"] filter_cong; auto)
  have other2: "get_context_items db2 c' = get_context_items db c'" if "c' \<noteq> c" for c'
    using that by (simp add: items_insert_other[OF that db2] db1_def items_delete)
  obtain db' where db': "resequence c db2 = Inr db'" "wf_db db'" "same_records db2 db'"
    "context_refs db' c = context_refs db2 c"
    "item_ordinals db' c = map int [0..<length (item_ordinals db2 c)]"
    "\<forall>c'. c' \<noteq> c \<longrightarrow> get_context_items db' c' = get_context_items db2 c'"
    using resequence_ok[OF wf2] by blast
  have "replace_context_range_with_summary c s e sid db = Inr db'"
    by (simp add: replace_context_range_with_summary_def db1_def[symmetric] db2 db'(1))
  moreover have "same_records db db'" using same db'(3) by (simp add: same_records_def)
  moreover have "length (item_ordinals db2 c) = length (context_refs db' c)"
    by (simp add: db'(4)) (simp add: context_refs_def item_ordinals_def)
  moreover have "\<forall>c'. c' \<noteq> c \<longrightarrow> get_context_items db' c' = get_context_items db c'"
    using db'(6) other2 by simp
  moreover have "context_refs db' c = map ci_ref (filter (\<lambda>i. ci_ordinal i < s) (get_context_items db c))
          @ Sum sid # map ci_ref (filter (\<lambda>i. e < ci_ordinal i) (get_context_items db c))"
    unfolding db'(4) by (simp add: context_refs_def items2)
  ultimately show ?thesis
    using db'(2,5) by metis
qed

subsection \<open>Tokens\<close>

lemma token_count_refs:
  "get_context_token_count db c = sum_list (map (ref_tokens db) (context_refs db c))"
proof -
  have "mset (map (\<lambda>i. ref_tokens db (ci_ref i)) (context_rows db c)) =
      mset (map (\<lambda>i. ref_tokens db (ci_ref i)) (get_context_items db c))"
    by (simp add: get_context_items_def)
  then have "sum_list (map (\<lambda>i. ref_tokens db (ci_ref i)) (context_rows db c)) =
      sum_list (map (\<lambda>i. ref_tokens db (ci_ref i)) (get_context_items db c))"
    by (metis sum_mset_sum_list)
  then show ?thesis by (simp add: get_context_token_count_def context_refs_def comp_def)
qed

lemma ref_tokens_same: "same_records db db' \<Longrightarrow> ref_tokens db' = ref_tokens db"
proof
  fix r assume "same_records db db'"
  then show "ref_tokens db' r = ref_tokens db r"
    using same_records_fields[of db db'] by (cases r) auto
qed

subsection \<open>The interface that compaction uses\<close>

text \<open>
  A context log: numbered entries in increasing order, a replacement of a range of numbers
  by one entry, and a total of the entries' costs. What compaction needs from it is proved
  once here: replacing the numbers from the smallest to the largest of a block of
  neighbours replaces exactly that block, and changes the total by its cost.
\<close>

locale context_log =
  fixes items :: "'db \<Rightarrow> (int \<times> 'r) list"
    and replace :: "int \<Rightarrow> int \<Rightarrow> 'r \<Rightarrow> 'db \<Rightarrow> 'e + 'db"
    and cost :: "'db \<Rightarrow> 'r \<Rightarrow> int"
    and total :: "'db \<Rightarrow> int"
    and ok :: "'db \<Rightarrow> bool"
    and known :: "'db \<Rightarrow> 'r \<Rightarrow> bool"
  assumes increasing: "ok db \<Longrightarrow> sorted_wrt (<) (map fst (items db))"
    and from_zero: "ok db \<Longrightarrow> p \<in> set (items db) \<Longrightarrow> 0 \<le> fst p"
    and replace_range: "ok db \<Longrightarrow> 0 \<le> s \<Longrightarrow> s \<le> e \<Longrightarrow> known db r \<Longrightarrow>
      \<exists>db'. replace s e r db = Inr db' \<and> ok db' \<and> cost db' = cost db
        \<and> map snd (items db') = map snd (filter (\<lambda>p. fst p < s) (items db)) @ r
             # map snd (filter (\<lambda>p. e < fst p) (items db))"
    and total_cost: "ok db \<Longrightarrow> total db = sum_list (map (cost db) (map snd (items db)))"
begin

lemma block_bounds:
  assumes "ok db" "items db = xs @ ys @ zs" "ys \<noteq> []"
  shows "filter (\<lambda>p. fst p < Min (fst ` set ys)) (items db) = xs"
    and "filter (\<lambda>p. Max (fst ` set ys) < fst p) (items db) = zs"
    and "0 \<le> Min (fst ` set ys)" and "Min (fst ` set ys) \<le> Max (fst ` set ys)"
proof -
  have fin: "finite (fst ` set ys)" "fst ` set ys \<noteq> {}" using assms(3) by auto
  have sorted: "sorted_wrt (<) (map fst xs @ map fst ys @ map fst zs)"
    using increasing[OF assms(1)] assms(2) by simp
  then have "\<forall>x \<in> fst ` set xs. \<forall>y \<in> fst ` set ys. x < y" "\<forall>y \<in> fst ` set ys. \<forall>z \<in> fst ` set zs. y < z"
    by (auto simp: sorted_wrt_append)
  then have low: "x \<in> fst ` set xs \<Longrightarrow> x < Min (fst ` set ys)"
    and high: "z \<in> fst ` set zs \<Longrightarrow> Max (fst ` set ys) < z" for x z
    using fin by (auto simp: Min_gr_iff Max_less_iff)
  have mid: "Min (fst ` set ys) \<le> y \<and> y \<le> Max (fst ` set ys)" if "y \<in> fst ` set ys" for y
    using that fin by auto
  show le: "Min (fst ` set ys) \<le> Max (fst ` set ys)"
    using mid fin by (meson Max_in)
  have "\<not> fst p < Min (fst ` set ys)" if "p \<in> set ys \<or> p \<in> set zs" for p
    using that mid[of "fst p"] high[of "fst p"] le by (auto simp: not_less)
  moreover have "\<not> Max (fst ` set ys) < fst p" if "p \<in> set ys \<or> p \<in> set xs" for p
    using that mid[of "fst p"] low[of "fst p"] le by (auto simp: not_less)
  ultimately show "filter (\<lambda>p. fst p < Min (fst ` set ys)) (items db) = xs"
    "filter (\<lambda>p. Max (fst ` set ys) < fst p) (items db) = zs"
    using low high by (auto simp: assms(2) filter_id_conv filter_empty_conv)
  show "0 \<le> Min (fst ` set ys)"
    using from_zero[OF assms(1)] fin by (auto simp: assms(2))
qed

lemma replace_block:
  assumes "ok db" "items db = xs @ ys @ zs" "ys \<noteq> []" "known db r"
  shows "\<exists>db'. replace (Min (fst ` set ys)) (Max (fst ` set ys)) r db = Inr db' \<and> ok db'
     \<and> map snd (items db') = map snd xs @ r # map snd zs
     \<and> total db' = total db - sum_list (map (cost db) (map snd ys)) + cost db r"
proof -
  note b = block_bounds[OF assms(1-3)]
  obtain db' where db': "replace (Min (fst ` set ys)) (Max (fst ` set ys)) r db = Inr db'" "ok db'"
    "cost db' = cost db" "map snd (items db') = map snd xs @ r # map snd zs"
    using replace_range[OF assms(1) b(3,4) assms(4)] unfolding b(1,2) by blast
  have "total db' = sum_list (map (cost db) (map snd (items db')))"
    using total_cost[OF db'(2)] db'(3) by simp
  then have "total db' = total db - sum_list (map (cost db) (map snd ys)) + cost db r"
    unfolding db'(4) using total_cost[OF assms(1)] by (simp add: assms(2))
  with db' show ?thesis by blast
qed

end

definition numbered_refs :: "int \<Rightarrow> lcm_db \<Rightarrow> (int \<times> context_ref) list" where
  "numbered_refs c db = map (\<lambda>i. (ci_ordinal i, ci_ref i)) (get_context_items db c)"

definition replace_with_ref :: "int \<Rightarrow> int \<Rightarrow> int \<Rightarrow> context_ref \<Rightarrow> lcm_db \<Rightarrow> db_error + lcm_db" where
  "replace_with_ref c s e r db = (case r of
     Sum sid \<Rightarrow> replace_context_range_with_summary c s e sid db | Msg _ \<Rightarrow> Inl Integrity_Error)"

lemma numbered_refs_snd: "map snd (numbered_refs c db) = context_refs db c"
  by (simp add: numbered_refs_def context_refs_def)

lemma numbered_refs_fst: "map fst (numbered_refs c db) = item_ordinals db c"
  by (simp add: numbered_refs_def item_ordinals_def)

interpretation ctx: context_log "numbered_refs c" "replace_with_ref c" ref_tokens
  "\<lambda>db. get_context_token_count db c" wf_db "\<lambda>db r. ref_exists db r \<and> (\<exists>sid. r = Sum sid)" for c
proof
  fix db :: lcm_db and s e :: int and r
  assume wf: "wf_db db"
  show "sorted_wrt (<) (map fst (numbered_refs c db))"
    using strict_items[OF wf] by (simp add: numbered_refs_fst item_ordinals_def)
  show "0 \<le> fst p" if "p \<in> set (numbered_refs c db)" for p
    using wf that by (auto simp: numbered_refs_def wf_db_def list_all_iff)
  show "get_context_token_count db c = sum_list (map (ref_tokens db) (map snd (numbered_refs c db)))"
    by (simp only: numbered_refs_snd token_count_refs)
  assume range: "0 \<le> s" "s \<le> e" and ref: "ref_exists db r \<and> (\<exists>sid. r = Sum sid)"
  then obtain sid where r: "r = Sum sid" by blast
  have filt: "map snd (filter (\<lambda>p. P (fst p)) (numbered_refs c db))
      = map ci_ref (filter (\<lambda>i. P (ci_ordinal i)) (get_context_items db c))" for P
    by (simp add: numbered_refs_def filter_map comp_def)
  show "\<exists>db'. replace_with_ref c s e r db = Inr db' \<and> wf_db db' \<and> ref_tokens db' = ref_tokens db
      \<and> map snd (numbered_refs c db') = map snd (filter (\<lambda>p. fst p < s) (numbered_refs c db)) @ r
          # map snd (filter (\<lambda>p. e < fst p) (numbered_refs c db))"
    using replace_ok[OF wf range, of sid c] ref ref_tokens_same[of db]
    unfolding filt[of "\<lambda>n. n < s"] filt[of "\<lambda>n. e < n"] numbered_refs_snd r replace_with_ref_def context_ref.case by blast
qed

subsection \<open>Every operation keeps the tables well formed\<close>

lemma wf_insert_summary:
  assumes "wf_db db" "insert_summary now inp db = Inr db'"
  shows "wf_db db'"
proof -
  have new: "\<not> ref_exists db (Sum (cs_summary_id inp))"
    and db': "db' = db\<lparr>db_summaries := db_summaries db @ [summary_of_input now inp]\<rparr>"
    using assms(2) by (auto simp: insert_summary_def split: if_splits)
  have mono: "ref_exists db r \<Longrightarrow> ref_exists db' r" for r
    by (cases r) (auto simp: db')
  have "distinct (map sr_summary_id (db_summaries db'))"
    using assms(1) new by (auto simp: db' wf_db_def list_ex_iff summary_of_input_def)
  then show ?thesis
    using assms(1) mono unfolding wf_db_def by (simp add: list_all_iff case_prod_beta db' del: ref_exists.simps)
qed

lemma wf_link_message: "wf_db db \<Longrightarrow> link_message sid p db = Inr db' \<Longrightarrow> wf_db db'"
proof -
  assume wf: "wf_db db" and step: "link_message sid p db = Inr db'"
  obtain idx mid where p: "p = (idx, mid)" by (cases p)
  consider "db' = db" |
    "db' = db\<lparr>db_summary_messages := db_summary_messages db @ [(sid, mid, idx)]\<rparr>"
    "ref_exists db (Sum sid)" "ref_exists db (Msg mid)"
    "(sid, mid) \<notin> (\<lambda>(s, m, _). (s, m)) ` set (db_summary_messages db)"
    using step by (force simp: link_message_def p list_ex_iff split: if_splits)
  then show ?thesis
  proof cases
    case 2
    have "ref_exists db' r = ref_exists db r" for r by (cases r) (simp_all add: 2(1))
    then show ?thesis
      using wf 2 unfolding wf_db_def by (simp add: list_all_iff case_prod_beta del: ref_exists.simps)
  qed (use wf in simp)
qed

lemma wf_link_parent: "wf_db db \<Longrightarrow> link_parent sid p db = Inr db' \<Longrightarrow> wf_db db'"
proof -
  assume wf: "wf_db db" and step: "link_parent sid p db = Inr db'"
  obtain idx pid where p: "p = (idx, pid)" by (cases p)
  consider "db' = db" |
    "db' = db\<lparr>db_summary_parents := db_summary_parents db @ [(sid, pid, idx)]\<rparr>"
    "ref_exists db (Sum sid)" "ref_exists db (Sum pid)"
    "(sid, pid) \<notin> (\<lambda>(s, m, _). (s, m)) ` set (db_summary_parents db)"
    using step by (force simp: link_parent_def p list_ex_iff split: if_splits)
  then show ?thesis
  proof cases
    case 2
    have "ref_exists db' r = ref_exists db r" for r by (cases r) (simp_all add: 2(1))
    then show ?thesis
      using wf 2 unfolding wf_db_def by (simp add: list_all_iff case_prod_beta del: ref_exists.simps)
  qed (use wf in simp)
qed

lemma wf_link_summary_to_messages:
  "wf_db db \<Longrightarrow> link_summary_to_messages sid mids db = Inr db' \<Longrightarrow> wf_db db'"
  unfolding link_summary_to_messages_def
  by (rule foldE_invariant[where P = wf_db]) (auto intro: wf_link_message)

lemma wf_link_summary_to_parents:
  "wf_db db \<Longrightarrow> link_summary_to_parents sid pids db = Inr db' \<Longrightarrow> wf_db db'"
  unfolding link_summary_to_parents_def
  by (rule foldE_invariant[where P = wf_db]) (auto intro: wf_link_parent)

lemma wf_prune: "wf_db db \<Longrightarrow> wf_db (prune_for_new_session c d db)"
  by (auto simp: prune_for_new_session_def Let_def wf_delete_context_items split: option.splits)

lemma max_ordinal_le:
  assumes "\<And>i. i \<in> set (context_rows db c) \<Longrightarrow> ci_ordinal i \<le> n" "-1 \<le> n"
  shows "max_ordinal db c \<le> n"
proof -
  have "fold max xs x \<le> n" if "\<forall>y \<in> set (x # xs). y \<le> n" for xs and x :: int
    using that by (induction xs arbitrary: x) auto
  then have "map ci_ordinal (context_rows db c) = x # xs \<Longrightarrow> fold max xs x \<le> n" for x xs
    using assms(1) by (metis (no_types, lifting) imageE list.set_map)
  then show ?thesis
    using assms(2) by (auto simp: max_ordinal_def split: list.splits)
qed

text \<open>Linking succeeds for rows that exist, and adds the pairs that are not there yet.\<close>

definition message_links :: "lcm_db \<Rightarrow> (string \<times> int) set" where
  "message_links db = (\<lambda>(s, m, _). (s, m)) ` set (db_summary_messages db)"

definition parent_links :: "lcm_db \<Rightarrow> (string \<times> string) set" where
  "parent_links db = (\<lambda>(s, p, _). (s, p)) ` set (db_summary_parents db)"

lemma link_message_fold:
  assumes "ref_exists db (Sum sid)" "\<forall>p \<in> set ps. ref_exists db (Msg (snd p))"
  shows "\<exists>rows. foldE (link_message sid) ps db = Inr (db\<lparr>db_summary_messages := rows\<rparr>)
     \<and> (\<lambda>(s, m, _). (s, m)) ` set rows = message_links db \<union> (Pair sid ` snd ` set ps)"
  using assms
proof (induction ps arbitrary: db)
  case Nil
  show ?case by (rule exI[of _ "db_summary_messages db"]) (simp add: message_links_def)
next
  case (Cons p ps)
  obtain idx mid where p: "p = (idx, mid)" by (cases p)
  show ?case
  proof (cases "list_ex (\<lambda>(s, m, _). s = sid \<and> m = mid) (db_summary_messages db)")
    case True
    then have old: "(sid, mid) \<in> message_links db" by (force simp: message_links_def list_ex_iff)
    obtain rows where rows: "foldE (link_message sid) ps db = Inr (db\<lparr>db_summary_messages := rows\<rparr>)"
      "(\<lambda>(s, m, _). (s, m)) ` set rows = message_links db \<union> (Pair sid ` snd ` set ps)"
      using Cons.IH[OF Cons.prems(1)] Cons.prems(2) by auto
    have "link_message sid p db = Inr db" using True by (simp add: link_message_def p)
    then show ?thesis
      using rows old by (intro exI[of _ rows]) (auto simp: p)
  next
    case False
    let ?db = "db\<lparr>db_summary_messages := db_summary_messages db @ [(sid, mid, idx)]\<rparr>"
    have step: "link_message sid p db = Inr ?db"
      using False Cons.prems by (simp add: link_message_def p)
    have links: "message_links ?db = insert (sid, mid) (message_links db)"
      by (auto simp: message_links_def)
    have "\<exists>rows. foldE (link_message sid) ps ?db = Inr (?db\<lparr>db_summary_messages := rows\<rparr>)
       \<and> (\<lambda>(s, m, _). (s, m)) ` set rows = message_links ?db \<union> (Pair sid ` snd ` set ps)"
      using Cons.prems by (intro Cons.IH) auto
    then obtain rows where "foldE (link_message sid) ps ?db = Inr (?db\<lparr>db_summary_messages := rows\<rparr>)"
      "(\<lambda>(s, m, _). (s, m)) ` set rows = message_links ?db \<union> (Pair sid ` snd ` set ps)" by blast
    then show ?thesis
      using step links by (intro exI[of _ rows]) (auto simp: p)
  qed
qed

lemma link_parent_fold:
  assumes "ref_exists db (Sum sid)" "\<forall>p \<in> set ps. ref_exists db (Sum (snd p))"
  shows "\<exists>rows. foldE (link_parent sid) ps db = Inr (db\<lparr>db_summary_parents := rows\<rparr>)
     \<and> (\<lambda>(s, m, _). (s, m)) ` set rows = parent_links db \<union> (Pair sid ` snd ` set ps)"
  using assms
proof (induction ps arbitrary: db)
  case Nil
  show ?case by (rule exI[of _ "db_summary_parents db"]) (simp add: parent_links_def)
next
  case (Cons p ps)
  obtain idx pid where p: "p = (idx, pid)" by (cases p)
  show ?case
  proof (cases "list_ex (\<lambda>(s, m, _). s = sid \<and> m = pid) (db_summary_parents db)")
    case True
    then have old: "(sid, pid) \<in> parent_links db" by (force simp: parent_links_def list_ex_iff)
    obtain rows where rows: "foldE (link_parent sid) ps db = Inr (db\<lparr>db_summary_parents := rows\<rparr>)"
      "(\<lambda>(s, m, _). (s, m)) ` set rows = parent_links db \<union> (Pair sid ` snd ` set ps)"
      using Cons.IH[OF Cons.prems(1)] Cons.prems(2) by auto
    have "link_parent sid p db = Inr db" using True by (simp add: link_parent_def p)
    then show ?thesis
      using rows old by (intro exI[of _ rows]) (auto simp: p)
  next
    case False
    let ?db = "db\<lparr>db_summary_parents := db_summary_parents db @ [(sid, pid, idx)]\<rparr>"
    have step: "link_parent sid p db = Inr ?db"
      using False Cons.prems by (simp add: link_parent_def p)
    have links: "parent_links ?db = insert (sid, pid) (parent_links db)"
      by (auto simp: parent_links_def)
    have "\<exists>rows. foldE (link_parent sid) ps ?db = Inr (?db\<lparr>db_summary_parents := rows\<rparr>)
       \<and> (\<lambda>(s, m, _). (s, m)) ` set rows = parent_links ?db \<union> (Pair sid ` snd ` set ps)"
      using Cons.prems by (intro Cons.IH) auto
    then obtain rows where "foldE (link_parent sid) ps ?db = Inr (?db\<lparr>db_summary_parents := rows\<rparr>)"
      "(\<lambda>(s, m, _). (s, m)) ` set rows = parent_links ?db \<union> (Pair sid ` snd ` set ps)" by blast
    then show ?thesis
      using step links by (intro exI[of _ rows]) (auto simp: p)
  qed
qed

lemma link_summary_to_messages_ok:
  assumes "ref_exists db (Sum sid)" "\<forall>m \<in> set mids. ref_exists db (Msg m)"
  shows "\<exists>rows. link_summary_to_messages sid mids db = Inr (db\<lparr>db_summary_messages := rows\<rparr>)
     \<and> message_links (db\<lparr>db_summary_messages := rows\<rparr>) = message_links db \<union> Pair sid ` set mids"
proof -
  let ?ps = "zip (map int [0..<length mids]) mids"
  have snd: "snd ` set ?ps = set mids" by (metis length_map length_upt diff_zero map_snd_zip list.set_map)
  then have "\<forall>p \<in> set ?ps. ref_exists db (Msg (snd p))" using assms(2) by blast
  from link_message_fold[OF assms(1) this] snd show ?thesis
    by (auto simp: link_summary_to_messages_def message_links_def)
qed

lemma link_summary_to_parents_ok:
  assumes "ref_exists db (Sum sid)" "\<forall>m \<in> set pids. ref_exists db (Sum m)"
  shows "\<exists>rows. link_summary_to_parents sid pids db = Inr (db\<lparr>db_summary_parents := rows\<rparr>)
     \<and> parent_links (db\<lparr>db_summary_parents := rows\<rparr>) = parent_links db \<union> Pair sid ` set pids"
proof -
  let ?ps = "zip (map int [0..<length pids]) pids"
  have snd: "snd ` set ?ps = set pids" by (metis length_map length_upt diff_zero map_snd_zip list.set_map)
  then have "\<forall>p \<in> set ?ps. ref_exists db (Sum (snd p))" using assms(2) by blast
  from link_parent_fold[OF assms(1) this] snd show ?thesis
    by (auto simp: link_summary_to_parents_def parent_links_def)
qed

text \<open>The messages appended by one call take the next ordinals, one after the other.\<close>

lemma append_loop:
  assumes "wf_db db" "max_ordinal db c < base + int k"
    "foldE (\<lambda>(idx, mid). insert_context_item c (base + idx) (Msg mid))
       (zip (map int [k..<k + length mids]) mids) db = Inr db'"
  shows "context_refs db' c = context_refs db c @ map Msg mids \<and> wf_db db' \<and> same_records db db'
     \<and> (\<forall>c'. c' \<noteq> c \<longrightarrow> get_context_items db' c' = get_context_items db c')"
  using assms
proof (induction mids arbitrary: k db)
  case (Cons mid mids)
  have upt: "[k..<k + length (mid # mids)] = k # [Suc k..<Suc k + length mids]"
    by (simp add: upt_conv_Cons del: upt_Suc)
  obtain db1 where one: "insert_context_item c (base + int k) (Msg mid) db = Inr db1"
    and rest: "foldE (\<lambda>(idx, mid). insert_context_item c (base + idx) (Msg mid))
       (zip (map int [Suc k..<Suc k + length mids]) mids) db1 = Inr db'"
    using Cons.prems(3) unfolding upt by auto
  have nonneg: "0 \<le> base + int k" using max_ordinal_lower[OF Cons.prems(1), of c] Cons.prems(2) by simp
  have wf1: "wf_db db1" by (rule wf_insert_context_item[OF Cons.prems(1) nonneg one])
  have items1: "get_context_items db1 c = get_context_items db c
     @ [\<lparr>ci_conversation_id = c, ci_ordinal = base + int k, ci_ref = Msg mid\<rparr>]"
    by (rule items_append[OF Cons.prems(1,2) one])
  have "ci_ordinal i \<le> base + int k" if "i \<in> set (context_rows db1 c)" for i
  proof (cases "i \<in> set (context_rows db c)")
    case True
    then show ?thesis using max_ordinal_ge[of i db c] Cons.prems(2) by (simp add: context_rows_def)
  qed (use that in \<open>simp add: rows_insert[OF one]\<close>)
  then have "max_ordinal db1 c < base + int (Suc k)"
    using max_ordinal_le[of db1 c "base + int k"] nonneg by simp
  note IH = Cons.IH[OF wf1 this rest]
  have "same_records db db1"
    using one by (auto simp: insert_context_item_def same_records_def split: if_splits)
  with IH items1 show ?case
    using items_insert_other[OF _ one] by (auto simp: context_refs_def same_records_def)
qed (simp add: same_records_def)

lemma wf_replace:
  assumes "wf_db db" "0 \<le> s" "replace_context_range_with_summary c s e sid db = Inr db'"
  shows "wf_db db'"
proof -
  obtain db2 where ins: "insert_context_item c s (Sum sid) (delete_context_items (\<lambda>i. ci_conversation_id i = c
        \<and> s \<le> ci_ordinal i \<and> ci_ordinal i \<le> e) db) = Inr db2" and res: "resequence c db2 = Inr db'"
    using assms(3) unfolding replace_context_range_with_summary_def bindE_Inr by blast
  show ?thesis
    using resequence_ok[OF wf_insert_context_item[OF wf_delete_context_items[OF assms(1)] assms(2) ins], of c] res
    by auto
qed

lemma append_messages_ok:
  assumes "wf_db db" "append_context_messages c mids db = Inr db'"
  shows "context_refs db' c = context_refs db c @ map Msg mids \<and> wf_db db' \<and> same_records db db'
     \<and> (\<forall>c'. c' \<noteq> c \<longrightarrow> get_context_items db' c' = get_context_items db c')"
proof (cases "mids = []")
  case False
  then show ?thesis
    using assms(2) append_loop[OF assms(1), of c "max_ordinal db c + 1" 0 mids db']
    by (simp add: append_context_messages_def Let_def)
qed (use assms in \<open>simp add: append_context_messages_def same_records_def\<close>)

lemma wf_append:
  "wf_db db \<Longrightarrow> insert_context_item c (max_ordinal db c + 1) r db = Inr db' \<Longrightarrow> wf_db db'"
  using max_ordinal_lower[of db c] wf_insert_context_item[of db "max_ordinal db c + 1" c r db'] by simp

datatype store_op =
    Op_Insert_Summary int create_summary_input
  | Op_Link_Messages string "int list"
  | Op_Link_Parents string "string list"
  | Op_Append_Message int int
  | Op_Append_Messages int "int list"
  | Op_Append_Summary int string
  | Op_Replace int nat int string
  | Op_Prune int "real option"

fun run_store_op :: "store_op \<Rightarrow> lcm_db \<Rightarrow> db_error + lcm_db" where
  "run_store_op (Op_Insert_Summary now inp) db = insert_summary now inp db"
| "run_store_op (Op_Link_Messages sid mids) db = link_summary_to_messages sid mids db"
| "run_store_op (Op_Link_Parents sid pids) db = link_summary_to_parents sid pids db"
| "run_store_op (Op_Append_Message c mid) db = append_context_message c mid db"
| "run_store_op (Op_Append_Messages c mids) db = append_context_messages c mids db"
| "run_store_op (Op_Append_Summary c sid) db = append_context_summary c sid db"
| "run_store_op (Op_Replace c s e sid) db = replace_context_range_with_summary c (int s) e sid db"
| "run_store_op (Op_Prune c d) db = Inr (prune_for_new_session c d db)"

lemma wf_run_store_op: "wf_db db \<Longrightarrow> run_store_op op db = Inr db' \<Longrightarrow> wf_db db'"
  by (cases op)
    (auto simp: append_context_message_def append_context_summary_def wf_prune
      intro: wf_insert_summary wf_link_summary_to_messages wf_link_summary_to_parents wf_append
        wf_replace[OF _ of_nat_0_le_iff]
      dest: append_messages_ok)

definition empty_db :: lcm_db where
  "empty_db = \<lparr>db_messages = [], db_next_message_id = 1, db_message_parts = [], db_summaries = [], db_summary_messages = [],
     db_summary_parents = [], db_context_items = []\<rparr>"

definition sample_message :: "int \<Rightarrow> int \<Rightarrow> message_record" where
  "sample_message mid toks = \<lparr>mr_message_id = mid, mr_conversation_id = 1, mr_seq = mid, mr_role = Role_User,
     mr_content = [97, 98], mr_token_count = toks, mr_identity_hash = [], mr_created_at = mid, mr_suppressed = False\<rparr>"

definition sample_input :: "string \<Rightarrow> create_summary_input" where
  "sample_input sid = \<lparr>cs_summary_id = sid, cs_conversation_id = 1, cs_kind = Leaf, cs_content = [99],
     cs_token_count = 1, cs_depth = None, cs_file_ids = None, cs_earliest_at = None, cs_latest_at = None,
     cs_descendant_count = None, cs_descendant_token_count = None, cs_source_message_token_count = None,
     cs_model = None\<rparr>"

text \<open>Four messages at the ordinals 0, 2, 3 and 7, as a pruning leaves them, and a summary.\<close>

definition sample_db :: lcm_db where
  "sample_db = empty_db\<lparr>db_messages := map (\<lambda>i. sample_message i 10) [1, 2, 3, 4], db_next_message_id := 5,
     db_summaries := [summary_of_input 0 (sample_input ''s'')],
     db_context_items := map (\<lambda>(n, m). \<lparr>ci_conversation_id = 1, ci_ordinal = n, ci_ref = Msg m\<rparr>)
       [(0, 1), (2, 2), (3, 3), (7, 4)]\<rparr>"

lemma sample_db_wf: "wf_db sample_db"
  by (simp add: wf_db_def sample_db_def empty_db_def sample_message_def context_key_def
      summary_of_input_def sample_input_def)

lemma sample_db_items: "get_context_items sample_db 1 =
  map (\<lambda>(n, m). \<lparr>ci_conversation_id = 1, ci_ordinal = n, ci_ref = Msg m\<rparr>) [(0, 1), (2, 2), (3, 3), (7, 4)]"
  by (simp add: get_context_items_def context_rows_def sample_db_def)

text \<open>C5. Replacing a range of ordinals by a summary never fails when the summary exists, whatever
  gaps the ordinals have: the references below and above the range keep their order around the one
  summary, the ordinals become \<open>0, 1, 2, \<dots>\<close>, and no other conversation is touched.\<close>

theorem replace_range_refines:
  assumes "wf_db db" "0 \<le> s" "s \<le> e" "ref_exists db (Sum sid)"
  shows "\<exists>db'. replace_context_range_with_summary c s e sid db = Inr db'
     \<and> context_refs db' c = map ci_ref (filter (\<lambda>i. ci_ordinal i < s) (get_context_items db c))
          @ [Sum sid] @ map ci_ref (filter (\<lambda>i. e < ci_ordinal i) (get_context_items db c))
     \<and> map ci_ordinal (get_context_items db' c) = map int [0..<length (context_refs db' c)]
     \<and> (\<forall>c'. c' \<noteq> c \<longrightarrow> get_context_items db' c' = get_context_items db c')
     \<and> wf_db db'"
  using replace_ok[OF assms, of c] by (auto simp: item_ordinals_def)

theorem replace_range_refines_witness:
  "\<exists>db'. replace_context_range_with_summary 1 2 3 ''s'' sample_db = Inr db'
     \<and> context_refs db' 1 = [Msg 1, Sum ''s'', Msg 4]
     \<and> map ci_ordinal (get_context_items db' 1) = [0, 1, 2]"
proof -
  have "ref_exists sample_db (Sum ''s'')"
    by (simp add: sample_db_def summary_of_input_def sample_input_def)
  from replace_range_refines[OF sample_db_wf _ _ this, of 2 3 1] show ?thesis
    by (auto simp: sample_db_items upt_rec)
qed



text \<open>Appending messages to a conversation puts them at the end of its context in the given order
  and changes nothing else.\<close>

theorem append_messages_extends:
  assumes "wf_db db" "append_context_messages c mids db = Inr db'"
  shows "context_refs db' c = context_refs db c @ map Msg mids
     \<and> (\<forall>c'. c' \<noteq> c \<longrightarrow> get_context_items db' c' = get_context_items db c')"
  using append_messages_ok[OF assms] by simp

theorem append_messages_extends_witness:
  "\<exists>db'. append_context_messages 1 [3, 1] sample_db = Inr db'
     \<and> context_refs db' 1 = [Msg 1, Msg 2, Msg 3, Msg 4, Msg 3, Msg 1]"
proof -
  have "\<exists>db'. append_context_messages 1 [3, 1] sample_db = Inr db'"
    by (simp add: sample_db_def empty_db_def sample_message_def
        append_context_messages_def insert_context_item_def has_context_key_def max_ordinal_def context_rows_def
        upt_rec Let_def)
  then obtain db' where db': "append_context_messages 1 [3, 1] sample_db = Inr db'" by blast
  have "context_refs sample_db 1 = [Msg 1, Msg 2, Msg 3, Msg 4]"
    by (simp add: context_refs_def sample_db_items)
  with db' append_messages_extends[OF sample_db_wf db'] show ?thesis by simp
qed

end
