(* ===== verification/Media_Text.thy ===== *)
theory Media_Text
  imports Estimate_Tokens
begin

text \<open>
  The readable text of a message, as compaction feeds it to the summarizer (the text
  helpers of \<open>compaction.py\<close> and \<open>extract_file_ids_from_content\<close> of \<open>large_files.py\<close>):
  embedded media payloads are cut out, JSON-shaped content is walked down to its text
  fields, provider reasoning is left out.

  The regular expressions are written out as the matchers they are, on lists of code
  points. Their alternatives never overlap, so a greedy match is the only one: the run
  before \<open>;base64,\<close> cannot contain the semicolon that ends it. Case-insensitive matching
  includes the non-ASCII letters that Python's \<open>re\<close> folds to ASCII ones. Two things are
  arguments: \<open>loads\<close> is \<open>json.loads\<close>, \<open>None\<close> when it raises, and \<open>is_alnum\<close> is the table
  of alphanumeric code points behind the word boundary of \<open>FILE_ID_RE\<close>.
\<close>

subsection \<open>Code points\<close>

definition u_isspace :: "nat \<Rightarrow> bool" where
  "u_isspace n \<longleftrightarrow> (9 \<le> n \<and> n \<le> 13) \<or> (28 \<le> n \<and> n \<le> 32) \<or> n = 0x85 \<or> n = 0xA0 \<or> n = 0x1680
     \<or> (0x2000 \<le> n \<and> n \<le> 0x200A) \<or> n = 0x2028 \<or> n = 0x2029 \<or> n = 0x202F \<or> n = 0x205F \<or> n = 0x3000"

definition u_lstrip :: "utext \<Rightarrow> utext" where
  "u_lstrip s = dropWhile u_isspace s"

definition u_rstrip :: "utext \<Rightarrow> utext" where
  "u_rstrip s = rev (dropWhile u_isspace (rev s))"

definition u_strip :: "utext \<Rightarrow> utext" where
  "u_strip s = u_rstrip (u_lstrip s)"

text \<open>\<open>str.lower\<close> where it can give an ASCII letter; other letters never lead to one.\<close>

definition u_lower :: "utext \<Rightarrow> utext" where
  "u_lower s = concat (map (\<lambda>n. if 65 \<le> n \<and> n \<le> 90 then [n + 32]
     else if n = 0x130 then [0x69, 0x307] else if n = 0x212A then [0x6B] else [n]) s)"

text \<open>What \<open>re.IGNORECASE\<close> accepts for a lower-case ASCII letter or another ASCII character.\<close>

definition ci_eq :: "nat \<Rightarrow> nat \<Rightarrow> bool" where
  "ci_eq p n \<longleftrightarrow> n = p \<or> (97 \<le> p \<and> p \<le> 122 \<and> n + 32 = p)
     \<or> (p = 0x69 \<and> (n = 0x130 \<or> n = 0x131)) \<or> (p = 0x73 \<and> n = 0x17F) \<or> (p = 0x6B \<and> n = 0x212A)"

definition u_alpha :: "nat \<Rightarrow> bool" where
  "u_alpha n \<longleftrightarrow> (65 \<le> n \<and> n \<le> 90) \<or> (97 \<le> n \<and> n \<le> 122)"

definition u_digit :: "nat \<Rightarrow> bool" where
  "u_digit n \<longleftrightarrow> 48 \<le> n \<and> n \<le> 57"

definition u_join :: "utext \<Rightarrow> utext list \<Rightarrow> utext" where
  "u_join sep parts = (case parts of [] \<Rightarrow> [] | p # ps \<Rightarrow> p @ concat (map (\<lambda>q. sep @ q) ps))"

text \<open>\<open>str(n)\<close> and \<open>f"{n:,}"\<close>, with the digits in groups of three.\<close>

fun dec_digits :: "nat \<Rightarrow> utext" where
  "dec_digits n = (if n < 10 then [48 + n] else dec_digits (n div 10) @ [48 + n mod 10])"

declare dec_digits.simps [simp del]

definition int_text :: "int \<Rightarrow> utext" where
  "int_text n = (if n < 0 then [45] @ dec_digits (nat (- n)) else dec_digits (nat n))"

fun group_digits :: "utext \<Rightarrow> utext" where
  "group_digits (a # b # c # d # ds) = a # b # c # 44 # group_digits (d # ds)"
| "group_digits ds = ds"

definition format_int :: "int \<Rightarrow> utext" where
  "format_int n = (if n < 0 then [45] else []) @ rev (group_digits (rev (dec_digits (nat \<bar>n\<bar>))))"

text \<open>\<open>re.split(r"\r?\n", s)\<close>\<close>

definition drop_cr :: "utext \<Rightarrow> utext" where
  "drop_cr line = (if line \<noteq> [] \<and> last line = 13 then butlast line else line)"

fun split_nl :: "utext \<Rightarrow> utext \<Rightarrow> utext list" where
  "split_nl acc [] = [rev acc]"
| "split_nl acc (c # cs) = (if c = 10 then drop_cr (rev acc) # split_nl [] cs else split_nl (c # acc) cs)"

definition split_lines :: "utext \<Rightarrow> utext list" where
  "split_lines s = split_nl [] s"

fun match_ci :: "utext \<Rightarrow> utext \<Rightarrow> utext option" where
  "match_ci [] s = Some s"
| "match_ci (p # ps) [] = None"
| "match_ci (p # ps) (c # cs) = (if ci_eq p c then match_ci ps cs else None)"

lemma match_ci_length: "match_ci p s = Some r \<Longrightarrow> length r + length p = length s"
  by (induction p s rule: match_ci.induct) (auto split: if_splits)

subsection \<open>Media payloads\<close>

text \<open>\<open>data:[^;\s"'`]+;base64,\<close>: the text after the match.\<close>

definition mime_char :: "nat \<Rightarrow> bool" where
  "mime_char n \<longleftrightarrow> n \<noteq> 59 \<and> \<not> u_isspace n \<and> n \<noteq> 34 \<and> n \<noteq> 39 \<and> n \<noteq> 96"

definition match_data_prefix :: "utext \<Rightarrow> utext option" where
  "match_data_prefix s = (case match_ci (cps ''data:'') s of
     None \<Rightarrow> None
   | Some r \<Rightarrow> if takeWhile mime_char r = [] then None
       else match_ci (cps '';base64,'') (dropWhile mime_char r))"

text \<open>\<open>[A-Za-z0-9+/=\s]\<close> under \<open>re.IGNORECASE\<close>, and \<open>[A-Za-z0-9+/=]\<close> without it.\<close>

definition base64_or_space :: "nat \<Rightarrow> bool" where
  "base64_or_space n \<longleftrightarrow> u_alpha n \<or> u_digit n \<or> n = 43 \<or> n = 47 \<or> n = 61 \<or> u_isspace n
     \<or> n = 0x130 \<or> n = 0x131 \<or> n = 0x17F \<or> n = 0x212A"

definition base64_char :: "nat \<Rightarrow> bool" where
  "base64_char n \<longleftrightarrow> u_alpha n \<or> u_digit n \<or> n = 43 \<or> n = 47 \<or> n = 61"

definition match_data_url :: "utext \<Rightarrow> utext option" where
  "match_data_url s = (case match_data_prefix s of
     None \<Rightarrow> None
   | Some r \<Rightarrow> if takeWhile base64_or_space r = [] then None else Some (dropWhile base64_or_space r))"

lemma match_data_url_shorter: "match_data_url s = Some r \<Longrightarrow> length r < length s"
proof -
  assume "match_data_url s = Some r"
  then obtain a b where a: "match_ci (cps ''data:'') s = Some a"
    and b: "match_ci (cps '';base64,'') (dropWhile mime_char a) = Some b"
    and r: "r = dropWhile base64_or_space b"
    by (auto simp: match_data_url_def match_data_prefix_def split: option.splits if_splits)
  have "length a < length s" using match_ci_length[OF a] by (simp add: cps_def)
  moreover have "length b \<le> length a"
    using match_ci_length[OF b] length_dropWhile_le[of mime_char a] by simp
  moreover have "length r \<le> length b" by (simp add: r length_dropWhile_le)
  ultimately show ?thesis by simp
qed

function replace_data_urls :: "utext \<Rightarrow> utext" where
  "replace_data_urls [] = []"
| "replace_data_urls (c # cs) = (case match_data_url (c # cs) of
     Some r \<Rightarrow> cps ''[embedded media omitted]'' @ replace_data_urls r
   | None \<Rightarrow> c # replace_data_urls cs)"
  by pat_completeness auto
termination
  by (relation "measure length") (auto dest: match_data_url_shorter)

text \<open>\<open>[ .,:;!?()\[\]{}]\<close>\<close>

definition prose_char :: "nat \<Rightarrow> bool" where
  "prose_char n \<longleftrightarrow> n \<in> set (cps '' .,:;!?()[]{}'')"

definition looks_like_binary_payload :: "utext \<Rightarrow> bool" where
  "looks_like_binary_payload value_text =
     (let trimmed = u_strip value_text in
      if trimmed = [] then False
      else if match_data_prefix trimmed \<noteq> None then True
      else let compact = filter (\<lambda>n. \<not> u_isspace n) trimmed in
        if length compact < 256 \<or> length compact mod 4 \<noteq> 0 then False
        else if \<not> list_all base64_char compact then False
        else \<not> list_ex prose_char trimmed)"

text \<open>\<open>^MEDIA:/.+$\<close> on a line, which has no newline.\<close>

definition media_path :: "utext \<Rightarrow> bool" where
  "media_path s \<longleftrightarrow> take 7 s = cps ''MEDIA:/'' \<and> 7 < length s"

definition keep_line :: "utext \<Rightarrow> bool" where
  "keep_line line = (let trimmed = u_strip line in
     \<not> (trimmed = [] \<or> media_path trimmed \<or> looks_like_binary_payload trimmed))"

definition strip_embedded_media_payloads :: "utext \<Rightarrow> utext" where
  "strip_embedded_media_payloads content =
     u_strip (u_join [10] (filter keep_line (map u_rstrip (split_lines (replace_data_urls content)))))"

subsection \<open>Structured content\<close>

definition structured_media_text_keys :: "string list" where
  "structured_media_text_keys = [''text'', ''caption'', ''alt'', ''title'', ''summary'']"

definition structured_media_nested_keys :: "string list" where
  "structured_media_nested_keys = [''content'', ''parts'', ''items'', ''message'', ''messages'']"

definition media_attachment_raw_types :: "utext list" where
  "media_attachment_raw_types = map cps [''file'', ''image'', ''snapshot'']"

definition media_attachment_part_types :: "utext list" where
  "media_attachment_part_types = map cps [''file'', ''snapshot'']"

definition provider_reasoning_raw_types :: "utext list" where
  "provider_reasoning_raw_types = map cps [''reasoning'', ''thinking'']"

definition raw_type_of :: "json \<Rightarrow> utext" where
  "raw_type_of j = (case j of JStr s \<Rightarrow> u_lower (u_strip s) | _ \<Rightarrow> [])"

definition record_text_fragments :: "json \<Rightarrow> utext list" where
  "record_text_fragments obj = List.map_filter (\<lambda>key. case jget key obj of
     JStr s \<Rightarrow> (let t = strip_embedded_media_payloads s in if t = [] then None else Some t)
   | _ \<Rightarrow> None) structured_media_text_keys"

text \<open>The first argument counts down from \<open>_STRUCTURED_TEXT_MAX_DEPTH\<close>.\<close>

fun extract_sanitized_structured_text :: "nat \<Rightarrow> json \<Rightarrow> utext list" where
  "extract_sanitized_structured_text 0 v = []"
| "extract_sanitized_structured_text (Suc k) v = (case v of
     JStr s \<Rightarrow> (let t = strip_embedded_media_payloads s in if t = [] then [] else [t])
   | JArr xs \<Rightarrow> concat (map (extract_sanitized_structured_text k) xs)
   | JObj kvs \<Rightarrow>
       (let raw_type = raw_type_of (jget ''type'' v) in
        if raw_type \<in> set provider_reasoning_raw_types then []
        else if raw_type \<in> set media_attachment_raw_types then record_text_fragments v
        else record_text_fragments v
          @ concat (map (\<lambda>key. extract_sanitized_structured_text k (jget key v)) structured_media_nested_keys))
   | _ \<Rightarrow> [])"

definition structured_text_max_depth :: nat where
  "structured_text_max_depth = 4"

definition is_json_shaped :: "utext \<Rightarrow> bool" where
  "is_json_shaped t \<longleftrightarrow> t \<noteq> [] \<and> ((hd t = 91 \<and> last t = 93) \<or> (hd t = 123 \<and> last t = 125))"

definition extract_meaningful_message_text :: "(utext \<Rightarrow> json option) \<Rightarrow> utext \<Rightarrow> utext" where
  "extract_meaningful_message_text loads content =
     (let trimmed = u_strip content in
      if trimmed = [] then []
      else case (if is_json_shaped trimmed then loads trimmed else None) of
        Some parsed \<Rightarrow> u_strip (u_join [10] (filter (\<lambda>f. f \<noteq> []) (map u_strip
            (extract_sanitized_structured_text structured_text_max_depth parsed))))
      | None \<Rightarrow> strip_embedded_media_payloads content)"

subsection \<open>File references\<close>

definition hex_char :: "nat \<Rightarrow> bool" where
  "hex_char n \<longleftrightarrow> u_digit n \<or> (97 \<le> n \<and> n \<le> 102) \<or> (65 \<le> n \<and> n \<le> 70)"

definition word_char :: "(nat \<Rightarrow> bool) \<Rightarrow> nat \<Rightarrow> bool" where
  "word_char is_alnum n \<longleftrightarrow> is_alnum n \<or> n = 95"

text \<open>\<open>file_[a-f0-9]{16}\b\<close> at a place: the matched text and the rest.\<close>

definition match_file_id :: "(nat \<Rightarrow> bool) \<Rightarrow> utext \<Rightarrow> (utext \<times> utext) option" where
  "match_file_id is_alnum s = (case match_ci (cps ''file_'') s of
     None \<Rightarrow> None
   | Some r \<Rightarrow> if length (take 16 r) = 16 \<and> list_all hex_char (take 16 r)
         \<and> (drop 16 r = [] \<or> \<not> word_char is_alnum (hd (drop 16 r)))
       then Some (take 21 s, drop 16 r) else None)"

lemma match_file_id_shorter: "match_file_id is_alnum s = Some (m, r) \<Longrightarrow> length r < length s"
  by (auto simp: match_file_id_def dest!: match_ci_length split: option.splits if_splits)

text \<open>\<open>findall\<close>; the flag says that the previous character is a word character.\<close>

function find_file_ids :: "(nat \<Rightarrow> bool) \<Rightarrow> bool \<Rightarrow> utext \<Rightarrow> utext list" where
  "find_file_ids is_alnum prev [] = []"
| "find_file_ids is_alnum prev (c # cs) =
     (case (if prev then None else match_file_id is_alnum (c # cs)) of
        Some (m, r) \<Rightarrow> m # find_file_ids is_alnum True r
      | None \<Rightarrow> find_file_ids is_alnum (word_char is_alnum c) cs)"
  by pat_completeness auto
termination
  by (relation "measure (\<lambda>(_, _, s). length s)")
    (auto dest: match_file_id_shorter[THEN le_less_trans[rotated]] match_file_id_shorter split: if_splits)

fun dedupe_from :: "'a list \<Rightarrow> 'a list \<Rightarrow> 'a list" where
  "dedupe_from seen [] = []"
| "dedupe_from seen (x # xs) =
     (if x \<in> set seen then dedupe_from seen xs else x # dedupe_from (x # seen) xs)"

definition dedupe_ordered_ids :: "'a list \<Rightarrow> 'a list" where
  "dedupe_ordered_ids ids = dedupe_from [] ids"

definition extract_file_ids_from_content :: "(nat \<Rightarrow> bool) \<Rightarrow> utext \<Rightarrow> utext list" where
  "extract_file_ids_from_content is_alnum content =
     dedupe_ordered_ids (map u_lower (find_file_ids is_alnum False content))"

end
