(* ===== verification/Message_Store.thy ===== *)
theory Message_Store
  imports Lcm_Db Media_Text
begin

text \<open>
  The messages of a conversation (\<open>store/conversation.py\<close>, \<open>store/message_identity.py\<close>):
  insertion under a fresh id, the reads in sequence order, the message parts, and the
  deletion that spares every message a summary refers to.

  SHA-256 is the argument \<open>digest\<close>, on the identity key that the program hashes. The full-text
  index and the conversation rows are not part of the model; a conversation is its id.
\<close>

subsection \<open>Identity\<close>

fun role_name :: "message_role \<Rightarrow> utext" where
  "role_name Role_System = cps ''system''"
| "role_name Role_User = cps ''user''"
| "role_name Role_Assistant = cps ''assistant''"
| "role_name Role_Tool = cps ''tool''"

definition build_message_identity_key :: "message_role \<Rightarrow> utext \<Rightarrow> utext" where
  "build_message_identity_key role content = role_name role @ 0 # content"

definition build_message_identity_hash :: "(utext \<Rightarrow> string) \<Rightarrow> message_role \<Rightarrow> utext \<Rightarrow> string" where
  "build_message_identity_hash digest role content = digest (build_message_identity_key role content)"

subsection \<open>Messages\<close>

record create_message_input =
  cm_conversation_id :: int
  cm_seq :: int
  cm_role :: message_role
  cm_content :: utext
  cm_token_count :: int
  cm_identity_hash :: "string option"

definition message_of_input ::
    "(utext \<Rightarrow> string) \<Rightarrow> int \<Rightarrow> int \<Rightarrow> create_message_input \<Rightarrow> message_record" where
  "message_of_input digest now mid inp =
     \<lparr>mr_message_id = mid,
      mr_conversation_id = cm_conversation_id inp,
      mr_seq = cm_seq inp,
      mr_role = cm_role inp,
      mr_content = cm_content inp,
      mr_token_count = cm_token_count inp,
      mr_identity_hash = (case cm_identity_hash inp of
          Some h \<Rightarrow> if h = [] then build_message_identity_hash digest (cm_role inp) (cm_content inp) else h
        | None \<Rightarrow> build_message_identity_hash digest (cm_role inp) (cm_content inp)),
      mr_created_at = now,
      mr_suppressed = False\<rparr>"

definition create_message ::
    "(utext \<Rightarrow> string) \<Rightarrow> int \<Rightarrow> create_message_input \<Rightarrow> lcm_db \<Rightarrow> db_error + (message_record \<times> lcm_db)" where
  "create_message digest now inp db =
     (if list_ex (\<lambda>m. mr_conversation_id m = cm_conversation_id inp \<and> mr_seq m = cm_seq inp) (db_messages db)
      then Inl Integrity_Error
      else let rec = message_of_input digest now (db_next_message_id db) inp in
        Inr (rec, db\<lparr>db_messages := db_messages db @ [rec], db_next_message_id := db_next_message_id db + 1\<rparr>))"

fun create_messages_bulk ::
    "(utext \<Rightarrow> string) \<Rightarrow> int \<Rightarrow> create_message_input list \<Rightarrow> lcm_db
     \<Rightarrow> db_error + (message_record list \<times> lcm_db)" where
  "create_messages_bulk digest now [] db = Inr ([], db)"
| "create_messages_bulk digest now (inp # inps) db =
     bindE (create_message digest now inp db) (\<lambda>(rec, db1).
     bindE (create_messages_bulk digest now inps db1) (\<lambda>(recs, db2). Inr (rec # recs, db2)))"

definition get_messages :: "lcm_db \<Rightarrow> int \<Rightarrow> int option \<Rightarrow> int option \<Rightarrow> message_record list" where
  "get_messages db c after_seq limit =
     (let rows = sort_key mr_seq (filter (\<lambda>m. mr_conversation_id m = c
            \<and> (case after_seq of None \<Rightarrow> -1 | Some a \<Rightarrow> a) < mr_seq m) (db_messages db)) in
      case limit of None \<Rightarrow> rows | Some l \<Rightarrow> if l < 0 then rows else take (nat l) rows)"

definition get_last_message :: "lcm_db \<Rightarrow> int \<Rightarrow> message_record option" where
  "get_last_message db c =
     (let rows = sort_key mr_seq (filter (\<lambda>m. mr_conversation_id m = c) (db_messages db)) in
      if rows = [] then None else Some (last rows))"

definition same_message ::
    "(utext \<Rightarrow> string) \<Rightarrow> int \<Rightarrow> message_role \<Rightarrow> utext \<Rightarrow> message_record \<Rightarrow> bool" where
  "same_message digest c role content m \<longleftrightarrow> mr_conversation_id m = c
     \<and> mr_identity_hash m = build_message_identity_hash digest role content
     \<and> mr_role m = role \<and> mr_content m = content"

definition has_message :: "(utext \<Rightarrow> string) \<Rightarrow> lcm_db \<Rightarrow> int \<Rightarrow> message_role \<Rightarrow> utext \<Rightarrow> bool" where
  "has_message digest db c role content \<longleftrightarrow> list_ex (same_message digest c role content) (db_messages db)"

definition count_messages_by_identity ::
    "(utext \<Rightarrow> string) \<Rightarrow> lcm_db \<Rightarrow> int \<Rightarrow> message_role \<Rightarrow> utext \<Rightarrow> nat" where
  "count_messages_by_identity digest db c role content =
     length (filter (same_message digest c role content) (db_messages db))"

definition get_message_by_id :: "lcm_db \<Rightarrow> int \<Rightarrow> bool \<Rightarrow> message_record option" where
  "get_message_by_id db mid include_suppressed =
     List.find (\<lambda>m. mr_message_id m = mid \<and> (include_suppressed \<or> \<not> mr_suppressed m)) (db_messages db)"

definition get_message_count :: "lcm_db \<Rightarrow> int \<Rightarrow> nat" where
  "get_message_count db c = length (filter (\<lambda>m. mr_conversation_id m = c) (db_messages db))"

definition get_max_seq :: "lcm_db \<Rightarrow> int \<Rightarrow> int" where
  "get_max_seq db c = (case map mr_seq (filter (\<lambda>m. mr_conversation_id m = c) (db_messages db)) of
     [] \<Rightarrow> 0 | x # xs \<Rightarrow> fold max xs x)"

subsection \<open>Parts\<close>

text \<open>The part ids are fresh random ids: \<open>uuids k\<close> is the one drawn for part number \<open>k\<close> of the call.\<close>

definition part_types :: "utext list" where
  "part_types = map cps [''text'', ''reasoning'', ''tool'', ''patch'', ''file'', ''subtask'', ''compaction'', ''step_start'',
     ''step_finish'', ''snapshot'', ''agent'', ''retry'']"

definition insert_message_part :: "message_part \<Rightarrow> lcm_db \<Rightarrow> db_error + lcm_db" where
  "insert_message_part p db =
     (if \<not> ref_exists db (Msg (mp_message_id p)) \<or> mp_part_type p \<notin> set part_types
         \<or> list_ex (\<lambda>q. mp_part_id q = mp_part_id p
              \<or> mp_message_id q = mp_message_id p \<and> mp_ordinal q = mp_ordinal p) (db_message_parts db)
      then Inl Integrity_Error
      else Inr (db\<lparr>db_message_parts := db_message_parts db @ [p]\<rparr>))"

definition part_row :: "(nat \<Rightarrow> utext) \<Rightarrow> int \<Rightarrow> nat \<times> create_message_part_input \<Rightarrow> message_part" where
  "part_row uuids mid kp = (case kp of (k, p) \<Rightarrow>
     create_message_part_input.extend p \<lparr>mp_part_id = uuids k, mp_message_id = mid\<rparr>)"

definition create_message_parts ::
    "(nat \<Rightarrow> utext) \<Rightarrow> int \<Rightarrow> create_message_part_input list \<Rightarrow> lcm_db \<Rightarrow> db_error + lcm_db" where
  "create_message_parts uuids mid parts db =
     (if parts = [] then Inr db
      else foldE insert_message_part (map (part_row uuids mid) (enumerate 0 parts)) db)"

definition get_message_parts :: "lcm_db \<Rightarrow> int \<Rightarrow> message_part list" where
  "get_message_parts db mid = sort_key mp_ordinal (filter (\<lambda>p. mp_message_id p = mid) (db_message_parts db))"

subsection \<open>Deletion\<close>

definition is_linked :: "lcm_db \<Rightarrow> int \<Rightarrow> bool" where
  "is_linked db mid \<longleftrightarrow> list_ex (\<lambda>(_, m, _). m = mid) (db_summary_messages db)"

text \<open>The three statements for one id; the parts go with their message (\<open>ON DELETE CASCADE\<close>).\<close>

definition delete_message_row :: "int \<Rightarrow> lcm_db \<Rightarrow> lcm_db" where
  "delete_message_row mid db =
     (let db1 = delete_context_items (\<lambda>i. ci_ref i = Msg mid) db in
      db1\<lparr>db_messages := filter (\<lambda>m. mr_message_id m \<noteq> mid) (db_messages db1),
         db_message_parts := filter (\<lambda>p. mp_message_id p \<noteq> mid) (db_message_parts db1)\<rparr>)"

fun delete_loop :: "int list \<Rightarrow> int \<Rightarrow> lcm_db \<Rightarrow> int \<times> lcm_db" where
  "delete_loop [] deleted db = (deleted, db)"
| "delete_loop (mid # mids) deleted db =
     (if is_linked db mid then delete_loop mids deleted db
      else delete_loop mids (deleted + 1) (delete_message_row mid db))"

definition delete_messages :: "int list \<Rightarrow> lcm_db \<Rightarrow> int \<times> lcm_db" where
  "delete_messages message_ids db = (if message_ids = [] then (0, db) else delete_loop message_ids 0 db)"

subsection \<open>Lemmas\<close>

lemma role_name_inj [simp]: "role_name r = role_name r' \<longleftrightarrow> r = r'"
  by (cases r; cases r') (simp_all add: cps_def)

lemma role_name_no_nul: "0 \<notin> set (role_name r)"
  by (cases r) (simp_all add: cps_def)

lemma append_sep_inj:
  "x \<notin> set as \<Longrightarrow> x \<notin> set bs \<Longrightarrow> as @ x # cs = bs @ x # ds \<longleftrightarrow> as = bs \<and> cs = ds"
proof (induction as arbitrary: bs)
  case (Cons a as)
  then show ?case by (cases bs) auto
next
  case Nil
  then show ?case by (cases bs) auto
qed

lemma wf_create_message:
  assumes "wf_db db" "create_message digest now inp db = Inr (rec, db')"
  shows "wf_db db'"
proof -
  let ?rec = "message_of_input digest now (db_next_message_id db) inp"
  have new: "\<not> list_ex (\<lambda>m. mr_conversation_id m = cm_conversation_id inp \<and> mr_seq m = cm_seq inp) (db_messages db)"
    and db': "db' = db\<lparr>db_messages := db_messages db @ [?rec], db_next_message_id := db_next_message_id db + 1\<rparr>"
    using assms(2) by (auto simp: create_message_def Let_def split: if_splits)
  have mono: "ref_exists db r \<Longrightarrow> ref_exists db' r" for r
    by (cases r) (auto simp: db')
  have id: "mr_message_id ?rec = db_next_message_id db"
    and key: "mr_conversation_id ?rec = cm_conversation_id inp" "mr_seq ?rec = cm_seq inp"
    by (simp_all add: message_of_input_def)
  have bound: "\<forall>m \<in> set (db_messages db). mr_message_id m < db_next_message_id db"
    using assms(1) by (simp add: wf_db_def list_all_iff)
  then have "db_next_message_id db \<notin> mr_message_id ` set (db_messages db)" by auto
  then have "distinct (map mr_message_id (db_messages db'))"
    using assms(1) by (simp add: db' wf_db_def id)
  moreover have "distinct (map (\<lambda>m. (mr_conversation_id m, mr_seq m)) (db_messages db'))"
    using assms(1) new by (auto simp: db' wf_db_def key list_ex_iff)
  moreover have "list_all (\<lambda>m. mr_message_id m < db_next_message_id db') (db_messages db')"
    using bound by (auto simp: db' id list_all_iff)
  ultimately show ?thesis
    using assms(1) mono unfolding wf_db_def by (simp add: list_all_iff case_prod_beta db' del: ref_exists.simps)
qed

lemma is_linked_delete [simp]: "is_linked (delete_message_row mid db) m = is_linked db m"
  by (simp add: is_linked_def delete_message_row_def delete_context_items_def Let_def)

lemma delete_row_fields [simp]:
  "db_messages (delete_message_row mid db) = filter (\<lambda>m. mr_message_id m \<noteq> mid) (db_messages db)"
  "db_message_parts (delete_message_row mid db) = filter (\<lambda>p. mp_message_id p \<noteq> mid) (db_message_parts db)"
  "db_context_items (delete_message_row mid db) = filter (\<lambda>i. ci_ref i \<noteq> Msg mid) (db_context_items db)"
  "db_summaries (delete_message_row mid db) = db_summaries db"
  "db_summary_messages (delete_message_row mid db) = db_summary_messages db"
  "db_summary_parents (delete_message_row mid db) = db_summary_parents db"
  "db_next_message_id (delete_message_row mid db) = db_next_message_id db"
  by (simp_all add: delete_message_row_def delete_context_items_def Let_def)

lemma wf_delete_message_row:
  assumes "wf_db db" "\<not> is_linked db mid"
  shows "wf_db (delete_message_row mid db)"
proof -
  let ?db = "delete_message_row mid db"
  have msg: "ref_exists ?db (Msg m) \<longleftrightarrow> ref_exists db (Msg m) \<and> m \<noteq> mid" for m
    by (auto simp: list_ex_iff)
  have sum: "ref_exists ?db (Sum x) = ref_exists db (Sum x)" for x by simp
  have ref: "ref_exists ?db r \<longleftrightarrow> ref_exists db r \<and> r \<noteq> Msg mid" for r
    using msg sum by (cases r) auto
  have unlinked: "\<forall>l \<in> set (db_summary_messages db). fst (snd l) \<noteq> mid"
    using assms(2) by (auto simp: is_linked_def list_ex_iff)
  show ?thesis
    using assms(1) unlinked unfolding wf_db_def
    by (auto simp: list_all_iff ref distinct_map case_prod_beta simp del: ref_exists.simps intro: inj_on_subset)
qed

lemma delete_loop_spec:
  assumes "delete_loop mids n db = (n', db')"
  shows "db_messages db' = filter (\<lambda>m. mr_message_id m \<notin> set mids \<or> is_linked db (mr_message_id m)) (db_messages db)
     \<and> db_context_items db' = filter (\<lambda>i. \<forall>mid \<in> set mids. ci_ref i = Msg mid \<longrightarrow> is_linked db mid) (db_context_items db)
     \<and> db_summaries db' = db_summaries db \<and> db_summary_messages db' = db_summary_messages db
     \<and> n' = n + int (length (filter (\<lambda>m. \<not> is_linked db m) mids)) \<and> (wf_db db \<longrightarrow> wf_db db')"
  using assms
proof (induction mids arbitrary: n db)
  case (Cons mid mids)
  show ?case
  proof (cases "is_linked db mid")
    case True
    then have "delete_loop mids n db = (n', db')" using Cons.prems by simp
    from Cons.IH[OF this] True show ?thesis by (auto intro!: filter_cong)
  next
    case False
    then have "delete_loop mids (n + 1) (delete_message_row mid db) = (n', db')" using Cons.prems by simp
    from Cons.IH[OF this] False show ?thesis
      using wf_delete_message_row[OF _ False] by (auto intro!: filter_cong)
  qed
qed simp

lemma sort_key_append_max:
  assumes "\<forall>x \<in> set xs. f x \<le> f r"
  shows "sort_key f (xs @ [r]) = sort_key f xs @ [r]"
proof -
  have "insort_key f x (ys @ [r]) = insort_key f x ys @ [r]" if "f x \<le> f r" for x ys
    using that by (induction ys) auto
  then show ?thesis using assms by (induction xs) auto
qed

lemma fold_max_append_max:
  "(case xs @ [n] of [] \<Rightarrow> d | x # xs \<Rightarrow> fold max xs x) = n" if "\<forall>x \<in> set xs. x \<le> (n :: int)"
proof -
  have "fold max ys y \<le> n" if "\<forall>x \<in> set (y # ys). x \<le> n" for y ys
    using that by (induction ys arbitrary: y) auto
  with that show ?thesis by (cases xs) auto
qed

definition sample_message_input :: "int \<Rightarrow> create_message_input" where
  "sample_message_input n = \<lparr>cm_conversation_id = 1, cm_seq = n, cm_role = Role_User,
     cm_content = [97], cm_token_count = 1, cm_identity_hash = None\<rparr>"

definition no_rows :: lcm_db where
  "no_rows = \<lparr>db_messages = [], db_next_message_id = 1, db_message_parts = [], db_summaries = [],
     db_summary_messages = [], db_summary_parents = [], db_context_items = []\<rparr>"

lemma no_rows_wf: "wf_db no_rows"
  by (simp add: no_rows_def wf_db_def)

text \<open>The identity key tells any two messages apart that differ in role or content: no content can
  imitate the separator, since no role name contains it. So two messages have the same hash only if
  they are the same message or the digest collides.\<close>

theorem identity_key_injective:
  "build_message_identity_key r c = build_message_identity_key r' c' \<longleftrightarrow> r = r' \<and> c = c'"
  by (simp add: build_message_identity_key_def append_sep_inj role_name_no_nul)

text \<open>A message is refused exactly when its sequence number is taken in its conversation; otherwise it
  gets an id that no row had, it is found under that id and by its identity, and when its sequence
  number is the highest it is read back as the last message after the ones already there.\<close>

theorem create_message_reads_back:
  assumes "wf_db db" "cm_identity_hash inp = None"
    "\<forall>m \<in> set (db_messages db). mr_conversation_id m = cm_conversation_id inp \<longrightarrow> mr_seq m < cm_seq inp"
    "0 \<le> cm_seq inp"
  shows "\<exists>rec db'. create_message digest now inp db = Inr (rec, db') \<and> wf_db db'
     \<and> \<not> ref_exists db (Msg (mr_message_id rec))
     \<and> get_message_by_id db' (mr_message_id rec) False = Some rec
     \<and> has_message digest db' (cm_conversation_id inp) (cm_role inp) (cm_content inp)
     \<and> get_messages db' (cm_conversation_id inp) None None = get_messages db (cm_conversation_id inp) None None @ [rec]
     \<and> get_max_seq db' (cm_conversation_id inp) = cm_seq inp"
proof -
  let ?c = "cm_conversation_id inp"
  let ?rec = "message_of_input digest now (db_next_message_id db) inp"
  let ?db = "db\<lparr>db_messages := db_messages db @ [?rec], db_next_message_id := db_next_message_id db + 1\<rparr>"
  have step: "create_message digest now inp db = Inr (?rec, ?db)"
    using assms(3) by (fastforce simp: create_message_def list_ex_iff Let_def)
  have rec: "mr_message_id ?rec = db_next_message_id db" "mr_seq ?rec = cm_seq inp" "\<not> mr_suppressed ?rec"
    "mr_conversation_id ?rec = ?c" "same_message digest ?c (cm_role inp) (cm_content inp) ?rec"
    using assms(2) by (simp_all add: message_of_input_def same_message_def)
  have fresh: "\<forall>m \<in> set (db_messages db). mr_message_id m \<noteq> db_next_message_id db"
    using assms(1) by (auto simp: wf_db_def list_all_iff)
  then have "List.find (\<lambda>m. mr_message_id m = db_next_message_id db \<and> \<not> mr_suppressed m) (db_messages db) = None"
    by (auto simp: find_None_iff)
  then have "get_message_by_id ?db (mr_message_id ?rec) False = Some ?rec"
    using rec by (simp add: get_message_by_id_def find_append)
  moreover have "get_messages ?db ?c None None = get_messages db ?c None None @ [?rec]"
    using assms(3,4) rec by (auto simp: get_messages_def Let_def less_imp_le intro!: sort_key_append_max)
  moreover have "get_max_seq ?db ?c = cm_seq inp"
    using assms(3) rec by (simp add: get_max_seq_def fold_max_append_max less_imp_le)
  ultimately show ?thesis
    using step wf_create_message[OF assms(1) step] fresh rec
    by (intro exI[of _ ?rec] exI[of _ ?db]) (auto simp: has_message_def list_ex_iff)
qed

theorem create_message_reads_back_witness:
  "\<exists>rec db'. create_message (\<lambda>k. [char_of (length k)]) 7 (sample_message_input 1) no_rows = Inr (rec, db')
     \<and> get_messages db' 1 None None = [rec] \<and> get_max_seq db' 1 = 1"
  using create_message_reads_back[OF no_rows_wf, of "sample_message_input 1" "\<lambda>k. [char_of (length k)]" 7]
  by (auto simp: no_rows_def sample_message_input_def get_messages_def Let_def)

text \<open>Deleting messages removes exactly the given messages that no summary is linked to, with their
  context items; a message under a summary stays, so no summary loses its sources. The result is
  the number of the ids that were not linked, and the tables stay well formed.\<close>

theorem delete_messages_spares_linked:
  assumes "wf_db db" "delete_messages ids db = (n, db')"
  shows "db_messages db' = filter (\<lambda>m. mr_message_id m \<notin> set ids \<or> is_linked db (mr_message_id m)) (db_messages db)
     \<and> db_context_items db' =
         filter (\<lambda>i. \<forall>mid \<in> set ids. ci_ref i = Msg mid \<longrightarrow> is_linked db mid) (db_context_items db)
     \<and> db_summaries db' = db_summaries db \<and> db_summary_messages db' = db_summary_messages db
     \<and> n = int (length (filter (\<lambda>m. \<not> is_linked db m) ids)) \<and> wf_db db'"
proof (cases "ids = []")
  case False
  then have "delete_loop ids 0 db = (n, db')" using assms(2) by (simp add: delete_messages_def)
  from delete_loop_spec[OF this] assms(1) show ?thesis by simp
qed (use assms in \<open>simp add: delete_messages_def\<close>)

definition linked_rows :: lcm_db where
  "linked_rows = no_rows\<lparr>
     db_messages := map (\<lambda>i. message_of_input (\<lambda>_. []) 0 i (sample_message_input i)) [1, 2],
     db_next_message_id := 3,
     db_summaries := [\<lparr>sr_summary_id = ''s'', sr_conversation_id = 1, sr_kind = Leaf, sr_depth = 0, sr_content = [97],
       sr_token_count = 1, sr_file_ids = [], sr_earliest_at = None, sr_latest_at = None, sr_descendant_count = 0,
       sr_descendant_token_count = 0, sr_source_message_token_count = 1, sr_model = ''m'', sr_created_at = 0,
       sr_suppressed = False\<rparr>],
     db_summary_messages := [(''s'', 1, 0)]\<rparr>"

theorem delete_messages_spares_linked_witness:
  "\<exists>n db'. delete_messages [1, 2] linked_rows = (n, db') \<and> n = 1
     \<and> map mr_message_id (db_messages db') = [1]"
proof -
  have "wf_db linked_rows"
    by (simp add: wf_db_def linked_rows_def no_rows_def message_of_input_def sample_message_input_def)
  moreover obtain n db' where "delete_messages [1, 2] linked_rows = (n, db')" by (cases "delete_messages [1, 2] linked_rows")
  ultimately show ?thesis
    using delete_messages_spares_linked[of linked_rows "[1, 2]" n db']
    by (simp add: is_linked_def linked_rows_def message_of_input_def)
qed

end
