(* ===== verification/Compaction_Select.thy ===== *)
theory Compaction_Select
  imports Context_Store Message_Store
begin

text \<open>
  The decisions of the compaction engine (\<open>compaction.py\<close>): when to compact, which items
  the fresh tail protects, which block of messages a leaf pass takes and which block of
  summaries a condensed pass takes.

  A conversation's context is the list of items in ordinal order (\<open>Context_Store\<close>). Each loop
  of the program is a recursion over that list with the loop's variables as arguments. The
  lemmas show that what is selected is a block of neighbours, strictly before the fresh
  tail, never above the chunk size unless a single item is, and as long as it can be.
\<close>

subsection \<open>Configuration\<close>

record compaction_config =
  cc_context_threshold :: real
  cc_leaf_chunk_tokens :: "int option"
  cc_fresh_tail_count :: int
  cc_fresh_tail_max_tokens :: "int option"
  cc_leaf_min_fanout :: int
  cc_condensed_min_fanout :: int
  cc_condensed_min_fanout_hard :: int
  cc_leaf_target_tokens :: int
  cc_condensed_target_tokens :: int
  cc_max_rounds :: nat

definition default_compaction_config :: compaction_config where
  "default_compaction_config =
     \<lparr>cc_context_threshold = 3 / 4,
      cc_leaf_chunk_tokens = Some 20000,
      cc_fresh_tail_count = 8,
      cc_fresh_tail_max_tokens = None,
      cc_leaf_min_fanout = 8,
      cc_condensed_min_fanout = 4,
      cc_condensed_min_fanout_hard = 2,
      cc_leaf_target_tokens = 600,
      cc_condensed_target_tokens = 900,
      cc_max_rounds = 10\<rparr>"

definition default_leaf_chunk_tokens :: int where
  "default_leaf_chunk_tokens = 20000"

text \<open>\<open>sys.maxsize\<close>\<close>

definition empty_fresh_tail_ordinal :: int where
  "empty_fresh_tail_ordinal = 2 ^ 63 - 1"

text \<open>\<open>int(x)\<close> of a float cuts towards zero.\<close>

definition py_int :: "real \<Rightarrow> int" where
  "py_int x = (if 0 \<le> x then \<lfloor>x\<rfloor> else \<lceil>x\<rceil>)"

definition resolve_leaf_chunk_tokens :: "compaction_config \<Rightarrow> int option \<Rightarrow> int" where
  "resolve_leaf_chunk_tokens cfg override =
     (case override of
        Some n \<Rightarrow> if 0 < n then n else
          (case cc_leaf_chunk_tokens cfg of Some k \<Rightarrow> if 0 < k then k else default_leaf_chunk_tokens
           | None \<Rightarrow> default_leaf_chunk_tokens)
      | None \<Rightarrow>
          (case cc_leaf_chunk_tokens cfg of Some k \<Rightarrow> if 0 < k then k else default_leaf_chunk_tokens
           | None \<Rightarrow> default_leaf_chunk_tokens))"

definition resolve_fresh_tail_count :: "compaction_config \<Rightarrow> int" where
  "resolve_fresh_tail_count cfg = (if 0 < cc_fresh_tail_count cfg then cc_fresh_tail_count cfg else 0)"

definition resolve_fresh_tail_max_tokens :: "compaction_config \<Rightarrow> int option" where
  "resolve_fresh_tail_max_tokens cfg = (case cc_fresh_tail_max_tokens cfg of
     Some n \<Rightarrow> if 0 \<le> n then Some n else None | None \<Rightarrow> None)"

definition resolve_leaf_min_fanout :: "compaction_config \<Rightarrow> int" where
  "resolve_leaf_min_fanout cfg = (if 0 < cc_leaf_min_fanout cfg then cc_leaf_min_fanout cfg else 8)"

definition resolve_condensed_min_fanout :: "compaction_config \<Rightarrow> int" where
  "resolve_condensed_min_fanout cfg = (if 0 < cc_condensed_min_fanout cfg then cc_condensed_min_fanout cfg else 4)"

definition resolve_condensed_min_fanout_hard :: "compaction_config \<Rightarrow> int" where
  "resolve_condensed_min_fanout_hard cfg =
     (if 0 < cc_condensed_min_fanout_hard cfg then cc_condensed_min_fanout_hard cfg else 2)"

definition resolve_fanout_for_depth :: "compaction_config \<Rightarrow> int \<Rightarrow> bool \<Rightarrow> int" where
  "resolve_fanout_for_depth cfg target_depth hard_trigger =
     (if hard_trigger then resolve_condensed_min_fanout_hard cfg
      else if target_depth = 0 then resolve_leaf_min_fanout cfg
      else resolve_condensed_min_fanout cfg)"

text \<open>\<open>CONDENSED_MIN_INPUT_RATIO\<close> is 0.1.\<close>

definition resolve_condensed_min_chunk_tokens :: "compaction_config \<Rightarrow> int" where
  "resolve_condensed_min_chunk_tokens cfg =
     (let ratio_floor = py_int (of_int (resolve_leaf_chunk_tokens cfg None) * (1 / 10)) in
      max (cc_condensed_target_tokens cfg) ratio_floor)"

subsection \<open>Token counts of one row\<close>

definition resolve_message_token_count :: "message_record \<Rightarrow> int" where
  "resolve_message_token_count m =
     (if 0 < mr_token_count m then mr_token_count m else estimate_tokens (mr_content m))"

definition resolve_summary_token_count :: "summary_record \<Rightarrow> int" where
  "resolve_summary_token_count s =
     (if 0 < sr_token_count s then sr_token_count s else estimate_tokens (sr_content s))"

definition get_message_token_count :: "lcm_db \<Rightarrow> int \<Rightarrow> int" where
  "get_message_token_count db mid = (case get_message_by_id db mid True of
     None \<Rightarrow> 0
   | Some m \<Rightarrow> if 0 < mr_token_count m then mr_token_count m else estimate_tokens (mr_content m))"

subsection \<open>The threshold\<close>

datatype compaction_reason = Reason_Threshold | Reason_Manual | Reason_None

record compaction_decision =
  cd_should_compact :: bool
  cd_reason :: compaction_reason
  cd_current_tokens :: int
  cd_threshold :: int

definition context_threshold_tokens :: "compaction_config \<Rightarrow> int \<Rightarrow> int" where
  "context_threshold_tokens cfg token_budget = py_int (cc_context_threshold cfg * of_int token_budget)"

definition evaluate ::
    "compaction_config \<Rightarrow> lcm_db \<Rightarrow> int \<Rightarrow> int \<Rightarrow> int option \<Rightarrow> compaction_decision" where
  "evaluate cfg db c token_budget observed_token_count =
     (let stored_tokens = get_context_token_count db c;
          live_tokens = (case observed_token_count of Some n \<Rightarrow> if 0 < n then n else 0 | None \<Rightarrow> 0);
          current_tokens = max stored_tokens live_tokens;
          threshold = context_threshold_tokens cfg token_budget in
      if threshold < current_tokens then
        \<lparr>cd_should_compact = True, cd_reason = Reason_Threshold,
         cd_current_tokens = current_tokens, cd_threshold = threshold\<rparr>
      else
        \<lparr>cd_should_compact = False, cd_reason = Reason_None,
         cd_current_tokens = current_tokens, cd_threshold = threshold\<rparr>)"

subsection \<open>The fresh tail\<close>

fun item_message_id :: "context_item \<Rightarrow> int option" where
  "item_message_id i = (case ci_ref i of Msg mid \<Rightarrow> Some mid | Sum _ \<Rightarrow> None)"

fun item_summary_id :: "context_item \<Rightarrow> string option" where
  "item_summary_id i = (case ci_ref i of Msg _ \<Rightarrow> None | Sum sid \<Rightarrow> Some sid)"

definition is_message_item :: "context_item \<Rightarrow> bool" where
  "is_message_item i \<longleftrightarrow> item_message_id i \<noteq> None"

definition item_tokens :: "lcm_db \<Rightarrow> context_item \<Rightarrow> int" where
  "item_tokens db i = (case item_message_id i of Some mid \<Rightarrow> get_message_token_count db mid | None \<Rightarrow> 0)"

text \<open>The loop over the messages from the newest, with its three variables.\<close>

fun tail_loop :: "int \<Rightarrow> int option \<Rightarrow> lcm_db \<Rightarrow> context_item list \<Rightarrow> int \<Rightarrow> int \<Rightarrow> int \<Rightarrow> int" where
  "tail_loop fresh_tail_count max_tokens db [] protected_count protected_tokens tail_start = tail_start"
| "tail_loop fresh_tail_count max_tokens db (i # is) protected_count protected_tokens tail_start =
     (if fresh_tail_count \<le> protected_count then tail_start
      else
        let message_tokens = item_tokens db i in
        if 0 < protected_count
           \<and> (case max_tokens of None \<Rightarrow> False | Some b \<Rightarrow> b < protected_tokens + message_tokens)
        then tail_start
        else tail_loop fresh_tail_count max_tokens db is (protected_count + 1)
               (protected_tokens + message_tokens) (ci_ordinal i))"

definition resolve_fresh_tail_ordinal :: "compaction_config \<Rightarrow> lcm_db \<Rightarrow> context_item list \<Rightarrow> int" where
  "resolve_fresh_tail_ordinal cfg db items =
     (if resolve_fresh_tail_count cfg \<le> 0 then empty_fresh_tail_ordinal
      else tail_loop (resolve_fresh_tail_count cfg) (resolve_fresh_tail_max_tokens cfg) db
             (rev (filter is_message_item items)) 0 0 empty_fresh_tail_ordinal)"

text \<open>The items a loop that breaks at the fresh tail gets to see.\<close>

definition outside_tail :: "int \<Rightarrow> context_item list \<Rightarrow> context_item list" where
  "outside_tail fresh_tail_ordinal items = takeWhile (\<lambda>i. ci_ordinal i < fresh_tail_ordinal) items"

fun raw_tokens_loop :: "lcm_db \<Rightarrow> int \<Rightarrow> context_item list \<Rightarrow> int \<Rightarrow> int" where
  "raw_tokens_loop db fresh_tail_ordinal [] raw_tokens = raw_tokens"
| "raw_tokens_loop db fresh_tail_ordinal (i # is) raw_tokens =
     (if fresh_tail_ordinal \<le> ci_ordinal i then raw_tokens
      else if \<not> is_message_item i then raw_tokens_loop db fresh_tail_ordinal is raw_tokens
      else raw_tokens_loop db fresh_tail_ordinal is (raw_tokens + item_tokens db i))"

definition count_raw_tokens_outside_fresh_tail :: "compaction_config \<Rightarrow> lcm_db \<Rightarrow> int \<Rightarrow> int" where
  "count_raw_tokens_outside_fresh_tail cfg db c =
     (let items = get_context_items db c in
      raw_tokens_loop db (resolve_fresh_tail_ordinal cfg db items) items 0)"

record leaf_trigger_result =
  lt_should_compact :: bool
  lt_raw_tokens_outside_tail :: int
  lt_threshold :: int

definition evaluate_leaf_trigger ::
    "compaction_config \<Rightarrow> lcm_db \<Rightarrow> int \<Rightarrow> int option \<Rightarrow> leaf_trigger_result" where
  "evaluate_leaf_trigger cfg db c override =
     (let raw = count_raw_tokens_outside_fresh_tail cfg db c;
          threshold = resolve_leaf_chunk_tokens cfg override in
      \<lparr>lt_should_compact = (threshold \<le> raw), lt_raw_tokens_outside_tail = raw, lt_threshold = threshold\<rparr>)"

subsection \<open>The block of messages of a leaf pass\<close>

record leaf_chunk_selection =
  lc_items :: "context_item list"
  lc_raw_tokens_outside_tail :: int
  lc_threshold :: int

text \<open>The second loop of \<open>_select_oldest_leaf_chunk\<close>: \<open>chunk\<close> is kept newest first.\<close>

fun leaf_chunk_loop ::
    "lcm_db \<Rightarrow> int \<Rightarrow> int \<Rightarrow> context_item list \<Rightarrow> bool \<Rightarrow> context_item list \<Rightarrow> int \<Rightarrow> context_item list" where
  "leaf_chunk_loop db tail threshold [] started chunk chunk_tokens = rev chunk"
| "leaf_chunk_loop db tail threshold (i # is) started chunk chunk_tokens =
     (if tail \<le> ci_ordinal i then rev chunk
      else if \<not> started \<and> \<not> is_message_item i then leaf_chunk_loop db tail threshold is False chunk chunk_tokens
      else if started \<and> \<not> is_message_item i then rev chunk
      else
        let message_tokens = item_tokens db i in
        if chunk \<noteq> [] \<and> threshold < chunk_tokens + message_tokens then rev chunk
        else if threshold \<le> chunk_tokens + message_tokens then rev (i # chunk)
        else leaf_chunk_loop db tail threshold is True (i # chunk) (chunk_tokens + message_tokens))"

definition select_oldest_leaf_chunk ::
    "compaction_config \<Rightarrow> lcm_db \<Rightarrow> int \<Rightarrow> int option \<Rightarrow> leaf_chunk_selection" where
  "select_oldest_leaf_chunk cfg db c override =
     (let items = get_context_items db c;
          tail = resolve_fresh_tail_ordinal cfg db items;
          threshold = resolve_leaf_chunk_tokens cfg override in
      \<lparr>lc_items = leaf_chunk_loop db tail threshold items False [] 0,
       lc_raw_tokens_outside_tail = raw_tokens_loop db tail items 0,
       lc_threshold = threshold\<rparr>)"

subsection \<open>The block of summaries of a condensed pass\<close>

record condensed_chunk_selection =
  cn_items :: "context_item list"
  cn_summary_tokens :: int

definition item_summary :: "lcm_db \<Rightarrow> context_item \<Rightarrow> summary_record option" where
  "item_summary db i = (case item_summary_id i of Some sid \<Rightarrow> get_summary db sid False | None \<Rightarrow> None)"

definition at_depth :: "lcm_db \<Rightarrow> int \<Rightarrow> context_item \<Rightarrow> bool" where
  "at_depth db target_depth i \<longleftrightarrow>
     (case item_summary db i of Some s \<Rightarrow> sr_depth s = target_depth | None \<Rightarrow> False)"

definition item_summary_tokens :: "lcm_db \<Rightarrow> context_item \<Rightarrow> int" where
  "item_summary_tokens db i = (case item_summary db i of Some s \<Rightarrow> resolve_summary_token_count s | None \<Rightarrow> 0)"

text \<open>
  An item that is no summary, one whose summary is missing or suppressed and one of another
  depth all do the same: they end a chunk that has started and are skipped before it.
\<close>

fun depth_chunk_loop ::
    "lcm_db \<Rightarrow> int \<Rightarrow> int \<Rightarrow> int \<Rightarrow> context_item list \<Rightarrow> context_item list \<Rightarrow> int \<Rightarrow> condensed_chunk_selection" where
  "depth_chunk_loop db tail budget target_depth [] chunk summary_tokens =
     \<lparr>cn_items = rev chunk, cn_summary_tokens = summary_tokens\<rparr>"
| "depth_chunk_loop db tail budget target_depth (i # is) chunk summary_tokens =
     (if tail \<le> ci_ordinal i then \<lparr>cn_items = rev chunk, cn_summary_tokens = summary_tokens\<rparr>
      else if \<not> at_depth db target_depth i then
        (if chunk \<noteq> [] then \<lparr>cn_items = rev chunk, cn_summary_tokens = summary_tokens\<rparr>
         else depth_chunk_loop db tail budget target_depth is chunk summary_tokens)
      else
        let token_count = item_summary_tokens db i in
        if chunk \<noteq> [] \<and> budget < summary_tokens + token_count
        then \<lparr>cn_items = rev chunk, cn_summary_tokens = summary_tokens\<rparr>
        else if budget \<le> summary_tokens + token_count
        then \<lparr>cn_items = rev (i # chunk), cn_summary_tokens = summary_tokens + token_count\<rparr>
        else depth_chunk_loop db tail budget target_depth is (i # chunk) (summary_tokens + token_count))"

definition select_oldest_chunk_at_depth ::
    "compaction_config \<Rightarrow> lcm_db \<Rightarrow> int \<Rightarrow> int \<Rightarrow> int option \<Rightarrow> condensed_chunk_selection" where
  "select_oldest_chunk_at_depth cfg db c target_depth fresh_tail_override =
     (let items = get_context_items db c;
          tail = (case fresh_tail_override of Some t \<Rightarrow> t | None \<Rightarrow> resolve_fresh_tail_ordinal cfg db items) in
      depth_chunk_loop db tail (resolve_leaf_chunk_tokens cfg None) target_depth items [] 0)"

record condensed_phase_candidate =
  cp_target_depth :: int
  cp_chunk :: condensed_chunk_selection

fun candidate_loop ::
    "compaction_config \<Rightarrow> lcm_db \<Rightarrow> int \<Rightarrow> bool \<Rightarrow> int \<Rightarrow> int list \<Rightarrow> condensed_phase_candidate option" where
  "candidate_loop cfg db c hard_trigger tail [] = None"
| "candidate_loop cfg db c hard_trigger tail (target_depth # depths) =
     (let chunk = select_oldest_chunk_at_depth cfg db c target_depth (Some tail) in
      if int (length (cn_items chunk)) < resolve_fanout_for_depth cfg target_depth hard_trigger
      then candidate_loop cfg db c hard_trigger tail depths
      else if cn_summary_tokens chunk < resolve_condensed_min_chunk_tokens cfg
      then candidate_loop cfg db c hard_trigger tail depths
      else Some \<lparr>cp_target_depth = target_depth, cp_chunk = chunk\<rparr>)"

definition select_shallowest_condensation_candidate ::
    "compaction_config \<Rightarrow> lcm_db \<Rightarrow> int \<Rightarrow> bool \<Rightarrow> condensed_phase_candidate option" where
  "select_shallowest_condensation_candidate cfg db c hard_trigger =
     (let items = get_context_items db c;
          tail = resolve_fresh_tail_ordinal cfg db items;
          depth_levels = get_distinct_depths_in_context db c
            (if tail \<noteq> empty_fresh_tail_ordinal then Some tail else None) in
      candidate_loop cfg db c hard_trigger tail depth_levels)"

subsection \<open>Greedy blocks\<close>

text \<open>
  Both selections are the same greedy choice: skip what does not qualify, then take
  neighbours while they qualify, until the next one would pass the budget or the budget is
  reached. The first one is taken whatever it costs.
\<close>

fun fill :: "('a \<Rightarrow> int) \<Rightarrow> int \<Rightarrow> 'a list \<Rightarrow> int \<Rightarrow> bool \<Rightarrow> 'a list" where
  "fill w b [] n started = []"
| "fill w b (x # xs) n started =
     (if started \<and> b < n + w x then []
      else if b \<le> n + w x then [x]
      else x # fill w b xs (n + w x) True)"

lemma fill_prefix: "\<exists>zs. xs = fill w b xs n st @ zs"
proof (induction w b xs n st rule: fill.induct)
  case (2 w b x xs n st)
  then show ?case by (cases "st \<and> b < n + w x"; cases "b \<le> n + w x") auto
qed simp

lemma fill_bound:
  assumes "n \<le> b" "\<And>x. 0 \<le> w x"
  shows "n + sum_list (map w (fill w b xs n st)) \<le> b \<or> (\<not> st \<and> length (fill w b xs n st) = 1)"
  using assms
proof (induction w b xs n st rule: fill.induct)
  case (2 w b x xs n st)
  then show ?case by (cases "b \<le> n + w x") (auto simp: add.assoc)
qed auto

lemma fill_maximal:
  assumes "xs = fill w b xs n st @ z # zs"
  shows "b < n + sum_list (map w (fill w b xs n st)) + w z \<or> b \<le> n + sum_list (map w (fill w b xs n st))"
  using assms
proof (induction w b xs n st rule: fill.induct)
  case (2 w b x xs n st)
  then show ?case by (auto simp: add.assoc split: if_splits)
qed auto

lemma fill_nonempty: "xs \<noteq> [] \<Longrightarrow> fill w b xs n False \<noteq> []"
  by (cases xs) auto

locale greedy_block =
  fixes P :: "'a \<Rightarrow> bool" and w :: "'a \<Rightarrow> int" and seen :: "'a list \<Rightarrow> 'a list"
    and select :: "int \<Rightarrow> 'a list \<Rightarrow> 'a list"
  assumes w_nonneg: "0 \<le> w x"
    and seen_prefix: "\<exists>zs. xs = seen xs @ zs"
    and select_fill: "select b xs = fill w b (takeWhile P (dropWhile (\<lambda>x. \<not> P x) (seen xs))) 0 False"
begin

lemma block_split:
  "\<exists>pre post. xs = pre @ select b xs @ post \<and> (\<forall>x \<in> set pre. \<not> P x)
     \<and> (\<forall>x \<in> set (select b xs). P x \<and> x \<in> set (seen xs))"
proof -
  let ?pre = "takeWhile (\<lambda>x. \<not> P x) (seen xs)"
  let ?run = "takeWhile P (dropWhile (\<lambda>x. \<not> P x) (seen xs))"
  obtain rest where rest: "?run = select b xs @ rest"
    using fill_prefix[of ?run w b 0 False] by (auto simp: select_fill)
  obtain zs where zs: "xs = seen xs @ zs" using seen_prefix by blast
  have split: "seen xs = ?pre @ ?run @ dropWhile P (dropWhile (\<lambda>x. \<not> P x) (seen xs))" by simp
  have "xs = ?pre @ select b xs @ (rest @ dropWhile P (dropWhile (\<lambda>x. \<not> P x) (seen xs)) @ zs)"
    using split rest zs by (metis append.assoc)
  moreover have "\<forall>x \<in> set ?pre. \<not> P x" by (auto dest: set_takeWhileD)
  moreover have "\<forall>x \<in> set (select b xs). P x \<and> x \<in> set (seen xs)"
  proof
    fix x assume "x \<in> set (select b xs)"
    then have "x \<in> set ?run" using rest by simp
    then show "P x \<and> x \<in> set (seen xs)" by (meson set_dropWhileD set_takeWhileD)
  qed
  ultimately show ?thesis by blast
qed

lemma block_bound:
  "0 \<le> b \<Longrightarrow> sum_list (map w (select b xs)) \<le> b \<or> length (select b xs) = 1"
  using fill_bound[of 0 b w _ False] w_nonneg by (simp add: select_fill)

lemma block_nonempty_iff: "select b xs \<noteq> [] \<longleftrightarrow> (\<exists>x \<in> set (seen xs). P x)"
proof
  assume "select b xs \<noteq> []"
  then show "\<exists>x \<in> set (seen xs). P x"
    using block_split[of xs b] by (metis list.set_intros(1) neq_Nil_conv)
next
  assume "\<exists>x \<in> set (seen xs). P x"
  then have "dropWhile (\<lambda>x. \<not> P x) (seen xs) \<noteq> []" by (simp add: dropWhile_eq_Nil_conv)
  moreover from this have "P (hd (dropWhile (\<lambda>x. \<not> P x) (seen xs)))"
    using hd_dropWhile[of "\<lambda>x. \<not> P x" "seen xs"] by blast
  ultimately have "takeWhile P (dropWhile (\<lambda>x. \<not> P x) (seen xs)) \<noteq> []"
    by (cases "dropWhile (\<lambda>x. \<not> P x) (seen xs)") auto
  then show "select b xs \<noteq> []" unfolding select_fill by (rule fill_nonempty)
qed

text \<open>The block ends where the seen items end, where the kind changes, or where the budget does.\<close>

lemma block_maximal:
  assumes "seen xs = pre @ select b xs @ y # post" "\<forall>x \<in> set pre. \<not> P x" "select b xs \<noteq> []" "P y"
  shows "b \<le> sum_list (map w (select b xs)) + w y"
proof -
  let ?s = "select b xs"
  have all: "\<forall>x \<in> set ?s. P x" using block_split[of xs b] by blast
  have "dropWhile (\<lambda>x. \<not> P x) (seen xs) = ?s @ y # post"
    using assms(2,3) all by (subst assms(1)) (auto simp: dropWhile_append3 neq_Nil_conv)
  then have "takeWhile P (dropWhile (\<lambda>x. \<not> P x) (seen xs)) = ?s @ y # takeWhile P post"
    using all assms(4) by (simp add: takeWhile_append2)
  then have "b < 0 + sum_list (map w ?s) + w y \<or> b \<le> 0 + sum_list (map w ?s)"
    unfolding select_fill by (rule fill_maximal)
  then show ?thesis using w_nonneg[of y] by auto
qed

end

lemma get_message_token_count_nonneg: "0 \<le> get_message_token_count db mid"
  by (auto simp: get_message_token_count_def split: option.splits)

lemma item_tokens_nonneg: "0 \<le> item_tokens db i"
  by (auto simp: item_tokens_def get_message_token_count_nonneg split: option.splits)

lemma item_summary_tokens_nonneg: "0 \<le> item_summary_tokens db i"
  by (auto simp: item_summary_tokens_def resolve_summary_token_count_def split: option.splits)

lemma outside_tail_simps [simp]:
  "outside_tail t [] = []"
  "outside_tail t (i # is) = (if t \<le> ci_ordinal i then [] else i # outside_tail t is)"
  by (auto simp: outside_tail_def)

lemma leaf_loop_started:
  "chunk \<noteq> [] \<Longrightarrow> leaf_chunk_loop db tail threshold items True chunk n =
     rev chunk @ fill (item_tokens db) threshold (takeWhile is_message_item (outside_tail tail items)) n True"
proof (induction items arbitrary: chunk n)
  case (Cons i items)
  then show ?case by (auto simp: Let_def not_le not_less)
qed simp

lemma leaf_loop_fill:
  "leaf_chunk_loop db tail threshold items False [] 0 =
     fill (item_tokens db) threshold
       (takeWhile is_message_item (dropWhile (\<lambda>i. \<not> is_message_item i) (outside_tail tail items))) 0 False"
proof (induction items)
  case (Cons i items)
  then show ?case by (auto simp: Let_def leaf_loop_started not_le not_less)
qed simp

lemma depth_loop_started:
  "chunk \<noteq> [] \<Longrightarrow> depth_chunk_loop db tail budget d items chunk n =
     (let new = fill (item_summary_tokens db) budget (takeWhile (at_depth db d) (outside_tail tail items)) n True in
      \<lparr>cn_items = rev chunk @ new, cn_summary_tokens = n + sum_list (map (item_summary_tokens db) new)\<rparr>)"
proof (induction items arbitrary: chunk n)
  case (Cons i items)
  then show ?case by (auto simp: Let_def not_le not_less add.assoc)
qed simp

lemma depth_loop_fill:
  "depth_chunk_loop db tail budget d items [] 0 =
     (let new = fill (item_summary_tokens db) budget
        (takeWhile (at_depth db d) (dropWhile (\<lambda>i. \<not> at_depth db d i) (outside_tail tail items))) 0 False in
      \<lparr>cn_items = new, cn_summary_tokens = sum_list (map (item_summary_tokens db) new)\<rparr>)"
proof (induction items)
  case (Cons i items)
  then show ?case by (auto simp: Let_def depth_loop_started not_le not_less)
qed simp

interpretation leaf_block: greedy_block is_message_item "item_tokens db" "outside_tail tail"
  "\<lambda>threshold items. leaf_chunk_loop db tail threshold items False [] 0" for db tail
proof
  show "\<exists>zs. xs = outside_tail tail xs @ zs" for xs
    unfolding outside_tail_def by (metis takeWhile_dropWhile_id)
qed (simp_all add: item_tokens_nonneg leaf_loop_fill)

interpretation depth_block: greedy_block "at_depth db d" "item_summary_tokens db" "outside_tail tail"
  "\<lambda>budget items. cn_items (depth_chunk_loop db tail budget d items [] 0)" for db d tail
proof
  show "\<exists>zs. xs = outside_tail tail xs @ zs" for xs
    unfolding outside_tail_def by (metis takeWhile_dropWhile_id)
qed (simp_all add: item_summary_tokens_nonneg depth_loop_fill Let_def)

lemma outside_tail_bound: "i \<in> set (outside_tail t items) \<Longrightarrow> ci_ordinal i < t"
  by (auto simp: outside_tail_def dest: set_takeWhileD)

lemma depth_loop_tokens:
  "cn_summary_tokens (depth_chunk_loop db tail budget d items [] 0) =
     sum_list (map (item_summary_tokens db) (cn_items (depth_chunk_loop db tail budget d items [] 0)))"
  by (simp add: depth_loop_fill Let_def)

lemma raw_tokens_loop_sum:
  "raw_tokens_loop db tail items n =
     n + sum_list (map (item_tokens db) (filter is_message_item (outside_tail tail items)))"
  by (induction items arbitrary: n) auto

subsection \<open>The fresh tail\<close>

lemma tail_loop_prefix:
  assumes "r = tail_loop cnt mx db is pc pt ts" "0 \<le> pc"
  shows "\<exists>k \<le> length is. r = (if k = 0 then ts else ci_ordinal (is ! (k - 1)))
     \<and> (k = 0 \<or> pc + int k \<le> cnt)
     \<and> (\<forall>b. mx = Some b \<longrightarrow> k = 0 \<or> (pc = 0 \<and> k = 1) \<or> pt + sum_list (map (item_tokens db) (take k is)) \<le> b)
     \<and> (k < length is \<longrightarrow> cnt \<le> pc + int k \<or>
          (\<exists>b. mx = Some b \<and> b < pt + sum_list (map (item_tokens db) (take (Suc k) is))))
     \<and> (pc = 0 \<and> 0 < cnt \<and> is \<noteq> [] \<longrightarrow> 0 < k)"
  using assms
proof (induction "is" arbitrary: pc pt ts)
  case (Cons i "is")
  show ?case
  proof (cases "cnt \<le> pc \<or> (0 < pc \<and> (case mx of None \<Rightarrow> False | Some b \<Rightarrow> b < pt + item_tokens db i))")
    case True
    then have "r = ts" using Cons.prems by (auto simp: Let_def)
    with True show ?thesis
      by (intro exI[of _ 0]) (auto split: option.splits)
  next
    case False
    then have "r = tail_loop cnt mx db is (pc + 1) (pt + item_tokens db i) (ci_ordinal i)"
      using Cons.prems by (auto simp: Let_def)
    from Cons.IH[OF this] Cons.prems(2) obtain k where k: "k \<le> length is"
      "r = (if k = 0 then ci_ordinal i else ci_ordinal (is ! (k - 1)))"
      "k = 0 \<or> pc + 1 + int k \<le> cnt"
      "\<forall>b. mx = Some b \<longrightarrow> k = 0 \<or> pt + item_tokens db i + sum_list (map (item_tokens db) (take k is)) \<le> b"
      "k < length is \<longrightarrow> cnt \<le> pc + 1 + int k \<or>
          (\<exists>b. mx = Some b \<and> b < pt + item_tokens db i + sum_list (map (item_tokens db) (take (Suc k) is)))"
      by auto
    have "r = (if Suc k = 0 then ts else ci_ordinal ((i # is) ! (Suc k - 1)))"
      using k(2) by (cases k) auto
    moreover have "pc + int (Suc k) \<le> cnt" using k(3) False by auto
    moreover have "(pc = 0 \<and> Suc k = 1) \<or> pt + sum_list (map (item_tokens db) (take (Suc k) (i # is))) \<le> b"
      if "mx = Some b" for b
      using k(4) that False Cons.prems(2) by (auto simp: add.assoc)
    moreover have "Suc k < length (i # is) \<longrightarrow> cnt \<le> pc + int (Suc k) \<or>
          (\<exists>b. mx = Some b \<and> b < pt + sum_list (map (item_tokens db) (take (Suc (Suc k)) (i # is))))"
      using k(5) by (auto simp: add.assoc)
    ultimately show ?thesis
      using k(1) by (intro exI[of _ "Suc k"]) auto
  qed
qed simp

lemma strict_suffix_filter:
  fixes f :: "'a \<Rightarrow> int"
  assumes "sorted_wrt (<) (map f xs)" "k < length xs"
  shows "filter (\<lambda>x. f (xs ! k) \<le> f x) xs = drop k xs"
proof -
  have mono: "i < j \<Longrightarrow> j < length xs \<Longrightarrow> f (xs ! i) < f (xs ! j)" for i j
    using sorted_wrt_nth_less[OF assms(1), of i j] by simp
  have lt: "f x < f (xs ! k)" if "x \<in> set (take k xs)" for x
    using that assms(2) mono by (auto simp: in_set_conv_nth)
  have ge: "f (xs ! k) \<le> f x" if "x \<in> set (drop k xs)" for x
  proof -
    from that obtain j where "j < length xs - k" "x = xs ! (k + j)"
      by (auto simp: in_set_conv_nth)
    then show ?thesis
      by (cases j) (auto intro!: less_imp_le mono)
  qed
  have "filter (\<lambda>x. f (xs ! k) \<le> f x) (take k xs) = []" "filter (\<lambda>x. f (xs ! k) \<le> f x) (drop k xs) = drop k xs"
    using lt ge by (auto simp: filter_id_conv filter_empty_conv not_le)
  then show ?thesis
    using filter_append[of "\<lambda>x. f (xs ! k) \<le> f x" "take k xs" "drop k xs"] by simp
qed

lemma messages_increasing:
  "wf_db db \<Longrightarrow> sorted_wrt (<) (map ci_ordinal (filter P (get_context_items db c)))"
  using strict_items[of db c] by (simp add: sorted_wrt_map sorted_wrt_filter)

definition small_config :: compaction_config where
  "small_config = default_compaction_config\<lparr>cc_fresh_tail_count := 2, cc_leaf_chunk_tokens := Some 15,
     cc_condensed_target_tokens := 5\<rparr>"

text \<open>C8. The fresh tail is the newest messages: with a positive count, the messages at or after its ordinal are
  the last ones of the context, at least one and at most the count; their tokens stay within the
  budget unless there is only one, and the tail stops only where the count or the budget stops it.\<close>

theorem fresh_tail_is_newest_messages:
  fixes cfg db c
  defines "items \<equiv> get_context_items db c"
  defines "tail \<equiv> resolve_fresh_tail_ordinal cfg db items"
  assumes wf: "wf_db db" and cnt: "0 < cc_fresh_tail_count cfg" and msgs: "filter is_message_item items \<noteq> []"
  shows "\<exists>old new. filter is_message_item items = old @ new \<and> new \<noteq> []
     \<and> filter (\<lambda>i. tail \<le> ci_ordinal i) (filter is_message_item items) = new
     \<and> int (length new) \<le> cc_fresh_tail_count cfg
     \<and> (\<forall>b. resolve_fresh_tail_max_tokens cfg = Some b \<longrightarrow>
          length new = 1 \<or> sum_list (map (item_tokens db) new) \<le> b)
     \<and> (old \<noteq> [] \<longrightarrow> int (length new) = cc_fresh_tail_count cfg
          \<or> (\<exists>b. resolve_fresh_tail_max_tokens cfg = Some b
               \<and> b < item_tokens db (last old) + sum_list (map (item_tokens db) new)))"
proof -
  define ms where "ms = filter is_message_item items"
  let ?cnt = "cc_fresh_tail_count cfg" and ?mx = "resolve_fresh_tail_max_tokens cfg"
  have tail: "tail = tail_loop ?cnt ?mx db (rev ms) 0 0 empty_fresh_tail_ordinal"
    using cnt by (simp add: tail_def resolve_fresh_tail_ordinal_def resolve_fresh_tail_count_def ms_def)
  obtain k where kr: "k \<le> length (rev ms)"
    "tail = (if k = 0 then empty_fresh_tail_ordinal else ci_ordinal (rev ms ! (k - 1)))"
    "k = 0 \<or> 0 + int k \<le> ?cnt"
    "\<forall>b. ?mx = Some b \<longrightarrow> k = 0 \<or> ((0::int) = 0 \<and> k = 1) \<or> 0 + sum_list (map (item_tokens db) (take k (rev ms))) \<le> b"
    "k < length (rev ms) \<longrightarrow> ?cnt \<le> 0 + int k
       \<or> (\<exists>b. ?mx = Some b \<and> b < 0 + sum_list (map (item_tokens db) (take (Suc k) (rev ms))))"
    "(0::int) = 0 \<and> 0 < ?cnt \<and> rev ms \<noteq> [] \<longrightarrow> 0 < k"
    using tail_loop_prefix[OF tail order_refl] by blast
  have k: "k \<le> length ms" "tail = (if k = 0 then empty_fresh_tail_ordinal else ci_ordinal (rev ms ! (k - 1)))"
    "int k \<le> ?cnt"
    "\<forall>b. ?mx = Some b \<longrightarrow> k = 1 \<or> sum_list (map (item_tokens db) (take k (rev ms))) \<le> b"
    "k < length ms \<longrightarrow> ?cnt \<le> int k \<or> (\<exists>b. ?mx = Some b \<and> b < sum_list (map (item_tokens db) (take (Suc k) (rev ms))))"
    "0 < k"
    using kr cnt msgs[folded ms_def] by simp_all
  define n where "n = length ms - k"
  define old where "old = take n ms"
  define new where "new = drop n ms"
  have len: "length new = k" "n < length ms" using k(1,6) by (auto simp: new_def n_def)
  have rev: "take k (rev ms) = rev new" using k(1) by (simp add: take_rev new_def n_def)
  have nth: "rev ms ! (k - 1) = ms ! n" using k(1,6) by (simp add: rev_nth n_def)
  have "tail = ci_ordinal (ms ! n)" using k(2,6) nth by simp
  then have A: "filter (\<lambda>i. tail \<le> ci_ordinal i) ms = new"
    using strict_suffix_filter[of ci_ordinal ms n] messages_increasing[OF wf] len(2)
    by (simp add: new_def ms_def items_def)
  have sum: "sum_list (map (item_tokens db) (take k (rev ms))) = sum_list (map (item_tokens db) new)"
    unfolding rev by (metis rev_map sum_list_rev)
  have ms: "ms = old @ new" by (simp add: old_def new_def)
  have B: "new \<noteq> []" "int (length new) \<le> ?cnt" using len k(3,6) by auto
  have C: "\<forall>b. ?mx = Some b \<longrightarrow> length new = 1 \<or> sum_list (map (item_tokens db) new) \<le> b"
    using k(4) unfolding sum len(1) .
  have D: "int (length new) = ?cnt \<or> (\<exists>b. ?mx = Some b
      \<and> b < item_tokens db (last old) + sum_list (map (item_tokens db) new))" if "old \<noteq> []"
  proof -
    have "k < length ms" using that by (auto simp: old_def n_def)
    moreover have "take (Suc k) (rev ms) = rev new @ [last old]"
      using len(1) that by (cases old rule: rev_cases) (simp_all add: ms)
    ultimately show ?thesis
      using k(3,5) len(1) by (auto simp: rev_map[symmetric] sum_list_rev)
  qed
  show ?thesis
    unfolding ms_def[symmetric] using ms A B C D by blast
qed

lemma sample_message_tokens:
  "get_message_token_count sample_db m = (if m \<in> {1, 2, 3, 4} then 10 else 0)"
  by (auto simp: get_message_token_count_def get_message_by_id_def sample_db_def sample_message_def)

lemma sample_tail: "resolve_fresh_tail_ordinal small_config sample_db (get_context_items sample_db 1) = 3"
  by (simp add: resolve_fresh_tail_ordinal_def resolve_fresh_tail_count_def resolve_fresh_tail_max_tokens_def
      small_config_def default_compaction_config_def sample_db_items is_message_item_def item_tokens_def
      sample_message_tokens)

theorem fresh_tail_is_newest_messages_witness:
  "\<exists>new. filter (\<lambda>i. 3 \<le> ci_ordinal i) (filter is_message_item (get_context_items sample_db 1)) = new
     \<and> new \<noteq> [] \<and> int (length new) \<le> 2"
proof -
  have "filter is_message_item (get_context_items sample_db 1) \<noteq> []"
    by (simp add: sample_db_items is_message_item_def)
  moreover have "0 < cc_fresh_tail_count small_config" "cc_fresh_tail_count small_config = 2"
    by (simp_all add: small_config_def)
  ultimately show ?thesis
    using fresh_tail_is_newest_messages[OF sample_db_wf, of small_config 1] unfolding sample_tail by auto
qed

lemma leaf_chunk_oldest_block:
  fixes cfg db c override
  defines "items \<equiv> get_context_items db c"
  defines "tail \<equiv> resolve_fresh_tail_ordinal cfg db items"
  defines "sel \<equiv> select_oldest_leaf_chunk cfg db c override"
  shows "\<exists>pre post. items = pre @ lc_items sel @ post \<and> (\<forall>i \<in> set pre. \<not> is_message_item i)
     \<and> (\<forall>i \<in> set (lc_items sel). is_message_item i \<and> ci_ordinal i < tail)
     \<and> (sum_list (map (item_tokens db) (lc_items sel)) \<le> lc_threshold sel \<or> length (lc_items sel) = 1)
     \<and> (lc_items sel = [] \<longleftrightarrow> \<not> (\<exists>i \<in> set (outside_tail tail items). is_message_item i))
     \<and> lc_raw_tokens_outside_tail sel =
         sum_list (map (item_tokens db) (filter is_message_item (outside_tail tail items)))"
proof -
  have sel: "lc_items sel = leaf_chunk_loop db tail (lc_threshold sel) items False [] 0"
    "lc_raw_tokens_outside_tail sel = raw_tokens_loop db tail items 0"
    by (simp_all add: sel_def tail_def items_def select_oldest_leaf_chunk_def Let_def)
  have pos: "0 \<le> lc_threshold sel"
    by (auto simp: sel_def select_oldest_leaf_chunk_def Let_def resolve_leaf_chunk_tokens_def
        default_leaf_chunk_tokens_def split: option.splits)
  obtain pre post where "items = pre @ lc_items sel @ post" "\<forall>i \<in> set pre. \<not> is_message_item i"
    "\<forall>i \<in> set (lc_items sel). is_message_item i \<and> i \<in> set (outside_tail tail items)"
    using leaf_block.block_split[of items db tail "lc_threshold sel", folded sel(1)] by blast
  moreover have "sum_list (map (item_tokens db) (lc_items sel)) \<le> lc_threshold sel \<or> length (lc_items sel) = 1"
    using leaf_block.block_bound[OF pos, of db tail items, folded sel(1)] .
  moreover have "lc_items sel = [] \<longleftrightarrow> \<not> (\<exists>i \<in> set (outside_tail tail items). is_message_item i)"
    using leaf_block.block_nonempty_iff[of db tail "lc_threshold sel" items, folded sel(1)] by blast
  moreover have "lc_raw_tokens_outside_tail sel =
         sum_list (map (item_tokens db) (filter is_message_item (outside_tail tail items)))"
    by (simp add: sel(2) raw_tokens_loop_sum)
  ultimately show ?thesis
    using outside_tail_bound[of _ tail items] by (intro exI[of _ pre] exI[of _ post]) simp
qed



lemma candidate_loop_Some:
  "candidate_loop cfg db c hard tail ds = Some cand \<Longrightarrow>
     \<exists>pre post. ds = pre @ cp_target_depth cand # post
       \<and> cp_chunk cand = select_oldest_chunk_at_depth cfg db c (cp_target_depth cand) (Some tail)
       \<and> resolve_fanout_for_depth cfg (cp_target_depth cand) hard \<le> int (length (cn_items (cp_chunk cand)))
       \<and> resolve_condensed_min_chunk_tokens cfg \<le> cn_summary_tokens (cp_chunk cand)
       \<and> (\<forall>d \<in> set pre. let ch = select_oldest_chunk_at_depth cfg db c d (Some tail) in
            int (length (cn_items ch)) < resolve_fanout_for_depth cfg d hard
            \<or> cn_summary_tokens ch < resolve_condensed_min_chunk_tokens cfg)"
proof (induction ds)
  case (Cons d ds)
  let ?ch = "select_oldest_chunk_at_depth cfg db c d (Some tail)"
  show ?case
  proof (cases "int (length (cn_items ?ch)) < resolve_fanout_for_depth cfg d hard
      \<or> cn_summary_tokens ?ch < resolve_condensed_min_chunk_tokens cfg")
    case True
    then have "candidate_loop cfg db c hard tail ds = Some cand"
      using Cons.prems by (auto simp: Let_def split: if_splits)
    from Cons.IH[OF this] obtain pre post where "ds = pre @ cp_target_depth cand # post"
       "cp_chunk cand = select_oldest_chunk_at_depth cfg db c (cp_target_depth cand) (Some tail)"
       "resolve_fanout_for_depth cfg (cp_target_depth cand) hard \<le> int (length (cn_items (cp_chunk cand)))"
       "resolve_condensed_min_chunk_tokens cfg \<le> cn_summary_tokens (cp_chunk cand)"
       "\<forall>d \<in> set pre. let ch = select_oldest_chunk_at_depth cfg db c d (Some tail) in
            int (length (cn_items ch)) < resolve_fanout_for_depth cfg d hard
            \<or> cn_summary_tokens ch < resolve_condensed_min_chunk_tokens cfg" by blast
    with True show ?thesis by (intro exI[of _ "d # pre"] exI[of _ post]) (simp add: Let_def)
  next
    case False
    then have "cand = \<lparr>cp_target_depth = d, cp_chunk = ?ch\<rparr>"
      using Cons.prems by (auto simp: Let_def)
    with False show ?thesis by (intro exI[of _ "[]"] exI[of _ ds]) simp
  qed
qed simp

lemma fanout_pos: "1 \<le> resolve_fanout_for_depth cfg d hard"
  by (simp add: resolve_fanout_for_depth_def resolve_leaf_min_fanout_def resolve_condensed_min_fanout_def
      resolve_condensed_min_fanout_hard_def)

lemma depth_chunk_block:
  fixes cfg db c d tail
  defines "ch \<equiv> select_oldest_chunk_at_depth cfg db c d (Some tail)"
  shows "\<exists>pre post. get_context_items db c = pre @ cn_items ch @ post
     \<and> (\<forall>i \<in> set pre. \<not> at_depth db d i)
     \<and> (\<forall>i \<in> set (cn_items ch). at_depth db d i \<and> ci_ordinal i < tail)
     \<and> cn_summary_tokens ch = sum_list (map (item_summary_tokens db) (cn_items ch))
     \<and> (cn_summary_tokens ch \<le> resolve_leaf_chunk_tokens cfg None \<or> length (cn_items ch) = 1)"
proof -
  let ?b = "resolve_leaf_chunk_tokens cfg None" and ?items = "get_context_items db c"
  have ch: "ch = depth_chunk_loop db tail ?b d ?items [] 0"
    by (simp add: ch_def select_oldest_chunk_at_depth_def Let_def)
  have pos: "0 \<le> ?b"
    by (auto simp: resolve_leaf_chunk_tokens_def default_leaf_chunk_tokens_def split: option.splits)
  have tok: "cn_summary_tokens ch = sum_list (map (item_summary_tokens db) (cn_items ch))"
    unfolding ch by (rule depth_loop_tokens)
  obtain pre post where "?items = pre @ cn_items ch @ post" "\<forall>i \<in> set pre. \<not> at_depth db d i"
    "\<forall>i \<in> set (cn_items ch). at_depth db d i \<and> i \<in> set (outside_tail tail ?items)"
    using depth_block.block_split[of ?items db tail ?b d, folded ch] by blast
  moreover have "cn_summary_tokens ch \<le> ?b \<or> length (cn_items ch) = 1"
    unfolding tok using depth_block.block_bound[OF pos, of db tail d ?items, folded ch] .
  ultimately show ?thesis
    using tok outside_tail_bound[of _ tail ?items] by (intro exI[of _ pre] exI[of _ post]) simp
qed

lemma distinct_depths_sorted: "sorted (get_distinct_depths_in_context db c b)"
  by (simp add: get_distinct_depths_in_context_def sorted_remdups)

lemma distinct_depths_distinct: "distinct (get_distinct_depths_in_context db c b)"
  by (simp add: get_distinct_depths_in_context_def)

lemma condensation_candidate_block:
  fixes cfg db c hard
  defines "tail \<equiv> resolve_fresh_tail_ordinal cfg db (get_context_items db c)"
  assumes cand: "select_shallowest_condensation_candidate cfg db c hard = Some cand"
  shows "(\<exists>pre post. get_context_items db c = pre @ cn_items (cp_chunk cand) @ post)
     \<and> cn_items (cp_chunk cand) \<noteq> []
     \<and> (\<forall>i \<in> set (cn_items (cp_chunk cand)). at_depth db (cp_target_depth cand) i \<and> ci_ordinal i < tail)
     \<and> resolve_fanout_for_depth cfg (cp_target_depth cand) hard \<le> int (length (cn_items (cp_chunk cand)))
     \<and> resolve_condensed_min_chunk_tokens cfg \<le> sum_list (map (item_summary_tokens db) (cn_items (cp_chunk cand)))
     \<and> (sum_list (map (item_summary_tokens db) (cn_items (cp_chunk cand))) \<le> resolve_leaf_chunk_tokens cfg None
          \<or> length (cn_items (cp_chunk cand)) = 1)
     \<and> (\<forall>d < cp_target_depth cand. d \<in> set (get_distinct_depths_in_context db c
            (if tail \<noteq> empty_fresh_tail_ordinal then Some tail else None)) \<longrightarrow>
          (let ch = select_oldest_chunk_at_depth cfg db c d (Some tail) in
            int (length (cn_items ch)) < resolve_fanout_for_depth cfg d hard
            \<or> cn_summary_tokens ch < resolve_condensed_min_chunk_tokens cfg))"
proof -
  let ?ds = "get_distinct_depths_in_context db c (if tail \<noteq> empty_fresh_tail_ordinal then Some tail else None)"
  let ?d = "cp_target_depth cand" and ?ch = "cp_chunk cand"
  have "candidate_loop cfg db c hard tail ?ds = Some cand"
    using cand by (simp only: select_shallowest_condensation_candidate_def Let_def tail_def)
  then obtain pre post where ds: "?ds = pre @ ?d # post"
    and ch: "?ch = select_oldest_chunk_at_depth cfg db c ?d (Some tail)"
    and fan: "resolve_fanout_for_depth cfg ?d hard \<le> int (length (cn_items ?ch))"
    and tok: "resolve_condensed_min_chunk_tokens cfg \<le> cn_summary_tokens ?ch"
    and skip: "\<forall>d \<in> set pre. let ch = select_oldest_chunk_at_depth cfg db c d (Some tail) in
            int (length (cn_items ch)) < resolve_fanout_for_depth cfg d hard
            \<or> cn_summary_tokens ch < resolve_condensed_min_chunk_tokens cfg"
    using candidate_loop_Some by blast
  have below: "d \<in> set pre" if "d < ?d" "d \<in> set ?ds" for d
    using that distinct_depths_sorted[of db c "if tail \<noteq> empty_fresh_tail_ordinal then Some tail else None"]
    unfolding ds by (auto simp: sorted_append)
  have "cn_items ?ch \<noteq> []" using fan fanout_pos[of cfg ?d hard] by auto
  moreover note depth_chunk_block[of db c cfg ?d tail, folded ch]
  ultimately show ?thesis using fan tok skip below by (auto simp: Let_def)
qed

text \<open>A condensed pass takes summaries of one depth: a block of neighbours before the fresh tail, at least as many
  as the fanout of that depth asks, worth at least the minimal chunk and, unless it is one summary,
  at most the chunk size; and no shallower depth in the context has a block that would do.\<close>

theorem condensation_candidate_is_shallowest_block:
  fixes cfg db c hard
  defines "tail \<equiv> resolve_fresh_tail_ordinal cfg db (get_context_items db c)"
  assumes cand: "select_shallowest_condensation_candidate cfg db c hard = Some cand"
  shows "(\<exists>pre post. get_context_items db c = pre @ cn_items (cp_chunk cand) @ post)
     \<and> cn_items (cp_chunk cand) \<noteq> []
     \<and> (\<forall>i \<in> set (cn_items (cp_chunk cand)). at_depth db (cp_target_depth cand) i \<and> ci_ordinal i < tail)
     \<and> resolve_fanout_for_depth cfg (cp_target_depth cand) hard \<le> int (length (cn_items (cp_chunk cand)))
     \<and> resolve_condensed_min_chunk_tokens cfg \<le> sum_list (map (item_summary_tokens db) (cn_items (cp_chunk cand)))
     \<and> (sum_list (map (item_summary_tokens db) (cn_items (cp_chunk cand))) \<le> resolve_leaf_chunk_tokens cfg None
          \<or> length (cn_items (cp_chunk cand)) = 1)
     \<and> (\<forall>d < cp_target_depth cand. d \<in> set (get_distinct_depths_in_context db c
            (if tail \<noteq> empty_fresh_tail_ordinal then Some tail else None)) \<longrightarrow>
          (let ch = select_oldest_chunk_at_depth cfg db c d (Some tail) in
            int (length (cn_items ch)) < resolve_fanout_for_depth cfg d hard
            \<or> cn_summary_tokens ch < resolve_condensed_min_chunk_tokens cfg))"
  unfolding tail_def by (rule condensation_candidate_block[OF cand])

text \<open>The leaf trigger is sound: when it fires, the leaf pass has messages to take.\<close>

theorem leaf_trigger_has_chunk:
  assumes "lt_should_compact (evaluate_leaf_trigger cfg db c override)"
  shows "lc_items (select_oldest_leaf_chunk cfg db c override) \<noteq> []"
proof -
  let ?items = "get_context_items db c"
  let ?tail = "resolve_fresh_tail_ordinal cfg db ?items"
  have "0 < resolve_leaf_chunk_tokens cfg override"
    by (auto simp: resolve_leaf_chunk_tokens_def default_leaf_chunk_tokens_def split: option.splits)
  then have "0 < sum_list (map (item_tokens db) (filter is_message_item (outside_tail ?tail ?items)))"
    using assms by (simp add: evaluate_leaf_trigger_def Let_def count_raw_tokens_outside_fresh_tail_def raw_tokens_loop_sum)
  then have "filter is_message_item (outside_tail ?tail ?items) \<noteq> []" by auto
  then have "\<exists>i \<in> set (outside_tail ?tail ?items). is_message_item i"
    by (simp add: filter_empty_conv)
  then show ?thesis
    using leaf_chunk_oldest_block[of db c cfg override] by blast
qed

theorem leaf_trigger_has_chunk_witness:
  "lt_should_compact (evaluate_leaf_trigger small_config sample_db 1 None)
   \<and> lc_items (select_oldest_leaf_chunk small_config sample_db 1 None) \<noteq> []"
proof -
  have "lt_should_compact (evaluate_leaf_trigger small_config sample_db 1 None)"
    by (simp add: evaluate_leaf_trigger_def Let_def count_raw_tokens_outside_fresh_tail_def sample_tail)
      (simp add: sample_db_items is_message_item_def item_tokens_def sample_message_tokens
        resolve_leaf_chunk_tokens_def small_config_def)
  with leaf_trigger_has_chunk[OF this] show ?thesis by simp
qed

text \<open>Two leaf summaries before a message.\<close>

definition summaries_db :: lcm_db where
  "summaries_db = sample_db\<lparr>
     db_summaries := map (\<lambda>s. summary_of_input 0 ((sample_input s)\<lparr>cs_token_count := 6\<rparr>)) [''s'', ''t''],
     db_context_items := map (\<lambda>(n, r). \<lparr>ci_conversation_id = 1, ci_ordinal = n, ci_ref = r\<rparr>)
       [(0, Sum ''s''), (1, Sum ''t''), (2, Msg 1)]\<rparr>"

lemma summaries_db_items: "get_context_items summaries_db 1 =
  map (\<lambda>(n, r). \<lparr>ci_conversation_id = 1, ci_ordinal = n, ci_ref = r\<rparr>) [(0, Sum ''s''), (1, Sum ''t''), (2, Msg 1)]"
  by (simp add: get_context_items_def context_rows_def summaries_db_def)

lemma summaries_db_summary: "get_summary summaries_db sid b =
  (if sid = ''s'' \<or> sid = ''t'' then Some (summary_of_input 0 ((sample_input sid)\<lparr>cs_token_count := 6\<rparr>)) else None)"
  by (auto simp: get_summary_def summaries_db_def summary_of_input_def sample_input_def)

lemma summaries_db_candidate:
  "select_shallowest_condensation_candidate small_config summaries_db 1 True =
     Some \<lparr>cp_target_depth = 0, cp_chunk = \<lparr>cn_items = take 2 (get_context_items summaries_db 1), cn_summary_tokens = 12\<rparr>\<rparr>"
proof -
  have tail: "resolve_fresh_tail_ordinal small_config summaries_db (get_context_items summaries_db 1) = 2"
    by (simp add: resolve_fresh_tail_ordinal_def resolve_fresh_tail_count_def resolve_fresh_tail_max_tokens_def
        small_config_def default_compaction_config_def summaries_db_items is_message_item_def)
  have depths: "get_distinct_depths_in_context summaries_db 1 (Some 2) = [0]"
    by (simp add: get_distinct_depths_in_context_def context_rows_def summaries_db_def)
      (simp add: get_summary_def summary_of_input_def sample_input_def summary_depth_def)
  have "select_oldest_chunk_at_depth small_config summaries_db 1 0 (Some 2) =
      \<lparr>cn_items = take 2 (get_context_items summaries_db 1), cn_summary_tokens = 12\<rparr>"
    by (simp add: select_oldest_chunk_at_depth_def summaries_db_items at_depth_def item_summary_def
        summaries_db_summary item_summary_tokens_def resolve_summary_token_count_def summary_of_input_def
        sample_input_def summary_depth_def resolve_leaf_chunk_tokens_def small_config_def)
  moreover have "resolve_condensed_min_chunk_tokens small_config = 5"
    by (simp add: resolve_condensed_min_chunk_tokens_def small_config_def py_int_def resolve_leaf_chunk_tokens_def)
  moreover have "resolve_fanout_for_depth small_config 0 True = 2"
    by (simp add: resolve_fanout_for_depth_def resolve_condensed_min_fanout_hard_def small_config_def
        default_compaction_config_def)
  moreover have "length (take 2 (get_context_items summaries_db 1)) = 2" by (simp add: summaries_db_items)
  ultimately show ?thesis
    by (simp add: select_shallowest_condensation_candidate_def tail depths empty_fresh_tail_ordinal_def Let_def)
qed

theorem condensation_candidate_is_shallowest_block_witness:
  "\<exists>cand. select_shallowest_condensation_candidate small_config summaries_db 1 True = Some cand
     \<and> resolve_fanout_for_depth small_config (cp_target_depth cand) True \<le> int (length (cn_items (cp_chunk cand)))
     \<and> (\<exists>pre post. get_context_items summaries_db 1 = pre @ cn_items (cp_chunk cand) @ post)"
  using condensation_candidate_is_shallowest_block[OF summaries_db_candidate] summaries_db_candidate by blast

end
