(* ===== verification/Compaction_Pass.thy ===== *)
theory Compaction_Pass
  imports Compaction_Select
begin

text \<open>
  One leaf pass and one condensed pass of the compaction engine (\<open>compaction.py\<close>): gather the
  block, render it as text, ask the summarizer, and replace the block by the new summary in one
  transaction.

  What is not code of the repository is the record \<open>compaction_env\<close>: the summarizer (a reply
  for each numbered call, so that it may answer differently every time), the clock, the
  SHA-256 digest, the JSON parser, the table of alphanumeric characters and the rendering of
  a time in the configured time zone. An exception is a value of \<open>pass_exn\<close>. A pass returns the
  tables together with its result, since what it committed stays when it raises later.

  The lemmas show that a pass that fails in any way leaves the tables as they were, and that
  a pass that succeeds replaces its block by one summary that is linked to every message or
  summary of the block: no message becomes unreachable.
\<close>

subsection \<open>The environment\<close>

record summarize_request =
  sq_source :: utext
  sq_aggressive :: bool
  sq_previous :: "utext option"
  sq_condensed :: bool
  sq_target_tokens :: "int option"
  sq_depth :: "int option"
  sq_model :: "string option"

datatype summarizer_reply = Reply utext | Reply_Not_Str | Raise_Auth | Raise_Other

record compaction_env =
  ce_summarize :: "nat \<Rightarrow> summarize_request \<Rightarrow> summarizer_reply"
  ce_now_ms :: "nat \<Rightarrow> nat"
  ce_now :: "nat \<Rightarrow> int"
  ce_hexdigest :: "utext \<Rightarrow> string"
  ce_loads :: "utext \<Rightarrow> json option"
  ce_alnum :: "nat \<Rightarrow> bool"
  ce_format_timestamp :: "int \<Rightarrow> utext"

datatype pass_exn = Auth_Error | Summarizer_Error | Database_Error

subsection \<open>Message text\<close>

definition parse_message_part_metadata :: "(utext \<Rightarrow> json option) \<Rightarrow> utext option \<Rightarrow> json" where
  "parse_message_part_metadata loads metadata = (case metadata of
     None \<Rightarrow> JObj []
   | Some t \<Rightarrow> if u_strip t = [] then JObj []
       else (case loads t of Some (JObj kvs) \<Rightarrow> JObj kvs | _ \<Rightarrow> JObj []))"

definition is_media_attachment_part :: "(utext \<Rightarrow> json option) \<Rightarrow> message_part \<Rightarrow> bool" where
  "is_media_attachment_part loads part =
     (if mp_part_type part \<in> set media_attachment_part_types then True
      else
        let metadata = parse_message_part_metadata loads (mp_metadata part);
            raw_type = (case jget ''rawType'' metadata of
                JStr s \<Rightarrow> u_lower (u_strip s)
              | _ \<Rightarrow> raw_type_of (jget ''type'' (jget ''raw'' metadata))) in
        raw_type \<in> set media_attachment_raw_types)"

fun contains :: "utext \<Rightarrow> utext \<Rightarrow> bool" where
  "contains needle [] \<longleftrightarrow> needle = []"
| "contains needle (c # cs) \<longleftrightarrow> take (length needle) (c # cs) = needle \<or> contains needle cs"

definition annotate_media_content ::
    "(utext \<Rightarrow> json option) \<Rightarrow> lcm_db \<Rightarrow> int \<Rightarrow> utext \<Rightarrow> utext" where
  "annotate_media_content loads db mid content =
     (let parts = get_message_parts db mid in
      if \<not> list_ex (is_media_attachment_part loads) parts then content
      else
        let fragments = filter (\<lambda>t. t \<noteq> []) (map (\<lambda>p. u_strip (strip_embedded_media_payloads
                (case mp_text_content p of Some t \<Rightarrow> t | None \<Rightarrow> [])))
              (filter (\<lambda>p. \<not> is_media_attachment_part loads p) parts));
            part_text = u_strip (u_join [10] fragments);
            fallback_text = extract_meaningful_message_text loads content;
            meaningful_text = u_strip (if part_text \<noteq> [] then part_text else fallback_text) in
        if meaningful_text = [] then cps ''[Media attachment]''
        else if contains (cps ''[with media attachment]'') meaningful_text then meaningful_text
        else meaningful_text @ cps '' [with media attachment]'')"

subsection \<open>Results\<close>

datatype compaction_level = Normal | Aggressive | Fallback | Capped

record leaf_pass_result =
  lp_summary_id :: string
  lp_level :: compaction_level
  lp_content :: utext
  lp_removed_tokens :: int
  lp_added_tokens :: int

record leaf_pass_outcome =
  lo_summary :: "leaf_pass_result option"
  lo_auth_failure :: bool

text \<open>\<open>"sum_" + sha256(content + str(now_ms)).hexdigest()[:16]\<close>\<close>

definition generate_summary_id :: "compaction_env \<Rightarrow> nat \<Rightarrow> utext \<Rightarrow> string" where
  "generate_summary_id env tick content =
     ''sum_'' @ take 16 (ce_hexdigest env (content @ dec_digits (ce_now_ms env tick)))"

definition py_max0 :: "int \<Rightarrow> int" where
  "py_max0 n = max 0 n"

fun min_of :: "int list \<Rightarrow> int option" where
  "min_of [] = None"
| "min_of (x # xs) = Some (fold min xs x)"

fun max_of :: "int list \<Rightarrow> int option" where
  "max_of [] = None"
| "max_of (x # xs) = Some (fold max xs x)"

definition opt_or :: "'a option \<Rightarrow> 'a \<Rightarrow> 'a" where
  "opt_or o' d = (case o' of Some x \<Rightarrow> x | None \<Rightarrow> d)"

definition last_n :: "nat \<Rightarrow> 'a list \<Rightarrow> 'a list" where
  "last_n n xs = drop (length xs - n) xs"

text \<open>The escalation of both passes: blank sources and blank or non-string replies give no summary.\<close>

definition ask_summarizer ::
    "compaction_env \<Rightarrow> nat \<Rightarrow> summarize_request \<Rightarrow> pass_exn + (utext \<times> compaction_level) option" where
  "ask_summarizer env tick req = (case ce_summarize env tick req of
     Raise_Auth \<Rightarrow> Inl Auth_Error
   | Raise_Other \<Rightarrow> Inl Summarizer_Error
   | Reply_Not_Str \<Rightarrow> Inr None
   | Reply content \<Rightarrow> if u_strip content = [] then Inr None else Inr (Some (content, Normal)))"

definition summarize_with_escalation ::
    "compaction_env \<Rightarrow> nat \<Rightarrow> utext \<Rightarrow> int \<Rightarrow> utext option \<Rightarrow> string option
     \<Rightarrow> pass_exn + (utext \<times> compaction_level) option" where
  "summarize_with_escalation env tick source_text target_tokens previous_summary model =
     (if u_strip source_text = [] then Inr None
      else ask_summarizer env tick
        \<lparr>sq_source = source_text, sq_aggressive = False, sq_previous = previous_summary, sq_condensed = False,
         sq_target_tokens = Some target_tokens, sq_depth = None, sq_model = model\<rparr>)"

definition summarize_with_escalation_condensed ::
    "compaction_env \<Rightarrow> nat \<Rightarrow> utext \<Rightarrow> utext option \<Rightarrow> int \<Rightarrow> string option
     \<Rightarrow> pass_exn + (utext \<times> compaction_level) option" where
  "summarize_with_escalation_condensed env tick source_text previous_summary target_depth model =
     (if u_strip source_text = [] then Inr None
      else ask_summarizer env tick
        \<lparr>sq_source = source_text, sq_aggressive = False, sq_previous = previous_summary, sq_condensed = True,
         sq_target_tokens = None, sq_depth = Some (target_depth + 1), sq_model = model\<rparr>)"

subsection \<open>The leaf pass\<close>

definition prior_summary_items :: "lcm_db \<Rightarrow> int \<Rightarrow> int \<Rightarrow> context_item list" where
  "prior_summary_items db c start_ordinal =
     filter (\<lambda>i. ci_ordinal i < start_ordinal \<and> item_summary_id i \<noteq> None) (get_context_items db c)"

definition prior_contents :: "lcm_db \<Rightarrow> (summary_record \<Rightarrow> bool) \<Rightarrow> context_item list \<Rightarrow> utext list" where
  "prior_contents db P items = filter (\<lambda>t. t \<noteq> []) (map (\<lambda>s. u_strip (sr_content s))
     (filter P (List.map_filter (item_summary db) items)))"

definition resolve_prior_leaf_summary_context :: "lcm_db \<Rightarrow> int \<Rightarrow> context_item list \<Rightarrow> utext option" where
  "resolve_prior_leaf_summary_context db c message_items =
     (case min_of (map ci_ordinal message_items) of
        None \<Rightarrow> None
      | Some start_ordinal \<Rightarrow>
          let contents = prior_contents db (\<lambda>_. True) (last_n 2 (prior_summary_items db c start_ordinal)) in
          if contents = [] then None else Some (u_join [10, 10] contents))"

record message_entry =
  me_message_id :: int
  me_content :: utext
  me_created_at :: int
  me_token_count :: int

definition message_entry_of :: "compaction_env \<Rightarrow> lcm_db \<Rightarrow> context_item \<Rightarrow> message_entry option" where
  "message_entry_of env db i = (case item_message_id i of
     None \<Rightarrow> None
   | Some mid \<Rightarrow> (case get_message_by_id db mid True of
       None \<Rightarrow> None
     | Some m \<Rightarrow> Some \<lparr>me_message_id = mr_message_id m,
         me_content = annotate_media_content (ce_loads env) db (mr_message_id m) (mr_content m),
         me_created_at = mr_created_at m,
         me_token_count = resolve_message_token_count m\<rparr>))"

definition leaf_source_text :: "compaction_env \<Rightarrow> message_entry list \<Rightarrow> utext" where
  "leaf_source_text env entries = u_join [10, 10] (List.map_filter (\<lambda>e.
     let t = extract_meaningful_message_text (ce_loads env) (me_content e) in
     if t = [] then None
     else Some ([91] @ ce_format_timestamp env (me_created_at e) @ [93, 10] @ t)) entries)"

text \<open>The transaction: insert, link, replace; an exception rolls all of it back.\<close>

definition commit_summary ::
    "int \<Rightarrow> create_summary_input \<Rightarrow> (lcm_db \<Rightarrow> db_error + lcm_db) \<Rightarrow> int \<Rightarrow> int \<Rightarrow> lcm_db \<Rightarrow> lcm_db \<times> (pass_exn + unit)" where
  "commit_summary now inp link start_ordinal end_ordinal db =
     (case bindE (insert_summary now inp db) (\<lambda>db1. bindE (link db1)
        (replace_context_range_with_summary (cs_conversation_id inp) start_ordinal end_ordinal (cs_summary_id inp))) of
        Inl _ \<Rightarrow> (db, Inl Database_Error)
      | Inr db' \<Rightarrow> (db', Inr ()))"

text \<open>From the summary text on: the row to write, the transaction, the result.\<close>

definition leaf_pass_write ::
    "compaction_env \<Rightarrow> nat \<Rightarrow> int \<Rightarrow> context_item list \<Rightarrow> message_entry list \<Rightarrow> utext \<Rightarrow> compaction_level
     \<Rightarrow> string option \<Rightarrow> lcm_db \<Rightarrow> lcm_db \<times> (pass_exn + leaf_pass_outcome)" where
  "leaf_pass_write env tick c message_items entries content level model db =
     (let summary_id = generate_summary_id env tick content;
          token_count = estimate_tokens content;
          removed_tokens = sum_list (map (\<lambda>e. py_max0 (me_token_count e)) entries);
          start_ordinal = Min (ci_ordinal ` set message_items);
          end_ordinal = Max (ci_ordinal ` set message_items);
          message_ids = map me_message_id entries;
          file_ids = dedupe_ordered_ids
            (concat (map (\<lambda>e. extract_file_ids_from_content (ce_alnum env) (me_content e)) entries));
          inp = \<lparr>cs_summary_id = summary_id, cs_conversation_id = c, cs_kind = Leaf, cs_content = content,
            cs_token_count = token_count, cs_depth = Some 0, cs_file_ids = Some file_ids,
            cs_earliest_at = min_of (map me_created_at entries),
            cs_latest_at = max_of (map me_created_at entries),
            cs_descendant_count = Some 0, cs_descendant_token_count = Some 0,
            cs_source_message_token_count = Some removed_tokens, cs_model = model\<rparr> in
      case commit_summary (ce_now env tick) inp (link_summary_to_messages summary_id message_ids)
             start_ordinal end_ordinal db of
        (db', Inl e) \<Rightarrow> (db', Inl e)
      | (db', Inr _) \<Rightarrow> (db', Inr \<lparr>lo_summary = Some \<lparr>lp_summary_id = summary_id, lp_level = level,
            lp_content = content, lp_removed_tokens = removed_tokens, lp_added_tokens = token_count\<rparr>,
          lo_auth_failure = False\<rparr>))"

definition leaf_pass_block ::
    "compaction_config \<Rightarrow> compaction_env \<Rightarrow> nat \<Rightarrow> int \<Rightarrow> context_item list \<Rightarrow> utext option \<Rightarrow> string option
     \<Rightarrow> lcm_db \<Rightarrow> lcm_db \<times> (pass_exn + leaf_pass_outcome)" where
  "leaf_pass_block cfg env tick c message_items previous_summary_content model db =
     (let previous_summary = (case previous_summary_content of
              Some p \<Rightarrow> if u_strip p \<noteq> [] then Some p else resolve_prior_leaf_summary_context db c message_items
            | None \<Rightarrow> resolve_prior_leaf_summary_context db c message_items);
          entries = List.map_filter (message_entry_of env db) message_items in
      case summarize_with_escalation env tick (leaf_source_text env entries) (cc_leaf_target_tokens cfg)
             previous_summary model of
        Inl Auth_Error \<Rightarrow> (db, Inr \<lparr>lo_summary = None, lo_auth_failure = True\<rparr>)
      | Inl e \<Rightarrow> (db, Inl e)
      | Inr None \<Rightarrow> (db, Inr \<lparr>lo_summary = None, lo_auth_failure = False\<rparr>)
      | Inr (Some (content, level)) \<Rightarrow> leaf_pass_write env tick c message_items entries content level model db)"

definition leaf_pass ::
    "compaction_config \<Rightarrow> compaction_env \<Rightarrow> nat \<Rightarrow> int \<Rightarrow> utext option \<Rightarrow> string option \<Rightarrow> lcm_db
     \<Rightarrow> lcm_db \<times> (pass_exn + leaf_pass_outcome)" where
  "leaf_pass cfg env tick c previous_summary_content model db =
     (let message_items = lc_items (select_oldest_leaf_chunk cfg db c None) in
      if message_items = [] then (db, Inr \<lparr>lo_summary = None, lo_auth_failure = False\<rparr>)
      else leaf_pass_block cfg env tick c message_items previous_summary_content model db)"

subsection \<open>The condensed pass\<close>

definition resolve_prior_summary_context_at_depth ::
    "lcm_db \<Rightarrow> int \<Rightarrow> context_item list \<Rightarrow> int \<Rightarrow> utext option" where
  "resolve_prior_summary_context_at_depth db c summary_items target_depth =
     (case min_of (map ci_ordinal summary_items) of
        None \<Rightarrow> None
      | Some start_ordinal \<Rightarrow>
          let contents = prior_contents db (\<lambda>s. sr_depth s = target_depth)
                (last_n 4 (prior_summary_items db c start_ordinal)) in
          if contents = [] then None else Some (u_join [10, 10] (last_n 2 contents)))"

definition condensed_source_text :: "compaction_env \<Rightarrow> summary_record list \<Rightarrow> utext" where
  "condensed_source_text env records = u_join [10, 10] (map (\<lambda>s.
     [91] @ ce_format_timestamp env (opt_or (sr_earliest_at s) (sr_created_at s)) @ cps '' - ''
       @ ce_format_timestamp env (opt_or (sr_latest_at s) (sr_created_at s)) @ [93, 10] @ sr_content s) records)"

definition condensed_pass_write ::
    "compaction_env \<Rightarrow> nat \<Rightarrow> int \<Rightarrow> context_item list \<Rightarrow> int \<Rightarrow> summary_record list \<Rightarrow> utext \<Rightarrow> compaction_level
     \<Rightarrow> string option \<Rightarrow> lcm_db \<Rightarrow> lcm_db \<times> (pass_exn + leaf_pass_result option)" where
  "condensed_pass_write env tick c summary_items target_depth records content level model db =
     (let summary_id = generate_summary_id env tick content;
          token_count = estimate_tokens content;
          file_ids = dedupe_ordered_ids (concat (map (\<lambda>s.
            sr_file_ids s @ extract_file_ids_from_content (ce_alnum env) (sr_content s)) records));
          start_ordinal = Min (ci_ordinal ` set summary_items);
          end_ordinal = Max (ci_ordinal ` set summary_items);
          inp = \<lparr>cs_summary_id = summary_id, cs_conversation_id = c, cs_kind = Condensed, cs_content = content,
            cs_token_count = token_count, cs_depth = Some (target_depth + 1), cs_file_ids = Some file_ids,
            cs_earliest_at = min_of (map (\<lambda>s. opt_or (sr_earliest_at s) (sr_created_at s)) records),
            cs_latest_at = max_of (map (\<lambda>s. opt_or (sr_latest_at s) (sr_created_at s)) records),
            cs_descendant_count = Some (sum_list (map (\<lambda>s. py_max0 (sr_descendant_count s) + 1) records)),
            cs_descendant_token_count = Some (sum_list (map (\<lambda>s.
              py_max0 (sr_descendant_token_count s) + py_max0 (sr_token_count s)) records)),
            cs_source_message_token_count =
              Some (sum_list (map (\<lambda>s. py_max0 (sr_source_message_token_count s)) records)),
            cs_model = model\<rparr>;
          removed_tokens = sum_list (map (\<lambda>s. py_max0 (sr_token_count s)) records) in
      case commit_summary (ce_now env tick) inp (link_summary_to_parents summary_id (map sr_summary_id records))
             start_ordinal end_ordinal db of
        (db', Inl e) \<Rightarrow> (db', Inl e)
      | (db', Inr _) \<Rightarrow> (db', Inr (Some \<lparr>lp_summary_id = summary_id, lp_level = level,
            lp_content = content, lp_removed_tokens = removed_tokens, lp_added_tokens = token_count\<rparr>)))"

definition condensed_pass ::
    "compaction_config \<Rightarrow> compaction_env \<Rightarrow> nat \<Rightarrow> int \<Rightarrow> context_item list \<Rightarrow> int \<Rightarrow> string option \<Rightarrow> lcm_db
     \<Rightarrow> lcm_db \<times> (pass_exn + leaf_pass_result option)" where
  "condensed_pass cfg env tick c summary_items target_depth model db =
     (let records = List.map_filter (item_summary db) summary_items;
          previous = (if target_depth = 0
            then resolve_prior_summary_context_at_depth db c summary_items target_depth else None) in
      case summarize_with_escalation_condensed env tick (condensed_source_text env records) previous target_depth model of
        Inl e \<Rightarrow> (db, Inl e)
      | Inr None \<Rightarrow> (db, Inr None)
      | Inr (Some (content, level)) \<Rightarrow>
          condensed_pass_write env tick c summary_items target_depth records content level model db)"

definition run_condensed_pass ::
    "compaction_config \<Rightarrow> compaction_env \<Rightarrow> nat \<Rightarrow> int \<Rightarrow> bool \<Rightarrow> string option \<Rightarrow> lcm_db
     \<Rightarrow> lcm_db \<times> (pass_exn + leaf_pass_outcome)" where
  "run_condensed_pass cfg env tick c hard_trigger model db =
     (case select_shallowest_condensation_candidate cfg db c hard_trigger of
        None \<Rightarrow> (db, Inr \<lparr>lo_summary = None, lo_auth_failure = False\<rparr>)
      | Some cand \<Rightarrow>
          (case condensed_pass cfg env tick c (cn_items (cp_chunk cand)) (cp_target_depth cand) model db of
             (db', Inl Auth_Error) \<Rightarrow> (db', Inr \<lparr>lo_summary = None, lo_auth_failure = True\<rparr>)
           | (db', Inl e) \<Rightarrow> (db', Inl e)
           | (db', Inr r) \<Rightarrow> (db', Inr \<lparr>lo_summary = r, lo_auth_failure = False\<rparr>)))"

subsection \<open>What a commit does\<close>

text \<open>A link step changes nothing but the link tables.\<close>

definition links_only :: "lcm_db \<Rightarrow> lcm_db \<Rightarrow> bool" where
  "links_only db db' \<longleftrightarrow>
     db'\<lparr>db_summary_messages := [], db_summary_parents := []\<rparr> = db\<lparr>db_summary_messages := [], db_summary_parents := []\<rparr>"

lemma links_only_fields:
  "links_only db db' \<Longrightarrow> db_messages db' = db_messages db \<and> db_summaries db' = db_summaries db
     \<and> db_message_parts db' = db_message_parts db \<and> db_context_items db' = db_context_items db
     \<and> db_next_message_id db' = db_next_message_id db"
  by (cases db; cases db') (simp add: links_only_def)

lemma items_same: "db_context_items db' = db_context_items db \<Longrightarrow> get_context_items db' c = get_context_items db c"
  by (simp add: get_context_items_def context_rows_def)

lemma ref_exists_same:
  "db_messages db' = db_messages db \<Longrightarrow> db_summaries db' = db_summaries db \<Longrightarrow> ref_exists db' r = ref_exists db r"
  by (cases r) simp_all

lemma ref_tokens_cong:
  "db_messages db' = db_messages db \<Longrightarrow> db_summaries db' = db_summaries db \<Longrightarrow> ref_tokens db' r = ref_tokens db r"
  by (cases r) simp_all

lemma ref_tokens_insert:
  "\<not> ref_exists db (Sum (cs_summary_id inp)) \<Longrightarrow>
     ref_tokens (db\<lparr>db_summaries := db_summaries db @ [summary_of_input now inp]\<rparr>) r =
       ref_tokens db r + (if r = Sum (cs_summary_id inp) then cs_token_count inp else 0)"
  by (cases r) (auto simp: summary_of_input_def)

lemma ref_tokens_unknown: "\<not> ref_exists db r \<Longrightarrow> ref_tokens db r = 0"
  by (cases r) (auto simp: list_ex_iff filter_empty_conv)

lemma context_refs_exist: "wf_db db \<Longrightarrow> r \<in> set (context_refs db c) \<Longrightarrow> ref_exists db r"
  by (auto simp: context_refs_def wf_db_def list_all_iff)

lemma commit_failure: "commit_summary now inp link s e db = (db', Inl x) \<Longrightarrow> db' = db"
  by (auto simp: commit_summary_def split: sum.splits)

lemma commit_success:
  assumes wf: "wf_db db" and items: "get_context_items db c = pre @ block @ post" and ne: "block \<noteq> []"
    and conv: "cs_conversation_id inp = c" and sid: "cs_summary_id inp = sid"
    and link: "\<And>db1 db2. wf_db db1 \<Longrightarrow> link db1 = Inr db2 \<Longrightarrow> wf_db db2 \<and> links_only db1 db2"
    and commit: "commit_summary now inp link (Min (ci_ordinal ` set block)) (Max (ci_ordinal ` set block)) db = (db', Inr u)"
  shows "\<not> ref_exists db (Sum sid) \<and> wf_db db'
     \<and> context_refs db' c = map ci_ref pre @ Sum sid # map ci_ref post
     \<and> (\<forall>c'. c' \<noteq> c \<longrightarrow> get_context_items db' c' = get_context_items db c')
     \<and> db_messages db' = db_messages db \<and> db_message_parts db' = db_message_parts db
     \<and> db_summaries db' = db_summaries db @ [summary_of_input now inp]
     \<and> (\<exists>db2. link (db\<lparr>db_summaries := db_summaries db @ [summary_of_input now inp]\<rparr>) = Inr db2
          \<and> db_summary_messages db' = db_summary_messages db2 \<and> db_summary_parents db' = db_summary_parents db2)
     \<and> get_context_token_count db' c =
         get_context_token_count db c - sum_list (map (ref_tokens db) (map ci_ref block)) + cs_token_count inp"
proof -
  define db1 where "db1 = db\<lparr>db_summaries := db_summaries db @ [summary_of_input now inp]\<rparr>"
  obtain db2 where ins: "insert_summary now inp db = Inr db1" and db2: "link db1 = Inr db2"
    and rep: "replace_context_range_with_summary c (Min (ci_ordinal ` set block)) (Max (ci_ordinal ` set block)) sid db2 = Inr db'"
    using commit conv sid by (auto simp: commit_summary_def insert_summary_def db1_def split: sum.splits if_splits)
  have fresh: "\<not> ref_exists db (Sum sid)"
    using ins sid by (auto simp: insert_summary_def split: if_splits)
  have wf1: "wf_db db1" by (rule wf_insert_summary[OF wf ins])
  have wf2: "wf_db db2" and lo: "links_only db1 db2" using link[OF wf1 db2] by auto
  note f2 = links_only_fields[OF lo]
  have items2: "get_context_items db2 c' = get_context_items db c'" for c'
    using f2 by (intro items_same) (simp add: db1_def)
  have known: "ref_exists db2 (Sum sid) \<and> (\<exists>x. Sum sid = Sum x)"
    using f2 sid by (simp add: db1_def summary_of_input_def)
  let ?num = "map (\<lambda>i. (ci_ordinal i, ci_ref i))"
  have num: "numbered_refs c db2 = ?num pre @ ?num block @ ?num post"
    by (simp add: numbered_refs_def items2 items)
  have fst: "fst ` set (?num block) = ci_ordinal ` set block" by force
  have blockne: "?num block \<noteq> []" using ne by simp
  obtain db'' where db'': "replace_with_ref c (Min (ci_ordinal ` set block)) (Max (ci_ordinal ` set block)) (Sum sid) db2 = Inr db''"
    "map snd (numbered_refs c db'') = map snd (?num pre) @ Sum sid # map snd (?num post)"
    "get_context_token_count db'' c = get_context_token_count db2 c
       - sum_list (map (ref_tokens db2) (map snd (?num block))) + ref_tokens db2 (Sum sid)"
    using ctx.replace_block[OF wf2 num blockne known] unfolding fst by blast
  have "db'' = db'" using db''(1) rep by (simp add: replace_with_ref_def)
  have range: "0 \<le> Min (ci_ordinal ` set block)" "Min (ci_ordinal ` set block) \<le> Max (ci_ordinal ` set block)"
    using ctx.block_bounds(3,4)[OF wf2 num blockne] unfolding fst by auto
  obtain same: "same_records db2 db'" and wf': "wf_db db'"
    and other: "\<forall>c'. c' \<noteq> c \<longrightarrow> get_context_items db' c' = get_context_items db2 c'"
    using replace_ok[OF wf2 range, of sid c] known rep by auto
  note f' = same_records_fields[OF same]
  have tok: "ref_tokens db2 r = ref_tokens db r + (if r = Sum sid then cs_token_count inp else 0)" for r
    using ref_tokens_cong[of db2 db1 r] f2 ref_tokens_insert[of db inp now r] fresh sid by (simp add: db1_def)
  have notin: "Sum sid \<notin> set (context_refs db c)" using context_refs_exist[OF wf] fresh by blast
  have tok_eq: "ref_tokens db2 r = ref_tokens db r" if "r \<in> set (context_refs db c)" for r
    using tok[of r] notin that by auto
  have refs2: "context_refs db2 c = context_refs db c" by (simp add: context_refs_def items2)
  have "sum_list (map (ref_tokens db2) (context_refs db2 c)) = sum_list (map (ref_tokens db) (context_refs db c))"
    unfolding refs2 by (intro arg_cong[of _ _ sum_list] map_cong refl tok_eq)
  moreover have "set (map ci_ref block) \<subseteq> set (context_refs db c)"
    unfolding context_refs_def items by auto
  then have "sum_list (map (ref_tokens db2) (map ci_ref block)) = sum_list (map (ref_tokens db) (map ci_ref block))"
    by (intro arg_cong[of _ _ sum_list] map_cong refl tok_eq) auto
  ultimately have total: "get_context_token_count db' c =
         get_context_token_count db c - sum_list (map (ref_tokens db) (map ci_ref block)) + cs_token_count inp"
    using db''(3) tok[of "Sum sid"] ref_tokens_unknown[OF fresh] unfolding \<open>db'' = db'\<close> token_count_refs
    by (simp add: comp_def)
  have refs: "context_refs db' c = map ci_ref pre @ Sum sid # map ci_ref post"
    using db''(2) unfolding \<open>db'' = db'\<close> numbered_refs_snd by (simp add: comp_def)
  show ?thesis
    using fresh wf' refs other items2 f' f2 total db2 unfolding db1_def by auto
qed

subsection \<open>What a context still reaches\<close>

text \<open>The messages a reference stands for: itself, or what its summary was made from.\<close>

inductive covers :: "lcm_db \<Rightarrow> context_ref \<Rightarrow> int \<Rightarrow> bool" for db where
  covers_self: "covers db (Msg m) m"
| covers_source: "(s, m) \<in> message_links db \<Longrightarrow> covers db (Sum s) m"
| covers_parent: "(s, p) \<in> parent_links db \<Longrightarrow> covers db (Sum p) m \<Longrightarrow> covers db (Sum s) m"

inductive_simps covers_Msg [simp]: "covers db (Msg m) m'"
inductive_simps covers_Sum: "covers db (Sum s) m"

definition covered :: "lcm_db \<Rightarrow> int \<Rightarrow> int set" where
  "covered db c = {m. \<exists>r \<in> set (context_refs db c). covers db r m}"

lemma links_refer: "wf_db db \<Longrightarrow> (s, m) \<in> message_links db \<Longrightarrow> ref_exists db (Sum s) \<and> ref_exists db (Msg m)"
  by (auto simp: wf_db_def message_links_def list_all_iff)

lemma parents_refer: "wf_db db \<Longrightarrow> (s, p) \<in> parent_links db \<Longrightarrow> ref_exists db (Sum s) \<and> ref_exists db (Sum p)"
  by (auto simp: wf_db_def parent_links_def list_all_iff)

text \<open>A fresh summary with its links leaves what every other reference covers as it was.\<close>

lemma covers_fresh:
  assumes wf: "wf_db db" and fresh: "\<not> ref_exists db (Sum sid)"
    and ml: "message_links db' = message_links db \<union> Pair sid ` M"
    and pl: "parent_links db' = parent_links db \<union> Pair sid ` P"
    and known: "\<forall>p \<in> P. ref_exists db (Sum p)"
  shows "r \<noteq> Sum sid \<Longrightarrow> covers db' r m \<longleftrightarrow> covers db r m"
    and "covers db' (Sum sid) m \<longleftrightarrow> m \<in> M \<or> (\<exists>p \<in> P. covers db (Sum p) m)"
proof -
  have other: "covers db' r m \<longleftrightarrow> covers db r m" if "r \<noteq> Sum sid" for r m
  proof
    assume "covers db' r m"
    then show "covers db r m" using that
    proof induction
      case (covers_source s m)
      then show ?case using ml by (auto intro: covers.covers_source)
    next
      case (covers_parent s p m)
      then have old: "(s, p) \<in> parent_links db" using pl by auto
      then have "Sum p \<noteq> Sum sid" using parents_refer[OF wf] fresh by metis
      then show ?case using covers_parent.IH old by (auto intro: covers.covers_parent)
    qed (rule covers.covers_self)
  next
    assume "covers db r m"
    then show "covers db' r m"
      by induction (auto simp: ml pl intro: covers.intros)
  qed
  show "r \<noteq> Sum sid \<Longrightarrow> covers db' r m \<longleftrightarrow> covers db r m" by (rule other)
  have "(sid, x) \<notin> message_links db" "(sid, y) \<notin> parent_links db" for x y
    using links_refer[OF wf, of sid x] parents_refer[OF wf, of sid y] fresh by blast+
  moreover have "covers db' (Sum p) m = covers db (Sum p) m" if "p \<in> P" for p
    using known fresh that by (intro other) auto
  ultimately show "covers db' (Sum sid) m \<longleftrightarrow> m \<in> M \<or> (\<exists>p \<in> P. covers db (Sum p) m)"
    unfolding covers_Sum[of db' sid m] ml pl by auto
qed

subsection \<open>Costs\<close>

text \<open>The cost of a reference as the passes count what they remove.\<close>

fun ref_cost :: "lcm_db \<Rightarrow> context_ref \<Rightarrow> int" where
  "ref_cost db (Msg m) = get_message_token_count db m"
| "ref_cost db (Sum s) = (case get_summary db s True of Some r \<Rightarrow> py_max0 (sr_token_count r) | None \<Rightarrow> 0)"

definition context_cost :: "lcm_db \<Rightarrow> int \<Rightarrow> int" where
  "context_cost db c = sum_list (map (ref_cost db) (context_refs db c))"

lemma ref_cost_nonneg: "0 \<le> ref_cost db r"
  by (cases r) (auto simp: get_message_token_count_nonneg py_max0_def split: option.splits)

lemma context_cost_nonneg: "0 \<le> context_cost db c"
  unfolding context_cost_def by (rule sum_list_nonneg) (auto simp: ref_cost_nonneg)

text \<open>
  The effect of a successful pass on the block it took, for the passes over messages and over
  summaries alike: \<open>M\<close> and \<open>P\<close> are the sources the new summary is linked to.
\<close>

definition pass_effect ::
    "lcm_db \<Rightarrow> int \<Rightarrow> context_item list \<Rightarrow> leaf_pass_result \<Rightarrow> int set \<Rightarrow> string set \<Rightarrow> lcm_db \<Rightarrow> bool" where
  "pass_effect db c block res M P db' \<longleftrightarrow>
     block \<noteq> [] \<and> wf_db db' \<and> \<not> ref_exists db (Sum (lp_summary_id res))
   \<and> (\<exists>pre post. get_context_items db c = pre @ block @ post
        \<and> context_refs db' c = map ci_ref pre @ Sum (lp_summary_id res) # map ci_ref post)
   \<and> (\<forall>c'. c' \<noteq> c \<longrightarrow> get_context_items db' c' = get_context_items db c')
   \<and> db_messages db' = db_messages db
   \<and> (\<exists>new. db_summaries db' = db_summaries db @ [new] \<and> sr_summary_id new = lp_summary_id res
        \<and> sr_conversation_id new = c \<and> sr_content new = lp_content res \<and> sr_token_count new = lp_added_tokens res)
   \<and> message_links db' = message_links db \<union> Pair (lp_summary_id res) ` M
   \<and> parent_links db' = parent_links db \<union> Pair (lp_summary_id res) ` P
   \<and> (\<forall>p \<in> P. ref_exists db (Sum p))
   \<and> lp_added_tokens res = estimate_tokens (lp_content res)
   \<and> lp_removed_tokens res = sum_list (map (ref_cost db) (map ci_ref block))
   \<and> get_context_token_count db' c = get_context_token_count db c
       - sum_list (map (ref_tokens db) (map ci_ref block)) + lp_added_tokens res"

lemma ref_cost_fresh:
  assumes "db_messages db' = db_messages db" "db_summaries db' = db_summaries db @ [new]"
  shows "ref_exists db r \<or> r \<noteq> Sum (sr_summary_id new) \<Longrightarrow> ref_cost db' r = ref_cost db r"
    and "\<not> ref_exists db (Sum (sr_summary_id new)) \<Longrightarrow> ref_cost db' (Sum (sr_summary_id new)) = py_max0 (sr_token_count new)"
proof -
  show "ref_exists db r \<or> r \<noteq> Sum (sr_summary_id new) \<Longrightarrow> ref_cost db' r = ref_cost db r"
  proof (cases r)
    case (Sum s)
    assume "ref_exists db r \<or> r \<noteq> Sum (sr_summary_id new)"
    then have "(\<exists>x \<in> set (db_summaries db). sr_summary_id x = s) \<or> sr_summary_id new \<noteq> s"
      using Sum by (auto simp: list_ex_iff)
    then have "List.find (\<lambda>x. sr_summary_id x = s) (db_summaries db) = None \<Longrightarrow> sr_summary_id new \<noteq> s"
      by (auto simp: find_None_iff)
    then have "get_summary db' s True = get_summary db s True"
      by (simp add: get_summary_def assms find_append split: option.split)
    then show ?thesis by (simp add: Sum)
  qed (simp add: get_message_token_count_def get_message_by_id_def assms)
  assume "\<not> ref_exists db (Sum (sr_summary_id new))"
  then have "List.find (\<lambda>s. sr_summary_id s = sr_summary_id new) (db_summaries db) = None"
    by (auto simp: find_None_iff list_ex_iff)
  then show "ref_cost db' (Sum (sr_summary_id new)) = py_max0 (sr_token_count new)"
    by (simp add: get_summary_def assms find_append)
qed

lemma pass_effect_cost:
  assumes wf: "wf_db db" and eff: "pass_effect db c block res M P db'"
  shows "context_cost db' c = context_cost db c - lp_removed_tokens res + lp_added_tokens res"
proof -
  let ?sid = "lp_summary_id res"
  obtain pre post where items: "get_context_items db c = pre @ block @ post"
    and refs: "context_refs db' c = map ci_ref pre @ Sum ?sid # map ci_ref post"
    using eff by (auto simp: pass_effect_def)
  obtain new where new: "db_summaries db' = db_summaries db @ [new]" "sr_summary_id new = ?sid"
    "sr_token_count new = lp_added_tokens res"
    using eff by (auto simp: pass_effect_def)
  have msgs: "db_messages db' = db_messages db" and fresh: "\<not> ref_exists db (Sum ?sid)"
    and added: "0 \<le> lp_added_tokens res"
    using eff by (auto simp: pass_effect_def)
  have old: "ref_cost db' r = ref_cost db r" if "r \<in> set (context_refs db c)" for r
    using ref_cost_fresh(1)[OF msgs new(1)] context_refs_exist[OF wf that] by simp
  have "ref_cost db' (Sum ?sid) = lp_added_tokens res"
    using ref_cost_fresh(2)[OF msgs new(1)] fresh added new(2,3) by (simp add: py_max0_def)
  moreover have "sum_list (map (ref_cost db') (map ci_ref pre)) = sum_list (map (ref_cost db) (map ci_ref pre))"
    "sum_list (map (ref_cost db') (map ci_ref post)) = sum_list (map (ref_cost db) (map ci_ref post))"
    by (intro arg_cong[of _ _ sum_list] map_cong refl old; auto simp: context_refs_def items)+
  moreover have "context_refs db c = map ci_ref pre @ map ci_ref block @ map ci_ref post"
    by (simp add: context_refs_def items)
  moreover have "lp_removed_tokens res = sum_list (map (ref_cost db) (map ci_ref block))"
    using eff by (simp add: pass_effect_def)
  ultimately show ?thesis
    unfolding context_cost_def refs by (simp del: map_map ref_cost.simps)
qed

lemma pass_effect_covered:
  assumes wf: "wf_db db" and eff: "pass_effect db c block res M P db'"
    and block: "{m. \<exists>i \<in> set block. covers db (ci_ref i) m} = M \<union> {m. \<exists>p \<in> P. covers db (Sum p) m}"
  shows "covered db' c' = covered db c'"
proof -
  let ?sid = "lp_summary_id res"
  have fresh: "\<not> ref_exists db (Sum ?sid)" and ml: "message_links db' = message_links db \<union> Pair ?sid ` M"
    and pl: "parent_links db' = parent_links db \<union> Pair ?sid ` P" and known: "\<forall>p \<in> P. ref_exists db (Sum p)"
    using eff by (auto simp: pass_effect_def)
  note cov = covers_fresh[OF wf fresh ml pl known]
  have old: "covers db' r m = covers db r m" if "r \<in> set (context_refs db c'')" for r m c''
    using cov(1) context_refs_exist[OF wf that] fresh by metis
  show ?thesis
  proof (cases "c' = c")
    case True
    obtain pre post where items: "get_context_items db c = pre @ block @ post"
      and refs: "context_refs db' c = map ci_ref pre @ Sum ?sid # map ci_ref post"
      using eff by (auto simp: pass_effect_def)
    have refs0: "context_refs db c = map ci_ref pre @ map ci_ref block @ map ci_ref post"
      by (simp add: context_refs_def items)
    have "covers db' (Sum ?sid) m \<longleftrightarrow> (\<exists>i \<in> set block. covers db (ci_ref i) m)" for m
      using cov(2) block by auto
    moreover have "(\<exists>i \<in> set pre \<union> set post. covers db' (ci_ref i) m)
        \<longleftrightarrow> (\<exists>i \<in> set pre \<union> set post. covers db (ci_ref i) m)" for m
      by (intro bex_cong refl old[of _ c]) (auto simp: refs0)
    moreover have "(\<exists>r \<in> set (context_refs db' c). covers db' r m) \<longleftrightarrow>
        (\<exists>i \<in> set pre \<union> set post. covers db' (ci_ref i) m) \<or> covers db' (Sum ?sid) m" for m
      unfolding refs by auto
    moreover have "(\<exists>r \<in> set (context_refs db c). covers db r m) \<longleftrightarrow>
        (\<exists>i \<in> set pre \<union> set post. covers db (ci_ref i) m) \<or> (\<exists>i \<in> set block. covers db (ci_ref i) m)" for m
      unfolding refs0 by auto
    ultimately show ?thesis
      unfolding covered_def True by simp
  next
    case False
    then have "context_refs db' c' = context_refs db c'"
      using eff by (simp add: pass_effect_def context_refs_def)
    then show ?thesis using old by (auto simp: covered_def)
  qed
qed

subsection \<open>The passes\<close>

lemma links_only_messages: "link_summary_to_messages sid mids db1 = Inr db2 \<Longrightarrow> links_only db1 db2"
  unfolding link_summary_to_messages_def
  by (rule foldE_invariant[where P = "links_only db1"])
    (auto simp: links_only_def link_message_def split: if_splits)

lemma links_only_parents: "link_summary_to_parents sid pids db1 = Inr db2 \<Longrightarrow> links_only db1 db2"
  unfolding link_summary_to_parents_def
  by (rule foldE_invariant[where P = "links_only db1"])
    (auto simp: links_only_def link_parent_def split: if_splits)

lemma get_message_by_id_exists:
  assumes "wf_db db" "ref_exists db (Msg mid)"
  obtains m where "get_message_by_id db mid True = Some m" "mr_message_id m = mid"
proof -
  have "get_message_by_id db mid True \<noteq> None"
    using assms(2) by (auto simp: get_message_by_id_def find_None_iff list_ex_iff)
  then obtain m where m: "get_message_by_id db mid True = Some m" by blast
  then have "mr_message_id m = mid"
    by (auto simp: get_message_by_id_def dest: find_SomeD)
  with m show ?thesis using that by blast
qed

lemma message_entries:
  assumes wf: "wf_db db" and sub: "set block \<subseteq> set (get_context_items db c)" and msgs: "\<forall>i \<in> set block. is_message_item i"
  shows "map (Msg \<circ> me_message_id) (List.map_filter (message_entry_of env db) block) = map ci_ref block
    \<and> sum_list (map (\<lambda>e. py_max0 (me_token_count e)) (List.map_filter (message_entry_of env db) block))
        = sum_list (map (ref_cost db) (map ci_ref block))"
  using sub msgs
proof (induction block)
  case (Cons i block)
  obtain mid where mid: "ci_ref i = Msg mid"
    using Cons.prems(2) by (auto simp: is_message_item_def split: context_ref.splits)
  have "ref_exists db (Msg mid)"
    using Cons.prems(1) wf mid by (auto simp: wf_db_def list_all_iff simp del: ref_exists.simps)
  then obtain m where m: "get_message_by_id db mid True = Some m" "mr_message_id m = mid"
    using get_message_by_id_exists[OF wf] by blast
  let ?e = "\<lparr>me_message_id = mr_message_id m,
         me_content = annotate_media_content (ce_loads env) db (mr_message_id m) (mr_content m),
         me_created_at = mr_created_at m, me_token_count = resolve_message_token_count m\<rparr>"
  have "message_entry_of env db i = Some ?e"
    by (simp add: message_entry_of_def mid m(1))
  moreover have "py_max0 (resolve_message_token_count m) = get_message_token_count db mid"
    by (simp add: get_message_token_count_def m(1) resolve_message_token_count_def py_max0_def)
  ultimately show ?case
    using Cons.IH Cons.prems by (simp add: mid m(2))
qed simp

lemma other_links [simp]:
  "parent_links (db\<lparr>db_summary_messages := rows\<rparr>) = parent_links db"
  "message_links (db\<lparr>db_summary_parents := rows'\<rparr>) = message_links db"
  by (simp_all add: parent_links_def message_links_def)

lemma insert_then_known:
  "cs_summary_id inp = sid \<Longrightarrow> ref_exists (db\<lparr>db_summaries := db_summaries db @ [summary_of_input now inp]\<rparr>) (Sum sid)"
  by (simp add: summary_of_input_def)

text \<open>A commit that succeeds has the effect of a pass, given what its link step adds.\<close>

lemma commit_effect:
  assumes wf: "wf_db db" and items: "get_context_items db c = pre @ block @ post" and ne: "block \<noteq> []"
    and inp: "cs_conversation_id inp = c" "cs_summary_id inp = lp_summary_id res" "cs_content inp = lp_content res"
      "cs_token_count inp = lp_added_tokens res" "lp_added_tokens res = estimate_tokens (lp_content res)"
    and removed: "lp_removed_tokens res = sum_list (map (ref_cost db) (map ci_ref block))"
    and wf_link: "\<And>db1 db2. wf_db db1 \<Longrightarrow> link db1 = Inr db2 \<Longrightarrow> wf_db db2 \<and> links_only db1 db2"
    and link: "\<And>db1 db2. message_links db1 = message_links db \<Longrightarrow> parent_links db1 = parent_links db \<Longrightarrow>
      ref_exists db1 (Sum (lp_summary_id res)) \<Longrightarrow> (\<forall>r. ref_exists db r \<longrightarrow> ref_exists db1 r) \<Longrightarrow> link db1 = Inr db2 \<Longrightarrow>
      message_links db2 = message_links db \<union> Pair (lp_summary_id res) ` M
      \<and> parent_links db2 = parent_links db \<union> Pair (lp_summary_id res) ` P"
    and known: "\<forall>p \<in> P. ref_exists db (Sum p)"
    and commit: "commit_summary now inp link (Min (ci_ordinal ` set block)) (Max (ci_ordinal ` set block)) db = (db', Inr u)"
  shows "pass_effect db c block res M P db'"
proof -
  let ?db1 = "db\<lparr>db_summaries := db_summaries db @ [summary_of_input now inp]\<rparr>"
  note cs = commit_success[OF wf items ne inp(1,2) wf_link commit]
  obtain db2 where db2: "link ?db1 = Inr db2" "db_summary_messages db' = db_summary_messages db2"
    "db_summary_parents db' = db_summary_parents db2"
    using cs by blast
  have mono: "\<forall>r. ref_exists db r \<longrightarrow> ref_exists ?db1 r"
  proof (intro allI impI)
    fix r assume "ref_exists db r"
    then show "ref_exists ?db1 r" by (cases r) auto
  qed
  have "message_links db2 = message_links db \<union> Pair (lp_summary_id res) ` M"
    "parent_links db2 = parent_links db \<union> Pair (lp_summary_id res) ` P"
    using link[OF _ _ insert_then_known[OF inp(2)] mono db2(1)] by (simp_all add: message_links_def parent_links_def)
  then have "message_links db' = message_links db \<union> Pair (lp_summary_id res) ` M"
    "parent_links db' = parent_links db \<union> Pair (lp_summary_id res) ` P"
    using db2(2,3) by (simp_all add: message_links_def parent_links_def)
  moreover have "sr_summary_id (summary_of_input now inp) = lp_summary_id res \<and>
      sr_conversation_id (summary_of_input now inp) = c \<and>
      sr_content (summary_of_input now inp) = lp_content res \<and> sr_token_count (summary_of_input now inp) = lp_added_tokens res"
    using inp by (simp add: summary_of_input_def)
  ultimately show ?thesis
    unfolding pass_effect_def using cs ne known removed inp items by (intro conjI) (auto simp del: map_map)
qed

definition block_messages :: "context_item list \<Rightarrow> int set" where
  "block_messages block = {m. Msg m \<in> ci_ref ` set block}"

definition block_summaries :: "context_item list \<Rightarrow> string set" where
  "block_summaries block = {s. Sum s \<in> ci_ref ` set block}"

lemma leaf_link:
  assumes "ids = map me_message_id (List.map_filter (message_entry_of env db) block)"
    "map (Msg \<circ> me_message_id) (List.map_filter (message_entry_of env db) block) = map ci_ref block"
  shows "set ids = block_messages block"
proof -
  have "Msg ` set ids = ci_ref ` set block"
    using arg_cong[OF assms(2), of set] by (simp add: assms(1) image_comp comp_def)
  then show ?thesis by (auto simp: block_messages_def)
qed

text \<open>The three ways a pass ends: with nothing done, with an exception and nothing done, or with the effect.\<close>

definition pass_cases :: "lcm_db \<Rightarrow> lcm_db \<Rightarrow> pass_exn + leaf_pass_outcome \<Rightarrow> (leaf_pass_result \<Rightarrow> bool) \<Rightarrow> bool" where
  "pass_cases db db' r Q \<longleftrightarrow> (case r of
     Inl _ \<Rightarrow> db' = db
   | Inr out \<Rightarrow> (case lo_summary out of
       None \<Rightarrow> db' = db
     | Some res \<Rightarrow> \<not> lo_auth_failure out \<and> Q res))"

lemma leaf_write_cases:
  assumes wf: "wf_db db" and items: "get_context_items db c = pre @ block @ post" and ne: "block \<noteq> []"
    and msgs: "\<forall>i \<in> set block. is_message_item i"
    and entries: "entries = List.map_filter (message_entry_of env db) block"
    and run: "leaf_pass_write env tick c block entries content level model db = (db', r)"
  shows "pass_cases db db' r (\<lambda>res. pass_effect db c block res (block_messages block) {} db')"
proof -
  define ids where "ids = map me_message_id entries"
  have sub: "set block \<subseteq> set (get_context_items db c)" unfolding items by auto
  note ent = message_entries[OF wf sub msgs, of env, folded entries]
  have ids: "set ids = block_messages block"
    by (rule leaf_link[OF ids_def[unfolded entries]]) (use ent in \<open>simp add: entries\<close>)
  have exist: "\<forall>m \<in> set ids. ref_exists db (Msg m)"
  proof
    fix m assume "m \<in> set ids"
    then have "Msg m \<in> set (context_refs db c)"
      using ids sub by (auto simp: block_messages_def context_refs_def simp del: set_get_context_items)
    then show "ref_exists db (Msg m)" by (rule context_refs_exist[OF wf])
  qed
  define res where "res = \<lparr>lp_summary_id = generate_summary_id env tick content, lp_level = level,
    lp_content = content, lp_removed_tokens = sum_list (map (\<lambda>e. py_max0 (me_token_count e)) entries),
    lp_added_tokens = estimate_tokens content\<rparr>"
  define inp where "inp = \<lparr>cs_summary_id = lp_summary_id res, cs_conversation_id = c, cs_kind = Leaf, cs_content = content,
      cs_token_count = estimate_tokens content, cs_depth = Some 0, cs_file_ids = Some (dedupe_ordered_ids
        (concat (map (\<lambda>e. extract_file_ids_from_content (ce_alnum env) (me_content e)) entries))),
      cs_earliest_at = min_of (map me_created_at entries), cs_latest_at = max_of (map me_created_at entries),
      cs_descendant_count = Some 0, cs_descendant_token_count = Some 0,
      cs_source_message_token_count = Some (lp_removed_tokens res), cs_model = model\<rparr>"
  define com where "com = commit_summary (ce_now env tick) inp (link_summary_to_messages (lp_summary_id res) ids)
      (Min (ci_ordinal ` set block)) (Max (ci_ordinal ` set block)) db"
  have run': "(case com of (db'', Inl e) \<Rightarrow> (db'', Inl e)
      | (db'', Inr _) \<Rightarrow> (db'', Inr \<lparr>lo_summary = Some res, lo_auth_failure = False\<rparr>)) = (db', r)"
    using run unfolding leaf_pass_write_def Let_def com_def inp_def res_def ids_def by simp
  have eff: "pass_effect db c block res (block_messages block) {} db''" if "com = (db'', Inr u)" for db'' u
  proof (rule commit_effect[OF wf items ne])
    show "lp_removed_tokens res = sum_list (map (ref_cost db) (map ci_ref block))"
      using ent by (simp add: res_def)
    show "wf_db db2 \<and> links_only db1 db2"
      if "wf_db db1" "link_summary_to_messages (lp_summary_id res) ids db1 = Inr db2" for db1 db2
      using that wf_link_summary_to_messages links_only_messages by blast
    show "message_links db2 = message_links db \<union> Pair (lp_summary_id res) ` block_messages block
        \<and> parent_links db2 = parent_links db \<union> Pair (lp_summary_id res) ` {}"
      if "message_links db1 = message_links db" "parent_links db1 = parent_links db"
        "ref_exists db1 (Sum (lp_summary_id res))" "\<forall>r. ref_exists db r \<longrightarrow> ref_exists db1 r"
        "link_summary_to_messages (lp_summary_id res) ids db1 = Inr db2" for db1 db2
      using link_summary_to_messages_ok[OF that(3), of ids] exist that ids
      by (auto simp del: ref_exists.simps)
    show "commit_summary (ce_now env tick) inp (link_summary_to_messages (lp_summary_id res) ids)
        (Min (ci_ordinal ` set block)) (Max (ci_ordinal ` set block)) db = (db'', Inr u)"
      using that by (simp add: com_def)
  qed (simp_all add: inp_def res_def)
  obtain dbc rc where com: "com = (dbc, rc)" by (cases com)
  show ?thesis
  proof (cases rc)
    case (Inl e)
    then have "dbc = db" using com commit_failure unfolding com_def by blast
    with run' com Inl show ?thesis by (auto simp: pass_cases_def)
  next
    case (Inr u)
    with run' com eff show ?thesis by (auto simp: pass_cases_def)
  qed
qed

lemma leaf_pass_cases:
  assumes wf: "wf_db db" and block: "block = lc_items (select_oldest_leaf_chunk cfg db c None)"
    and run: "leaf_pass cfg env tick c prev model db = (db', r)"
  shows "pass_cases db db' r (\<lambda>res. pass_effect db c block res (block_messages block) {} db')"
proof (cases "block = []")
  case True
  then show ?thesis using run by (auto simp: leaf_pass_def Let_def block[symmetric] pass_cases_def)
next
  case False
  obtain pre post where items: "get_context_items db c = pre @ block @ post"
    and msgs: "\<forall>i \<in> set block. is_message_item i"
    using leaf_chunk_oldest_block[of db c cfg None] unfolding block by blast
  have "leaf_pass_block cfg env tick c block prev model db = (db', r)"
    using run False by (simp add: leaf_pass_def Let_def block[symmetric])
  then consider "db' = db" "(\<exists>e. r = Inl e) \<or> (\<exists>out. r = Inr out \<and> lo_summary out = None)"
    | content level where "leaf_pass_write env tick c block (List.map_filter (message_entry_of env db) block)
        content level model db = (db', r)"
    unfolding leaf_pass_block_def Let_def
    by (auto split: sum.splits option.splits pass_exn.splits)
  then show ?thesis
  proof cases
    case 1
    then show ?thesis by (auto simp: pass_cases_def)
  next
    case 2
    then show ?thesis by (rule leaf_write_cases[OF wf items False msgs refl])
  qed
qed

lemma get_summary_exists:
  assumes "wf_db db" "get_summary db sid b = Some s"
  shows "sr_summary_id s = sid \<and> ref_exists db (Sum sid) \<and> get_summary db sid True = Some s"
proof -
  have s: "s \<in> set (db_summaries db)" "sr_summary_id s = sid"
    using assms(2) by (auto simp: get_summary_def dest: find_SomeD)
  then have "get_summary db sid True \<noteq> None"
    by (auto simp: get_summary_def find_None_iff)
  then obtain s' where s': "get_summary db sid True = Some s'" by blast
  then have "s' \<in> set (db_summaries db)" "sr_summary_id s' = sid"
    by (auto simp: get_summary_def dest: find_SomeD)
  then have "s' = s"
    using s assms(1) by (auto simp: wf_db_def distinct_map dest: inj_onD)
  with s s' show ?thesis by (auto simp: list_ex_iff)
qed

lemma summary_records:
  assumes wf: "wf_db db" and depth: "\<forall>i \<in> set block. at_depth db d i"
  shows "map (Sum \<circ> sr_summary_id) (List.map_filter (item_summary db) block) = map ci_ref block
    \<and> sum_list (map (\<lambda>s. py_max0 (sr_token_count s)) (List.map_filter (item_summary db) block))
        = sum_list (map (ref_cost db) (map ci_ref block))
    \<and> (\<forall>i \<in> set block. ref_exists db (ci_ref i))"
  using depth
proof (induction block)
  case (Cons i block)
  obtain s where s: "item_summary db i = Some s"
    using Cons.prems by (auto simp: at_depth_def split: option.splits)
  then obtain sid where sid: "ci_ref i = Sum sid" "get_summary db sid False = Some s"
    by (auto simp: item_summary_def split: context_ref.splits option.splits)
  note ex = get_summary_exists[OF wf sid(2)]
  show ?case using Cons.IH Cons.prems s sid ex by (simp del: ref_exists.simps)
qed simp

lemma condensed_write_cases:
  assumes wf: "wf_db db" and items: "get_context_items db c = pre @ block @ post" and ne: "block \<noteq> []"
    and depth: "\<forall>i \<in> set block. at_depth db d i"
    and records: "records = List.map_filter (item_summary db) block"
    and run: "condensed_pass_write env tick c block d records content level model db = (db', r)"
  shows "case r of Inl e \<Rightarrow> e = Database_Error \<and> db' = db
     | Inr None \<Rightarrow> False | Inr (Some res) \<Rightarrow> pass_effect db c block res {} (block_summaries block) db'"
proof -
  define ids where "ids = map sr_summary_id records"
  note rec = summary_records[OF wf depth, folded records]
  have ids: "set ids = block_summaries block"
  proof -
    have "Sum ` set ids = ci_ref ` set block"
      using arg_cong[OF conjunct1[OF rec], of set] by (simp add: ids_def image_comp comp_def)
    then show ?thesis by (auto simp: block_summaries_def)
  qed
  have exist: "\<forall>p \<in> set ids. ref_exists db (Sum p)"
  proof
    fix p assume "p \<in> set ids"
    then obtain i where "i \<in> set block" "ci_ref i = Sum p"
      using ids by (auto simp: block_summaries_def)
    then show "ref_exists db (Sum p)" using rec by metis
  qed
  define res where "res = \<lparr>lp_summary_id = generate_summary_id env tick content, lp_level = level,
    lp_content = content, lp_removed_tokens = sum_list (map (\<lambda>s. py_max0 (sr_token_count s)) records),
    lp_added_tokens = estimate_tokens content\<rparr>"
  define inp where "inp = \<lparr>cs_summary_id = lp_summary_id res, cs_conversation_id = c, cs_kind = Condensed, cs_content = content,
      cs_token_count = estimate_tokens content, cs_depth = Some (d + 1), cs_file_ids = Some (dedupe_ordered_ids
        (concat (map (\<lambda>s. sr_file_ids s @ extract_file_ids_from_content (ce_alnum env) (sr_content s)) records))),
      cs_earliest_at = min_of (map (\<lambda>s. opt_or (sr_earliest_at s) (sr_created_at s)) records),
      cs_latest_at = max_of (map (\<lambda>s. opt_or (sr_latest_at s) (sr_created_at s)) records),
      cs_descendant_count = Some (sum_list (map (\<lambda>s. py_max0 (sr_descendant_count s) + 1) records)),
      cs_descendant_token_count = Some (sum_list (map (\<lambda>s.
        py_max0 (sr_descendant_token_count s) + py_max0 (sr_token_count s)) records)),
      cs_source_message_token_count =
        Some (sum_list (map (\<lambda>s. py_max0 (sr_source_message_token_count s)) records)),
      cs_model = model\<rparr>"
  define com where "com = commit_summary (ce_now env tick) inp (link_summary_to_parents (lp_summary_id res) ids)
      (Min (ci_ordinal ` set block)) (Max (ci_ordinal ` set block)) db"
  have run': "(case com of (db'', Inl e) \<Rightarrow> (db'', Inl e) | (db'', Inr _) \<Rightarrow> (db'', Inr (Some res))) = (db', r)"
    using run unfolding condensed_pass_write_def Let_def com_def inp_def res_def ids_def by simp
  have eff: "pass_effect db c block res {} (block_summaries block) db''" if "com = (db'', Inr u)" for db'' u
  proof (rule commit_effect[OF wf items ne])
    show "lp_removed_tokens res = sum_list (map (ref_cost db) (map ci_ref block))"
      using rec by (simp add: res_def)
    show "wf_db db2 \<and> links_only db1 db2"
      if "wf_db db1" "link_summary_to_parents (lp_summary_id res) ids db1 = Inr db2" for db1 db2
      using that wf_link_summary_to_parents links_only_parents by blast
    show "message_links db2 = message_links db \<union> Pair (lp_summary_id res) ` {}
        \<and> parent_links db2 = parent_links db \<union> Pair (lp_summary_id res) ` block_summaries block"
      if "message_links db1 = message_links db" "parent_links db1 = parent_links db"
        "ref_exists db1 (Sum (lp_summary_id res))" "\<forall>r. ref_exists db r \<longrightarrow> ref_exists db1 r"
        "link_summary_to_parents (lp_summary_id res) ids db1 = Inr db2" for db1 db2
      using link_summary_to_parents_ok[OF that(3), of ids] exist that ids
      by (auto simp del: ref_exists.simps)
    show "\<forall>p \<in> block_summaries block. ref_exists db (Sum p)" using exist ids by simp
    show "commit_summary (ce_now env tick) inp (link_summary_to_parents (lp_summary_id res) ids)
        (Min (ci_ordinal ` set block)) (Max (ci_ordinal ` set block)) db = (db'', Inr u)"
      using that by (simp add: com_def)
  qed (simp_all add: inp_def res_def)
  obtain dbc rc where com: "com = (dbc, rc)" by (cases com)
  show ?thesis
  proof (cases rc)
    case (Inl e)
    then have "dbc = db" using com commit_failure unfolding com_def by blast
    moreover have "e = Database_Error"
      using com Inl by (auto simp: com_def commit_summary_def split: sum.splits)
    ultimately show ?thesis using run' com Inl by auto
  next
    case (Inr u)
    with run' com eff show ?thesis by auto
  qed
qed

lemma condensed_pass_cases:
  assumes wf: "wf_db db" and run: "run_condensed_pass cfg env tick c hard model db = (db', r)"
  shows "pass_cases db db' r (\<lambda>res. \<exists>cand. select_shallowest_condensation_candidate cfg db c hard = Some cand
     \<and> pass_effect db c (cn_items (cp_chunk cand)) res {} (block_summaries (cn_items (cp_chunk cand))) db')"
proof (cases "select_shallowest_condensation_candidate cfg db c hard")
  case None
  then show ?thesis using run by (auto simp: run_condensed_pass_def pass_cases_def)
next
  case (Some cand)
  let ?block = "cn_items (cp_chunk cand)" and ?d = "cp_target_depth cand"
  obtain pre post where items: "get_context_items db c = pre @ ?block @ post" and ne: "?block \<noteq> []"
    and depth: "\<forall>i \<in> set ?block. at_depth db ?d i"
    using condensation_candidate_block[OF Some] by blast
  obtain db1 r1 where pass: "condensed_pass cfg env tick c ?block ?d model db = (db1, r1)" by fastforce
  consider "db1 = db" "(\<exists>e. r1 = Inl e) \<or> r1 = Inr None"
    | content level where "condensed_pass_write env tick c ?block ?d (List.map_filter (item_summary db) ?block)
        content level model db = (db1, r1)"
    using pass unfolding condensed_pass_def Let_def
    by (auto split: sum.splits option.splits)
  then show ?thesis
  proof cases
    case 1
    then show ?thesis
      using run Some pass by (auto simp: run_condensed_pass_def pass_cases_def split: pass_exn.splits)
  next
    case 2
    from condensed_write_cases[OF wf items ne depth refl 2] show ?thesis
      using run Some pass by (auto simp: run_condensed_pass_def pass_cases_def split: sum.splits option.splits)
  qed
qed

subsection \<open>The fresh tail survives\<close>

fun tail_len :: "int \<Rightarrow> int option \<Rightarrow> int list \<Rightarrow> int \<Rightarrow> int \<Rightarrow> nat" where
  "tail_len cnt mx [] pc pt = 0"
| "tail_len cnt mx (w # ws) pc pt =
     (if cnt \<le> pc then 0
      else if 0 < pc \<and> (case mx of None \<Rightarrow> False | Some b \<Rightarrow> b < pt + w) then 0
      else Suc (tail_len cnt mx ws (pc + 1) (pt + w)))"

lemma tail_loop_len:
  "tail_loop cnt mx db is pc pt ts =
     (let n = tail_len cnt mx (map (item_tokens db) is) pc pt in if n = 0 then ts else ci_ordinal (is ! (n - 1)))"
  by (induction "is" arbitrary: pc pt ts) (auto simp: Let_def nth_Cons')

lemma tail_len_le: "tail_len cnt mx ws pc pt \<le> length ws"
  by (induction cnt mx ws pc pt rule: tail_len.induct) auto

lemma tail_len_take: "tail_len cnt mx (us @ vs) pc pt \<le> length us \<Longrightarrow> tail_len cnt mx us pc pt = tail_len cnt mx (us @ vs) pc pt"
  by (induction us arbitrary: pc pt) (auto simp: Let_def)

lemma tail_len_pos: "0 < cnt \<Longrightarrow> ws \<noteq> [] \<Longrightarrow> 0 < tail_len cnt mx ws 0 0"
  by (cases ws) auto

text \<open>The references of the messages that the fresh tail protects.\<close>

definition protected_refs :: "compaction_config \<Rightarrow> lcm_db \<Rightarrow> int \<Rightarrow> context_ref list" where
  "protected_refs cfg db c =
     (let items = get_context_items db c in
      if resolve_fresh_tail_count cfg \<le> 0 then []
      else map ci_ref (filter (\<lambda>i. resolve_fresh_tail_ordinal cfg db items \<le> ci_ordinal i) (filter is_message_item items)))"

definition message_refs :: "lcm_db \<Rightarrow> int \<Rightarrow> context_ref list" where
  "message_refs db c = filter (\<lambda>r. case r of Msg _ \<Rightarrow> True | Sum _ \<Rightarrow> False) (context_refs db c)"

definition protected_count :: "compaction_config \<Rightarrow> lcm_db \<Rightarrow> context_ref list \<Rightarrow> nat" where
  "protected_count cfg db refs =
     tail_len (resolve_fresh_tail_count cfg) (resolve_fresh_tail_max_tokens cfg) (map (ref_cost db) (rev refs)) 0 0"

lemma message_refs_items: "message_refs db c = map ci_ref (filter is_message_item (get_context_items db c))"
  unfolding message_refs_def context_refs_def filter_map
  by (intro arg_cong[of _ _ "map ci_ref"] filter_cong) (auto simp: is_message_item_def split: context_ref.splits)

lemma item_tokens_ref_cost: "is_message_item i \<Longrightarrow> item_tokens db i = ref_cost db (ci_ref i)"
  by (auto simp: is_message_item_def item_tokens_def split: context_ref.splits)

lemma protected_count_le: "protected_count cfg db refs \<le> length refs"
  unfolding protected_count_def by (rule order_trans[OF tail_len_le]) simp

lemma protected_suffix:
  assumes wf: "wf_db db" and cnt: "0 < resolve_fresh_tail_count cfg"
  shows "protected_refs cfg db c =
     drop (length (message_refs db c) - protected_count cfg db (message_refs db c)) (message_refs db c)"
proof (cases "message_refs db c = []")
  case True
  then show ?thesis by (simp add: protected_refs_def message_refs_items Let_def)
next
  case False
  define ms where "ms = filter is_message_item (get_context_items db c)"
  define n where "n = protected_count cfg db (message_refs db c)"
  have refs: "message_refs db c = map ci_ref ms" by (simp add: message_refs_items ms_def)
  have costs: "map (item_tokens db) (rev ms) = map (ref_cost db) (rev (message_refs db c))"
    by (auto simp: refs rev_map[symmetric] ms_def item_tokens_ref_cost)
  have n: "0 < n" "n \<le> length ms"
    using tail_len_pos[OF cnt] False protected_count_le[of cfg db "message_refs db c"]
    by (auto simp: n_def protected_count_def refs)
  have "resolve_fresh_tail_ordinal cfg db (get_context_items db c) = ci_ordinal (rev ms ! (n - 1))"
    using cnt n(1) by (simp add: resolve_fresh_tail_ordinal_def tail_loop_len costs[unfolded ms_def]
        n_def protected_count_def ms_def[symmetric] Let_def costs)
  also have "\<dots> = ci_ordinal (ms ! (length ms - n))"
    using n by (simp add: rev_nth)
  finally have "protected_refs cfg db c = map ci_ref (filter (\<lambda>i. ci_ordinal (ms ! (length ms - n)) \<le> ci_ordinal i) ms)"
    using cnt by (simp add: protected_refs_def ms_def Let_def)
  also have "filter (\<lambda>i. ci_ordinal (ms ! (length ms - n)) \<le> ci_ordinal i) ms = drop (length ms - n) ms"
    using strict_suffix_filter[of ci_ordinal ms "length ms - n"] messages_increasing[OF wf] n
    by (simp add: ms_def)
  finally show ?thesis by (simp add: refs drop_map n_def)
qed

lemma ref_cost_messages: "db_messages db' = db_messages db \<Longrightarrow> ref_cost db' (Msg m) = ref_cost db (Msg m)"
  by (simp add: get_message_token_count_def get_message_by_id_def)

lemma protected_count_cong:
  assumes "db_messages db' = db_messages db" "\<forall>r \<in> set refs. \<exists>m. r = Msg m"
  shows "protected_count cfg db' refs = protected_count cfg db refs"
proof -
  have "map (ref_cost db') (rev refs) = map (ref_cost db) (rev refs)"
  proof (intro map_cong refl)
    fix r assume "r \<in> set (rev refs)"
    then obtain m where "r = Msg m" using assms(2) by auto
    then show "ref_cost db' r = ref_cost db r" using ref_cost_messages[OF assms(1)] by (simp only:)
  qed
  then show ?thesis unfolding protected_count_def by (simp only:)
qed

text \<open>Dropping old messages that are not protected leaves the protected ones.\<close>

lemma protected_unchanged:
  assumes wf: "wf_db db" "wf_db db'" and msgs: "db_messages db' = db_messages db"
    and refs: "message_refs db c = old @ message_refs db' c"
    and bound: "protected_count cfg db (message_refs db c) \<le> length (message_refs db' c)"
  shows "protected_refs cfg db' c = protected_refs cfg db c"
proof (cases "0 < resolve_fresh_tail_count cfg")
  case True
  let ?new = "message_refs db' c"
  have all: "\<forall>r \<in> set ?new. \<exists>m. r = Msg m"
    by (auto simp: message_refs_def split: context_ref.splits)
  have "protected_count cfg db' ?new = protected_count cfg db ?new"
    by (rule protected_count_cong[OF msgs all])
  also have "\<dots> = protected_count cfg db (message_refs db c)"
    using bound unfolding protected_count_def refs by (simp add: tail_len_take)
  finally show ?thesis
    unfolding protected_suffix[OF wf(1) True] protected_suffix[OF wf(2) True]
    using bound by (simp add: refs)
qed (simp add: protected_refs_def)

subsection \<open>No pass loses anything\<close>

text \<open>
  What no compaction step may change: the message rows, the messages a conversation's context
  reaches, the other conversations' contexts and the messages of the fresh tail; summaries are
  only ever added.
\<close>

definition lossless :: "compaction_config \<Rightarrow> int \<Rightarrow> lcm_db \<Rightarrow> lcm_db \<Rightarrow> bool" where
  "lossless cfg c db db' \<longleftrightarrow>
     wf_db db' \<and> db_messages db' = db_messages db
   \<and> (\<forall>c'. covered db' c' = covered db c')
   \<and> (\<forall>c'. c' \<noteq> c \<longrightarrow> get_context_items db' c' = get_context_items db c')
   \<and> protected_refs cfg db' c = protected_refs cfg db c
   \<and> (\<exists>new. db_summaries db' = db_summaries db @ new
        \<and> (\<forall>s \<in> set new. sr_token_count s = estimate_tokens (sr_content s)))"

lemma lossless_refl: "wf_db db \<Longrightarrow> lossless cfg c db db"
  by (auto simp: lossless_def intro: exI[of _ "[]"])

lemma lossless_trans:
  assumes "lossless cfg c db db1" "lossless cfg c db1 db2"
  shows "lossless cfg c db db2"
proof -
  obtain new1 new2 where "db_summaries db1 = db_summaries db @ new1" "db_summaries db2 = db_summaries db1 @ new2"
    "\<forall>s \<in> set new1 \<union> set new2. sr_token_count s = estimate_tokens (sr_content s)"
    using assms unfolding lossless_def by blast
  then have "\<exists>new. db_summaries db2 = db_summaries db @ new
      \<and> (\<forall>s \<in> set new. sr_token_count s = estimate_tokens (sr_content s))"
    by (intro exI[of _ "new1 @ new2"]) auto
  with assms show ?thesis by (simp add: lossless_def)
qed

lemma lossless_wf: "lossless cfg c db db' \<Longrightarrow> wf_db db'"
  by (simp add: lossless_def)

lemma block_position:
  assumes "pre @ block @ post = pre' @ block @ post'" "distinct (pre @ block @ post)" "block \<noteq> []"
  shows "pre = pre' \<and> post = post'"
proof -
  have "takeWhile (\<lambda>i. i \<noteq> hd block) (xs @ block @ ys) = xs" if "distinct (xs @ block @ ys)" for xs ys
  proof -
    have "\<forall>i \<in> set xs. i \<noteq> hd block" using that assms(3) by auto
    then show ?thesis using assms(3) by (cases block) (auto simp: takeWhile_append)
  qed
  from this[of pre post] this[of pre' post'] assms have "pre = pre'" by metis
  with assms(1) show ?thesis by simp
qed

lemma distinct_items: "wf_db db \<Longrightarrow> distinct (get_context_items db c)"
  using distinct_item_ordinals[of db c] by (auto simp: item_ordinals_def distinct_map)

lemma message_refs_split:
  "context_refs db c = map ci_ref pre @ refs @ map ci_ref post \<Longrightarrow> message_refs db c =
     map ci_ref (filter is_message_item pre) @ filter (\<lambda>r. case r of Msg _ \<Rightarrow> True | Sum _ \<Rightarrow> False) refs
     @ map ci_ref (filter is_message_item post)"
proof -
  have "filter (\<lambda>r. case r of Msg _ \<Rightarrow> True | Sum _ \<Rightarrow> False) (map ci_ref is) = map ci_ref (filter is_message_item is)" for "is"
    unfolding filter_map
    by (intro arg_cong[of _ _ "map ci_ref"] filter_cong) (auto simp: is_message_item_def split: context_ref.splits)
  then show "context_refs db c = map ci_ref pre @ refs @ map ci_ref post \<Longrightarrow> ?thesis"
    by (simp add: message_refs_def)
qed

lemma pass_effect_new:
  assumes "pass_effect db c block res M P db'"
  shows "\<exists>new. db_summaries db' = db_summaries db @ new
     \<and> (\<forall>s \<in> set new. sr_token_count s = estimate_tokens (sr_content s))"
proof -
  obtain new where "db_summaries db' = db_summaries db @ [new]" "sr_content new = lp_content res"
    "sr_token_count new = lp_added_tokens res" "lp_added_tokens res = estimate_tokens (lp_content res)"
    using assms unfolding pass_effect_def by blast
  then show ?thesis by (intro exI[of _ "[new]"]) simp
qed

lemma leaf_effect_lossless:
  assumes wf: "wf_db db" and block: "block = lc_items (select_oldest_leaf_chunk cfg db c None)"
    and eff: "pass_effect db c block res (block_messages block) {} db'"
  shows "lossless cfg c db db'"
proof -
  obtain pre post where items: "get_context_items db c = pre @ block @ post"
    and refs': "context_refs db' c = map ci_ref pre @ Sum (lp_summary_id res) # map ci_ref post"
    and ne: "block \<noteq> []" and wf': "wf_db db'" and msgs: "db_messages db' = db_messages db"
    using eff by (auto simp: pass_effect_def)
  let ?tail = "resolve_fresh_tail_ordinal cfg db (get_context_items db c)"
  obtain pre' post' where items': "get_context_items db c = pre' @ block @ post'"
    and nomsg': "\<forall>i \<in> set pre'. \<not> is_message_item i"
    and inb: "\<forall>i \<in> set block. is_message_item i \<and> ci_ordinal i < ?tail"
    using leaf_chunk_oldest_block[of db c cfg None] unfolding block by blast
  have "pre = pre'"
    using block_position[OF trans[OF items[symmetric] items'] distinct_items[OF wf, of c, unfolded items] ne] by simp
  then have nomsg: "filter is_message_item pre = []" using nomsg' by (simp add: filter_empty_conv)
  define mp where "mp = filter is_message_item post"
  have allb: "filter is_message_item block = block" using inb by (simp add: filter_id_conv)
  have old: "message_refs db c = map ci_ref block @ map ci_ref mp"
    using nomsg allb by (simp add: message_refs_items items mp_def)
  have new: "message_refs db' c = map ci_ref mp"
    using message_refs_split[of db' c pre "[Sum (lp_summary_id res)]" post] refs' nomsg by (simp add: mp_def)
  have "protected_count cfg db (message_refs db c) \<le> length mp"
  proof (cases "0 < resolve_fresh_tail_count cfg")
    case True
    have "protected_refs cfg db c = map ci_ref (filter (\<lambda>i. ?tail \<le> ci_ordinal i) mp)"
      using True inb nomsg allb by (simp add: protected_refs_def Let_def) (simp add: items mp_def filter_empty_conv not_le)
    then have "length (protected_refs cfg db c) \<le> length mp" by simp
    moreover have "length (protected_refs cfg db c) = protected_count cfg db (message_refs db c)"
      unfolding protected_suffix[OF wf True] using protected_count_le[of cfg db "message_refs db c"] by simp
    ultimately show ?thesis by simp
  next
    case False
    then have "protected_count cfg db (message_refs db c) = 0"
      unfolding protected_count_def by (cases "map (ref_cost db) (rev (message_refs db c))") auto
    then show ?thesis by simp
  qed
  then have prot: "protected_refs cfg db' c = protected_refs cfg db c"
    using old new by (intro protected_unchanged[OF wf wf' msgs]) auto
  have "{m. \<exists>i \<in> set block. covers db (ci_ref i) m} = block_messages block \<union> {m. \<exists>p \<in> {}. covers db (Sum p) m}"
  proof -
    have "covers db (ci_ref i) m \<longleftrightarrow> ci_ref i = Msg m" if "i \<in> set block" for i m
      using bspec[OF inb that] by (cases "ci_ref i") (auto simp: is_message_item_def)
    then show ?thesis unfolding block_messages_def by (force simp: image_iff eq_commute)
  qed
  from pass_effect_covered[OF wf eff this] prot show ?thesis
    using eff pass_effect_new[OF eff] by (auto simp: lossless_def pass_effect_def)
qed

lemma condensed_effect_lossless:
  assumes wf: "wf_db db" and cand: "select_shallowest_condensation_candidate cfg db c hard = Some cand"
    and eff: "pass_effect db c (cn_items (cp_chunk cand)) res {} (block_summaries (cn_items (cp_chunk cand))) db'"
  shows "lossless cfg c db db'"
proof -
  let ?block = "cn_items (cp_chunk cand)"
  obtain pre post where items: "get_context_items db c = pre @ ?block @ post"
    and refs': "context_refs db' c = map ci_ref pre @ Sum (lp_summary_id res) # map ci_ref post"
    and wf': "wf_db db'" and msgs: "db_messages db' = db_messages db"
    using eff by (auto simp: pass_effect_def)
  have depth: "\<forall>i \<in> set ?block. at_depth db (cp_target_depth cand) i"
    using condensation_candidate_block[OF cand] by blast
  have sums: "\<exists>s. ci_ref i = Sum s" if "i \<in> set ?block" for i
    using bspec[OF depth that] by (auto simp: at_depth_def item_summary_def split: option.splits context_ref.splits)
  then have "filter is_message_item ?block = []"
    by (fastforce simp: filter_empty_conv is_message_item_def)
  then have "message_refs db c = [] @ message_refs db' c"
    using message_refs_split[of db' c pre "[Sum (lp_summary_id res)]" post] refs'
    by (simp add: message_refs_items[of db] items)
  then have prot: "protected_refs cfg db' c = protected_refs cfg db c"
    using protected_count_le[of cfg db "message_refs db c"] by (intro protected_unchanged[OF wf wf' msgs]) auto
  have "{m. \<exists>i \<in> set ?block. covers db (ci_ref i) m}
      = {} \<union> {m. \<exists>p \<in> block_summaries ?block. covers db (Sum p) m}"
  proof (intro set_eqI iffI)
    fix m assume "m \<in> {m. \<exists>i \<in> set ?block. covers db (ci_ref i) m}"
    then obtain i where i: "i \<in> set ?block" "covers db (ci_ref i) m" by blast
    obtain s where s: "ci_ref i = Sum s" using sums[OF i(1)] by blast
    then have "Sum s \<in> ci_ref ` set ?block" using i(1) by (metis imageI)
    with i s show "m \<in> {} \<union> {m. \<exists>p \<in> block_summaries ?block. covers db (Sum p) m}"
      by (auto simp: block_summaries_def)
  next
    fix m assume "m \<in> {} \<union> {m. \<exists>p \<in> block_summaries ?block. covers db (Sum p) m}"
    then obtain p where p: "Sum p \<in> ci_ref ` set ?block" "covers db (Sum p) m"
      by (auto simp: block_summaries_def)
    then obtain i where "i \<in> set ?block" "ci_ref i = Sum p" by (auto elim: imageE)
    with p(2) show "m \<in> {m. \<exists>i \<in> set ?block. covers db (ci_ref i) m}" by force
  qed
  from pass_effect_covered[OF wf eff this] prot show ?thesis
    using eff pass_effect_new[OF eff] by (auto simp: lossless_def pass_effect_def)
qed

text \<open>Both passes alike: lossless whatever happens, unchanged tables without a summary, and the change of the
  context's cost as the result tells it.\<close>

definition pass_ok :: "compaction_config \<Rightarrow> int \<Rightarrow> lcm_db \<Rightarrow> lcm_db \<times> (pass_exn + leaf_pass_outcome) \<Rightarrow> bool" where
  "pass_ok cfg c db p \<longleftrightarrow> (case p of (db', r) \<Rightarrow> lossless cfg c db db' \<and>
     pass_cases db db' r (\<lambda>res. context_cost db' c = context_cost db c - lp_removed_tokens res + lp_added_tokens res
       \<and> lp_summary_id res \<notin> sr_summary_id ` set (db_summaries db)
       \<and> Sum (lp_summary_id res) \<in> set (context_refs db' c)))"

lemma pass_ok_effect:
  assumes wf: "wf_db db" and cases: "pass_cases db db' r Q"
    and eff: "\<And>res. Q res \<Longrightarrow> lossless cfg c db db' \<and> (\<exists>block M P. pass_effect db c block res M P db')"
  shows "pass_ok cfg c db (db', r)"
proof -
  have "context_cost db' c = context_cost db c - lp_removed_tokens res + lp_added_tokens res
       \<and> lp_summary_id res \<notin> sr_summary_id ` set (db_summaries db)
       \<and> Sum (lp_summary_id res) \<in> set (context_refs db' c)" if q: "Q res" for res
  proof -
    obtain block M P where e: "pass_effect db c block res M P db'" using eff[OF q] by blast
    show ?thesis
      using pass_effect_cost[OF wf e] e by (auto simp: pass_effect_def list_ex_iff)
  qed
  with cases eff lossless_refl[OF wf, of cfg c] show ?thesis
    by (auto simp: pass_ok_def pass_cases_def split: sum.splits option.splits)
qed

lemma leaf_pass_ok:
  assumes wf: "wf_db db"
  shows "pass_ok cfg c db (leaf_pass cfg env tick c prev model db)"
proof -
  obtain db' r where run: "leaf_pass cfg env tick c prev model db = (db', r)" by fastforce
  show ?thesis
    unfolding run using leaf_effect_lossless[OF wf refl]
    by (intro pass_ok_effect[OF wf leaf_pass_cases[OF wf refl run]]) blast
qed

lemma condensed_pass_ok:
  assumes wf: "wf_db db"
  shows "pass_ok cfg c db (run_condensed_pass cfg env tick c hard model db)"
proof -
  obtain db' r where run: "run_condensed_pass cfg env tick c hard model db = (db', r)" by fastforce
  show ?thesis
    unfolding run using condensed_effect_lossless[OF wf]
    by (intro pass_ok_effect[OF wf condensed_pass_cases[OF wf run]]) blast
qed

end
