(* ===== verification/Assembler_Select.thy ===== *)
theory Assembler_Select
  imports Compaction_Pass "HOL-Library.Sublist" "HOL-Library.Product_Lexorder"
begin

text \<open>
  What the context assembler keeps (\<open>assembler.py\<close>, stages 3, 6 and 8): the boundary of the fresh
  tail over the resolved items, the relevance score of an item for a prompt, and the budget walk
  with its three modes.

  Scores are Python floats. The two roundings of a step of the sum are the argument \<open>fl\<close>, which
  the interpreter takes to be rounding to binary64; nothing below depends on it.

  The locale \<open>evictable_walk\<close> is what the assembler relies on: a walk keeps a subsequence of the
  evictable items whose tokens fit. Both walks of the code are instances of it.
\<close>

subsection \<open>Resolved items and the fresh tail\<close>

record resolved_item =
  ri_ordinal :: int
  ri_message :: json
  ri_tokens :: int
  ri_is_message :: bool
  ri_text :: utext
  ri_message_id :: "int option"
  ri_seq :: "int option"
  ri_source_role :: "message_role option"
  ri_summary :: "summary_record option"

definition items_tokens :: "resolved_item list \<Rightarrow> int" where
  "items_tokens items = sum_list (map ri_tokens items)"

fun protect_loop :: "int \<Rightarrow> int option \<Rightarrow> resolved_item list \<Rightarrow> int \<Rightarrow> int \<Rightarrow> int \<Rightarrow> int" where
  "protect_loop fresh_tail_count token_cap [] protected_n protected_tokens tail_start = tail_start"
| "protect_loop fresh_tail_count token_cap (i # is) protected_n protected_tokens tail_start =
     (if fresh_tail_count \<le> protected_n then tail_start
      else if 0 < protected_n
        \<and> (case token_cap of None \<Rightarrow> False | Some b \<Rightarrow> b < protected_tokens + ri_tokens i) then tail_start
      else protect_loop fresh_tail_count token_cap is (protected_n + 1)
             (protected_tokens + ri_tokens i) (ri_ordinal i))"

definition resolve_fresh_tail_boundary :: "resolved_item list \<Rightarrow> int \<Rightarrow> int option \<Rightarrow> int" where
  "resolve_fresh_tail_boundary resolved fresh_tail_count fresh_tail_max_tokens =
     (if fresh_tail_count \<le> 0 then empty_fresh_tail_ordinal
      else let raw_messages = filter ri_is_message resolved in
        if raw_messages = [] then empty_fresh_tail_ordinal
        else let token_cap = (case fresh_tail_max_tokens of
                 Some b \<Rightarrow> if 0 \<le> b then Some b else None
               | None \<Rightarrow> None) in
          protect_loop fresh_tail_count token_cap (rev raw_messages) 0 0 empty_fresh_tail_ordinal)"

subsection \<open>Relevance\<close>

text \<open>\<open>re.split(r"[^a-z0-9]+", text.lower())\<close> and the words of two letters or more.\<close>

definition word_code :: "nat \<Rightarrow> bool" where
  "word_code n \<longleftrightarrow> (97 \<le> n \<and> n \<le> 122) \<or> u_digit n"

fun split_words :: "bool \<Rightarrow> utext \<Rightarrow> utext \<Rightarrow> utext list" where
  "split_words sep acc [] = [rev acc]"
| "split_words sep acc (c # cs) =
     (if word_code c then split_words False (c # acc) cs
      else if sep then split_words True [] cs
      else rev acc # split_words True [] cs)"

definition tokenize_text :: "utext \<Rightarrow> utext list" where
  "tokenize_text t = filter (\<lambda>w. 1 < length w) (split_words False [] (u_lower t))"

fun score_loop :: "(real \<Rightarrow> real) \<Rightarrow> utext list \<Rightarrow> utext list \<Rightarrow> utext list \<Rightarrow> real \<Rightarrow> real" where
  "score_loop fl words [] seen score = score"
| "score_loop fl words (term # terms) seen score =
     (if term \<in> set seen then score_loop fl words terms seen score
      else let tf = count_list words term in
        score_loop fl words terms (term # seen)
          (if 0 < tf then fl (score + fl (real tf / real (length words))) else score))"

definition score_relevance :: "(real \<Rightarrow> real) \<Rightarrow> utext \<Rightarrow> utext \<Rightarrow> real" where
  "score_relevance fl item_text prompt =
     (let prompt_tokens = tokenize_text prompt; words = tokenize_text item_text in
      if prompt_tokens = [] then 0
      else if words = [] then 0
      else score_loop fl words prompt_tokens [] 0)"

definition has_searchable_prompt :: "utext option \<Rightarrow> bool" where
  "has_searchable_prompt prompt = (case prompt of
     None \<Rightarrow> False
   | Some p \<Rightarrow> if p = [] then False else 0 < length (tokenize_text p))"

subsection \<open>The budget walk\<close>

datatype selection_mode = Full_Fit | Prompt_Aware | Chronological

text \<open>The walk that skips what does not fit, and the one that stops there.\<close>

fun take_fitting :: "int \<Rightarrow> int \<Rightarrow> resolved_item list \<Rightarrow> resolved_item list" where
  "take_fitting remaining accum [] = []"
| "take_fitting remaining accum (i # is) =
     (if accum + ri_tokens i \<le> remaining then i # take_fitting remaining (accum + ri_tokens i) is
      else take_fitting remaining accum is)"

fun take_until_full :: "int \<Rightarrow> int \<Rightarrow> resolved_item list \<Rightarrow> resolved_item list" where
  "take_until_full remaining accum [] = []"
| "take_until_full remaining accum (i # is) =
     (if accum + ri_tokens i \<le> remaining then i # take_until_full remaining (accum + ri_tokens i) is
      else [])"

definition relevance_order :: "(real \<Rightarrow> real) \<Rightarrow> utext \<Rightarrow> resolved_item list \<Rightarrow> resolved_item list" where
  "relevance_order fl prompt evictable =
     map (\<lambda>(_, _, i). i) (sort_key (\<lambda>(score, idx, _). (- score, - idx))
       (map (\<lambda>(idx, i). (score_relevance fl (ri_text i) prompt, int idx, i)) (enumerate 0 evictable)))"

definition budget_walk_prompt_aware ::
    "(real \<Rightarrow> real) \<Rightarrow> utext \<Rightarrow> resolved_item list \<Rightarrow> int \<Rightarrow> resolved_item list" where
  "budget_walk_prompt_aware fl prompt evictable remaining_budget =
     sort_key ri_ordinal (take_fitting remaining_budget 0 (relevance_order fl prompt evictable))"

definition budget_walk_chronological :: "resolved_item list \<Rightarrow> int \<Rightarrow> resolved_item list" where
  "budget_walk_chronological evictable remaining_budget =
     rev (take_until_full remaining_budget 0 (rev evictable))"

definition budget_walk ::
    "(real \<Rightarrow> real) \<Rightarrow> resolved_item list \<Rightarrow> resolved_item list \<Rightarrow> int \<Rightarrow> utext option \<Rightarrow> bool
     \<Rightarrow> resolved_item list \<times> selection_mode" where
  "budget_walk fl evictable fresh_tail token_budget prompt prompt_aware_eviction =
     (let tail_tokens = items_tokens fresh_tail;
          remaining_budget = max 0 (token_budget - tail_tokens) in
      if items_tokens evictable \<le> remaining_budget then (evictable, Full_Fit)
      else case prompt of
        Some p \<Rightarrow> if prompt_aware_eviction \<and> has_searchable_prompt prompt
          then (budget_walk_prompt_aware fl p evictable remaining_budget, Prompt_Aware)
          else (budget_walk_chronological evictable remaining_budget, Chronological)
      | None \<Rightarrow> (budget_walk_chronological evictable remaining_budget, Chronological))"

subsection \<open>Facts about the walks\<close>

lemma sorted_wrt_subseq: "subseq xs ys \<Longrightarrow> sorted_wrt P ys \<Longrightarrow> sorted_wrt P xs"
proof (induction rule: list_emb.induct)
  case (list_emb_Cons2 x y xs ys)
  then show ?case using list_emb_set[OF list_emb_Cons2(2)] by auto
qed auto

lemma items_tokens_simps [simp]:
  "items_tokens [] = 0" "items_tokens (i # is) = ri_tokens i + items_tokens is"
  "items_tokens (xs @ ys) = items_tokens xs + items_tokens ys" "items_tokens (rev xs) = items_tokens xs"
  by (simp_all add: items_tokens_def rev_map[symmetric] sum_list_rev)

lemma items_tokens_mset: "mset xs = mset ys \<Longrightarrow> items_tokens xs = items_tokens ys"
  unfolding items_tokens_def by (metis mset_map sum_mset_sum_list)

lemma take_fitting_subseq: "subseq (take_fitting rb a is) is"
  by (induction "is" arbitrary: a) auto

lemma take_fitting_fits: "a \<le> rb \<Longrightarrow> a + items_tokens (take_fitting rb a is) \<le> rb"
  by (induction "is" arbitrary: a) (force simp: add.assoc)+

lemma take_until_full_fits: "a \<le> rb \<Longrightarrow> a + items_tokens (take_until_full rb a is) \<le> rb"
  by (induction "is" arbitrary: a) (force simp: add.assoc)+

lemma take_until_full_prefix:
  "\<exists>rest. is = take_until_full rb a is @ rest
     \<and> (rest \<noteq> [] \<longrightarrow> rb < a + items_tokens (take_until_full rb a is) + ri_tokens (hd rest))"
proof (induction "is" arbitrary: a)
  case (Cons i "is")
  show ?case
  proof (cases "a + ri_tokens i \<le> rb")
    case True
    from Cons[of "a + ri_tokens i"] show ?thesis using True by (auto simp: add.assoc)
  qed simp
qed simp

text \<open>What the skipping walk leaves out would not fit beside what it kept.\<close>

lemma take_fitting_maximal:
  assumes "\<forall>i \<in> set is. 0 \<le> ri_tokens i" "x \<in> set is" "x \<notin> set (take_fitting rb a is)"
  shows "rb < a + items_tokens (take_fitting rb a is) + ri_tokens x"
  using assms
proof (induction "is" arbitrary: a)
  case (Cons i "is")
  have nonneg: "0 \<le> items_tokens (take_fitting rb b is)" for b
    unfolding items_tokens_def
    using Cons.prems(1) list_emb_set[OF take_fitting_subseq[of rb b "is"]] by (intro sum_list_nonneg) auto
  show ?case
  proof (cases "a + ri_tokens i \<le> rb")
    case True
    then show ?thesis using Cons.IH[of "a + ri_tokens i"] Cons.prems by (auto simp: add.assoc)
  next
    case False
    show ?thesis
    proof (cases "x = i")
      case True
      then show ?thesis using False nonneg[of a] by simp
    next
      case neq: False
      then show ?thesis using Cons False by auto
    qed
  qed
qed simp

lemma relevance_order_mset: "mset (relevance_order fl prompt ev) = mset ev"
proof -
  have "mset (relevance_order fl prompt ev) = mset (map (\<lambda>(_, _, i). i)
      (map (\<lambda>(idx, i). (score_relevance fl (ri_text i) prompt, int idx, i)) (enumerate 0 ev)))"
    unfolding relevance_order_def by (simp only: mset_map mset_sort)
  also have "map (\<lambda>(_, _, i). i)
      (map (\<lambda>(idx, i). (score_relevance fl (ri_text i) prompt, int idx, i)) (enumerate 0 ev)) = ev"
    unfolding map_map by (rule nth_equalityI) (simp_all add: nth_enumerate_eq)
  finally show ?thesis .
qed

lemma filter_single: "distinct zs \<Longrightarrow> k \<in> set zs \<Longrightarrow> filter (\<lambda>x. x = k) zs = [k]"
  by (induction zs) (auto simp: filter_empty_conv)

text \<open>Sorting a selection back gives the selection in its old order.\<close>

lemma sort_selection:
  assumes "sorted_wrt (\<lambda>x y. f x < f y) xs" "distinct ys" "set ys \<subseteq> set xs"
  shows "sort_key f ys = filter (\<lambda>x. x \<in> set ys) (xs :: 'a list)"
proof (rule properties_for_sort_key)
  have dist: "distinct xs" and inj: "inj_on f (set xs)"
    using assms(1) strict_sorted_iff[of "map f xs"] by (simp_all add: sorted_wrt_map distinct_map)
  show "mset (filter (\<lambda>x. x \<in> set ys) xs) = mset ys"
    using dist assms(2,3) by (intro iffD1[OF set_eq_iff_mset_eq_distinct]) auto
  show "sorted (map f (filter (\<lambda>x. x \<in> set ys) xs))"
    using sorted_wrt_mono_rel[OF _ sorted_wrt_filter[OF assms(1)], of _ "\<lambda>x y. f x \<le> f y"]
    by (simp add: sorted_map less_imp_le)
  fix k assume "k \<in> set (filter (\<lambda>x. x \<in> set ys) xs)"
  then have k: "k \<in> set xs" "k \<in> set ys" by auto
  have one: "filter (\<lambda>x. f k = f x) zs = [k]" if "distinct zs" "set zs \<subseteq> set xs" "k \<in> set zs" for zs
  proof -
    have "filter (\<lambda>x. f k = f x) zs = filter (\<lambda>x. x = k) zs"
      using that inj by (intro filter_cong) (auto simp: inj_on_def)
    with that show ?thesis by (simp add: filter_single)
  qed
  show "filter (\<lambda>x. f k = f x) (filter (\<lambda>x. x \<in> set ys) xs) = filter (\<lambda>x. f k = f x) ys"
    using one[of "filter (\<lambda>x. x \<in> set ys) xs"] one[of ys] k dist assms by auto
qed

lemma distinct_ordinals: "sorted_wrt (\<lambda>x y. ri_ordinal x < ri_ordinal y) xs \<Longrightarrow> distinct xs"
  using strict_sorted_iff[of "map ri_ordinal xs"] by (simp add: sorted_wrt_map distinct_map)

lemma prompt_aware_kept:
  assumes "sorted_wrt (\<lambda>x y. ri_ordinal x < ri_ordinal y) ev"
  shows "budget_walk_prompt_aware fl p ev rb =
    filter (\<lambda>x. x \<in> set (take_fitting rb 0 (relevance_order fl p ev))) ev"
  unfolding budget_walk_prompt_aware_def
proof (rule sort_selection[OF assms])
  let ?o = "relevance_order fl p ev"
  have "distinct ?o"
    using relevance_order_mset[of fl p ev] distinct_ordinals[OF assms] mset_eq_imp_distinct_iff by blast
  then show "distinct (take_fitting rb 0 ?o)" 
    using take_fitting_subseq[of rb 0 ?o] by (auto simp: subseq_conv_nths)
  show "set (take_fitting rb 0 ?o) \<subseteq> set ev"
    using list_emb_set[OF take_fitting_subseq[of rb 0 ?o]] mset_eq_setD[OF relevance_order_mset[of fl p ev]] by auto
qed

lemma prompt_aware_tokens: "items_tokens (budget_walk_prompt_aware fl p ev rb)
    = items_tokens (take_fitting rb 0 (relevance_order fl p ev))"
  unfolding budget_walk_prompt_aware_def by (rule items_tokens_mset) simp

lemma prompt_aware_maximal:
  assumes "\<forall>i \<in> set ev. 0 \<le> ri_tokens i" "x \<in> set ev" "x \<notin> set (budget_walk_prompt_aware fl p ev rb)"
  shows "rb < items_tokens (budget_walk_prompt_aware fl p ev rb) + ri_tokens x"
proof -
  have "set (relevance_order fl p ev) = set ev" using relevance_order_mset mset_eq_setD by blast
  moreover have "x \<notin> set (take_fitting rb 0 (relevance_order fl p ev))"
    using assms(3) by (simp add: budget_walk_prompt_aware_def)
  ultimately show ?thesis
    using take_fitting_maximal[of "relevance_order fl p ev" x rb 0] assms(1,2)
    by (simp add: prompt_aware_tokens)
qed

lemma chronological_suffix:
  "\<exists>dropped. ev = dropped @ budget_walk_chronological ev rb
     \<and> (dropped \<noteq> [] \<longrightarrow> rb < items_tokens (budget_walk_chronological ev rb) + ri_tokens (last dropped))"
proof -
  obtain rest where r: "rev ev = take_until_full rb 0 (rev ev) @ rest"
    "rest \<noteq> [] \<longrightarrow> rb < 0 + items_tokens (take_until_full rb 0 (rev ev)) + ri_tokens (hd rest)"
    using take_until_full_prefix[of "rev ev" rb 0] by blast
  from r(1) have "ev = rev rest @ budget_walk_chronological ev rb"
    unfolding budget_walk_chronological_def by (metis rev_append rev_rev_ident)
  with r(2) show ?thesis
    by (intro exI[of _ "rev rest"]) (auto simp: budget_walk_chronological_def last_rev)
qed

subsection \<open>The contract of a walk\<close>

locale evictable_walk =
  fixes walk :: "resolved_item list \<Rightarrow> int \<Rightarrow> resolved_item list"
  assumes walk_subseq: "sorted_wrt (\<lambda>x y. ri_ordinal x < ri_ordinal y) ev \<Longrightarrow> subseq (walk ev rb) ev"
    and walk_fits: "0 \<le> rb \<Longrightarrow> items_tokens (walk ev rb) \<le> rb"
begin

lemma with_tail: "items_tokens (walk ev (max 0 (b - t))) + t \<le> max b t"
  using walk_fits[of "max 0 (b - t)" ev] by simp

lemma in_order:
  assumes "sorted_wrt (\<lambda>x y. ri_ordinal x < ri_ordinal y) (ev @ ft)"
  shows "sorted_wrt (\<lambda>x y. ri_ordinal x < ri_ordinal y) (walk ev rb @ ft)"
proof -
  have "subseq (walk ev rb @ ft) (ev @ ft)"
    using assms by (intro list_emb_append_mono walk_subseq subseq_order.refl) (simp add: sorted_wrt_append)
  then show ?thesis using assms by (rule sorted_wrt_subseq)
qed

end

interpretation chronological: evictable_walk budget_walk_chronological
proof
  show "subseq (budget_walk_chronological ev rb) ev" for ev rb
    using chronological_suffix[of ev rb] by (metis list_emb_append2 subseq_order.refl)
  show "0 \<le> rb \<Longrightarrow> items_tokens (budget_walk_chronological ev rb) \<le> rb" for ev rb
    using take_until_full_fits[of 0 rb "rev ev"] by (simp add: budget_walk_chronological_def)
qed

interpretation by_relevance: evictable_walk "budget_walk_prompt_aware fl p"
proof
  show "subseq (budget_walk_prompt_aware fl p ev rb) ev"
    if "sorted_wrt (\<lambda>x y. ri_ordinal x < ri_ordinal y) ev" for ev rb
    using that by (simp add: prompt_aware_kept)
  show "0 \<le> rb \<Longrightarrow> items_tokens (budget_walk_prompt_aware fl p ev rb) \<le> rb" for ev rb
    using take_fitting_fits[of 0 rb "relevance_order fl p ev"] by (simp add: prompt_aware_tokens)
qed

lemma budget_walk_cases:
  assumes "budget_walk fl ev ft budget prompt aware = (kept, mode)"
  obtains "mode = Full_Fit" "kept = ev" "items_tokens ev \<le> max 0 (budget - items_tokens ft)"
  | p where "mode = Prompt_Aware" "prompt = Some p" "max 0 (budget - items_tokens ft) < items_tokens ev"
      "kept = budget_walk_prompt_aware fl p ev (max 0 (budget - items_tokens ft))"
  | "mode = Chronological" "max 0 (budget - items_tokens ft) < items_tokens ev"
      "kept = budget_walk_chronological ev (max 0 (budget - items_tokens ft))"
proof (cases "items_tokens ev \<le> max 0 (budget - items_tokens ft)")
  case True
  then show thesis using assms by (intro that(1)) (simp_all add: budget_walk_def Let_def)
next
  case False
  then have over: "max 0 (budget - items_tokens ft) < items_tokens ev" by (simp only: not_le)
  from assms False consider p where "prompt = Some p" "aware \<and> has_searchable_prompt prompt"
      "(kept, mode) = (budget_walk_prompt_aware fl p ev (max 0 (budget - items_tokens ft)), Prompt_Aware)"
    | "(kept, mode) = (budget_walk_chronological ev (max 0 (budget - items_tokens ft)), Chronological)"
    unfolding budget_walk_def Let_def by (cases prompt; cases "aware \<and> has_searchable_prompt prompt") auto
  then show thesis by cases (use that(2,3) over in auto)
qed

subsection \<open>Properties\<close>

text \<open>The budget walk keeps its promise in all three modes: what is kept is a subsequence of the evictable
  items, and with the fresh tail it costs at most the budget, or the tail alone when that is more.
  Everything is kept exactly when it fits; the chronological mode drops the oldest items and only as
  many as it must; what the prompt-aware mode drops would not fit beside what it kept.\<close>

theorem budget_walk_keeps_budget:
  assumes "sorted_wrt (\<lambda>x y. ri_ordinal x < ri_ordinal y) ev" "\<forall>i \<in> set ev. 0 \<le> ri_tokens i"
    "budget_walk fl ev ft budget prompt aware = (kept, mode)"
  shows "subseq kept ev \<and> items_tokens kept + items_tokens ft \<le> max budget (items_tokens ft)
     \<and> (mode = Full_Fit \<longleftrightarrow> items_tokens ev \<le> max 0 (budget - items_tokens ft))
     \<and> (mode = Full_Fit \<longrightarrow> kept = ev)
     \<and> (mode = Chronological \<longrightarrow> (\<exists>dropped. ev = dropped @ kept \<and> dropped \<noteq> []
          \<and> max 0 (budget - items_tokens ft) < items_tokens kept + ri_tokens (last dropped)))
     \<and> (mode = Prompt_Aware \<longrightarrow> (\<forall>x \<in> set ev - set kept.
          max 0 (budget - items_tokens ft) < items_tokens kept + ri_tokens x))"
  using assms(3)
proof (cases rule: budget_walk_cases)
  case 1
  then show ?thesis by auto
next
  case (2 p)
  then show ?thesis
    using by_relevance.walk_subseq[OF assms(1), of fl p "max 0 (budget - items_tokens ft)"]
      by_relevance.with_tail[of fl p ev budget "items_tokens ft"]
      prompt_aware_maximal[OF assms(2), of _ fl p "max 0 (budget - items_tokens ft)"]
    by (auto simp: le_max_iff_disj)
next
  case 3
  obtain dropped where d: "ev = dropped @ kept"
    "dropped \<noteq> [] \<longrightarrow> max 0 (budget - items_tokens ft) < items_tokens kept + ri_tokens (last dropped)"
    using chronological_suffix[of ev "max 0 (budget - items_tokens ft)"] 3(3) by blast
  have "dropped \<noteq> []"
    using d(1) 3 chronological.walk_fits[of "max 0 (budget - items_tokens ft)" ev] by auto
  with d have "\<exists>dropped. ev = dropped @ kept \<and> dropped \<noteq> []
      \<and> max 0 (budget - items_tokens ft) < items_tokens kept + ri_tokens (last dropped)" by blast
  then show ?thesis
    using 3 chronological.walk_subseq[OF assms(1)] chronological.with_tail[of ev budget "items_tokens ft"] by auto
qed

definition sample_resolved :: "int \<Rightarrow> int \<Rightarrow> resolved_item" where
  "sample_resolved n tokens = \<lparr>ri_ordinal = n, ri_message = JNull, ri_tokens = tokens, ri_is_message = True, ri_text = [],
     ri_message_id = None, ri_seq = None, ri_source_role = None, ri_summary = None\<rparr>"

theorem budget_walk_keeps_budget_witness:
  "budget_walk id [sample_resolved 0 5, sample_resolved 1 4, sample_resolved 2 3] [sample_resolved 3 2] 9 None True =
     ([sample_resolved 1 4, sample_resolved 2 3], Chronological)
   \<and> items_tokens [sample_resolved 1 4, sample_resolved 2 3] + 2 \<le> (9::int)"
proof -
  have run: "budget_walk id [sample_resolved 0 5, sample_resolved 1 4, sample_resolved 2 3] [sample_resolved 3 2] 9 None True =
     ([sample_resolved 1 4, sample_resolved 2 3], Chronological)"
    by (simp add: budget_walk_def budget_walk_chronological_def sample_resolved_def Let_def)
  from budget_walk_keeps_budget[OF _ _ run] run show ?thesis
    by (simp add: sample_resolved_def)
qed

text \<open>
  Without room a zero-token item is still kept by the other modes, although the documentation of the walk says that
  only the full-fit mode keeps anything then.
\<close>

lemma no_room_keeps_empty_items:
  "budget_walk id [sample_resolved 0 5, sample_resolved 1 0] [sample_resolved 3 2] 2 None True =
     ([sample_resolved 1 0], Chronological)"
  by (simp add: budget_walk_def budget_walk_chronological_def sample_resolved_def Let_def)

end
