(* ===== verification/Message_Parts.thy ===== *)
theory Message_Parts
  imports Message_Store Media_Text
begin

text \<open>
  How a runtime message becomes rows of \<open>message_parts\<close> (\<open>engine/ingest.py\<close>,
  \<open>build_message_parts\<close> and its helpers) and how the rows become a runtime message again
  (\<open>assembler.py\<close>, \<open>block_from_part\<close> and its helpers).

  The JSON library is the record \<open>codec\<close>: \<open>loads\<close> is \<open>None\<close> where it raises, \<open>dumps\<close> and
  \<open>dumps_ascii\<close> are the two ways the code calls \<open>json.dumps\<close>, and \<open>py_str\<close> is \<open>str\<close> on a
  decoded value. A Python \<open>None\<close> is \<open>JNull\<close>.

  The properties state what survives the way into the tables and back: text and tool calls do;
  the results inside a user turn, reasoning, images and the \<open>tool_calls\<close> of a message do not.
\<close>

record codec =
  cd_loads :: "utext \<Rightarrow> json option"
  cd_dumps :: "json \<Rightarrow> utext"
  cd_dumps_ascii :: "json \<Rightarrow> utext"
  cd_str :: "json \<Rightarrow> utext"

subsection \<open>Into the tables\<close>

definition tool_raw_types :: "utext list" where
  "tool_raw_types = map cps [''tool_use'', ''toolUse'', ''tool-use'', ''toolCall'', ''tool_call'', ''functionCall'',
     ''function_call'', ''function_call_output'', ''tool_result'', ''toolResult'', ''tool_use_result'']"

definition persistable_raw_roles :: "utext list" where
  "persistable_raw_roles = map cps [''user'', ''assistant'', ''system'', ''tool'', ''toolResult'']"

fun str_in :: "json \<Rightarrow> utext list \<Rightarrow> bool" where
  "str_in (JStr s) ts = (s \<in> set ts)"
| "str_in _ ts = False"

definition to_db_role :: "json \<Rightarrow> message_role" where
  "to_db_role role =
     (if role = JStr (cps ''tool'') \<or> role = JStr (cps ''toolResult'') then Role_Tool
      else if role = JStr (cps ''system'') then Role_System
      else if role = JStr (cps ''user'') then Role_User
      else Role_Assistant)"

definition has_persistable_role :: "json \<Rightarrow> bool" where
  "has_persistable_role message = str_in (jget ''role'' message) persistable_raw_roles"

definition extract_message_content :: "codec \<Rightarrow> json \<Rightarrow> utext" where
  "extract_message_content cd content = (case content of
     JNull \<Rightarrow> []
   | JStr s \<Rightarrow> s
   | JArr items \<Rightarrow>
       if items = [] then []
       else if list_all (\<lambda>i. is_obj i \<and> str_in (jget ''type'' i) tool_raw_types) items then []
       else cd_dumps cd content
   | _ \<Rightarrow> cd_dumps cd content)"

definition has_key :: "string \<Rightarrow> json \<Rightarrow> bool" where
  "has_key k m = (case m of JObj kvs \<Rightarrow> map_of kvs k \<noteq> None | _ \<Rightarrow> False)"

text \<open>\<open>a or b or \<dots>\<close> over \<open>safe_string\<close>, and \<open>safe_bool(a) or safe_bool(b)\<close>.\<close>

fun first_string :: "json list \<Rightarrow> utext option" where
  "first_string [] = None"
| "first_string (j # js) = (case nonempty_str j of Some s \<Rightarrow> Some s | None \<Rightarrow> first_string js)"

fun safe_bool :: "json \<Rightarrow> bool option" where
  "safe_bool (JBool b) = Some b"
| "safe_bool _ = None"

definition top_level_is_error :: "json \<Rightarrow> bool option" where
  "top_level_is_error message = (case safe_bool (jget ''isError'' message) of
     Some True \<Rightarrow> Some True
   | _ \<Rightarrow> safe_bool (jget ''is_error'' message))"

fun json_of_bool :: "bool option \<Rightarrow> json" where
  "json_of_bool None = JNull"
| "json_of_bool (Some b) = JBool b"

fun json_of_str :: "utext option \<Rightarrow> json" where
  "json_of_str None = JNull"
| "json_of_str (Some s) = JStr s"

definition clean_metadata :: "(string \<times> json) list \<Rightarrow> (string \<times> json) list" where
  "clean_metadata record = filter (\<lambda>(_, v). v \<noteq> JNull) record"

definition to_json_metadata :: "codec \<Rightarrow> (string \<times> json) list \<Rightarrow> utext option" where
  "to_json_metadata cd record =
     (if clean_metadata record = [] then None else Some (cd_dumps cd (JObj (clean_metadata record))))"

definition role_str :: "json \<Rightarrow> utext" where
  "role_str message = (case jget ''role'' message of JStr s \<Rightarrow> s | _ \<Rightarrow> cps ''unknown'')"

definition top_level_tool_call_id :: "json \<Rightarrow> utext option" where
  "top_level_tool_call_id message = first_string (map (\<lambda>k. jget k message)
     [''toolCallId'', ''tool_call_id'', ''toolUseId'', ''tool_use_id'', ''call_id'', ''id''])"

definition top_level_tool_name :: "json \<Rightarrow> utext option" where
  "top_level_tool_name message = first_string (map (\<lambda>k. jget k message) [''toolName'', ''tool_name''])"

text \<open>The one part of a message whose content is not a list.\<close>

definition agent_part :: "codec \<Rightarrow> utext \<Rightarrow> json \<Rightarrow> utext \<Rightarrow> utext \<Rightarrow> create_message_part_input" where
  "agent_part cd session_id message fallback_content source =
     \<lparr>mp_session_id = session_id, mp_part_type = cps ''agent'', mp_ordinal = 0,
      mp_text_content = (if fallback_content = [] then None else Some fallback_content),
      mp_tool_call_id = None, mp_tool_name = None, mp_tool_input = None, mp_tool_output = None,
      mp_metadata = to_json_metadata cd
        [(''originalRole'', JStr (role_str message)), (''source'', JStr source)]\<rparr>"

definition text_part :: "codec \<Rightarrow> utext \<Rightarrow> json \<Rightarrow> utext \<Rightarrow> create_message_part_input" where
  "text_part cd session_id message content =
     \<lparr>mp_session_id = session_id, mp_part_type = cps ''text'', mp_ordinal = 0, mp_text_content = Some content,
      mp_tool_call_id = top_level_tool_call_id message, mp_tool_name = top_level_tool_name message,
      mp_tool_input = None, mp_tool_output = None,
      mp_metadata = to_json_metadata cd
        [(''originalRole'', JStr (role_str message)), (''isError'', json_of_bool (top_level_is_error message))]\<rparr>"

text \<open>One element of a content list.\<close>

definition block_text :: "json \<Rightarrow> utext option" where
  "block_text b = (case jget ''text'' b of JStr s \<Rightarrow> Some s
     | _ \<Rightarrow> (case jget ''content'' b of JStr s \<Rightarrow> Some s | _ \<Rightarrow> None))"

definition block_tool_input :: "codec \<Rightarrow> json \<Rightarrow> utext option" where
  "block_tool_input cd b =
     (if has_key ''input'' b then Some (cd_dumps cd (jget ''input'' b))
      else if has_key ''arguments'' b then Some (cd_dumps cd (jget ''arguments'' b))
      else if has_key ''toolInput'' b then Some (cd_dumps cd (jget ''toolInput'' b))
      else str_of (jget ''tool_input'' b))"

definition block_tool_output :: "codec \<Rightarrow> json \<Rightarrow> utext option" where
  "block_tool_output cd b =
     (if has_key ''output'' b then Some (cd_dumps cd (jget ''output'' b))
      else if has_key ''toolOutput'' b then Some (cd_dumps cd (jget ''toolOutput'' b))
      else str_of (jget ''tool_output'' b))"

definition part_of_block :: "codec \<Rightarrow> utext \<Rightarrow> json \<Rightarrow> nat \<times> json \<Rightarrow> create_message_part_input" where
  "part_of_block cd session_id message kb = (case kb of (k, b) \<Rightarrow>
     if \<not> is_obj b then
       \<lparr>mp_session_id = session_id, mp_part_type = cps ''text'', mp_ordinal = int k,
        mp_text_content = (if b = JNull then None else Some (cd_str cd b)),
        mp_tool_call_id = None, mp_tool_name = None, mp_tool_input = None, mp_tool_output = None,
        mp_metadata = to_json_metadata cd
          [(''originalRole'', JStr (role_str message)), (''source'', JStr (cps ''non-dict-block''))]\<rparr>
     else
       let block_type = nonempty_str (jget ''type'' b);
           is_tool_block = (case block_type of Some t \<Rightarrow> t \<in> set tool_raw_types | None \<Rightarrow> False) in
       \<lparr>mp_session_id = session_id,
        mp_part_type = (if is_tool_block then cps ''tool'' else cps ''text''), mp_ordinal = int k,
        mp_text_content = block_text b,
        mp_tool_call_id = first_string
          (map (\<lambda>k. jget k b) [''toolCallId'', ''tool_call_id'', ''toolUseId'', ''tool_use_id'', ''call_id'']
           @ [if is_tool_block then jget ''id'' b else JNull, json_of_str (top_level_tool_call_id message)]),
        mp_tool_name = first_string (map (\<lambda>k. jget k b) [''name'', ''toolName'', ''tool_name'']
           @ [json_of_str (top_level_tool_name message)]),
        mp_tool_input = block_tool_input cd b, mp_tool_output = block_tool_output cd b,
        mp_metadata = to_json_metadata cd
          [(''originalRole'', JStr (role_str message)), (''blockType'', json_of_str block_type),
           (''isError'', json_of_bool (top_level_is_error message))]\<rparr>)"

definition build_message_parts :: "codec \<Rightarrow> utext \<Rightarrow> json \<Rightarrow> utext \<Rightarrow> create_message_part_input list" where
  "build_message_parts cd session_id message fallback_content =
     (if \<not> has_key ''content'' message
      then [agent_part cd session_id message fallback_content (cps ''unknown-message-shape'')]
      else case jget ''content'' message of
        JStr s \<Rightarrow> [text_part cd session_id message s]
      | JArr blocks \<Rightarrow> map (part_of_block cd session_id message) (enumerate 0 blocks)
      | _ \<Rightarrow> [agent_part cd session_id message fallback_content (cps ''non-array-content'')])"

fun truthy :: "json \<Rightarrow> bool" where
  "truthy JNull = False"
| "truthy (JBool b) = b"
| "truthy (JInt n) = (n \<noteq> 0)"
| "truthy (JStr s) = (s \<noteq> [])"
| "truthy (JArr xs) = (xs \<noteq> [])"
| "truthy (JObj kvs) = (kvs \<noteq> [])"

definition is_failed_empty_assistant :: "json \<Rightarrow> bool" where
  "is_failed_empty_assistant message =
     (if jget ''role'' message \<noteq> JStr (cps ''assistant'') then False
      else let stop_reason = (if truthy (jget ''stopReason'' message) then jget ''stopReason'' message
              else jget ''stop_reason'' message) in
        str_in stop_reason (map cps [''error'', ''aborted''])
        \<and> jget ''content'' message \<in> {JNull, JStr [], JArr []})"

subsection \<open>Out of the tables\<close>

definition parse_json :: "codec \<Rightarrow> utext option \<Rightarrow> json" where
  "parse_json cd value = (case value of
     None \<Rightarrow> JNull
   | Some t \<Rightarrow> if u_strip t = [] then JNull else (case cd_loads cd t of None \<Rightarrow> JNull | Some j \<Rightarrow> j))"

fun first_some :: "('a \<Rightarrow> 'b option) \<Rightarrow> 'a list \<Rightarrow> 'b option" where
  "first_some f [] = None"
| "first_some f (x # xs) = (case f x of Some y \<Rightarrow> Some y | None \<Rightarrow> first_some f xs)"

definition get_original_role :: "codec \<Rightarrow> message_part list \<Rightarrow> utext option" where
  "get_original_role cd parts =
     first_some (\<lambda>p. nonempty_str (jget ''originalRole'' (parse_json cd (mp_metadata p)))) parts"

text \<open>The dictionary with the keys that are present.\<close>

definition get_part_metadata :: "codec \<Rightarrow> message_part \<Rightarrow> json" where
  "get_part_metadata cd p =
     (let decoded = parse_json cd (mp_metadata p) in
      if \<not> is_obj decoded then JObj []
      else JObj (
        (case nonempty_str (jget ''originalRole'' decoded) of Some r \<Rightarrow> [(''originalRole'', JStr r)] | None \<Rightarrow> [])
        @ (case nonempty_str (jget ''rawType'' decoded) of Some t \<Rightarrow> [(''rawType'', JStr t)] | None \<Rightarrow> [])
        @ (if has_key ''raw'' decoded then [(''raw'', jget ''raw'' decoded)] else [])))"

definition parse_stored_value :: "codec \<Rightarrow> utext option \<Rightarrow> json" where
  "parse_stored_value cd value = (case value of
     None \<Rightarrow> JNull
   | Some t \<Rightarrow> if t = [] then JNull
       else let parsed = parse_json cd (Some t) in if parsed \<noteq> JNull then parsed else JStr t)"

definition nonempty :: "utext option \<Rightarrow> utext option" where
  "nonempty v = (case v of Some s \<Rightarrow> if s = [] then None else Some s | None \<Rightarrow> None)"

definition entry_if :: "string \<Rightarrow> utext option \<Rightarrow> (string \<times> json) list" where
  "entry_if k v = (case nonempty v of Some s \<Rightarrow> [(k, JStr s)] | None \<Rightarrow> [])"

definition reasoning_block_from_part :: "message_part \<Rightarrow> utext option \<Rightarrow> json" where
  "reasoning_block_from_part p raw_type =
     (let block_type = (if raw_type = Some (cps ''thinking'') then cps ''thinking'' else cps ''reasoning'') in
      case nonempty (mp_text_content p) of
        Some t \<Rightarrow> JObj [(''type'', JStr block_type),
          (if block_type = cps ''thinking'' then (''thinking'', JStr t) else (''text'', JStr t))]
      | None \<Rightarrow> JObj [(''type'', JStr block_type)])"

definition try_restore_openai_reasoning :: "codec \<Rightarrow> json \<Rightarrow> json option" where
  "try_restore_openai_reasoning cd raw =
     (if jget ''type'' raw \<noteq> JStr (cps ''thinking'') then None
      else case jget ''thinkingSignature'' raw of
        JStr sig \<Rightarrow>
          if take 1 sig \<noteq> [123] then None
          else (case cd_loads cd sig of
            Some parsed \<Rightarrow>
              if is_obj parsed \<and> jget ''type'' parsed = JStr (cps ''reasoning'') \<and> str_of (jget ''id'' parsed) \<noteq> None
              then Some parsed else None
          | None \<Rightarrow> None)
      | _ \<Rightarrow> None)"

definition call_raw_types :: "utext list" where
  "call_raw_types = map cps [''function_call'', ''functionCall'', ''tool_use'', ''tool-use'', ''toolUse'', ''toolCall'']"

definition result_raw_types :: "utext list" where
  "result_raw_types = map cps [''function_call_output'', ''toolResult'', ''tool_result'']"

definition type_or :: "utext option \<Rightarrow> utext list \<Rightarrow> utext \<Rightarrow> utext" where
  "type_or raw_type ts d = (case raw_type of Some t \<Rightarrow> if t \<in> set ts then t else d | None \<Rightarrow> d)"

definition tool_call_block_from_part :: "codec \<Rightarrow> message_part \<Rightarrow> utext option \<Rightarrow> json" where
  "tool_call_block_from_part cd p raw_type =
     (let block_type = type_or raw_type call_raw_types (cps ''toolCall'');
          input_value = parse_stored_value cd (mp_tool_input p);
          arguments = (\<lambda>k. if input_value \<noteq> JNull then [(k, input_value)] else []) in
      if block_type = cps ''function_call'' then
        JObj ([(''type'', JStr block_type)] @ entry_if ''call_id'' (mp_tool_call_id p)
          @ entry_if ''name'' (mp_tool_name p) @ arguments ''arguments'')
      else
        JObj ([(''type'', JStr block_type),
          (''id'', JStr (case nonempty (mp_tool_call_id p) of
             Some i \<Rightarrow> i | None \<Rightarrow> cps ''toolu_lcm_'' @ mp_part_id p))]
          @ entry_if ''name'' (mp_tool_name p)
          @ arguments (if block_type \<in> {cps ''functionCall'', cps ''toolCall''} then ''arguments'' else ''input'')))"

text \<open>\<open>raw\<close> is \<open>JNull\<close> where the code passes \<open>None\<close>, and a dictionary otherwise.\<close>

definition tool_result_block_from_part :: "codec \<Rightarrow> message_part \<Rightarrow> utext option \<Rightarrow> json \<Rightarrow> json" where
  "tool_result_block_from_part cd p raw_type raw =
     (if str_of (jget ''text'' raw) \<noteq> None \<and> jget ''output'' raw = JNull \<and> jget ''content'' raw = JNull
         \<and> (mp_tool_output p = None \<or> mp_tool_output p = Some [])
         \<and> (mp_text_content p = None \<or> mp_text_content p = str_of (jget ''text'' raw))
      then JObj [(''type'', JStr (cps ''text'')), (''text'', jget ''text'' raw)]
      else
        let block_type = type_or raw_type result_raw_types (cps ''tool_result'');
            output_value = parse_stored_value cd (mp_tool_output p) in
        JObj ([(''type'', JStr block_type)] @ entry_if ''name'' (mp_tool_name p)
          @ [if output_value \<noteq> JNull then (''output'', output_value)
             else case mp_text_content p of
               Some t \<Rightarrow> (''output'', JStr t)
             | None \<Rightarrow> if jget ''output'' raw \<noteq> JNull then (''output'', jget ''output'' raw)
                 else if jget ''content'' raw \<noteq> JNull then (''content'', jget ''content'' raw)
                 else (''output'', JStr [])]
          @ (case safe_bool (jget ''is_error'' raw) of
               Some b \<Rightarrow> [(''is_error'', JBool b)]
             | None \<Rightarrow> (case safe_bool (jget ''isError'' raw) of Some b \<Rightarrow> [(''isError'', JBool b)] | None \<Rightarrow> []))
          @ entry_if (if block_type = cps ''function_call_output'' then ''call_id'' else ''tool_use_id'')
              (mp_tool_call_id p)))"

definition to_runtime_role :: "codec \<Rightarrow> message_role \<Rightarrow> message_part list \<Rightarrow> utext" where
  "to_runtime_role cd db_role parts =
     (let original_role = get_original_role cd parts in
      if original_role = Some (cps ''toolResult'') then cps ''toolResult''
      else if original_role = Some (cps ''assistant'') then cps ''assistant''
      else if original_role = Some (cps ''user'') then cps ''user''
      else if original_role = Some (cps ''system'') then cps ''user''
      else case db_role of Role_Tool \<Rightarrow> cps ''toolResult'' | Role_Assistant \<Rightarrow> cps ''assistant'' | _ \<Rightarrow> cps ''user'')"

text \<open>The values of a raw tool block stand in for columns that are empty.\<close>

definition backfill_part :: "codec \<Rightarrow> json \<Rightarrow> message_part \<Rightarrow> message_part" where
  "backfill_part cd raw p =
     (let raw_tool_call_id = first_string [jget ''id'' raw, jget ''call_id'' raw];
          raw_name = nonempty_str (jget ''name'' raw);
          raw_args = (if jget ''arguments'' raw \<noteq> JNull then jget ''arguments'' raw else jget ''input'' raw) in
      p\<lparr>mp_tool_call_id := (if raw_tool_call_id \<noteq> None \<and> nonempty (mp_tool_call_id p) = None
            then raw_tool_call_id else mp_tool_call_id p),
        mp_tool_name := (if raw_name \<noteq> None \<and> nonempty (mp_tool_name p) = None then raw_name else mp_tool_name p),
        mp_tool_input := (if (mp_tool_input p = None \<or> mp_tool_input p = Some []) \<and> raw_args \<noteq> JNull
            then Some (case raw_args of JStr s \<Rightarrow> s | _ \<Rightarrow> cd_dumps_ascii cd raw_args) else mp_tool_input p)\<rparr>)"

definition text_block :: "utext \<Rightarrow> json" where
  "text_block t = JObj [(''type'', JStr (cps ''text'')), (''text'', JStr t)]"

text \<open>The block of a part without a raw block to return, or after the backfill.\<close>

definition block_of_columns :: "codec \<Rightarrow> json \<Rightarrow> message_part \<Rightarrow> json" where
  "block_of_columns cd metadata p =
     (let raw_type = nonempty_str (jget ''rawType'' metadata);
          raw = (if is_obj (jget ''raw'' metadata) then jget ''raw'' metadata else JNull) in
      if mp_part_type p = cps ''reasoning'' then reasoning_block_from_part p raw_type
      else if mp_part_type p = cps ''tool'' then
        (if jget ''originalRole'' metadata = JStr (cps ''toolResult'') \<or> raw_type = Some (cps ''function_call_output'')
         then tool_result_block_from_part cd p raw_type raw
         else tool_call_block_from_part cd p raw_type)
      else if raw_type \<in> Some ` set call_raw_types then tool_call_block_from_part cd p raw_type
      else if raw_type \<in> Some ` set result_raw_types then tool_result_block_from_part cd p raw_type raw
      else if mp_part_type p = cps ''text'' then
        text_block (case mp_text_content p of Some t \<Rightarrow> t | None \<Rightarrow> [])
      else case nonempty (mp_text_content p) of
        Some t \<Rightarrow> text_block t
      | None \<Rightarrow>
          let decoded = parse_json cd (mp_metadata p) in
          if is_obj decoded then text_block (cd_dumps_ascii cd decoded) else text_block [])"

definition block_from_part :: "codec \<Rightarrow> message_part \<Rightarrow> json" where
  "block_from_part cd p =
     (let metadata = get_part_metadata cd p; raw = jget ''raw'' metadata in
      if is_obj raw then
        (case try_restore_openai_reasoning cd raw of
           Some restored \<Rightarrow> restored
         | None \<Rightarrow>
             if \<not> str_in (jget ''type'' raw) (call_raw_types @ result_raw_types) then raw
             else block_of_columns cd metadata (backfill_part cd raw p))
      else block_of_columns cd metadata p)"

definition content_from_parts :: "codec \<Rightarrow> message_part list \<Rightarrow> utext \<Rightarrow> utext \<Rightarrow> json" where
  "content_from_parts cd parts role fallback_content =
     (if parts = [] then
        (if role = cps ''assistant'' then JArr (if fallback_content \<noteq> [] then [text_block fallback_content] else [])
         else if role = cps ''toolResult'' then JArr [text_block fallback_content]
         else JStr fallback_content)
      else
        let blocks = map (block_from_part cd) parts in
        if role = cps ''user'' \<and> length blocks = 1 \<and> jget ''type'' (hd blocks) = JStr (cps ''text'')
           \<and> str_of (jget ''text'' (hd blocks)) \<noteq> None
        then jget ''text'' (hd blocks) else JArr blocks)"

definition pick_tool_call_id :: "codec \<Rightarrow> message_part list \<Rightarrow> utext option" where
  "pick_tool_call_id cd = first_some (\<lambda>p. case nonempty (mp_tool_call_id p) of
     Some i \<Rightarrow> Some i
   | None \<Rightarrow> let decoded = parse_json cd (mp_metadata p); raw = jget ''raw'' decoded in
       first_string [jget ''toolCallId'' decoded, jget ''toolCallId'' raw, jget ''tool_call_id'' raw])"

definition pick_tool_name :: "codec \<Rightarrow> message_part list \<Rightarrow> utext option" where
  "pick_tool_name cd = first_some (\<lambda>p. case nonempty (mp_tool_name p) of
     Some i \<Rightarrow> Some i
   | None \<Rightarrow> let decoded = parse_json cd (mp_metadata p); raw = jget ''raw'' decoded in
       first_string [jget ''toolName'' decoded, jget ''name'' raw, jget ''toolName'' raw])"

definition pick_tool_is_error :: "codec \<Rightarrow> message_part list \<Rightarrow> bool option" where
  "pick_tool_is_error cd = first_some (\<lambda>p. safe_bool (jget ''isError'' (parse_json cd (mp_metadata p))))"

subsection \<open>There and back\<close>

lemma part_row_simps [simp]:
  "mp_part_type (part_row u mid (k, p)) = mp_part_type p" "mp_ordinal (part_row u mid (k, p)) = mp_ordinal p"
  "mp_text_content (part_row u mid (k, p)) = mp_text_content p" "mp_tool_call_id (part_row u mid (k, p)) = mp_tool_call_id p"
  "mp_tool_name (part_row u mid (k, p)) = mp_tool_name p" "mp_tool_input (part_row u mid (k, p)) = mp_tool_input p"
  "mp_tool_output (part_row u mid (k, p)) = mp_tool_output p" "mp_metadata (part_row u mid (k, p)) = mp_metadata p"
  "mp_part_id (part_row u mid (k, p)) = u k" "mp_message_id (part_row u mid (k, p)) = mid"
  by (simp_all add: part_row_def create_message_part_input.defs)

text \<open>What the tables give back for a message: its role and its content.\<close>

definition stored_rows :: "codec \<Rightarrow> (nat \<Rightarrow> utext) \<Rightarrow> int \<Rightarrow> utext \<Rightarrow> json \<Rightarrow> message_part list" where
  "stored_rows cd uuids mid session_id m = map (part_row uuids mid)
     (enumerate 0 (build_message_parts cd session_id m (extract_message_content cd (jget ''content'' m))))"

definition replayed :: "codec \<Rightarrow> (nat \<Rightarrow> utext) \<Rightarrow> int \<Rightarrow> utext \<Rightarrow> json \<Rightarrow> utext \<times> json" where
  "replayed cd uuids mid session_id m =
     (let rows = stored_rows cd uuids mid session_id m;
          role = to_runtime_role cd (to_db_role (jget ''role'' m)) rows in
      (role, content_from_parts cd rows role (extract_message_content cd (jget ''content'' m))))"

text \<open>The JSON library reads back what it wrote.\<close>

definition reads_back :: "codec \<Rightarrow> json \<Rightarrow> bool" where
  "reads_back cd j \<longleftrightarrow> cd_loads cd (cd_dumps cd j) = Some j \<and> u_strip (cd_dumps cd j) \<noteq> []"

definition role_metadata :: "utext \<Rightarrow> utext \<Rightarrow> json" where
  "role_metadata role block_type = JObj [(''originalRole'', JStr role), (''blockType'', JStr block_type)]"

lemma parse_json_dumps: "reads_back cd j \<Longrightarrow> parse_json cd (Some (cd_dumps cd j)) = j"
  by (simp add: parse_json_def reads_back_def)

lemma parse_stored_dumps: "reads_back cd j \<Longrightarrow> j \<noteq> JNull \<Longrightarrow> parse_stored_value cd (Some (cd_dumps cd j)) = j"
  by (auto simp: parse_stored_value_def parse_json_dumps Let_def) (auto simp: reads_back_def u_strip_def u_lstrip_def u_rstrip_def)

text \<open>Blocks of text and tool calls, in the runtime form and in the Anthropic form.\<close>

datatype plain_block = Text_Block utext | Call_Block utext utext json

fun runtime_block :: "plain_block \<Rightarrow> json" where
  "runtime_block (Text_Block t) = text_block t"
| "runtime_block (Call_Block i n a) = JObj [(''type'', JStr (cps ''toolCall'')), (''id'', JStr i), (''name'', JStr n), (''arguments'', a)]"

fun anthropic_block :: "plain_block \<Rightarrow> json" where
  "anthropic_block (Text_Block t) = text_block t"
| "anthropic_block (Call_Block i n a) = JObj [(''type'', JStr (cps ''tool_use'')), (''id'', JStr i), (''name'', JStr n), (''input'', a)]"

fun block_kind :: "plain_block \<Rightarrow> utext list" where
  "block_kind (Text_Block t) = [cps ''text'']"
| "block_kind (Call_Block i n a) = [cps ''toolCall'', cps ''tool_use'']"

fun plain_ok :: "codec \<Rightarrow> utext \<Rightarrow> plain_block \<Rightarrow> bool" where
  "plain_ok cd r (Text_Block t) \<longleftrightarrow> reads_back cd (role_metadata r (cps ''text''))"
| "plain_ok cd r (Call_Block i n a) \<longleftrightarrow> i \<noteq> [] \<and> n \<noteq> [] \<and> a \<noteq> JNull \<and> reads_back cd a
     \<and> reads_back cd (role_metadata r (cps ''toolCall'')) \<and> reads_back cd (role_metadata r (cps ''tool_use''))"

definition plain_message :: "utext \<Rightarrow> json \<Rightarrow> json" where
  "plain_message r content = JObj [(''role'', JStr r), (''content'', content)]"

lemma plain_top_level [simp]:
  "role_str (plain_message r c) = r" "top_level_tool_call_id (plain_message r c) = None"
  "top_level_tool_name (plain_message r c) = None" "top_level_is_error (plain_message r c) = None"
  "jget ''role'' (plain_message r c) = JStr r" "jget ''content'' (plain_message r c) = c"
  "has_key ''content'' (plain_message r c)"
  by (simp_all add: plain_message_def role_str_def top_level_tool_call_id_def top_level_tool_name_def
      top_level_is_error_def has_key_def)

lemmas part_defs = part_of_block_def block_text_def block_tool_input_def block_tool_output_def has_key_def Let_def
  tool_raw_types_def text_block_def

lemma metadata_of_part:
  assumes "is_obj b" "jget ''type'' b = JStr t" "t \<noteq> []"
  shows "mp_metadata (part_of_block cd s (plain_message r c) (k, b)) = Some (cd_dumps cd (role_metadata r t))"
  using assms by (simp add: part_of_block_def Let_def to_json_metadata_def clean_metadata_def role_metadata_def)

lemma runtime_block_type:
  "(b = runtime_block pb \<or> b = anthropic_block pb) \<Longrightarrow>
     is_obj b \<and> (\<exists>t. jget ''type'' b = JStr t \<and> t \<noteq> [] \<and> t \<in> set (block_kind pb))"
  by (cases pb) (auto simp: text_block_def)

text \<open>The block that comes out of the part of a plain block.\<close>

lemma block_there_and_back:
  assumes "plain_ok cd r pb" "b = runtime_block pb \<or> b = anthropic_block pb" "r \<noteq> cps ''toolResult''"
  shows "block_from_part cd (part_row u mid (j, part_of_block cd s (plain_message r c) (k, b))) = runtime_block pb"
proof -
  obtain t where t: "is_obj b" "jget ''type'' b = JStr t" "t \<noteq> []" "t \<in> set (block_kind pb)"
    using runtime_block_type[OF assms(2)] by blast
  let ?p = "part_row u mid (j, part_of_block cd s (plain_message r c) (k, b))"
  have rb: "reads_back cd (role_metadata r t)" using assms(1) t(4) by (cases pb) auto
  have meta: "get_part_metadata cd ?p = JObj (if r = [] then [] else [(''originalRole'', JStr r)])"
    unfolding get_part_metadata_def part_row_simps metadata_of_part[OF t(1-3)] parse_json_dumps[OF rb]
    by (simp add: role_metadata_def has_key_def)
  show ?thesis
  proof (cases pb)
    case (Text_Block x)
    then have b: "b = text_block x" using assms(2) by auto
    show ?thesis
      unfolding block_from_part_def meta Let_def block_of_columns_def
      by (simp add: Text_Block b part_defs)
  next
    case (Call_Block i n a)
    then have ok: "i \<noteq> []" "n \<noteq> []" "a \<noteq> JNull" "reads_back cd a" using assms(1) by auto
    have b: "b = JObj [(''type'', JStr (cps ''toolCall'')), (''id'', JStr i), (''name'', JStr n), (''arguments'', a)]
        \<or> b = JObj [(''type'', JStr (cps ''tool_use'')), (''id'', JStr i), (''name'', JStr n), (''input'', a)]"
      using assms(2) Call_Block by auto
    show ?thesis
      unfolding block_from_part_def meta Let_def block_of_columns_def
      using b assms(3) ok
      by (elim disjE) (simp_all add: Call_Block part_defs tool_call_block_from_part_def type_or_def call_raw_types_def
          parse_stored_dumps entry_if_def nonempty_def)
  qed
qed

lemma role_of_plain:
  assumes "plain_ok cd r pb" "b = runtime_block pb \<or> b = anthropic_block pb" "r \<noteq> []"
  shows "nonempty_str (jget ''originalRole'' (parse_json cd (mp_metadata
    (part_row u mid (j, part_of_block cd s (plain_message r c) (k, b)))))) = Some r"
proof -
  obtain t where t: "is_obj b" "jget ''type'' b = JStr t" "t \<noteq> []" "t \<in> set (block_kind pb)"
    using runtime_block_type[OF assms(2)] by blast
  have rb: "reads_back cd (role_metadata r t)" using assms(1) t(4) by (cases pb) auto
  show ?thesis
    unfolding part_row_simps metadata_of_part[OF t(1-3)] parse_json_dumps[OF rb]
    by (simp add: role_metadata_def assms(3))
qed

lemma enumerate_enumerate_map:
  "map f (enumerate k (map g (enumerate k xs))) = map (\<lambda>(j, b). f (j, g (j, b))) (enumerate k xs)"
  by (induction xs arbitrary: k) auto

lemma replay_plain:
  assumes "list_all (plain_ok cd r) pbs" "pbs \<noteq> []" "r \<in> {cps ''user'', cps ''assistant''}"
    "\<forall>pb. f pb = runtime_block pb \<or> f pb = anthropic_block pb"
  shows "replayed cd u mid s (plain_message r (JArr (map f pbs))) =
    (r, if r = cps ''user'' \<and> (\<exists>t. pbs = [Text_Block t]) then JStr (case hd pbs of Text_Block t \<Rightarrow> t)
        else JArr (map runtime_block pbs))"
proof -
  let ?m = "plain_message r (JArr (map f pbs))"
  have rows: "stored_rows cd u mid s ?m =
      map (\<lambda>(j, b). part_row u mid (j, part_of_block cd s ?m (j, b))) (enumerate 0 (map f pbs))"
    by (simp add: stored_rows_def build_message_parts_def enumerate_enumerate_map)
  obtain pb ps where pbs: "pbs = pb # ps" using assms(2) by (cases pbs) auto
  have r: "r \<noteq> []" "r \<noteq> cps ''toolResult''" using assms(3) by auto
  have ok: "plain_ok cd r p" "f p = runtime_block p \<or> f p = anthropic_block p" if "p \<in> set pbs" for p
    using assms(1,4) that by (auto simp: list_all_iff)
  obtain rest where cons: "stored_rows cd u mid s ?m = part_row u mid (0, part_of_block cd s ?m (0, f pb)) # rest"
    unfolding rows by (simp add: pbs)
  have "get_original_role cd (stored_rows cd u mid s ?m) = Some r"
    unfolding get_original_role_def cons first_some.simps
    using role_of_plain[OF ok r(1), of pb u mid 0 s "JArr (map f pbs)" 0] by (simp add: pbs)
  then have role: "to_runtime_role cd db (stored_rows cd u mid s ?m) = r" for db
    using assms(3) by (auto simp: to_runtime_role_def Let_def)
  have "map (block_from_part cd) (stored_rows cd u mid s ?m) = map runtime_block pbs"
  proof (rule nth_equalityI)
    fix i assume "i < length (map (block_from_part cd) (stored_rows cd u mid s ?m))"
    then have i: "i < length pbs" by (simp add: rows)
    then show "map (block_from_part cd) (stored_rows cd u mid s ?m) ! i = map runtime_block pbs ! i"
      using block_there_and_back[OF ok r(2)] by (simp add: rows nth_enumerate_eq)
  qed (simp add: rows)
  moreover have "stored_rows cd u mid s ?m \<noteq> []" by (simp only: cons) simp
  moreover have "(length pbs = 1 \<and> jget ''type'' (hd (map runtime_block pbs)) = JStr (cps ''text'')
      \<and> str_of (jget ''text'' (hd (map runtime_block pbs))) \<noteq> None) = (\<exists>t. pbs = [Text_Block t])"
    unfolding pbs by (cases pb) (auto simp: text_block_def)
  ultimately show ?thesis
    unfolding replayed_def role Let_def content_from_parts_def
    by (auto simp: text_block_def)
qed

subsection \<open>Properties\<close>

text \<open>A user or assistant turn made of text and tool calls survives the tables: what the assembler
  reads back is the same list of blocks, in order, with the text, the call ids, the names and the
  arguments, tool calls in the form \<open>toolCall\<close>/\<open>arguments\<close> whichever of the two forms came in; a
  user turn of one text comes back as that text. It needs only that the JSON library reads back
  the arguments and the metadata it wrote.\<close>

theorem plain_turn_round_trip:
  assumes "list_all (plain_ok cd r) pbs" "pbs \<noteq> []" "r \<in> {cps ''user'', cps ''assistant''}"
  shows "replayed cd u mid s (plain_message r (JArr (map runtime_block pbs))) =
      replayed cd u mid s (plain_message r (JArr (map anthropic_block pbs)))
    \<and> fst (replayed cd u mid s (plain_message r (JArr (map runtime_block pbs)))) = r
    \<and> snd (replayed cd u mid s (plain_message r (JArr (map runtime_block pbs)))) =
        (if r = cps ''user'' \<and> (\<exists>t. pbs = [Text_Block t]) then JStr (case hd pbs of Text_Block t \<Rightarrow> t)
         else JArr (map runtime_block pbs))"
  using replay_plain[OF assms, of runtime_block u mid s] replay_plain[OF assms, of anthropic_block u mid s] by simp

text \<open>A codec for examples: it writes a number as itself and metadata as its block type.\<close>

definition sample_codec :: "utext \<Rightarrow> codec" where
  "sample_codec role = \<lparr>
     cd_loads = (\<lambda>t. if t = [51] then Some (JInt 3)
       else Some (JObj (if t = [45] then [(''originalRole'', JStr role)]
         else [(''originalRole'', JStr role), (''blockType'', JStr t)]))),
     cd_dumps = (\<lambda>j. if j = JInt 3 then [51] else case jget ''blockType'' j of JStr t \<Rightarrow> t | _ \<Rightarrow> [45]),
     cd_dumps_ascii = (\<lambda>_. [45]), cd_str = (\<lambda>_. [45])\<rparr>"

lemma sample_reads_back:
  "u_strip t \<noteq> [] \<Longrightarrow> t \<noteq> [51] \<Longrightarrow> t \<noteq> [45] \<Longrightarrow> reads_back (sample_codec r) (role_metadata r t)"
  by (simp add: reads_back_def sample_codec_def role_metadata_def)

lemmas strip_defs = u_strip_def u_lstrip_def u_rstrip_def u_isspace_def cps_def

theorem plain_turn_round_trip_witness:
  "snd (replayed (sample_codec (cps ''assistant'')) (\<lambda>_. []) 1 []
     (plain_message (cps ''assistant'') (JArr (map anthropic_block [Text_Block (cps ''hi''), Call_Block (cps ''c1'') (cps ''grep'') (JInt 3)])))) =
   JArr [text_block (cps ''hi''), JObj [(''type'', JStr (cps ''toolCall'')), (''id'', JStr (cps ''c1'')),
     (''name'', JStr (cps ''grep'')), (''arguments'', JInt 3)]]"
proof -
  let ?r = "cps ''assistant''"
  let ?pbs = "[Text_Block (cps ''hi''), Call_Block (cps ''c1'') (cps ''grep'') (JInt 3)]"
  have meta: "reads_back (sample_codec ?r) (role_metadata ?r (cps t))" if "t \<in> {''text'', ''toolCall'', ''tool_use''}" for t
    using that by (intro sample_reads_back) (auto simp: strip_defs)
  have "reads_back (sample_codec ?r) (JInt 3)"
    by (simp add: reads_back_def sample_codec_def strip_defs)
  with meta have "list_all (plain_ok (sample_codec ?r) ?r) ?pbs" by simp
  then have rt: "replayed (sample_codec ?r) (\<lambda>_. []) 1 [] (plain_message ?r (JArr (map runtime_block ?pbs))) =
      replayed (sample_codec ?r) (\<lambda>_. []) 1 [] (plain_message ?r (JArr (map anthropic_block ?pbs)))
    \<and> fst (replayed (sample_codec ?r) (\<lambda>_. []) 1 [] (plain_message ?r (JArr (map runtime_block ?pbs)))) = ?r
    \<and> snd (replayed (sample_codec ?r) (\<lambda>_. []) 1 [] (plain_message ?r (JArr (map runtime_block ?pbs)))) =
        (if ?r = cps ''user'' \<and> (\<exists>t. ?pbs = [Text_Block t]) then JStr (case hd ?pbs of Text_Block t \<Rightarrow> t)
         else JArr (map runtime_block ?pbs))"
    by (rule plain_turn_round_trip) simp_all
  show ?thesis unfolding conjunct1[OF rt, symmetric] conjunct2[OF conjunct2[OF rt]] by simp
qed

text \<open>
  What does not survive. The writer records the type of a block under the metadata key \<open>blockType\<close>,
  the reader looks for \<open>rawType\<close> and \<open>raw\<close>, which nothing writes.
\<close>

lemma single_block_replay:
  assumes "is_obj b" "jget ''type'' b = JStr t" "t \<noteq> []" "reads_back cd (role_metadata r t)"
    "r \<in> {cps ''user'', cps ''assistant''}"
  shows "replayed cd u mid s (plain_message r (JArr [b])) =
    (let p = part_row u mid (0, part_of_block cd s (plain_message r (JArr [b])) (0, b));
         bl = block_of_columns cd (JObj [(''originalRole'', JStr r)]) p in
     (r, if r = cps ''user'' \<and> jget ''type'' bl = JStr (cps ''text'') \<and> str_of (jget ''text'' bl) \<noteq> None
         then jget ''text'' bl else JArr [bl]))"
proof -
  let ?m = "plain_message r (JArr [b])"
  let ?p = "part_row u mid (0, part_of_block cd s ?m (0, b))"
  have rows: "stored_rows cd u mid s ?m = [?p]"
    by (simp add: stored_rows_def build_message_parts_def)
  have pj: "parse_json cd (mp_metadata ?p) = role_metadata r t"
    unfolding part_row_simps metadata_of_part[OF assms(1-3)] by (rule parse_json_dumps[OF assms(4)])
  have r: "r \<noteq> []" using assms(5) by auto
  have meta: "get_part_metadata cd ?p = JObj [(''originalRole'', JStr r)]"
    unfolding get_part_metadata_def pj by (simp add: role_metadata_def has_key_def r)
  have role: "to_runtime_role cd db [?p] = r" for db
    unfolding to_runtime_role_def get_original_role_def first_some.simps pj
    using assms(5) by (auto simp: role_metadata_def)
  define bl where "bl = block_of_columns cd (JObj [(''originalRole'', JStr r)]) ?p"
  have bfp: "block_from_part cd ?p = bl"
    unfolding block_from_part_def meta by (simp add: bl_def)
  show ?thesis
    unfolding replayed_def rows Let_def role content_from_parts_def list.map bfp bl_def[symmetric] by auto
qed

text \<open>A tool result in a user turn (the Anthropic shape) comes back as a tool call: whatever its content was, the
  assembler rebuilds a block of type \<open>toolCall\<close> with the id of the call it answered and nothing else. And
  a reasoning block of an assistant turn comes back as an empty text.\<close>

theorem stored_result_becomes_call:
  assumes "i \<noteq> []" "reads_back cd (role_metadata (cps ''user'') (cps ''tool_result''))"
    "reads_back cd (role_metadata (cps ''assistant'') (cps ''thinking''))"
  shows "replayed cd u mid s (plain_message (cps ''user'') (JArr [JObj
        [(''type'', JStr (cps ''tool_result'')), (''tool_use_id'', JStr i), (''content'', JStr out)]])) =
      (cps ''user'', JArr [JObj [(''type'', JStr (cps ''toolCall'')), (''id'', JStr i)]])
    \<and> replayed cd u mid s (plain_message (cps ''assistant'') (JArr [JObj
        [(''type'', JStr (cps ''thinking'')), (''thinking'', JStr out)]])) =
      (cps ''assistant'', JArr [text_block []])"
proof
  show "replayed cd u mid s (plain_message (cps ''user'') (JArr [JObj
        [(''type'', JStr (cps ''tool_result'')), (''tool_use_id'', JStr i), (''content'', JStr out)]])) =
      (cps ''user'', JArr [JObj [(''type'', JStr (cps ''toolCall'')), (''id'', JStr i)]])"
    by (subst single_block_replay[OF _ _ _ assms(2)])
      (simp_all add: block_of_columns_def part_defs tool_call_block_from_part_def type_or_def parse_stored_value_def
        entry_if_def nonempty_def assms(1))
  show "replayed cd u mid s (plain_message (cps ''assistant'') (JArr [JObj
        [(''type'', JStr (cps ''thinking'')), (''thinking'', JStr out)]])) =
      (cps ''assistant'', JArr [text_block []])"
    by (subst single_block_replay[OF _ _ _ assms(3)]) (simp_all add: block_of_columns_def part_defs)
qed

theorem stored_result_becomes_call_witness:
  "\<exists>cd. replayed cd (\<lambda>_. []) 1 [] (plain_message (cps ''user'') (JArr [JObj
     [(''type'', JStr (cps ''tool_result'')), (''tool_use_id'', JStr (cps ''c1'')), (''content'', JStr (cps ''42 files''))]])) =
   (cps ''user'', JArr [JObj [(''type'', JStr (cps ''toolCall'')), (''id'', JStr (cps ''c1''))]])"
proof -
  let ?a = "role_metadata (cps ''user'') (cps ''tool_result'')"
  let ?b = "role_metadata (cps ''assistant'') (cps ''thinking'')"
  let ?cd = "\<lparr>cd_loads = (\<lambda>t. if t = [49] then Some ?a else Some ?b), cd_dumps = (\<lambda>j. if j = ?a then [49] else [50]),
    cd_dumps_ascii = (\<lambda>_. []), cd_str = (\<lambda>_. [])\<rparr>"
  have "reads_back ?cd ?a" "reads_back ?cd ?b"
    by (simp_all add: reads_back_def role_metadata_def strip_defs)
  from stored_result_becomes_call[OF _ this, of "cps ''c1''" "\<lambda>_. []" 1 "[]" "cps ''42 files''"] show ?thesis by auto
qed

text \<open>The \<open>tool_calls\<close> of an assistant message in the OpenAI shape are not stored at all.\<close>

lemma openai_tool_calls_dropped:
  assumes "reads_back cd (JObj [(''originalRole'', JStr (cps ''assistant''))])"
  shows "replayed cd u mid s (JObj [(''role'', JStr (cps ''assistant'')), (''content'', JStr t), (''tool_calls'', calls)]) =
    (cps ''assistant'', JArr [text_block t])"
proof -
  let ?m = "JObj [(''role'', JStr (cps ''assistant'')), (''content'', JStr t), (''tool_calls'', calls)]"
  have rows: "stored_rows cd u mid s ?m = [part_row u mid (0, text_part cd s ?m t)]"
    by (simp add: stored_rows_def build_message_parts_def has_key_def)
  have md: "mp_metadata (part_row u mid (0, text_part cd s ?m t)) =
      Some (cd_dumps cd (JObj [(''originalRole'', JStr (cps ''assistant''))]))"
    by (simp add: text_part_def to_json_metadata_def clean_metadata_def role_str_def top_level_is_error_def)
  have pj: "parse_json cd (mp_metadata (part_row u mid (0, text_part cd s ?m t))) =
      JObj [(''originalRole'', JStr (cps ''assistant''))]"
    unfolding md by (rule parse_json_dumps[OF assms])
  have "block_from_part cd (part_row u mid (0, text_part cd s ?m t)) = text_block t"
    unfolding block_from_part_def get_part_metadata_def pj
    by (simp add: has_key_def block_of_columns_def text_part_def)
  then show ?thesis
    unfolding replayed_def rows Let_def to_runtime_role_def get_original_role_def first_some.simps pj
    by (simp add: content_from_parts_def)
qed

end
