(* ===== verification/Transcript_Repair.thy ===== *)
theory Transcript_Repair
  imports Lcm_Prelude "HOL-Library.Multiset"
begin

text \<open>
  The tool use/result pairing repair of \<open>src/lossless_hermes/transcript_repair.py\<close>.

  \<open>normalize_assistant_reasoning_blocks\<close>, \<open>extract_tool_calls_from_assistant\<close>,
  \<open>extract_tool_result_id\<close> and \<open>make_missing_tool_result\<close> are the helpers of the same
  name. The main loop is \<open>repair_loop\<close>, whose state \<open>repair_state\<close> holds the local
  variables of \<open>sanitize_tool_use_result_pairing\<close>; its inner scan over the messages up to
  the next assistant turn is \<open>collect_span\<close>. Where Python returns the same object to
  signal that nothing changed, the model returns a flag next to the value.

  The second half states what the loop computes (\<open>repair_spec\<close>, a direct recursion with
  no state), proves that the loop computes it, and derives the pairing guarantee, the
  preservation of every message that is not a tool result, and idempotence.
\<close>

subsection \<open>Helpers on one message\<close>

definition tool_call_types :: "utext list" where
  "tool_call_types = map cps [''toolCall'', ''toolUse'', ''tool_use'', ''tool-use'', ''functionCall'', ''function_call'']"

definition openai_function_call_types :: "utext list" where
  "openai_function_call_types = map cps [''functionCall'', ''function_call'']"

fun is_type_in :: "utext list \<Rightarrow> json \<Rightarrow> bool" where
  "is_type_in ts (JStr t) = (t \<in> set ts)"
| "is_type_in ts _ = False"

definition is_reasoning_block :: "block \<Rightarrow> bool" where
  "is_reasoning_block b = is_type_in (map cps [''reasoning'', ''thinking'']) (jget ''type'' b)"

definition is_tool_call_block :: "block \<Rightarrow> bool" where
  "is_tool_call_block b = is_type_in tool_call_types (jget ''type'' b)"

definition extract_tool_call_id :: "block \<Rightarrow> utext option" where
  "extract_tool_call_id b =
     (case nonempty_str (jget ''id'' b) of
        Some s \<Rightarrow> Some s
      | None \<Rightarrow> nonempty_str (jget ''call_id'' b))"

text \<open>
  The scan of \<open>_normalize_assistant_reasoning_blocks\<close>. \<open>None\<close> is its early
  \<open>return message\<close>; otherwise the pair of \<open>reasoning_after_tool_call\<close> and
  \<open>function_call_count\<close>.
\<close>

fun scan_blocks :: "block list \<Rightarrow> bool \<Rightarrow> bool \<Rightarrow> nat \<Rightarrow> (bool \<times> nat) option" where
  "scan_blocks [] saw after n = Some (after, n)"
| "scan_blocks (b # bs) saw after n =
     (if \<not> is_obj b then None
      else if is_reasoning_block b then scan_blocks bs saw (if saw then True else after) n
      else if is_tool_call_block b then
        scan_blocks bs True after
          (if is_type_in openai_function_call_types (jget ''type'' b) then n + 1 else n)
      else None)"

definition normalize_assistant_reasoning_blocks :: "message \<Rightarrow> bool \<times> message" where
  "normalize_assistant_reasoning_blocks m =
     (case arr_of (jget ''content'' m) of
        None \<Rightarrow> (False, m)
      | Some content \<Rightarrow>
          (case scan_blocks content False False 0 of
             None \<Rightarrow> (False, m)
           | Some (after, n) \<Rightarrow>
               if \<not> after \<or> n \<noteq> 1 then (False, m)
               else (True, jset ''content''
                      (JArr (filter is_reasoning_block content @ filter is_tool_call_block content)) m)))"

fun tool_call_of_block :: "block \<Rightarrow> (utext \<times> utext option) list" where
  "tool_call_of_block b =
     (if \<not> is_obj b then []
      else case extract_tool_call_id b of
        None \<Rightarrow> []
      | Some cid \<Rightarrow>
          if is_tool_call_block b then [(cid, str_of (jget ''name'' b))] else [])"

definition extract_tool_calls_from_assistant :: "message \<Rightarrow> (utext \<times> utext option) list" where
  "extract_tool_calls_from_assistant m =
     (case arr_of (jget ''content'' m) of
        None \<Rightarrow> []
      | Some content \<Rightarrow> concat (map tool_call_of_block content))"

definition extract_tool_result_id :: "message \<Rightarrow> utext option" where
  "extract_tool_result_id m =
     (case nonempty_str (jget ''toolCallId'' m) of
        Some s \<Rightarrow> Some s
      | None \<Rightarrow> nonempty_str (jget ''toolUseId'' m))"

definition synthetic_marker :: utext where
  "synthetic_marker = cps ''[lossless-claw] missing tool result in session history; inserted synthetic error result for transcript repair.''"

definition make_missing_tool_result :: "utext \<Rightarrow> utext option \<Rightarrow> message" where
  "make_missing_tool_result call_id name = JObj
     [(''role'', JStr (cps ''toolResult'')),
      (''toolCallId'', JStr call_id),
      (''toolName'', JStr (case name of None \<Rightarrow> cps ''unknown'' | Some n \<Rightarrow> n)),
      (''content'', JArr [JObj [(''type'', JStr (cps ''text'')), (''text'', JStr synthetic_marker)]]),
      (''isError'', JBool True)]"

definition is_assistant :: "message \<Rightarrow> bool" where
  "is_assistant m \<longleftrightarrow> is_obj m \<and> jget ''role'' m = JStr (cps ''assistant'')"

definition is_tool_result :: "message \<Rightarrow> bool" where
  "is_tool_result m \<longleftrightarrow> is_obj m \<and> jget ''role'' m = JStr (cps ''toolResult'')"

definition stopped_early :: "message \<Rightarrow> bool" where
  "stopped_early m \<longleftrightarrow>
     jget ''stopReason'' m = JStr (cps ''error'') \<or> jget ''stopReason'' m = JStr (cps ''aborted'')"

subsection \<open>The repair loop\<close>

record repair_state =
  rp_out :: "message list"
  rp_seen :: "utext set"
  rp_dup :: nat
  rp_orphan :: nat
  rp_moved :: bool
  rp_changed :: bool

definition emit :: "message \<Rightarrow> repair_state \<Rightarrow> repair_state" where
  "emit m st = st\<lparr>rp_out := rp_out st @ [m]\<rparr>"

definition note_dup :: "repair_state \<Rightarrow> repair_state" where
  "note_dup st = st\<lparr>rp_dup := rp_dup st + 1, rp_changed := True\<rparr>"

definition note_orphan :: "repair_state \<Rightarrow> repair_state" where
  "note_orphan st = st\<lparr>rp_orphan := rp_orphan st + 1, rp_changed := True\<rparr>"

definition push_tool_result :: "message \<Rightarrow> repair_state \<Rightarrow> repair_state" where
  "push_tool_result m st =
     (case extract_tool_result_id m of
        None \<Rightarrow> emit m st
      | Some r \<Rightarrow>
          if r \<in> rp_seen st then note_dup st
          else emit m (st\<lparr>rp_seen := insert r (rp_seen st)\<rparr>))"

text \<open>
  The inner \<open>while j < n\<close>: the tool results and the other messages up to the next
  assistant turn. The result carries \<open>span_results_by_id\<close>, \<open>remainder\<close>, the counters and
  the messages from position \<open>j\<close> on.
\<close>

fun collect_span ::
  "utext list \<Rightarrow> message list \<Rightarrow> (utext \<times> message) list \<Rightarrow> message list \<Rightarrow> repair_state
   \<Rightarrow> (utext \<times> message) list \<times> message list \<times> repair_state \<times> message list" where
  "collect_span ids [] sp rem st = (sp, rem, st, [])"
| "collect_span ids (m # ms) sp rem st =
     (if \<not> is_obj m then collect_span ids ms sp (rem @ [m]) st
      else if jget ''role'' m = JStr (cps ''assistant'') then (sp, rem, st, m # ms)
      else if jget ''role'' m = JStr (cps ''toolResult'') then
        (case extract_tool_result_id m of
           None \<Rightarrow> collect_span ids ms sp rem (note_orphan st)
         | Some r \<Rightarrow>
             if r \<in> set ids then
               (if r \<in> rp_seen st then collect_span ids ms sp rem (note_dup st)
                else collect_span ids ms
                       (if map_of sp r = None then sp @ [(r, m)] else sp) rem st)
             else collect_span ids ms sp rem (note_orphan st))
      else collect_span ids ms sp (rem @ [m]) st)"

fun push_call :: "(utext \<times> message) list \<Rightarrow> utext \<times> utext option \<Rightarrow> repair_state \<Rightarrow> repair_state" where
  "push_call sp (cid, name) st =
     (case map_of sp cid of
        Some existing \<Rightarrow> push_tool_result existing st
      | None \<Rightarrow>
          push_tool_result (make_missing_tool_result cid name) (st\<lparr>rp_changed := True\<rparr>))"

lemma collect_span_rest:
  "collect_span ids ms sp rem st = (sp', rem', st', rest) \<Longrightarrow>
   rest = dropWhile (\<lambda>m. \<not> is_assistant m) ms"
  by (induction ids ms sp rem st rule: collect_span.induct)
     (auto simp: is_assistant_def split: if_splits option.splits)

lemma collect_span_length:
  "collect_span ids ms sp rem st = (sp', rem', st', rest) \<Longrightarrow> length rest \<le> length ms"
  using collect_span_rest length_dropWhile_le by blast

text \<open>One iteration of the outer \<open>while i < n\<close>: the new state and the messages left.\<close>

definition repair_step :: "message \<Rightarrow> message list \<Rightarrow> repair_state \<Rightarrow> repair_state \<times> message list" where
  "repair_step m ms st =
     (if \<not> is_obj m then (emit m st, ms)
      else if jget ''role'' m \<noteq> JStr (cps ''assistant'') then
        (if jget ''role'' m \<noteq> JStr (cps ''toolResult'') then (emit m st, ms)
         else (note_orphan st, ms))
      else
        let (ch, na) = normalize_assistant_reasoning_blocks m;
            st1 = (if ch then st\<lparr>rp_changed := True\<rparr> else st);
            calls = extract_tool_calls_from_assistant na in
        if stopped_early na then (emit na st1, ms)
        else if calls = [] then (emit na st1, ms)
        else
          (case collect_span (map fst calls) ms [] [] st1 of
             (sp, rem, st2, rest) \<Rightarrow>
               let st3 = emit na st2;
                   st4 = (if sp \<noteq> [] \<and> rem \<noteq> []
                          then st3\<lparr>rp_moved := True, rp_changed := True\<rparr> else st3);
                   st5 = fold (push_call sp) calls st4
               in (fold emit rem st5, rest)))"

lemma repair_step_length: "repair_step m ms st = (st', rest) \<Longrightarrow> length rest \<le> length ms"
  by (auto simp: repair_step_def Let_def split: if_splits prod.splits dest!: collect_span_length)

function repair_loop :: "message list \<Rightarrow> repair_state \<Rightarrow> repair_state" where
  "repair_loop [] st = st"
| "repair_loop (m # ms) st =
     (case repair_step m ms st of (st', rest) \<Rightarrow> repair_loop rest st')"
  by pat_completeness auto
termination
  by (relation "measure (\<lambda>(ms, st). length ms)")
     (auto simp: less_Suc_eq_le dest: repair_step_length [OF sym])

definition init_repair :: repair_state where
  "init_repair = \<lparr>rp_out = [], rp_seen = {}, rp_dup = 0, rp_orphan = 0,
     rp_moved = False, rp_changed = False\<rparr>"

text \<open>The flag tells whether a new list was built (\<open>out\<close>) or the argument returned.\<close>

definition sanitize_tool_use_result_pairing :: "message list \<Rightarrow> bool \<times> message list" where
  "sanitize_tool_use_result_pairing ms =
     (let st = repair_loop ms init_repair in
      if rp_changed st \<or> rp_moved st then (True, rp_out st) else (False, ms))"


subsection \<open>What the loop computes\<close>

text \<open>
  The calls of a turn that still need a result: ids answered in an earlier turn, and
  repetitions of an id inside the turn, get none.
\<close>

fun fresh_calls :: "utext set \<Rightarrow> (utext \<times> utext option) list \<Rightarrow> (utext \<times> utext option) list" where
  "fresh_calls seen [] = []"
| "fresh_calls seen ((c, n) # cs) =
     (if c \<in> seen then fresh_calls seen cs else (c, n) # fresh_calls (insert c seen) cs)"

definition answers :: "utext \<Rightarrow> message \<Rightarrow> bool" where
  "answers c m \<longleftrightarrow> is_tool_result m \<and> extract_tool_result_id m = Some c"

fun result_for :: "message list \<Rightarrow> utext \<times> utext option \<Rightarrow> message" where
  "result_for later (c, n) =
     (case List.find (answers c) later of Some m \<Rightarrow> m | None \<Rightarrow> make_missing_tool_result c n)"

definition span_of :: "message list \<Rightarrow> message list" where
  "span_of ms = takeWhile (\<lambda>m. \<not> is_assistant m) ms"

definition after_span :: "message list \<Rightarrow> message list" where
  "after_span ms = dropWhile (\<lambda>m. \<not> is_assistant m) ms"

definition norm_msg :: "message \<Rightarrow> message" where
  "norm_msg m = (if is_assistant m then snd (normalize_assistant_reasoning_blocks m) else m)"

definition open_calls :: "message \<Rightarrow> (utext \<times> utext option) list" where
  "open_calls m = (if stopped_early m then [] else extract_tool_calls_from_assistant m)"

function repair_spec :: "utext set \<Rightarrow> message list \<Rightarrow> message list" where
  "repair_spec seen [] = []"
| "repair_spec seen (m # ms) =
     (if is_tool_result m then repair_spec seen ms
      else if is_assistant m \<and> open_calls (norm_msg m) \<noteq> [] then
        norm_msg m # map (result_for (span_of ms)) (fresh_calls seen (open_calls (norm_msg m)))
          @ filter (\<lambda>m. \<not> is_tool_result m) (span_of ms)
          @ repair_spec (seen \<union> fst ` set (open_calls (norm_msg m))) (after_span ms)
      else norm_msg m # repair_spec seen ms)"
  by pat_completeness auto
termination
  by (relation "measure (\<lambda>(s, ms). length ms)")
     (auto simp: less_Suc_eq_le after_span_def length_dropWhile_le)

declare repair_spec.simps(2) [simp del]

lemma is_tool_result_not_assistant [simp]: "is_tool_result m \<Longrightarrow> \<not> is_assistant m"
  by (auto simp: is_tool_result_def is_assistant_def)

lemma extract_missing [simp]:
  "c \<noteq> [] \<Longrightarrow> extract_tool_result_id (make_missing_tool_result c n) = Some c"
  by (auto simp: extract_tool_result_id_def make_missing_tool_result_def)

lemma is_tool_result_missing [simp]: "is_tool_result (make_missing_tool_result c n)"
  by (auto simp: is_tool_result_def make_missing_tool_result_def)

lemma extract_tool_call_id_nonempty [simp]:
  "extract_tool_call_id b \<noteq> Some []" "Some [] \<noteq> extract_tool_call_id b"
  by (auto simp: extract_tool_call_id_def split: option.splits dest: sym)

lemma call_ids_nonempty [simp]: "([], n) \<notin> set (extract_tool_calls_from_assistant m)"
  by (auto simp: extract_tool_calls_from_assistant_def split: option.splits if_splits)

lemma open_calls_nonempty [simp]: "([], n) \<notin> set (open_calls m)"
  by (auto simp: open_calls_def split: if_splits)

lemma open_calls_ids_nonempty: "[] \<notin> fst ` set (open_calls m)"
  by auto

lemma fresh_calls_subset: "set (fresh_calls seen cs) \<subseteq> set cs"
  by (induction seen cs rule: fresh_calls.induct) auto

lemma fresh_calls_ids: "fst ` set (fresh_calls seen cs) = fst ` set cs - seen"
  by (induction seen cs rule: fresh_calls.induct) auto

lemma distinct_fresh_calls: "distinct (map fst (fresh_calls seen cs))"
  by (induction seen cs rule: fresh_calls.induct)
     (auto simp: fresh_calls_ids simp flip: image_set)

lemma answers_result_for: "c \<noteq> [] \<Longrightarrow> answers c (result_for later (c, n))"
  by (auto simp: answers_def find_Some_iff split: option.splits)

subsection \<open>The loop computes it\<close>

lemma collect_span_frame:
  "collect_span ids ms sp rem st = (sp', rem', st', rest) \<Longrightarrow>
   rp_out st' = rp_out st \<and> rp_seen st' = rp_seen st"
  by (induction ids ms sp rem st rule: collect_span.induct)
     (auto simp: note_dup_def note_orphan_def split: if_splits option.splits)

lemma collect_span_remainder:
  "collect_span ids ms sp rem st = (sp', rem', st', rest) \<Longrightarrow>
   rem' = rem @ filter (\<lambda>m. \<not> is_tool_result m) (span_of ms)"
  by (induction ids ms sp rem st rule: collect_span.induct)
     (auto simp: span_of_def is_assistant_def is_tool_result_def split: if_splits option.splits)

lemma collect_span_results:
  "collect_span ids ms sp rem st = (sp', rem', st', rest) \<Longrightarrow>
   c \<in> set ids \<Longrightarrow> c \<notin> rp_seen st \<Longrightarrow>
   map_of sp' c = (case map_of sp c of Some m \<Rightarrow> Some m | None \<Rightarrow> List.find (answers c) (span_of ms))"
  by (induction ids ms sp rem st rule: collect_span.induct)
     (auto simp: span_of_def is_assistant_def is_tool_result_def answers_def note_dup_def
                 note_orphan_def map_add_def
           split: if_splits option.splits)

lemma push_call_found:
  assumes "\<And>m. map_of sp c = Some m \<Longrightarrow> extract_tool_result_id m = Some c" "c \<noteq> []"
  shows "rp_out (push_call sp (c, n) st) = rp_out st @
           (if c \<in> rp_seen st then []
            else [case map_of sp c of Some m \<Rightarrow> m | None \<Rightarrow> make_missing_tool_result c n])"
    and "rp_seen (push_call sp (c, n) st) = insert c (rp_seen st)"
  using assms by (auto simp: push_tool_result_def emit_def note_dup_def split: option.splits)


declare push_call.simps [simp del]

lemma fold_push_call:
  assumes "\<And>c n m. (c, n) \<in> set cs \<Longrightarrow> map_of sp c = Some m \<Longrightarrow> extract_tool_result_id m = Some c"
    and "[] \<notin> fst ` set cs"
  shows "rp_out (fold (push_call sp) cs st) = rp_out st @
           map (\<lambda>(c, n). case map_of sp c of Some m \<Rightarrow> m | None \<Rightarrow> make_missing_tool_result c n)
             (fresh_calls (rp_seen st) cs) \<and>
         rp_seen (fold (push_call sp) cs st) = rp_seen st \<union> fst ` set cs"
  using assms
proof (induction cs arbitrary: st)
  case Nil
  then show ?case by simp
next
  case (Cons p cs)
  obtain c n where p: "p = (c, n)" by fastforce
  have ids: "extract_tool_result_id m = Some c" if "map_of sp c = Some m" for m
    using Cons.prems(1) [of c n] that by (auto simp: p)
  have ne: "c \<noteq> []" using Cons.prems(2) by (auto simp: p)
  have push: "rp_out (push_call sp (c, n) st) = rp_out st @
           (if c \<in> rp_seen st then []
            else [case map_of sp c of Some m \<Rightarrow> m | None \<Rightarrow> make_missing_tool_result c n])"
    "rp_seen (push_call sp (c, n) st) = insert c (rp_seen st)"
    using push_call_found [of sp c n st] ids ne by blast+
  have rest: "rp_out (fold (push_call sp) cs (push_call sp p st)) = rp_out (push_call sp p st) @
           map (\<lambda>(c, n). case map_of sp c of Some m \<Rightarrow> m | None \<Rightarrow> make_missing_tool_result c n)
             (fresh_calls (rp_seen (push_call sp p st)) cs) \<and>
         rp_seen (fold (push_call sp) cs (push_call sp p st)) = rp_seen (push_call sp p st) \<union> fst ` set cs"
    by (rule Cons.IH) (use Cons.prems in auto)
  show ?case
    using rest by (auto simp: p push insert_absorb)
qed

lemma fold_emit: "rp_out (fold emit ms st) = rp_out st @ ms \<and> rp_seen (fold emit ms st) = rp_seen st"
  by (induction ms arbitrary: st) (auto simp: emit_def)

lemma is_assistant_norm [simp]: "is_assistant (norm_msg m) = is_assistant m"
  by (auto simp: norm_msg_def is_assistant_def normalize_assistant_reasoning_blocks_def
           split: option.splits)

lemma is_tool_result_norm [simp]: "is_tool_result (norm_msg m) = is_tool_result m"
  by (auto simp: norm_msg_def is_tool_result_def is_assistant_def
                 normalize_assistant_reasoning_blocks_def split: option.splits)

text \<open>What one iteration appends to the output, and the ids it marks as answered.\<close>

definition step_output :: "utext set \<Rightarrow> message \<Rightarrow> message list \<Rightarrow> message list" where
  "step_output seen m ms =
     (if is_tool_result m then []
      else if is_assistant m \<and> open_calls (norm_msg m) \<noteq> [] then
        norm_msg m # map (result_for (span_of ms)) (fresh_calls seen (open_calls (norm_msg m)))
          @ filter (\<lambda>m. \<not> is_tool_result m) (span_of ms)
      else [norm_msg m])"

definition has_open_calls :: "message \<Rightarrow> bool" where
  "has_open_calls m \<longleftrightarrow> is_assistant m \<and> open_calls (norm_msg m) \<noteq> []"

lemma repair_spec_step:
  "repair_spec seen (m # ms) = step_output seen m ms @
     (if has_open_calls m
      then repair_spec (seen \<union> fst ` set (open_calls (norm_msg m))) (after_span ms)
      else repair_spec seen ms)"
  by (simp add: repair_spec.simps step_output_def has_open_calls_def)

lemma repair_step_plain:
  assumes "\<not> has_open_calls m" and "repair_step m ms st = (st', rest)"
  shows "rp_out st' = rp_out st @ step_output (rp_seen st) m ms \<and> rp_seen st' = rp_seen st \<and> rest = ms"
  using assms
  by (auto simp: repair_step_def step_output_def has_open_calls_def emit_def note_orphan_def
                 is_assistant_def is_tool_result_def norm_msg_def open_calls_def Let_def
           split: if_splits prod.splits)


lemma map_of_span_answers:
  assumes "collect_span ids ms [] [] st = (sp, rem, st', rest)"
    and "c \<in> set ids" and "c \<notin> rp_seen st" and "map_of sp c = Some m"
  shows "extract_tool_result_id m = Some c"
  using collect_span_results [OF assms(1-3)] assms(4)
  by (auto simp: answers_def dest: find_SomeD find_SomeD [OF sym])

lemma collect_span_seen_unused:
  "collect_span ids ms sp rem st = (sp', rem', st', rest) \<Longrightarrow>
   c \<in> rp_seen st \<Longrightarrow> map_of sp' c = map_of sp c"
  by (induction ids ms sp rem st rule: collect_span.induct)
     (auto simp: note_dup_def note_orphan_def map_add_def split: if_splits option.splits)

lemma repair_step_turn:
  assumes open_m: "has_open_calls m" and step: "repair_step m ms st = (st', rest)"
  shows "rp_out st' = rp_out st @ step_output (rp_seen st) m ms \<and>
         rp_seen st' = rp_seen st \<union> fst ` set (open_calls (norm_msg m)) \<and> rest = after_span ms"
proof -
  obtain ch na where na: "normalize_assistant_reasoning_blocks m = (ch, na)" by fastforce
  define calls where "calls = extract_tool_calls_from_assistant na"
  define st1 where "st1 = (if ch then st\<lparr>rp_changed := True\<rparr> else st)"
  have m: "is_assistant m" "norm_msg m = na" "\<not> stopped_early na" "calls \<noteq> []" "open_calls na = calls"
    using open_m na by (auto simp: has_open_calls_def norm_msg_def open_calls_def calls_def split: if_splits)
  have st1: "rp_out st1 = rp_out st" "rp_seen st1 = rp_seen st" by (auto simp: st1_def)
  obtain sp rem st2 r2 where cs: "collect_span (map fst calls) ms [] [] st1 = (sp, rem, st2, r2)"
    by (metis prod_cases4)
  define st3 where "st3 = emit na st2"
  define st4 where "st4 = (if sp \<noteq> [] \<and> rem \<noteq> []
                          then st3\<lparr>rp_moved := True, rp_changed := True\<rparr> else st3)"
  have step': "st' = fold emit rem (fold (push_call sp) calls st4)" "rest = r2"
    using step m(1,3,4) na cs
    by (auto simp: repair_step_def is_assistant_def Let_def st1_def [symmetric]
                   calls_def [symmetric] st4_def st3_def)
  have st4: "rp_out st4 = rp_out st @ [na]" "rp_seen st4 = rp_seen st"
    using collect_span_frame [OF cs] st1 by (auto simp: st4_def st3_def emit_def)
  have found: "extract_tool_result_id x = Some c" if "(c, n) \<in> set calls" "map_of sp c = Some x" for c n x
    using that map_of_span_answers [OF cs, of c x] collect_span_seen_unused [OF cs, of c] st1(2)
    by (cases "c \<in> rp_seen st") force+
  have push: "rp_out (fold (push_call sp) calls st4) = rp_out st4 @
           map (\<lambda>(c, n). case map_of sp c of Some m \<Rightarrow> m | None \<Rightarrow> make_missing_tool_result c n)
             (fresh_calls (rp_seen st4) calls) \<and>
         rp_seen (fold (push_call sp) calls st4) = rp_seen st4 \<union> fst ` set calls"
    by (rule fold_push_call) (use found open_calls_ids_nonempty [of na] m(5) in auto)
  have results: "map (\<lambda>(c, n). case map_of sp c of Some m \<Rightarrow> m | None \<Rightarrow> make_missing_tool_result c n)
             (fresh_calls (rp_seen st) calls) = map (result_for (span_of ms)) (fresh_calls (rp_seen st) calls)"
  proof (rule map_cong [OF refl], clarify)
    fix c n assume cn: "(c, n) \<in> set (fresh_calls (rp_seen st) calls)"
    then have "c \<in> fst ` set (fresh_calls (rp_seen st) calls)" by force
    then have c: "c \<in> set (map fst calls)" "c \<notin> rp_seen st1" by (auto simp: fresh_calls_ids st1)
    show "(case map_of sp c of Some m \<Rightarrow> m | None \<Rightarrow> make_missing_tool_result c n) = result_for (span_of ms) (c, n)"
      using collect_span_results [OF cs c] by simp
  qed
  show ?thesis
    using push results st4 collect_span_remainder [OF cs] collect_span_rest [OF cs] m open_m
    by (auto simp: step' fold_emit step_output_def after_span_def has_open_calls_def)
qed

theorem repair_loop_spec: "rp_out (repair_loop ms st) = rp_out st @ repair_spec (rp_seen st) ms"
proof (induction ms st rule: repair_loop.induct)
  case (1 st)
  then show ?case by simp
next
  case (2 m ms st)
  obtain st' rest where step: "repair_step m ms st = (st', rest)" by fastforce
  have IH: "rp_out (repair_loop rest st') = rp_out st' @ repair_spec (rp_seen st') rest"
    by (rule "2.IH") (simp_all add: step)
  show ?case
    using IH repair_step_turn [OF _ step] repair_step_plain [OF _ step]
    by (cases "has_open_calls m") (simp_all add: step repair_spec_step)
qed


subsection \<open>Shape of the result\<close>

lemma after_span_cases:
  obtains "after_span ms = []" | a rest where "after_span ms = a # rest" "is_assistant a"
  by (cases "after_span ms")
     (auto simp: after_span_def dropWhile_eq_Cons_conv)

lemma repair_spec_Cons_result:
  "\<not> is_tool_result m \<Longrightarrow> \<exists>tl. repair_spec seen (m # ms) = norm_msg m # tl"
  by (auto simp: repair_spec.simps(2))

lemma repair_spec_after_span:
  obtains "repair_spec seen (after_span ms) = []"
  | a tl where "repair_spec seen (after_span ms) = a # tl" "is_assistant a"
proof (rule after_span_cases [of ms])
  fix a rest assume a: "after_span ms = a # rest" "is_assistant a"
  then have "\<not> is_tool_result a" by auto
  from repair_spec_Cons_result [OF this, of seen rest] a that(2) show ?thesis by auto
qed (use that(1) in auto)

lemma span_of_no_assistant: "x \<in> set (span_of ms) \<Longrightarrow> \<not> is_assistant x"
  by (auto simp: span_of_def dest: set_takeWhileD)

lemma span_append: "span_of ms @ after_span ms = ms"
  by (simp add: span_of_def after_span_def)

definition results_of :: "utext set \<Rightarrow> message \<Rightarrow> message list \<Rightarrow> message list" where
  "results_of seen m ms = map (result_for (span_of ms)) (fresh_calls seen (open_calls (norm_msg m)))"

lemma results_ids:
  "map extract_tool_result_id (results_of seen m ms) = map (Some \<circ> fst) (fresh_calls seen (open_calls (norm_msg m)))"
proof -
  have "extract_tool_result_id (result_for later p) = Some (fst p)"
    if "p \<in> set (fresh_calls seen (open_calls (norm_msg m)))" for p later
  proof (cases p)
    case (Pair c n)
    with that fresh_calls_subset have "(c, n) \<in> set (open_calls (norm_msg m))" by blast
    then have "c \<noteq> []" by auto
    from answers_result_for [OF this, of later n] Pair show ?thesis by (simp add: answers_def)
  qed
  then show ?thesis by (simp add: results_of_def)
qed

lemma results_tool: "x \<in> set (results_of seen m ms) \<Longrightarrow> is_tool_result x"
  by (auto simp: results_of_def split: option.splits dest!: find_SomeD) (simp add: answers_def)

lemma repair_spec_turn:
  "has_open_calls m \<Longrightarrow> repair_spec seen (m # ms) =
     norm_msg m # results_of seen m ms @ filter (\<lambda>x. \<not> is_tool_result x) (span_of ms)
       @ repair_spec (seen \<union> fst ` set (open_calls (norm_msg m))) (after_span ms)"
  by (auto simp: repair_spec.simps(2) has_open_calls_def results_of_def)

lemma repair_spec_plain:
  "\<not> has_open_calls m \<Longrightarrow> repair_spec seen (m # ms) =
     (if is_tool_result m then [] else [norm_msg m]) @ repair_spec seen ms"
  by (auto simp: repair_spec.simps(2) has_open_calls_def)

lemma repair_spec_induct [case_names Nil turn plain]:
  assumes "\<And>seen. P seen []"
    and "\<And>seen m ms. has_open_calls m \<Longrightarrow>
           P (seen \<union> fst ` set (open_calls (norm_msg m))) (after_span ms) \<Longrightarrow> P seen (m # ms)"
    and "\<And>seen m ms. \<not> has_open_calls m \<Longrightarrow> P seen ms \<Longrightarrow> P seen (m # ms)"
  shows "P seen ms"
proof (induction ms arbitrary: seen rule: length_induct)
  case (1 xs)
  show ?case
  proof (cases xs)
    case Nil
    then show ?thesis using assms(1) by simp
  next
    case (Cons m ms)
    have "length (after_span ms) < length xs" "length ms < length xs"
      by (auto simp: Cons after_span_def less_Suc_eq_le length_dropWhile_le)
    with 1 show ?thesis using assms(2,3) Cons by (cases "has_open_calls m") auto
  qed
qed

text \<open>
  A transcript a provider accepts: every assistant turn is followed at once by the results
  of its calls, in some order and nothing else in between, and no tool result stands
  anywhere else.
\<close>

function properly_paired :: "utext set \<Rightarrow> message list \<Rightarrow> bool" where
  "properly_paired seen [] \<longleftrightarrow> True"
| "properly_paired seen (m # ms) \<longleftrightarrow>
     (if is_assistant m \<and> open_calls m \<noteq> [] then
        mset (map extract_tool_result_id (takeWhile is_tool_result ms)) =
          mset (map (Some \<circ> fst) (fresh_calls seen (open_calls m))) \<and>
        properly_paired (seen \<union> fst ` set (open_calls m)) (dropWhile is_tool_result ms)
      else \<not> is_tool_result m \<and> properly_paired seen ms)"
  by pat_completeness auto
termination
  by (relation "measure (\<lambda>(s, ms). length ms)")
     (auto simp: less_Suc_eq_le length_dropWhile_le)

declare properly_paired.simps(2) [simp del]

lemma properly_paired_skip:
  "(\<And>x. x \<in> set xs \<Longrightarrow> \<not> is_assistant x \<and> \<not> is_tool_result x) \<Longrightarrow>
   properly_paired seen (xs @ ys) = properly_paired seen ys"
  by (induction xs) (auto simp: properly_paired.simps(2))

lemma takeWhile_not_hd: "(xs = [] \<or> \<not> P (hd xs)) \<Longrightarrow> takeWhile P xs = [] \<and> dropWhile P xs = xs"
  by (cases xs) auto

lemma repair_spec_paired: "properly_paired seen (repair_spec seen ms)"
proof (induction seen ms rule: repair_spec_induct)
  case (turn seen m ms)
  define R where "R = results_of seen m ms"
  define F where "F = filter (\<lambda>x. \<not> is_tool_result x) (span_of ms)"
  define S where "S = repair_spec (seen \<union> fst ` set (open_calls (norm_msg m))) (after_span ms)"
  have F: "\<not> is_tool_result x \<and> \<not> is_assistant x" if "x \<in> set F" for x
    using that by (auto simp: F_def span_of_no_assistant)
  have S_hd: "S = [] \<or> \<not> is_tool_result (hd S)"
    by (rule repair_spec_after_span [of _ ms]) (auto simp: S_def)
  have "F @ S = [] \<or> \<not> is_tool_result (hd (F @ S))"
    using F S_hd by (cases F) auto
  note FS = takeWhile_not_hd [where P = is_tool_result, OF this]
  have R: "takeWhile is_tool_result (R @ F @ S) = R" "dropWhile is_tool_result (R @ F @ S) = F @ S"
    using FS results_tool [of _ seen m ms] by (auto simp: R_def takeWhile_all dropWhile_all)
  have "properly_paired (seen \<union> fst ` set (open_calls (norm_msg m))) (F @ S)"
    using turn.IH F by (subst properly_paired_skip) (auto simp: S_def)
  then show ?case
    using R turn.hyps results_ids [of seen m ms]
    by (simp add: repair_spec_turn properly_paired.simps(2) has_open_calls_def
                  R_def [symmetric] F_def [symmetric] S_def [symmetric])
next
  case (plain seen m ms)
  then show ?case
    by (auto simp: repair_spec_plain properly_paired.simps(2) has_open_calls_def)
qed simp

lemma filter_repair_spec:
  "filter (\<lambda>x. \<not> is_tool_result x) (repair_spec seen ms) =
   map norm_msg (filter (\<lambda>x. \<not> is_tool_result x) ms)"
proof (induction seen ms rule: repair_spec_induct)
  case (turn seen m ms)
  have no_res: "filter (\<lambda>x. \<not> is_tool_result x) (results_of seen m ms) = []"
    using results_tool by (auto simp: filter_empty_conv)
  have norm_span: "map norm_msg (filter (\<lambda>x. \<not> is_tool_result x) (span_of ms)) =
      filter (\<lambda>x. \<not> is_tool_result x) (span_of ms)"
    by (rule map_idI) (auto simp: norm_msg_def span_of_no_assistant)
  have m: "\<not> is_tool_result m"
    using turn.hyps is_tool_result_not_assistant by (auto simp: has_open_calls_def)
  have split: "filter (\<lambda>x. \<not> is_tool_result x) ms =
      filter (\<lambda>x. \<not> is_tool_result x) (span_of ms) @ filter (\<lambda>x. \<not> is_tool_result x) (after_span ms)"
    by (metis span_append filter_append)
  show ?case
    using turn.IH turn.hyps no_res norm_span m split by (simp add: repair_spec_turn)
next
  case (plain seen m ms)
  then show ?case by (auto simp: repair_spec_plain)
qed simp


subsection \<open>When nothing is reported as changed\<close>

lemma collect_span_quiet:
  "collect_span ids ms sp rem st = (sp', rem', st', rest) \<Longrightarrow> \<not> rp_changed st' \<Longrightarrow>
   \<not> rp_changed st \<and>
   (\<forall>x \<in> set (span_of ms). is_tool_result x \<longrightarrow>
      (\<exists>r. extract_tool_result_id x = Some r \<and> r \<in> set ids \<and> r \<notin> rp_seen st))"
  by (induction ids ms sp rem st rule: collect_span.induct)
     (auto simp: span_of_def is_assistant_def is_tool_result_def note_dup_def note_orphan_def
           split: if_splits option.splits)

lemma push_call_quiet:
  assumes "\<not> rp_changed (push_call sp (c, n) st)"
    and "\<And>m. map_of sp c = Some m \<Longrightarrow> extract_tool_result_id m = Some c" and "c \<noteq> []"
  shows "\<not> rp_changed st \<and> map_of sp c \<noteq> None \<and> c \<notin> rp_seen st"
  using assms
  by (auto simp: push_call.simps push_tool_result_def emit_def note_dup_def
           split: option.splits if_splits)

lemma fold_push_call_quiet:
  assumes "\<not> rp_changed (fold (push_call sp) cs st)"
    and "\<And>c n m. (c, n) \<in> set cs \<Longrightarrow> map_of sp c = Some m \<Longrightarrow> extract_tool_result_id m = Some c"
    and "[] \<notin> fst ` set cs"
  shows "\<not> rp_changed st \<and> (\<forall>c \<in> fst ` set cs. map_of sp c \<noteq> None) \<and> fresh_calls (rp_seen st) cs = cs"
  using assms
proof (induction cs arbitrary: st)
  case Nil
  then show ?case by simp
next
  case (Cons p cs)
  obtain c n where p: "p = (c, n)" by fastforce
  have c: "\<And>m. map_of sp c = Some m \<Longrightarrow> extract_tool_result_id m = Some c" "c \<noteq> []"
    using Cons.prems(2) [of c n] Cons.prems(3) by (auto simp: p)
  have IH: "\<not> rp_changed (push_call sp p st) \<and> (\<forall>c \<in> fst ` set cs. map_of sp c \<noteq> None) \<and>
      fresh_calls (rp_seen (push_call sp p st)) cs = cs"
    using Cons.prems by (intro Cons.IH) auto
  then have "\<not> rp_changed st \<and> map_of sp c \<noteq> None \<and> c \<notin> rp_seen st"
    using push_call_quiet [of sp c n st] c by (simp add: p)
  moreover have "rp_seen (push_call sp p st) = insert c (rp_seen st)"
    using push_call_found [of sp c n st] c by (simp add: p)
  ultimately show ?case using IH by (auto simp: p)
qed

lemma fold_emit_changed [simp]: "rp_changed (fold emit ms st) = rp_changed st"
  by (induction ms arbitrary: st) (auto simp: emit_def)

lemma repair_step_plain_quiet:
  assumes "\<not> has_open_calls m" "repair_step m ms st = (st', rest)" "\<not> rp_changed st'"
  shows "\<not> rp_changed st \<and> \<not> is_tool_result m \<and> norm_msg m = m \<and> rest = ms \<and> rp_seen st' = rp_seen st"
  using assms
  by (auto simp: repair_step_def has_open_calls_def emit_def note_orphan_def is_assistant_def
                 is_tool_result_def norm_msg_def open_calls_def Let_def
                 normalize_assistant_reasoning_blocks_def
           split: if_splits prod.splits option.splits)

lemma repair_step_turn_quiet:
  assumes open_m: "has_open_calls m" and step: "repair_step m ms st = (st', rest)"
    and quiet: "\<not> rp_changed st'"
  defines "calls \<equiv> open_calls m"
  shows "\<not> rp_changed st \<and> norm_msg m = m \<and> fresh_calls (rp_seen st) calls = calls \<and>
         (\<forall>x \<in> set (span_of ms). is_tool_result x \<and>
            (\<exists>r \<in> fst ` set calls. extract_tool_result_id x = Some r)) \<and>
         (\<forall>c \<in> fst ` set calls. \<exists>x \<in> set (span_of ms). extract_tool_result_id x = Some c)"
proof -
  obtain ch na where na: "normalize_assistant_reasoning_blocks m = (ch, na)" by fastforce
  define st1 where "st1 = (if ch then st\<lparr>rp_changed := True\<rparr> else st)"
  define cs where "cs = extract_tool_calls_from_assistant na"
  have m: "is_assistant m" "norm_msg m = na" "\<not> stopped_early na" "cs \<noteq> []" "open_calls na = cs"
    using open_m na by (auto simp: has_open_calls_def norm_msg_def open_calls_def cs_def split: if_splits)
  obtain sp rem st2 r2 where span: "collect_span (map fst cs) ms [] [] st1 = (sp, rem, st2, r2)"
    by (metis prod_cases4)
  define st4 where "st4 = (if sp \<noteq> [] \<and> rem \<noteq> []
                          then (emit na st2)\<lparr>rp_moved := True, rp_changed := True\<rparr> else emit na st2)"
  have "st' = fold emit rem (fold (push_call sp) cs st4)"
    using step m(1,3,4) na span
    by (auto simp: repair_step_def is_assistant_def Let_def st1_def [symmetric] cs_def [symmetric] st4_def)
  with quiet have q: "\<not> rp_changed (fold (push_call sp) cs st4)" by simp
  have seen: "rp_seen st1 = rp_seen st" "rp_seen st4 = rp_seen st"
    using collect_span_frame [OF span] by (auto simp: st1_def st4_def emit_def)
  have found: "extract_tool_result_id x = Some c" if "(c, n) \<in> set cs" "map_of sp c = Some x" for c n x
    using that map_of_span_answers [OF span, of c x] collect_span_seen_unused [OF span, of c]
    by (cases "c \<in> rp_seen st1") force+
  have fp: "\<not> rp_changed st4 \<and> (\<forall>c \<in> fst ` set cs. map_of sp c \<noteq> None) \<and> fresh_calls (rp_seen st4) cs = cs"
    by (rule fold_push_call_quiet [OF q]) (use found open_calls_ids_nonempty [of na] m(5) in auto)
  have "sp \<noteq> []" using fp m(4) by (cases cs) auto
  with fp have sp_rem: "rem = []" and q2: "\<not> rp_changed st2"
    by (auto simp: st4_def emit_def split: if_splits)
  have q1: "\<not> rp_changed st1" using collect_span_quiet [OF span q2] by simp
  then have same: "na = m" "\<not> rp_changed st"
    using na by (auto simp: st1_def normalize_assistant_reasoning_blocks_def split: if_splits option.splits prod.splits)
  have "filter (\<lambda>m. \<not> is_tool_result m) (span_of ms) = []"
    using collect_span_remainder [OF span] sp_rem by simp
  then have all_res: "is_tool_result x" if "x \<in> set (span_of ms)" for x
    using that unfolding filter_empty_conv by blast
  have hit: "\<exists>x \<in> set (span_of ms). extract_tool_result_id x = Some c" if "c \<in> fst ` set cs" for c
  proof -
    have "c \<notin> rp_seen st1" using fp that fresh_calls_ids [of "rp_seen st" cs] seen by auto
    with collect_span_results [OF span] that have "map_of sp c = List.find (answers c) (span_of ms)" by simp
    moreover have "map_of sp c \<noteq> None" using fp that by auto
    ultimately obtain x where "List.find (answers c) (span_of ms) = Some x" by force
    then show ?thesis by (auto simp: answers_def dest!: find_SomeD)
  qed
  show ?thesis
    using same fp seen all_res hit collect_span_quiet [OF span q2] m
    by (fastforce simp: calls_def)
qed


definition result_ids :: "message list \<Rightarrow> utext list" where
  "result_ids ms = List.map_filter extract_tool_result_id (filter is_tool_result ms)"

lemma result_ids_append: "result_ids (xs @ ys) = result_ids xs @ result_ids ys"
  by (simp add: result_ids_def List.map_filter_def)

lemma repair_loop_changed_mono:
  "\<not> rp_changed (repair_loop ms st) \<Longrightarrow> \<not> rp_changed st"
proof (induction ms st rule: repair_loop.induct)
  case (2 m ms st)
  obtain st' rest where step: "repair_step m ms st = (st', rest)" by fastforce
  have "\<not> rp_changed (repair_loop rest st')" using "2.prems" step by simp
  then have "\<not> rp_changed st'" by (rule "2.IH" [OF step [symmetric]])
  note quiet = this
  show ?case
  proof (cases "has_open_calls m")
    case True
    from repair_step_turn_quiet [OF True step quiet] show ?thesis by simp
  next
    case False
    from repair_step_plain_quiet [OF False step quiet] show ?thesis by simp
  qed
qed simp

lemma quiet_repair_paired:
  "\<not> rp_changed (repair_loop ms st) \<Longrightarrow> distinct (result_ids ms) \<Longrightarrow> properly_paired (rp_seen st) ms"
proof (induction ms st rule: repair_loop.induct)
  case (2 m ms st)
  obtain st' rest where step: "repair_step m ms st = (st', rest)" by fastforce
  have quiet: "\<not> rp_changed (repair_loop rest st')" using "2.prems" step by simp
  note quiet' = repair_loop_changed_mono [OF quiet]
  have IH: "distinct (result_ids rest) \<Longrightarrow> properly_paired (rp_seen st') rest"
    by (rule "2.IH" [OF step [symmetric] quiet])
  have ms: "ms = span_of ms @ after_span ms" by (simp add: span_append)
  have dist: "distinct (result_ids ms)" using "2.prems"(2) result_ids_append [of "[m]" ms] by simp
  then have dist': "distinct (result_ids (after_span ms))" "distinct (result_ids (span_of ms))"
    by (metis ms result_ids_append distinct_append)+
  show ?case
  proof (cases "has_open_calls m")
    case False
    from repair_step_plain_quiet [OF False step quiet'] IH dist False
    show ?thesis by (auto simp: properly_paired.simps(2) has_open_calls_def)
  next
    case True
    let ?calls = "open_calls m" and ?span = "span_of ms"
    note tq = repair_step_turn_quiet [OF True step quiet']
    note out = repair_step_turn [OF True step]
    have all_res: "filter is_tool_result ?span = ?span" using tq by (auto simp: filter_id_conv)
    have some: "map extract_tool_result_id ?span = map Some (result_ids ?span)"
      unfolding result_ids_def all_res using tq by (intro map_Some_map_filter [symmetric]) auto
    have "set (result_ids ?span) = fst ` set ?calls"
    proof -
      define F where "F = fst ` set ?calls"
      have "\<forall>x \<in> set ?span. \<exists>r \<in> F. extract_tool_result_id x = Some r"
        and "\<forall>c \<in> F. \<exists>x \<in> set ?span. extract_tool_result_id x = Some c"
        using tq by (simp_all add: F_def)
      then show ?thesis
        unfolding result_ids_def all_res set_map_filter F_def [symmetric] by (auto; metis option.inject)
    qed
    moreover have "distinct (map fst ?calls)" using tq distinct_fresh_calls by metis
    ultimately have "mset (result_ids ?span) = mset (map fst ?calls)"
      using dist'(2) by (simp add: set_eq_iff_mset_eq_distinct flip: set_map)
    then have "mset (map Some (result_ids ?span)) = mset (map Some (map fst ?calls))"
      by (simp only: mset_map)
    moreover have "takeWhile is_tool_result ms = ?span" "dropWhile is_tool_result ms = after_span ms"
    proof -
      have "after_span ms = [] \<or> \<not> is_tool_result (hd (after_span ms))"
        by (rule after_span_cases [of ms]) auto
      note takeWhile_not_hd [where P = is_tool_result, OF this]
      then show "takeWhile is_tool_result ms = ?span" "dropWhile is_tool_result ms = after_span ms"
        using tq by (metis ms takeWhile_all append_Nil2, metis ms dropWhile_all)
    qed
    moreover have "properly_paired (rp_seen st \<union> fst ` set ?calls) (after_span ms)"
      using IH dist' out tq by simp
    ultimately show ?thesis
      using True tq some by (simp add: properly_paired.simps(2) has_open_calls_def flip: map_map)
  qed
qed simp


lemma quiet_norm:
  "\<not> rp_changed (repair_loop ms st) \<Longrightarrow> x \<in> set ms \<Longrightarrow> norm_msg x = x"
proof (induction ms st rule: repair_loop.induct)
  case (2 m ms st)
  obtain st' rest where step: "repair_step m ms st = (st', rest)" by fastforce
  have quiet: "\<not> rp_changed (repair_loop rest st')" using "2.prems" step by simp
  note quiet' = repair_loop_changed_mono [OF quiet]
  have IH: "x \<in> set rest \<Longrightarrow> norm_msg x = x"
    by (rule "2.IH" [OF step [symmetric] quiet])
  show ?case
  proof (cases "has_open_calls m")
    case False
    from repair_step_plain_quiet [OF False step quiet'] IH "2.prems"(2) show ?thesis by auto
  next
    case True
    have "x \<in> set (span_of ms) \<union> set (after_span ms)" if "x \<in> set ms"
      using that by (metis span_append set_append)
    then show ?thesis
      using repair_step_turn [OF True step] repair_step_turn_quiet [OF True step quiet'] IH "2.prems"(2)
            span_of_no_assistant [of x ms]
      by (auto simp: norm_msg_def)
  qed
qed simp

lemma sanitize_cases:
  obtains "sanitize_tool_use_result_pairing ms = (True, repair_spec {} ms)"
  | "sanitize_tool_use_result_pairing ms = (False, ms)" "\<not> rp_changed (repair_loop ms init_repair)"
  using repair_loop_spec [of ms init_repair]
  by (cases "rp_changed (repair_loop ms init_repair) \<or> rp_moved (repair_loop ms init_repair)")
     (auto simp: sanitize_tool_use_result_pairing_def Let_def init_repair_def)


subsection \<open>Repairing twice\<close>

lemma tool_call_block_not_reasoning: "is_tool_call_block b \<Longrightarrow> \<not> is_reasoning_block b"
  unfolding is_tool_call_block_def is_reasoning_block_def tool_call_types_def
  by (cases "jget ''type'' b") auto

lemma scan_reasoning_then_calls:
  "(\<And>b. b \<in> set rs \<Longrightarrow> is_obj b \<and> is_reasoning_block b) \<Longrightarrow>
   (\<And>b. b \<in> set cs \<Longrightarrow> is_obj b \<and> is_tool_call_block b) \<Longrightarrow>
   \<exists>k. scan_blocks (rs @ cs) False False n = Some (False, k)"
proof (induction rs)
  case Nil
  have "\<exists>k. scan_blocks cs saw False n = Some (False, k)" for saw n
    using Nil(2)
  proof (induction cs arbitrary: saw n)
    case (Cons b bs)
    then have "is_obj b" "is_tool_call_block b" "\<not> is_reasoning_block b"
      by (auto simp: tool_call_block_not_reasoning)
    with Cons show ?case by simp
  qed simp
  then show ?case by simp
qed auto

lemma scan_blocks_objects: "scan_blocks bs saw a n = Some r \<Longrightarrow> b \<in> set bs \<Longrightarrow> is_obj b"
  by (induction bs saw a n rule: scan_blocks.induct) (auto split: if_splits)

lemma norm_msg_idem [simp]: "norm_msg (norm_msg m) = norm_msg m"
proof (cases "is_assistant m")
  case False
  then show ?thesis by (simp add: norm_msg_def)
next
  case True
  then have obj: "is_obj m" by (simp add: is_assistant_def)
  show ?thesis
  proof (cases "fst (normalize_assistant_reasoning_blocks m)")
    case False
    then have "norm_msg m = m"
      by (auto simp: norm_msg_def normalize_assistant_reasoning_blocks_def split: option.splits if_splits)
    then show ?thesis by simp
  next
    case changed: True
    then obtain content r where c: "arr_of (jget ''content'' m) = Some content"
        and r: "scan_blocks content False False 0 = Some r"
      by (auto simp: normalize_assistant_reasoning_blocks_def split: option.splits if_splits)
    let ?new = "filter is_reasoning_block content @ filter is_tool_call_block content"
    have new: "norm_msg m = jset ''content'' (JArr ?new) m"
      using True changed c r
      by (auto simp: norm_msg_def normalize_assistant_reasoning_blocks_def
               split: option.splits if_splits prod.splits)
    obtain k where "scan_blocks ?new False False 0 = Some (False, k)"
      using scan_reasoning_then_calls [of "filter is_reasoning_block content" "filter is_tool_call_block content" 0]
        scan_blocks_objects [OF r] by auto
    then have "normalize_assistant_reasoning_blocks (norm_msg m) = (False, norm_msg m)"
      using obj by (simp add: new normalize_assistant_reasoning_blocks_def)
    then show ?thesis by (simp add: norm_msg_def [of "norm_msg m"])
  qed
qed

lemma has_open_calls_norm [simp]: "has_open_calls (norm_msg m) = has_open_calls m"
  by (simp add: has_open_calls_def)

lemma span_of_skip:
  assumes "\<And>x. x \<in> set xs \<Longrightarrow> \<not> is_assistant x" and "ys = [] \<or> is_assistant (hd ys)"
  shows "span_of (xs @ ys) = xs" and "after_span (xs @ ys) = ys"
  using assms by (auto simp: span_of_def after_span_def takeWhile_all dropWhile_all
                             takeWhile_not_hd [where P = "\<lambda>m. \<not> is_assistant m"])

lemma find_answers_results:
  "distinct (map fst cs) \<Longrightarrow> [] \<notin> fst ` set cs \<Longrightarrow> (c, n) \<in> set cs \<Longrightarrow>
   List.find (answers c) (map (result_for later) cs @ ys) = Some (result_for later (c, n))"
proof (induction cs)
  case (Cons p cs)
  obtain d k where p: "p = (d, k)" by fastforce
  have d: "answers d (result_for later (d, k))" using Cons.prems by (intro answers_result_for) (auto simp: p)
  then have eq: "answers c (result_for later (d, k)) \<longleftrightarrow> c = d" by (auto simp: answers_def)
  show ?case
  proof (cases "c = d")
    case True
    then have "n = k" using Cons.prems p by (force simp: image_iff)
    with True d show ?thesis by (simp add: p)
  next
    case False
    with Cons eq show ?thesis by (auto simp: p simp del: result_for.simps)
  qed
qed simp

lemma results_of_again:
  assumes "ys = filter (\<lambda>x. \<not> is_tool_result x) (span_of ms)"
    and "zs = [] \<or> is_assistant (hd zs)"
  shows "results_of seen (norm_msg m) (results_of seen m ms @ ys @ zs) = results_of seen m ms"
proof -
  let ?cs = "fresh_calls seen (open_calls (norm_msg m))"
  have ne: "[] \<notin> fst ` set ?cs" using fresh_calls_subset open_calls_ids_nonempty by blast
  have no_ast: "\<not> is_assistant x" if "x \<in> set (results_of seen m ms @ ys)" for x
    using that assms(1) results_tool [of x seen m ms] by (auto simp: span_of_no_assistant)
  have sp: "span_of (results_of seen m ms @ ys @ zs) = results_of seen m ms @ ys"
    using span_of_skip(1) [of "results_of seen m ms @ ys" zs] no_ast assms(2) by simp
  have "result_for (results_of seen m ms @ ys) p = result_for (span_of ms) p" if "p \<in> set ?cs" for p
  proof (cases p)
    case (Pair c n)
    with that find_answers_results [OF distinct_fresh_calls ne, of c n "span_of ms" ys]
    show ?thesis by (simp add: results_of_def)
  qed
  then show ?thesis by (simp add: results_of_def [of _ "norm_msg m"] sp) (simp add: results_of_def)
qed

lemma repair_spec_idem: "repair_spec seen (repair_spec seen ms) = repair_spec seen ms"
proof (induction seen ms rule: repair_spec_induct)
  case (turn seen m ms)
  define F where "F = filter (\<lambda>x. \<not> is_tool_result x) (span_of ms)"
  define S where "S = repair_spec (seen \<union> fst ` set (open_calls (norm_msg m))) (after_span ms)"
  have S: "S = [] \<or> is_assistant (hd S)"
    by (rule repair_spec_after_span [of _ ms]) (auto simp: S_def)
  have no_ast: "\<not> is_assistant x" if "x \<in> set (results_of seen m ms @ F)" for x
    using that results_tool [of x seen m ms] by (auto simp: F_def span_of_no_assistant)
  have sp: "span_of (results_of seen m ms @ F @ S) = results_of seen m ms @ F"
      "after_span (results_of seen m ms @ F @ S) = S"
    using span_of_skip [of "results_of seen m ms @ F" S] no_ast S by auto
  have "filter (\<lambda>x. \<not> is_tool_result x) (results_of seen m ms @ F) = F"
    using results_tool [of _ seen m ms] by (auto simp: F_def filter_empty_conv)
  then show ?case
    using turn results_of_again [OF F_def S, of seen m] sp
    by (simp add: repair_spec_turn F_def [symmetric] S_def [symmetric])
next
  case (plain seen m ms)
  then show ?case by (simp add: repair_spec_plain)
qed simp


subsection \<open>Provenance of the tool results\<close>

lemma filter_results_of [simp]:
  "filter is_tool_result (results_of seen m ms) = results_of seen m ms"
  using results_tool by (auto simp: filter_id_conv)

lemma results_have_id: "x \<in> set (results_of seen m ms) \<Longrightarrow> extract_tool_result_id x \<noteq> None"
proof -
  assume "x \<in> set (results_of seen m ms)"
  then have "extract_tool_result_id x \<in> set (map extract_tool_result_id (results_of seen m ms))" by simp
  then show ?thesis unfolding results_ids by auto
qed

lemma result_ids_results_of:
  "result_ids (results_of seen m ms) = map fst (fresh_calls seen (open_calls (norm_msg m)))"
proof -
  have "map Some (result_ids (results_of seen m ms)) = map extract_tool_result_id (results_of seen m ms)"
    unfolding result_ids_def filter_results_of
    by (rule map_Some_map_filter) (rule results_have_id)
  also have "\<dots> = map Some (map fst (fresh_calls seen (open_calls (norm_msg m))))"
    using results_ids by simp
  finally show ?thesis by (rule map_injective) simp
qed

lemma result_ids_none [simp]: "result_ids (filter (\<lambda>x. \<not> is_tool_result x) xs) = []"
  by (simp add: result_ids_def filter_empty_conv)

lemma result_ids_Cons_other: "\<not> is_tool_result m \<Longrightarrow> result_ids (m # ms) = result_ids ms"
  by (simp add: result_ids_def)

lemma has_open_calls_not_result: "has_open_calls m \<Longrightarrow> \<not> is_tool_result m"
  using is_tool_result_not_assistant by (auto simp: has_open_calls_def)

lemma result_ids_repair_spec:
  "distinct (result_ids (repair_spec seen ms)) \<and> set (result_ids (repair_spec seen ms)) \<inter> seen = {}"
proof (induction seen ms rule: repair_spec_induct)
  case (turn seen m ms)
  have "\<not> is_tool_result (norm_msg m)" using turn.hyps has_open_calls_not_result by auto
  with turn show ?case
    by (auto simp: repair_spec_turn result_ids_append result_ids_Cons_other result_ids_results_of
                   distinct_fresh_calls fresh_calls_ids simp flip: image_set)
next
  case (plain seen m ms)
  then show ?case by (simp add: repair_spec_plain result_ids_Cons_other)
qed (simp add: result_ids_def)

lemma result_for_source: "result_for later (c, n) \<in> set later \<or> result_for later (c, n) = make_missing_tool_result c n"
  by (auto split: option.splits dest: find_SomeD)

lemma results_of_source:
  "x \<in> set (results_of seen m ms) \<Longrightarrow> x \<in> set (span_of ms) \<or> (\<exists>c n. x = make_missing_tool_result c n)"
  using result_for_source by (fastforce simp: results_of_def simp del: result_for.simps)

lemma set_spans: "set (span_of ms) \<subseteq> set ms" "set (after_span ms) \<subseteq> set ms"
  by (auto simp: span_of_def after_span_def dest: set_takeWhileD set_dropWhileD)

lemma repair_spec_source:
  "x \<in> set (repair_spec seen ms) \<Longrightarrow> is_tool_result x \<Longrightarrow>
   x \<in> set ms \<or> (\<exists>c n. x = make_missing_tool_result c n)"
proof (induction seen ms rule: repair_spec_induct)
  case (turn seen m ms)
  then show ?case
    using results_of_source [of x seen m ms] set_spans [of ms] has_open_calls_not_result
    by (auto simp: repair_spec_turn)
next
  case (plain seen m ms)
  then show ?case by (auto simp: repair_spec_plain split: if_splits)
qed simp

subsection \<open>The counting wrapper \<open>repair_transcript\<close>\<close>

datatype repair_error = ValueError string | AttributeError

record repair_result =
  rr_messages :: "message list"
  rr_dropped :: int
  rr_synthesized :: int
  rr_repaired :: int

definition is_synthetic_tool_result :: "message \<Rightarrow> bool" where
  "is_synthetic_tool_result m \<longleftrightarrow>
     jget ''role'' m = JStr (cps ''toolResult'') \<and> jget ''isError'' m = JBool True \<and>
     (case jget ''content'' m of
        JArr [b] \<Rightarrow> is_obj b \<and> jget ''type'' b = JStr (cps ''text'') \<and> jget ''text'' b = JStr synthetic_marker
      | _ \<Rightarrow> False)"

definition count_tool_results :: "message list \<Rightarrow> int" where
  "count_tool_results ms = int (length (filter is_tool_result ms))"

definition block_types :: "json \<Rightarrow> json list" where
  "block_types c = (case c of JArr bs \<Rightarrow> map (jget ''type'') (filter is_obj bs) | _ \<Rightarrow> [])"

definition content_reordered :: "message \<times> message \<Rightarrow> bool" where
  "content_reordered p \<longleftrightarrow>
     is_assistant (fst p) \<and> is_assistant (snd p) \<and>
     arr_of (jget ''content'' (fst p)) \<noteq> None \<and> arr_of (jget ''content'' (snd p)) \<noteq> None \<and>
     block_types (jget ''content'' (fst p)) \<noteq> block_types (jget ''content'' (snd p))"

definition count_reasoning_normalized_assistants :: "message list \<Rightarrow> message list \<Rightarrow> int" where
  "count_reasoning_normalized_assistants before after =
     int (length (filter content_reordered (zip before after)))"

text \<open>
  \<open>AttributeError\<close> is what \<open>msg.get\<close> raises on an element that is not a mapping: the
  sanitizer passes such elements through, the synthetic-result count does not expect them.
\<close>

definition repair_transcript :: "message list \<Rightarrow> string \<Rightarrow> repair_error + repair_result" where
  "repair_transcript ms provider =
     (if provider \<noteq> ''anthropic'' \<and> provider \<noteq> ''openai'' then Inl (ValueError provider)
      else
        let (changed, out) = sanitize_tool_use_result_pairing ms in
        if \<not> changed then
          Inr \<lparr>rr_messages = out, rr_dropped = 0, rr_synthesized = 0, rr_repaired = 0\<rparr>
        else if \<not> list_all is_obj out then Inl AttributeError
        else
          let synthesized = int (length (filter is_synthetic_tool_result out)) in
          Inr \<lparr>rr_messages = out,
               rr_dropped = max 0 (count_tool_results ms - (count_tool_results out - synthesized)),
               rr_synthesized = synthesized,
               rr_repaired = count_reasoning_normalized_assistants ms out\<rparr>)"


lemma missing_is_synthetic [simp]: "is_synthetic_tool_result (make_missing_tool_result c n)"
  by (simp add: is_synthetic_tool_result_def make_missing_tool_result_def)

lemma authentic_results_of:
  "length (filter (\<lambda>x. \<not> is_synthetic_tool_result x) (results_of seen m ms))
     \<le> length (filter is_tool_result (span_of ms))"
proof -
  let ?A = "filter (\<lambda>x. \<not> is_synthetic_tool_result x) (results_of seen m ms)"
  have "distinct (map extract_tool_result_id (results_of seen m ms))"
    unfolding results_ids using distinct_fresh_calls by (simp add: distinct_map inj_on_def flip: map_map)
  then have "distinct ?A" by (simp add: distinct_map)
  moreover have "set ?A \<subseteq> set (filter is_tool_result (span_of ms))"
    using results_of_source results_tool by fastforce
  ultimately show ?thesis
    by (metis card_length card_mono distinct_card finite_set le_trans)
qed

lemma authentic_repair_spec:
  "length (filter (\<lambda>x. is_tool_result x \<and> \<not> is_synthetic_tool_result x) (repair_spec seen ms))
     \<le> length (filter is_tool_result ms)"
proof (induction seen ms rule: repair_spec_induct)
  case (turn seen m ms)
  have split: "length (filter is_tool_result ms) =
      length (filter is_tool_result (span_of ms)) + length (filter is_tool_result (after_span ms))"
    by (metis span_append filter_append length_append)
  have "filter (\<lambda>x. is_tool_result x \<and> \<not> is_synthetic_tool_result x) (results_of seen m ms) =
      filter (\<lambda>x. \<not> is_synthetic_tool_result x) (results_of seen m ms)"
    by (rule filter_cong [OF refl]) (auto simp: results_tool)
  with turn authentic_results_of [of seen m ms] has_open_calls_not_result [OF turn.hyps] split
  show ?case by (simp add: repair_spec_turn)
next
  case (plain seen m ms)
  then show ?case by (auto simp: repair_spec_plain)
qed simp

lemma synthetic_is_tool_result: "is_obj x \<Longrightarrow> is_synthetic_tool_result x \<Longrightarrow> is_tool_result x"
  by (simp add: is_synthetic_tool_result_def is_tool_result_def)

subsection \<open>Properties\<close>

lemma sanitized_paired:
  assumes "distinct (result_ids ms)"
  shows "properly_paired {} (snd (sanitize_tool_use_result_pairing ms))"
  by (rule sanitize_cases [of ms])
     (use assms repair_spec_paired quiet_repair_paired [of ms init_repair] in \<open>auto simp: init_repair_def\<close>)


definition example_call :: "string \<Rightarrow> message" where
  "example_call i = JObj [(''role'', JStr (cps ''assistant'')),
     (''content'', JArr [JObj [(''type'', JStr (cps ''tool_use'')), (''id'', JStr (cps i)), (''name'', JStr (cps ''grep''))]])]"

definition example_result :: "string \<Rightarrow> string \<Rightarrow> message" where
  "example_result i t = JObj [(''role'', JStr (cps ''toolResult'')), (''toolCallId'', JStr (cps i)), (''text'', JStr (cps t))]"

definition example_user :: "message" where
  "example_user = JObj [(''role'', JStr (cps ''user'')), (''text'', JStr (cps ''hi''))]"


lemma sanitized_others:
  "filter (\<lambda>m. \<not> is_tool_result m) (snd (sanitize_tool_use_result_pairing ms)) =
   map norm_msg (filter (\<lambda>m. \<not> is_tool_result m) ms)"
proof (rule sanitize_cases [of ms])
  assume s: "sanitize_tool_use_result_pairing ms = (False, ms)" and q: "\<not> rp_changed (repair_loop ms init_repair)"
  have "map norm_msg (filter (\<lambda>m. \<not> is_tool_result m) ms) = filter (\<lambda>m. \<not> is_tool_result m) ms"
    by (rule map_idI) (auto intro: quiet_norm [OF q])
  with s show ?thesis by simp
qed (simp add: filter_repair_spec)

text \<open>Nothing but tool results is lost, added or reordered: the messages that are not tool
  results come out in the same order, each unchanged except for the reasoning hoist of an
  assistant turn (\<open>norm_msg\<close>).\<close>

theorem sanitize_keeps_messages:
  "filter (\<lambda>m. \<not> is_tool_result m) (snd (sanitize_tool_use_result_pairing ms)) =
   map norm_msg (filter (\<lambda>m. \<not> is_tool_result m) ms)"
  by (rule sanitized_others)

text \<open>C10. Repairing is idempotent: repairing a repaired transcript gives it back.\<close>

theorem sanitize_idempotent:
  "snd (sanitize_tool_use_result_pairing (snd (sanitize_tool_use_result_pairing ms))) =
   snd (sanitize_tool_use_result_pairing ms)"
  by (rule sanitize_cases [of ms]; rule sanitize_cases [of "repair_spec {} ms"])
     (simp_all add: repair_spec_idem)

text \<open>Provenance. When a repaired list is built, no two of its tool results have the same
  id, and each is a message of the input or the synthetic error result.\<close>

theorem sanitize_results:
  assumes "fst (sanitize_tool_use_result_pairing ms)"
  shows "distinct (result_ids (snd (sanitize_tool_use_result_pairing ms))) \<and>
         (\<forall>x \<in> set (snd (sanitize_tool_use_result_pairing ms)). is_tool_result x \<longrightarrow>
           x \<in> set ms \<or> (\<exists>c n. x = make_missing_tool_result c n))"
  by (rule sanitize_cases [of ms])
     (use assms result_ids_repair_spec [of "{}" ms] repair_spec_source [of _ "{}" ms] in auto)

lemmas example_simps = example_call_def example_user_def example_result_def
  sanitize_tool_use_result_pairing_def init_repair_def repair_step_def emit_def note_dup_def
  note_orphan_def normalize_assistant_reasoning_blocks_def extract_tool_calls_from_assistant_def
  extract_tool_call_id_def extract_tool_result_id_def is_reasoning_block_def is_tool_call_block_def
  tool_call_types_def openai_function_call_types_def stopped_early_def push_call.simps
  push_tool_result_def make_missing_tool_result_def

theorem sanitize_results_witness:
  "fst (sanitize_tool_use_result_pairing [example_call ''a'']) \<and>
   distinct (result_ids (snd (sanitize_tool_use_result_pairing [example_call ''a''])))"
proof -
  have h: "fst (sanitize_tool_use_result_pairing [example_call ''a''])"
    by (simp add: example_simps)
  from h sanitize_results [OF h] show ?thesis by blast
qed

text \<open>A gap in the duplicate rule. A second result for a call of the same turn, with
  nothing else to repair, is collected away but not marked as a change, so the argument is
  returned as it was, duplicate included.\<close>

theorem sanitize_keeps_span_duplicate:
  "sanitize_tool_use_result_pairing
     [example_call ''a'', example_result ''a'' ''first'', example_result ''a'' ''again''] =
     (False, [example_call ''a'', example_result ''a'' ''first'', example_result ''a'' ''again'']) \<and>
   repair_spec {} [example_call ''a'', example_result ''a'' ''first'', example_result ''a'' ''again''] =
     [example_call ''a'', example_result ''a'' ''first''] \<and>
   \<not> properly_paired {} (snd (sanitize_tool_use_result_pairing
     [example_call ''a'', example_result ''a'' ''first'', example_result ''a'' ''again'']))"
proof -
  let ?ms = "[example_call ''a'', example_result ''a'' ''first'', example_result ''a'' ''again'']"
  have s: "sanitize_tool_use_result_pairing ?ms = (False, ?ms)"
    by (simp add: example_simps)
  moreover have "repair_spec {} ?ms = [example_call ''a'', example_result ''a'' ''first'']"
    by (simp add: example_simps repair_spec.simps(2) norm_msg_def open_calls_def span_of_def after_span_def
                  is_assistant_def is_tool_result_def answers_def)
  moreover have "\<not> properly_paired {} ?ms"
    by (simp add: example_simps properly_paired.simps(2) open_calls_def is_assistant_def is_tool_result_def)
  ultimately show ?thesis by simp
qed

text \<open>The counts of \<open>repair_transcript\<close> on a transcript it changed: the messages are those
  of the reference repair, \<open>synthesized_count\<close> is the number of synthetic results in the
  output, and \<open>dropped_count\<close> is the number of tool results of the input less the authentic
  ones of the output. That difference is never negative, so the clamp at 0 never acts.\<close>

theorem repair_transcript_counts:
  assumes "repair_transcript ms p = Inr r" and "rr_messages r \<noteq> ms"
  shows "rr_messages r = repair_spec {} ms \<and>
         rr_synthesized r = int (length (filter is_synthetic_tool_result (rr_messages r))) \<and>
         rr_dropped r = count_tool_results ms -
           int (length (filter (\<lambda>x. is_tool_result x \<and> \<not> is_synthetic_tool_result x) (rr_messages r))) \<and>
         0 \<le> rr_dropped r"
proof (rule sanitize_cases [of ms])
  assume s: "sanitize_tool_use_result_pairing ms = (True, repair_spec {} ms)"
  let ?o = "repair_spec {} ms"
  have obj: "\<forall>x \<in> set ?o. is_obj x" and r: "rr_messages r = ?o"
    using assms(1) s by (auto simp: repair_transcript_def list_all_iff Let_def split: if_splits)
  have "filter is_synthetic_tool_result ?o = filter (\<lambda>x. is_tool_result x \<and> is_synthetic_tool_result x) ?o"
    using obj synthetic_is_tool_result by (intro filter_cong) auto
  then have "count_tool_results ?o - int (length (filter is_synthetic_tool_result ?o)) =
      int (length (filter (\<lambda>x. is_tool_result x \<and> \<not> is_synthetic_tool_result x) ?o))"
    using sum_length_filter_compl [of is_synthetic_tool_result "filter is_tool_result ?o"]
    by (simp add: count_tool_results_def conj_commute)
  then show ?thesis
    using assms(1) s r authentic_repair_spec [of "{}" ms]
    by (auto simp: repair_transcript_def Let_def count_tool_results_def split: if_splits)
next
  assume "sanitize_tool_use_result_pairing ms = (False, ms)"
  then show ?thesis
    using assms by (auto simp: repair_transcript_def split: if_splits)
qed


theorem repair_transcript_counts_witness:
  "rr_dropped \<lparr>rr_messages = [], rr_dropped = 1, rr_synthesized = 0, rr_repaired = 0\<rparr> =
     count_tool_results [example_result ''z'' ''y''] \<and>
   repair_transcript [example_result ''z'' ''y''] ''openai'' =
     Inr \<lparr>rr_messages = [], rr_dropped = 1, rr_synthesized = 0, rr_repaired = 0\<rparr>"
proof -
  have h: "repair_transcript [example_result ''z'' ''y''] ''openai'' =
     Inr \<lparr>rr_messages = [], rr_dropped = 1, rr_synthesized = 0, rr_repaired = 0\<rparr>"
    by (simp add: repair_transcript_def example_simps count_tool_results_def is_tool_result_def
                  count_reasoning_normalized_assistants_def)
  show ?thesis using h repair_transcript_counts [OF h] by simp
qed

text \<open>A synthetic result that was already in the input counts as synthesized now and as dropped now.\<close>

lemma repair_transcript_miscounts:
  "repair_transcript [example_result ''z'' ''y'', example_call ''a'', make_missing_tool_result (cps ''a'') None] ''openai'' =
     Inr \<lparr>rr_messages = [example_call ''a'', make_missing_tool_result (cps ''a'') None],
          rr_dropped = 2, rr_synthesized = 1, rr_repaired = 0\<rparr>"
  by (simp add: repair_transcript_def example_simps count_tool_results_def is_tool_result_def
                count_reasoning_normalized_assistants_def is_synthetic_tool_result_def
                content_reordered_def block_types_def is_assistant_def)

text \<open>An element that is not a mapping passes the sanitizer and stops the wrapper.\<close>

lemma repair_transcript_non_mapping:
  "repair_transcript [JStr (cps ''x''), example_result ''z'' ''y''] ''openai'' = Inl AttributeError"
  by (simp add: repair_transcript_def example_simps)

end
