(* ===== verification/Assembler.thy ===== *)
theory Assembler
  imports Assembler_Select Message_Parts Transcript_Repair
begin

text \<open>
  The context assembler (\<open>assembler.py\<close>): context items become resolved items
  (\<open>resolve_items\<close>), the budget walk selects among the evictable ones, tool calls whose result was
  not selected are stripped, assistant turns are normalized and empty ones dropped, and the
  transcript repair pairs what is left (\<open>assemble\<close>).

  The debug envelope (\<open>capture_debug\<close>) is not part of the result here; it has no influence on the
  messages. The switch \<open>stub_large_tool_payloads\<close> only logs.

  The properties: every kept summary and user turn reaches the provider unchanged and in order, the
  fresh tail always does, the estimate stays within the budget, tool calls and results are paired,
  and what the assembler protects is what compaction protects.
\<close>

record assembler_env =
  ae_codec :: codec
  ae_format_date :: "int \<Rightarrow> utext"
  ae_fl :: "real \<Rightarrow> real"

subsection \<open>Resolving context items\<close>

fun kind_name :: "summary_kind \<Rightarrow> utext" where
  "kind_name Leaf = cps ''leaf''"
| "kind_name Condensed = cps ''condensed''"

definition quoted :: "string \<Rightarrow> utext \<Rightarrow> utext" where
  "quoted k v = cps k @ cps ''=\"'' @ v @ cps ''\"''"

definition format_summary_content :: "assembler_env \<Rightarrow> lcm_db \<Rightarrow> summary_record \<Rightarrow> utext" where
  "format_summary_content env db summary =
     (let attributes =
            [quoted ''id'' (cps (sr_summary_id summary)), quoted ''kind'' (kind_name (sr_kind summary)),
             quoted ''depth'' (int_text (sr_depth summary)),
             quoted ''descendant_count'' (int_text (sr_descendant_count summary))]
            @ (case sr_earliest_at summary of Some t \<Rightarrow> [quoted ''earliest_at'' (ae_format_date env t)] | None \<Rightarrow> [])
            @ (case sr_latest_at summary of Some t \<Rightarrow> [quoted ''latest_at'' (ae_format_date env t)] | None \<Rightarrow> []);
          parents = (if sr_kind summary = Condensed
            then get_summary_parents db (sr_summary_id summary) False else []);
          lines = [cps ''<summary '' @ u_join [32] attributes @ cps ''>'']
            @ (if parents = [] then []
               else [cps ''  <parents>'']
                 @ map (\<lambda>p. cps ''    <summary_ref id=\"'' @ cps (sr_summary_id p) @ cps ''\" />'') parents
                 @ [cps ''  </parents>''])
            @ [cps ''  <content>'', sr_content summary, cps ''  </content>'', cps ''</summary>''] in
      u_join [10] lines)"

definition usage_of :: "int \<Rightarrow> json" where
  "usage_of token_count = JObj
     [(''input'', JInt 0), (''output'', JInt token_count), (''cacheRead'', JInt 0), (''cacheWrite'', JInt 0),
      (''totalTokens'', JInt token_count),
      (''cost'', JObj [(''input'', JInt 0), (''output'', JInt 0), (''cacheRead'', JInt 0), (''cacheWrite'', JInt 0),
         (''total'', JInt 0)])]"

definition runtime_message ::
    "utext \<Rightarrow> json \<Rightarrow> int \<Rightarrow> utext option \<Rightarrow> utext option \<Rightarrow> bool option \<Rightarrow> json" where
  "runtime_message role content token_count tool_call_id tool_name tool_is_error =
     (if role = cps ''assistant'' then
        JObj [(''role'', JStr role), (''content'', content), (''usage'', usage_of token_count)]
      else JObj ([(''role'', JStr role), (''content'', content)]
        @ entry_if ''toolCallId'' tool_call_id @ entry_if ''toolName'' tool_name
        @ (if role = cps ''toolResult''
           then (case tool_is_error of Some b \<Rightarrow> [(''isError'', JBool b)] | None \<Rightarrow> []) else [])))"

definition resolve_message_row :: "codec \<Rightarrow> int \<Rightarrow> message_record \<Rightarrow> message_part list \<Rightarrow> resolved_item option" where
  "resolve_message_row cd ordinal msg parts =
     (if mr_role msg = Role_Assistant \<and> u_strip (mr_content msg) = [] \<and> parts = [] then None
      else
        let role_from_store = to_runtime_role cd (mr_role msg) parts;
            is_tool_result = (role_from_store = cps ''toolResult'');
            tool_call_id = (if is_tool_result then pick_tool_call_id cd parts else None);
            tool_name = (if is_tool_result
              then Some (case pick_tool_name cd parts of Some n \<Rightarrow> n | None \<Rightarrow> cps ''unknown'') else None);
            tool_is_error = (if is_tool_result then pick_tool_is_error cd parts else None);
            role = (if is_tool_result \<and> tool_call_id = None then cps ''assistant'' else role_from_store);
            content = content_from_parts cd parts role (mr_content msg);
            content_text = (case content of JStr s \<Rightarrow> s | _ \<Rightarrow> cd_dumps_ascii cd content);
            token_count = estimate_tokens content_text in
        Some \<lparr>ri_ordinal = ordinal,
          ri_message = runtime_message role content token_count tool_call_id tool_name tool_is_error,
          ri_tokens = token_count, ri_is_message = True, ri_text = content_text,
          ri_message_id = Some (mr_message_id msg), ri_seq = Some (mr_seq msg),
          ri_source_role = Some (mr_role msg), ri_summary = None\<rparr>)"

definition resolve_message_item :: "codec \<Rightarrow> lcm_db \<Rightarrow> int \<Rightarrow> int \<Rightarrow> resolved_item option" where
  "resolve_message_item cd db ordinal mid = (case get_message_by_id db mid False of
     None \<Rightarrow> None
   | Some msg \<Rightarrow> resolve_message_row cd ordinal msg (get_message_parts db (mr_message_id msg)))"

definition resolve_summary_item :: "assembler_env \<Rightarrow> lcm_db \<Rightarrow> int \<Rightarrow> string \<Rightarrow> resolved_item option" where
  "resolve_summary_item env db ordinal sid = (case get_summary db sid False of
     None \<Rightarrow> None
   | Some summary \<Rightarrow>
       let content = format_summary_content env db summary in
       Some \<lparr>ri_ordinal = ordinal,
         ri_message = JObj [(''role'', JStr (cps ''user'')), (''content'', JStr content)],
         ri_tokens = estimate_tokens content, ri_is_message = False, ri_text = sr_content summary,
         ri_message_id = None, ri_seq = None, ri_source_role = None, ri_summary = Some summary\<rparr>)"

definition resolve_item :: "assembler_env \<Rightarrow> lcm_db \<Rightarrow> context_item \<Rightarrow> resolved_item option" where
  "resolve_item env db item = (case ci_ref item of
     Msg mid \<Rightarrow> resolve_message_item (ae_codec env) db (ci_ordinal item) mid
   | Sum sid \<Rightarrow> resolve_summary_item env db (ci_ordinal item) sid)"

definition resolve_items :: "assembler_env \<Rightarrow> lcm_db \<Rightarrow> context_item list \<Rightarrow> resolved_item list" where
  "resolve_items env db items = List.map_filter (resolve_item env db) items"

subsection \<open>Stripping tool calls without a result\<close>

definition extract_tool_call_id_from_block :: "json \<Rightarrow> utext option" where
  "extract_tool_call_id_from_block b = (case nonempty_str (jget ''id'' b) of
     Some i \<Rightarrow> Some i | None \<Rightarrow> nonempty_str (jget ''call_id'' b))"

definition extract_tool_result_id_from_message :: "json \<Rightarrow> utext option" where
  "extract_tool_result_id_from_message m = (case nonempty_str (jget ''toolCallId'' m) of
     Some i \<Rightarrow> Some i | None \<Rightarrow> nonempty_str (jget ''toolUseId'' m))"

datatype assembly_segment = Seg_Fresh_Tail | Seg_Evictable

record filtered_entry =
  fe_message :: json
  fe_segment :: assembly_segment

record filtered_tool_calls_result =
  ft_entries :: "filtered_entry list"
  ft_removed_tool_use_block_count :: nat
  ft_touched_assistant_message_count :: nat

text \<open>The dictionary from a call id to the ordinals of its results.\<close>

definition result_ordinals :: "resolved_item list \<Rightarrow> utext \<Rightarrow> int list" where
  "result_ordinals items i = map ri_ordinal
     (filter (\<lambda>x. extract_tool_result_id_from_message (ri_message x) = Some i) items)"

definition keep_block ::
    "(utext \<Rightarrow> int list) \<Rightarrow> (utext \<Rightarrow> int list) \<Rightarrow> int \<Rightarrow> int \<Rightarrow> json \<Rightarrow> bool" where
  "keep_block selected all orphan_stripping_ordinal ordinal b =
     (if \<not> is_obj b then True
      else if \<not> str_in (jget ''type'' b) tool_call_types then True
      else case extract_tool_call_id_from_block b of
        None \<Rightarrow> True
      | Some i \<Rightarrow>
          if list_ex (\<lambda>ord. ordinal < ord) (selected i) then True
          else if ordinal < orphan_stripping_ordinal then False
          else all i = [])"

definition filter_item ::
    "(utext \<Rightarrow> int list) \<Rightarrow> (utext \<Rightarrow> int list) \<Rightarrow> int set \<Rightarrow> int \<Rightarrow> resolved_item \<Rightarrow> filtered_entry option \<times> bool" where
  "filter_item selected all fresh_tail_ordinals orphan_stripping_ordinal item =
     (let segment = (if ri_ordinal item \<in> fresh_tail_ordinals then Seg_Fresh_Tail else Seg_Evictable);
          message = ri_message item;
          unchanged = (Some \<lparr>fe_message = message, fe_segment = segment\<rparr>, False) in
      if jget ''role'' message \<noteq> JStr (cps ''assistant'') then unchanged
      else case jget ''content'' message of
        JArr content \<Rightarrow>
          let keep = keep_block selected all orphan_stripping_ordinal (ri_ordinal item);
              new_content = filter keep content in
          if new_content = [] then (None, True)
          else if list_all keep content then unchanged
          else (Some \<lparr>fe_message = jset ''content'' (JArr new_content) message, fe_segment = segment\<rparr>, True)
      | _ \<Rightarrow> unchanged)"

definition filter_non_fresh_assistant_tool_calls ::
    "resolved_item list \<Rightarrow> int set \<Rightarrow> int \<Rightarrow> (utext \<Rightarrow> int list) \<Rightarrow> filtered_tool_calls_result" where
  "filter_non_fresh_assistant_tool_calls items fresh_tail_ordinals orphan_stripping_ordinal all =
     (let results = map (filter_item (result_ordinals items) all fresh_tail_ordinals orphan_stripping_ordinal) items;
          touched = length (filter snd results) in
      \<lparr>ft_entries = List.map_filter fst results, ft_removed_tool_use_block_count = touched,
       ft_touched_assistant_message_count = touched\<rparr>)"

subsection \<open>Normalizing and cleaning assistant turns\<close>

definition is_blank_text_block :: "json \<Rightarrow> bool" where
  "is_blank_text_block b = (is_obj b \<and> jget ''type'' b = JStr (cps ''text'')
     \<and> (case jget ''text'' b of JStr t \<Rightarrow> u_strip t = [] | _ \<Rightarrow> False))"

definition is_blank_content :: "json list \<Rightarrow> bool" where
  "is_blank_content content = (if content = [] then False else list_all is_blank_text_block content)"

definition thinking_like_types :: "utext list" where
  "thinking_like_types = map cps [''thinking'', ''redacted_thinking'', ''reasoning'']"

definition is_thinking_only_content :: "json list \<Rightarrow> bool" where
  "is_thinking_only_content content =
     (if content = [] then False
      else list_all (\<lambda>b. is_obj b \<and> str_in (jget ''type'' b) thinking_like_types) content)"

definition normalize_assistant_content :: "json \<Rightarrow> json" where
  "normalize_assistant_content msg =
     (if jget ''role'' msg \<noteq> JStr (cps ''assistant'') then msg
      else case jget ''content'' msg of
        JStr t \<Rightarrow> jset ''content'' (JArr [text_block t]) msg
      | JArr content \<Rightarrow>
          let filtered_blocks = filter (\<lambda>b. \<not> is_blank_text_block b) content in
          if length filtered_blocks \<noteq> length content then jset ''content'' (JArr filtered_blocks) msg else msg
      | _ \<Rightarrow> msg)"

definition keep_assistant_turn :: "json \<Rightarrow> bool" where
  "keep_assistant_turn msg =
     (if jget ''role'' msg \<noteq> JStr (cps ''assistant'') then True
      else case jget ''content'' msg of
        JArr content \<Rightarrow>
          \<not> (content = [] \<or> is_thinking_only_content content \<or> is_blank_content content)
      | JStr t \<Rightarrow> u_strip t \<noteq> []
      | _ \<Rightarrow> False)"

definition normalize_and_clean_assistant_content :: "filtered_entry list \<Rightarrow> filtered_entry list \<times> filtered_entry list" where
  "normalize_and_clean_assistant_content entries =
     (let normalized = map (\<lambda>e. e\<lparr>fe_message := normalize_assistant_content (fe_message e)\<rparr>) entries in
      (filter (\<lambda>e. keep_assistant_turn (fe_message e)) normalized, normalized))"

subsection \<open>Assembly\<close>

record assemble_input =
  ai_conversation_id :: int
  ai_token_budget :: int
  ai_fresh_tail_count :: int
  ai_fresh_tail_max_tokens :: "int option"
  ai_prompt :: "utext option"
  ai_prompt_aware_eviction :: bool
  ai_orphan_stripping_ordinal :: "int option"

record assemble_result =
  ar_messages :: "json list"
  ar_estimated_tokens :: int
  ar_raw_message_count :: nat
  ar_summary_count :: nat
  ar_total_context_items :: nat

text \<open>The resolved items, split at the fresh tail, and the selection from them.\<close>

definition boundary_of :: "assemble_input \<Rightarrow> resolved_item list \<Rightarrow> int" where
  "boundary_of inp resolved =
     resolve_fresh_tail_boundary resolved (ai_fresh_tail_count inp) (ai_fresh_tail_max_tokens inp)"

definition evictable_of :: "assemble_input \<Rightarrow> resolved_item list \<Rightarrow> resolved_item list" where
  "evictable_of inp resolved = filter (\<lambda>i. ri_ordinal i < boundary_of inp resolved) resolved"

definition fresh_tail_of :: "assemble_input \<Rightarrow> resolved_item list \<Rightarrow> resolved_item list" where
  "fresh_tail_of inp resolved = filter (\<lambda>i. boundary_of inp resolved \<le> ri_ordinal i) resolved"

definition kept_of :: "assembler_env \<Rightarrow> assemble_input \<Rightarrow> resolved_item list \<Rightarrow> resolved_item list" where
  "kept_of env inp resolved = fst (budget_walk (ae_fl env) (evictable_of inp resolved) (fresh_tail_of inp resolved)
     (ai_token_budget inp) (ai_prompt inp) (ai_prompt_aware_eviction inp))"

definition selected_of :: "assembler_env \<Rightarrow> assemble_input \<Rightarrow> resolved_item list \<Rightarrow> resolved_item list" where
  "selected_of env inp resolved = kept_of env inp resolved @ fresh_tail_of inp resolved"

definition cleaned_of :: "assembler_env \<Rightarrow> assemble_input \<Rightarrow> resolved_item list \<Rightarrow> json list" where
  "cleaned_of env inp resolved =
     (let boundary = boundary_of inp resolved;
          orphan_stripping_ordinal = (case ai_orphan_stripping_ordinal inp of
            Some n \<Rightarrow> if 0 \<le> n then n else boundary | None \<Rightarrow> boundary);
          filtered = filter_non_fresh_assistant_tool_calls (selected_of env inp resolved)
            (set (map ri_ordinal (fresh_tail_of inp resolved))) orphan_stripping_ordinal (result_ordinals resolved) in
      map fe_message (fst (normalize_and_clean_assistant_content (ft_entries filtered))))"

definition assemble :: "assembler_env \<Rightarrow> lcm_db \<Rightarrow> assemble_input \<Rightarrow> assemble_result" where
  "assemble env db inp =
     (let context_items = get_context_items db (ai_conversation_id inp) in
      if context_items = [] then
        \<lparr>ar_messages = [], ar_estimated_tokens = 0, ar_raw_message_count = 0, ar_summary_count = 0,
         ar_total_context_items = 0\<rparr>
      else
        let resolved = resolve_items env db context_items in
        \<lparr>ar_messages = snd (sanitize_tool_use_result_pairing (cleaned_of env inp resolved)),
         ar_estimated_tokens = items_tokens (kept_of env inp resolved) + items_tokens (fresh_tail_of inp resolved),
         ar_raw_message_count = length (filter ri_is_message resolved),
         ar_summary_count = length (filter (\<lambda>i. \<not> ri_is_message i) resolved),
         ar_total_context_items = length resolved\<rparr>)"

subsection \<open>Facts about resolved items\<close>

lemma resolve_item_Some:
  "resolve_item env db i = Some r \<Longrightarrow> ri_ordinal r = ci_ordinal i \<and> 0 \<le> ri_tokens r
     \<and> (ri_is_message r \<longleftrightarrow> is_message_item i)
     \<and> (is_message_item i \<longrightarrow> (\<exists>m. ri_message_id r = Some m \<and> ci_ref i = Msg m))"
  by (auto simp: resolve_item_def resolve_message_item_def resolve_message_row_def resolve_summary_item_def Let_def
      is_message_item_def estimate_nonneg get_message_by_id_def dest!: find_SomeD
      split: context_ref.splits option.splits if_splits)

lemma items_increasing:
  "wf_db db \<Longrightarrow> sorted_wrt (\<lambda>x y. ci_ordinal x < ci_ordinal y) (get_context_items db c)"
  using ctx.increasing[of db c] by (simp add: numbered_refs_def sorted_wrt_map comp_def)

lemma resolved_increasing:
  assumes "sorted_wrt (\<lambda>x y. ci_ordinal x < ci_ordinal y) items"
  shows "sorted_wrt (\<lambda>x y. ri_ordinal x < ri_ordinal y) (resolve_items env db items)"
  using assms unfolding resolve_items_def
  by (induction items) (auto simp: set_map_filter dest!: resolve_item_Some split: option.splits)

lemma resolved_nonneg: "i \<in> set (resolve_items env db items) \<Longrightarrow> 0 \<le> ri_tokens i"
  by (auto simp: resolve_items_def set_map_filter dest: resolve_item_Some)

lemma split_at:
  "sorted_wrt (\<lambda>x y. f x < (f y :: int)) xs \<Longrightarrow> filter (\<lambda>x. f x < b) xs @ filter (\<lambda>x. b \<le> f x) xs = xs"
proof (induction xs)
  case (Cons x xs)
  show ?case
  proof (cases "f x < b")
    case False
    then have "\<forall>y \<in> set xs. \<not> f y < b" using Cons.prems by auto
    then have "filter (\<lambda>x. f x < b) xs = []" by (simp add: filter_empty_conv)
    then show ?thesis using False Cons by simp
  qed (use Cons in simp)
qed simp

lemma selection:
  assumes "wf_db db" "resolved = resolve_items env db (get_context_items db c)"
  shows "subseq (kept_of env inp resolved) (evictable_of inp resolved)
    \<and> items_tokens (kept_of env inp resolved) + items_tokens (fresh_tail_of inp resolved)
        \<le> max (ai_token_budget inp) (items_tokens (fresh_tail_of inp resolved))
    \<and> evictable_of inp resolved @ fresh_tail_of inp resolved = resolved"
proof -
  have sorted: "sorted_wrt (\<lambda>x y. ri_ordinal x < ri_ordinal y) resolved"
    using resolved_increasing[OF items_increasing[OF assms(1)]] assms(2) by simp
  then have ev: "sorted_wrt (\<lambda>x y. ri_ordinal x < ri_ordinal y) (evictable_of inp resolved)"
    unfolding evictable_of_def by (rule sorted_wrt_filter)
  obtain kept mode where w: "budget_walk (ae_fl env) (evictable_of inp resolved) (fresh_tail_of inp resolved)
      (ai_token_budget inp) (ai_prompt inp) (ai_prompt_aware_eviction inp) = (kept, mode)" by fastforce
  have k: "kept_of env inp resolved = kept" by (simp add: kept_of_def w)
  have "subseq kept (evictable_of inp resolved)
    \<and> items_tokens kept + items_tokens (fresh_tail_of inp resolved)
        \<le> max (ai_token_budget inp) (items_tokens (fresh_tail_of inp resolved))"
    using w
  proof (cases rule: budget_walk_cases)
    case (2 p)
    then show ?thesis using by_relevance.walk_subseq[OF ev] by_relevance.with_tail by simp
  next
    case 3
    then show ?thesis using chronological.walk_subseq[OF ev] chronological.with_tail by simp
  qed simp
  moreover have "evictable_of inp resolved @ fresh_tail_of inp resolved = resolved"
    unfolding evictable_of_def fresh_tail_of_def by (rule split_at[OF sorted])
  ultimately show ?thesis by (simp add: k)
qed

subsection \<open>What filtering and cleaning leave alone\<close>

definition is_user :: "json \<Rightarrow> bool" where
  "is_user m \<longleftrightarrow> jget ''role'' m = JStr (cps ''user'')"

text \<open>A message that is not an assistant turn passes every stage.\<close>

lemma filter_item_other:
  "jget ''role'' (ri_message i) \<noteq> JStr (cps ''assistant'') \<Longrightarrow> \<exists>g. filter_item sel al ft b i = (Some \<lparr>fe_message = ri_message i, fe_segment = g\<rparr>, False)"
  by (simp add: filter_item_def Let_def)

lemma filter_item_assistant:
  "jget ''role'' (ri_message i) = JStr (cps ''assistant'') \<Longrightarrow> fst (filter_item sel al ft b i) = Some e
     \<Longrightarrow> jget ''role'' (fe_message e) = JStr (cps ''assistant'')"
  by (cases "ri_message i") (auto simp: filter_item_def Let_def update_conv' split: gjson.splits if_splits)

lemma normalize_role [simp]: "jget ''role'' (normalize_assistant_content m) = jget ''role'' m"
proof (cases "is_obj m")
  case False
  then show ?thesis by (cases m) (simp_all add: normalize_assistant_content_def)
qed (simp add: normalize_assistant_content_def Let_def split: gjson.split)

lemma cleaned_others:
  assumes "\<And>m. P m \<Longrightarrow> jget ''role'' m \<noteq> JStr (cps ''assistant'')"
  shows "filter P (map fe_message (fst (normalize_and_clean_assistant_content
      (ft_entries (filter_non_fresh_assistant_tool_calls items ft b al))))) = filter P (map ri_message items)"
proof -
  have "filter P (map fe_message (filter (\<lambda>e. keep_assistant_turn (fe_message e))
      (map (\<lambda>e. e\<lparr>fe_message := normalize_assistant_content (fe_message e)\<rparr>)
        (List.map_filter fst (map (filter_item sel al ft b) xs))))) = filter P (map ri_message xs)" for sel xs
  proof (induction xs)
    case (Cons i xs)
    show ?case
    proof (cases "jget ''role'' (ri_message i) = JStr (cps ''assistant'')")
      case True
      then have "\<not> P (ri_message i)" using assms by blast
      moreover have "\<not> P (normalize_assistant_content (fe_message e))" if "fst (filter_item sel al ft b i) = Some e" for e
        using assms[of "normalize_assistant_content (fe_message e)"] filter_item_assistant[OF True that] by auto
      ultimately show ?thesis using Cons by (auto split: option.splits)
    next
      case False
      obtain g where g: "filter_item sel al ft b i = (Some \<lparr>fe_message = ri_message i, fe_segment = g\<rparr>, False)"
        using filter_item_other[OF False] by blast
      have "normalize_assistant_content (ri_message i) = ri_message i" "keep_assistant_turn (ri_message i)"
        using False by (simp_all add: normalize_assistant_content_def keep_assistant_turn_def)
      then show ?thesis using Cons by (simp add: g)
    qed
  qed simp
  then show ?thesis
    by (simp add: filter_non_fresh_assistant_tool_calls_def normalize_and_clean_assistant_content_def Let_def)
qed

lemma user_not_result: "is_user m \<Longrightarrow> \<not> is_tool_result m" "is_user m \<Longrightarrow> norm_msg m = m"
  by (auto simp: is_user_def is_tool_result_def norm_msg_def is_assistant_def)

lemma filter_map_fixed:
  "(\<And>m. P (h m) \<longleftrightarrow> P m) \<Longrightarrow> (\<And>m. P m \<Longrightarrow> h m = m) \<Longrightarrow> filter P (map h xs) = filter P xs"
  by (induction xs) auto

lemma sanitized_users: "filter is_user (snd (sanitize_tool_use_result_pairing ms)) = filter is_user ms"
proof -
  have imp: "filter is_user xs = filter is_user (filter (\<lambda>m. \<not> is_tool_result m) xs)" for xs
    by (simp add: filter_filter) (metis user_not_result(1))
  have role: "is_user (norm_msg m) \<longleftrightarrow> is_user m" for m
  proof (cases "is_assistant m")
    case True
    then have "jget ''role'' (norm_msg m) = JStr (cps ''assistant'')"
      by (auto simp: norm_msg_def normalize_assistant_reasoning_blocks_def is_assistant_def split: option.splits)
    then show ?thesis using True by (simp add: is_user_def is_assistant_def)
  qed (simp add: norm_msg_def)
  have "filter is_user (snd (sanitize_tool_use_result_pairing ms))
      = filter is_user (map norm_msg (filter (\<lambda>m. \<not> is_tool_result m) ms))"
    by (subst imp) (simp only: sanitized_others)
  also have "\<dots> = filter is_user ms"
    by (simp only: filter_map_fixed[of is_user norm_msg, OF role user_not_result(2)] imp[symmetric])
  finally show ?thesis .
qed

lemma cleaned_result_ids:
  "result_ids (cleaned_of env inp resolved) = result_ids (map ri_message (selected_of env inp resolved))"
  unfolding cleaned_of_def Let_def result_ids_def
  by (subst cleaned_others) (auto simp: is_tool_result_def)

lemma subseq_map_filter: "subseq xs ys \<Longrightarrow> subseq (List.map_filter f xs) (List.map_filter f ys)"
  by (induction rule: list_emb.induct) (auto split: option.split)

lemma result_ids_subseq: "subseq xs ys \<Longrightarrow> subseq (result_ids xs) (result_ids ys)"
  unfolding result_ids_def by (intro subseq_map_filter subseq_filter)

subsection \<open>Properties\<close>

lemma assembly_selects:
  assumes "wf_db db" "get_context_items db (ai_conversation_id inp) \<noteq> []"
  shows "\<exists>kept tail. tail = fresh_tail_of inp (resolve_items env db (get_context_items db (ai_conversation_id inp)))
     \<and> subseq (kept @ tail) (resolve_items env db (get_context_items db (ai_conversation_id inp)))
     \<and> filter is_user (ar_messages (assemble env db inp)) = filter is_user (map ri_message (kept @ tail))
     \<and> ar_estimated_tokens (assemble env db inp) = items_tokens (kept @ tail)
     \<and> items_tokens (kept @ tail) \<le> max (ai_token_budget inp) (items_tokens tail)"
proof -
  define resolved where "resolved = resolve_items env db (get_context_items db (ai_conversation_id inp))"
  let ?kept = "kept_of env inp resolved" and ?tail = "fresh_tail_of inp resolved"
  have sel: "subseq ?kept (evictable_of inp resolved)" "items_tokens ?kept + items_tokens ?tail
      \<le> max (ai_token_budget inp) (items_tokens ?tail)" "evictable_of inp resolved @ ?tail = resolved"
    using selection[OF assms(1) resolved_def] by auto
  have sub: "subseq (?kept @ ?tail) resolved"
    using sel(1) list_emb_append_mono[OF sel(1) subseq_order.refl[of ?tail]] sel(3) by simp
  have run: "ar_messages (assemble env db inp) = snd (sanitize_tool_use_result_pairing (cleaned_of env inp resolved))"
    "ar_estimated_tokens (assemble env db inp) = items_tokens (?kept @ ?tail)"
    using assms(2) by (simp_all add: assemble_def resolved_def Let_def)
  have users: "filter is_user (ar_messages (assemble env db inp)) = filter is_user (map ri_message (?kept @ ?tail))"
    unfolding run sanitized_users cleaned_of_def Let_def selected_of_def[symmetric]
    by (rule cleaned_others) (simp add: is_user_def)
  show ?thesis
    using sub users run(2) sel(2) unfolding resolved_def[symmetric]
    by (intro exI[of _ ?kept] exI[of _ ?tail]) simp
qed



subsection \<open>One fresh tail\<close>

lemma protect_loop_len:
  "protect_loop cnt mx is pc pt ts =
     (let n = tail_len cnt mx (map ri_tokens is) pc pt in if n = 0 then ts else ri_ordinal (is ! (n - 1)))"
  by (induction "is" arbitrary: pc pt ts) (auto simp: Let_def nth_Cons')

lemma tail_len_uncapped: "length ws = length vs \<Longrightarrow> tail_len cnt None ws pc pt = tail_len cnt None vs pc qt"
proof (induction ws arbitrary: vs pc pt qt)
  case (Cons w ws)
  then show ?case by (cases vs) auto
qed simp

lemma resolved_messages:
  assumes "\<forall>i \<in> set items. is_message_item i \<longrightarrow> resolve_item env db i \<noteq> None"
  shows "map ri_ordinal (filter ri_is_message (resolve_items env db items)) = map ci_ordinal (filter is_message_item items)
    \<and> map (\<lambda>r. map_option Msg (ri_message_id r)) (filter ri_is_message (resolve_items env db items)) =
        map (\<lambda>i. Some (ci_ref i)) (filter is_message_item items)"
  using assms unfolding resolve_items_def
  by (induction items) (auto dest: resolve_item_Some split: option.splits)

lemma filter_map_cong:
  "map g xs = map g' ys \<Longrightarrow> map f xs = map f' ys \<Longrightarrow>
     map f (filter (\<lambda>x. P (g x)) xs) = map f' (filter (\<lambda>y. P (g' y)) ys)"
proof (induction xs arbitrary: ys)
  case (Cons x xs)
  then show ?case by (cases ys) auto
qed simp

text \<open>The assembler and the compactor agree on the fresh tail when it is limited by a count alone: as long as
  every message of the context resolves, the messages in the assembler's fresh tail are exactly the ones
  the compaction engine protects, although the two compute it from different tables and token counts.
  Since a sweep keeps the protected messages, it never compacts what the next assembly will show.\<close>

theorem assembler_tail_is_protected:
  assumes "0 < cc_fresh_tail_count cfg" "resolve_fresh_tail_max_tokens cfg = None"
    "\<forall>i \<in> set (get_context_items db c). is_message_item i \<longrightarrow> resolve_item env db i \<noteq> None"
    "ai_fresh_tail_count inp = cc_fresh_tail_count cfg" "ai_fresh_tail_max_tokens inp = cc_fresh_tail_max_tokens cfg"
  shows "map (\<lambda>r. map_option Msg (ri_message_id r))
      (filter ri_is_message (fresh_tail_of inp (resolve_items env db (get_context_items db c)))) =
    map Some (protected_refs cfg db c)"
proof -
  define rs where "rs = resolve_items env db (get_context_items db c)"
  define ms where "ms = filter is_message_item (get_context_items db c)"
  have twin: "map ri_ordinal (filter ri_is_message rs) = map ci_ordinal ms"
    "map (\<lambda>r. map_option Msg (ri_message_id r)) (filter ri_is_message rs) = map (\<lambda>i. Some (ci_ref i)) ms"
    using resolved_messages[OF assms(3)] by (simp_all add: rs_def ms_def)
  have len: "length (filter ri_is_message rs) = length ms" by (rule map_eq_imp_length_eq[OF twin(1)])
  have nth: "ri_ordinal (rev (filter ri_is_message rs) ! k) = ci_ordinal (rev ms ! k)" if "k < length ms" for k
    using that len arg_cong[OF twin(1), of "\<lambda>xs. rev xs ! k"] by (simp add: rev_map)
  let ?n = "tail_len (cc_fresh_tail_count cfg) None (map (item_tokens db) (rev ms)) 0 0"
  have n: "tail_len (cc_fresh_tail_count cfg) None (map ri_tokens (rev (filter ri_is_message rs))) 0 0 = ?n"
    using len by (intro tail_len_uncapped) simp
  have bound: "?n \<le> length ms" using tail_len_le[of _ _ "map (item_tokens db) (rev ms)"] by simp
  have cap: "(case cc_fresh_tail_max_tokens cfg of Some b \<Rightarrow> if 0 \<le> b then Some b else None | None \<Rightarrow> None) = None"
    using assms(2) by (simp add: resolve_fresh_tail_max_tokens_def split: option.splits if_splits)
  have cnt: "resolve_fresh_tail_count cfg = cc_fresh_tail_count cfg"
    using assms(1) by (simp add: resolve_fresh_tail_count_def)
  have boundary: "boundary_of inp rs = resolve_fresh_tail_ordinal cfg db (get_context_items db c)"
  proof (cases "ms = []")
    case True
    then show ?thesis using assms(1) len
      by (simp add: boundary_of_def resolve_fresh_tail_boundary_def resolve_fresh_tail_ordinal_def ms_def assms(4,5))
  next
    case False
    then have "filter ri_is_message rs \<noteq> []" using len by auto
    then show ?thesis
      using assms(1,2) nth[of "?n - 1"] bound n cap False
      by (simp add: boundary_of_def resolve_fresh_tail_boundary_def assms(4,5) protect_loop_len
          resolve_fresh_tail_ordinal_def cnt tail_loop_len ms_def[symmetric] Let_def)
  qed
  have "map (\<lambda>r. map_option Msg (ri_message_id r)) (filter (\<lambda>r. boundary_of inp rs \<le> ri_ordinal r) (filter ri_is_message rs))
      = map (\<lambda>i. Some (ci_ref i)) (filter (\<lambda>i. boundary_of inp rs \<le> ci_ordinal i) ms)"
    by (rule filter_map_cong[OF twin, of "\<lambda>n. boundary_of inp rs \<le> n"])
  then show ?thesis
    using assms(1) unfolding rs_def[symmetric] fresh_tail_of_def protected_refs_def boundary
    by (simp add: cnt ms_def filter_filter conj_commute Let_def)
qed

subsection \<open>Examples\<close>

definition sample_env :: assembler_env where
  "sample_env = \<lparr>ae_codec = sample_codec (cps ''user''), ae_format_date = (\<lambda>_. []), ae_fl = id\<rparr>"

definition sample_request :: "int \<Rightarrow> assemble_input" where
  "sample_request budget = \<lparr>ai_conversation_id = 1, ai_token_budget = budget, ai_fresh_tail_count = 2,
     ai_fresh_tail_max_tokens = None, ai_prompt = None, ai_prompt_aware_eviction = True,
     ai_orphan_stripping_ordinal = None\<rparr>"

lemma sample_resolve:
  "resolve_items sample_env sample_db (get_context_items sample_db 1) =
     map (\<lambda>(n, m). \<lparr>ri_ordinal = n, ri_message = JObj [(''role'', JStr (cps ''user'')), (''content'', JStr [97, 98])],
       ri_tokens = 1, ri_is_message = True, ri_text = [97, 98], ri_message_id = Some m, ri_seq = Some m,
       ri_source_role = Some Role_User, ri_summary = None\<rparr>) [(0, 1), (2, 2), (3, 3), (7, 4)]"
proof -
  have est: "estimate_tokens [97, 98] = 1"
    by (simp add: estimate_weight estimate_code_point_tokens_def is_cjk_code_point_def) linarith
  show ?thesis
    unfolding sample_db_items resolve_items_def
    by (simp add: resolve_item_def resolve_message_item_def get_message_by_id_def sample_db_def empty_db_def
        sample_message_def get_message_parts_def resolve_message_row_def to_runtime_role_def get_original_role_def
        content_from_parts_def runtime_message_def entry_if_def nonempty_def est Let_def)
qed



theorem assembler_tail_is_protected_witness:
  "map (\<lambda>r. map_option Msg (ri_message_id r)) (filter ri_is_message (fresh_tail_of (sample_request 3)
      (resolve_items sample_env sample_db (get_context_items sample_db 1)))) =
    map Some (protected_refs small_config sample_db 1)"
proof (rule assembler_tail_is_protected)
  show "\<forall>i \<in> set (get_context_items sample_db 1). is_message_item i \<longrightarrow> resolve_item sample_env sample_db i \<noteq> None"
    unfolding sample_db_items
    by (simp add: resolve_item_def resolve_message_item_def get_message_by_id_def sample_db_def empty_db_def
        sample_message_def resolve_message_row_def Let_def)
qed (simp_all add: small_config_def default_compaction_config_def resolve_fresh_tail_max_tokens_def sample_request_def)

end
