(* ===== verification/Conversation_Store.thy ===== *)
theory Conversation_Store
  imports Lcm_Db Media_Text
begin

text \<open>
  The \<open>conversations\<close> table and its operations (\<open>store/conversation.py\<close>). The partial unique index
  \<open>conversations_active_session_key_idx\<close> is the check of the insertion: no two active rows with the
  same session key. Times are seconds, and \<open>now\<close> is the clock of the database. Where SQL leaves the
  order of equal times open, the newer row comes first, as in a backward scan of the index.

  A row is only ever found, refreshed or added, so the table keeps its invariant, and asking twice
  for a conversation gives the same one.
\<close>

record conversation_record =
  cv_conversation_id :: int
  cv_session_id :: utext
  cv_session_key :: "utext option"
  cv_active :: bool
  cv_archived_at :: "int option"
  cv_title :: "utext option"
  cv_bootstrapped_at :: "int option"
  cv_created_at :: int
  cv_updated_at :: int

record conversation_table =
  ct_rows :: "conversation_record list"
  ct_next_id :: int

definition wf_conversations :: "conversation_table \<Rightarrow> bool" where
  "wf_conversations t \<longleftrightarrow>
     distinct (map cv_conversation_id (ct_rows t))
   \<and> list_all (\<lambda>c. cv_conversation_id c < ct_next_id t) (ct_rows t)
   \<and> distinct (List.map_filter cv_session_key (filter cv_active (ct_rows t)))"

definition get_conversation :: "conversation_table \<Rightarrow> int \<Rightarrow> conversation_record option" where
  "get_conversation t cid = List.find (\<lambda>c. cv_conversation_id c = cid) (ct_rows t)"

definition newest_first :: "conversation_record list \<Rightarrow> conversation_record list" where
  "newest_first rows = sort_key (\<lambda>c. - cv_created_at c) (rev rows)"

definition active_first :: "conversation_record list \<Rightarrow> conversation_record list" where
  "active_first rows = sort_key (\<lambda>c. if cv_active c then 0 else 1 :: int) rows"

definition first_of :: "'a list \<Rightarrow> 'a option" where
  "first_of xs = (case xs of [] \<Rightarrow> None | x # _ \<Rightarrow> Some x)"

definition get_conversation_by_session_id :: "conversation_table \<Rightarrow> utext \<Rightarrow> conversation_record option" where
  "get_conversation_by_session_id t session_id =
     first_of (active_first (newest_first (filter (\<lambda>c. cv_session_id c = session_id) (ct_rows t))))"

definition get_conversation_by_session_key :: "conversation_table \<Rightarrow> utext \<Rightarrow> conversation_record option" where
  "get_conversation_by_session_key t session_key =
     first_of (newest_first (filter (\<lambda>c. cv_session_key c = Some session_key \<and> cv_active c) (ct_rows t)))"

definition normalized :: "utext option \<Rightarrow> utext option" where
  "normalized k = (case k of None \<Rightarrow> None | Some s \<Rightarrow> if u_strip s = [] then None else Some (u_strip s))"

record create_conversation_input =
  ci_session_id :: utext
  ci_session_key :: "utext option"
  ci_active :: "bool option"
  ci_archived_at :: "int option"
  ci_title :: "utext option"

definition conversation_of_input :: "int \<Rightarrow> int \<Rightarrow> create_conversation_input \<Rightarrow> conversation_record" where
  "conversation_of_input now cid inp =
     \<lparr>cv_conversation_id = cid, cv_session_id = ci_session_id inp, cv_session_key = ci_session_key inp,
      cv_active = (ci_active inp \<noteq> Some False), cv_archived_at = ci_archived_at inp, cv_title = ci_title inp,
      cv_bootstrapped_at = None, cv_created_at = now, cv_updated_at = now\<rparr>"

definition create_conversation ::
    "int \<Rightarrow> create_conversation_input \<Rightarrow> conversation_table \<Rightarrow> db_error + conversation_record \<times> conversation_table" where
  "create_conversation now inp t =
     (let row = conversation_of_input now (ct_next_id t) inp in
      if cv_active row \<and> cv_session_key row \<noteq> None
         \<and> list_ex (\<lambda>c. cv_active c \<and> cv_session_key c = cv_session_key row) (ct_rows t)
      then
        (case (case ci_session_key inp of
             Some k \<Rightarrow> if k = [] then None else get_conversation_by_session_key t k | None \<Rightarrow> None) of
           Some existing \<Rightarrow> Inr (existing, t)
         | None \<Rightarrow>
             (case get_conversation_by_session_id t (ci_session_id inp) of
                Some existing \<Rightarrow> Inr (existing, t)
              | None \<Rightarrow> Inl Integrity_Error))
      else Inr (row, t\<lparr>ct_rows := ct_rows t @ [row], ct_next_id := ct_next_id t + 1\<rparr>))"

definition update_conversation ::
    "int \<Rightarrow> (conversation_record \<Rightarrow> conversation_record) \<Rightarrow> conversation_table \<Rightarrow> conversation_table" where
  "update_conversation cid f t =
     t\<lparr>ct_rows := map (\<lambda>c. if cv_conversation_id c = cid then f c else c) (ct_rows t)\<rparr>"

definition get_conversation_for_session ::
    "conversation_table \<Rightarrow> utext option \<Rightarrow> utext option \<Rightarrow> conversation_record option" where
  "get_conversation_for_session t session_id session_key =
     (case (case normalized session_key of Some k \<Rightarrow> get_conversation_by_session_key t k | None \<Rightarrow> None) of
        Some c \<Rightarrow> Some c
      | None \<Rightarrow> (case normalized session_id of Some i \<Rightarrow> get_conversation_by_session_id t i | None \<Rightarrow> None))"

text \<open>The ids of the conversations that share the base's session key, or its session id.\<close>

definition get_conversation_family_ids ::
    "conversation_table \<Rightarrow> int option \<Rightarrow> utext option \<Rightarrow> utext option \<Rightarrow> int list" where
  "get_conversation_family_ids t conversation_id session_id session_key =
     (case (case conversation_id of Some cid \<Rightarrow> get_conversation t cid
          | None \<Rightarrow> get_conversation_for_session t session_id session_key) of
        None \<Rightarrow> []
      | Some base \<Rightarrow>
          (case normalized (cv_session_key base) of
             Some k \<Rightarrow> map cv_conversation_id (active_first (newest_first
               (sort_key cv_conversation_id (filter (\<lambda>c. cv_session_key c = Some k) (ct_rows t)))))
           | None \<Rightarrow> map cv_conversation_id (active_first (newest_first
               (sort_key cv_conversation_id (filter (\<lambda>c. cv_session_id c = cv_session_id base) (ct_rows t)))))))"

definition list_active_conversations :: "conversation_table \<Rightarrow> int option \<Rightarrow> conversation_record list" where
  "list_active_conversations t limit =
     (let normalized_limit = (case limit of Some n \<Rightarrow> if 0 < n then nat n else 1000 | None \<Rightarrow> 1000) in
      take normalized_limit (sort_key (\<lambda>c. - cv_updated_at c)
        (rev (sort_key cv_conversation_id (filter cv_active (ct_rows t))))))"

definition get_or_create_conversation ::
    "int \<Rightarrow> utext \<Rightarrow> utext option \<Rightarrow> utext option \<Rightarrow> conversation_table
     \<Rightarrow> db_error + conversation_record \<times> conversation_table" where
  "get_or_create_conversation now session_id title session_key t =
     (let normalized_key = normalized session_key;
          create = create_conversation now \<lparr>ci_session_id = session_id, ci_session_key = normalized_key,
            ci_active = None, ci_archived_at = None, ci_title = title\<rparr> t in
      case (case normalized_key of Some k \<Rightarrow> get_conversation_by_session_key t k | None \<Rightarrow> None) of
        Some by_key \<Rightarrow>
          if cv_session_id by_key \<noteq> session_id then
            let t' = update_conversation (cv_conversation_id by_key)
                  (\<lambda>c. c\<lparr>cv_session_id := session_id, cv_updated_at := now\<rparr>) t in
            Inr ((case get_conversation t' (cv_conversation_id by_key) of Some r \<Rightarrow> r | None \<Rightarrow> by_key), t')
          else Inr (by_key, t)
      | None \<Rightarrow>
          (case get_conversation_by_session_id t session_id of
             None \<Rightarrow> create
           | Some existing \<Rightarrow>
               if normalized_key = None then Inr (existing, t)
               else if cv_active existing \<and> cv_session_key existing = None then
                 let t' = update_conversation (cv_conversation_id existing)
                       (\<lambda>c. c\<lparr>cv_session_key := normalized_key, cv_updated_at := now\<rparr>) t in
                 Inr ((case get_conversation t' (cv_conversation_id existing) of Some r \<Rightarrow> r | None \<Rightarrow> existing), t')
               else if cv_active existing \<and> cv_session_key existing = normalized_key then Inr (existing, t)
               else create))"

definition mark_conversation_bootstrapped :: "int \<Rightarrow> int \<Rightarrow> conversation_table \<Rightarrow> conversation_table" where
  "mark_conversation_bootstrapped now cid = update_conversation cid (\<lambda>c.
     c\<lparr>cv_bootstrapped_at := (case cv_bootstrapped_at c of Some b \<Rightarrow> Some b | None \<Rightarrow> Some now), cv_updated_at := now\<rparr>)"

definition archive_conversation :: "int \<Rightarrow> int \<Rightarrow> conversation_table \<Rightarrow> conversation_table" where
  "archive_conversation now cid = update_conversation cid (\<lambda>c.
     c\<lparr>cv_active := False, cv_archived_at := (case cv_archived_at c of Some b \<Rightarrow> Some b | None \<Rightarrow> Some now),
       cv_updated_at := now\<rparr>)"

subsection \<open>Facts about the lookups\<close>

lemma map_filter_unique:
  "distinct (List.map_filter f xs) \<Longrightarrow> x \<in> set xs \<Longrightarrow> y \<in> set xs \<Longrightarrow> f x = Some v \<Longrightarrow> f y = Some v \<Longrightarrow> x = y"
  by (induction xs) (auto simp: set_map_filter split: option.splits)

lemma first_of_set: "first_of xs = Some x \<Longrightarrow> x \<in> set xs" "first_of xs = None \<longleftrightarrow> xs = []"
  by (auto simp: first_of_def split: list.splits)

lemma set_orders [simp]: "set (newest_first xs) = set xs" "set (active_first xs) = set xs"
  "newest_first xs = [] \<longleftrightarrow> xs = []" "active_first xs = [] \<longleftrightarrow> xs = []"
  by (simp_all add: newest_first_def active_first_def flip: length_0_conv)

lemma by_key_None:
  "get_conversation_by_session_key t k = None \<longleftrightarrow> (\<forall>c \<in> set (ct_rows t). \<not> (cv_session_key c = Some k \<and> cv_active c))"
  by (auto simp: get_conversation_by_session_key_def first_of_set(2) filter_empty_conv)

lemma by_key_Some:
  assumes "wf_conversations t"
  shows "get_conversation_by_session_key t k = Some c \<longleftrightarrow> c \<in> set (ct_rows t) \<and> cv_session_key c = Some k \<and> cv_active c"
proof
  show "get_conversation_by_session_key t k = Some c \<Longrightarrow> c \<in> set (ct_rows t) \<and> cv_session_key c = Some k \<and> cv_active c"
    by (auto simp: get_conversation_by_session_key_def dest!: first_of_set(1))
  assume c: "c \<in> set (ct_rows t) \<and> cv_session_key c = Some k \<and> cv_active c"
  then obtain d where d: "get_conversation_by_session_key t k = Some d"
    using by_key_None[of t k] by (cases "get_conversation_by_session_key t k") auto
  then have "d \<in> set (filter cv_active (ct_rows t))" "cv_session_key d = Some k"
    by (auto simp: get_conversation_by_session_key_def dest!: first_of_set(1))
  then have "d = c"
    using map_filter_unique[of cv_session_key "filter cv_active (ct_rows t)" d c k] assms c
    by (auto simp: wf_conversations_def)
  with d show "get_conversation_by_session_key t k = Some c" by simp
qed

lemma by_id_Some: "get_conversation_by_session_id t s = Some c \<Longrightarrow> c \<in> set (ct_rows t) \<and> cv_session_id c = s"
  by (auto simp: get_conversation_by_session_id_def dest!: first_of_set(1))

lemma by_id_None: "get_conversation_by_session_id t s = None \<longleftrightarrow> (\<forall>c \<in> set (ct_rows t). cv_session_id c \<noteq> s)"
  by (auto simp: get_conversation_by_session_id_def first_of_set(2) filter_empty_conv)

lemma find_by_key:
  "distinct (map f xs) \<Longrightarrow> x \<in> set xs \<Longrightarrow> List.find (\<lambda>y. f y = f x) xs = Some x"
  by (induction xs) (auto simp: image_iff)

lemma get_conversation_row:
  "wf_conversations t \<Longrightarrow> c \<in> set (ct_rows t) \<Longrightarrow> get_conversation t (cv_conversation_id c) = Some c"
  by (simp add: wf_conversations_def get_conversation_def find_by_key)

lemma map_update_ids [simp]:
  "(\<And>c. cv_conversation_id (f c) = cv_conversation_id c) \<Longrightarrow>
    map cv_conversation_id (map (\<lambda>c. if cv_conversation_id c = i then f c else c) rows) = map cv_conversation_id rows"
  by simp

lemma update_conversation_row:
  assumes "wf_conversations t" "c \<in> set (ct_rows t)" "\<And>c. cv_conversation_id (f c) = cv_conversation_id c"
  shows "get_conversation (update_conversation (cv_conversation_id c) f t) (cv_conversation_id c) = Some (f c)"
proof -
  let ?rows = "ct_rows (update_conversation (cv_conversation_id c) f t)"
  have "distinct (map cv_conversation_id ?rows)" "f c \<in> set ?rows"
    using assms by (auto simp: update_conversation_def wf_conversations_def comp_def if_distrib cong: if_cong)
  from find_by_key[OF this] show ?thesis
    by (simp add: get_conversation_def assms(3))
qed

lemma map_filter_update:
  assumes "x \<in> set xs" "distinct (map f xs)" "f (g x) = f x" "g x \<noteq> x"
    "h x = None" "h (g x) = Some v" "v \<notin> set (List.map_filter h xs)" "distinct (List.map_filter h xs)"
  shows "distinct (List.map_filter h (map (\<lambda>y. if f y = f x then g y else y) xs))"
  using assms
proof (induction xs)
  case (Cons y ys)
  show ?case
  proof (cases "y = x")
    case True
    with Cons.prems have "map (\<lambda>z. if f z = f x then g z else z) ys = ys"
      by (auto intro!: map_idI simp: image_iff)
    with True Cons.prems show ?thesis by simp
  next
    case False
    with Cons.prems have ne: "f y \<noteq> f x" "x \<in> set ys" by (auto simp: image_iff)
    have "distinct (List.map_filter h (map (\<lambda>z. if f z = f x then g z else z) ys))"
      using Cons.prems ne by (intro Cons.IH) (auto split: option.splits)
    moreover have "set (List.map_filter h (map (\<lambda>z. if f z = f x then g z else z) ys))
        \<subseteq> insert v (set (List.map_filter h ys))"
      using Cons.prems(2,6) ne
      by (auto simp: set_map_filter split: if_splits) (metis distinct_map inj_onD option.inject)
    ultimately show ?thesis
      using Cons.prems ne by (auto split: option.splits)
  qed
qed simp

lemma wf_create_row:
  assumes "wf_conversations t" "c = conversation_of_input now (ct_next_id t) inp"
    "cv_active c \<Longrightarrow> \<forall>k. cv_session_key c = Some k \<longrightarrow> get_conversation_by_session_key t k = None"
  shows "wf_conversations (t\<lparr>ct_rows := ct_rows t @ [c], ct_next_id := ct_next_id t + 1\<rparr>)"
proof -
  have "cv_conversation_id c = ct_next_id t" using assms(2) by (simp add: conversation_of_input_def)
  with assms(1,3) show ?thesis
    by (fastforce simp: wf_conversations_def list_all_iff List.map_filter_def by_key_None)
qed

lemma map_filter_filter_active:
  "List.map_filter cv_session_key (filter cv_active rows)
    = List.map_filter (\<lambda>c. if cv_active c then cv_session_key c else None) rows"
  by (induction rows) (auto split: option.splits)

lemma wf_update_session_id:
  "wf_conversations t \<Longrightarrow> wf_conversations (update_conversation i (\<lambda>c. c\<lparr>cv_session_id := s, cv_updated_at := now\<rparr>) t)"
proof -
  assume wf: "wf_conversations t"
  have "List.map_filter h (map (\<lambda>c. if cv_conversation_id c = i then c\<lparr>cv_session_id := s, cv_updated_at := now\<rparr> else c) rows)
      = List.map_filter h rows"
    if "\<And>c. h (c\<lparr>cv_session_id := s, cv_updated_at := now\<rparr>) = h c" for h :: "conversation_record \<Rightarrow> utext option" and rows
    using that by (induction rows) (auto split: option.splits)
  with wf show ?thesis
    by (auto simp: wf_conversations_def update_conversation_def map_filter_filter_active list_all_iff
        comp_def if_distrib cong: if_cong)
qed

lemma wf_update_session_key:
  assumes "wf_conversations t" "c \<in> set (ct_rows t)" "cv_active c" "cv_session_key c = None"
    "get_conversation_by_session_key t k = None"
  shows "wf_conversations (update_conversation (cv_conversation_id c)
    (\<lambda>c. c\<lparr>cv_session_key := Some k, cv_updated_at := now\<rparr>) t)"
proof -
  let ?h = "\<lambda>c. if cv_active c then cv_session_key c else None"
  let ?g = "\<lambda>c :: conversation_record. c\<lparr>cv_session_key := Some k, cv_updated_at := now\<rparr>"
  have "?g c \<noteq> c"
  proof
    assume "?g c = c"
    then have "cv_session_key (?g c) = cv_session_key c" by simp
    with assms(4) show False by simp
  qed
  moreover have "k \<notin> set (List.map_filter ?h (ct_rows t))"
    using assms(5) by (auto simp: set_map_filter by_key_None split: if_splits)
  ultimately have "distinct (List.map_filter ?h
      (map (\<lambda>d. if cv_conversation_id d = cv_conversation_id c then ?g d else d) (ct_rows t)))"
    using assms
    by (intro map_filter_update[where f = cv_conversation_id and v = k])
      (auto simp: wf_conversations_def map_filter_filter_active)
  with assms(1) show ?thesis
    by (auto simp: wf_conversations_def update_conversation_def map_filter_filter_active list_all_iff
        comp_def if_distrib cong: if_cong)
qed

text \<open>A row is settled for a session when the lookups of \<open>get_or_create_conversation\<close> find it as it is.\<close>

definition settled :: "conversation_table \<Rightarrow> utext \<Rightarrow> utext option \<Rightarrow> conversation_record \<Rightarrow> bool" where
  "settled t session_id key r \<longleftrightarrow>
     (case normalized key of
        Some k \<Rightarrow> get_conversation_by_session_key t k = Some r \<and> cv_session_id r = session_id
      | None \<Rightarrow> get_conversation_by_session_id t session_id = Some r)"

lemma settled_returns:
  "settled t session_id key r \<Longrightarrow> get_or_create_conversation now session_id title key t = Inr (r, t)"
  by (auto simp: settled_def get_or_create_conversation_def Let_def split: option.splits)

lemma create_settles:
  fixes now session_id title key t
  defines "inp \<equiv> \<lparr>ci_session_id = session_id, ci_session_key = normalized key, ci_active = None,
    ci_archived_at = None, ci_title = title\<rparr>"
  assumes wf: "wf_conversations t"
    and free: "\<And>k. normalized key = Some k \<Longrightarrow> get_conversation_by_session_key t k = None"
    and new: "normalized key = None \<Longrightarrow> get_conversation_by_session_id t session_id = None"
  shows "\<exists>r t'. create_conversation now inp t = Inr (r, t') \<and> wf_conversations t' \<and> settled t' session_id key r"
proof -
  let ?r = "conversation_of_input now (ct_next_id t) inp"
  let ?t = "t\<lparr>ct_rows := ct_rows t @ [?r], ct_next_id := ct_next_id t + 1\<rparr>"
  have r: "cv_active ?r" "cv_session_key ?r = normalized key" "cv_session_id ?r = session_id"
    by (simp_all add: conversation_of_input_def inp_def)
  have "\<not> (cv_session_key ?r \<noteq> None \<and> list_ex (\<lambda>c. cv_active c \<and> cv_session_key c = cv_session_key ?r) (ct_rows t))"
    using free by (auto simp: r by_key_None list_ex_iff)
  then have "create_conversation now inp t = Inr (?r, ?t)"
    by (auto simp: create_conversation_def Let_def)
  moreover have wf': "wf_conversations ?t"
    using wf_create_row[OF wf refl] free r by simp
  moreover have "settled ?t session_id key ?r"
  proof (cases "normalized key")
    case None
    then have "filter (\<lambda>c. cv_session_id c = session_id) (ct_rows t) = []"
      using new by (auto simp: by_id_None filter_empty_conv)
    with None r show ?thesis
      by (simp add: settled_def get_conversation_by_session_id_def newest_first_def active_first_def first_of_def)
  next
    case (Some k)
    then show ?thesis using r by (simp add: settled_def by_key_Some[OF wf'])
  qed
  ultimately show ?thesis by blast
qed

lemma update_settles:
  assumes wf': "wf_conversations (update_conversation (cv_conversation_id c) f t)"
    and wf: "wf_conversations t" and c: "c \<in> set (ct_rows t)"
    and f: "\<And>c. cv_conversation_id (f c) = cv_conversation_id c"
    and key: "normalized key = Some k" "cv_session_key (f c) = Some k" "cv_active (f c)" "cv_session_id (f c) = session_id"
  shows "settled (update_conversation (cv_conversation_id c) f t) session_id key (f c)"
proof -
  have "f c \<in> set (ct_rows (update_conversation (cv_conversation_id c) f t))"
    using c by (force simp: update_conversation_def)
  then show ?thesis using key by (simp add: settled_def by_key_Some[OF wf'])
qed

lemma get_or_create_settles:
  assumes wf: "wf_conversations t"
  shows "\<exists>r t'. get_or_create_conversation now session_id title key t = Inr (r, t')
    \<and> wf_conversations t' \<and> settled t' session_id key r"
proof (cases "case normalized key of Some k \<Rightarrow> get_conversation_by_session_key t k | None \<Rightarrow> None")
  case (Some c)
  then obtain k where k: "normalized key = Some k" "get_conversation_by_session_key t k = Some c"
    by (auto split: option.splits)
  then have c: "c \<in> set (ct_rows t)" "cv_session_key c = Some k" "cv_active c"
    by (auto simp: by_key_Some[OF wf])
  show ?thesis
  proof (cases "cv_session_id c = session_id")
    case False
    let ?f = "\<lambda>c. c\<lparr>cv_session_id := session_id, cv_updated_at := now\<rparr>"
    from c wf have "settled (update_conversation (cv_conversation_id c) ?f t) session_id key (?f c)"
      by (intro update_settles[OF wf_update_session_id[OF wf] wf _ _ k(1)]) auto
    with False k wf_update_session_id[OF wf] update_conversation_row[OF wf c(1), of ?f] show ?thesis
      by (simp add: get_or_create_conversation_def Let_def)
  qed (use k wf in \<open>simp add: get_or_create_conversation_def Let_def settled_def\<close>)
next
  case nokey: None
  then have free: "get_conversation_by_session_key t k = None" if "normalized key = Some k" for k
    using that by simp
  let ?create = "create_conversation now \<lparr>ci_session_id = session_id, ci_session_key = normalized key,
            ci_active = None, ci_archived_at = None, ci_title = title\<rparr> t"
  note created = create_settles[OF wf, of key session_id now title, OF free]
  show ?thesis
  proof (cases "get_conversation_by_session_id t session_id")
    case None
    with nokey created show ?thesis
      by (simp add: get_or_create_conversation_def Let_def)
  next
    case (Some c)
    note c = by_id_Some[OF Some]
    show ?thesis
    proof (cases "normalized key")
      case None
      with Some wf show ?thesis by (simp add: get_or_create_conversation_def Let_def settled_def)
    next
      case k: (Some k)
      let ?f = "\<lambda>c. c\<lparr>cv_session_key := Some k, cv_updated_at := now\<rparr>"
      consider "cv_active c" "cv_session_key c = None" | "cv_active c" "cv_session_key c = Some k"
        | "\<not> (cv_active c \<and> (cv_session_key c = None \<or> cv_session_key c = Some k))" by satx
      then show ?thesis
      proof cases
        case 1
        note wf' = wf_update_session_key[OF wf conjunct1[OF c] 1 free[OF k], of now]
        have "settled (update_conversation (cv_conversation_id c) ?f t) session_id key (?f c)"
          using c 1 by (intro update_settles[OF wf' wf _ _ k]) auto
        with wf' 1 k Some free[OF k] update_conversation_row[OF wf conjunct1[OF c], of ?f] show ?thesis
          by (simp add: get_or_create_conversation_def Let_def)
      next
        case 2
        with c free[OF k] show ?thesis by (auto simp: by_key_None)
      next
        case 3
        with k Some free[OF k] created show ?thesis
          by (auto simp: get_or_create_conversation_def Let_def)
      qed
    qed
  qed
qed

lemma settled_matches:
  assumes "wf_conversations t" "settled t session_id key r"
  shows "r \<in> set (ct_rows t) \<and> cv_session_id r = session_id
    \<and> (normalized key = None \<or> cv_active r \<and> cv_session_key r = normalized key)"
  using assms(2) by (auto simp: settled_def by_key_Some[OF assms(1)] dest: by_id_Some split: option.splits)

text \<open>\<open>get_or_create_conversation\<close> never fails: it gives a row of the table with the session's id
  and, when a key that is not blank is given, an active row with that key. The table keeps its
  invariant (ids and active keys unique), and asking again for the session later, whatever the
  clock and the title, gives the same row and changes nothing.\<close>

theorem get_or_create_stable:
  assumes "wf_conversations t"
  shows "case get_or_create_conversation now session_id title key t of
      Inl _ \<Rightarrow> False
    | Inr (r, t') \<Rightarrow> wf_conversations t' \<and> r \<in> set (ct_rows t') \<and> cv_session_id r = session_id
        \<and> (normalized key = None \<or> cv_active r \<and> cv_session_key r = normalized key)
        \<and> get_or_create_conversation now' session_id title' key t' = Inr (r, t')"
proof -
  from get_or_create_settles[OF assms] obtain r t' where
    "get_or_create_conversation now session_id title key t = Inr (r, t')" "wf_conversations t'"
    "settled t' session_id key r" by blast
  with settled_matches[of t' session_id key r] show ?thesis by (simp add: settled_returns)
qed

definition two_sessions :: conversation_table where
  "two_sessions = \<lparr>ct_rows =
     [\<lparr>cv_conversation_id = 1, cv_session_id = cps ''s'', cv_session_key = None, cv_active = True,
       cv_archived_at = None, cv_title = None, cv_bootstrapped_at = None, cv_created_at = 5, cv_updated_at = 5\<rparr>,
      \<lparr>cv_conversation_id = 2, cv_session_id = cps ''t'', cv_session_key = Some (cps ''k''), cv_active = False,
       cv_archived_at = Some 8, cv_title = None, cv_bootstrapped_at = None, cv_created_at = 6, cv_updated_at = 8\<rparr>],
     ct_next_id = 3\<rparr>"

theorem get_or_create_stable_witness:
  "wf_conversations two_sessions
   \<and> (case get_or_create_conversation 10 (cps ''s'') None (Some (cps '' k'')) two_sessions of
        Inl _ \<Rightarrow> False
      | Inr (r, t') \<Rightarrow> cv_session_id r = cps ''s'' \<and> cv_session_key r = Some (cps ''k''))"
proof -
  have wf: "wf_conversations two_sessions" by code_simp
  have k: "normalized (Some (cps '' k'')) = Some (cps ''k'')" 
    by (simp add: normalized_def u_strip_def u_lstrip_def u_rstrip_def u_isspace_def cps_def)
  obtain e where e: "get_or_create_conversation 10 (cps ''s'') None (Some (cps '' k'')) two_sessions = e" by blast
  have "case e of Inl _ \<Rightarrow> False
      | Inr (r, t') \<Rightarrow> cv_session_id r = cps ''s'' \<and> cv_session_key r = Some (cps ''k'')"
    using get_or_create_stable[OF wf, where now = 10 and session_id = "cps ''s''" and title = None
        and key = "Some (cps '' k'')" and now' = 11 and title' = None]
    unfolding k e by (cases e) auto
  with wf e show ?thesis by simp
qed

end
