(* ===== verification/Large_Files.thy ===== *)
theory Large_Files
  imports Conversation_Store "HOL-Library.Word" "HOL-Library.List_Lexorder" "HOL-Library.Product_Lexorder"
begin

text \<open>
  Files moved out of the database (\<open>large_files.py\<close>): the reference texts that stand for them in a
  message, the file extension, and the manager that keeps a blob on disk and a row of the
  \<open>large_files\<close> table in step.

  The disk is a map from paths to bytes. What the environment decides is an argument, indexed by the
  number of the call: the random id, the clock, and whether the disk or the database refuses.

  A stored text is read back as its UTF-8 bytes, and a call that fails leaves nothing behind, with
  one exception: an id that is already in use destroys the blob that was stored under it.
\<close>

subsection \<open>UTF-8\<close>

text \<open>\<open>str.encode("utf-8")\<close>, \<open>None\<close> for \<open>UnicodeEncodeError\<close> (a lone surrogate).\<close>

definition utf8_char :: "nat \<Rightarrow> 8 word list option" where
  "utf8_char n =
     (if n < 0x80 then Some [of_nat n]
      else if n < 0x800 then Some [of_nat (0xC0 + n div 0x40), of_nat (0x80 + n mod 0x40)]
      else if 0xD800 \<le> n \<and> n < 0xE000 then None
      else if n < 0x10000 then
        Some [of_nat (0xE0 + n div 0x1000), of_nat (0x80 + n div 0x40 mod 0x40), of_nat (0x80 + n mod 0x40)]
      else if n < 0x110000 then
        Some [of_nat (0xF0 + n div 0x40000), of_nat (0x80 + n div 0x1000 mod 0x40),
              of_nat (0x80 + n div 0x40 mod 0x40), of_nat (0x80 + n mod 0x40)]
      else None)"

fun utf8 :: "utext \<Rightarrow> 8 word list option" where
  "utf8 [] = Some []"
| "utf8 (c # cs) =
     (case utf8_char c of None \<Rightarrow> None
      | Some b \<Rightarrow> (case utf8 cs of None \<Rightarrow> None | Some bs \<Rightarrow> Some (b @ bs)))"

subsection \<open>Names\<close>

definition text_starts :: "utext \<Rightarrow> utext \<Rightarrow> bool" where
  "text_starts p s \<longleftrightarrow> take (length p) s = p"

definition after_last :: "nat list \<Rightarrow> utext \<Rightarrow> utext" where
  "after_last seps s = rev (takeWhile (\<lambda>c. c \<notin> set seps) (rev s))"

text \<open>\<open>rfind(".")\<close> at 0, at the end or nowhere gives no extension.\<close>

definition collect_filename_extension :: "utext option \<Rightarrow> utext option" where
  "collect_filename_extension file_name = (case file_name of
     None \<Rightarrow> None
   | Some name \<Rightarrow>
       if name = [] then None
       else let base = after_last [0x5C, 0x2F] (u_strip name);
                suffix = after_last [0x2E] base;
                ext = u_lower suffix in
         if 0x2E \<notin> set base \<or> length base = length suffix + 1 \<or> suffix = [] then None
         else if list_all (\<lambda>c. (97 \<le> c \<and> c \<le> 122) \<or> u_digit c) ext \<and> 1 \<le> length ext \<and> length ext \<le> 10 then Some ext
         else None)"

definition mime_extension_map :: "(utext \<times> utext) list" where
  "mime_extension_map = map (\<lambda>(m, e). (cps m, cps e))
     [(''application/json'', ''json''), (''application/xml'', ''xml''), (''application/yaml'', ''yaml''),
      (''application/x-yaml'', ''yaml''), (''application/x-ndjson'', ''json''), (''application/csv'', ''csv''),
      (''application/javascript'', ''js''), (''application/typescript'', ''ts''),
      (''application/x-python-code'', ''py''), (''application/x-rust'', ''rs''), (''application/x-sh'', ''sh''),
      (''text/csv'', ''csv''), (''text/markdown'', ''md''), (''text/plain'', ''txt''),
      (''text/tab-separated-values'', ''tsv''), (''text/x-c'', ''c''), (''text/x-c++'', ''cpp''), (''text/x-go'', ''go''),
      (''text/x-java'', ''java''), (''text/x-python'', ''py''), (''text/x-rust'', ''rs''), (''text/x-script.python'', ''py''),
      (''text/x-shellscript'', ''sh''), (''text/x-typescript'', ''ts''), (''text/xml'', ''xml'')]"

definition guess_mime_extension :: "utext option \<Rightarrow> utext option" where
  "guess_mime_extension mime_type = (case mime_type of
     None \<Rightarrow> None
   | Some m \<Rightarrow> if m = [] then None else map_of mime_extension_map (u_lower (u_strip m)))"

definition extension_from_name_or_mime :: "utext option \<Rightarrow> utext option \<Rightarrow> utext" where
  "extension_from_name_or_mime file_name mime_type = (case collect_filename_extension file_name of
     Some e \<Rightarrow> e
   | None \<Rightarrow> (case guess_mime_extension mime_type of Some e \<Rightarrow> e | None \<Rightarrow> cps ''txt''))"

subsection \<open>Reference texts\<close>

definition or_else :: "utext \<Rightarrow> string \<Rightarrow> utext" where
  "or_else t d = (if t = [] then cps d else t)"

definition summary_body :: "utext \<Rightarrow> utext" where
  "summary_body summary = or_else (u_strip summary) ''(no summary available)''"

definition format_file_reference :: "utext \<Rightarrow> utext option \<Rightarrow> utext option \<Rightarrow> int \<Rightarrow> utext \<Rightarrow> utext" where
  "format_file_reference file_id file_name mime_type byte_size summary =
     u_join [10]
       [cps ''[LCM File: '' @ file_id @ cps '' | '' @ or_else (u_strip (case file_name of Some n \<Rightarrow> n | None \<Rightarrow> [])) ''unknown''
          @ cps '' | '' @ or_else (u_strip (case mime_type of Some n \<Rightarrow> n | None \<Rightarrow> [])) ''unknown''
          @ cps '' | '' @ format_int (max 0 byte_size) @ cps '' bytes]'',
        [], cps ''Exploration Summary:'', summary_body summary]"

definition format_tool_output_reference :: "utext \<Rightarrow> utext option \<Rightarrow> int \<Rightarrow> utext \<Rightarrow> utext" where
  "format_tool_output_reference file_id tool_name byte_size summary =
     u_join [10]
       [cps ''[LCM Tool Output: '' @ file_id @ cps '' | tool=''
          @ or_else (u_strip (case tool_name of Some n \<Rightarrow> n | None \<Rightarrow> [])) ''unknown''
          @ cps '' | '' @ format_int (max 0 byte_size) @ cps '' bytes]'',
        [], cps ''Exploration Summary:'', summary_body summary, [],
        cps ''Use lcm_describe with the file id to inspect the full output.'']"

definition format_raw_payload_reference :: "utext \<Rightarrow> utext \<Rightarrow> int \<Rightarrow> utext \<Rightarrow> utext \<Rightarrow> utext" where
  "format_raw_payload_reference file_id role byte_size reason summary =
     u_join [10]
       [cps ''[LCM Raw Payload: '' @ file_id @ cps '' | role='' @ or_else (u_strip role) ''unknown''
          @ cps '' | reason='' @ or_else (u_strip reason) ''large_raw_message''
          @ cps '' | '' @ format_int (max 0 byte_size) @ cps '' bytes]'',
        [], cps ''Exploration Summary:'', summary_body summary, [],
        cps ''Use lcm_describe with the file id to inspect the full payload.'']"

subsection \<open>The manager\<close>

record large_file_record =
  lf_file_id :: utext
  lf_conversation_id :: int
  lf_file_name :: "utext option"
  lf_mime_type :: "utext option"
  lf_byte_size :: "int option"
  lf_storage_uri :: utext
  lf_exploration_summary :: "utext option"
  lf_created_at :: int

record file_store =
  fs_rows :: "large_file_record list"
  fs_blobs :: "utext \<rightharpoonup> 8 word list"
  fs_tick :: nat

datatype file_fault = Disk_Fault | Db_Fault

datatype file_error = OS_Error | Operational_Error | Row_Integrity_Error | Unicode_Error
  | Key_Error utext | Blob_Missing | Size_Mismatch

record file_env =
  fe_files_dir :: utext
  fe_new_id :: "nat \<Rightarrow> utext"
  fe_now :: "nat \<Rightarrow> int"
  fe_fault :: "nat \<Rightarrow> file_fault option"

definition dir_for_conversation :: "file_env \<Rightarrow> int \<Rightarrow> utext" where
  "dir_for_conversation env conversation_id = fe_files_dir env @ [47] @ int_text conversation_id"

definition blob_path :: "file_env \<Rightarrow> int \<Rightarrow> utext \<Rightarrow> utext \<Rightarrow> utext" where
  "blob_path env conversation_id file_id extension =
     dir_for_conversation env conversation_id @ [47] @ file_id @ [46] @ extension"

definition lookup_file :: "file_store \<Rightarrow> utext \<Rightarrow> large_file_record option" where
  "lookup_file fs file_id = List.find (\<lambda>r. lf_file_id r = file_id) (fs_rows fs)"

text \<open>The insert after the blob is written; when it raises, the blob's path is unlinked.\<close>

definition insert_file_row ::
    "file_env \<Rightarrow> conversation_table \<Rightarrow> large_file_record \<Rightarrow> file_store \<Rightarrow> file_store \<times> (file_error + large_file_record)" where
  "insert_file_row env convs r fs =
     (let unlinked = fs\<lparr>fs_blobs := (fs_blobs fs)(lf_storage_uri r := None)\<rparr> in
      if fe_fault env (fs_tick fs) = Some Db_Fault then (unlinked, Inl Operational_Error)
      else if lookup_file fs (lf_file_id r) \<noteq> None
              \<or> \<not> list_ex (\<lambda>c. cv_conversation_id c = lf_conversation_id r) (ct_rows convs)
      then (unlinked, Inl Row_Integrity_Error)
      else (fs\<lparr>fs_rows := fs_rows fs @ [r]\<rparr>, Inr r))"

definition end_call :: "file_store \<times> 'a \<Rightarrow> file_store \<times> 'a" where
  "end_call p = (case p of (fs, r) \<Rightarrow> (fs\<lparr>fs_tick := fs_tick fs + 1\<rparr>, r))"

definition externalize_block ::
    "file_env \<Rightarrow> conversation_table \<Rightarrow> int \<Rightarrow> utext \<Rightarrow> utext option \<Rightarrow> utext option \<Rightarrow> utext option \<Rightarrow> utext option
     \<Rightarrow> file_store \<Rightarrow> file_store \<times> (file_error + large_file_record)" where
  "externalize_block env convs conversation_id content file_name mime_type exploration_summary file_id fs =
     end_call
       (let file_id_final = (case file_id of Some i \<Rightarrow> i | None \<Rightarrow> fe_new_id env (fs_tick fs));
            target_path = blob_path env conversation_id file_id_final (extension_from_name_or_mime file_name mime_type) in
        case utf8 content of
          None \<Rightarrow> (fs, Inl Unicode_Error)
        | Some payload \<Rightarrow>
            if fe_fault env (fs_tick fs) = Some Disk_Fault then (fs, Inl OS_Error)
            else insert_file_row env convs
              \<lparr>lf_file_id = file_id_final, lf_conversation_id = conversation_id, lf_file_name = file_name,
               lf_mime_type = mime_type, lf_byte_size = Some (int (length payload)), lf_storage_uri = target_path,
               lf_exploration_summary = exploration_summary, lf_created_at = fe_now env (fs_tick fs)\<rparr>
              (fs\<lparr>fs_blobs := (fs_blobs fs)(target_path \<mapsto> payload)\<rparr>))"

definition read_file :: "file_store \<Rightarrow> utext \<Rightarrow> file_error + 8 word list" where
  "read_file fs file_id = (case lookup_file fs file_id of
     None \<Rightarrow> Inl (Key_Error file_id)
   | Some r \<Rightarrow> (case fs_blobs fs (lf_storage_uri r) of
       None \<Rightarrow> Inl Blob_Missing
     | Some data \<Rightarrow>
         if lf_byte_size r \<noteq> None \<and> lf_byte_size r \<noteq> Some (int (length data)) then Inl Size_Mismatch
         else Inr data))"

definition delete_file :: "utext \<Rightarrow> file_store \<Rightarrow> file_store \<times> bool" where
  "delete_file file_id fs = (case lookup_file fs file_id of
     None \<Rightarrow> (fs, False)
   | Some r \<Rightarrow> (fs\<lparr>fs_rows := filter (\<lambda>r. lf_file_id r \<noteq> file_id) (fs_rows fs),
                  fs_blobs := (fs_blobs fs)(lf_storage_uri r := None)\<rparr>, True))"

definition list_for_conversation :: "file_store \<Rightarrow> int \<Rightarrow> large_file_record list" where
  "list_for_conversation fs conversation_id =
     sort_key (\<lambda>r. (lf_created_at r, lf_file_id r)) (filter (\<lambda>r. lf_conversation_id r = conversation_id) (fs_rows fs))"

definition update_file_summary :: "utext \<Rightarrow> utext \<Rightarrow> file_store \<Rightarrow> file_store \<times> bool" where
  "update_file_summary file_id summary fs =
     (fs\<lparr>fs_rows := map (\<lambda>r. if lf_file_id r = file_id then r\<lparr>lf_exploration_summary := Some summary\<rparr> else r) (fs_rows fs)\<rparr>,
      lookup_file fs file_id \<noteq> None)"

subsection \<open>The paths of two ids differ\<close>

lemma first_separator:
  "x \<notin> set a \<Longrightarrow> x \<notin> set b \<Longrightarrow> a @ x # r = b @ x # s \<longleftrightarrow> a = b \<and> r = s"
proof (induction a arbitrary: b)
  case Nil
  then show ?case by (cases b) auto
next
  case (Cons y a)
  then show ?case by (cases b) auto
qed

lemma last_separator:
  assumes "x \<notin> set a" "x \<notin> set b" "r @ x # a = s @ x # b"
  shows "r = s"
proof -
  have "rev a @ x # rev r = rev b @ x # rev s" using arg_cong[OF assms(3), of rev] by simp
  moreover have "x \<notin> set (rev a)" "x \<notin> set (rev b)" using assms by simp_all
  ultimately have "rev r = rev s" using first_separator by metis
  then show ?thesis by simp
qed

lemma dec_digits_range: "c \<in> set (dec_digits n) \<Longrightarrow> 48 \<le> c \<and> c \<le> 57"
proof (induction n rule: dec_digits.induct)
  case (1 n)
  then show ?case by (auto simp: dec_digits.simps[of n] split: if_splits)
qed

lemma int_text_no_slash: "47 \<notin> set (int_text n)"
  by (auto simp: int_text_def dest: dec_digits_range)

lemma extension_no_dot: "46 \<notin> set (extension_from_name_or_mime name mime)"
proof -
  have "46 \<notin> set e" if "collect_filename_extension name = Some e" for e
    using that by (auto simp: collect_filename_extension_def Let_def list_all_iff u_digit_def
        split: option.splits if_splits)
  moreover have "list_all (\<lambda>(_, e). 46 \<notin> set e) mime_extension_map"
    by (simp add: mime_extension_map_def cps_def)
  then have "46 \<notin> set e" if "guess_mime_extension mime = Some e" for e
    using that by (fastforce simp: guess_mime_extension_def list_all_iff split: option.splits if_splits
        dest: map_of_SomeD)
  ultimately show ?thesis
    by (auto simp: extension_from_name_or_mime_def cps_def split: option.splits)
qed

lemma blob_path_id:
  assumes "blob_path env c i (extension_from_name_or_mime n m) = blob_path env c' i' (extension_from_name_or_mime n' m')"
  shows "i = i'"
proof -
  have "i @ 46 # extension_from_name_or_mime n m = i' @ 46 # extension_from_name_or_mime n' m'"
    using assms first_separator[OF int_text_no_slash int_text_no_slash]
    by (simp add: blob_path_def dir_for_conversation_def)
  then show ?thesis by (rule last_separator[OF extension_no_dot extension_no_dot])
qed

subsection \<open>Rows and blobs in step\<close>

definition row_path :: "file_env \<Rightarrow> large_file_record \<Rightarrow> utext" where
  "row_path env r = blob_path env (lf_conversation_id r) (lf_file_id r)
     (extension_from_name_or_mime (lf_file_name r) (lf_mime_type r))"

definition in_step :: "file_env \<Rightarrow> file_store \<Rightarrow> bool" where
  "in_step env fs \<longleftrightarrow>
     distinct (map lf_file_id (fs_rows fs))
   \<and> list_all (\<lambda>r. lf_storage_uri r = row_path env r
       \<and> (case fs_blobs fs (lf_storage_uri r) of
            None \<Rightarrow> False | Some data \<Rightarrow> lf_byte_size r = Some (int (length data)))) (fs_rows fs)
   \<and> dom (fs_blobs fs) = lf_storage_uri ` set (fs_rows fs)"

lemma lookup_file_append:
  "lookup_file (fs\<lparr>fs_rows := fs_rows fs @ [r]\<rparr>) i =
     (case lookup_file fs i of Some q \<Rightarrow> Some q | None \<Rightarrow> if lf_file_id r = i then Some r else None)"
  by (simp add: lookup_file_def find_append split: option.split)

lemma lookup_file_row: "lookup_file fs i = Some r \<Longrightarrow> r \<in> set (fs_rows fs) \<and> lf_file_id r = i"
  by (auto simp: lookup_file_def dest!: find_SomeD)

lemma lookup_file_None: "lookup_file fs i = None \<longleftrightarrow> i \<notin> lf_file_id ` set (fs_rows fs)"
  by (auto simp: lookup_file_def find_None_iff)

lemma lookup_file_simps [simp]:
  "lookup_file (fs\<lparr>fs_tick := t\<rparr>) = lookup_file fs" "lookup_file (fs\<lparr>fs_blobs := b\<rparr>) = lookup_file fs"
  by (simp_all add: lookup_file_def fun_eq_iff)

lemma read_file_tick [simp]: "read_file (fs\<lparr>fs_tick := t\<rparr>) i = read_file fs i"
  by (simp add: read_file_def split: option.split)

lemma in_step_tick [simp]: "in_step env (fs\<lparr>fs_tick := t\<rparr>) = in_step env fs"
  by (simp add: in_step_def)

lemma fresh_path:
  assumes "in_step env fs" "lookup_file fs i = None"
  shows "fs_blobs fs (blob_path env c i (extension_from_name_or_mime n m)) = None"
proof (rule ccontr)
  assume "\<not> ?thesis"
  then have "blob_path env c i (extension_from_name_or_mime n m) \<in> dom (fs_blobs fs)" by (simp add: domIff)
  with assms(1) have "blob_path env c i (extension_from_name_or_mime n m) \<in> lf_storage_uri ` set (fs_rows fs)"
    unfolding in_step_def by blast
  then obtain r where r: "r \<in> set (fs_rows fs)" "lf_storage_uri r = blob_path env c i (extension_from_name_or_mime n m)"
    by auto
  then have "lf_file_id r = i"
    using assms(1) by (auto simp: in_step_def list_all_iff row_path_def dest: blob_path_id)
  with r assms(2) show False by (auto simp: lookup_file_None)
qed

lemma in_step_add:
  assumes "in_step env fs" "lookup_file fs (lf_file_id r) = None"
    "lf_storage_uri r = row_path env r" "lf_byte_size r = Some (int (length data))"
  shows "in_step env (fs\<lparr>fs_blobs := (fs_blobs fs)(lf_storage_uri r \<mapsto> data), fs_rows := fs_rows fs @ [r]\<rparr>)"
proof -
  have "lf_storage_uri q \<noteq> lf_storage_uri r" if "q \<in> set (fs_rows fs)" for q
  proof
    assume "lf_storage_uri q = lf_storage_uri r"
    then have "lf_file_id q = lf_file_id r"
      using that assms by (auto simp: in_step_def list_all_iff row_path_def dest!: blob_path_id)
    moreover have "lf_file_id q \<in> lf_file_id ` set (fs_rows fs)" using that by (rule imageI)
    ultimately show False using assms(2) by (simp add: lookup_file_None)
  qed
  with assms show ?thesis
    by (auto simp: in_step_def list_all_iff lookup_file_None split: option.splits)
qed

lemma read_in_step:
  assumes "in_step env fs" "lookup_file fs i = Some r"
  shows "\<exists>data. fs_blobs fs (lf_storage_uri r) = Some data \<and> read_file fs i = Inr data"
  using assms lookup_file_row[OF assms(2)]
  by (fastforce simp: in_step_def list_all_iff read_file_def split: option.splits)

subsection \<open>Storing and reading\<close>

definition the_file_id :: "file_env \<Rightarrow> utext option \<Rightarrow> file_store \<Rightarrow> utext" where
  "the_file_id env file_id fs = (case file_id of Some i \<Rightarrow> i | None \<Rightarrow> fe_new_id env (fs_tick fs))"

lemma externalized:
  assumes "externalize_block env convs c content name mime summ file_id fs = (fs', Inr r)"
  obtains payload where "utf8 content = Some payload" "lf_file_id r = the_file_id env file_id fs"
    "lookup_file fs (lf_file_id r) = None" "lf_storage_uri r = row_path env r"
    "lf_byte_size r = Some (int (length payload))"
    "fs' = fs\<lparr>fs_blobs := (fs_blobs fs)(lf_storage_uri r \<mapsto> payload), fs_rows := fs_rows fs @ [r], fs_tick := fs_tick fs + 1\<rparr>"
  using assms
  by (auto simp: externalize_block_def end_call_def insert_file_row_def Let_def row_path_def the_file_id_def
      split: option.splits if_splits)

lemma externalized_reads:
  assumes "in_step env fs"
    and "externalize_block env convs c content name mime summ file_id fs = (fs', Inr r)"
  shows "in_step env fs' \<and> (\<exists>data. utf8 content = Some data \<and> read_file fs' (lf_file_id r) = Inr data)
    \<and> (\<forall>i d. read_file fs i = Inr d \<longrightarrow> read_file fs' i = Inr d)"
proof -
  from assms(2) obtain payload where p: "utf8 content = Some payload"
    "lookup_file fs (lf_file_id r) = None" "lf_storage_uri r = row_path env r"
    "lf_byte_size r = Some (int (length payload))"
    "fs' = fs\<lparr>fs_blobs := (fs_blobs fs)(lf_storage_uri r \<mapsto> payload), fs_rows := fs_rows fs @ [r], fs_tick := fs_tick fs + 1\<rparr>"
    by (rule externalized)
  have look: "lookup_file fs' i = (case lookup_file fs i of Some q \<Rightarrow> Some q | None \<Rightarrow> if lf_file_id r = i then Some r else None)" for i
    by (simp add: p(5) lookup_file_def find_append split: option.split)
  have "in_step env fs'"
    using in_step_add[OF assms(1) p(2-4)] by (simp add: p(5))
  moreover have "read_file fs' (lf_file_id r) = Inr payload"
    using p(2,4) by (simp add: read_file_def look) (simp add: p(5))
  moreover have "read_file fs' i = Inr d" if "read_file fs i = Inr d" for i d
  proof -
    from that obtain q where q: "lookup_file fs i = Some q" "fs_blobs fs (lf_storage_uri q) = Some d"
      by (auto simp: read_file_def split: option.splits if_splits)
    have "fs_blobs fs (lf_storage_uri r) = None"
      using fresh_path[OF assms(1) p(2)] p(3) by (simp add: row_path_def)
    with q have "lf_storage_uri q \<noteq> lf_storage_uri r" by auto
    with that q show ?thesis by (simp add: read_file_def look) (simp add: p(5))
  qed
  ultimately show ?thesis using p(1) by blast
qed

lemma failed_externalize:
  assumes "in_step env fs" "lookup_file fs (the_file_id env file_id fs) = None"
    and "externalize_block env convs c content name mime summ file_id fs = (fs', Inl e)"
  shows "fs' = fs\<lparr>fs_tick := fs_tick fs + 1\<rparr> \<and> in_step env fs'"
proof -
  have "(fs_blobs fs)(blob_path env c (the_file_id env file_id fs) (extension_from_name_or_mime name mime) := None) = fs_blobs fs"
    using fresh_path[OF assms(1,2)] by (simp add: fun_upd_idem)
  with assms(1,3) show ?thesis
    by (auto simp: externalize_block_def end_call_def insert_file_row_def Let_def the_file_id_def
        split: option.splits if_splits)
qed

text \<open>C15. Storing a text as a file: either it is read back as its UTF-8 bytes under the id of the record
  that is returned, and whatever could be read before still can, or, when the call fails for an id
  that was not in use, rows and blobs are as before. Rows and blobs stay in step either way.\<close>

theorem externalize_reads_back:
  assumes "in_step env fs" "lookup_file fs (the_file_id env file_id fs) = None"
  shows "case externalize_block env convs c content name mime summ file_id fs of
      (fs', Inr r) \<Rightarrow> in_step env fs' \<and> (\<exists>data. utf8 content = Some data \<and> read_file fs' (lf_file_id r) = Inr data)
        \<and> (\<forall>i d. read_file fs i = Inr d \<longrightarrow> read_file fs' i = Inr d)
    | (fs', Inl e) \<Rightarrow> fs' = fs\<lparr>fs_tick := fs_tick fs + 1\<rparr> \<and> in_step env fs'"
  using externalized_reads[OF assms(1)] failed_externalize[OF assms] assms(1)
  by (auto split: prod.split sum.split)

text \<open>An id that is in use, for the same conversation and extension: the blob is overwritten before the
  insert is refused, and then unlinked, so the earlier file can no longer be read.\<close>

theorem duplicate_id_destroys_blob:
  assumes "in_step env fs" "lookup_file fs i = Some r" "lf_conversation_id r = c"
    and "extension_from_name_or_mime name mime = extension_from_name_or_mime (lf_file_name r) (lf_mime_type r)"
    and "utf8 content \<noteq> None" "fe_fault env (fs_tick fs) = None"
  shows "case externalize_block env convs c content name mime summ (Some i) fs of
      (fs', Inr _) \<Rightarrow> False
    | (fs', Inl e) \<Rightarrow> e = Row_Integrity_Error \<and> read_file fs' i = Inl Blob_Missing"
proof -
  have "lf_file_id r = i" "lf_storage_uri r = row_path env r"
    using assms(1) lookup_file_row[OF assms(2)] by (auto simp: in_step_def list_all_iff)
  then have "lf_storage_uri r = blob_path env c i (extension_from_name_or_mime name mime)"
    using assms(3,4) by (simp add: row_path_def)
  then show ?thesis
    using assms
    by (auto simp: externalize_block_def end_call_def insert_file_row_def Let_def read_file_def)
qed

definition file_env_0 :: file_env where
  "file_env_0 = \<lparr>fe_files_dir = cps ''large-files'', fe_new_id = (\<lambda>t. cps ''file_'' @ int_text (int t)),
     fe_now = int, fe_fault = (\<lambda>_. None)\<rparr>"

definition no_files :: file_store where
  "no_files = \<lparr>fs_rows = [], fs_blobs = (\<lambda>_. None), fs_tick = 0\<rparr>"

definition stored_file :: "utext \<Rightarrow> large_file_record" where
  "stored_file i = \<lparr>lf_file_id = i, lf_conversation_id = 1, lf_file_name = None, lf_mime_type = None,
     lf_byte_size = Some 2, lf_storage_uri = blob_path file_env_0 1 i (cps ''txt''),
     lf_exploration_summary = None, lf_created_at = 0\<rparr>"

definition one_file :: file_store where
  "one_file = \<lparr>fs_rows = [stored_file (cps ''a'')],
     fs_blobs = [blob_path file_env_0 1 (cps ''a'') (cps ''txt'') \<mapsto> [104, 105]], fs_tick = 3\<rparr>"

lemma no_extension [simp]: "extension_from_name_or_mime None None = cps ''txt''"
  by (simp add: extension_from_name_or_mime_def collect_filename_extension_def guess_mime_extension_def)

lemma in_step_one_file: "in_step file_env_0 one_file" "lookup_file one_file (cps ''a'') = Some (stored_file (cps ''a''))"
  by (simp_all add: in_step_def one_file_def stored_file_def row_path_def lookup_file_def)

theorem externalize_reads_back_witness:
  "case externalize_block file_env_0 two_sessions 1 (cps ''hi'') None None None None no_files of
     (fs', Inr r) \<Rightarrow> in_step file_env_0 fs' \<and> read_file fs' (lf_file_id r) = Inr [104, 105]
   | (fs', Inl e) \<Rightarrow> False"
proof -
  have "in_step file_env_0 no_files" "lookup_file no_files (the_file_id file_env_0 None no_files) = None"
    by (simp_all add: in_step_def no_files_def lookup_file_def)
  note stored = externalize_reads_back[OF this, where convs = two_sessions and c = 1 and content = "cps ''hi''"
    and name = None and mime = None and summ = None]
  have "\<exists>fs' r. externalize_block file_env_0 two_sessions 1 (cps ''hi'') None None None None no_files = (fs', Inr r)"
    by (simp add: externalize_block_def end_call_def insert_file_row_def Let_def file_env_0_def no_files_def
        two_sessions_def lookup_file_def cps_def utf8_char_def)
  moreover have "utf8 (cps ''hi'') = Some [104, 105]" by (simp add: cps_def utf8_char_def)
  ultimately show ?thesis using stored by auto
qed

theorem duplicate_id_destroys_blob_witness:
  "read_file one_file (cps ''a'') = Inr [104, 105]
   \<and> (case externalize_block file_env_0 two_sessions 1 (cps ''new'') None None None (Some (cps ''a'')) one_file of
        (fs', Inr _) \<Rightarrow> False
      | (fs', Inl e) \<Rightarrow> read_file fs' (cps ''a'') = Inl Blob_Missing)"
proof -
  have "read_file one_file (cps ''a'') = Inr [104, 105]"
    by (simp add: read_file_def in_step_one_file(2)) (simp add: one_file_def stored_file_def)
  moreover have "utf8 (cps ''new'') \<noteq> None" by (simp add: cps_def utf8_char_def)
  note duplicate_id_destroys_blob[OF in_step_one_file _ _ this, where c = 1 and name = None and mime = None
    and convs = two_sessions and summ = None]
  ultimately show ?thesis
    by (auto simp: stored_file_def file_env_0_def split: prod.splits sum.splits)
qed

end
