(* ===== verification/Ingest_Guard.thy ===== *)
theory Ingest_Guard
  imports Large_Files Message_Parts "HOL-Library.Sublist"
begin

text \<open>
  The payload guard of the ingest path (\<open>engine/ingest_guard.py\<close>): data URIs and long base64 runs in a
  message are moved into files, and a reference text takes their place.

  The two regular expressions are written out as the matchers they are. Neither can backtrack into
  another match: the characters of a media type, of a parameter and of a payload exclude the one that
  must follow, and a run is maximal on both sides. \<open>str.isalnum\<close> is asked only for characters the
  alphabet check has admitted, and the ratio of two lengths is compared exactly.

  Whatever the disk and the database do, the guarded message gives the original back: every text of
  it is the original text with files that can be read in place of their references.
\<close>

subsection \<open>Data URIs\<close>

text \<open>Letters under \<open>re.IGNORECASE\<close>; a slash may be written as itself or as a JSON escape.\<close>

definition ci_alnum :: "nat \<Rightarrow> bool" where
  "ci_alnum n \<longleftrightarrow> u_alpha n \<or> u_digit n \<or> n = 0x130 \<or> n = 0x131 \<or> n = 0x17F \<or> n = 0x212A"

definition match_slash :: "utext \<Rightarrow> utext option" where
  "match_slash s = (case match_ci (cps ''/'') s of
     Some r \<Rightarrow> Some r
   | None \<Rightarrow> (case match_ci [0x5C, 0x2F] s of
       Some r \<Rightarrow> Some r
     | None \<Rightarrow> match_ci (0x5C # cps ''u002f'') s))"

lemma match_slash_length: "match_slash s = Some r \<Longrightarrow> length r < length s"
  by (auto simp: match_slash_def cps_def dest: match_ci_length split: option.splits)

text \<open>\<open>(?:[class]|slash)*\<close>: how many items, and the text after them.\<close>

function match_items :: "(nat \<Rightarrow> bool) \<Rightarrow> utext \<Rightarrow> nat \<times> utext" where
  "match_items P [] = (0, [])"
| "match_items P (c # cs) =
     (if P c then (case match_items P cs of (n, r) \<Rightarrow> (n + 1, r))
      else case match_slash (c # cs) of
        None \<Rightarrow> (0, c # cs)
      | Some r \<Rightarrow> (case match_items P r of (n, r') \<Rightarrow> (n + 1, r')))"
  by pat_completeness auto
termination
  by (relation "measure (\<lambda>(_, s). length s)") (auto dest: match_slash_length)

lemma match_items_length: "length (snd (match_items P s)) \<le> length s"
proof (induction P s rule: match_items.induct)
  case (2 P c cs)
  show ?case
  proof (cases "P c")
    case True
    with 2(1) show ?thesis by (auto split: prod.splits)
  next
    case False
    show ?thesis
    proof (cases "match_slash (c # cs)")
      case (Some r)
      with 2(2) False match_slash_length[OF Some] show ?thesis by (auto split: prod.splits)
    qed (use False in simp)
  qed
qed simp

definition media_char :: "nat \<Rightarrow> bool" where
  "media_char n \<longleftrightarrow> ci_alnum n \<or> n \<in> set (cps ''.+-'')"

definition param_char :: "nat \<Rightarrow> bool" where
  "param_char n \<longleftrightarrow> ci_alnum n \<or> n \<in> set (cps ''_.+%-'')"

definition payload_char :: "nat \<Rightarrow> bool" where
  "payload_char n \<longleftrightarrow> ci_alnum n \<or> n \<in> set (cps ''+='')"

text \<open>\<open>(?:;[name]+=(?:[value]|slash)*)*\<close>\<close>

definition match_param :: "utext \<Rightarrow> utext option" where
  "match_param s = (case s of
     [] \<Rightarrow> None
   | c # cs \<Rightarrow>
       if c \<noteq> 59 \<or> takeWhile param_char cs = [] then None
       else (case dropWhile param_char cs of
           [] \<Rightarrow> None
         | d # ds \<Rightarrow> if d = 61 then Some (snd (match_items param_char ds)) else None))"

lemma match_param_length: "match_param s = Some r \<Longrightarrow> length r < length s"
proof -
  assume "match_param s = Some r"
  then obtain c cs d ds where s: "s = c # cs" "dropWhile param_char cs = d # ds" "r = snd (match_items param_char ds)"
    by (auto simp: match_param_def split: list.splits if_splits)
  have "length (d # ds) \<le> length cs" using length_dropWhile_le[of param_char cs] s(2) by simp
  then show ?thesis using match_items_length[of param_char ds] s by simp
qed

function match_params :: "utext \<Rightarrow> utext" where
  "match_params s = (case match_param s of None \<Rightarrow> s | Some r \<Rightarrow> match_params r)"
  by pat_completeness auto
termination
  by (relation "measure length") (auto dest: match_param_length)

declare match_params.simps [simp del]

definition data_uri_min_payload_chars :: nat where "data_uri_min_payload_chars = 256"
definition generic_base64_min_chars :: nat where "generic_base64_min_chars = 4096"

text \<open>The text after the match, if there is one; the look-ahead always holds after a maximal payload.\<close>

definition match_data_uri :: "utext \<Rightarrow> utext option" where
  "match_data_uri s = (case match_ci (cps ''data:'') s of
     None \<Rightarrow> None
   | Some a \<Rightarrow> (case match_ci (cps '';base64,'') (match_params (snd (match_items media_char a))) of
       None \<Rightarrow> None
     | Some b \<Rightarrow> (case match_items payload_char b of
         (n, r) \<Rightarrow> if data_uri_min_payload_chars \<le> n then Some r else None)))"

fun contains_data_uri_base64 :: "utext \<Rightarrow> bool" where
  "contains_data_uri_base64 [] = False"
| "contains_data_uri_base64 (c # cs) = (match_data_uri (c # cs) \<noteq> None \<or> contains_data_uri_base64 cs)"

subsection \<open>Base64 runs\<close>

definition run_char :: "nat \<Rightarrow> bool" where
  "run_char n \<longleftrightarrow> u_alpha n \<or> u_digit n \<or> n \<in> set (cps ''+/=_-'')"

definition looks_like_long_base64 :: "utext \<Rightarrow> nat \<Rightarrow> bool" where
  "looks_like_long_base64 s min_chars =
     (if length s < min_chars then False
      else let compact = filter (\<lambda>c. \<not> u_isspace c) s in
        if length compact < min_chars then False
        else if length compact mod 4 = 1 then False
        else if s = [] \<or> \<not> list_all (\<lambda>c. run_char c \<or> u_isspace c) s then False
        else if 100 * length (filter run_char s) < 98 * max 1 (length s) then False
        else 8 \<le> card (set (rev (dropWhile (\<lambda>c. c = 61) (rev compact)))))"

function base64_runs :: "utext \<Rightarrow> utext list" where
  "base64_runs [] = []"
| "base64_runs (c # cs) =
     (if run_char c then takeWhile run_char (c # cs) # base64_runs (dropWhile run_char cs)
      else base64_runs cs)"
  by pat_completeness auto
termination
  by (relation "measure length") (auto simp: le_imp_less_Suc length_dropWhile_le)

definition contains_long_base64_run :: "utext \<Rightarrow> nat \<Rightarrow> bool" where
  "contains_long_base64_run s min_chars =
     (if length s < min_chars then False
      else list_ex (\<lambda>run. generic_base64_min_chars \<le> length run \<and> looks_like_long_base64 run min_chars) (base64_runs s))"

subsection \<open>Moving payloads out\<close>

definition payload_mime_type :: "utext \<Rightarrow> utext option" where
  "payload_mime_type payload =
     (if text_starts (cps ''data:'') (u_lower (take 64 payload)) then
        let candidate = u_strip (drop 5 (takeWhile (\<lambda>c. c \<noteq> 59) payload)) in
        if candidate = [] then None else Some candidate
      else None)"

definition payload_reference :: "utext \<Rightarrow> utext \<Rightarrow> large_file_record \<Rightarrow> utext \<Rightarrow> utext" where
  "payload_reference role reason r payload =
     (let byte_size = (case lf_byte_size r of Some n \<Rightarrow> n | None \<Rightarrow> int (length payload)) in
      format_raw_payload_reference (lf_file_id r) role byte_size reason
        (cps ''Externalized at ingest: '' @ reason @ cps ''. ''
         @ int_text (if byte_size = 0 then int (length payload) else byte_size)
         @ cps '' bytes moved out of SQLite to keep the messages table, FTS shadow, WAL, and backups compact.''))"

definition externalize_payload ::
    "file_env \<Rightarrow> conversation_table \<Rightarrow> int \<Rightarrow> utext \<Rightarrow> utext \<Rightarrow> utext \<Rightarrow> file_store \<Rightarrow> file_store \<times> utext option" where
  "externalize_payload env convs c role reason payload fs =
     (if payload = [] then (fs, None)
      else (case externalize_block env convs c payload None (payload_mime_type payload) None None fs of
          (fs', Inl _) \<Rightarrow> (fs', None)
        | (fs', Inr r) \<Rightarrow> (fs', Some (payload_reference role reason r payload))))"

text \<open>What takes the place of a match: the reference, or the payload itself when it could not be stored.\<close>

definition replaced ::
    "file_env \<Rightarrow> conversation_table \<Rightarrow> int \<Rightarrow> utext \<Rightarrow> utext \<Rightarrow> utext \<Rightarrow> file_store \<Rightarrow> file_store \<times> utext" where
  "replaced env convs c role reason payload fs =
     (case externalize_payload env convs c role reason payload fs of
        (fs', Some t) \<Rightarrow> (fs', if t = [] then payload else t)
      | (fs', None) \<Rightarrow> (fs', payload))"

lemma match_ci_suffix: "match_ci p s = Some r \<Longrightarrow> suffix r s"
  by (induction p s rule: match_ci.induct) (auto split: if_splits intro: suffix_ConsI)

lemma match_slash_suffix: "match_slash s = Some r \<Longrightarrow> suffix r s"
  by (auto simp: match_slash_def dest: match_ci_suffix split: option.splits)

lemma match_items_suffix: "suffix (snd (match_items P s)) s"
proof (induction P s rule: match_items.induct)
  case (2 P c cs)
  show ?case
  proof (cases "P c")
    case True
    with 2(1) show ?thesis by (auto split: prod.splits intro: suffix_ConsI)
  next
    case False
    show ?thesis
    proof (cases "match_slash (c # cs)")
      case (Some r)
      with 2(2) False show ?thesis
        by (auto split: prod.splits intro: suffix_order.trans[OF _ match_slash_suffix[OF Some]])
    qed (use False in simp)
  qed
qed simp

lemma match_param_suffix: "match_param s = Some r \<Longrightarrow> suffix r s"
proof -
  assume "match_param s = Some r"
  then obtain c cs d ds where s: "s = c # cs" "dropWhile param_char cs = d # ds" "r = snd (match_items param_char ds)"
    by (auto simp: match_param_def split: list.splits if_splits)
  have "suffix (d # ds) cs" using suffix_dropWhile[of param_char cs] s(2) by simp
  then show ?thesis
    using match_items_suffix[of param_char ds] s by (meson suffix_ConsD suffix_ConsI suffix_order.trans)
qed

lemma match_params_suffix: "suffix (match_params s) s"
proof (induction s rule: match_params.induct)
  case (1 s)
  show ?case
  proof (cases "match_param s")
    case None
    then show ?thesis by (subst match_params.simps) simp
  next
    case (Some r)
    then show ?thesis
      using suffix_order.trans[OF 1[OF Some] match_param_suffix[OF Some]] by (subst match_params.simps) simp
  qed
qed

lemma match_data_uri_suffix:
  assumes "match_data_uri s = Some r"
  shows "suffix r s \<and> length r < length s"
proof -
  from assms obtain a b n where a: "match_ci (cps ''data:'') s = Some a"
    and b: "match_ci (cps '';base64,'') (match_params (snd (match_items media_char a))) = Some b"
    and r: "match_items payload_char b = (n, r)"
    by (auto simp: match_data_uri_def split: option.splits prod.splits if_splits)
  have "suffix r b" using match_items_suffix[of payload_char b] r by simp
  then have "suffix r a"
    using match_ci_suffix[OF b] match_params_suffix match_items_suffix by (meson suffix_order.trans)
  then show ?thesis
    using match_ci_suffix[OF a] match_ci_length[OF a] suffix_length_le[of r a]
    by (auto simp: cps_def intro: suffix_order.trans)
qed

lemma suffix_take: "suffix r s \<Longrightarrow> s = take (length s - length r) s @ r"
  by (auto simp: suffix_def)

text \<open>\<open>_DATA_URI_BASE64_RE.sub\<close> and \<open>_BASE64_RUN_RE.sub\<close>.\<close>

function sub_data_uris ::
    "(utext \<Rightarrow> file_store \<Rightarrow> file_store \<times> utext) \<Rightarrow> utext \<Rightarrow> file_store \<Rightarrow> file_store \<times> utext" where
  "sub_data_uris f [] fs = (fs, [])"
| "sub_data_uris f (c # cs) fs =
     (case match_data_uri (c # cs) of
        None \<Rightarrow> (case sub_data_uris f cs fs of (fs', t) \<Rightarrow> (fs', c # t))
      | Some r \<Rightarrow>
          (case f (take (length (c # cs) - length r) (c # cs)) fs of (fs1, ref) \<Rightarrow>
             (case sub_data_uris f r fs1 of (fs2, t) \<Rightarrow> (fs2, ref @ t))))"
  by pat_completeness auto
termination
  by (relation "measure (\<lambda>(_, s, _). length s)") (auto dest: match_data_uri_suffix)

definition swap_run ::
    "(utext \<Rightarrow> file_store \<Rightarrow> file_store \<times> utext) \<Rightarrow> utext \<Rightarrow> file_store \<Rightarrow> file_store \<times> utext" where
  "swap_run f run fs =
     (if generic_base64_min_chars \<le> length run \<and> looks_like_long_base64 run generic_base64_min_chars
      then f run fs else (fs, run))"

function sub_base64_runs ::
    "(utext \<Rightarrow> file_store \<Rightarrow> file_store \<times> utext) \<Rightarrow> utext \<Rightarrow> file_store \<Rightarrow> file_store \<times> utext" where
  "sub_base64_runs f [] fs = (fs, [])"
| "sub_base64_runs f (c # cs) fs =
     (if run_char c then
        (case swap_run f (takeWhile run_char (c # cs)) fs of
           (fs1, t1) \<Rightarrow> (case sub_base64_runs f (dropWhile run_char cs) fs1 of (fs2, t) \<Rightarrow> (fs2, t1 @ t)))
      else (case sub_base64_runs f cs fs of (fs', t) \<Rightarrow> (fs', c # t)))"
  by pat_completeness auto
termination
  by (relation "measure (\<lambda>(_, s, _). length s)") (auto simp: le_imp_less_Suc length_dropWhile_le)

definition protect_text ::
    "file_env \<Rightarrow> conversation_table \<Rightarrow> int \<Rightarrow> utext \<Rightarrow> utext \<Rightarrow> file_store \<Rightarrow> file_store \<times> utext" where
  "protect_text env convs c role s fs =
     (if s = [] then (fs, s)
      else (case sub_data_uris (replaced env convs c role (cps ''data_uri_base64'')) s fs of
          (fs', protected) \<Rightarrow> sub_base64_runs (replaced env convs c role (cps ''inline_base64_run'')) protected fs'))"

fun protect_value ::
      "(utext \<Rightarrow> file_store \<Rightarrow> file_store \<times> utext) \<Rightarrow> json \<Rightarrow> file_store \<Rightarrow> file_store \<times> json"
  and protect_entries ::
      "(utext \<Rightarrow> file_store \<Rightarrow> file_store \<times> utext) \<Rightarrow> (string \<times> json) list \<Rightarrow> file_store \<Rightarrow> file_store \<times> (string \<times> json) list"
  and protect_items ::
      "(utext \<Rightarrow> file_store \<Rightarrow> file_store \<times> utext) \<Rightarrow> json list \<Rightarrow> file_store \<Rightarrow> file_store \<times> json list" where
  "protect_value f (JObj kvs) fs = (case protect_entries f kvs fs of (fs', out) \<Rightarrow> (fs', JObj out))"
| "protect_value f (JArr items) fs = (case protect_items f items fs of (fs', out) \<Rightarrow> (fs', JArr out))"
| "protect_value f (JStr s) fs = (case f s fs of (fs', t) \<Rightarrow> (fs', JStr t))"
| "protect_value f v fs = (fs, v)"
| "protect_entries f [] fs = (fs, [])"
| "protect_entries f ((k, v) # kvs) fs =
     (case protect_value f v fs of (fs1, w) \<Rightarrow>
        (case protect_entries f kvs fs1 of (fs2, out) \<Rightarrow> (fs2, (k, w) # out)))"
| "protect_items f [] fs = (fs, [])"
| "protect_items f (v # vs) fs =
     (case protect_value f v fs of (fs1, w) \<Rightarrow>
        (case protect_items f vs fs1 of (fs2, out) \<Rightarrow> (fs2, w # out)))"

text \<open>\<open>str(msg.get("role") or "unknown")\<close>\<close>

definition guard_role :: "codec \<Rightarrow> json \<Rightarrow> utext" where
  "guard_role cd role = (if truthy role then (case role of JStr s \<Rightarrow> s | _ \<Rightarrow> cd_str cd role) else cps ''unknown'')"

definition protect_key ::
    "(utext \<Rightarrow> file_store \<Rightarrow> file_store \<times> utext) \<Rightarrow> string \<Rightarrow> file_store \<times> json \<Rightarrow> file_store \<times> json" where
  "protect_key f k p = (case p of (fs, msg) \<Rightarrow>
     (case protect_value f (jget k msg) fs of (fs', v) \<Rightarrow> (fs', jset k v msg)))"

definition protect_message_for_ingest ::
    "codec \<Rightarrow> file_env \<Rightarrow> conversation_table \<Rightarrow> int \<Rightarrow> json \<Rightarrow> file_store \<Rightarrow> file_store \<times> json" where
  "protect_message_for_ingest cd env convs c message fs =
     (if \<not> is_obj message then (fs, message)
      else
        let f = protect_text env convs c (guard_role cd (jget ''role'' message));
            p = (if has_key ''content'' message \<and> jget ''content'' message \<noteq> JNull
                 then protect_key f ''content'' (fs, message) else (fs, message)) in
        if truthy (jget ''tool_calls'' (snd p)) then protect_key f ''tool_calls'' p else p)"

definition protect_messages_for_ingest ::
    "codec \<Rightarrow> file_env \<Rightarrow> conversation_table \<Rightarrow> int \<Rightarrow> json list \<Rightarrow> file_store \<Rightarrow> file_store \<times> json list" where
  "protect_messages_for_ingest cd env convs c messages fs =
     fold (\<lambda>m (fs, out). case protect_message_for_ingest cd env convs c m fs of (fs', m') \<Rightarrow> (fs', out @ [m']))
       messages (fs, [])"

subsection \<open>Nothing is lost\<close>

text \<open>
  A rewriter of texts that keeps a condition on the store, lets the store only grow, and leaves a
  text that stands for the given one. Its client is the walk over a message; \<open>substituting\<close> adds what
  the two scans need, that texts standing for others can be put side by side.
\<close>

locale text_rewriter =
  fixes ok :: "file_store \<Rightarrow> bool"
    and grows :: "file_store \<Rightarrow> file_store \<Rightarrow> bool"
    and stands_for :: "file_store \<Rightarrow> utext \<Rightarrow> utext \<Rightarrow> bool"
    and f :: "utext \<Rightarrow> file_store \<Rightarrow> file_store \<times> utext"
  assumes rewritten: "ok fs \<Longrightarrow> f s fs = (fs', t) \<Longrightarrow> ok fs' \<and> grows fs fs' \<and> stands_for fs' t s"
    and grows_refl: "grows fs fs"
    and grows_trans: "grows fs fs' \<Longrightarrow> grows fs' fs'' \<Longrightarrow> grows fs fs''"
    and still: "grows fs fs' \<Longrightarrow> stands_for fs t s \<Longrightarrow> stands_for fs' t s"
begin

lemma still_value: "grows fs fs' \<Longrightarrow> rel_gjson (stands_for fs) v w \<Longrightarrow> rel_gjson (stands_for fs') v w"
  by (erule gjson.rel_mono_strong) (rule still)

lemma walk_rewritten:
  "g = f \<Longrightarrow> ok fs \<Longrightarrow> protect_value g v fs = (fs', w) \<Longrightarrow> ok fs' \<and> grows fs fs' \<and> rel_gjson (stands_for fs') w v"
  "g = f \<Longrightarrow> ok fs \<Longrightarrow> protect_entries g kvs fs = (fs', out) \<Longrightarrow>
     ok fs' \<and> grows fs fs' \<and> list_all2 (rel_prod (=) (rel_gjson (stands_for fs'))) out kvs"
  "g = f \<Longrightarrow> ok fs \<Longrightarrow> protect_items g vs fs = (fs', outs) \<Longrightarrow>
     ok fs' \<and> grows fs fs' \<and> list_all2 (rel_gjson (stands_for fs')) outs vs"
proof (induction g v fs and g kvs fs and g vs fs arbitrary: fs' w and fs' out and fs' outs
    rule: protect_value_protect_entries_protect_items.induct)
  case (6 g k v kvs fs)
  obtain fs1 x where x: "protect_value g v fs = (fs1, x)" by fastforce
  obtain fs2 o2 where o2: "protect_entries g kvs fs1 = (fs2, o2)" by fastforce
  note a = 6(1)[OF 6(3,4) x]
  note b = 6(2)[OF x[symmetric] 6(3) conjunct1[OF a] o2]
  have "fs' = fs2" "out = (k, x) # o2" using 6(5) x o2 by auto
  moreover have "grows fs fs2" using a b grows_trans by blast
  moreover have "rel_gjson (stands_for fs2) x v" using a b still_value by blast
  ultimately show ?case using b by simp
next
  case (8 g v vs fs)
  obtain fs1 x where x: "protect_value g v fs = (fs1, x)" by fastforce
  obtain fs2 o2 where o2: "protect_items g vs fs1 = (fs2, o2)" by fastforce
  note a = 8(1)[OF 8(3,4) x]
  note b = 8(2)[OF x[symmetric] 8(3) conjunct1[OF a] o2]
  have "fs' = fs2" "outs = x # o2" using 8(5) x o2 by auto
  moreover have "grows fs fs2" using a b grows_trans by blast
  moreover have "rel_gjson (stands_for fs2) x v" using a b still_value by blast
  ultimately show ?case using b by simp
qed (auto split: prod.splits simp: grows_refl dest: rewritten)

lemmas value_rewritten = walk_rewritten(1)[OF refl]

end

locale substituting = text_rewriter +
  assumes stands_Nil: "stands_for fs [] []"
    and stands_Cons: "stands_for fs t s \<Longrightarrow> stands_for fs (c # t) (c # s)"
    and stands_append: "stands_for fs t s \<Longrightarrow> stands_for fs t' s' \<Longrightarrow> stands_for fs (t @ t') (s @ s')"
begin

lemma stands_refl: "stands_for fs s s"
  by (induction s) (simp_all add: stands_Nil stands_Cons)

lemma uris_rewritten:
  "g = f \<Longrightarrow> ok fs \<Longrightarrow> sub_data_uris g s fs = (fs', t) \<Longrightarrow> ok fs' \<and> grows fs fs' \<and> stands_for fs' t s"
proof (induction g s fs arbitrary: fs' t rule: sub_data_uris.induct)
  case (2 g c cs fs)
  show ?case
  proof (cases "match_data_uri (c # cs)")
    case None
    with 2 show ?thesis by (auto split: prod.splits intro: stands_Cons)
  next
    case (Some r)
    let ?m = "take (length (c # cs) - length r) (c # cs)"
    obtain fs1 ref where m: "f ?m fs = (fs1, ref)" by fastforce
    obtain fs2 u where u: "sub_data_uris g r fs1 = (fs2, u)" by fastforce
    note a = rewritten[OF 2(4) m]
    have "ok fs2 \<and> grows fs1 fs2 \<and> stands_for fs2 u r"
      using 2(2)[OF Some] 2(3) m a u by simp
    moreover have "c # cs = ?m @ r" using suffix_take match_data_uri_suffix[OF Some] by blast
    moreover have "fs' = fs2" "t = ref @ u" using 2(3,5) Some m u by (auto simp del: take_Suc_Cons)
    ultimately show ?thesis
      using a grows_trans still stands_append by (metis (no_types, lifting))
  qed
qed (simp add: grows_refl stands_Nil)

lemma runs_rewritten:
  "g = f \<Longrightarrow> ok fs \<Longrightarrow> sub_base64_runs g s fs = (fs', t) \<Longrightarrow> ok fs' \<and> grows fs fs' \<and> stands_for fs' t s"
proof (induction g s fs arbitrary: fs' t rule: sub_base64_runs.induct)
  case (2 g c cs fs)
  show ?case
  proof (cases "run_char c")
    case False
    with 2 show ?thesis by (auto split: prod.splits intro: stands_Cons)
  next
    case True
    let ?run = "takeWhile run_char (c # cs)"
    obtain fs1 t1 where m: "swap_run g ?run fs = (fs1, t1)" by fastforce
    obtain fs2 u where u: "sub_base64_runs g (dropWhile run_char cs) fs1 = (fs2, u)" by fastforce
    have a: "ok fs1 \<and> grows fs fs1 \<and> stands_for fs1 t1 ?run"
      using m 2(3) rewritten[OF 2(4)] grows_refl stands_refl 2(4)
      by (auto simp: swap_run_def simp del: takeWhile.simps split: if_splits)
    have "ok fs2 \<and> grows fs1 fs2 \<and> stands_for fs2 u (dropWhile run_char cs)"
      using 2(1)[OF True m[symmetric] 2(3) conjunct1[OF a] u] .
    moreover have "c # cs = ?run @ dropWhile run_char cs" using True by simp
    moreover have "fs' = fs2" "t = t1 @ u" using 2(5) True m u by (auto simp del: takeWhile.simps)
    ultimately show ?thesis
      using a grows_trans still stands_append by (metis (no_types, lifting))
  qed
qed (simp add: grows_refl stands_Nil)

end

subsection \<open>The guard on its file store\<close>

text \<open>\<open>restored fs t s\<close>: putting the stored payloads in place of their references turns \<open>t\<close> into \<open>s\<close>.\<close>

inductive restored :: "file_store \<Rightarrow> utext \<Rightarrow> utext \<Rightarrow> bool" for fs where
  restored_Nil: "restored fs [] []"
| restored_Cons: "restored fs t s \<Longrightarrow> restored fs (c # t) (c # s)"
| restored_Ref: "restored fs t s \<Longrightarrow> utf8 payload = Some data \<Longrightarrow> read_file fs (lf_file_id r) = Inr data
    \<Longrightarrow> restored fs (payload_reference role reason r payload @ t) (payload @ s)"

definition fresh_ids :: "file_env \<Rightarrow> file_store \<Rightarrow> bool" where
  "fresh_ids env fs \<longleftrightarrow> inj (fe_new_id env) \<and> (\<forall>k \<ge> fs_tick fs. lookup_file fs (fe_new_id env k) = None)"

definition store_ok :: "file_env \<Rightarrow> file_store \<Rightarrow> bool" where
  "store_ok env fs \<longleftrightarrow> in_step env fs \<and> fresh_ids env fs"

definition grows_to :: "file_store \<Rightarrow> file_store \<Rightarrow> bool" where
  "grows_to fs fs' \<longleftrightarrow> (\<forall>i d. read_file fs i = Inr d \<longrightarrow> read_file fs' i = Inr d)"

lemma grows_to_refl [simp]: "grows_to fs fs"
  by (simp add: grows_to_def)

lemma grows_to_trans: "grows_to fs fs' \<Longrightarrow> grows_to fs' fs'' \<Longrightarrow> grows_to fs fs''"
  by (simp add: grows_to_def)

lemma restored_refl [simp]: "restored fs s s"
  by (induction s) (auto intro: restored.intros)

lemma restored_append: "restored fs t s \<Longrightarrow> restored fs t' s' \<Longrightarrow> restored fs (t @ t') (s @ s')"
  by (induction rule: restored.induct) (auto intro: restored.intros)

lemma restored_grows: "restored fs t s \<Longrightarrow> grows_to fs fs' \<Longrightarrow> restored fs' t s"
  by (induction rule: restored.induct) (auto simp: grows_to_def intro: restored.intros)

lemma externalize_ok:
  assumes ok: "store_ok env fs"
    and e: "externalize_block env convs c payload None mime None None fs = (fs', res)"
  shows "store_ok env fs' \<and> grows_to fs fs'
    \<and> (\<forall>r. res = Inr r \<longrightarrow> (\<exists>data. utf8 payload = Some data \<and> read_file fs' (lf_file_id r) = Inr data))"
proof -
  have s: "in_step env fs" and inj: "inj (fe_new_id env)"
    using ok by (auto simp: store_ok_def fresh_ids_def)
  have fresh: "lookup_file fs (fe_new_id env k) = None" if "fs_tick fs \<le> k" for k
    using ok that by (auto simp: store_ok_def fresh_ids_def)
  show ?thesis
  proof (cases res)
    case (Inl err)
    have "lookup_file fs (the_file_id env None fs) = None" using fresh by (simp add: the_file_id_def)
    from failed_externalize[OF s this e[unfolded Inl]]
    have "fs' = fs\<lparr>fs_tick := fs_tick fs + 1\<rparr> \<and> in_step env fs'" .
    with Inl fresh inj show ?thesis
      by (auto simp: store_ok_def fresh_ids_def grows_to_def)
  next
    case (Inr r)
    note stored = externalized_reads[OF s e[unfolded Inr]]
    from e Inr obtain d where new: "lf_file_id r = the_file_id env None fs"
      "fs' = fs\<lparr>fs_blobs := (fs_blobs fs)(lf_storage_uri r \<mapsto> d), fs_rows := fs_rows fs @ [r], fs_tick := fs_tick fs + 1\<rparr>"
      by (auto elim: externalized)
    then have look: "lookup_file fs' i = (case lookup_file fs i of Some q \<Rightarrow> Some q
        | None \<Rightarrow> if fe_new_id env (fs_tick fs) = i then Some r else None)" for i
      by (simp add: lookup_file_def find_append the_file_id_def split: option.split)
    have "lookup_file fs' (fe_new_id env k) = None" if "fs_tick fs' \<le> k" for k
    proof -
      have "fe_new_id env (fs_tick fs) \<noteq> fe_new_id env k" using injD[OF inj] that new(2) by fastforce
      moreover have "lookup_file fs (fe_new_id env k) = None" using fresh that new(2) by simp
      ultimately show ?thesis unfolding look by simp
    qed
    with stored inj Inr show ?thesis by (auto simp: store_ok_def fresh_ids_def grows_to_def)
  qed
qed

lemma replaced_ok:
  assumes ok: "store_ok env fs" and rep: "replaced env convs c role reason payload fs = (fs', t)"
  shows "store_ok env fs' \<and> grows_to fs fs' \<and> restored fs' t payload"
proof (cases "payload = []")
  case True
  with assms show ?thesis by (simp add: replaced_def externalize_payload_def)
next
  case False
  obtain fs1 res where e: "externalize_block env convs c payload None (payload_mime_type payload) None None fs = (fs1, res)"
    by fastforce
  note kept = externalize_ok[OF ok e]
  show ?thesis
  proof (cases res)
    case (Inl err)
    with kept False e rep show ?thesis by (simp add: replaced_def externalize_payload_def)
  next
    case (Inr r)
    then obtain data where "utf8 payload = Some data" "read_file fs1 (lf_file_id r) = Inr data" using kept by blast
    then have "restored fs1 (payload_reference role reason r payload @ []) (payload @ [])"
      by (intro restored_Ref restored_Nil)
    with kept Inr False e rep show ?thesis by (simp add: replaced_def externalize_payload_def split: if_splits)
  qed
qed

interpretation scan: substituting "store_ok env" grows_to restored "replaced env convs c role reason"
  for env convs c role reason
proof unfold_locales
  show "replaced env convs c role reason s fs = (fs', t) \<Longrightarrow> store_ok env fs' \<and> grows_to fs fs' \<and> restored fs' t s"
    if "store_ok env fs" for fs s fs' t
    using replaced_ok that by blast
qed (auto intro: grows_to_trans restored_grows restored.intros restored_append)

lemma protect_text_ok:
  assumes "store_ok env fs" "protect_text env convs c role s fs = (fs', t)"
  shows "store_ok env fs' \<and> grows_to fs fs' \<and> (restored fs' OO restored fs') t s"
proof (cases "s = []")
  case True
  moreover have "(restored fs' OO restored fs') [] []" by (rule relcomppI) (rule restored_refl)+
  ultimately show ?thesis using assms by (simp add: protect_text_def)
next
  case False
  obtain fs1 u where u: "sub_data_uris (replaced env convs c role (cps ''data_uri_base64'')) s fs = (fs1, u)" by fastforce
  have v: "sub_base64_runs (replaced env convs c role (cps ''inline_base64_run'')) u fs1 = (fs', t)"
    using assms(2) False u by (simp add: protect_text_def)
  from scan.uris_rewritten[OF refl assms(1) u] scan.runs_rewritten[OF refl _ v] show ?thesis
    using restored_grows grows_to_trans by blast
qed

interpretation guard: text_rewriter "store_ok env" grows_to "\<lambda>fs. restored fs OO restored fs" "protect_text env convs c role"
  for env convs c role
proof unfold_locales
  show "protect_text env convs c role s fs = (fs', t) \<Longrightarrow> store_ok env fs' \<and> grows_to fs fs' \<and> (restored fs' OO restored fs') t s"
    if "store_ok env fs" for fs s fs' t
    using protect_text_ok that by blast
qed (auto intro: grows_to_trans restored_grows)

text \<open>What the guard keeps of a message: its keys, its structure, its numbers, and its texts up to
  references to files that can be read.\<close>

definition gives_back :: "file_store \<Rightarrow> json \<Rightarrow> json \<Rightarrow> bool" where
  "gives_back fs = rel_gjson (restored fs OO restored fs)"

lemma gives_back_refl [simp]: "gives_back fs v v"
  unfolding gives_back_def
  by (rule gjson.rel_refl) (auto intro: restored_refl)

lemma gives_back_grows: "gives_back fs v w \<Longrightarrow> grows_to fs fs' \<Longrightarrow> gives_back fs' v w"
  unfolding gives_back_def by (rule guard.still_value)

lemma map_of_related:
  "list_all2 (rel_prod (=) R) xs ys \<Longrightarrow> rel_option R (map_of xs k) (map_of ys k)"
  by (induction rule: list_all2_induct) auto

lemma update_related:
  "list_all2 (rel_prod (=) R) xs ys \<Longrightarrow> map_of ys k = Some y \<Longrightarrow> R x y \<Longrightarrow> list_all2 (rel_prod (=) R) (AList.update k x xs) ys"
  by (induction rule: list_all2_induct) (auto split: if_splits)

lemma gives_back_jget:
  assumes "gives_back fs v w"
  shows "gives_back fs (jget k v) (jget k w)"
proof (cases "is_obj w")
  case True
  with assms obtain xs ys where "v = JObj xs" "w = JObj ys"
    and "list_all2 (rel_prod (=) (rel_gjson (restored fs OO restored fs))) xs ys"
    by (cases v; cases w) (auto simp: gives_back_def)
  with map_of_related[OF this(3), of k] show ?thesis
    by (auto simp: gives_back_def elim!: option.rel_cases)
qed (use assms in \<open>cases v; cases w; simp add: gives_back_def\<close>)

lemma gives_back_jset:
  assumes "gives_back fs v w" "has_key k w" "gives_back fs x (jget k w)"
  shows "gives_back fs (jset k x v) w"
proof -
  from assms obtain xs ys y where "v = JObj xs" "w = JObj ys" "map_of ys k = Some y"
    "list_all2 (rel_prod (=) (rel_gjson (restored fs OO restored fs))) xs ys"
    by (cases v; cases w) (auto simp: gives_back_def has_key_def)
  with assms(3) update_related[OF this(4,3), of x] show ?thesis by (simp add: gives_back_def)
qed

lemma protect_key_ok:
  assumes "store_ok env fs" "gives_back fs m m0" "has_key k m0" "jget k m = jget k m0"
    and "protect_key (protect_text env convs c role) k (fs, m) = (fs', m')"
  shows "store_ok env fs' \<and> grows_to fs fs' \<and> gives_back fs' m' m0"
proof -
  from assms(5) obtain v where v: "protect_value (protect_text env convs c role) (jget k m) fs = (fs', v)" "m' = jset k v m"
    by (auto simp: protect_key_def split: prod.splits)
  note walked = guard.value_rewritten[OF assms(1) v(1)]
  then have "gives_back fs' v (jget k m0)" by (simp add: gives_back_def assms(4))
  moreover have "gives_back fs' m m0" using walked assms(2) gives_back_grows by blast
  ultimately show ?thesis using walked v(2) assms(3) gives_back_jset by blast
qed

lemma guarded_message:
  assumes "store_ok env fs"
  shows "case protect_message_for_ingest cd env convs c message fs of (fs', message') \<Rightarrow>
    store_ok env fs' \<and> grows_to fs fs' \<and> gives_back fs' message' message"
proof (cases "is_obj message")
  case True
  let ?f = "protect_text env convs c (guard_role cd (jget ''role'' message))"
  define p where "p = (if has_key ''content'' message \<and> jget ''content'' message \<noteq> JNull
      then protect_key ?f ''content'' (fs, message) else (fs, message))"
  obtain fs1 m1 where p1: "p = (fs1, m1)" by fastforce
  have ok1: "store_ok env fs1 \<and> grows_to fs fs1 \<and> gives_back fs1 m1 message"
    using protect_key_ok[OF assms gives_back_refl, of "''content''" message] assms p1
    by (auto simp: p_def split: if_splits)
  have calls: "jget ''tool_calls'' m1 = jget ''tool_calls'' message"
    using p1 True by (auto simp: p_def protect_key_def split: if_splits prod.splits)
  have res: "protect_message_for_ingest cd env convs c message fs
      = (if truthy (jget ''tool_calls'' m1) then protect_key ?f ''tool_calls'' (fs1, m1) else (fs1, m1))"
    using True p1 unfolding protect_message_for_ingest_def Let_def p_def by simp
  show ?thesis
  proof (cases "truthy (jget ''tool_calls'' m1)")
    case True
    then have "has_key ''tool_calls'' message"
      using calls by (cases message) (auto simp: has_key_def split: option.splits)
    with True ok1 calls show ?thesis
      using protect_key_ok[of env fs1 m1 message "''tool_calls''"] grows_to_trans
      by (auto simp: res split: prod.splits)
  qed (use ok1 in \<open>simp add: res\<close>)
qed (use assms in \<open>simp add: protect_message_for_ingest_def\<close>)

lemma message_kept:
  "store_ok env fs \<Longrightarrow> protect_message_for_ingest cd env convs c m fs = (fs', m')
    \<Longrightarrow> store_ok env fs' \<and> grows_to fs fs' \<and> gives_back fs' m' m"
  using guarded_message[of env fs, where cd = cd and convs = convs and c = c and message = m] by simp

text \<open>C16. Whatever the disk and the database do, guarding a message keeps the file store consistent and every
  file that could be read readable, and the guarded message gives the original back: same keys,
  structure and numbers, and each text is the original one once the stored payloads are put in place
  of their references.\<close>

theorem guard_loses_nothing:
  assumes "store_ok env fs"
  shows "case protect_message_for_ingest cd env convs c message fs of (fs', message') \<Rightarrow>
    store_ok env fs' \<and> grows_to fs fs' \<and> gives_back fs' message' message"
  by (rule guarded_message[OF assms])

definition guard_env :: file_env where
  "guard_env = file_env_0\<lparr>fe_new_id := (\<lambda>t. replicate t 97)\<rparr>"

definition image_message :: json where
  "image_message = JObj [(''role'', JStr (cps ''user'')),
     (''content'', JStr (cps ''see data:image/png;base64,'' @ replicate 300 65 @ cps '' ok''))]"

theorem guard_loses_nothing_witness:
  "store_ok guard_env no_files
   \<and> (case protect_message_for_ingest (sample_codec (cps ''x'')) guard_env two_sessions 1 image_message no_files of
       (fs', message') \<Rightarrow> store_ok guard_env fs' \<and> gives_back fs' message' image_message)"
proof -
  have "inj (\<lambda>t. replicate t (97 :: nat))" by (rule injI) (metis length_replicate)
  then have "store_ok guard_env no_files"
    by (simp add: store_ok_def fresh_ids_def guard_env_def in_step_def no_files_def lookup_file_def)
  with guard_loses_nothing[OF this, where cd = "sample_codec (cps ''x'')" and convs = two_sessions and c = 1
      and message = image_message] show ?thesis
    by (auto split: prod.splits)
qed

subsection \<open>What the guard leaves alone\<close>

lemma match_items_count: "fst (match_items P s) \<le> length s"
proof (induction P s rule: match_items.induct)
  case (2 P c cs)
  show ?case
  proof (cases "P c")
    case True
    with 2(1) show ?thesis by (auto split: prod.splits)
  next
    case False
    show ?thesis
    proof (cases "match_slash (c # cs)")
      case (Some r)
      with 2(2) False match_slash_length[OF Some] show ?thesis by (auto split: prod.splits)
    qed (use False in simp)
  qed
qed simp

lemma short_no_uri: "length s < 256 \<Longrightarrow> match_data_uri s = None"
proof (rule ccontr)
  assume s: "length s < 256" and "match_data_uri s \<noteq> None"
  then obtain a b n r where a: "match_ci (cps ''data:'') s = Some a"
    and b: "match_ci (cps '';base64,'') (match_params (snd (match_items media_char a))) = Some b"
    and r: "match_items payload_char b = (n, r)" "256 \<le> n"
    by (auto simp: match_data_uri_def data_uri_min_payload_chars_def split: option.splits prod.splits if_splits)
  have "suffix b a"
    using match_ci_suffix[OF b] match_params_suffix match_items_suffix by (meson suffix_order.trans)
  then have "length b \<le> length s" using suffix_length_le match_ci_suffix[OF a] by (meson le_trans)
  then show False using match_items_count[of payload_char b] r s by simp
qed

lemma short_uris: "length s < 256 \<Longrightarrow> sub_data_uris f s fs = (fs, s)"
proof (induction s)
  case (Cons c cs)
  then show ?case using short_no_uri[of "c # cs"] by simp
qed simp

lemma short_runs: "length s < 256 \<Longrightarrow> sub_base64_runs f s fs = (fs, s)"
proof (induction f s fs rule: sub_base64_runs.induct)
  case (2 f c cs fs)
  show ?case
  proof (cases "run_char c")
    case False
    with 2 show ?thesis by simp
  next
    case True
    let ?run = "takeWhile run_char (c # cs)"
    have run: "swap_run f ?run fs = (fs, ?run)"
      using 2(3) length_takeWhile_le[of run_char "c # cs"]
      by (simp add: swap_run_def generic_base64_min_chars_def del: takeWhile.simps)
    have "sub_base64_runs f (dropWhile run_char cs) fs = (fs, dropWhile run_char cs)"
      using 2(1)[OF True run[symmetric]] 2(3) length_dropWhile_le[of run_char cs] by simp
    with True run show ?thesis by simp
  qed
qed simp

lemma protect_short_text: "length s < 256 \<Longrightarrow> protect_text env convs c role s fs = (fs, s)"
  by (simp add: protect_text_def short_uris short_runs)

lemma protect_value_unchanged:
  "pred_gjson (\<lambda>s. f s fs = (fs, s)) v \<Longrightarrow> protect_value f v fs = (fs, v)"
  "list_all (pred_prod top (pred_gjson (\<lambda>s. f s fs = (fs, s)))) kvs \<Longrightarrow> protect_entries f kvs fs = (fs, kvs)"
  "list_all (pred_gjson (\<lambda>s. f s fs = (fs, s))) vs \<Longrightarrow> protect_items f vs fs = (fs, vs)"
  by (induction f v fs and f kvs fs and f vs fs rule: protect_value_protect_entries_protect_items.induct) auto

lemma update_same: "map_of kvs k = Some v \<Longrightarrow> AList.update k v kvs = kvs"
  by (induction kvs) auto

lemma protect_key_unchanged:
  "has_key k m \<Longrightarrow> pred_gjson (\<lambda>s. f s fs = (fs, s)) (jget k m) \<Longrightarrow> protect_key f k (fs, m) = (fs, m)"
  by (cases m) (auto simp: protect_key_def protect_value_unchanged has_key_def update_same)

lemma protect_short_message:
  assumes "pred_gjson (\<lambda>s. length s < 256) (jget ''content'' m)" "pred_gjson (\<lambda>s. length s < 256) (jget ''tool_calls'' m)"
  shows "protect_message_for_ingest cd env convs c m fs = (fs, m)"
proof -
  have short: "pred_gjson (\<lambda>s. protect_text env convs c role s fs = (fs, s)) v"
    if "pred_gjson (\<lambda>s. length s < 256) v" for role v
    using that by (rule gjson.pred_mono_strong) (simp add: protect_short_text)
  have key: "truthy (jget ''tool_calls'' m) \<Longrightarrow> has_key ''tool_calls'' m"
    by (cases m) (auto simp: has_key_def split: option.splits)
  show ?thesis
  proof -
    let ?f = "protect_text env convs c (guard_role cd (jget ''role'' m))"
    have "has_key ''content'' m \<Longrightarrow> protect_key ?f ''content'' (fs, m) = (fs, m)"
      by (erule protect_key_unchanged) (rule short[OF assms(1)])
    moreover have "truthy (jget ''tool_calls'' m) \<Longrightarrow> protect_key ?f ''tool_calls'' (fs, m) = (fs, m)"
      by (drule key) (erule protect_key_unchanged, rule short[OF assms(2)])
    ultimately show ?thesis unfolding protect_message_for_ingest_def Let_def by simp
  qed
qed

end
