(* ===== verification/Ingest.thy ===== *)
theory Ingest
  imports Ingest_Guard Context_Store
begin

text \<open>
  The ingest path (\<open>engine/ingest.py\<close>): every hook hands over the whole message history of a session,
  a cursor per session says how much of it has been seen, and the rest is guarded, split into parts
  and stored, each message in one transaction. After a restart the cursor is found again by
  comparing the history with the stored messages.

  What the environment decides is indexed by the number of the attempted message: the clock, the
  random part ids, and whether the database is busy (\<open>sqlite3.OperationalError\<close> at \<open>BEGIN\<close> or
  \<open>COMMIT\<close>, after which nothing of the transaction is left). Compiled patterns are predicates. The
  per-session lock makes a call atomic, and is a component of its own.

  When nothing fails, every persistable message of the history is stored once and in order, across
  calls and across a restart. Two things break that: a message whose transaction fails while another
  of the same call succeeds is never tried again, and a message that the guard changed is not
  recognised after a restart, so that the history from there on is stored a second time.
\<close>

record ingest_env =
  ie_codec :: codec
  ie_files :: file_env
  ie_digest :: "utext \<Rightarrow> string"
  ie_now :: "nat \<Rightarrow> int"
  ie_part_id :: "nat \<Rightarrow> nat \<Rightarrow> utext"
  ie_busy :: "nat \<Rightarrow> bool"
  ie_ignore_session_patterns :: "(utext \<Rightarrow> bool) list"
  ie_stateless_session_patterns :: "(utext \<Rightarrow> bool) list"
  ie_skip_stateless_sessions :: bool

record ingest_state =
  ig_conversations :: conversation_table
  ig_db :: lcm_db
  ig_files :: file_store
  ig_cursor :: "utext \<rightharpoonup> nat"
  ig_reconciled :: "utext set"
  ig_tick :: nat

datatype ingest_error = Db_Busy | Store_Error db_error

subsection \<open>Session filters\<close>

definition matches_pattern_list :: "utext \<Rightarrow> (utext \<Rightarrow> bool) list \<Rightarrow> bool" where
  "matches_pattern_list candidate patterns = list_ex (\<lambda>p. p candidate) patterns"

definition should_ignore_session :: "ingest_env \<Rightarrow> utext option \<Rightarrow> utext option \<Rightarrow> bool" where
  "should_ignore_session env session_id session_key =
     (if ie_ignore_session_patterns env = [] then False
      else let candidate = (case normalized session_key of Some k \<Rightarrow> k
             | None \<Rightarrow> u_strip (case session_id of Some s \<Rightarrow> s | None \<Rightarrow> [])) in
        if candidate = [] then False
        else matches_pattern_list candidate (ie_ignore_session_patterns env))"

definition is_stateless_session :: "ingest_env \<Rightarrow> utext option \<Rightarrow> bool" where
  "is_stateless_session env session_key =
     (if \<not> ie_skip_stateless_sessions env then False
      else case normalized session_key of
        None \<Rightarrow> False
      | Some trimmed \<Rightarrow> if ie_stateless_session_patterns env = [] then False
          else matches_pattern_list trimmed (ie_stateless_session_patterns env))"

subsection \<open>One message\<close>

definition identity_of :: "codec \<Rightarrow> json \<Rightarrow> message_role \<times> utext" where
  "identity_of cd message =
     (to_db_role (jget ''role'' message), extract_message_content cd (jget ''content'' message))"

definition persistable :: "json \<Rightarrow> bool" where
  "persistable message \<longleftrightarrow>
     is_obj message \<and> has_persistable_role message \<and> \<not> is_failed_empty_assistant message"

definition persist_message ::
    "ingest_env \<Rightarrow> nat \<Rightarrow> int \<Rightarrow> utext \<Rightarrow> json \<Rightarrow> lcm_db \<Rightarrow> db_error + (bool \<times> lcm_db)" where
  "persist_message env tick conversation_id session_id message db =
     (let cd = ie_codec env; (db_role, fallback_content) = identity_of cd message;
          parts = build_message_parts cd session_id message fallback_content in
      case create_message (ie_digest env) (ie_now env tick)
             \<lparr>cm_conversation_id = conversation_id, cm_seq = get_max_seq db conversation_id + 1, cm_role = db_role,
              cm_content = fallback_content, cm_token_count = estimate_tokens fallback_content,
              cm_identity_hash = None\<rparr> db of
        Inl Integrity_Error \<Rightarrow> Inr (False, db)
      | Inr (rec, db1) \<Rightarrow>
          bindE (create_message_parts (ie_part_id env tick) (mr_message_id rec) parts db1) (\<lambda>db2.
          bindE (append_context_message conversation_id (mr_message_id rec) db2) (\<lambda>db3.
            Inr (True, db3))))"

definition ingest_single ::
    "ingest_env \<Rightarrow> utext \<Rightarrow> json \<Rightarrow> utext option \<Rightarrow> ingest_state \<Rightarrow> ingest_state \<times> (ingest_error + bool)" where
  "ingest_single env session_id message session_key st =
     (if \<not> persistable message then (st, Inr False)
      else case get_or_create_conversation (ie_now env (ig_tick st)) session_id None session_key (ig_conversations st) of
        Inl e \<Rightarrow> (st, Inl (Store_Error e))
      | Inr (conversation, convs) \<Rightarrow>
          (case protect_message_for_ingest (ie_codec env) (ie_files env) convs
                  (cv_conversation_id conversation) message (ig_files st) of
             (files, message') \<Rightarrow>
               let st' = st\<lparr>ig_conversations := convs, ig_files := files, ig_tick := ig_tick st + 1\<rparr> in
               if ie_busy env (ig_tick st) then (st', Inl Db_Busy)
               else (case persist_message env (ig_tick st) (cv_conversation_id conversation) session_id message' (ig_db st) of
                   Inl e \<Rightarrow> (st', Inl (Store_Error e))
                 | Inr (ok, db) \<Rightarrow> (st'\<lparr>ig_db := db\<rparr>, Inr ok))))"

subsection \<open>A batch and a history\<close>

fun ingest_batch :: "ingest_env \<Rightarrow> utext \<Rightarrow> utext option \<Rightarrow> json list \<Rightarrow> ingest_state \<Rightarrow> ingest_state \<times> nat" where
  "ingest_batch env session_id session_key [] st = (st, 0)"
| "ingest_batch env session_id session_key (m # ms) st =
     (case ingest_single env session_id m session_key st of
        (st1, r) \<Rightarrow> (case ingest_batch env session_id session_key ms st1 of
          (st2, n) \<Rightarrow> (st2, (if r = Inr True then 1 else 0) + n)))"

text \<open>The walk along the history: how many stored rows are matched, and the index after the last of them.\<close>

fun replay_loop ::
    "codec \<Rightarrow> (message_role \<times> utext) list \<Rightarrow> json list \<Rightarrow> nat \<Rightarrow> nat \<Rightarrow> nat \<Rightarrow> nat \<times> nat" where
  "replay_loop cd stored [] idx matched cursor = (matched, cursor)"
| "replay_loop cd stored (m # ms) idx matched cursor =
     (if length stored \<le> matched then (matched, cursor)
      else if \<not> is_obj m then replay_loop cd stored ms (idx + 1) matched (idx + 1)
      else if \<not> has_persistable_role m then replay_loop cd stored ms (idx + 1) matched (idx + 1)
      else if is_failed_empty_assistant m then replay_loop cd stored ms (idx + 1) matched (idx + 1)
      else if identity_of cd m \<noteq> stored ! matched then (matched, cursor)
      else replay_loop cd stored ms (idx + 1) (matched + 1) (idx + 1))"

definition stored_identities :: "lcm_db \<Rightarrow> int \<Rightarrow> (message_role \<times> utext) list" where
  "stored_identities db c = map (\<lambda>m. (mr_role m, mr_content m)) (get_messages db c None None)"

definition reconcile_ingest_cursor :: "ingest_env \<Rightarrow> utext \<Rightarrow> json list \<Rightarrow> ingest_state \<Rightarrow> ingest_state" where
  "reconcile_ingest_cursor env session_id history st =
     (if ig_cursor st session_id \<noteq> None then st
      else if history = [] then st
      else case get_conversation_by_session_id (ig_conversations st) session_id of
        None \<Rightarrow> st
      | Some conversation \<Rightarrow>
          let conversation_id = cv_conversation_id conversation in
          if get_message_count (ig_db st) conversation_id = 0 then st
          else let stored = stored_identities (ig_db st) conversation_id in
            if stored = [] then st
            else case replay_loop (ie_codec env) stored history 0 0 0 of
              (matched, cursor) \<Rightarrow>
                if matched = 0 then st
                else st\<lparr>ig_cursor := (ig_cursor st)(session_id \<mapsto> cursor)\<rparr>)"

definition cursor_of :: "ingest_state \<Rightarrow> utext \<Rightarrow> nat" where
  "cursor_of st session_id = (case ig_cursor st session_id of Some n \<Rightarrow> n | None \<Rightarrow> 0)"

definition do_ingest_history_diff :: "ingest_env \<Rightarrow> utext \<Rightarrow> json list \<Rightarrow> ingest_state \<Rightarrow> ingest_state" where
  "do_ingest_history_diff env session_id history st =
     (if session_id = [] then st
      else if should_ignore_session env (Some session_id) None then st
      else if is_stateless_session env None then st
      else
        let st1 = (if history \<noteq> [] \<and> session_id \<notin> ig_reconciled st
                   then (reconcile_ingest_cursor env session_id history st)
                     \<lparr>ig_reconciled := insert session_id (ig_reconciled st)\<rparr>
                   else st);
            current = cursor_of st1 session_id in
        if length history \<le> current then st1
        else (case ingest_batch env session_id None (drop current history) st1 of
            (st2, ingested) \<Rightarrow>
              if 0 < ingested then st2\<lparr>ig_cursor := (ig_cursor st2)(session_id \<mapsto> length history)\<rparr>
              else st2))"

subsection \<open>The rows of one message\<close>

lemma insert_parts:
  assumes "list_all (\<lambda>p. ref_exists db (Msg (mp_message_id p)) \<and> mp_part_type p \<in> set part_types) ps"
    and "distinct (map mp_part_id (db_message_parts db @ ps))"
    and "distinct (map (\<lambda>p. (mp_message_id p, mp_ordinal p)) (db_message_parts db @ ps))"
  shows "foldE insert_message_part ps db = Inr (db\<lparr>db_message_parts := db_message_parts db @ ps\<rparr>)"
  using assms
proof (induction ps arbitrary: db)
  case (Cons p ps)
  let ?db = "db\<lparr>db_message_parts := db_message_parts db @ [p]\<rparr>"
  have "ref_exists ?db r = ref_exists db r" for r by (cases r) simp_all
  then have "foldE insert_message_part ps ?db = Inr (?db\<lparr>db_message_parts := db_message_parts ?db @ ps\<rparr>)"
    using Cons.prems by (intro Cons.IH) auto
  moreover have "mp_part_id p \<notin> mp_part_id ` set (db_message_parts db)"
    "(mp_message_id p, mp_ordinal p) \<notin> (\<lambda>p. (mp_message_id p, mp_ordinal p)) ` set (db_message_parts db)"
    using Cons.prems(2,3) by auto
  then have "\<not> list_ex (\<lambda>q. mp_part_id q = mp_part_id p
      \<or> mp_message_id q = mp_message_id p \<and> mp_ordinal q = mp_ordinal p) (db_message_parts db)"
    by (force simp: list_ex_iff image_iff)
  then have "insert_message_part p db = Inr ?db"
    using Cons.prems(1) unfolding insert_message_part_def by (simp del: ref_exists.simps)
  ultimately show ?case by simp
qed simp

lemma part_of_block_fields:
  "mp_ordinal (part_of_block cd s m (k, b)) = int k" "mp_part_type (part_of_block cd s m (k, b)) \<in> set part_types"
  by (auto simp: part_of_block_def part_types_def Let_def)

lemma part_row_fields [simp]:
  "mp_message_id (part_row u mid (k, p)) = mid" "mp_part_id (part_row u mid (k, p)) = u k"
  "mp_ordinal (part_row u mid (k, p)) = mp_ordinal p" "mp_part_type (part_row u mid (k, p)) = mp_part_type p"
  by (simp_all add: part_row_def create_message_part_input.defs)

lemma message_parts_shape:
  "distinct (map mp_ordinal (build_message_parts cd s m t))"
  "list_all (\<lambda>p. mp_part_type p \<in> set part_types) (build_message_parts cd s m t)"
proof -
  have ords: "map (mp_ordinal \<circ> part_of_block cd s m) (enumerate 0 bs) = map int [0..<length bs]" for bs
    by (rule nth_equalityI) (auto simp: nth_enumerate_eq part_of_block_fields)
  have types: "list_all (\<lambda>p. mp_part_type p \<in> set part_types) (map (part_of_block cd s m) (enumerate 0 bs))" for bs
    by (auto simp: list_all_iff part_of_block_fields)
  have one: "mp_part_type (agent_part cd s m t src) \<in> set part_types" "mp_part_type (text_part cd s m u) \<in> set part_types" for src u
    by (simp_all add: agent_part_def text_part_def part_types_def)
  show "distinct (map mp_ordinal (build_message_parts cd s m t))"
    by (auto simp: build_message_parts_def ords split: gjson.split) (simp add: distinct_map)
  show "list_all (\<lambda>p. mp_part_type p \<in> set part_types) (build_message_parts cd s m t)"
    using one types by (auto simp: build_message_parts_def split: gjson.split)
qed

lemma max_seq_ge: "m \<in> set (db_messages db) \<Longrightarrow> mr_conversation_id m = c \<Longrightarrow> mr_seq m \<le> get_max_seq db c"
proof -
  assume "m \<in> set (db_messages db)" "mr_conversation_id m = c"
  then have "mr_seq m \<in> set (map mr_seq (filter (\<lambda>m. mr_conversation_id m = c) (db_messages db)))" by simp
  then show ?thesis
    unfolding get_max_seq_def
    by (cases "map mr_seq (filter (\<lambda>m. mr_conversation_id m = c) (db_messages db))")
      (use fold_max_ge in auto)
qed

definition seqs_ok :: "lcm_db \<Rightarrow> bool" where
  "seqs_ok db \<longleftrightarrow> list_all (\<lambda>m. 0 \<le> mr_seq m) (db_messages db)"

lemma max_seq_nonneg: "seqs_ok db \<Longrightarrow> 0 \<le> get_max_seq db c"
proof (cases "map mr_seq (filter (\<lambda>m. mr_conversation_id m = c) (db_messages db))")
  case (Cons x xs)
  moreover assume "seqs_ok db"
  then have "\<forall>n \<in> set (map mr_seq (filter (\<lambda>m. mr_conversation_id m = c) (db_messages db))). 0 \<le> n"
    by (auto simp: seqs_ok_def list_all_iff)
  ultimately show ?thesis using fold_max_ge[of x xs] by (simp add: get_max_seq_def)
qed (simp add: get_max_seq_def)

lemma stored_identities_append:
  assumes "seqs_ok db" "\<forall>m \<in> set (db_messages db). mr_conversation_id m = c \<longrightarrow> mr_seq m < mr_seq r" "0 \<le> mr_seq r"
    and "mr_conversation_id r = c"
  shows "stored_identities (db\<lparr>db_messages := db_messages db @ [r], db_next_message_id := n\<rparr>) c
      = stored_identities db c @ [(mr_role r, mr_content r)]"
    and "c' \<noteq> c \<Longrightarrow> stored_identities (db\<lparr>db_messages := db_messages db @ [r], db_next_message_id := n\<rparr>) c' = stored_identities db c'"
  using assms sort_key_append_max[of "filter (\<lambda>m. mr_conversation_id m = c \<and> -1 < mr_seq m) (db_messages db)" mr_seq r]
  by (fastforce simp: stored_identities_def get_messages_def)+

lemma stored_identities_same: "db_messages db' = db_messages db \<Longrightarrow> stored_identities db' = stored_identities db"
  by (simp add: stored_identities_def get_messages_def fun_eq_iff)

lemma create_ok:
  assumes wf: "wf_db db" and seqs: "seqs_ok db"
    and inp: "cm_conversation_id inp = c" "cm_seq inp = get_max_seq db c + 1"
  shows "\<exists>rec db'. create_message digest now inp db = Inr (rec, db') \<and> wf_db db' \<and> seqs_ok db'
    \<and> mr_message_id rec = db_next_message_id db \<and> ref_exists db' (Msg (db_next_message_id db))
    \<and> stored_identities db' c = stored_identities db c @ [(cm_role inp, cm_content inp)]
    \<and> (\<forall>c'. c' \<noteq> c \<longrightarrow> stored_identities db' c' = stored_identities db c')
    \<and> db_message_parts db' = db_message_parts db \<and> db_context_items db' = db_context_items db"
proof -
  let ?r = "message_of_input digest now (db_next_message_id db) inp"
  let ?db = "db\<lparr>db_messages := db_messages db @ [?r], db_next_message_id := db_next_message_id db + 1\<rparr>"
  have r: "mr_message_id ?r = db_next_message_id db" "mr_conversation_id ?r = c" "mr_seq ?r = get_max_seq db c + 1"
    "mr_role ?r = cm_role inp" "mr_content ?r = cm_content inp"
    using inp by (simp_all add: message_of_input_def)
  have below: "\<forall>m \<in> set (db_messages db). mr_conversation_id m = c \<longrightarrow> mr_seq m < mr_seq ?r"
    using max_seq_ge[of _ db c] r(3) by fastforce
  then have "create_message digest now inp db = Inr (?r, ?db)"
    using inp r(3) by (fastforce simp: create_message_def list_ex_iff Let_def)
  moreover have "wf_db ?db" using wf_create_message[OF wf calculation] .
  moreover have "0 \<le> mr_seq ?r" using max_seq_nonneg[OF seqs, of c] r(3) by simp
  moreover have "seqs_ok ?db" using seqs calculation(3) by (simp add: seqs_ok_def)
  ultimately show ?thesis
    using stored_identities_append[OF seqs below _ r(2)] r by auto
qed

lemma wf_add_parts:
  assumes "wf_db db" "list_all (\<lambda>p. ref_exists db (Msg (mp_message_id p))) rows"
    and "distinct (map mp_part_id (db_message_parts db @ rows))"
    and "distinct (map (\<lambda>p. (mp_message_id p, mp_ordinal p)) (db_message_parts db @ rows))"
  shows "wf_db (db\<lparr>db_message_parts := db_message_parts db @ rows\<rparr>)"
proof -
  have "ref_exists (db\<lparr>db_message_parts := db_message_parts db @ rows\<rparr>) q = ref_exists db q" for q
    by (cases q) simp_all
  then show ?thesis using assms unfolding wf_db_def by (simp del: ref_exists.simps)
qed

lemma distinct_map_append:
  "distinct (map f xs) \<Longrightarrow> distinct (map f ys) \<Longrightarrow> (\<And>x y. x \<in> set xs \<Longrightarrow> y \<in> set ys \<Longrightarrow> f x \<noteq> f y)
     \<Longrightarrow> distinct (map f (xs @ ys))"
  by auto

lemma part_rows_ok:
  fixes mid :: int
  assumes "inj uuids" "distinct (map mp_ordinal parts)" "list_all (\<lambda>p. mp_part_type p \<in> set part_types) parts"
  defines "rows \<equiv> map (part_row uuids mid) (enumerate 0 parts)"
  shows "r \<in> set rows \<Longrightarrow> mp_message_id r = mid \<and> mp_part_type r \<in> set part_types \<and> mp_part_id r \<in> range uuids"
    and "distinct (map mp_part_id rows)"
    and "distinct (map (\<lambda>p. (mp_message_id p, mp_ordinal p)) rows)"
proof -
  show "mp_message_id r = mid \<and> mp_part_type r \<in> set part_types \<and> mp_part_id r \<in> range uuids" if "r \<in> set rows"
    using that assms(3) by (auto simp: rows_def list_all_iff in_set_enumerate_eq)
  have "map mp_part_id rows = map uuids [0..<length parts]"
    unfolding rows_def by (rule nth_equalityI) (simp_all add: nth_enumerate_eq)
  then show "distinct (map mp_part_id rows)" using assms(1) by (simp add: distinct_map inj_on_def)
  have "map mp_ordinal rows = map mp_ordinal parts"
    unfolding rows_def by (rule nth_equalityI) (simp_all add: nth_enumerate_eq)
  then have "distinct (map mp_ordinal rows)" using assms(2) by simp
  then show "distinct (map (\<lambda>p. (mp_message_id p, mp_ordinal p)) rows)"
    by (simp add: distinct_map inj_on_def)
qed

lemma parts_ok:
  assumes wf: "wf_db db" and ref: "ref_exists db (Msg mid)"
    and none: "mid \<notin> mp_message_id ` set (db_message_parts db)"
    and fresh: "inj uuids" "range uuids \<inter> mp_part_id ` set (db_message_parts db) = {}"
    and shape: "distinct (map mp_ordinal parts)" "list_all (\<lambda>p. mp_part_type p \<in> set part_types) parts"
  shows "\<exists>db'. create_message_parts uuids mid parts db = Inr db' \<and> wf_db db' \<and> db_messages db' = db_messages db
    \<and> db_context_items db' = db_context_items db \<and> db_summaries db' = db_summaries db
    \<and> mp_part_id ` set (db_message_parts db') \<subseteq> mp_part_id ` set (db_message_parts db) \<union> range uuids"
proof -
  define rows where "rows = map (part_row uuids mid) (enumerate 0 parts)"
  note row = part_rows_ok[OF fresh(1) shape, where mid = mid, folded rows_def]
  have ids: "distinct (map mp_part_id (db_message_parts db @ rows))"
  proof (rule distinct_map_append)
    show "distinct (map mp_part_id (db_message_parts db))" using wf by (simp add: wf_db_def)
    show "mp_part_id p \<noteq> mp_part_id r" if "p \<in> set (db_message_parts db)" "r \<in> set rows" for p r
    proof
      assume "mp_part_id p = mp_part_id r"
      then have "mp_part_id p \<in> range uuids" using row(1)[OF that(2)] by simp
      with imageI[OF that(1), of mp_part_id] fresh(2) show False by (simp only: disjoint_iff)
    qed
  qed (rule row(2))
  have keys: "distinct (map (\<lambda>p. (mp_message_id p, mp_ordinal p)) (db_message_parts db @ rows))"
  proof (rule distinct_map_append)
    show "distinct (map (\<lambda>p. (mp_message_id p, mp_ordinal p)) (db_message_parts db))" using wf by (simp add: wf_db_def)
    show "(mp_message_id p, mp_ordinal p) \<noteq> (mp_message_id r, mp_ordinal r)"
      if "p \<in> set (db_message_parts db)" "r \<in> set rows" for p r
    proof
      assume "(mp_message_id p, mp_ordinal p) = (mp_message_id r, mp_ordinal r)"
      then have "mp_message_id p = mid" using conjunct1[OF row(1)[OF that(2)]] by (simp only: prod.inject)
      with imageI[OF that(1), of mp_message_id] none show False by simp
    qed
  qed (rule row(3))
  have refs: "list_all (\<lambda>p. ref_exists db (Msg (mp_message_id p)) \<and> mp_part_type p \<in> set part_types) rows"
    using ref row(1) unfolding list_all_iff by blast
  have "create_message_parts uuids mid parts db = Inr (db\<lparr>db_message_parts := db_message_parts db @ rows\<rparr>)"
    using insert_parts[OF refs ids keys] by (simp add: create_message_parts_def rows_def)
  moreover have "wf_db (db\<lparr>db_message_parts := db_message_parts db @ rows\<rparr>)"
    using wf_add_parts[OF wf _ ids keys] refs unfolding list_all_iff by blast
  moreover have "mp_part_id ` set rows \<subseteq> range uuids" using row(1) by blast
  ultimately show ?thesis by auto
qed

lemma append_message_ok:
  assumes wf: "wf_db db" and ref: "ref_exists db (Msg mid)"
  shows "\<exists>db'. append_context_message c mid db = Inr db' \<and> wf_db db' \<and> db_messages db' = db_messages db
    \<and> db_message_parts db' = db_message_parts db \<and> context_refs db' c = context_refs db c @ [Msg mid]
    \<and> (\<forall>c'. c' \<noteq> c \<longrightarrow> context_refs db' c' = context_refs db c')"
proof -
  have "\<not> has_context_key db c (max_ordinal db c + 1)" by (rule max_ordinal_free) simp
  then obtain db' where db': "insert_context_item c (max_ordinal db c + 1) (Msg mid) db = Inr db'"
    using ref by (auto simp: insert_context_item_def simp del: ref_exists.simps)
  then have "db_messages db' = db_messages db" "db_message_parts db' = db_message_parts db"
    by (auto simp: insert_context_item_def split: if_splits)
  then show ?thesis
    using db' wf_append[OF wf db'] items_append[OF wf _ db'] items_insert_other[OF _ db']
    by (auto simp: append_context_message_def context_refs_def)
qed

lemma persist_ok:
  assumes wf: "wf_db db" and seqs: "seqs_ok db"
    and fresh: "inj (ie_part_id env t)" "range (ie_part_id env t) \<inter> mp_part_id ` set (db_message_parts db) = {}"
  shows "\<exists>db' mid. persist_message env t c s m db = Inr (True, db') \<and> wf_db db' \<and> seqs_ok db'
    \<and> stored_identities db' c = stored_identities db c @ [identity_of (ie_codec env) m]
    \<and> context_refs db' c = context_refs db c @ [Msg mid]
    \<and> (\<forall>c'. c' \<noteq> c \<longrightarrow> stored_identities db' c' = stored_identities db c' \<and> context_refs db' c' = context_refs db c')
    \<and> mp_part_id ` set (db_message_parts db') \<subseteq> mp_part_id ` set (db_message_parts db) \<union> range (ie_part_id env t)"
proof -
  obtain role content where id: "identity_of (ie_codec env) m = (role, content)" by fastforce
  let ?inp = "\<lparr>cm_conversation_id = c, cm_seq = get_max_seq db c + 1, cm_role = role, cm_content = content,
    cm_token_count = estimate_tokens content, cm_identity_hash = None\<rparr>"
  let ?parts = "build_message_parts (ie_codec env) s m content"
  have "\<exists>rec db1. create_message (ie_digest env) (ie_now env t) ?inp db = Inr (rec, db1) \<and> wf_db db1 \<and> seqs_ok db1
    \<and> mr_message_id rec = db_next_message_id db \<and> ref_exists db1 (Msg (db_next_message_id db))
    \<and> stored_identities db1 c = stored_identities db c @ [(role, content)]
    \<and> (\<forall>c'. c' \<noteq> c \<longrightarrow> stored_identities db1 c' = stored_identities db c')
    \<and> db_message_parts db1 = db_message_parts db \<and> db_context_items db1 = db_context_items db"
    using create_ok[OF wf seqs, of ?inp c] by simp
  then obtain rec db1 where created: "create_message (ie_digest env) (ie_now env t) ?inp db = Inr (rec, db1)"
    and db1: "wf_db db1" "seqs_ok db1" "mr_message_id rec = db_next_message_id db" "ref_exists db1 (Msg (mr_message_id rec))"
      "stored_identities db1 c = stored_identities db c @ [(role, content)]"
      "\<And>c'. c' \<noteq> c \<Longrightarrow> stored_identities db1 c' = stored_identities db c'"
      "db_message_parts db1 = db_message_parts db" "db_context_items db1 = db_context_items db"
    by (auto simp del: ref_exists.simps)
  have "list_all (\<lambda>p. list_ex (\<lambda>m. mr_message_id m = mp_message_id p) (db_messages db)) (db_message_parts db)"
    "list_all (\<lambda>m. mr_message_id m < db_next_message_id db) (db_messages db)"
    using wf by (simp_all add: wf_db_def)
  then have "mr_message_id rec \<notin> mp_message_id ` set (db_message_parts db1)"
    by (fastforce simp: db1(3,7) list_all_iff list_ex_iff)
  from parts_ok[OF db1(1,4) this _ _ message_parts_shape(1)[of "ie_codec env" s m content] message_parts_shape(2),
      of "ie_part_id env t"] fresh db1(7)
  obtain db2 where parts: "create_message_parts (ie_part_id env t) (mr_message_id rec) ?parts db1 = Inr db2"
    and db2: "wf_db db2" "db_messages db2 = db_messages db1" "db_context_items db2 = db_context_items db1"
      "mp_part_id ` set (db_message_parts db2) \<subseteq> mp_part_id ` set (db_message_parts db) \<union> range (ie_part_id env t)"
    by auto
  have "ref_exists db2 (Msg (mr_message_id rec))" using db1(4) by (simp add: db2(2))
  from append_message_ok[OF db2(1) this, of c]
  obtain db3 where appended: "append_context_message c (mr_message_id rec) db2 = Inr db3"
    and db3: "wf_db db3" "db_messages db3 = db_messages db2" "db_message_parts db3 = db_message_parts db2"
      "context_refs db3 c = context_refs db2 c @ [Msg (mr_message_id rec)]"
      "\<And>c'. c' \<noteq> c \<Longrightarrow> context_refs db3 c' = context_refs db2 c'"
    by blast
  have refs: "context_refs db2 = context_refs db"
    by (simp add: context_refs_def get_context_items_def context_rows_def db2(3) db1(8) fun_eq_iff)
  have same: "stored_identities db3 = stored_identities db1"
    by (rule stored_identities_same) (simp add: db2(2) db3(2))
  have "persist_message env t c s m db = Inr (True, db3)"
    using created parts appended by (simp add: persist_message_def id Let_def)
  moreover have "seqs_ok db3" using db1(2) by (simp add: seqs_ok_def db2(2) db3(2))
  ultimately show ?thesis
    using db1 db2 db3 by (auto simp: same refs id)
qed

subsection \<open>The transcript of a session\<close>

definition session_conversation :: "ingest_state \<Rightarrow> utext \<Rightarrow> int option" where
  "session_conversation st s = map_option cv_conversation_id (get_conversation_by_session_id (ig_conversations st) s)"

definition transcript :: "ingest_state \<Rightarrow> utext \<Rightarrow> (message_role \<times> utext) list" where
  "transcript st s = (case session_conversation st s of None \<Rightarrow> [] | Some c \<Rightarrow> stored_identities (ig_db st) c)"

definition context_of :: "ingest_state \<Rightarrow> utext \<Rightarrow> context_ref list" where
  "context_of st s = (case session_conversation st s of None \<Rightarrow> [] | Some c \<Rightarrow> context_refs (ig_db st) c)"

definition conversations_exist :: "ingest_state \<Rightarrow> bool" where
  "conversations_exist st \<longleftrightarrow> (\<forall>c \<ge> ct_next_id (ig_conversations st).
     stored_identities (ig_db st) c = [] \<and> context_refs (ig_db st) c = [])"

definition part_ids_fresh :: "ingest_env \<Rightarrow> nat \<Rightarrow> lcm_db \<Rightarrow> bool" where
  "part_ids_fresh env tick db \<longleftrightarrow> (\<forall>t. inj (ie_part_id env t))
     \<and> (\<forall>t t'. t \<noteq> t' \<longrightarrow> range (ie_part_id env t) \<inter> range (ie_part_id env t') = {})
     \<and> (\<forall>t \<ge> tick. range (ie_part_id env t) \<inter> mp_part_id ` set (db_message_parts db) = {})"

definition ingest_ok :: "ingest_env \<Rightarrow> ingest_state \<Rightarrow> bool" where
  "ingest_ok env st \<longleftrightarrow> wf_db (ig_db st) \<and> seqs_ok (ig_db st) \<and> wf_conversations (ig_conversations st)
     \<and> store_ok (ie_files env) (ig_files st) \<and> conversations_exist st \<and> part_ids_fresh env (ig_tick st) (ig_db st)"

lemma get_or_create_without_key:
  "get_or_create_conversation now s title None t =
     (case get_conversation_by_session_id t s of
        Some r \<Rightarrow> Inr (r, t)
      | None \<Rightarrow> let r = conversation_of_input now (ct_next_id t) \<lparr>ci_session_id = s, ci_session_key = None,
            ci_active = None, ci_archived_at = None, ci_title = title\<rparr> in
          Inr (r, t\<lparr>ct_rows := ct_rows t @ [r], ct_next_id := ct_next_id t + 1\<rparr>))"
  by (simp add: get_or_create_conversation_def normalized_def create_conversation_def conversation_of_input_def
      Let_def split: option.split)

lemma lookup_new_row:
  assumes "cv_session_id r = s" "get_conversation_by_session_id t s = None"
  shows "get_conversation_by_session_id (t\<lparr>ct_rows := ct_rows t @ [r], ct_next_id := n\<rparr>) s' =
    (if s' = s then Some r else get_conversation_by_session_id t s')"
proof -
  have "filter (\<lambda>c. cv_session_id c = s) (ct_rows t) = []"
    using assms(2) by (auto simp: by_id_None filter_empty_conv)
  with assms(1) show ?thesis
    by (auto simp: get_conversation_by_session_id_def newest_first_def active_first_def first_of_def)
qed

text \<open>What looking a session up, or creating it, leaves of the other sessions.\<close>

lemma session_created:
  assumes ok: "ingest_ok env st" and goc: "get_or_create_conversation now s None None (ig_conversations st) = Inr (r, convs)"
  shows "wf_conversations convs \<and> ct_next_id (ig_conversations st) \<le> ct_next_id convs
    \<and> cv_conversation_id r < ct_next_id convs
    \<and> get_conversation_by_session_id convs s = Some r
    \<and> (\<forall>s'. s' \<noteq> s \<longrightarrow> get_conversation_by_session_id convs s' = get_conversation_by_session_id (ig_conversations st) s')
    \<and> (\<forall>s' r'. s' \<noteq> s \<longrightarrow> get_conversation_by_session_id convs s' = Some r' \<longrightarrow> cv_conversation_id r' \<noteq> cv_conversation_id r)
    \<and> transcript st s = stored_identities (ig_db st) (cv_conversation_id r)
    \<and> context_of st s = context_refs (ig_db st) (cv_conversation_id r)"
proof -
  let ?t = "ig_conversations st"
  have wf: "wf_conversations ?t" and fk: "conversations_exist st" using ok by (auto simp: ingest_ok_def)
  have wf': "wf_conversations convs"
    using get_or_create_settles[OF wf, of now s None None] goc by auto
  have unique: "\<forall>s' r'. s' \<noteq> s \<longrightarrow> get_conversation_by_session_id convs s' = Some r' \<longrightarrow> cv_conversation_id r' \<noteq> cv_conversation_id r"
    if "get_conversation_by_session_id convs s = Some r"
    using by_id_Some[OF that] by_id_Some get_conversation_row[OF wf'] by (metis option.inject)
  show ?thesis
  proof (cases "get_conversation_by_session_id ?t s")
    case (Some q)
    then have "r = q" "convs = ?t" using goc by (auto simp: get_or_create_without_key)
    moreover have "cv_conversation_id q < ct_next_id ?t"
      using wf by_id_Some[OF Some] by (auto simp: wf_conversations_def list_all_iff)
    ultimately show ?thesis
      using wf' unique Some by (simp add: transcript_def context_of_def session_conversation_def)
  next
    case None
    then have r: "cv_conversation_id r = ct_next_id ?t" "cv_session_id r = s"
      and c: "convs = ?t\<lparr>ct_rows := ct_rows ?t @ [r], ct_next_id := ct_next_id ?t + 1\<rparr>"
      using goc by (auto simp: get_or_create_without_key conversation_of_input_def Let_def)
    note look = lookup_new_row[OF r(2) None, of "ct_next_id ?t + 1", folded c]
    show ?thesis
      using wf' unique look None fk r(1)
      by (simp add: transcript_def context_of_def session_conversation_def conversations_exist_def c)
  qed
qed

text \<open>What one call may do to the state: \<open>added\<close> are the stored messages and \<open>mids\<close> their ids in the
  context of the session; other sessions, the cursors and the files that could be read stay.\<close>

definition ingests :: "ingest_env \<Rightarrow> utext \<Rightarrow> json list \<Rightarrow> ingest_state \<Rightarrow> ingest_state \<Rightarrow> bool" where
  "ingests env s added st st' \<longleftrightarrow> ingest_ok env st'
     \<and> transcript st' s = transcript st s @ map (identity_of (ie_codec env)) added
     \<and> (\<exists>mids. context_of st' s = context_of st s @ map Msg mids \<and> length mids = length added)
     \<and> (\<forall>s'. s' \<noteq> s \<longrightarrow> transcript st' s' = transcript st s' \<and> context_of st' s' = context_of st s')
     \<and> grows_to (ig_files st) (ig_files st') \<and> ig_cursor st' = ig_cursor st \<and> ig_reconciled st' = ig_reconciled st"

lemma ingests_nothing [simp]: "ingest_ok env st \<Longrightarrow> ingests env s [] st st"
  by (simp add: ingests_def)

lemma ingests_trans:
  assumes "ingests env s xs st st1" "ingests env s ys st1 st2"
  shows "ingests env s (xs @ ys) st st2"
proof -
  from assms obtain m1 m2 where "context_of st1 s = context_of st s @ map Msg m1" "length m1 = length xs"
    "context_of st2 s = context_of st1 s @ map Msg m2" "length m2 = length ys"
    unfolding ingests_def by blast
  then have "\<exists>mids. context_of st2 s = context_of st s @ map Msg mids \<and> length mids = length (xs @ ys)"
    by (intro exI[of _ "m1 @ m2"]) simp
  with assms show ?thesis
    unfolding ingests_def using grows_to_trans by (simp only: map_append append_assoc) metis
qed

lemma transcript_at:
  "get_conversation_by_session_id (ig_conversations st) s = Some r \<Longrightarrow>
    transcript st s = stored_identities (ig_db st) (cv_conversation_id r)
    \<and> context_of st s = context_refs (ig_db st) (cv_conversation_id r)"
  by (simp add: transcript_def context_of_def session_conversation_def)

lemma transcript_cong:
  assumes "get_conversation_by_session_id (ig_conversations st') s = get_conversation_by_session_id (ig_conversations st) s"
    and "\<And>r. get_conversation_by_session_id (ig_conversations st) s = Some r \<Longrightarrow>
      stored_identities (ig_db st') (cv_conversation_id r) = stored_identities (ig_db st) (cv_conversation_id r)
      \<and> context_refs (ig_db st') (cv_conversation_id r) = context_refs (ig_db st) (cv_conversation_id r)"
  shows "transcript st' s = transcript st s \<and> context_of st' s = context_of st s"
  using assms by (cases "get_conversation_by_session_id (ig_conversations st) s")
    (simp_all add: transcript_def context_of_def session_conversation_def)

lemma conversations_settled:
  assumes ok: "ingest_ok env st" and goc: "get_or_create_conversation now s None None (ig_conversations st) = Inr (r, convs)"
    and files: "store_ok (ie_files env) files" "grows_to (ig_files st) files"
  defines "st' \<equiv> st\<lparr>ig_conversations := convs, ig_files := files, ig_tick := ig_tick st + 1\<rparr>"
  shows "ingests env s [] st st'"
proof -
  note created = session_created[OF ok goc]
  have "conversations_exist st'"
    using created ok by (auto simp: conversations_exist_def ingest_ok_def st'_def)
  moreover have "part_ids_fresh env (ig_tick st') (ig_db st')"
    using ok by (auto simp: ingest_ok_def part_ids_fresh_def st'_def)
  ultimately have "ingest_ok env st'"
    using ok created files by (simp add: ingest_ok_def st'_def)
  moreover have "transcript st' s' = transcript st s' \<and> context_of st' s' = context_of st s'" for s'
  proof (cases "s' = s")
    case True
    have "get_conversation_by_session_id (ig_conversations st') s = Some r" using created by (simp add: st'_def)
    from transcript_at[OF this] created True show ?thesis by (simp add: st'_def)
  next
    case False
    then show ?thesis using created by (intro transcript_cong) (simp_all add: st'_def)
  qed
  ultimately show ?thesis using files by (simp add: ingests_def st'_def)
qed

lemma persisted:
  assumes ok: "ingest_ok env st" and goc: "get_or_create_conversation now s None None (ig_conversations st) = Inr (r, convs)"
    and files: "store_ok (ie_files env) files" "grows_to (ig_files st) files"
  shows "\<exists>db. persist_message env (ig_tick st) (cv_conversation_id r) sid m (ig_db st) = Inr (True, db)
    \<and> ingests env s [m] st (st\<lparr>ig_conversations := convs, ig_files := files, ig_tick := ig_tick st + 1, ig_db := db\<rparr>)"
proof -
  let ?c = "cv_conversation_id r"
  note created = session_created[OF ok goc]
  have fresh: "inj (ie_part_id env t)" "t \<noteq> t' \<Longrightarrow> range (ie_part_id env t) \<inter> range (ie_part_id env t') = {}"
    "ig_tick st \<le> t \<Longrightarrow> range (ie_part_id env t) \<inter> mp_part_id ` set (db_message_parts (ig_db st)) = {}" for t t'
    using ok by (simp_all add: ingest_ok_def part_ids_fresh_def)
  have "wf_db (ig_db st)" "seqs_ok (ig_db st)" using ok by (simp_all add: ingest_ok_def)
  note stored = persist_ok[OF this fresh(1) fresh(3)[OF order.refl], of ?c sid m]
  obtain db mid where db: "persist_message env (ig_tick st) ?c sid m (ig_db st) = Inr (True, db)" "wf_db db" "seqs_ok db"
    "stored_identities db ?c = stored_identities (ig_db st) ?c @ [identity_of (ie_codec env) m]"
    "context_refs db ?c = context_refs (ig_db st) ?c @ [Msg mid]"
    "\<forall>c'. c' \<noteq> ?c \<longrightarrow> stored_identities db c' = stored_identities (ig_db st) c' \<and> context_refs db c' = context_refs (ig_db st) c'"
    "mp_part_id ` set (db_message_parts db) \<subseteq> mp_part_id ` set (db_message_parts (ig_db st)) \<union> range (ie_part_id env (ig_tick st))"
    using stored by (elim exE conjE) (rule that)
  let ?st = "st\<lparr>ig_conversations := convs, ig_files := files, ig_tick := ig_tick st + 1, ig_db := db\<rparr>"
  have "conversations_exist ?st"
    using created ok db(6) by (auto simp: conversations_exist_def ingest_ok_def)
  moreover have "range (ie_part_id env t) \<inter> mp_part_id ` set (db_message_parts db) = {}" if "ig_tick st < t" for t
  proof -
    have "range (ie_part_id env t) \<inter> range (ie_part_id env (ig_tick st)) = {}" using fresh(2) that by simp
    moreover have "range (ie_part_id env t) \<inter> mp_part_id ` set (db_message_parts (ig_db st)) = {}" using fresh(3) that by simp
    ultimately show ?thesis using db(7) by (simp only: disjoint_iff) (meson UnE subsetD)
  qed
  then have "part_ids_fresh env (ig_tick ?st) db" using fresh by (simp add: part_ids_fresh_def)
  ultimately have "ingest_ok env ?st" using db(2,3) created files(1) by (simp add: ingest_ok_def)
  moreover have "get_conversation_by_session_id (ig_conversations ?st) s = Some r" using created by simp
  from transcript_at[OF this] created db(4,5)
  have "transcript ?st s = transcript st s @ [identity_of (ie_codec env) m]"
    "context_of ?st s = context_of st s @ map Msg [mid]"
    by simp_all
  moreover have "transcript ?st s' = transcript st s' \<and> context_of ?st s' = context_of st s'" if "s' \<noteq> s" for s'
    using created db(6) that by (intro transcript_cong) auto
  ultimately have "ingests env s [m] st ?st" using files(2) unfolding ingests_def by (auto intro!: exI[of _ "[mid]"])
  with db(1) show ?thesis by blast
qed

lemma ingest_single_steps:
  assumes ok: "ingest_ok env st" and m: "persistable m"
  obtains r convs files m' where
    "get_or_create_conversation (ie_now env (ig_tick st)) s None None (ig_conversations st) = Inr (r, convs)"
    "protect_message_for_ingest (ie_codec env) (ie_files env) convs (cv_conversation_id r) m (ig_files st) = (files, m')"
    "store_ok (ie_files env) files" "grows_to (ig_files st) files" "gives_back files m' m"
proof -
  have wf: "wf_conversations (ig_conversations st)" and files_ok: "store_ok (ie_files env) (ig_files st)"
    using ok by (auto simp: ingest_ok_def)
  from get_or_create_settles[OF wf, of "ie_now env (ig_tick st)" s None None] obtain r convs where
    goc: "get_or_create_conversation (ie_now env (ig_tick st)) s None None (ig_conversations st) = Inr (r, convs)" by blast
  obtain files m' where g: "protect_message_for_ingest (ie_codec env) (ie_files env) convs (cv_conversation_id r) m (ig_files st)
      = (files, m')" by fastforce
  from message_kept[OF files_ok g] goc g that show thesis by blast
qed

lemma ingest_single_busy:
  assumes ok: "ingest_ok env st" and m: "persistable m" and busy: "ie_busy env (ig_tick st)"
  shows "\<exists>st'. ingest_single env s m None st = (st', Inl Db_Busy) \<and> ingests env s [] st st' \<and> ig_tick st' = ig_tick st + 1"
proof -
  from ingest_single_steps[OF ok m, of s] obtain r convs files m' where
    goc: "get_or_create_conversation (ie_now env (ig_tick st)) s None None (ig_conversations st) = Inr (r, convs)"
    and g: "protect_message_for_ingest (ie_codec env) (ie_files env) convs (cv_conversation_id r) m (ig_files st) = (files, m')"
    and f: "store_ok (ie_files env) files" "grows_to (ig_files st) files" by metis
  from conversations_settled[OF ok goc f] show ?thesis
    using m busy goc g by (simp add: ingest_single_def Let_def)
qed

lemma ingest_single_stores:
  assumes ok: "ingest_ok env st" and m: "persistable m" and free: "\<not> ie_busy env (ig_tick st)"
  shows "\<exists>st' m'. ingest_single env s m None st = (st', Inr True) \<and> ingests env s [m'] st st'
    \<and> gives_back (ig_files st') m' m \<and> ig_tick st' = ig_tick st + 1"
proof -
  from ingest_single_steps[OF ok m, of s] obtain r convs files m' where
    goc: "get_or_create_conversation (ie_now env (ig_tick st)) s None None (ig_conversations st) = Inr (r, convs)"
    and g: "protect_message_for_ingest (ie_codec env) (ie_files env) convs (cv_conversation_id r) m (ig_files st) = (files, m')"
    and f: "store_ok (ie_files env) files" "grows_to (ig_files st) files" "gives_back files m' m" by metis
  from persisted[OF ok goc f(1,2), of s m'] obtain db where
    db: "persist_message env (ig_tick st) (cv_conversation_id r) s m' (ig_db st) = Inr (True, db)"
      "ingests env s [m'] st (st\<lparr>ig_conversations := convs, ig_files := files, ig_tick := ig_tick st + 1, ig_db := db\<rparr>)"
    by blast
  let ?st = "st\<lparr>ig_conversations := convs, ig_files := files, ig_tick := ig_tick st + 1, ig_db := db\<rparr>"
  have "ingest_single env s m None st = (?st, Inr True)"
    using m free goc g db(1) by (simp add: ingest_single_def Let_def)
  with db(2) f(3) show ?thesis by (intro exI[of _ ?st] exI[of _ m']) simp
qed

lemma ingest_single_filtered: "\<not> persistable m \<Longrightarrow> ingest_single env s m key st = (st, Inr False)"
  by (simp add: ingest_single_def)

lemma ingest_batch_stores:
  assumes "ingest_ok env st" "\<And>t. ig_tick st \<le> t \<Longrightarrow> \<not> ie_busy env t" "ingest_batch env s None ms st = (st', n)"
  shows "n = length (filter persistable ms) \<and> (\<exists>added.
    list_all2 (gives_back (ig_files st')) added (filter persistable ms) \<and> ingests env s added st st')"
  using assms
proof (induction ms arbitrary: st st' n)
  case Nil
  then show ?case by (auto intro!: exI[of _ "[]"])
next
  case (Cons m ms)
  show ?case
  proof (cases "persistable m")
    case False
    with Cons show ?thesis by (auto simp: ingest_single_filtered split: prod.splits)
  next
    case True
    from ingest_single_stores[OF Cons.prems(1) True Cons.prems(2)[OF order.refl], of s] obtain st1 m' where
      one: "ingest_single env s m None st = (st1, Inr True)" "ingests env s [m'] st st1" "gives_back (ig_files st1) m' m"
        "ig_tick st1 = ig_tick st + 1"
      by blast
    have free: "\<not> ie_busy env t" if "ig_tick st1 \<le> t" for t using Cons.prems(2) that one(4) by simp
    obtain st2 k where rest: "ingest_batch env s None ms st1 = (st2, k)" by fastforce
    have "ingest_ok env st1" using one(2) by (simp add: ingests_def)
    from Cons.IH[OF this free rest] obtain added where
      k: "k = length (filter persistable ms)" and
      added: "list_all2 (gives_back (ig_files st2)) added (filter persistable ms)" "ingests env s added st1 st2"
      by blast
    have st': "st' = st2" "n = 1 + k" using Cons.prems(3) one(1) rest by auto
    have "gives_back (ig_files st2) m' m"
      using gives_back_grows[OF one(3)] added(2) by (simp add: ingests_def)
    then have "list_all2 (gives_back (ig_files st')) (m' # added) (filter persistable (m # ms))"
      using True added(1) st' by simp
    moreover have "ingests env s (m' # added) st st'"
      using ingests_trans[OF one(2) added(2)] st' by simp
    ultimately show ?thesis using True k st' by auto
  qed
qed

subsection \<open>Histories\<close>

definition attended :: "ingest_env \<Rightarrow> utext \<Rightarrow> bool" where
  "attended env s \<longleftrightarrow> s \<noteq> [] \<and> \<not> should_ignore_session env (Some s) None"

lemma not_stateless [simp]: "\<not> is_stateless_session env None"
  by (simp add: is_stateless_session_def normalized_def)

lemma bookkeeping_fields [simp]:
  "transcript (st\<lparr>ig_cursor := c\<rparr>) s = transcript st s" "transcript (st\<lparr>ig_reconciled := r\<rparr>) s = transcript st s"
  "context_of (st\<lparr>ig_cursor := c\<rparr>) s = context_of st s" "context_of (st\<lparr>ig_reconciled := r\<rparr>) s = context_of st s"
  "ingest_ok env (st\<lparr>ig_cursor := c\<rparr>) = ingest_ok env st" "ingest_ok env (st\<lparr>ig_reconciled := r\<rparr>) = ingest_ok env st"
  by (simp_all add: transcript_def context_of_def session_conversation_def ingest_ok_def conversations_exist_def
      split: option.split)

lemma gives_back_list_grows:
  "list_all2 (gives_back fs) xs ys \<Longrightarrow> grows_to fs fs' \<Longrightarrow> list_all2 (gives_back fs') xs ys"
  by (erule list_all2_mono) (rule gives_back_grows)

text \<open>\<open>caught_up env s h t st\<close>: of the history \<open>h\<close> every persistable message is stored after the
  rows \<open>t\<close>, once and in order, and the cursor leaves none of them for later.\<close>

definition caught_up ::
    "ingest_env \<Rightarrow> utext \<Rightarrow> json list \<Rightarrow> (message_role \<times> utext) list \<Rightarrow> ingest_state \<Rightarrow> bool" where
  "caught_up env s h t st \<longleftrightarrow> ingest_ok env st \<and> s \<in> ig_reconciled st
     \<and> (\<exists>added. list_all2 (gives_back (ig_files st)) added (filter persistable h)
          \<and> transcript st s = t @ map (identity_of (ie_codec env)) added)
     \<and> cursor_of st s \<le> length h \<and> filter persistable (drop (cursor_of st s) h) = []"

lemma diff_new:
  assumes att: "attended env s" and free: "\<And>t. ig_tick st \<le> t \<Longrightarrow> \<not> ie_busy env t"
    and ok: "ingest_ok env st" and rec: "s \<in> ig_reconciled st"
    and st: "cursor_of st s \<le> length h" "filter persistable (drop (cursor_of st s) h) = new"
  defines "st' \<equiv> do_ingest_history_diff env s h st"
  shows "ingest_ok env st' \<and> s \<in> ig_reconciled st' \<and> grows_to (ig_files st) (ig_files st')
    \<and> (\<exists>added. list_all2 (gives_back (ig_files st')) added new
         \<and> transcript st' s = transcript st s @ map (identity_of (ie_codec env)) added)
    \<and> (\<forall>s'. s' \<noteq> s \<longrightarrow> transcript st' s' = transcript st s')
    \<and> cursor_of st' s \<le> length h \<and> filter persistable (drop (cursor_of st' s) h) = []"
proof (cases "length h \<le> cursor_of st s")
  case True
  then have "st' = st" "new = []"
    using att rec st by (auto simp: st'_def do_ingest_history_diff_def attended_def)
  then show ?thesis using ok rec st by auto
next
  case False
  obtain st2 n where b: "ingest_batch env s None (drop (cursor_of st s) h) st = (st2, n)" by fastforce
  from ingest_batch_stores[OF ok free b] st(2) obtain added where
    n: "n = length new" and added: "list_all2 (gives_back (ig_files st2)) added new" "ingests env s added st st2"
    by blast
  have st': "st' = (if 0 < n then st2\<lparr>ig_cursor := (ig_cursor st2)(s \<mapsto> length h)\<rparr> else st2)"
    using att rec False b by (simp add: do_ingest_history_diff_def attended_def st'_def)
  have same: "ig_files st' = ig_files st2" "ig_reconciled st' = ig_reconciled st" "transcript st' = transcript st2"
    using added(2) by (auto simp: st' ingests_def)
  have "ingest_ok env st'" using added(2) by (simp add: st' ingests_def)
  moreover have "cursor_of st' s \<le> length h \<and> filter persistable (drop (cursor_of st' s) h) = []"
  proof (cases "new = []")
    case True
    then have "cursor_of st' s = cursor_of st s" using n added(2) by (simp add: st' cursor_of_def ingests_def)
    with True st show ?thesis by simp
  qed (use n in \<open>simp add: st' cursor_of_def\<close>)
  ultimately show ?thesis
    using rec added by (auto simp: same ingests_def)
qed

lemma diff_ingested:
  assumes att: "attended env s" and free: "\<And>t. ig_tick st \<le> t \<Longrightarrow> \<not> ie_busy env t"
    and ok: "ingest_ok env st" and rec: "s \<in> ig_reconciled st"
    and st: "cursor_of st s \<le> length h" "filter persistable (drop (cursor_of st s) h) = new"
    and old: "list_all2 (gives_back (ig_files st)) stored msgs" "transcript st s = t @ map (identity_of (ie_codec env)) stored"
    and all: "filter persistable h = msgs @ new"
  shows "caught_up env s h t (do_ingest_history_diff env s h st)"
proof -
  let ?st = "do_ingest_history_diff env s h st"
  from diff_new[OF att free ok rec st] obtain added where
    "list_all2 (gives_back (ig_files ?st)) added new" "transcript ?st s = transcript st s @ map (identity_of (ie_codec env)) added"
    and g: "grows_to (ig_files st) (ig_files ?st)" by blast
  then have "list_all2 (gives_back (ig_files ?st)) (stored @ added) (filter persistable h)"
    "transcript ?st s = t @ map (identity_of (ie_codec env)) (stored @ added)"
    using gives_back_list_grows[OF old(1) g] old(2) by (simp_all add: all list_all2_appendI)
  then show ?thesis
    using diff_new[OF att free ok rec st] unfolding caught_up_def by blast
qed

lemma caught_up_extends:
  assumes "attended env s" "\<And>t. ig_tick st \<le> t \<Longrightarrow> \<not> ie_busy env t" "caught_up env s h t st"
  shows "caught_up env s (h @ d) t (do_ingest_history_diff env s (h @ d) st)"
proof -
  from assms(3) obtain stored where c: "ingest_ok env st" "s \<in> ig_reconciled st"
    "list_all2 (gives_back (ig_files st)) stored (filter persistable h)"
    "transcript st s = t @ map (identity_of (ie_codec env)) stored"
    "cursor_of st s \<le> length h" "filter persistable (drop (cursor_of st s) h) = []"
    unfolding caught_up_def by blast
  have "filter persistable (drop (cursor_of st s) (h @ d)) = filter persistable d" using c(5,6) by simp
  from diff_ingested[OF assms(1,2) c(1,2) _ this c(3,4)] c(5) show ?thesis by simp
qed

text \<open>The first call for a session after the start of the process.\<close>

lemma first_call:
  assumes "attended env s" "s \<notin> ig_reconciled st" "h \<noteq> []"
  shows "do_ingest_history_diff env s h st
    = do_ingest_history_diff env s h ((reconcile_ingest_cursor env s h st)\<lparr>ig_reconciled := insert s (ig_reconciled st)\<rparr>)"
  using assms by (simp add: do_ingest_history_diff_def attended_def)

lemma reconcile_unmatched:
  assumes "persistable m" "stored \<noteq> []" "stored ! 0 \<noteq> identity_of cd m"
  shows "replay_loop cd stored (m # ms) 0 0 0 = (0, 0)"
  using assms by (auto simp: persistable_def)

lemma reconcile_fresh: "transcript st s = [] \<Longrightarrow> reconcile_ingest_cursor env s h st = st"
  by (auto simp: reconcile_ingest_cursor_def transcript_def session_conversation_def Let_def split: option.splits)

lemma cursor_of_reconciled [simp]: "cursor_of (st\<lparr>ig_reconciled := r\<rparr>) s = cursor_of st s"
  by (simp add: cursor_of_def)

lemma fresh_first_call:
  assumes att: "attended env s" and free: "\<And>t. ig_tick st \<le> t \<Longrightarrow> \<not> ie_busy env t" and ok: "ingest_ok env st"
    and new: "s \<notin> ig_reconciled st" "ig_cursor st s = None" "transcript st s = []" and h: "h \<noteq> []"
  shows "caught_up env s h [] (do_ingest_history_diff env s h st)"
proof -
  let ?st = "st\<lparr>ig_reconciled := insert s (ig_reconciled st)\<rparr>"
  have "cursor_of st s = 0" using new(2) by (simp add: cursor_of_def)
  then show ?thesis
    using diff_ingested[OF att, of ?st h "filter persistable h" "[]" "[]" "[]"] free ok new(3)
    by (simp add: first_call[OF att new(1) h] reconcile_fresh)
qed

lemma replay_step:
  "\<not> length stored \<le> matched \<Longrightarrow> persistable m \<Longrightarrow> stored ! matched = identity_of cd m \<Longrightarrow>
    replay_loop cd stored (m # ms) idx matched cursor = replay_loop cd stored ms (idx + 1) (matched + 1) (idx + 1)"
  "\<not> length stored \<le> matched \<Longrightarrow> \<not> persistable m \<Longrightarrow>
    replay_loop cd stored (m # ms) idx matched cursor = replay_loop cd stored ms (idx + 1) matched (idx + 1)"
  by (auto simp: persistable_def)

text \<open>The replayed part of the history is recognised exactly.\<close>

lemma replay_matches:
  assumes "matched \<le> length stored" "drop matched stored = map (identity_of cd) (filter persistable p)"
  shows "\<exists>j. replay_loop cd stored (p @ d) idx matched idx = (length stored, idx + j)
    \<and> j \<le> length (p @ d) \<and> filter persistable (drop j (p @ d)) = filter persistable d"
  using assms
proof (induction p arbitrary: idx matched)
  case Nil
  then show ?case by (cases d) (auto intro!: exI[of _ 0])
next
  case (Cons m p)
  show ?case
  proof (cases "length stored \<le> matched")
    case True
    then have "filter persistable (m # p) = []" using Cons.prems(2) by simp
    with True Cons.prems(1) show ?thesis
      by (auto intro!: exI[of _ 0] split: if_splits)
  next
    case False
    show ?thesis
    proof (cases "persistable m")
      case True
      then have "stored ! matched = identity_of cd m"
        "drop (matched + 1) stored = map (identity_of cd) (filter persistable p)"
        using Cons.prems(2) False by (simp_all add: Cons_nth_drop_Suc[symmetric])
      with Cons.IH[of "matched + 1" "idx + 1"] False True obtain j where
        "replay_loop cd stored (p @ d) (idx + 1) (matched + 1) (idx + 1) = (length stored, idx + 1 + j)"
        "j \<le> length (p @ d)" "filter persistable (drop j (p @ d)) = filter persistable d" by auto
      with replay_step(1)[OF False True \<open>stored ! matched = _\<close>] show ?thesis
        by (intro exI[of _ "j + 1"]) simp
    next
      case np: False
      with Cons.IH[of matched "idx + 1"] Cons.prems obtain j where
        "replay_loop cd stored (p @ d) (idx + 1) matched (idx + 1) = (length stored, idx + 1 + j)"
        "j \<le> length (p @ d)" "filter persistable (drop j (p @ d)) = filter persistable d" by auto
      with replay_step(2)[OF False np] show ?thesis
        by (intro exI[of _ "j + 1"]) simp
    qed
  qed
qed

text \<open>What the process forgets.\<close>

definition restart :: "ingest_state \<Rightarrow> ingest_state" where
  "restart st = st\<lparr>ig_cursor := (\<lambda>_. None), ig_reconciled := {}\<rparr>"

lemma restart_fields [simp]:
  "transcript (restart st) s = transcript st s" "ingest_ok env (restart st) = ingest_ok env st"
  "ig_tick (restart st) = ig_tick st" "ig_files (restart st) = ig_files st" "ig_cursor (restart st) s = None"
  "ig_reconciled (restart st) = {}" "ig_conversations (restart st) = ig_conversations st" "ig_db (restart st) = ig_db st"
  by (simp_all add: restart_def)

lemma reconcile_replay:
  assumes ok: "transcript st s = map (identity_of (ie_codec env)) (filter persistable p)" and "ig_cursor st s = None"
    and "seqs_ok (ig_db st)"
  shows "\<exists>j \<le> length (p @ d). cursor_of (reconcile_ingest_cursor env s (p @ d) st) s = j
     \<and> filter persistable (drop j (p @ d)) = filter persistable d
     \<and> reconcile_ingest_cursor env s (p @ d) st = st\<lparr>ig_cursor := ig_cursor (reconcile_ingest_cursor env s (p @ d) st)\<rparr>"
proof (cases "filter persistable p = []")
  case True
  then have "reconcile_ingest_cursor env s (p @ d) st = st" using reconcile_fresh[of st s] ok by simp
  with True assms(2) show ?thesis by (simp add: cursor_of_def)
next
  case False
  then obtain r where r: "get_conversation_by_session_id (ig_conversations st) s = Some r"
    using ok by (cases "get_conversation_by_session_id (ig_conversations st) s")
      (auto simp: transcript_def session_conversation_def)
  let ?stored = "stored_identities (ig_db st) (cv_conversation_id r)"
  have stored: "?stored = map (identity_of (ie_codec env)) (filter persistable p)" using transcript_at[OF r] ok by simp
  then have "?stored \<noteq> []" using False by simp
  then obtain m where "m \<in> set (get_messages (ig_db st) (cv_conversation_id r) None None)"
    by (cases "get_messages (ig_db st) (cv_conversation_id r) None None") (auto simp: stored_identities_def)
  then have "get_message_count (ig_db st) (cv_conversation_id r) \<noteq> 0"
    by (auto simp: get_message_count_def get_messages_def filter_empty_conv)
  moreover obtain j where j: "replay_loop (ie_codec env) ?stored (p @ d) 0 0 0 = (length ?stored, j)"
    "j \<le> length (p @ d)" "filter persistable (drop j (p @ d)) = filter persistable d"
    using replay_matches[of 0 ?stored "ie_codec env" p d 0] stored by auto
  moreover have "p @ d \<noteq> []" using False by auto
  ultimately have "reconcile_ingest_cursor env s (p @ d) st = st\<lparr>ig_cursor := (ig_cursor st)(s \<mapsto> j)\<rparr>"
    using r \<open>?stored \<noteq> []\<close> assms(2) by (auto simp: reconcile_ingest_cursor_def Let_def)
  with j show ?thesis by (simp add: cursor_of_def)
qed

lemma restart_diff:
  assumes att: "attended env s" and free: "\<And>t. ig_tick st \<le> t \<Longrightarrow> \<not> ie_busy env t" and ok: "ingest_ok env st"
    and old: "transcript st s = map (identity_of (ie_codec env)) (filter persistable h)" and h: "h @ d \<noteq> []"
  defines "st' \<equiv> do_ingest_history_diff env s (h @ d) (restart st)"
  shows "\<exists>added. list_all2 (gives_back (ig_files st')) added (filter persistable d)
    \<and> transcript st' s = transcript st s @ map (identity_of (ie_codec env)) added
    \<and> filter persistable (drop (cursor_of st' s) (h @ d)) = []"
proof -
  have "transcript (restart st) s = map (identity_of (ie_codec env)) (filter persistable h)" "seqs_ok (ig_db (restart st))"
    using old ok by (simp_all add: ingest_ok_def)
  from reconcile_replay[OF this(1) _ this(2), of d] obtain j cur where j: "j \<le> length (h @ d)"
    "filter persistable (drop j (h @ d)) = filter persistable d"
    "reconcile_ingest_cursor env s (h @ d) (restart st) = (restart st)\<lparr>ig_cursor := cur\<rparr>"
    "cursor_of ((restart st)\<lparr>ig_cursor := cur\<rparr>) s = j"
    by fastforce
  let ?st = "((restart st)\<lparr>ig_cursor := cur\<rparr>)\<lparr>ig_reconciled := insert s (ig_reconciled (restart st))\<rparr>"
  have st': "st' = do_ingest_history_diff env s (h @ d) ?st"
    unfolding st'_def by (rule first_call[OF att _ h, of "restart st", unfolded j(3)]) simp
  have "\<And>t. ig_tick ?st \<le> t \<Longrightarrow> \<not> ie_busy env t" "ingest_ok env ?st" "s \<in> ig_reconciled ?st"
    "cursor_of ?st s \<le> length (h @ d)" "filter persistable (drop (cursor_of ?st s) (h @ d)) = filter persistable d"
    using free ok j by simp_all
  from diff_new[OF att this] show ?thesis unfolding st' by auto
qed

definition run_hooks :: "ingest_env \<Rightarrow> utext \<Rightarrow> json list list \<Rightarrow> ingest_state \<Rightarrow> ingest_state" where
  "run_hooks env s hs st = fold (do_ingest_history_diff env s) hs st"

lemma tick_grows: "ingest_single env s m key st = (st', r) \<Longrightarrow> ig_tick st \<le> ig_tick st'"
  by (auto simp: ingest_single_def Let_def split: if_splits sum.splits prod.splits)

lemma batch_tick_grows: "ingest_batch env s key ms st = (st', n) \<Longrightarrow> ig_tick st \<le> ig_tick st'"
proof (induction ms arbitrary: st n)
  case (Cons m ms)
  then show ?case by (auto split: prod.splits dest!: tick_grows) (meson le_trans)
qed simp

lemma diff_tick_grows: "ig_tick st \<le> ig_tick (do_ingest_history_diff env s h st)"
proof -
  have "ig_tick (reconcile_ingest_cursor env s h st) = ig_tick st" for st
    by (auto simp: reconcile_ingest_cursor_def Let_def split: option.split prod.split)
  then show ?thesis
    by (auto simp: do_ingest_history_diff_def Let_def split: prod.split dest!: batch_tick_grows)
qed

lemma hooks_caught_up:
  assumes "attended env s" "\<And>t. ig_tick st \<le> t \<Longrightarrow> \<not> ie_busy env t" "caught_up env s h t st" "successively prefix (h # hs)"
  shows "caught_up env s (last (h # hs)) t (run_hooks env s hs st)"
  using assms(2-4)
proof (induction hs arbitrary: h st)
  case (Cons g hs)
  from Cons.prems(3) obtain d where g: "g = h @ d" by (auto elim: prefixE)
  have "caught_up env s g t (do_ingest_history_diff env s g st)"
    using caught_up_extends[OF assms(1) Cons.prems(1,2)] by (simp add: g)
  moreover have "\<not> ie_busy env k" if "ig_tick (do_ingest_history_diff env s g st) \<le> k" for k
    using Cons.prems(1) le_trans[OF diff_tick_grows that] .
  moreover have "successively prefix (g # hs)" using Cons.prems(3) by simp
  ultimately have "caught_up env s (last (g # hs)) t (run_hooks env s hs (do_ingest_history_diff env s g st))"
    by (intro Cons.IH)
  then show ?case by (simp add: run_hooks_def)
qed (simp add: run_hooks_def)



subsection \<open>Two ways to lose the correspondence\<close>

lemma batch_append:
  "ingest_batch env s key (xs @ ys) st =
     (case ingest_batch env s key xs st of (st1, n) \<Rightarrow>
        (case ingest_batch env s key ys st1 of (st2, k) \<Rightarrow> (st2, n + k)))"
  by (induction xs arbitrary: st) (auto split: prod.splits)

lemma batch_filtered: "filter persistable ms = [] \<Longrightarrow> ingest_batch env s key ms st = (st, 0)"
  by (induction ms) (auto simp: ingest_single_filtered split: if_splits)

text \<open>A call brings two new messages, and the database is busy for the first of them. The second is
  stored, so the cursor moves past both, and whatever history later calls bring, the first message
  is never stored.\<close>

theorem failed_message_skipped:
  assumes "attended env s" "caught_up env s h t st" "persistable m1" "persistable m2"
    and "\<And>k. ie_busy env k \<longleftrightarrow> k = ig_tick st"
  shows "let st' = do_ingest_history_diff env s (h @ [m1, m2]) st;
             st'' = do_ingest_history_diff env s (h @ [m1, m2] @ d) st' in
    \<exists>m2' added. gives_back (ig_files st'') m2' m2 \<and> list_all2 (gives_back (ig_files st'')) added (filter persistable d)
      \<and> transcript st'' s = transcript st s @ map (identity_of (ie_codec env)) (m2' # added)"
proof -
  have ok: "ingest_ok env st" and rec: "s \<in> ig_reconciled st" and cur: "cursor_of st s \<le> length h"
    "filter persistable (drop (cursor_of st s) h) = []"
    using assms(2) by (auto simp: caught_up_def)
  from ingest_single_busy[OF ok assms(3), of s] assms(5) obtain st1 where
    one: "ingest_single env s m1 None st = (st1, Inl Db_Busy)" "ingests env s [] st st1" "ig_tick st1 = ig_tick st + 1"
    by blast
  have ok1: "ingest_ok env st1" using one(2) by (simp add: ingests_def)
  from ingest_single_stores[OF ok1 assms(4), of s] assms(5) one(3) obtain st2 m2' where
    two: "ingest_single env s m2 None st1 = (st2, Inr True)" "ingests env s [m2'] st1 st2" "gives_back (ig_files st2) m2' m2"
      "ig_tick st2 = ig_tick st1 + 1" by auto
  have both: "ingests env s [m2'] st st2" using ingests_trans[OF one(2) two(2)] by simp
  define st' where "st' = st2\<lparr>ig_cursor := (ig_cursor st2)(s \<mapsto> length (h @ [m1, m2]))\<rparr>"
  have "ingest_batch env s None (drop (cursor_of st s) (h @ [m1, m2])) st = (st2, 1)"
    using cur one(1) two(1) by (simp add: batch_append batch_filtered)
  then have st': "do_ingest_history_diff env s (h @ [m1, m2]) st = st'"
    using assms(1) rec cur(1) by (simp add: do_ingest_history_diff_def attended_def st'_def)
  have "\<And>k. ig_tick st' \<le> k \<Longrightarrow> \<not> ie_busy env k" "ingest_ok env st'" "s \<in> ig_reconciled st'"
    "cursor_of st' s \<le> length (h @ [m1, m2] @ d)"
    "filter persistable (drop (cursor_of st' s) (h @ [m1, m2] @ d)) = filter persistable d"
    using assms(5) one(3) two(4) both rec by (auto simp: st'_def ingests_def cursor_of_def)
  from diff_new[OF assms(1) this] obtain added where
    "list_all2 (gives_back (ig_files (do_ingest_history_diff env s (h @ [m1, m2] @ d) st'))) added (filter persistable d)"
    "transcript (do_ingest_history_diff env s (h @ [m1, m2] @ d) st') s = transcript st' s @ map (identity_of (ie_codec env)) added"
    "grows_to (ig_files st') (ig_files (do_ingest_history_diff env s (h @ [m1, m2] @ d) st'))" by blast
  moreover have "transcript st' s = transcript st s @ [identity_of (ie_codec env) m2']" "gives_back (ig_files st') m2' m2"
    using both two(3) by (simp_all add: st'_def ingests_def)
  ultimately show ?thesis
    unfolding Let_def st' by (intro exI[of _ m2'] exI[of _ added]) (auto intro: gives_back_grows)
qed

text \<open>A first message that the guard changes: after a restart the same history is not recognised, and
  the message is stored a second time.\<close>

theorem guarded_message_stored_twice:
  assumes "attended env s" "\<And>t. ig_tick st \<le> t \<Longrightarrow> \<not> ie_busy env t" "ingest_ok env st"
    and "s \<notin> ig_reconciled st" "ig_cursor st s = None" "transcript st s = []" "persistable m"
    and "transcript (do_ingest_history_diff env s [m] st) s \<noteq> [identity_of (ie_codec env) m]"
  shows "length (transcript (do_ingest_history_diff env s [m] (restart (do_ingest_history_diff env s [m] st))) s) = 2"
proof -
  let ?st1 = "do_ingest_history_diff env s [m] st"
  have "caught_up env s [m] [] ?st1" using fresh_first_call[OF assms(1-6), of "[m]"] by simp
  then have "ingest_ok env ?st1" "length (transcript ?st1 s) = 1"
    using assms(7) by (auto simp: caught_up_def list_all2_Cons2)
  then obtain x where x: "ingest_ok env ?st1" "transcript ?st1 s = [x]"
    by (cases "transcript ?st1 s") auto
  have free: "\<not> ie_busy env t" if "ig_tick ?st1 \<le> t" for t
    using assms(2) le_trans[OF diff_tick_grows that] .
  obtain r where r: "get_conversation_by_session_id (ig_conversations ?st1) s = Some r"
    "stored_identities (ig_db ?st1) (cv_conversation_id r) = [x]"
    using x(2) by (cases "get_conversation_by_session_id (ig_conversations ?st1) s")
      (auto simp: transcript_def session_conversation_def)
  have "replay_loop (ie_codec env) [x] [m] 0 0 0 = (0, 0)"
    using reconcile_unmatched[OF assms(7), of "[x]" "ie_codec env" "[]"] assms(8) x(2) by simp
  then have "reconcile_ingest_cursor env s [m] (restart ?st1) = restart ?st1"
    using r by (simp add: reconcile_ingest_cursor_def Let_def)
  then have again: "do_ingest_history_diff env s [m] (restart ?st1)
      = do_ingest_history_diff env s [m] ((restart ?st1)\<lparr>ig_reconciled := {s}\<rparr>)"
    using first_call[OF assms(1), of "restart ?st1" "[m]"] by simp
  let ?st2 = "(restart ?st1)\<lparr>ig_reconciled := {s}\<rparr>"
  have "\<And>t. ig_tick ?st2 \<le> t \<Longrightarrow> \<not> ie_busy env t" "ingest_ok env ?st2" "s \<in> ig_reconciled ?st2"
    "cursor_of ?st2 s \<le> length [m]" "filter persistable (drop (cursor_of ?st2 s) [m]) = [m]"
    using free x(1) assms(7) by (auto simp: cursor_of_def)
  from diff_new[OF assms(1) this] x(2) show ?thesis unfolding again by (auto simp: list_all2_Cons2)
qed

subsection \<open>Concrete runs\<close>

definition blank_state :: ingest_state where
  "blank_state = \<lparr>ig_conversations = \<lparr>ct_rows = [], ct_next_id = 1\<rparr>, ig_db = no_rows, ig_files = no_files,
     ig_cursor = (\<lambda>_. None), ig_reconciled = {}, ig_tick = 0\<rparr>"

definition sample_ingest_env :: "(nat \<Rightarrow> bool) \<Rightarrow> ingest_env" where
  "sample_ingest_env busy = \<lparr>ie_codec = sample_codec (cps ''user''), ie_files = guard_env, ie_digest = (\<lambda>_. []),
     ie_now = int, ie_part_id = (\<lambda>t k. replicate t 97 @ [98] @ replicate k 97), ie_busy = busy,
     ie_ignore_session_patterns = [], ie_stateless_session_patterns = [], ie_skip_stateless_sessions = True\<rparr>"

definition sample_message :: "string \<Rightarrow> string \<Rightarrow> json" where
  "sample_message role t = JObj [(''role'', JStr (cps role)), (''content'', JStr (cps t))]"

lemma sample_env_fields [simp]:
  "ie_busy (sample_ingest_env busy) = busy" "attended (sample_ingest_env busy) s \<longleftrightarrow> s \<noteq> []"
  "ie_files (sample_ingest_env busy) = guard_env" "ie_codec (sample_ingest_env busy) = sample_codec (cps ''user'')"
  by (simp_all add: sample_ingest_env_def attended_def should_ignore_session_def)

lemma sample_persistable: "persistable (sample_message ''user'' t)"
  by (simp add: persistable_def sample_message_def has_persistable_role_def persistable_raw_roles_def
      is_failed_empty_assistant_def)

lemma store_ok_no_files: "store_ok guard_env no_files"
proof -
  have "inj (\<lambda>t. replicate t (97 :: nat))" by (rule injI) (metis length_replicate)
  then show ?thesis
    by (simp add: store_ok_def fresh_ids_def guard_env_def in_step_def no_files_def lookup_file_def)
qed

lemma sample_part_ids: "part_ids_fresh (sample_ingest_env busy) tick db" if "db_message_parts db = []"
proof -
  have len: "length (takeWhile (\<lambda>c. c = 97) (replicate t (97 :: nat) @ 98 # r)) = t" for t r
    by (simp add: takeWhile_append)
  have "inj (\<lambda>k. replicate t (97 :: nat) @ 98 # replicate k 97)" for t
    by (rule injI) simp
  moreover have "replicate t (97 :: nat) @ 98 # r \<noteq> replicate t' 97 @ 98 # r'" if "t \<noteq> t'" for t t' r r'
    using that len by metis
  ultimately show ?thesis
    using that by (auto simp: part_ids_fresh_def sample_ingest_env_def)
qed

lemma blank_ok: "ingest_ok (sample_ingest_env busy) blank_state"
  using no_rows_wf store_ok_no_files sample_part_ids[of "ig_db blank_state"]
  by (simp add: ingest_ok_def blank_state_def seqs_ok_def no_rows_def wf_conversations_def conversations_exist_def
      stored_identities_def get_messages_def context_refs_def get_context_items_def context_rows_def)

lemma blank_fields [simp]:
  "ig_reconciled blank_state = {}" "ig_cursor blank_state s = None" "transcript blank_state s = []" "ig_tick blank_state = 0"
  by (simp_all add: blank_state_def transcript_def session_conversation_def get_conversation_by_session_id_def
      first_of_def newest_first_def active_first_def)


theorem failed_message_skipped_witness:
  "length (transcript (do_ingest_history_diff (sample_ingest_env (\<lambda>k. k = 0)) (cps ''s'')
       [sample_message ''user'' ''lost'', sample_message ''user'' ''kept'']
       (do_ingest_history_diff (sample_ingest_env (\<lambda>k. k = 0)) (cps ''s'')
         [sample_message ''user'' ''lost'', sample_message ''user'' ''kept'']
         (blank_state\<lparr>ig_reconciled := {cps ''s''}\<rparr>))) (cps ''s'')) = 1"
proof -
  have "caught_up (sample_ingest_env (\<lambda>k. k = 0)) (cps ''s'') [] [] (blank_state\<lparr>ig_reconciled := {cps ''s''}\<rparr>)"
    using blank_ok by (simp add: caught_up_def cursor_of_def)
  from failed_message_skipped[OF _ this, of "sample_message ''user'' ''lost''" "sample_message ''user'' ''kept''" "[]"]
  show ?thesis by (auto simp: Let_def sample_persistable)
qed

lemma first_message_stored:
  assumes att: "attended env s" and free: "\<not> ie_busy env (ig_tick st)" and ok: "ingest_ok env st"
    and new: "s \<notin> ig_reconciled st" "ig_cursor st s = None" "transcript st s = []" and m: "persistable m"
    and goc: "get_or_create_conversation (ie_now env (ig_tick st)) s None None (ig_conversations st) = Inr (r, convs)"
    and g: "protect_message_for_ingest (ie_codec env) (ie_files env) convs (cv_conversation_id r) m (ig_files st) = (files, m')"
  shows "transcript (do_ingest_history_diff env s [m] st) s = [identity_of (ie_codec env) m']"
proof -
  let ?st = "st\<lparr>ig_reconciled := insert s (ig_reconciled st)\<rparr>"
  have ok': "ingest_ok env ?st" using ok by simp
  have "store_ok (ie_files env) (ig_files st)" using ok by (simp add: ingest_ok_def)
  note kept = message_kept[OF this g]
  from persisted[of env ?st "ie_now env (ig_tick st)" s r convs files s m'] ok' goc kept obtain db where
    db: "persist_message env (ig_tick st) (cv_conversation_id r) s m' (ig_db st) = Inr (True, db)"
      "ingests env s [m'] ?st (?st\<lparr>ig_conversations := convs, ig_files := files, ig_tick := ig_tick st + 1, ig_db := db\<rparr>)"
    by auto
  have "ingest_single env s m None ?st
      = (?st\<lparr>ig_conversations := convs, ig_files := files, ig_tick := ig_tick st + 1, ig_db := db\<rparr>, Inr True)"
    using m free goc g db(1) by (simp add: ingest_single_def Let_def)
  moreover have "do_ingest_history_diff env s [m] st = do_ingest_history_diff env s [m] ?st"
    using first_call[OF att new(1), of "[m]"] reconcile_fresh[OF new(3)] by simp
  moreover have "cursor_of ?st s = 0" using new(2) by (simp add: cursor_of_def)
  ultimately show ?thesis
    using att db(2) new(3) by (simp add: do_ingest_history_diff_def attended_def ingests_def)
qed

lemma new_session:
  "\<exists>r convs. get_or_create_conversation now s None None (ig_conversations blank_state) = Inr (r, convs)
    \<and> cv_conversation_id r = 1 \<and> ct_rows convs = [r]"
proof -
  have "get_conversation_by_session_id (ig_conversations blank_state) s = None" by (simp add: by_id_None blank_state_def)
  then show ?thesis
    by (simp add: get_or_create_without_key Let_def conversation_of_input_def) (simp add: blank_state_def)
qed

lemma short_sample: "length t < 256 \<Longrightarrow>
  protect_message_for_ingest cd env convs c (sample_message role t) fs = (fs, sample_message role t)"
  by (rule protect_short_message) (simp_all add: sample_message_def cps_def)


lemma utf8_ascii: "list_all (\<lambda>c. c < 128) s \<Longrightarrow> utf8 s = Some (map of_nat s)"
  by (induction s) (auto simp: utf8_char_def)

lemma match_items_replicate: "P c \<Longrightarrow> match_items P (replicate n c) = (n, [])"
  by (induction n) simp_all

definition data_uri :: utext where
  "data_uri = cps ''data:image/png;base64,'' @ replicate 300 65"

lemma data_uri_matches: "match_data_uri data_uri = Some []"
proof -
  have m: "match_ci (cps ''data:'') data_uri = Some (cps ''image/png;base64,'' @ replicate 300 65)"
    by (simp add: data_uri_def cps_def ci_eq_def)
  have i: "match_items media_char (cps ''image/png;base64,'' @ r) = (9, cps '';base64,'' @ r)" for r
    by (simp add: cps_def media_char_def ci_alnum_def u_alpha_def u_digit_def match_slash_def ci_eq_def)
  have "match_param (cps '';base64,'' @ r) = None" for r
    by (simp add: match_param_def cps_def param_char_def ci_alnum_def u_alpha_def u_digit_def)
  then have p: "match_params (cps '';base64,'' @ r) = cps '';base64,'' @ r" for r
    by (subst match_params.simps) simp
  have "match_ci (cps '';base64,'') (cps '';base64,'' @ r) = Some r" for r
    by (simp add: cps_def ci_eq_def)
  moreover have "match_items payload_char (replicate 300 65) = (300, [])"
    by (rule match_items_replicate) (simp add: payload_char_def ci_alnum_def u_alpha_def)
  ultimately show ?thesis
    unfolding match_data_uri_def m option.case i snd_conv p by (simp add: data_uri_min_payload_chars_def)
qed

lemma runs_keep_head: "\<not> run_char c \<Longrightarrow> \<exists>fs' t'. sub_base64_runs f (c # t) fs = (fs', c # t')"
  by (cases "sub_base64_runs f t fs") simp

lemma reference_head: "\<exists>t. payload_reference role reason r payload = 91 # t"
  by (simp add: payload_reference_def format_raw_payload_reference_def Let_def u_join_def cps_def)

lemma data_uri_moved:
  assumes "list_ex (\<lambda>q. cv_conversation_id q = 1) (ct_rows convs)"
  shows "\<exists>fs t. protect_text guard_env convs 1 role data_uri no_files = (fs, 91 # t)"
proof -
  have ascii: "utf8 data_uri = Some (map of_nat data_uri)"
    by (rule utf8_ascii) (simp add: data_uri_def cps_def list_all_iff)
  have "\<exists>fs r. externalize_block guard_env convs 1 data_uri None (payload_mime_type data_uri) None None no_files = (fs, Inr r)"
    unfolding externalize_block_def ascii Let_def
    using assms by (simp add: end_call_def insert_file_row_def guard_env_def file_env_0_def lookup_file_def no_files_def)
  then obtain fs r where ext: "externalize_block guard_env convs 1 data_uri None (payload_mime_type data_uri) None None no_files = (fs, Inr r)"
    by blast
  obtain t where t: "payload_reference role (cps ''data_uri_base64'') r data_uri = 91 # t" using reference_head by blast
  have ne: "data_uri \<noteq> []" by (simp add: data_uri_def)
  then obtain c cs where du: "data_uri = c # cs" by (cases data_uri) auto
  let ?f = "replaced guard_env convs 1 role (cps ''data_uri_base64'')"
  have "?f data_uri no_files = (fs, 91 # t)"
    using ext t ne by (simp add: replaced_def externalize_payload_def)
  then have "sub_data_uris ?f data_uri no_files = (fs, 91 # t)"
    using data_uri_matches unfolding du by simp
  moreover have "\<not> run_char 91" by (simp add: run_char_def u_alpha_def u_digit_def cps_def)
  from runs_keep_head[OF this] obtain fs' t' where
    "sub_base64_runs (replaced guard_env convs 1 role (cps ''inline_base64_run'')) (91 # t) fs = (fs', 91 # t')" by blast
  ultimately show ?thesis using ne by (simp add: protect_text_def)
qed

definition data_uri_message :: json where
  "data_uri_message = JObj [(''role'', JStr (cps ''user'')), (''content'', JStr data_uri)]"

theorem guarded_message_stored_twice_witness:
  "length (transcript (do_ingest_history_diff (sample_ingest_env (\<lambda>_. False)) (cps ''s'') [data_uri_message]
     (restart (do_ingest_history_diff (sample_ingest_env (\<lambda>_. False)) (cps ''s'') [data_uri_message] blank_state)))
     (cps ''s'')) = 2"
proof -
  let ?env = "sample_ingest_env (\<lambda>_. False)"
  have m: "persistable data_uri_message"
    by (simp add: persistable_def data_uri_message_def has_persistable_role_def persistable_raw_roles_def
        is_failed_empty_assistant_def)
  obtain r convs where goc: "get_or_create_conversation (ie_now ?env (ig_tick blank_state)) (cps ''s'') None None
      (ig_conversations blank_state) = Inr (r, convs)" "cv_conversation_id r = 1" "ct_rows convs = [r]"
    using new_session by blast
  have "list_ex (\<lambda>q. cv_conversation_id q = 1) (ct_rows convs)" using goc by simp
  from data_uri_moved[OF this, of "cps ''user''"] obtain fs t where
    pt: "protect_text guard_env convs 1 (cps ''user'') data_uri no_files = (fs, 91 # t)" by blast
  let ?m' = "JObj [(''role'', JStr (cps ''user'')), (''content'', JStr (91 # t))]"
  have "protect_message_for_ingest (ie_codec ?env) (ie_files ?env) convs (cv_conversation_id r) data_uri_message (ig_files blank_state)
      = (fs, ?m')"
    using pt by (simp add: protect_message_for_ingest_def data_uri_message_def guard_role_def has_key_def protect_key_def
        goc(2) blank_state_def)
  from first_message_stored[OF _ _ blank_ok _ _ _ m goc(1) this]
  have "transcript (do_ingest_history_diff ?env (cps ''s'') [data_uri_message] blank_state) (cps ''s'')
      = [identity_of (ie_codec ?env) ?m']" by simp
  moreover have "identity_of (ie_codec ?env) ?m' \<noteq> identity_of (ie_codec ?env) data_uri_message"
    by (simp add: identity_of_def extract_message_content_def data_uri_message_def data_uri_def cps_def)
  ultimately show ?thesis
    using guarded_message_stored_twice[of ?env "cps ''s''" blank_state data_uri_message] blank_ok m by simp
qed

end
