(* ===== verification/Engine_Assemble.thy ===== *)
theory Engine_Assemble
  imports Assembler Ingest
begin

text \<open>
  The per-turn rewrite of the message list (\<open>engine/assemble.py\<close>) and the reset of the ingest cursor
  that follows it (\<open>engine/compact.py\<close>).

  \<open>preassemble\<close> finds the session of the live messages, takes a token budget, and replaces the list
  by the context that the assembler builds from the database; \<open>safe_fallback\<close> is what it falls back
  to. After a replacement the ingest cursor of the session is the length of the new list, so that
  the next hook stores what was appended to it.

  The engine's fields are in \<open>engine_state\<close>, its settings in \<open>engine_env\<close>. The attribute
  \<open>_last_seen_session_id\<close> that \<open>_infer_session_id\<close> falls back to is read in two places and set
  nowhere in the package, so the model has no field for it. \<open>None\<close> as the result of a fallback is the
  \<open>AttributeError\<close> of \<open>.get\<close> on an element that is not a dict. The per-session lock is taken around
  the whole rewrite and around each ingest, so each is one step here.
\<close>

datatype cache_state = Hot | Cold

record engine_env =
  ee_ingest :: ingest_env
  ee_assembler :: assembler_env
  ee_fresh_tail_count :: int
  ee_fresh_tail_max_tokens :: "int option"
  ee_prompt_aware_eviction :: bool
  ee_max_assembly_token_budget :: "int option"
  ee_always_on_via_compress :: bool
  ee_has_preassemble :: bool
  ee_circuit_breaker_threshold :: int
  ee_circuit_breaker_cooldown_ms :: int

record engine_state =
  es_ingest :: ingest_state
  es_stores_open :: bool
  es_stable_ordinals :: "int \<rightharpoonup> int"
  es_previous_assembled :: "int \<rightharpoonup> json list"
  es_context_length :: int
  es_last_prompt_tokens :: int
  es_threshold_tokens :: int
  es_compression_history :: "(int \<times> int) list"
  es_compression_count :: nat

definition update_ingest :: "(ingest_state \<Rightarrow> ingest_state) \<Rightarrow> engine_state \<Rightarrow> engine_state" where
  "update_ingest f st = st\<lparr>es_ingest := f (es_ingest st)\<rparr>"

definition default_token_budget :: int where "default_token_budget = 128000"

subsection \<open>Which session, which budget, what to fall back to\<close>

definition message_session :: "json \<Rightarrow> utext option" where
  "message_session msg =
     (case nonempty_str (jget ''session_id'' msg) of
        Some s \<Rightarrow> Some s
      | None \<Rightarrow> (case nonempty_str (jget ''_session_id'' msg) of
          Some s \<Rightarrow> Some s
        | None \<Rightarrow> nonempty_str (jget ''sender_id'' msg)))"

definition infer_session_id :: "json list \<Rightarrow> utext" where
  "infer_session_id messages =
     (case List.map_filter message_session (filter is_obj (rev messages)) of [] \<Rightarrow> [] | s # _ \<Rightarrow> s)"

fun drop_assistants :: "json list \<Rightarrow> json list option" where
  "drop_assistants [] = Some []"
| "drop_assistants (m # ms) =
     (if \<not> is_obj m then None
      else if jget ''role'' m = JStr (cps ''assistant'') then drop_assistants ms
      else Some (m # ms))"

definition safe_fallback :: "json list \<Rightarrow> json list option" where
  "safe_fallback messages = map_option rev (drop_assistants (rev messages))"

definition apply_assembly_budget_cap :: "engine_env \<Rightarrow> int \<Rightarrow> int" where
  "apply_assembly_budget_cap env budget =
     (case ee_max_assembly_token_budget env of
        Some cap \<Rightarrow> if 0 < cap then min budget cap else budget
      | None \<Rightarrow> budget)"

definition resolve_cache_aware_state :: "int \<Rightarrow> cache_state" where
  "resolve_cache_aware_state conversation_id = Cold"

definition effective_budget :: "int option \<Rightarrow> engine_state \<Rightarrow> int" where
  "effective_budget budget_tokens st =
     (case budget_tokens of
        Some b \<Rightarrow> if 0 < b then b else if 0 < es_context_length st then es_context_length st else default_token_budget
      | None \<Rightarrow> if 0 < es_context_length st then es_context_length st else default_token_budget)"

subsection \<open>The rewrite\<close>

text \<open>A result is the list to send and whether the assembler made it.\<close>

definition fall_back :: "json list \<Rightarrow> (json list \<times> bool) option" where
  "fall_back messages = map_option (\<lambda>ms. (ms, False)) (safe_fallback messages)"

definition assemble_request :: "engine_env \<Rightarrow> int \<Rightarrow> int \<Rightarrow> utext option \<Rightarrow> int option \<Rightarrow> assemble_input" where
  "assemble_request env conversation_id token_budget prompt pinned =
     \<lparr>ai_conversation_id = conversation_id, ai_token_budget = token_budget,
      ai_fresh_tail_count = ee_fresh_tail_count env, ai_fresh_tail_max_tokens = ee_fresh_tail_max_tokens env,
      ai_prompt = prompt, ai_prompt_aware_eviction = ee_prompt_aware_eviction env,
      ai_orphan_stripping_ordinal = pinned\<rparr>"

definition assemble_locked ::
    "engine_env \<Rightarrow> utext \<Rightarrow> json list \<Rightarrow> int \<Rightarrow> utext option \<Rightarrow> engine_state \<Rightarrow> engine_state \<times> (json list \<times> bool) option" where
  "assemble_locked env session_id messages token_budget prompt st =
     (if \<not> es_stores_open st then (st, fall_back messages)
      else case get_conversation_by_session_id (ig_conversations (es_ingest st)) session_id of
        None \<Rightarrow> (st, fall_back messages)
      | Some conversation \<Rightarrow>
        let c = cv_conversation_id conversation;
            budget = apply_assembly_budget_cap env token_budget;
            cache_state = resolve_cache_aware_state c;
            pinned = (if cache_state = Hot then es_stable_ordinals st c else None);
            st1 = (if cache_state = Hot then st else st\<lparr>es_stable_ordinals := (es_stable_ordinals st)(c := None)\<rparr>);
            context_items = get_context_items (ig_db (es_ingest st)) c in
        if context_items = [] then (st1, fall_back messages)
        else if list_all is_message_item context_items \<and> length context_items < length messages then
          (st1, fall_back messages)
        else
          let assembled = ar_messages (assemble (ee_assembler env) (ig_db (es_ingest st))
                (assemble_request env c budget prompt pinned)) in
          if assembled = [] \<and> messages \<noteq> [] then (st1, fall_back messages)
          else if \<not> list_ex is_user assembled \<and> messages \<noteq> [] then (st1, fall_back messages)
          else
            let st2 = st1\<lparr>es_previous_assembled := (es_previous_assembled st1)(c \<mapsto> assembled)\<rparr>;
                st3 = (if cache_state = Hot \<and> pinned \<noteq> None
                       then st2\<lparr>es_stable_ordinals := (es_stable_ordinals st2)(c := pinned)\<rparr> else st2) in
            (st3, Some (assembled, True)))"

definition assemble_with_signal ::
    "engine_env \<Rightarrow> utext \<Rightarrow> json list \<Rightarrow> int \<Rightarrow> utext option \<Rightarrow> engine_state \<Rightarrow> engine_state \<times> (json list \<times> bool) option" where
  "assemble_with_signal env session_id messages token_budget prompt st =
     (if list_ex (\<lambda>p. p session_id) (ie_ignore_session_patterns (ee_ingest env)) then (st, fall_back messages)
      else assemble_locked env session_id messages token_budget prompt st)"

text \<open>Python's \<open>==\<close> on JSON values: a boolean equals its number and the order of keys does not count.\<close>

fun py_eq :: "json \<Rightarrow> json \<Rightarrow> bool" and py_eq_list :: "json list \<Rightarrow> json list \<Rightarrow> bool"
  and py_eq_entries :: "(string \<times> json) list \<Rightarrow> json \<Rightarrow> bool" where
  "py_eq (JBool a) (JInt n) = (n = of_bool a)"
| "py_eq (JInt n) (JBool a) = (n = of_bool a)"
| "py_eq (JArr xs) (JArr ys) = py_eq_list xs ys"
| "py_eq (JObj kvs) (JObj kvs') = (fst ` set kvs = fst ` set kvs' \<and> py_eq_entries kvs (JObj kvs'))"
| "py_eq v w = (v = w)"
| "py_eq_list [] ys = (ys = [])"
| "py_eq_list (x # xs) ys = (case ys of [] \<Rightarrow> False | y # ys' \<Rightarrow> py_eq x y \<and> py_eq_list xs ys')"
| "py_eq_entries [] w = True"
| "py_eq_entries ((k, v) # kvs) w = (py_eq v (jget k w) \<and> py_eq_entries kvs w)"

definition reset_ingest_cursor_after_compaction ::
    "json list \<Rightarrow> json list \<Rightarrow> utext \<Rightarrow> bool \<Rightarrow> ingest_state \<Rightarrow> ingest_state" where
  "reset_ingest_cursor_after_compaction original result session_id compaction_occurred st =
     (if session_id = [] then st
      else if \<not> compaction_occurred then st
      else if py_eq_list result original then st
      else st\<lparr>ig_cursor := (ig_cursor st)(session_id \<mapsto> length result)\<rparr>)"

text \<open>\<open>preassemble\<close> never raises: whatever goes wrong, the live list goes out as it is.\<close>

definition preassemble :: "engine_env \<Rightarrow> json list \<Rightarrow> int option \<Rightarrow> engine_state \<Rightarrow> engine_state \<times> json list" where
  "preassemble env messages budget_tokens st =
     (let session_id = infer_session_id messages in
      if session_id = [] then (st, messages)
      else case assemble_with_signal env session_id messages (effective_budget budget_tokens st) None st of
        (st1, None) \<Rightarrow> (st1, messages)
      | (st1, Some (substituted, did_substitute)) \<Rightarrow>
          (update_ingest (reset_ingest_cursor_after_compaction messages substituted session_id did_substitute) st1,
           substituted))"

subsection \<open>What leaves the database alone\<close>

lemma drop_assistants_suffix:
  "drop_assistants ms = Some out \<Longrightarrow> \<exists>d. ms = d @ out \<and> list_all (\<lambda>m. jget ''role'' m = JStr (cps ''assistant'')) d"
proof (induction ms)
  case (Cons m ms)
  show ?case
  proof (cases "jget ''role'' m = JStr (cps ''assistant'')")
    case True
    with Cons obtain d where "ms = d @ out" "list_all (\<lambda>m. jget ''role'' m = JStr (cps ''assistant'')) d"
      by (auto split: if_splits)
    with True show ?thesis by (intro exI[of _ "m # d"]) simp
  qed (use Cons.prems in \<open>auto split: if_splits\<close>)
qed simp

definition trimmed :: "json list \<Rightarrow> json list \<Rightarrow> bool" where
  "trimmed messages out \<longleftrightarrow>
     (\<exists>d. messages = out @ d \<and> list_all (\<lambda>m. jget ''role'' m = JStr (cps ''assistant'')) d)"

lemma trimmed_refl [simp]: "trimmed ms ms"
  by (simp add: trimmed_def)

lemma safe_fallback_trims: "safe_fallback messages = Some out \<Longrightarrow> trimmed messages out"
proof -
  assume "safe_fallback messages = Some out"
  then obtain r where r: "drop_assistants (rev messages) = Some r" "out = rev r" by (auto simp: safe_fallback_def)
  from drop_assistants_suffix[OF r(1)] obtain d where
    "rev messages = d @ r" "list_all (\<lambda>m. jget ''role'' m = JStr (cps ''assistant'')) d" by blast
  then have "messages = rev (d @ r)" by (metis rev_rev_ident)
  then show ?thesis
    using r(2) \<open>list_all _ d\<close> by (auto simp: trimmed_def list_all_iff intro!: exI[of _ "rev d"])
qed

text \<open>What the assembler answers for a session, whatever the live messages are.\<close>

definition assembled_for :: "engine_env \<Rightarrow> int \<Rightarrow> int \<Rightarrow> utext option \<Rightarrow> engine_state \<Rightarrow> json list" where
  "assembled_for env c token_budget prompt st =
     ar_messages (assemble (ee_assembler env) (ig_db (es_ingest st))
       (assemble_request env c (apply_assembly_budget_cap env token_budget) prompt None))"

definition substituted_for ::
    "engine_env \<Rightarrow> utext \<Rightarrow> json list \<Rightarrow> int \<Rightarrow> utext option \<Rightarrow> engine_state \<Rightarrow> json list \<Rightarrow> bool" where
  "substituted_for env session_id messages token_budget prompt st out \<longleftrightarrow>
     (\<exists>r. get_conversation_by_session_id (ig_conversations (es_ingest st)) session_id = Some r
        \<and> get_context_items (ig_db (es_ingest st)) (cv_conversation_id r) \<noteq> []
        \<and> out = assembled_for env (cv_conversation_id r) token_budget prompt st
        \<and> (messages \<noteq> [] \<longrightarrow> list_ex is_user out))"

lemma assemble_with_signal_cases:
  assumes "assemble_with_signal env session_id messages token_budget prompt st = (st', r)"
  shows "es_ingest st' = es_ingest st
    \<and> (r = fall_back messages \<or> (\<exists>out. r = Some (out, True) \<and> substituted_for env session_id messages token_budget prompt st out))"
  using assms
  by (auto simp: assemble_with_signal_def assemble_locked_def resolve_cache_aware_state_def Let_def
      substituted_for_def assembled_for_def split: if_splits option.splits)

lemma preassemble_cases:
  assumes "preassemble env messages budget st = (st', out)" "infer_session_id messages = s"
  shows "(es_ingest st' = es_ingest st \<and> trimmed messages out)
    \<or> (s \<noteq> [] \<and> substituted_for env s messages (effective_budget budget st) None st out
       \<and> es_ingest st' = reset_ingest_cursor_after_compaction messages out s True (es_ingest st))"
proof (cases "s = []")
  case True
  then show ?thesis using assms by (simp add: preassemble_def)
next
  case False
  obtain st1 r where run: "assemble_with_signal env s messages (effective_budget budget st) None st = (st1, r)"
    by fastforce
  note facts = assemble_with_signal_cases[OF run]
  show ?thesis
  proof (cases r)
    case None
    then show ?thesis using assms False run facts by (simp add: preassemble_def)
  next
    case (Some p)
    obtain ms b where p: "p = (ms, b)" by fastforce
    have st': "es_ingest st' = reset_ingest_cursor_after_compaction messages ms s b (es_ingest st)" "out = ms"
      using assms False run facts Some p by (auto simp: preassemble_def update_ingest_def)
    from facts Some p consider "safe_fallback messages = Some ms" "\<not> b"
      | "b" "substituted_for env s messages (effective_budget budget st) None st ms"
      by (cases "safe_fallback messages") (auto simp: fall_back_def)
    then show ?thesis
    proof cases
      case 1
      then show ?thesis using st' safe_fallback_trims
        by (simp add: reset_ingest_cursor_after_compaction_def)
    qed (use st' False in simp)
  qed
qed

subsection \<open>The cursor and the list\<close>

lemma reset_keeps [simp]:
  "ig_db (reset_ingest_cursor_after_compaction ms out s b st) = ig_db st"
  "ig_files (reset_ingest_cursor_after_compaction ms out s b st) = ig_files st"
  "ig_conversations (reset_ingest_cursor_after_compaction ms out s b st) = ig_conversations st"
  "ig_reconciled (reset_ingest_cursor_after_compaction ms out s b st) = ig_reconciled st"
  "ig_tick (reset_ingest_cursor_after_compaction ms out s b st) = ig_tick st"
  "transcript (reset_ingest_cursor_after_compaction ms out s b st) = transcript st"
  "ingest_ok ienv (reset_ingest_cursor_after_compaction ms out s b st) = ingest_ok ienv st"
  by (simp_all add: reset_ingest_cursor_after_compaction_def fun_eq_iff)

lemma reset_cursor:
  "s \<noteq> [] \<Longrightarrow> \<not> py_eq_list out messages \<Longrightarrow>
    cursor_of (reset_ingest_cursor_after_compaction messages out s True st) s = length out"
  by (simp add: reset_ingest_cursor_after_compaction_def cursor_of_def)

text \<open>What one hook call adds to the transcript of a session.\<close>

definition hook_stores :: "ingest_env \<Rightarrow> utext \<Rightarrow> json list \<Rightarrow> json list \<Rightarrow> ingest_state \<Rightarrow> bool" where
  "hook_stores env s history new st \<longleftrightarrow>
     (let st' = do_ingest_history_diff env s history st in ingest_ok env st'
      \<and> (\<exists>added. list_all2 (gives_back (ig_files st')) added (filter persistable new)
           \<and> transcript st' s = transcript st s @ map (identity_of (ie_codec env)) added))"

lemma hook_from_cursor:
  assumes "attended env s" "\<And>t. ig_tick st \<le> t \<Longrightarrow> \<not> ie_busy env t" "ingest_ok env st" "s \<in> ig_reconciled st"
    and "cursor_of st s \<le> length h"
  shows "hook_stores env s h (drop (cursor_of st s) h) st"
  using diff_new[OF assms(1-5) refl] by (auto simp: hook_stores_def Let_def)

lemma rewritten_then_stored:
  assumes "attended (ee_ingest env) s" "\<And>t. ig_tick (es_ingest st) \<le> t \<Longrightarrow> \<not> ie_busy (ee_ingest env) t"
    and "ingest_ok (ee_ingest env) (es_ingest st)" "s \<in> ig_reconciled (es_ingest st)" "infer_session_id messages = s"
    and run: "preassemble env messages budget st = (st', out)"
  shows "trimmed messages out \<and> es_ingest st' = es_ingest st
    \<or> py_eq_list out messages \<and> es_ingest st' = es_ingest st
    \<or> cursor_of (es_ingest st') s = length out \<and> hook_stores (ee_ingest env) s (out @ new) new (es_ingest st')"
  using preassemble_cases[OF run assms(5)]
proof (elim disjE conjE)
  assume sub: "s \<noteq> []" "es_ingest st' = reset_ingest_cursor_after_compaction messages out s True (es_ingest st)"
  show ?thesis
  proof (cases "py_eq_list out messages")
    case True
    then show ?thesis using sub by (simp add: reset_ingest_cursor_after_compaction_def)
  next
    case False
    then have "cursor_of (es_ingest st') s = length out" using reset_cursor sub by simp
    with hook_from_cursor[of "ee_ingest env" s "es_ingest st'" "out @ new"] assms(1-4) sub(2) show ?thesis by simp
  qed
qed simp

text \<open>The rewrite of the live list and the hook after it fit together. \<open>preassemble\<close> either trims
  assistant turns off the end and changes nothing, or gives the list back unchanged, or sends the
  assembled context and leaves the ingest cursor at its length; in the last case a hook with that list
  and new turns after it stores the persistable new turns, each once and in order.\<close>

theorem rewrite_then_ingest:
  assumes "attended (ee_ingest env) s" "\<And>t. ig_tick (es_ingest st) \<le> t \<Longrightarrow> \<not> ie_busy (ee_ingest env) t"
    and "ingest_ok (ee_ingest env) (es_ingest st)" "s \<in> ig_reconciled (es_ingest st)" "infer_session_id messages = s"
    and "preassemble env messages budget st = (st', out)"
  shows "trimmed messages out \<and> es_ingest st' = es_ingest st
    \<or> py_eq_list out messages \<and> es_ingest st' = es_ingest st
    \<or> cursor_of (es_ingest st') s = length out \<and> hook_stores (ee_ingest env) s (out @ new) new (es_ingest st')"
  by (rule rewritten_then_stored[OF assms])

lemma preassemble_with_summary:
  assumes "es_stores_open st" "s \<noteq> []" "infer_session_id messages = s"
    and "\<not> list_ex (\<lambda>p. p s) (ie_ignore_session_patterns (ee_ingest env))"
    and "get_conversation_by_session_id (ig_conversations (es_ingest st)) s = Some r"
    and "\<not> list_all is_message_item (get_context_items (ig_db (es_ingest st)) (cv_conversation_id r))"
    and out: "out = assembled_for env (cv_conversation_id r) (effective_budget budget st) None st" "list_ex is_user out"
  shows "\<exists>st'. preassemble env messages budget st = (st', out)
    \<and> es_ingest st' = reset_ingest_cursor_after_compaction messages out s True (es_ingest st)"
proof -
  have "out \<noteq> []" using out(2) by auto
  moreover have "get_context_items (ig_db (es_ingest st)) (cv_conversation_id r) \<noteq> []" using assms(6) by auto
  moreover have "ar_messages (assemble (ee_assembler env) (ig_db (es_ingest st)) (assemble_request env (cv_conversation_id r)
      (apply_assembly_budget_cap env (effective_budget budget st)) None None)) = out"
    using out(1) by (simp add: assembled_for_def)
  ultimately have "\<exists>st1. assemble_with_signal env s messages (effective_budget budget st) None st = (st1, Some (out, True))
      \<and> es_ingest st1 = es_ingest st"
    using assms(1,4-6) out(2)
    by (simp add: assemble_with_signal_def assemble_locked_def resolve_cache_aware_state_def Let_def)
  then show ?thesis using assms(2,3) by (auto simp: preassemble_def update_ingest_def)
qed

text \<open>C19. A live list with turns that are not stored yet, in a session whose context has a summary: the
  list that is sent depends on the database alone, so it is the same for every live list of the
  session, and as the cursor is then its length, the hook that follows stores what comes after it and
  never the turns that were only in the live list.\<close>

theorem live_turns_dropped:
  assumes "es_stores_open st" "attended (ee_ingest env) s" "s \<in> ig_reconciled (es_ingest st)"
    and "\<And>t. ig_tick (es_ingest st) \<le> t \<Longrightarrow> \<not> ie_busy (ee_ingest env) t" "ingest_ok (ee_ingest env) (es_ingest st)"
    and "\<not> list_ex (\<lambda>p. p s) (ie_ignore_session_patterns (ee_ingest env))"
    and "get_conversation_by_session_id (ig_conversations (es_ingest st)) s = Some r"
    and "\<not> list_all is_message_item (get_context_items (ig_db (es_ingest st)) (cv_conversation_id r))"
    and "out = assembled_for env (cv_conversation_id r) (effective_budget budget st) None st" "list_ex is_user out"
    and "infer_session_id messages = s" "\<not> py_eq_list out messages"
  shows "snd (preassemble env messages budget st) = out
    \<and> hook_stores (ee_ingest env) s (out @ reply) reply (es_ingest (fst (preassemble env messages budget st)))"
proof -
  have "s \<noteq> []" using assms(2) by (simp add: attended_def)
  from preassemble_with_summary[OF assms(1) this assms(11,6,7,8,9,10)] obtain st' where
    st': "preassemble env messages budget st = (st', out)"
    "es_ingest st' = reset_ingest_cursor_after_compaction messages out s True (es_ingest st)" by blast
  then have "cursor_of (es_ingest st') s = length out" using reset_cursor \<open>s \<noteq> []\<close> assms(12) by simp
  with hook_from_cursor[of "ee_ingest env" s "es_ingest st'" "out @ reply"] assms(2-5) st' show ?thesis by simp
qed

text \<open>The same happens without a summary when the fallback trims: the cursor stays behind the list.\<close>

lemma trimmed_turns_skip_new:
  assumes "attended env s" "\<And>t. ig_tick st \<le> t \<Longrightarrow> \<not> ie_busy env t" "ingest_ok env st" "s \<in> ig_reconciled st"
    and "cursor_of st s = length (out @ d)" "length d \<le> length new"
  shows "hook_stores env s (out @ new) (drop (length d) new) st"
  using hook_from_cursor[OF assms(1-4), of "out @ new"] assms(5,6) by simp

subsection \<open>A session with a summary\<close>

lemma py_eq_list_length: "py_eq_list xs ys \<Longrightarrow> length xs = length ys"
  by (induction xs arbitrary: ys) (auto split: list.splits)

definition summarized_state :: engine_state where
  "summarized_state = \<lparr>es_ingest = blank_state\<lparr>
      ig_conversations := \<lparr>ct_rows = [\<lparr>cv_conversation_id = 1, cv_session_id = cps ''s'', cv_session_key = None,
         cv_active = True, cv_archived_at = None, cv_title = None, cv_bootstrapped_at = None, cv_created_at = 0,
         cv_updated_at = 0\<rparr>], ct_next_id = 2\<rparr>,
      ig_db := sample_db\<lparr>db_context_items := map (\<lambda>(n, r). \<lparr>ci_conversation_id = 1, ci_ordinal = n, ci_ref = r\<rparr>)
         [(0, Sum ''s''), (1, Msg 3), (2, Msg 4)]\<rparr>, ig_reconciled := {cps ''s''}\<rparr>,
    es_stores_open = True, es_stable_ordinals = (\<lambda>_. None), es_previous_assembled = (\<lambda>_. None),
    es_context_length = 0, es_last_prompt_tokens = 0, es_threshold_tokens = 0, es_compression_history = [],
    es_compression_count = 0\<rparr>"

definition sample_engine_env :: engine_env where
  "sample_engine_env = \<lparr>ee_ingest = sample_ingest_env (\<lambda>_. False), ee_assembler = sample_env, ee_fresh_tail_count = 2,
     ee_fresh_tail_max_tokens = None, ee_prompt_aware_eviction = True, ee_max_assembly_token_budget = None,
     ee_always_on_via_compress = False, ee_has_preassemble = True, ee_circuit_breaker_threshold = 2,
     ee_circuit_breaker_cooldown_ms = 60000\<rparr>"

abbreviation "summarized_db \<equiv> ig_db (es_ingest summarized_state)"

lemma summarized_items: "get_context_items summarized_db 1 =
  map (\<lambda>(n, r). \<lparr>ci_conversation_id = 1, ci_ordinal = n, ci_ref = r\<rparr>) [(0, Sum ''s''), (1, Msg 3), (2, Msg 4)]"
  by (simp add: get_context_items_def context_rows_def summarized_state_def)

lemma summarized_wf: "wf_db summarized_db"
  by (simp add: wf_db_def summarized_state_def sample_db_def empty_db_def Context_Store.sample_message_def context_key_def
      summary_of_input_def sample_input_def)

lemma summarized_ok: "ingest_ok (ee_ingest sample_engine_env) (es_ingest summarized_state)"
proof -
  have "conversations_exist (es_ingest summarized_state)"
    by (simp add: conversations_exist_def summarized_state_def stored_identities_def get_messages_def
        context_refs_def get_context_items_def context_rows_def sample_db_def empty_db_def Context_Store.sample_message_def)
  moreover have "seqs_ok summarized_db"
    by (simp add: seqs_ok_def summarized_state_def sample_db_def empty_db_def Context_Store.sample_message_def)
  moreover have "part_ids_fresh (sample_ingest_env (\<lambda>_. False)) 0 summarized_db"
    by (rule sample_part_ids) (simp add: summarized_state_def sample_db_def empty_db_def)
  ultimately show ?thesis
    using summarized_wf store_ok_no_files
    by (simp add: ingest_ok_def sample_engine_env_def summarized_state_def blank_state_def wf_conversations_def)
qed

definition sample_user :: "nat list \<Rightarrow> json" where
  "sample_user t = JObj [(''role'', JStr (cps ''user'')), (''content'', JStr t)]"

lemma summarized_resolve:
  "\<exists>r. resolve_items sample_env summarized_db (get_context_items summarized_db 1) =
     r # map (\<lambda>(n, m). \<lparr>ri_ordinal = n, ri_message = sample_user [97, 98],
       ri_tokens = 1, ri_is_message = True, ri_text = [97, 98], ri_message_id = Some m, ri_seq = Some m,
       ri_source_role = Some Role_User, ri_summary = None\<rparr>) [(1, 3), (2, 4)]
     \<and> ri_ordinal r = 0 \<and> \<not> ri_is_message r"
proof -
  have est: "estimate_tokens [97, 98] = 1"
    by (simp add: estimate_weight estimate_code_point_tokens_def is_cjk_code_point_def) linarith
  show ?thesis
    unfolding summarized_items resolve_items_def
    by (simp add: resolve_item_def resolve_message_item_def get_message_by_id_def summarized_state_def sample_db_def empty_db_def
        Context_Store.sample_message_def get_message_parts_def resolve_message_row_def to_runtime_role_def get_original_role_def
        content_from_parts_def runtime_message_def entry_if_def nonempty_def est Let_def sample_user_def
        resolve_summary_item_def get_summary_def summary_of_input_def sample_input_def)
qed

lemma summarized_tail:
  "filter is_user (assembled_for sample_engine_env 1 b None summarized_state) \<noteq> []
   \<and> 2 \<le> length (assembled_for sample_engine_env 1 b None summarized_state)"
proof -
  let ?inp = "assemble_request sample_engine_env 1 b None None"
  let ?out = "assembled_for sample_engine_env 1 b None summarized_state"
  have inp: "ai_conversation_id ?inp = 1" "ai_fresh_tail_count ?inp = 2" "ai_fresh_tail_max_tokens ?inp = None"
    by (simp_all add: assemble_request_def sample_engine_env_def)
  obtain r where r: "resolve_items sample_env summarized_db (get_context_items summarized_db 1) =
     r # map (\<lambda>(n, m). \<lparr>ri_ordinal = n, ri_message = sample_user [97, 98],
       ri_tokens = 1, ri_is_message = True, ri_text = [97, 98], ri_message_id = Some m, ri_seq = Some m,
       ri_source_role = Some Role_User, ri_summary = None\<rparr>) [(1, 3), (2, 4)]" "ri_ordinal r = 0" "\<not> ri_is_message r"
    using summarized_resolve by blast
  have "boundary_of ?inp (resolve_items sample_env summarized_db (get_context_items summarized_db 1)) = 1"
    unfolding r(1) using r(2,3) by (simp add: boundary_of_def resolve_fresh_tail_boundary_def inp Let_def)
  then have tail: "map ri_message (fresh_tail_of ?inp (resolve_items sample_env summarized_db (get_context_items summarized_db 1)))
      = [sample_user [97, 98], sample_user [97, 98]]"
    unfolding fresh_tail_of_def using r(2) by (simp only: r(1)) simp
  have "?out = ar_messages (assemble sample_env summarized_db ?inp)"
    by (simp add: assembled_for_def sample_engine_env_def apply_assembly_budget_cap_def)
  moreover have "get_context_items summarized_db (ai_conversation_id ?inp) \<noteq> []" by (simp add: summarized_items inp)
  ultimately obtain kept where "filter is_user ?out = filter is_user (kept @ [sample_user [97, 98], sample_user [97, 98]])"
    using assembly_selects[OF summarized_wf, of ?inp sample_env] by (auto simp: inp tail)
  then have "2 \<le> length (filter is_user ?out)" by (simp add: sample_user_def is_user_def)
  then show ?thesis using length_filter_le[of is_user ?out] by (cases "filter is_user ?out") auto
qed

definition live_turn :: json where
  "live_turn = JObj [(''role'', JStr (cps ''user'')), (''content'', JStr (cps ''now'')), (''session_id'', JStr (cps ''s''))]"

lemma live_session: "infer_session_id [live_turn] = cps ''s''"
  by (simp add: infer_session_id_def live_turn_def message_session_def List.map_filter_def)

lemma summarized_sessions: "get_conversation_by_session_id (ig_conversations (es_ingest summarized_state)) (cps ''s'') =
   Some (hd (ct_rows (ig_conversations (es_ingest summarized_state))))"
  by (simp add: summarized_state_def get_conversation_by_session_id_def newest_first_def active_first_def first_of_def)

theorem live_turns_dropped_witness:
  "\<exists>out. snd (preassemble sample_engine_env [live_turn] None summarized_state) = out
    \<and> hook_stores (ee_ingest sample_engine_env) (cps ''s'') (out @ [sample_user [99]]) [sample_user [99]]
        (es_ingest (fst (preassemble sample_engine_env [live_turn] None summarized_state)))"
proof -
  let ?st = summarized_state
  let ?r = "hd (ct_rows (ig_conversations (es_ingest ?st)))"
  let ?out = "assembled_for sample_engine_env (cv_conversation_id ?r) (effective_budget None ?st) None ?st"
  have id: "cv_conversation_id ?r = 1" by (simp add: summarized_state_def)
  have "list_ex is_user ?out" "\<not> py_eq_list ?out [live_turn]"
    using summarized_tail[of "effective_budget None ?st"] py_eq_list_length[of ?out "[live_turn]"] unfolding id
    by (auto simp: filter_empty_conv list_ex_iff)
  from live_turns_dropped[where reply = "[sample_user [99]]", OF _ _ _ _ summarized_ok _ summarized_sessions _ refl this(1) live_session this(2)]
  show ?thesis
    by (simp add: id summarized_items is_message_item_def)
      (simp add: summarized_state_def sample_engine_env_def sample_ingest_env_def attended_def should_ignore_session_def)
qed

theorem rewrite_then_ingest_witness:
  "\<exists>st' out. preassemble sample_engine_env [live_turn] None summarized_state = (st', out)
    \<and> cursor_of (es_ingest st') (cps ''s'') = length out
    \<and> hook_stores (ee_ingest sample_engine_env) (cps ''s'') (out @ [sample_user [99]]) [sample_user [99]] (es_ingest st')"
proof -
  let ?st = summarized_state
  let ?r = "hd (ct_rows (ig_conversations (es_ingest ?st)))"
  let ?out = "assembled_for sample_engine_env (cv_conversation_id ?r) (effective_budget None ?st) None ?st"
  have id: "cv_conversation_id ?r = 1" by (simp add: summarized_state_def)
  have long: "list_ex is_user ?out" "2 \<le> length ?out"
    using summarized_tail[of "effective_budget None ?st"] unfolding id by (auto simp: filter_empty_conv list_ex_iff)
  have env: "attended (ee_ingest sample_engine_env) (cps ''s'')" "\<not> ie_busy (ee_ingest sample_engine_env) t"
    "ie_ignore_session_patterns (ee_ingest sample_engine_env) = []" for t
    by (simp_all add: sample_engine_env_def sample_ingest_env_def attended_def should_ignore_session_def)
  have st: "es_stores_open ?st" "cps ''s'' \<in> ig_reconciled (es_ingest ?st)" by (simp_all add: summarized_state_def)
  have "\<not> list_all is_message_item (get_context_items summarized_db (cv_conversation_id ?r))"
    by (simp add: id summarized_items is_message_item_def)
  from preassemble_with_summary[OF st(1) _ live_session _ summarized_sessions this refl long(1)] env(3)
  obtain st' where st': "preassemble sample_engine_env [live_turn] None ?st = (st', ?out)" by auto
  have "\<not> trimmed [live_turn] ?out" "\<not> py_eq_list ?out [live_turn]"
    using long(2) py_eq_list_length[of ?out "[live_turn]"] by (auto simp: trimmed_def dest!: arg_cong[of _ _ length])
  with rewrite_then_ingest[OF env(1,2) summarized_ok st(2) live_session st', of "[sample_user [99]]"] st'
  show ?thesis by auto
qed

end
