(* ===== verification/Circuit_Breaker.thy ===== *)
theory Circuit_Breaker
  imports Lcm_Prelude
begin

text \<open>
  The breaker state machine of \<open>src/lossless_hermes/engine/circuit_breaker.py\<close>.

  The record \<open>circuit_breaker\<close> has the fields of the dataclass of that name; the operations
  \<open>record_failure\<close>, \<open>record_success\<close>, \<open>is_open\<close>, \<open>transition_to\<close> and
  \<open>cooldown_remaining_s\<close> are its methods. Each method holds the breaker's lock from its first
  read to its last write, so a method is one atomic step. \<open>time.monotonic()\<close> is an argument
  \<open>now\<close> of type \<open>real\<close> (exact arithmetic instead of floating point).

  \<open>breaker_view\<close> is the abstract machine a caller reasons with, and the locale
  \<open>breaker_protocol\<close> is the contract a client of a breaker relies on: each operation
  simulates its step of the abstract machine. What clients need (the rejection window, the
  opening after a run of failures) is proved once in the locale and then holds of the
  dataclass by interpretation.
\<close>

subsection \<open>The dataclass and its methods\<close>

datatype cb_state = Closed | Open | HalfOpen

record circuit_breaker =
  cb_state :: cb_state
  failures :: int
  open_since :: "real option"
  threshold :: int
  cooldown_s :: real

definition new_breaker :: "int \<Rightarrow> real \<Rightarrow> circuit_breaker" where
  "new_breaker thr cool =
     \<lparr>cb_state = Closed, failures = 0, open_since = None, threshold = thr, cooldown_s = cool\<rparr>"

definition record_failure :: "real \<Rightarrow> circuit_breaker \<Rightarrow> circuit_breaker" where
  "record_failure now cb =
     (let cb1 = cb\<lparr>failures := failures cb + 1\<rparr> in
      if cb_state cb1 = HalfOpen then cb1\<lparr>cb_state := Open, open_since := Some now\<rparr>
      else if cb_state cb1 = Closed \<and> threshold cb1 \<le> failures cb1 then
        cb1\<lparr>cb_state := Open, open_since := Some now\<rparr>
      else cb1)"

definition record_success :: "circuit_breaker \<Rightarrow> circuit_breaker" where
  "record_success cb = cb\<lparr>cb_state := Closed, failures := 0, open_since := None\<rparr>"

definition is_open :: "real \<Rightarrow> circuit_breaker \<Rightarrow> bool \<times> circuit_breaker" where
  "is_open now cb =
     (case open_since cb of
        None \<Rightarrow> (False, cb)
      | Some t0 \<Rightarrow>
          if cb_state cb \<noteq> Open then (False, cb)
          else if cooldown_s cb \<le> now - t0 then (False, cb\<lparr>cb_state := HalfOpen\<rparr>)
          else (True, cb))"

definition state_of_name :: "string \<Rightarrow> cb_state option" where
  "state_of_name s =
     (if s = ''closed'' then Some Closed
      else if s = ''open'' then Some Open
      else if s = ''half_open'' then Some HalfOpen
      else None)"

text \<open>\<open>None\<close> is the \<open>ValueError\<close> for a name that is not a state.\<close>

definition transition_to :: "real \<Rightarrow> string \<Rightarrow> circuit_breaker \<Rightarrow> circuit_breaker option" where
  "transition_to now name cb =
     map_option (\<lambda>s.
       case s of
         Closed \<Rightarrow> cb\<lparr>cb_state := Closed, failures := 0, open_since := None\<rparr>
       | Open \<Rightarrow>
           (if open_since cb = None then cb\<lparr>cb_state := Open, open_since := Some now\<rparr>
            else cb\<lparr>cb_state := Open\<rparr>)
       | HalfOpen \<Rightarrow> cb\<lparr>cb_state := HalfOpen\<rparr>) (state_of_name name)"

definition cooldown_remaining_s :: "real \<Rightarrow> circuit_breaker \<Rightarrow> real" where
  "cooldown_remaining_s now cb =
     (case open_since cb of
        None \<Rightarrow> 0
      | Some t0 \<Rightarrow> if cb_state cb \<noteq> Open then 0 else max 0 (cooldown_s cb - (now - t0)))"

subsection \<open>The abstract breaker\<close>

text \<open>
  A breaker counts failures, or rejects calls until a deadline, or lets calls probe.
\<close>

datatype breaker_view = Counting int | Cooling real | Probing

datatype breaker_call = Fail real | Succeed | Ask real

fun spec_step :: "int \<Rightarrow> real \<Rightarrow> breaker_call \<Rightarrow> breaker_view \<Rightarrow> breaker_view" where
  "spec_step thr cool (Fail t) (Counting n) =
     (if thr \<le> n + 1 then Cooling (t + cool) else Counting (n + 1))"
| "spec_step thr cool (Fail t) Probing = Cooling (t + cool)"
| "spec_step thr cool (Fail t) (Cooling d) = Cooling d"
| "spec_step thr cool Succeed v = Counting 0"
| "spec_step thr cool (Ask t) (Cooling d) = (if d \<le> t then Probing else Cooling d)"
| "spec_step thr cool (Ask t) v = v"

fun spec_rejects :: "real \<Rightarrow> breaker_view \<Rightarrow> bool" where
  "spec_rejects t (Cooling d) = (t < d)"
| "spec_rejects t v = False"

fun breaker_apply ::
  "(real \<Rightarrow> 'b \<Rightarrow> 'b) \<Rightarrow> ('b \<Rightarrow> 'b) \<Rightarrow> (real \<Rightarrow> 'b \<Rightarrow> bool \<times> 'b) \<Rightarrow> breaker_call \<Rightarrow> 'b \<Rightarrow> 'b" where
  "breaker_apply fail succeed ask (Fail t) b = fail t b"
| "breaker_apply fail succeed ask Succeed b = succeed b"
| "breaker_apply fail succeed ask (Ask t) b = snd (ask t b)"

lemma spec_fail_cooling: "fold (spec_step thr cool) (map Fail ts) (Cooling d) = Cooling d"
  by (induction ts) auto

lemma spec_fail_run:
  assumes "0 \<le> n" and "n < max 1 thr"
  shows "fold (spec_step thr cool) (map Fail ts) (Counting n) =
    (if n + int (length ts) < max 1 thr then Counting (n + int (length ts))
     else Cooling (ts ! nat (max 1 thr - n - 1) + cool))"
  using assms
proof (induction ts arbitrary: n)
  case (Cons t ts)
  show ?case
  proof (cases "thr \<le> n + 1")
    case True
    then have "max 1 thr = n + 1" using Cons.prems by auto
    with True show ?thesis by (simp add: spec_fail_cooling)
  next
    case False
    then have "nat (max 1 thr - n - 1) = Suc (nat (max 1 thr - (n + 1) - 1))" using Cons.prems by auto
    with False Cons show ?thesis by (auto simp: add.assoc)
  qed
qed simp

subsection \<open>What a client of a breaker relies on\<close>

locale breaker_protocol =
  fixes inv :: "'b \<Rightarrow> bool"
    and view :: "'b \<Rightarrow> breaker_view"
    and thr :: "'b \<Rightarrow> int"
    and cool :: "'b \<Rightarrow> real"
    and fail :: "real \<Rightarrow> 'b \<Rightarrow> 'b"
    and succeed :: "'b \<Rightarrow> 'b"
    and ask :: "real \<Rightarrow> 'b \<Rightarrow> bool \<times> 'b"
  assumes inv_apply: "inv b \<Longrightarrow> inv (breaker_apply fail succeed ask c b)"
    and view_apply: "inv b \<Longrightarrow>
          view (breaker_apply fail succeed ask c b) = spec_step (thr b) (cool b) c (view b)"
    and thr_apply: "thr (breaker_apply fail succeed ask c b) = thr b"
    and cool_apply: "cool (breaker_apply fail succeed ask c b) = cool b"
    and ask_answer: "inv b \<Longrightarrow> fst (ask t b) = spec_rejects t (view b)"
begin

definition run :: "breaker_call list \<Rightarrow> 'b \<Rightarrow> 'b" where
  "run = fold (breaker_apply fail succeed ask)"

lemma run_simps [simp]:
  "run [] b = b" "run (c # cs) b = run cs (breaker_apply fail succeed ask c b)"
  by (simp_all add: run_def)

lemma run_params [simp]: "thr (run cs b) = thr b" "cool (run cs b) = cool b"
  by (induction cs arbitrary: b) (simp_all add: thr_apply cool_apply)

lemma run_inv: "inv b \<Longrightarrow> inv (run cs b)"
  by (induction cs arbitrary: b) (simp_all add: inv_apply)

lemma run_view: "inv b \<Longrightarrow> view (run cs b) = fold (spec_step (thr b) (cool b)) cs (view b)"
  by (induction cs arbitrary: b) (simp_all add: inv_apply view_apply thr_apply cool_apply)

text \<open>While the breaker is cooling, failures and early questions change nothing.\<close>

lemma stays_cooling:
  assumes "inv b" and "view b = Cooling d"
    and "\<And>c. c \<in> set cs \<Longrightarrow> (\<exists>t. c = Fail t) \<or> (\<exists>t < d. c = Ask t)"
  shows "view (run cs b) = Cooling d"
  using assms(3) unfolding run_view [OF assms(1)] assms(2)
  by (induction cs) force+

lemma rejects_while_cooling:
  assumes "inv b" and "view b = Cooling d"
    and "\<And>c. c \<in> set cs \<Longrightarrow> (\<exists>t. c = Fail t) \<or> (\<exists>t < d. c = Ask t)"
  shows "fst (ask t (run cs b)) \<longleftrightarrow> t < d"
  using stays_cooling [OF assms] ask_answer [OF run_inv [OF assms(1)]] by simp

lemma opens_after_failures:
  assumes "inv b" and "view b = Counting 0"
  shows "view (run (map Fail ts) b) =
    (if int (length ts) < max 1 (thr b) then Counting (int (length ts))
     else Cooling (ts ! nat (max 1 (thr b) - 1) + cool b))"
  using spec_fail_run [of 0 "thr b" "cool b" ts] by (simp add: run_view [OF assms(1)] assms(2))

end

subsection \<open>The dataclass keeps the contract\<close>

definition cb_view :: "circuit_breaker \<Rightarrow> breaker_view" where
  "cb_view cb =
     (case cb_state cb of
        Closed \<Rightarrow> Counting (failures cb)
      | HalfOpen \<Rightarrow> Probing
      | Open \<Rightarrow> Cooling ((case open_since cb of None \<Rightarrow> 0 | Some t0 \<Rightarrow> t0) + cooldown_s cb))"

definition cb_inv :: "circuit_breaker \<Rightarrow> bool" where
  "cb_inv cb \<longleftrightarrow>
     (cb_state cb = Closed \<longrightarrow> open_since cb = None \<and> 0 \<le> failures cb \<and> failures cb < max 1 (threshold cb)) \<and>
     (cb_state cb \<noteq> Closed \<longrightarrow> open_since cb \<noteq> None \<and> max 1 (threshold cb) \<le> failures cb)"

named_theorems cb_defs
lemmas [cb_defs] = record_failure_def record_success_def is_open_def cb_view_def cb_inv_def
  new_breaker_def Let_def

lemma cb_inv_new [simp]: "cb_inv (new_breaker thr cool)"
  by (auto simp: cb_defs)

lemma new_breaker_params [simp]:
  "threshold (new_breaker thr cool) = thr" "cooldown_s (new_breaker thr cool) = cool"
  by (simp_all add: new_breaker_def)

lemma cb_view_new [simp]: "cb_view (new_breaker thr cool) = Counting 0"
  by (simp add: cb_defs)

interpretation cb: breaker_protocol cb_inv cb_view threshold cooldown_s
    record_failure record_success is_open
proof
  fix b c assume inv: "cb_inv b"
  show "cb_inv (breaker_apply record_failure record_success is_open c b)"
    using inv by (cases c; cases "cb_state b") (auto simp: cb_defs split: option.splits)
  show "cb_view (breaker_apply record_failure record_success is_open c b) =
      spec_step (threshold b) (cooldown_s b) c (cb_view b)"
    using inv by (cases c; cases "cb_state b") (auto simp: cb_defs split: option.splits)
next
  fix b t assume "cb_inv b"
  then show "fst (is_open t b) = spec_rejects t (cb_view b)"
    by (cases "cb_state b") (auto simp: cb_defs split: option.splits)
next
  fix c b
  show "threshold (breaker_apply record_failure record_success is_open c b) = threshold b"
    by (cases c) (auto simp: cb_defs split: option.splits)
  show "cooldown_s (breaker_apply record_failure record_success is_open c b) = cooldown_s b"
    by (cases c) (auto simp: cb_defs split: option.splits)
qed


subsection \<open>Properties\<close>

definition run_breaker :: "breaker_call list \<Rightarrow> circuit_breaker \<Rightarrow> circuit_breaker" where
  "run_breaker = fold (breaker_apply record_failure record_success is_open)"

lemma run_breaker_run: "run_breaker = cb.run"
  by (simp add: run_breaker_def cb.run_def)

text \<open>C11. Refinement. A breaker created with any threshold and cooldown and driven by any
  sequence of failures, successes and \<open>is_open\<close> questions is at every point in the state the
  abstract breaker computes, keeps its invariant, and answers every question as it does.\<close>

theorem breaker_refines_spec:
  "cb_view (run_breaker cs (new_breaker thr cool)) = fold (spec_step thr cool) cs (Counting 0) \<and>
   cb_inv (run_breaker cs (new_breaker thr cool)) \<and>
   fst (is_open t (run_breaker cs (new_breaker thr cool))) =
     spec_rejects t (fold (spec_step thr cool) cs (Counting 0))"
proof -
  have view: "cb_view (cb.run cs (new_breaker thr cool)) = fold (spec_step thr cool) cs (Counting 0)"
    using cb.run_view [of "new_breaker thr cool" cs] by simp
  have inv: "cb_inv (cb.run cs (new_breaker thr cool))" by (rule cb.run_inv) simp
  show ?thesis
    using view inv cb.ask_answer [OF inv, of t] by (simp add: run_breaker_run)
qed

text \<open>The breaker opens at the failure that reaches the threshold and not before: after a
  run of failures on a new breaker it is open exactly if the run is at least as long as the
  threshold (at least one), and \<open>open_since\<close> is then the time of that failure, however many
  more followed.\<close>

theorem breaker_opens_at_threshold:
  "(cb_state (run_breaker (map Fail ts) (new_breaker thr cool)) = Open \<longleftrightarrow> max 1 thr \<le> int (length ts)) \<and>
   (max 1 thr \<le> int (length ts) \<longrightarrow>
      open_since (run_breaker (map Fail ts) (new_breaker thr cool)) = Some (ts ! nat (max 1 thr - 1)))"
proof -
  let ?b = "cb.run (map Fail ts) (new_breaker thr cool)"
  have view: "cb_view ?b =
    (if int (length ts) < max 1 thr then Counting (int (length ts))
     else Cooling (ts ! nat (max 1 thr - 1) + cool))"
    using cb.opens_after_failures [of "new_breaker thr cool" ts] by simp
  have inv: "cb_inv ?b" by (rule cb.run_inv) simp
  have cool: "cooldown_s ?b = cool" by simp
  show ?thesis
    using view inv cool
    by (cases "cb_state ?b") (auto simp: run_breaker_run cb_view_def cb_inv_def split: if_splits)
qed

theorem breaker_opens_at_threshold_witness:
  "cb_state (run_breaker (map Fail [1, 2, 3]) (new_breaker 2 60)) = Open \<and>
   open_since (run_breaker (map Fail [1, 2, 3]) (new_breaker 2 60)) = Some 2"
  using breaker_opens_at_threshold [of "[1, 2, 3]" 2 60] by simp

text \<open>The rejection window. Once open since \<open>t0\<close>, whatever failures are recorded and
  whoever asks before the deadline, the breaker rejects at a time \<open>t\<close> exactly if the cooldown
  has not elapsed at \<open>t\<close>.\<close>

theorem breaker_rejection_window:
  assumes "cb_inv cb" and "cb_state cb = Open" and "open_since cb = Some t0"
    and "\<forall>c \<in> set cs. (\<exists>t. c = Fail t) \<or> (\<exists>t < t0 + cooldown_s cb. c = Ask t)"
  shows "fst (is_open t (run_breaker cs cb)) \<longleftrightarrow> t - t0 < cooldown_s cb"
  using cb.rejects_while_cooling [of cb "t0 + cooldown_s cb" cs t] assms
  by (auto simp: run_breaker_run cb_view_def)

theorem breaker_rejection_window_witness:
  "fst (is_open 65 (run_breaker [Ask 20, Fail 30]
     (run_breaker [Fail 10] (new_breaker 1 60))))"
proof -
  let ?cb = "run_breaker [Fail 10] (new_breaker 1 60)"
  have h: "cb_inv ?cb" "cb_state ?cb = Open" "open_since ?cb = Some 10" "cooldown_s ?cb = 60"
    by (simp_all add: run_breaker_def cb_defs)
  have "fst (is_open 65 (run_breaker [Ask 20, Fail 30] ?cb)) \<longleftrightarrow> 65 - 10 < cooldown_s ?cb"
    by (rule breaker_rejection_window) (use h in simp_all)
  then show ?thesis using h by simp
qed

text \<open>\<open>cooldown_remaining_s\<close> and \<open>is_open\<close> agree in every state, reachable or not: the
  breaker rejects exactly while the remaining cooldown is positive, and the remaining
  cooldown is never negative.\<close>

theorem cooldown_remaining_iff_rejecting:
  "(fst (is_open now cb) \<longleftrightarrow> 0 < cooldown_remaining_s now cb) \<and> 0 \<le> cooldown_remaining_s now cb"
  by (auto simp: is_open_def cooldown_remaining_s_def split: option.splits)

text \<open>
  The half-open state admits every caller that asks, not a single probe: asking changes
  nothing there.
\<close>

lemma half_open_admits_all:
  "cb_state cb = HalfOpen \<Longrightarrow> is_open t (run_breaker (map Ask ts) cb) = (False, cb)"
proof (induction ts)
  case (Cons a ts)
  then have "is_open a cb = (False, cb)" by (auto simp: is_open_def split: option.splits)
  with Cons show ?case by (simp add: run_breaker_def)
qed (auto simp: run_breaker_def is_open_def split: option.splits)

text \<open>
  Forcing a half-open breaker open keeps the old stamp, so the cooldown does not start
  again and the next question lets the caller through.
\<close>

lemma forced_open_keeps_stamp:
  "cb_state cb = HalfOpen \<Longrightarrow> open_since cb = Some t0 \<Longrightarrow> cooldown_s cb \<le> now - t0 \<Longrightarrow>
   \<exists>cb'. transition_to now ''open'' cb = Some cb' \<and> cb_state cb' = Open \<and> \<not> fst (is_open now cb')"
  by (simp add: transition_to_def state_of_name_def is_open_def)

end
