(* ===== verification/Compaction_Sweep.thy ===== *)
theory Compaction_Sweep
  imports Compaction_Pass
begin

text \<open>
  The loops of the compaction engine (\<open>compaction.py\<close>): \<open>compact_full_sweep\<close>, with its phase of
  leaf passes and its phase of condensed passes, and \<open>compact_until_under\<close>, which repeats forced
  sweeps.

  The local variables of a sweep are the record \<open>sweep_state\<close>; one turn of a phase is a step that
  continues, stops or raises. The loop is \<open>partial_function (option)\<close>: \<open>None\<close> would be a loop that
  never ends, and a theorem shows that it does not happen: the guards let a phase go on only
  when the pass made the context cheaper. The logging and the telemetry calls, whose
  exceptions are swallowed, are left out.
\<close>

subsection \<open>Results\<close>

record compaction_event =
  cr_action_taken :: bool
  cr_tokens_before :: int
  cr_tokens_after :: int
  cr_created_summary_id :: "string option"
  cr_condensed :: bool
  cr_level :: "compaction_level option"
  cr_passes_completed :: nat
  cr_auth_failure :: bool
  cr_reason :: "string option"

record compaction_result = compaction_event +
  cr_phase_results :: "compaction_event list"

record sweep_state =
  sw_db :: lcm_db
  sw_tick :: nat
  sw_action_taken :: bool
  sw_condensed :: bool
  sw_created_summary_id :: "string option"
  sw_level :: "compaction_level option"
  sw_previous_summary_content :: "utext option"
  sw_previous_tokens :: int
  sw_had_auth_failure :: bool
  sw_passes_completed :: nat
  sw_phase_results :: "compaction_event list"
  sw_running_tokens :: int

datatype step = Continue sweep_state | Stop sweep_state | Raise pass_exn sweep_state

partial_function (option) sweep_loop ::
    "(sweep_state \<Rightarrow> step) \<Rightarrow> sweep_state \<Rightarrow> (pass_exn option \<times> sweep_state) option" where
  "sweep_loop f s = (case f s of
     Continue s' \<Rightarrow> sweep_loop f s'
   | Stop s' \<Rightarrow> Some (None, s')
   | Raise e s' \<Rightarrow> Some (Some e, s'))"

subsection \<open>One turn\<close>

text \<open>The updates after a pass that made a summary, for both phases.\<close>

definition record_pass :: "bool \<Rightarrow> leaf_pass_result \<Rightarrow> int \<Rightarrow> sweep_state \<Rightarrow> sweep_state" where
  "record_pass is_condensed res pass_tokens_after s =
     s\<lparr>sw_action_taken := True,
       sw_condensed := (sw_condensed s \<or> is_condensed),
       sw_created_summary_id := Some (lp_summary_id res),
       sw_level := Some (lp_level res),
       sw_previous_summary_content := (if is_condensed then sw_previous_summary_content s else Some (lp_content res)),
       sw_running_tokens := pass_tokens_after,
       sw_passes_completed := sw_passes_completed s + 1,
       sw_phase_results := sw_phase_results s @
         [\<lparr>cr_action_taken = True, cr_tokens_before = sw_running_tokens s, cr_tokens_after = pass_tokens_after,
           cr_created_summary_id = Some (lp_summary_id res), cr_condensed = is_condensed,
           cr_level = Some (lp_level res), cr_passes_completed = 1, cr_auth_failure = False, cr_reason = None\<rparr>]\<rparr>"

text \<open>The three guards at the end of a turn.\<close>

definition end_of_turn :: "bool \<Rightarrow> int \<Rightarrow> int \<Rightarrow> int \<Rightarrow> sweep_state \<Rightarrow> step" where
  "end_of_turn force threshold pass_tokens_before pass_tokens_after s =
     (if \<not> force \<and> pass_tokens_after \<le> threshold then Stop (s\<lparr>sw_previous_tokens := pass_tokens_after\<rparr>)
      else if pass_tokens_before \<le> pass_tokens_after \<or> sw_previous_tokens s \<le> pass_tokens_after then Stop s
      else Continue (s\<lparr>sw_previous_tokens := pass_tokens_after\<rparr>))"

definition after_pass ::
    "bool \<Rightarrow> bool \<Rightarrow> int \<Rightarrow> sweep_state \<Rightarrow> lcm_db \<times> (pass_exn + leaf_pass_outcome) \<Rightarrow> step" where
  "after_pass is_condensed force threshold s p = (case p of (db', r) \<Rightarrow>
     let s1 = s\<lparr>sw_db := db', sw_tick := sw_tick s + 1\<rparr> in
     case r of
       Inl e \<Rightarrow> Raise e s1
     | Inr out \<Rightarrow>
         if lo_auth_failure out then Stop (s1\<lparr>sw_had_auth_failure := True\<rparr>)
         else (case lo_summary out of
           None \<Rightarrow> Stop s1
         | Some res \<Rightarrow>
             let pass_tokens_before = sw_running_tokens s;
                 pass_tokens_after = pass_tokens_before - lp_removed_tokens res + lp_added_tokens res in
             end_of_turn force threshold pass_tokens_before pass_tokens_after
               (record_pass is_condensed res pass_tokens_after s1)))"

definition leaf_step ::
    "compaction_config \<Rightarrow> compaction_env \<Rightarrow> int \<Rightarrow> bool \<Rightarrow> int \<Rightarrow> string option \<Rightarrow> sweep_state \<Rightarrow> step" where
  "leaf_step cfg env c force threshold model s =
     after_pass False force threshold s
       (leaf_pass cfg env (sw_tick s) c (sw_previous_summary_content s) model (sw_db s))"

definition condensed_step ::
    "compaction_config \<Rightarrow> compaction_env \<Rightarrow> int \<Rightarrow> bool \<Rightarrow> bool \<Rightarrow> int \<Rightarrow> string option \<Rightarrow> sweep_state \<Rightarrow> step" where
  "condensed_step cfg env c force hard_trigger threshold model s =
     (if force \<or> threshold < sw_previous_tokens s then
        after_pass True force threshold s
          (run_condensed_pass cfg env (sw_tick s) c hard_trigger model (sw_db s))
      else Stop s)"

subsection \<open>The sweep\<close>

definition no_action :: "int \<Rightarrow> string \<Rightarrow> compaction_result" where
  "no_action tokens_before reason =
     \<lparr>cr_action_taken = False, cr_tokens_before = tokens_before, cr_tokens_after = tokens_before,
      cr_created_summary_id = None, cr_condensed = False, cr_level = None, cr_passes_completed = 0,
      cr_auth_failure = False, cr_reason = Some reason, cr_phase_results = []\<rparr>"

definition start_state :: "lcm_db \<Rightarrow> nat \<Rightarrow> int \<Rightarrow> sweep_state" where
  "start_state db tick tokens_before =
     \<lparr>sw_db = db, sw_tick = tick, sw_action_taken = False, sw_condensed = False, sw_created_summary_id = None,
      sw_level = None, sw_previous_summary_content = None, sw_previous_tokens = tokens_before,
      sw_had_auth_failure = False, sw_passes_completed = 0, sw_phase_results = [],
      sw_running_tokens = tokens_before\<rparr>"

definition sweep_result :: "int \<Rightarrow> sweep_state \<Rightarrow> compaction_result" where
  "sweep_result tokens_before s =
     \<lparr>cr_action_taken = sw_action_taken s, cr_tokens_before = tokens_before,
      cr_tokens_after = sw_running_tokens s, cr_created_summary_id = sw_created_summary_id s,
      cr_condensed = sw_condensed s, cr_level = sw_level s, cr_passes_completed = sw_passes_completed s,
      cr_auth_failure = sw_had_auth_failure s, cr_reason = None, cr_phase_results = sw_phase_results s\<rparr>"

text \<open>The result is the tables, the number of the next pass and what the call returns or raises.\<close>

type_synonym 'r call = "(lcm_db \<times> nat \<times> (pass_exn + 'r)) option"

definition sweep_phases ::
    "compaction_config \<Rightarrow> compaction_env \<Rightarrow> int \<Rightarrow> bool \<Rightarrow> bool \<Rightarrow> int \<Rightarrow> string option \<Rightarrow> int \<Rightarrow> sweep_state
     \<Rightarrow> compaction_result call" where
  "sweep_phases cfg env c force hard_trigger threshold model tokens_before s0 =
     (case sweep_loop (leaf_step cfg env c force threshold model) s0 of
        None \<Rightarrow> None
      | Some (Some e, s) \<Rightarrow> Some (sw_db s, sw_tick s, Inl e)
      | Some (None, s1) \<Rightarrow>
          (case sweep_loop (condensed_step cfg env c force hard_trigger threshold model) s1 of
             None \<Rightarrow> None
           | Some (Some e, s) \<Rightarrow> Some (sw_db s, sw_tick s, Inl e)
           | Some (None, s) \<Rightarrow> Some (sw_db s, sw_tick s, Inr (sweep_result tokens_before s))))"

definition compact_full_sweep ::
    "compaction_config \<Rightarrow> compaction_env \<Rightarrow> nat \<Rightarrow> int \<Rightarrow> int \<Rightarrow> bool \<Rightarrow> bool \<Rightarrow> string option \<Rightarrow> lcm_db
     \<Rightarrow> compaction_result call" where
  "compact_full_sweep cfg env tick c token_budget force hard_trigger model db =
     (let tokens_before = get_context_token_count db c;
          threshold = context_threshold_tokens cfg token_budget;
          leaf_trigger = evaluate_leaf_trigger cfg db c None in
      if \<not> force \<and> tokens_before \<le> threshold \<and> \<not> lt_should_compact leaf_trigger
      then Some (db, tick, Inr (no_action tokens_before ''under threshold''))
      else if get_context_items db c = []
      then Some (db, tick, Inr (no_action tokens_before ''no eligible chunk''))
      else sweep_phases cfg env c force hard_trigger threshold model tokens_before
             (start_state db tick tokens_before))"

subsection \<open>Rounds\<close>

record until_under_result =
  uu_success :: bool
  uu_rounds :: nat
  uu_final_tokens :: int
  uu_auth_failure :: bool

fun round_loop ::
    "compaction_config \<Rightarrow> compaction_env \<Rightarrow> int \<Rightarrow> int \<Rightarrow> int \<Rightarrow> string option \<Rightarrow> nat \<Rightarrow> nat \<Rightarrow> nat \<Rightarrow> int \<Rightarrow> lcm_db
     \<Rightarrow> until_under_result call" where
  "round_loop cfg env c token_budget target model 0 round_index tick last_tokens db =
     Some (db, tick, Inr \<lparr>uu_success = (last_tokens \<le> target), uu_rounds = cc_max_rounds cfg,
       uu_final_tokens = last_tokens, uu_auth_failure = False\<rparr>)"
| "round_loop cfg env c token_budget target model (Suc left) round_index tick last_tokens db =
     (case compact_full_sweep cfg env tick c token_budget True False model db of
        None \<Rightarrow> None
      | Some (db', tick', Inl e) \<Rightarrow> Some (db', tick', Inl e)
      | Some (db', tick', Inr r) \<Rightarrow>
          if cr_auth_failure r then
            Some (db', tick', Inr \<lparr>uu_success = False, uu_rounds = round_index,
              uu_final_tokens = cr_tokens_after r, uu_auth_failure = True\<rparr>)
          else if cr_tokens_after r \<le> target then
            Some (db', tick', Inr \<lparr>uu_success = True, uu_rounds = round_index,
              uu_final_tokens = cr_tokens_after r, uu_auth_failure = False\<rparr>)
          else if \<not> cr_action_taken r \<or> last_tokens \<le> cr_tokens_after r then
            Some (db', tick', Inr \<lparr>uu_success = False, uu_rounds = round_index,
              uu_final_tokens = cr_tokens_after r, uu_auth_failure = False\<rparr>)
          else round_loop cfg env c token_budget target model left (round_index + 1) tick' (cr_tokens_after r) db')"

definition compact_until_under ::
    "compaction_config \<Rightarrow> compaction_env \<Rightarrow> nat \<Rightarrow> int \<Rightarrow> int \<Rightarrow> int option \<Rightarrow> int option \<Rightarrow> string option \<Rightarrow> lcm_db
     \<Rightarrow> until_under_result call" where
  "compact_until_under cfg env tick c token_budget target_tokens current_tokens model db =
     (let effective_target = (case target_tokens of Some t \<Rightarrow> if 0 < t then t else token_budget | None \<Rightarrow> token_budget);
          stored_tokens = get_context_token_count db c;
          live_tokens = (case current_tokens of Some t \<Rightarrow> if 0 < t then t else 0 | None \<Rightarrow> 0);
          last_tokens = max stored_tokens live_tokens in
      if last_tokens < effective_target then
        Some (db, tick, Inr \<lparr>uu_success = True, uu_rounds = 0, uu_final_tokens = last_tokens, uu_auth_failure = False\<rparr>)
      else round_loop cfg env c token_budget effective_target model (cc_max_rounds cfg) 1 tick last_tokens db)"

subsection \<open>Every sweep returns\<close>

text \<open>What holds between two turns: nothing was lost, and the running token count follows the cost.\<close>

definition sweep_inv :: "compaction_config \<Rightarrow> int \<Rightarrow> lcm_db \<Rightarrow> int \<Rightarrow> sweep_state \<Rightarrow> bool" where
  "sweep_inv cfg c db0 tokens_before s \<longleftrightarrow>
     lossless cfg c db0 (sw_db s)
   \<and> sw_running_tokens s = tokens_before + context_cost (sw_db s) c - context_cost db0 c
   \<and> sw_passes_completed s = length (sw_phase_results s)
   \<and> (sw_action_taken s \<longleftrightarrow> sw_passes_completed s \<noteq> 0)
   \<and> (\<not> sw_action_taken s \<longrightarrow> sw_db s = db0)"

definition step_ok :: "compaction_config \<Rightarrow> int \<Rightarrow> lcm_db \<Rightarrow> int \<Rightarrow> sweep_state \<Rightarrow> step \<Rightarrow> bool" where
  "step_ok cfg c db0 tb s st \<longleftrightarrow> (case st of
     Continue s' \<Rightarrow> sweep_inv cfg c db0 tb s' \<and> context_cost (sw_db s') c < context_cost (sw_db s) c
   | Stop s' \<Rightarrow> sweep_inv cfg c db0 tb s'
   | Raise e s' \<Rightarrow> sweep_inv cfg c db0 tb s')"

lemma after_pass_ok:
  assumes inv: "sweep_inv cfg c db0 tb s" and ok: "pass_ok cfg c (sw_db s) p"
  shows "step_ok cfg c db0 tb s (after_pass is_condensed force threshold s p)"
proof -
  obtain db' r where p: "p = (db', r)" by (cases p)
  have less: "lossless cfg c db0 db'"
    using inv ok lossless_trans by (auto simp: sweep_inv_def pass_ok_def p)
  have cases: "pass_cases (sw_db s) db' r (\<lambda>res. context_cost db' c =
      context_cost (sw_db s) c - lp_removed_tokens res + lp_added_tokens res)"
    using ok by (auto simp: pass_ok_def p pass_cases_def split: sum.splits option.splits)
  show ?thesis
  proof (cases "\<exists>out res. r = Inr out \<and> lo_summary out = Some res")
    case False
    then have "db' = sw_db s" using cases by (auto simp: pass_cases_def split: sum.splits option.splits)
    with False inv show ?thesis
      by (auto simp: step_ok_def after_pass_def p Let_def sweep_inv_def split: sum.splits option.splits)
  next
    case True
    then obtain out res where r: "r = Inr out" "lo_summary out = Some res" by blast
    then have na: "\<not> lo_auth_failure out" and cost: "context_cost db' c =
        context_cost (sw_db s) c - lp_removed_tokens res + lp_added_tokens res"
      using cases by (auto simp: pass_cases_def)
    then show ?thesis
      using inv less unfolding after_pass_def p r(1)
      by (auto simp: step_ok_def Let_def r(2) end_of_turn_def record_pass_def sweep_inv_def)
  qed
qed

lemma sweep_inv_wf: "sweep_inv cfg c db0 tb s \<Longrightarrow> wf_db (sw_db s)"
  by (auto simp: sweep_inv_def intro: lossless_wf)

lemma leaf_step_ok:
  "sweep_inv cfg c db0 tb s \<Longrightarrow> step_ok cfg c db0 tb s (leaf_step cfg env c force threshold model s)"
  unfolding leaf_step_def by (intro after_pass_ok leaf_pass_ok sweep_inv_wf)

lemma condensed_step_ok:
  "sweep_inv cfg c db0 tb s \<Longrightarrow> step_ok cfg c db0 tb s (condensed_step cfg env c force hard threshold model s)"
  unfolding condensed_step_def
  by (auto intro!: after_pass_ok condensed_pass_ok sweep_inv_wf) (simp add: step_ok_def)

lemma sweep_loop_ends:
  assumes step: "\<And>s. sweep_inv cfg c db0 tb s \<Longrightarrow> step_ok cfg c db0 tb s (f s)" and inv: "sweep_inv cfg c db0 tb s"
  shows "\<exists>e s'. sweep_loop f s = Some (e, s') \<and> sweep_inv cfg c db0 tb s'"
  using inv
proof (induction "nat (context_cost (sw_db s) c)" arbitrary: s rule: less_induct)
  case less
  show ?case
  proof (cases "f s")
    case (Continue s')
    then have "sweep_inv cfg c db0 tb s'" "context_cost (sw_db s') c < context_cost (sw_db s) c"
      using step[OF less.prems] by (auto simp: step_ok_def)
    moreover have "nat (context_cost (sw_db s') c) < nat (context_cost (sw_db s) c)"
      using calculation(2) context_cost_nonneg[of "sw_db s'" c] by simp
    ultimately show ?thesis
      using less.hyps Continue by (subst sweep_loop.simps) simp
  qed (use step[OF less.prems] in \<open>subst sweep_loop.simps, simp add: step_ok_def\<close>)+
qed

lemma leaf_phase_ends:
  "sweep_inv cfg c db0 tb s \<Longrightarrow>
     \<exists>e s'. sweep_loop (leaf_step cfg env c force threshold model) s = Some (e, s') \<and> sweep_inv cfg c db0 tb s'"
  by (rule sweep_loop_ends) (rule leaf_step_ok)

lemma condensed_phase_ends:
  "sweep_inv cfg c db0 tb s \<Longrightarrow>
     \<exists>e s'. sweep_loop (condensed_step cfg env c force hard threshold model) s = Some (e, s') \<and> sweep_inv cfg c db0 tb s'"
  by (rule sweep_loop_ends) (rule condensed_step_ok)

lemma start_inv: "wf_db db \<Longrightarrow> sweep_inv cfg c db tb (start_state db tick tb)"
  by (simp add: sweep_inv_def start_state_def lossless_refl)

text \<open>What a call of the sweep gives back.\<close>

lemma full_sweep_cases:
  assumes wf: "wf_db db"
  shows "\<exists>db' tick' r. compact_full_sweep cfg env tick c budget force hard model db = Some (db', tick', r)
     \<and> lossless cfg c db db'
     \<and> (\<forall>res. r = Inr res \<longrightarrow>
          cr_tokens_before res = get_context_token_count db c
        \<and> cr_tokens_after res = get_context_token_count db c + context_cost db' c - context_cost db c
        \<and> cr_passes_completed res = length (cr_phase_results res)
        \<and> (cr_action_taken res \<longleftrightarrow> cr_passes_completed res \<noteq> 0)
        \<and> (\<not> cr_action_taken res \<longrightarrow> db' = db))"
proof -
  let ?tb = "get_context_token_count db c" and ?th = "context_threshold_tokens cfg budget"
  show ?thesis
  proof (cases "(\<not> force \<and> ?tb \<le> ?th \<and> \<not> lt_should_compact (evaluate_leaf_trigger cfg db c None)) \<or> get_context_items db c = []")
    case True
    then show ?thesis
      by (auto simp: compact_full_sweep_def Let_def no_action_def lossless_refl[OF wf])
  next
    case False
    then have run: "compact_full_sweep cfg env tick c budget force hard model db =
        sweep_phases cfg env c force hard ?th model ?tb (start_state db tick ?tb)"
      by (auto simp: compact_full_sweep_def Let_def)
    obtain e1 s1 where one: "sweep_loop (leaf_step cfg env c force ?th model) (start_state db tick ?tb) = Some (e1, s1)"
      and inv1: "sweep_inv cfg c db ?tb s1"
      using leaf_phase_ends[OF start_inv[OF wf, of cfg c ?tb tick]] by blast
    obtain e2 s2 where two: "sweep_loop (condensed_step cfg env c force hard ?th model) s1 = Some (e2, s2)"
      and inv2: "sweep_inv cfg c db ?tb s2"
      using condensed_phase_ends[OF inv1] by blast
    show ?thesis
      unfolding run sweep_phases_def one using two inv1 inv2
      by (cases e1; cases e2) (auto simp: sweep_inv_def sweep_result_def)
  qed
qed

lemma round_loop_ends:
  assumes "lossless cfg c db0 db" "left + round_index = cc_max_rounds cfg + 1" "1 \<le> round_index"
  shows "\<exists>db' tick' r. round_loop cfg env c budget target model left round_index tick last_tokens db = Some (db', tick', r)
     \<and> lossless cfg c db0 db'
     \<and> (\<forall>res. r = Inr res \<longrightarrow> uu_rounds res \<le> cc_max_rounds cfg
          \<and> (\<not> uu_auth_failure res \<longrightarrow> (uu_success res \<longleftrightarrow> uu_final_tokens res \<le> target))
          \<and> (uu_auth_failure res \<longrightarrow> \<not> uu_success res))"
  using assms
proof (induction left arbitrary: round_index tick last_tokens db)
  case (Suc left)
  obtain db1 t1 r1 where run: "compact_full_sweep cfg env tick c budget True False model db = Some (db1, t1, r1)"
    and less: "lossless cfg c db db1"
    using full_sweep_cases[OF lossless_wf[OF Suc.prems(1)]] by blast
  have less1: "lossless cfg c db0 db1" by (rule lossless_trans[OF Suc.prems(1) less])
  have bound: "round_index \<le> cc_max_rounds cfg" using Suc.prems(2) by simp
  show ?case
  proof (cases r1)
    case (Inr r)
    consider "cr_auth_failure r" | "\<not> cr_auth_failure r" "cr_tokens_after r \<le> target"
      | "\<not> cr_auth_failure r" "\<not> cr_tokens_after r \<le> target" "\<not> cr_action_taken r \<or> last_tokens \<le> cr_tokens_after r"
      | "\<not> cr_auth_failure r" "\<not> cr_tokens_after r \<le> target" "\<not> (\<not> cr_action_taken r \<or> last_tokens \<le> cr_tokens_after r)"
      by blast
    then show ?thesis
    proof cases
      case 4
      then have "round_loop cfg env c budget target model (Suc left) round_index tick last_tokens db =
          round_loop cfg env c budget target model left (round_index + 1) t1 (cr_tokens_after r) db1"
        by (simp add: run Inr)
      then show ?thesis using Suc.IH[OF less1, of "round_index + 1"] Suc.prems(2) by simp
    qed (use less1 bound in \<open>simp_all add: run Inr\<close>)
  qed (use less1 in \<open>simp add: run\<close>)
qed simp

lemma until_under_cases:
  fixes db :: lcm_db
  assumes wf: "wf_db db"
    and target: "target = (case target_tokens of Some t \<Rightarrow> if 0 < t then t else budget | None \<Rightarrow> budget)"
  shows "\<exists>db' tick' r. compact_until_under cfg env tick c budget target_tokens current_tokens model db = Some (db', tick', r)
     \<and> lossless cfg c db db'
     \<and> (\<forall>res. r = Inr res \<longrightarrow> uu_rounds res \<le> cc_max_rounds cfg
          \<and> (\<not> uu_auth_failure res \<longrightarrow> (uu_success res \<longleftrightarrow> uu_final_tokens res \<le> target))
          \<and> (uu_auth_failure res \<longrightarrow> \<not> uu_success res))"
proof -
  let ?last = "max (get_context_token_count db c) (case current_tokens of Some t \<Rightarrow> if 0 < t then t else 0 | None \<Rightarrow> 0)"
  show ?thesis
  proof (cases "?last < target")
    case True
    then show ?thesis
      by (simp add: compact_until_under_def Let_def target[symmetric] lossless_refl[OF wf])
  next
    case False
    then have "compact_until_under cfg env tick c budget target_tokens current_tokens model db =
        round_loop cfg env c budget target model (cc_max_rounds cfg) 1 tick ?last db"
      by (auto simp: compact_until_under_def Let_def target[symmetric])
    then show ?thesis
      using round_loop_ends[where left = "cc_max_rounds cfg" and round_index = 1 and cfg = cfg, OF lossless_refl[OF wf]]
      by simp
  qed
qed

subsection \<open>Exact token counts\<close>

text \<open>With positive message counts the cost of a context is its stored token count.\<close>

definition counted :: "lcm_db \<Rightarrow> bool" where
  "counted db \<longleftrightarrow> (\<forall>m \<in> set (db_messages db). 0 < mr_token_count m) \<and> (\<forall>s \<in> set (db_summaries db). 0 \<le> sr_token_count s)"

lemma unique_filter:
  assumes "distinct (map f xs)" "x \<in> set xs"
  shows "filter (\<lambda>y. f y = f x) xs = [x]"
  using assms by (induction xs) (auto simp: filter_empty_conv image_iff)

lemma ref_cost_tokens:
  assumes wf: "wf_db db" and cnt: "counted db" and ex: "ref_exists db r"
  shows "ref_cost db r = ref_tokens db r"
proof (cases r)
  case (Msg mid)
  obtain m where m: "get_message_by_id db mid True = Some m" "mr_message_id m = mid"
    using get_message_by_id_exists[OF wf] ex Msg by blast
  then have mem: "m \<in> set (db_messages db)" by (auto simp: get_message_by_id_def dest: find_SomeD)
  have "filter (\<lambda>y. mr_message_id y = mr_message_id m) (db_messages db) = [m]"
    using wf mem by (intro unique_filter) (auto simp: wf_db_def)
  then show ?thesis
    using cnt mem m by (auto simp: Msg get_message_token_count_def counted_def)
next
  case (Sum sid)
  then obtain s where s: "s \<in> set (db_summaries db)" "sr_summary_id s = sid" using ex by (auto simp: list_ex_iff)
  then have "get_summary db sid True \<noteq> None" by (auto simp: get_summary_def find_None_iff)
  then obtain s' where s': "get_summary db sid True = Some s'" by blast
  then have mem: "s' \<in> set (db_summaries db)" "sr_summary_id s' = sid"
    by (auto simp: get_summary_def dest: find_SomeD)
  have "filter (\<lambda>y. sr_summary_id y = sr_summary_id s') (db_summaries db) = [s']"
    using wf mem by (intro unique_filter) (auto simp: wf_db_def)
  then show ?thesis
    using cnt mem s' by (auto simp: Sum counted_def py_max0_def)
qed

lemma context_cost_tokens:
  assumes "wf_db db" "counted db"
  shows "context_cost db c = get_context_token_count db c"
  unfolding context_cost_def token_count_refs
  using assms context_refs_exist by (intro arg_cong[of _ _ sum_list] map_cong refl ref_cost_tokens) auto

lemma lossless_counted: "lossless cfg c db db' \<Longrightarrow> counted db \<Longrightarrow> counted db'"
  by (auto simp: lossless_def counted_def)

subsection \<open>A sample run\<close>

definition echo_env :: "summarizer_reply \<Rightarrow> compaction_env" where
  "echo_env reply = \<lparr>ce_summarize = (\<lambda>_ _. reply), ce_now_ms = (\<lambda>n. n), ce_now = (\<lambda>_. 0),
     ce_hexdigest = (\<lambda>t. map char_of t), ce_loads = (\<lambda>_. None), ce_alnum = (\<lambda>n. u_alpha n \<or> u_digit n),
     ce_format_timestamp = (\<lambda>_. [84])\<rparr>"

lemma sample_counted: "counted sample_db"
  by (simp add: counted_def sample_db_def sample_message_def summary_of_input_def sample_input_def)

subsection \<open>Properties\<close>

text \<open>C2. Compaction loses nothing: a full sweep always returns, and whatever the summarizer answered or raised,
  the message rows are as before, every conversation's context still reaches exactly the messages
  it reached, directly or through the sources of its summaries, the other conversations' contexts
  are untouched, summaries are only added, and the tables are well formed.\<close>

theorem full_sweep_lossless:
  assumes "wf_db db"
  shows "\<exists>db' tick' r. compact_full_sweep cfg env tick c budget force hard model db = Some (db', tick', r)
     \<and> wf_db db' \<and> db_messages db' = db_messages db
     \<and> (\<forall>c'. covered db' c' = covered db c')
     \<and> (\<forall>c'. c' \<noteq> c \<longrightarrow> get_context_items db' c' = get_context_items db c')
     \<and> (\<exists>new. db_summaries db' = db_summaries db @ new)"
  using full_sweep_cases[OF assms, of cfg env tick c budget force hard model] by (auto simp: lossless_def)

theorem full_sweep_lossless_witness:
  "\<exists>db' tick' r. compact_full_sweep small_config (echo_env (Reply [97])) 0 1 20 True False None sample_db = Some (db', tick', r)
     \<and> covered db' 1 = {1, 2, 3, 4}"
proof -
  have "covered sample_db 1 = {1, 2, 3, 4}"
    by (auto simp: covered_def context_refs_def sample_db_items simp del: set_get_context_items)
  then show ?thesis
    using full_sweep_lossless[OF sample_db_wf, of small_config "echo_env (Reply [97])" 0 1 20 True False None] by auto
qed

text \<open>C3. The fresh tail survives every sweep: the messages it protected before are the messages it protects
  after, and they are the last message references of the context, in their order.\<close>

theorem full_sweep_keeps_fresh_tail:
  assumes "wf_db db" "compact_full_sweep cfg env tick c budget force hard model db = Some (db', tick', r)"
  shows "protected_refs cfg db' c = protected_refs cfg db c
     \<and> (\<exists>old. message_refs db' c = old @ protected_refs cfg db c)"
proof -
  have less: "lossless cfg c db db'"
    using full_sweep_cases[OF assms(1), of cfg env tick c budget force hard model] assms(2) by auto
  then have same: "protected_refs cfg db' c = protected_refs cfg db c" by (simp add: lossless_def)
  have "\<exists>old. message_refs db' c = old @ protected_refs cfg db' c"
  proof (cases "0 < resolve_fresh_tail_count cfg")
    case True
    show ?thesis
      unfolding protected_suffix[OF lossless_wf[OF less] True] by (metis append_take_drop_id)
  qed (simp add: protected_refs_def)
  with same show ?thesis by simp
qed

theorem full_sweep_keeps_fresh_tail_witness:
  "\<exists>db' tick' r. compact_full_sweep small_config (echo_env (Reply [97])) 0 1 20 True False None sample_db = Some (db', tick', r)
     \<and> protected_refs small_config db' 1 = [Msg 3, Msg 4]"
proof -
  have "0 < resolve_fresh_tail_count small_config"
    by (simp add: resolve_fresh_tail_count_def small_config_def)
  then have "protected_refs small_config sample_db 1 = [Msg 3, Msg 4]"
    by (simp add: protected_refs_def sample_tail Let_def) (simp add: sample_db_items is_message_item_def)
  then show ?thesis
    using full_sweep_cases[OF sample_db_wf, of small_config "echo_env (Reply [97])" 0 1 20 True False None]
      full_sweep_keeps_fresh_tail[OF sample_db_wf, of small_config "echo_env (Reply [97])" 0 1 20 True False None]
    by metis
qed

text \<open>The token count a sweep reports is exact when the stored message counts are positive: what it returns as
  the count after is the stored count of the context it leaves, and without an action it leaves the
  tables as they were.\<close>

theorem full_sweep_reports_exact_tokens:
  assumes "wf_db db" "counted db"
    "compact_full_sweep cfg env tick c budget force hard model db = Some (db', tick', Inr res)"
  shows "cr_tokens_before res = get_context_token_count db c
     \<and> cr_tokens_after res = get_context_token_count db' c
     \<and> cr_passes_completed res = length (cr_phase_results res)
     \<and> (cr_action_taken res \<longleftrightarrow> cr_passes_completed res \<noteq> 0)
     \<and> (\<not> cr_action_taken res \<longrightarrow> db' = db)"
proof -
  have less: "lossless cfg c db db'" and after: "cr_tokens_after res = get_context_token_count db c + context_cost db' c - context_cost db c"
    using full_sweep_cases[OF assms(1), of cfg env tick c budget force hard model] assms(3) by auto
  have "context_cost db' c = get_context_token_count db' c"
    by (rule context_cost_tokens[OF lossless_wf[OF less] lossless_counted[OF less assms(2)]])
  then show ?thesis
    using full_sweep_cases[OF assms(1), of cfg env tick c budget force hard model] assms(3) after
      context_cost_tokens[OF assms(1,2), of c] by auto
qed

lemma sample_entry:
  "message_entry_of (echo_env reply) sample_db \<lparr>ci_conversation_id = 1, ci_ordinal = 0, ci_ref = Msg 1\<rparr> =
     Some \<lparr>me_message_id = 1, me_content = [97, 98], me_created_at = 1, me_token_count = 10\<rparr>"
  by (simp add: message_entry_of_def get_message_by_id_def sample_db_def empty_db_def sample_message_def
      annotate_media_content_def get_message_parts_def resolve_message_token_count_def Let_def)

lemma sample_source:
  "leaf_source_text (echo_env reply) [\<lparr>me_message_id = 1, me_content = [97, 98], me_created_at = 1, me_token_count = 10\<rparr>]
     = [91, 84, 93, 10, 97, 98]"
proof -
  have "extract_meaningful_message_text (\<lambda>_. None) [97, 98] = [97, 98]"
    by (simp add: extract_meaningful_message_text_def u_strip_def u_lstrip_def u_rstrip_def u_isspace_def
        is_json_shaped_def strip_embedded_media_payloads_def match_data_url_def match_data_prefix_def cps_def ci_eq_def
        split_lines_def keep_line_def media_path_def looks_like_binary_payload_def drop_cr_def u_join_def Let_def)
  then show ?thesis
    by (simp add: leaf_source_text_def echo_env_def u_join_def Let_def)
qed

lemma sample_leaf_pass:
  "\<exists>db' res. leaf_pass small_config (echo_env (Reply [97])) 0 1 None None sample_db =
     (db', Inr \<lparr>lo_summary = Some res, lo_auth_failure = False\<rparr>)
     \<and> lp_removed_tokens res = 10 \<and> lp_added_tokens res = 1"
proof -
  let ?item = "\<lparr>ci_conversation_id = 1, ci_ordinal = 0, ci_ref = Msg 1\<rparr> :: context_item"
  have items: "lc_items (select_oldest_leaf_chunk small_config sample_db 1 None) = [?item]"
    by (simp add: select_oldest_leaf_chunk_def sample_tail Let_def)
      (simp add: sample_db_items is_message_item_def item_tokens_def sample_message_tokens
        resolve_leaf_chunk_tokens_def small_config_def)
  have entries: "List.map_filter (message_entry_of (echo_env (Reply [97])) sample_db) [?item] =
      [\<lparr>me_message_id = 1, me_content = [97, 98], me_created_at = 1, me_token_count = 10\<rparr>]"
    by (simp add: sample_entry)
  have ask: "summarize_with_escalation (echo_env (Reply [97])) 0 [91, 84, 93, 10, 97, 98] n prev m = Inr (Some ([97], Normal))"
    for n prev m
    by (simp add: summarize_with_escalation_def ask_summarizer_def echo_env_def u_strip_def u_lstrip_def
        u_rstrip_def u_isspace_def)
  have est: "estimate_tokens [97] = 1"
    by (simp add: estimate_weight estimate_code_point_tokens_def is_cjk_code_point_def) linarith
  show ?thesis
    unfolding leaf_pass_def items Let_def leaf_pass_block_def entries sample_source ask
    by (simp add: leaf_pass_write_def Let_def commit_summary_def insert_summary_def sample_db_def empty_db_def
        sample_message_def summary_of_input_def sample_input_def generate_summary_id_def link_summary_to_messages_def
        link_message_def replace_context_range_with_summary_def delete_context_items_def insert_context_item_def
        has_context_key_def resequence_def get_context_items_def context_rows_def update_ordinal_def upt_rec py_max0_def est)
qed

lemma sample_sweep:
  "\<exists>db' res. compact_full_sweep small_config (echo_env (Reply [97])) 0 1 48 False False None sample_db = Some (db', 1, Inr res)
     \<and> cr_action_taken res \<and> cr_tokens_after res = 31"
proof -
  obtain db' res where pass: "leaf_pass small_config (echo_env (Reply [97])) 0 1 None None sample_db =
     (db', Inr \<lparr>lo_summary = Some res, lo_auth_failure = False\<rparr>)" "lp_removed_tokens res = 10" "lp_added_tokens res = 1"
    using sample_leaf_pass by blast
  have tok: "get_context_token_count sample_db 1 = 40"
    by (simp add: get_context_token_count_def context_rows_def sample_db_def empty_db_def sample_message_def)
  have th: "context_threshold_tokens small_config 48 = 36"
    by (simp add: context_threshold_tokens_def small_config_def default_compaction_config_def py_int_def)
  have ne: "get_context_items sample_db 1 \<noteq> []" by (simp add: sample_db_items)
  let ?s = "start_state sample_db 0 40"
  obtain s1 where s1: "leaf_step small_config (echo_env (Reply [97])) 1 False 36 None ?s = Stop s1"
    "sw_db s1 = db'" "sw_tick s1 = 1" "sw_previous_tokens s1 = 31" "sw_running_tokens s1 = 31" "sw_action_taken s1"
    by (simp add: leaf_step_def start_state_def after_pass_def pass Let_def end_of_turn_def record_pass_def)
  have l1: "sweep_loop (leaf_step small_config (echo_env (Reply [97])) 1 False 36 None) ?s = Some (None, s1)"
    by (subst sweep_loop.simps) (simp add: s1)
  have l2: "sweep_loop (condensed_step small_config (echo_env (Reply [97])) 1 False False 36 None) s1 = Some (None, s1)"
    by (subst sweep_loop.simps) (simp add: condensed_step_def s1)
  show ?thesis
    using ne by (simp add: compact_full_sweep_def tok th Let_def sweep_phases_def l1 l2 s1 sweep_result_def)
qed

theorem full_sweep_reports_exact_tokens_witness:
  "\<exists>db' res. compact_full_sweep small_config (echo_env (Reply [97])) 0 1 48 False False None sample_db = Some (db', 1, Inr res)
     \<and> get_context_token_count db' 1 = 31"
proof -
  obtain db' res where run: "compact_full_sweep small_config (echo_env (Reply [97])) 0 1 48 False False None sample_db
      = Some (db', 1, Inr res)" "cr_tokens_after res = 31"
    using sample_sweep by blast
  with full_sweep_reports_exact_tokens[OF sample_db_wf sample_counted run(1)] show ?thesis by auto
qed

text \<open>C4. The round loop keeps the sweep's promises and is honest: it returns within the configured rounds; unless a
  provider refused, success is reported exactly when the final count is within the target, and a
  refusal is never a success.\<close>

theorem until_under_honest:
  assumes "wf_db db"
  shows "\<exists>db' tick' r. compact_until_under cfg env tick c budget target_tokens current_tokens model db = Some (db', tick', r)
     \<and> wf_db db' \<and> db_messages db' = db_messages db \<and> (\<forall>c'. covered db' c' = covered db c')
     \<and> protected_refs cfg db' c = protected_refs cfg db c
     \<and> (\<forall>res. r = Inr res \<longrightarrow> uu_rounds res \<le> cc_max_rounds cfg
          \<and> (\<not> uu_auth_failure res \<longrightarrow> (uu_success res \<longleftrightarrow> uu_final_tokens res \<le>
               (case target_tokens of Some t \<Rightarrow> if 0 < t then t else budget | None \<Rightarrow> budget)))
          \<and> (uu_auth_failure res \<longrightarrow> \<not> uu_success res))"
  using until_under_cases[OF assms refl, of cfg env tick c budget target_tokens current_tokens model]
  unfolding lossless_def by blast

theorem until_under_honest_witness:
  "\<exists>db' tick' r. compact_until_under small_config (echo_env Raise_Auth) 0 1 20 None None None sample_db = Some (db', tick', r)
     \<and> db_messages db' = db_messages sample_db \<and> (case r of Inl e \<Rightarrow> True | Inr res \<Rightarrow> uu_rounds res \<le> 10)"
proof -
  have "cc_max_rounds small_config = 10" by (simp add: small_config_def default_compaction_config_def)
  then show ?thesis
    using until_under_honest[OF sample_db_wf, of small_config "echo_env Raise_Auth" 0 1 20 None None None]
    by (fastforce split: sum.split)
qed

end
