(* ===== verification/Engine_Compact.thy ===== *)
theory Engine_Compact
  imports Engine_Assemble Circuit_Breaker Compaction_Sweep
begin

text \<open>
  The compaction entry points of the engine (\<open>engine/compact.py\<close>): the gate that the host asks
  (\<open>should_compress\<close>), the call it makes when the gate is open (\<open>compress\<close>), and \<open>compact\<close>, which asks
  a circuit breaker per provider and model before it lets the compaction run.

  \<open>_execute_compaction_core\<close> raises \<open>NotImplementedError\<close> in the source and is meant to be overridden,
  so it is a parameter: \<open>core\<close> gives the outcome of the n-th call for a breaker key, and the state
  counts the calls, so that a theorem can say that the core was not called. The breakers are created
  on first use by \<open>_get_or_create_circuit_breaker\<close> of \<open>engine/__init__.py\<close>. A call reads the clock when
  it asks the breaker and when it records the outcome; both times are arguments.

  The properties: after two calls of \<open>compress\<close> the gate stays closed, whatever the token counts, since
  every call records a run that saved nothing; and once enough calls in a row were refused for a key,
  the core is not called for that key until the cooldown is over, whatever happens to other keys.
\<close>

subsection \<open>The gate\<close>

definition ineffective_run_length :: nat where "ineffective_run_length = 2"
definition compression_history_maxlen :: nat where "compression_history_maxlen = 16"

definition is_ineffective :: "int \<Rightarrow> int \<Rightarrow> bool" where
  "is_ineffective before after =
     (if before \<le> 0 then True
      else if before \<le> after then True
      else real_of_int (before - after) / real_of_int before < 1 / 10)"

definition always_on :: "engine_env \<Rightarrow> bool" where
  "always_on env \<longleftrightarrow> ee_always_on_via_compress env \<and> \<not> ee_has_preassemble env"

definition should_compress :: "engine_env \<Rightarrow> int option \<Rightarrow> engine_state \<Rightarrow> bool" where
  "should_compress env prompt_tokens st =
     (if always_on env then True
      else let observed = (case prompt_tokens of Some n \<Rightarrow> n | None \<Rightarrow> es_last_prompt_tokens st);
               history = es_compression_history st in
        if es_threshold_tokens st \<le> 0 then False
        else if observed < es_threshold_tokens st then False
        else if ineffective_run_length \<le> length history
             \<and> list_all (\<lambda>(before, after). is_ineffective before after)
                  (drop (length history - ineffective_run_length) history) then False
        else True)"

text \<open>\<open>deque(maxlen=16).append\<close>\<close>

definition record_compression :: "int \<times> int \<Rightarrow> engine_state \<Rightarrow> engine_state" where
  "record_compression p st =
     (let history = es_compression_history st @ [p] in
      st\<lparr>es_compression_history := drop (length history - compression_history_maxlen) history,
         es_compression_count := es_compression_count st + 1\<rparr>)"

definition compress_budget :: "int option \<Rightarrow> engine_state \<Rightarrow> int" where
  "compress_budget current_tokens st =
     (if 0 < es_context_length st then es_context_length st
      else case current_tokens of
        Some n \<Rightarrow> if 0 < n then n
          else if 0 < es_last_prompt_tokens st then es_last_prompt_tokens st else 128000
      | None \<Rightarrow> if 0 < es_last_prompt_tokens st then es_last_prompt_tokens st else 128000)"

text \<open>\<open>None\<close> is the exception that leaves \<open>compress\<close>, which has no handler around the assembly.\<close>

definition compress ::
    "engine_env \<Rightarrow> json list \<Rightarrow> int option \<Rightarrow> utext option \<Rightarrow> engine_state \<Rightarrow> engine_state \<times> json list option" where
  "compress env messages current_tokens focus_topic st =
     (let before = (case current_tokens of Some n \<Rightarrow> n | None \<Rightarrow> es_last_prompt_tokens st);
          session_id = infer_session_id messages in
      if always_on env then
        (if session_id = [] then (record_compression (before, before) st, Some messages)
         else case assemble_with_signal env session_id messages (compress_budget current_tokens st) focus_topic st of
           (st1, None) \<Rightarrow> (st1, None)
         | (st1, Some (substituted, did_substitute)) \<Rightarrow>
             (update_ingest (reset_ingest_cursor_after_compaction messages substituted session_id did_substitute)
                (record_compression (before, before) st1), Some substituted))
      else
        (update_ingest (reset_ingest_cursor_after_compaction messages messages session_id False)
           (record_compression (before, before) st), Some messages))"

subsection \<open>Compaction behind a breaker\<close>

record compact_request =
  rq_conversation_id :: int
  rq_token_budget :: int
  rq_current_tokens :: int
  rq_provider :: "string option"
  rq_model :: "string option"

datatype core_outcome = Core_Result compaction_result | Core_Auth_Error | Core_Error

record compact_state =
  ks_breakers :: "string \<rightharpoonup> circuit_breaker"
  ks_core_calls :: "string \<Rightarrow> nat"

text \<open>\<open>f"{provider or 'unknown'}::{model or 'unknown'}"\<close>\<close>

definition resolve_breaker_key :: "string option \<Rightarrow> string option \<Rightarrow> string" where
  "resolve_breaker_key provider model =
     (let or_unknown = (\<lambda>v. case v of Some s \<Rightarrow> if s = [] then ''unknown'' else s | None \<Rightarrow> ''unknown'') in
      or_unknown provider @ ''::'' @ or_unknown model)"

definition circuit_breaker_of :: "engine_env \<Rightarrow> string \<Rightarrow> compact_state \<Rightarrow> circuit_breaker" where
  "circuit_breaker_of env key st = (case ks_breakers st key of
     Some b \<Rightarrow> b
   | None \<Rightarrow> new_breaker (ee_circuit_breaker_threshold env) (real_of_int (ee_circuit_breaker_cooldown_ms env) / 1000))"

definition set_breaker :: "string \<Rightarrow> circuit_breaker \<Rightarrow> compact_state \<Rightarrow> compact_state" where
  "set_breaker key b st = st\<lparr>ks_breakers := (ks_breakers st)(key \<mapsto> b)\<rparr>"

definition no_compaction :: "compact_request \<Rightarrow> bool \<Rightarrow> string \<Rightarrow> compaction_result" where
  "no_compaction rq auth_failure reason =
     \<lparr>cr_action_taken = False, cr_tokens_before = rq_current_tokens rq, cr_tokens_after = rq_current_tokens rq,
      cr_created_summary_id = None, cr_condensed = False, cr_level = None, cr_passes_completed = 0,
      cr_auth_failure = auth_failure, cr_reason = Some reason, cr_phase_results = []\<rparr>"

definition compact ::
    "engine_env \<Rightarrow> (string \<Rightarrow> nat \<Rightarrow> compact_request \<Rightarrow> core_outcome) \<Rightarrow> real \<Rightarrow> real \<Rightarrow> compact_request \<Rightarrow>
     compact_state \<Rightarrow> compact_state \<times> compaction_result option" where
  "compact env core t_ask t_done rq st =
     (let key = resolve_breaker_key (rq_provider rq) (rq_model rq) in
      case is_open t_ask (circuit_breaker_of env key st) of (rejected, b) \<Rightarrow>
      let st1 = set_breaker key b st in
      if rejected then (st1, Some (no_compaction rq False ''circuit breaker open''))
      else
        let st2 = st1\<lparr>ks_core_calls := (ks_core_calls st1)(key := ks_core_calls st1 key + 1)\<rparr> in
        case core key (ks_core_calls st1 key) rq of
          Core_Error \<Rightarrow> (st2, None)
        | Core_Auth_Error \<Rightarrow>
            (set_breaker key (record_failure t_done b) st2, Some (no_compaction rq True ''provider auth failure''))
        | Core_Result r \<Rightarrow>
            if cr_auth_failure r then
              (set_breaker key (record_failure t_done b) st2,
               Some (r\<lparr>cr_auth_failure := True, cr_phase_results := [],
                 cr_reason := Some (case cr_reason r of
                   Some s \<Rightarrow> if s = [] then ''provider auth failure'' else s
                 | None \<Rightarrow> ''provider auth failure'')\<rparr>))
            else (set_breaker key (record_success b) st2, Some r))"

subsection \<open>The gate stays closed\<close>

type_synonym compress_call = "json list \<times> int option \<times> utext option"

definition run_compress :: "engine_env \<Rightarrow> compress_call list \<Rightarrow> engine_state \<Rightarrow> engine_state" where
  "run_compress env calls st =
     fold (\<lambda>(messages, current_tokens, focus_topic) st. fst (compress env messages current_tokens focus_topic st)) calls st"

lemma compress_off:
  assumes "\<not> always_on env"
  shows "\<exists>n. compress env messages current_tokens focus_topic st = (record_compression (n, n) st, Some messages)"
  using assms
  by (intro exI[of _ "case current_tokens of Some n \<Rightarrow> n | None \<Rightarrow> es_last_prompt_tokens st"])
    (simp add: compress_def reset_ingest_cursor_after_compaction_def update_ingest_def Let_def)

lemma is_ineffective_refl [simp]: "is_ineffective n n"
  by (simp add: is_ineffective_def)

lemma drop_last_two: "drop (length (xs @ [a, b]) - 2) (xs @ [a, b]) = [a, b]"
  by simp

lemma recorded_twice:
  "let h = es_compression_history (record_compression q (record_compression p st)) in
     2 \<le> length h \<and> drop (length h - 2) h = [p, q]"
proof -
  let ?f = "\<lambda>h :: (int \<times> int) list. drop (length h - 16) h"
  obtain xs where "?f (es_compression_history st @ [p]) = xs @ [p]" by (simp add: drop_append)
  moreover obtain ys where "?f (xs @ [p, q]) = ys @ [p, q]"
    by (cases "length xs") (simp_all add: drop_append)
  ultimately have "es_compression_history (record_compression q (record_compression p st)) = ys @ [p, q]"
    by (simp add: record_compression_def compression_history_maxlen_def Let_def)
  then show ?thesis unfolding Let_def by (simp add: drop_last_two)
qed

text \<open>The gate closes for good: outside the always-on mode every call of \<open>compress\<close> hands the list back and
  records that it saved nothing, so after the second call \<open>should_compress\<close> is false at every number of
  prompt tokens, and no later call of \<open>compress\<close> opens it again.\<close>

theorem gate_closes_after_two:
  assumes "\<not> always_on env" "2 \<le> length calls"
  shows "\<not> should_compress env prompt_tokens (run_compress env calls st)
    \<and> snd (compress env messages current_tokens focus_topic (run_compress env calls st)) = Some messages"
proof -
  obtain cs c1 c2 where calls: "calls = cs @ [c1, c2]"
  proof -
    from assms(2) obtain c2 r where "rev calls = c2 # r" "1 \<le> length r" by (cases "rev calls") (auto simp: Suc_le_eq)
    then obtain c1 r' where "rev calls = c2 # c1 # r'" by (cases r) auto
    then have "calls = rev (c2 # c1 # r')" by (metis rev_rev_ident)
    then show thesis using that[of "rev r'" c1 c2] by simp
  qed
  obtain m1 t1 f1 m2 t2 f2 where c: "c1 = (m1, t1, f1)" "c2 = (m2, t2, f2)" by (cases c1; cases c2) auto
  let ?st = "run_compress env cs st"
  obtain n1 where one: "compress env m1 t1 f1 ?st = (record_compression (n1, n1) ?st, Some m1)"
    using compress_off[OF assms(1)] by blast
  obtain n2 where "compress env m2 t2 f2 (record_compression (n1, n1) ?st)
      = (record_compression (n2, n2) (record_compression (n1, n1) ?st), Some m2)"
    using compress_off[OF assms(1)] by blast
  with one have "run_compress env calls st = record_compression (n2, n2) (record_compression (n1, n1) ?st)"
    by (simp add: calls c run_compress_def)
  then have "\<not> should_compress env prompt_tokens (run_compress env calls st)"
    using assms(1) recorded_twice[of "(n2, n2)" "(n1, n1)" ?st]
    by (simp add: should_compress_def ineffective_run_length_def Let_def)
  moreover obtain n where "compress env messages current_tokens focus_topic (run_compress env calls st)
      = (record_compression (n, n) (run_compress env calls st), Some messages)"
    using compress_off[OF assms(1)] by blast
  ultimately show ?thesis by simp
qed

theorem gate_closes_after_two_witness:
  "should_compress sample_engine_env (Some 90) (summarized_state\<lparr>es_threshold_tokens := 80\<rparr>)
   \<and> \<not> should_compress sample_engine_env (Some 90)
      (run_compress sample_engine_env [([], None, None), ([], None, None)] (summarized_state\<lparr>es_threshold_tokens := 80\<rparr>))"
proof -
  have off: "\<not> always_on sample_engine_env" by (simp add: always_on_def sample_engine_env_def)
  moreover have "should_compress sample_engine_env (Some 90) (summarized_state\<lparr>es_threshold_tokens := 80\<rparr>)"
    using off by (simp add: should_compress_def summarized_state_def ineffective_run_length_def)
  ultimately show ?thesis
    using gate_closes_after_two[OF off, of "[([], None, None), ([], None, None)]" "Some 90"] by simp
qed

subsection \<open>A provider that refuses\<close>

type_synonym timed_request = "real \<times> real \<times> compact_request"

definition request_key :: "compact_request \<Rightarrow> string" where
  "request_key rq = resolve_breaker_key (rq_provider rq) (rq_model rq)"

definition run_compact ::
    "engine_env \<Rightarrow> (string \<Rightarrow> nat \<Rightarrow> compact_request \<Rightarrow> core_outcome) \<Rightarrow> timed_request list \<Rightarrow> compact_state \<Rightarrow> compact_state" where
  "run_compact env core calls st = fold (\<lambda>(t_ask, t_done, rq) st. fst (compact env core t_ask t_done rq st)) calls st"

lemma run_compact_simps [simp]:
  "run_compact env core [] st = st"
  "run_compact env core (calls @ [(ta, td, rq)]) st = fst (compact env core ta td rq (run_compact env core calls st))"
  by (simp_all add: run_compact_def)

fun refusal :: "core_outcome \<Rightarrow> bool" where
  "refusal Core_Auth_Error = True"
| "refusal (Core_Result r) = cr_auth_failure r"
| "refusal Core_Error = False"

definition cooldown_of :: "engine_env \<Rightarrow> real" where
  "cooldown_of env = real_of_int (ee_circuit_breaker_cooldown_ms env) / 1000"

definition settled :: "engine_env \<Rightarrow> string \<Rightarrow> compact_state \<Rightarrow> bool" where
  "settled env k st \<longleftrightarrow> cb_inv (circuit_breaker_of env k st)
     \<and> threshold (circuit_breaker_of env k st) = ee_circuit_breaker_threshold env
     \<and> cooldown_s (circuit_breaker_of env k st) = cooldown_of env"

lemma circuit_breaker_of_set [simp]:
  "circuit_breaker_of env k (set_breaker k' b st) = (if k = k' then b else circuit_breaker_of env k st)"
  "circuit_breaker_of env k (st\<lparr>ks_core_calls := c\<rparr>) = circuit_breaker_of env k st"
  "ks_core_calls (set_breaker k' b st) = ks_core_calls st"
  by (simp_all add: circuit_breaker_of_def set_breaker_def)

lemma new_settled: "ks_breakers st k = None \<Longrightarrow> settled env k st \<and> cb_view (circuit_breaker_of env k st) = Counting 0"
  by (simp add: settled_def circuit_breaker_of_def cooldown_of_def)

text \<open>A call for another key leaves the key alone; a call for the key is rejected, or asks the core and records the answer.\<close>

lemma compact_other:
  "request_key rq \<noteq> k \<Longrightarrow> circuit_breaker_of env k (fst (compact env core ta td rq st)) = circuit_breaker_of env k st
    \<and> ks_core_calls (fst (compact env core ta td rq st)) k = ks_core_calls st k"
  by (auto simp: compact_def request_key_def Let_def split: prod.splits core_outcome.splits)

lemma compact_rejected:
  assumes "settled env k st" "cb_view (circuit_breaker_of env k st) = Cooling d" "ta < d" "request_key rq = k"
  shows "circuit_breaker_of env k (fst (compact env core ta td rq st)) = circuit_breaker_of env k st
    \<and> ks_core_calls (fst (compact env core ta td rq st)) k = ks_core_calls st k
    \<and> snd (compact env core ta td rq st) = Some (no_compaction rq False ''circuit breaker open'')"
proof -
  have "fst (is_open ta (circuit_breaker_of env k st))"
    using cb.ask_answer[of "circuit_breaker_of env k st" ta] assms(1-3) by (simp add: settled_def)
  then have "is_open ta (circuit_breaker_of env k st) = (True, circuit_breaker_of env k st)"
    by (auto simp: is_open_def split: option.splits if_splits)
  with assms(4) show ?thesis by (simp add: compact_def request_key_def Let_def)
qed

lemma compact_admitted:
  assumes "settled env k st" "\<not> spec_rejects ta (cb_view (circuit_breaker_of env k st))" "request_key rq = k"
  shows "ks_core_calls (fst (compact env core ta td rq st)) k = ks_core_calls st k + 1
    \<and> (refusal (core k (ks_core_calls st k) rq) \<longrightarrow>
        circuit_breaker_of env k (fst (compact env core ta td rq st)) = cb.run [Ask ta, Fail td] (circuit_breaker_of env k st))"
proof -
  have "\<not> fst (is_open ta (circuit_breaker_of env k st))"
    using cb.ask_answer[of "circuit_breaker_of env k st" ta] assms(1,2) by (simp add: settled_def)
  then obtain b where "is_open ta (circuit_breaker_of env k st) = (False, b)"
    by (cases "is_open ta (circuit_breaker_of env k st)") auto
  with assms(3) show ?thesis
    by (cases "core k (ks_core_calls st k) rq") (auto simp: compact_def request_key_def Let_def)
qed

lemma settled_run: "settled env k st \<Longrightarrow> circuit_breaker_of env k st' = cb.run cs (circuit_breaker_of env k st) \<Longrightarrow> settled env k st'"
  by (simp add: settled_def cb.run_inv)

lemma refused_run:
  assumes "settled env k st" "cb_view (circuit_breaker_of env k st) = Counting 0"
    and "list_all (\<lambda>(ta, td, rq). request_key rq = k) fails" "\<And>n rq. refusal (core k n rq)"
    and "int (length fails) \<le> max 1 (ee_circuit_breaker_threshold env)"
  shows "let st' = run_compact env core fails st in settled env k st' \<and> ks_core_calls st' k = ks_core_calls st k + length fails
    \<and> cb_view (circuit_breaker_of env k st') = (if int (length fails) < max 1 (ee_circuit_breaker_threshold env)
        then Counting (int (length fails)) else Cooling (fst (snd (last fails)) + cooldown_of env))"
  using assms(3,5)
proof (induction fails rule: rev_induct)
  case Nil
  then show ?case using assms(1,2) by simp
next
  case (snoc c fails)
  obtain ta td rq where c: "c = (ta, td, rq)" by (cases c) auto
  let ?st = "run_compact env core fails st"
  let ?st' = "fst (compact env core ta td rq ?st)"
  let ?thr = "ee_circuit_breaker_threshold env"
  have small: "int (length fails) < max 1 ?thr" using snoc.prems by simp
  with snoc have IH: "settled env k ?st" "ks_core_calls ?st k = ks_core_calls st k + length fails"
    "cb_view (circuit_breaker_of env k ?st) = Counting (int (length fails))"
    by (auto simp: Let_def)
  have "request_key rq = k" using snoc.prems(1) by (simp add: c)
  from compact_admitted[OF IH(1) _ this, of ta core td] IH(3) assms(4)
  have step: "ks_core_calls ?st' k = ks_core_calls ?st k + 1"
    "circuit_breaker_of env k ?st' = cb.run [Ask ta, Fail td] (circuit_breaker_of env k ?st)" by simp_all
  have "cb_view (circuit_breaker_of env k ?st') =
      (if ?thr \<le> int (length fails) + 1 then Cooling (td + cooldown_of env) else Counting (int (length fails) + 1))"
    using IH(1,3) unfolding step(2) settled_def by (simp add: cb.run_view[OF conjunct1] del: cb.run_simps)
  then show ?case
    using small IH(2) step(1) settled_run[OF IH(1) step(2)] by (auto simp: c Let_def)
qed

lemma cooling_run:
  assumes "settled env k st" "cb_view (circuit_breaker_of env k st) = Cooling d"
    and "list_all (\<lambda>(ta, td, rq). request_key rq = k \<longrightarrow> ta < d) later"
  shows "let st' = run_compact env core later st in
    settled env k st' \<and> cb_view (circuit_breaker_of env k st') = Cooling d \<and> ks_core_calls st' k = ks_core_calls st k"
  using assms(3)
proof (induction later rule: rev_induct)
  case (snoc c later)
  obtain ta td rq where c: "c = (ta, td, rq)" by (cases c) auto
  let ?st = "run_compact env core later st"
  from snoc have IH: "settled env k ?st" "cb_view (circuit_breaker_of env k ?st) = Cooling d"
    "ks_core_calls ?st k = ks_core_calls st k" by (auto simp: Let_def)
  have "circuit_breaker_of env k (fst (compact env core ta td rq ?st)) = circuit_breaker_of env k ?st
      \<and> ks_core_calls (fst (compact env core ta td rq ?st)) k = ks_core_calls ?st k"
    using compact_other[of rq k env core ta td ?st] compact_rejected[OF IH(1,2), of ta rq core td] snoc.prems
    by (cases "request_key rq = k") (simp_all add: c)
  with IH show ?case by (simp add: c Let_def settled_def)
qed (use assms in simp)

text \<open>C20. A provider that refuses is left alone. When as many calls in a row as the threshold (at least one) end in a
  refusal for a new key, each has reached the core; after that, until the cooldown since the last of
  them is over, calls for that key and for any others leave the core uncalled for it, and each call for it
  answers that the breaker is open; the first call after the cooldown reaches the core again.\<close>

theorem refused_provider_left_alone:
  assumes "ks_breakers st k = None" "list_all (\<lambda>(ta, td, rq). request_key rq = k) fails"
    and "int (length fails) = max 1 (ee_circuit_breaker_threshold env)" "\<And>n rq. refusal (core k n rq)"
    and "deadline = fst (snd (last fails)) + cooldown_of env"
    and "list_all (\<lambda>(ta, td, rq). request_key rq = k \<longrightarrow> ta < deadline) later" "request_key rq = k"
  shows "let st1 = run_compact env core fails st; st2 = run_compact env core later st1; (st3, answer) = compact env core ta td rq st2 in
    ks_core_calls st1 k = ks_core_calls st k + length fails
    \<and> ks_core_calls st2 k = ks_core_calls st1 k
    \<and> (if ta < deadline then ks_core_calls st3 k = ks_core_calls st2 k
          \<and> answer = Some (no_compaction rq False ''circuit breaker open'')
       else ks_core_calls st3 k = ks_core_calls st2 k + 1)"
proof -
  let ?st1 = "run_compact env core fails st"
  let ?st2 = "run_compact env core later ?st1"
  from new_settled[OF assms(1)] have new: "settled env k st" "cb_view (circuit_breaker_of env k st) = Counting 0" by auto
  from refused_run[where core = core, OF new assms(2) assms(4)] assms(3,5) have one: "settled env k ?st1"
    "ks_core_calls ?st1 k = ks_core_calls st k + length fails" "cb_view (circuit_breaker_of env k ?st1) = Cooling deadline"
    by (auto simp: Let_def)
  from cooling_run[OF one(1,3) assms(6), of core] have two: "settled env k ?st2"
    "cb_view (circuit_breaker_of env k ?st2) = Cooling deadline" "ks_core_calls ?st2 k = ks_core_calls ?st1 k"
    by (auto simp: Let_def)
  show ?thesis
    using one(2) two(3) compact_rejected[OF two(1,2) _ assms(7), of ta core td]
      compact_admitted[OF two(1) _ assms(7), of ta core td] two(2)
    by (auto simp: Let_def split: prod.split)
qed

definition sample_compact_request :: compact_request where
  "sample_compact_request = \<lparr>rq_conversation_id = 1, rq_token_budget = 100, rq_current_tokens = 90,
     rq_provider = Some ''p'', rq_model = None\<rparr>"

theorem refused_provider_left_alone_witness:
  "snd (compact sample_engine_env (\<lambda>_ _ _. Core_Auth_Error) 5 5 sample_compact_request
     (run_compact sample_engine_env (\<lambda>_ _ _. Core_Auth_Error)
       [(1, 2, sample_compact_request), (3, 4, sample_compact_request)]
       \<lparr>ks_breakers = (\<lambda>_. None), ks_core_calls = (\<lambda>_. 0)\<rparr>)) =
   Some (no_compaction sample_compact_request False ''circuit breaker open'')"
proof -
  have "int (length [(1, 2, sample_compact_request), (3 :: real, 4 :: real, sample_compact_request)]) =
      max 1 (ee_circuit_breaker_threshold sample_engine_env)" "cooldown_of sample_engine_env = 60"
    by (simp_all add: sample_engine_env_def cooldown_of_def)
  with refused_provider_left_alone[of "\<lparr>ks_breakers = (\<lambda>_. None), ks_core_calls = (\<lambda>_. 0)\<rparr>"
      "request_key sample_compact_request" "[(1, 2, sample_compact_request), (3, 4, sample_compact_request)]"
      sample_engine_env "\<lambda>_ _ _. Core_Auth_Error" 64 "[]" sample_compact_request 5 5]
  show ?thesis by (simp add: Let_def split: prod.splits)
qed

end
