(* ===== verification/Engine_System.thy ===== *)
theory Engine_System
  imports Engine_Compact
begin

text \<open>
  The parts together: a run of the engine is any sequence of hooks, restarts, rewrites of the live
  list, calls of \<open>compress\<close> and compactions, of any sessions and in any order, with a database that
  may be busy at any time and a summarizer that may answer anything. \<open>remembered\<close> is the invariant that
  the program is named after: in every conversation the context covers exactly the messages that were
  stored for it, where a summary covers the messages it was made from. Each kind of event keeps it,
  whether it succeeds or fails, and no event removes or changes a stored message.
\<close>

subsection \<open>Events\<close>

datatype engine_event =
    Hook utext "json list"
  | Restart
  | Rewrite "json list" "int option"
  | Compress "json list" "int option" "utext option"
  | Sweep utext nat int bool bool "string option"
  | Until_Under utext nat int "int option" "int option" "string option"

definition conversation_id_of :: "engine_state \<Rightarrow> utext \<Rightarrow> int option" where
  "conversation_id_of st s =
     map_option cv_conversation_id (get_conversation_by_session_id (ig_conversations (es_ingest st)) s)"

definition set_db :: "lcm_db \<Rightarrow> engine_state \<Rightarrow> engine_state" where
  "set_db db = update_ingest (\<lambda>i. i\<lparr>ig_db := db\<rparr>)"

text \<open>A compaction of the session's conversation; it may fail half-way and then leaves what it did so far.\<close>

definition compact_session :: "(int \<Rightarrow> lcm_db \<Rightarrow> (lcm_db \<times> nat \<times> 'r) option) \<Rightarrow> utext \<Rightarrow> engine_state \<Rightarrow> engine_state" where
  "compact_session sweep s st = (case conversation_id_of st s of
     None \<Rightarrow> st
   | Some c \<Rightarrow> (case sweep c (ig_db (es_ingest st)) of
       Some (db, _) \<Rightarrow> set_db db st
     | None \<Rightarrow> st))"

fun run_event ::
    "engine_env \<Rightarrow> compaction_config \<Rightarrow> compaction_env \<Rightarrow> engine_event \<Rightarrow> engine_state \<Rightarrow> engine_state" where
  "run_event env cfg cenv (Hook s history) st =
     update_ingest (do_ingest_history_diff (ee_ingest env) s history) st"
| "run_event env cfg cenv Restart st = update_ingest restart st"
| "run_event env cfg cenv (Rewrite messages budget) st = fst (preassemble env messages budget st)"
| "run_event env cfg cenv (Compress messages current_tokens topic) st = fst (compress env messages current_tokens topic st)"
| "run_event env cfg cenv (Sweep s tick budget force hard model) st =
     compact_session (\<lambda>c. compact_full_sweep cfg cenv tick c budget force hard model) s st"
| "run_event env cfg cenv (Until_Under s tick budget target current model) st =
     compact_session (\<lambda>c. compact_until_under cfg cenv tick c budget target current model) s st"

definition run_events ::
    "engine_env \<Rightarrow> compaction_config \<Rightarrow> compaction_env \<Rightarrow> engine_event list \<Rightarrow> engine_state \<Rightarrow> engine_state" where
  "run_events env cfg cenv events st = fold (run_event env cfg cenv) events st"

subsection \<open>The invariant\<close>

definition message_ids :: "lcm_db \<Rightarrow> int \<Rightarrow> int set" where
  "message_ids db c = mr_message_id ` {m \<in> set (db_messages db). mr_conversation_id m = c}"

definition remembered :: "lcm_db \<Rightarrow> bool" where
  "remembered db \<longleftrightarrow> wf_db db \<and> (\<forall>c. covered db c = message_ids db c)"

definition keeps :: "lcm_db \<Rightarrow> lcm_db \<Rightarrow> bool" where
  "keeps db db' \<longleftrightarrow> (remembered db \<longrightarrow> remembered db' \<and> prefix (db_messages db) (db_messages db'))"

lemma keeps_refl [simp]: "keeps db db"
  by (simp add: keeps_def)

lemma keeps_trans: "keeps db db1 \<Longrightarrow> keeps db1 db2 \<Longrightarrow> keeps db db2"
  by (auto simp: keeps_def intro: prefix_order.trans)

lemma lossless_keeps: "lossless cfg c db db' \<Longrightarrow> keeps db db'"
  by (auto simp: keeps_def remembered_def lossless_def message_ids_def)

subsection \<open>Storing a message\<close>

lemma wf_insert_message_part:
  assumes "wf_db db" "insert_message_part p db = Inr db'"
  shows "wf_db db' \<and> db' = db\<lparr>db_message_parts := db_message_parts db @ [p]\<rparr>"
proof -
  have db': "db' = db\<lparr>db_message_parts := db_message_parts db @ [p]\<rparr>" and new: "ref_exists db (Msg (mp_message_id p))"
    "\<not> list_ex (\<lambda>q. mp_part_id q = mp_part_id p
       \<or> mp_message_id q = mp_message_id p \<and> mp_ordinal q = mp_ordinal p) (db_message_parts db)"
    using assms(2) by (auto simp: insert_message_part_def split: if_splits)
  have "wf_db (db\<lparr>db_message_parts := db_message_parts db @ [p]\<rparr>)"
  proof (rule wf_add_parts[OF assms(1)])
    show "list_all (\<lambda>p. ref_exists db (Msg (mp_message_id p))) [p]" using new(1) by simp
    show "distinct (map mp_part_id (db_message_parts db @ [p]))"
      "distinct (map (\<lambda>p. (mp_message_id p, mp_ordinal p)) (db_message_parts db @ [p]))"
      using assms(1) new(2) by (auto simp: wf_db_def list_ex_iff)
  qed
  with db' show ?thesis by simp
qed

definition parts_only :: "lcm_db \<Rightarrow> lcm_db \<Rightarrow> bool" where
  "parts_only db db' \<longleftrightarrow> wf_db db' \<and> (\<exists>ps. db' = db\<lparr>db_message_parts := ps\<rparr>)"

lemma create_parts_effect:
  assumes "wf_db db" "create_message_parts uuids mid parts db = Inr db'"
  shows "parts_only db db'"
proof (cases "parts = []")
  case True
  then show ?thesis using assms by (auto simp: create_message_parts_def parts_only_def intro!: exI[of _ "db_message_parts db"])
next
  case False
  then have "foldE insert_message_part (map (part_row uuids mid) (enumerate 0 parts)) db = Inr db'"
    using assms(2) by (simp add: create_message_parts_def)
  then show ?thesis
  proof (rule foldE_invariant)
    show "parts_only db db" using assms(1) by (auto simp: parts_only_def intro!: exI[of _ "db_message_parts db"])
    show "parts_only db d'" if "parts_only db d" "insert_message_part p d = Inr d'" for p d d'
      using that wf_insert_message_part[of d p d'] by (auto simp: parts_only_def)
  qed
qed

lemma persist_effect:
  assumes wf: "wf_db db" and run: "persist_message env t c s m db = Inr (True, db')"
  shows "\<exists>rec. mr_conversation_id rec = c \<and> mr_message_id rec = db_next_message_id db \<and> wf_db db'
    \<and> db_messages db' = db_messages db @ [rec] \<and> db_summary_messages db' = db_summary_messages db
    \<and> db_summary_parents db' = db_summary_parents db
    \<and> context_refs db' c = context_refs db c @ [Msg (mr_message_id rec)]
    \<and> (\<forall>c'. c' \<noteq> c \<longrightarrow> context_refs db' c' = context_refs db c')"
proof -
  obtain role content where id: "identity_of (ie_codec env) m = (role, content)" by fastforce
  let ?inp = "\<lparr>cm_conversation_id = c, cm_seq = get_max_seq db c + 1, cm_role = role, cm_content = content,
    cm_token_count = estimate_tokens content, cm_identity_hash = None\<rparr>"
  from run obtain rec db1 db2 where steps: "create_message (ie_digest env) (ie_now env t) ?inp db = Inr (rec, db1)"
    "create_message_parts (ie_part_id env t) (mr_message_id rec) (build_message_parts (ie_codec env) s m content) db1 = Inr db2"
    "append_context_message c (mr_message_id rec) db2 = Inr db'"
    by (auto simp: persist_message_def id Let_def split: sum.splits db_error.splits)
  have wf1: "wf_db db1" by (rule wf_create_message[OF wf steps(1)])
  have rec: "mr_conversation_id rec = c" "mr_message_id rec = db_next_message_id db"
    and db1: "db1 = db\<lparr>db_messages := db_messages db @ [rec], db_next_message_id := db_next_message_id db + 1\<rparr>"
    using steps(1) by (auto simp: create_message_def message_of_input_def Let_def split: if_splits)
  obtain ps where db2: "db2 = db1\<lparr>db_message_parts := ps\<rparr>" and wf2: "wf_db db2"
    using create_parts_effect[OF wf1 steps(2)] by (auto simp: parts_only_def)
  have refs: "context_refs db2 = context_refs db"
    by (simp add: context_refs_def get_context_items_def context_rows_def db2 db1 fun_eq_iff)
  have "ref_exists db2 (Msg (mr_message_id rec))" by (simp add: db2 db1)
  from append_message_ok[OF wf2 this, of c] steps(3) have app: "wf_db db'" "db_messages db' = db_messages db2"
    "context_refs db' c = context_refs db2 c @ [Msg (mr_message_id rec)]"
    "\<forall>c'. c' \<noteq> c \<longrightarrow> context_refs db' c' = context_refs db2 c'" by auto
  moreover have "db_summary_messages db' = db_summary_messages db2" "db_summary_parents db' = db_summary_parents db2"
    using steps(3) by (auto simp: append_context_message_def insert_context_item_def split: if_splits)
  ultimately show ?thesis using rec by (intro exI[of _ rec]) (simp add: refs, simp add: db2 db1)
qed

lemma covers_links:
  assumes "db_summary_messages db' = db_summary_messages db" "db_summary_parents db' = db_summary_parents db"
  shows "covers db' r m = covers db r m"
proof -
  have links: "message_links db' = message_links db" "parent_links db' = parent_links db"
    using assms by (simp_all add: message_links_def parent_links_def)
  have "covers d r m \<Longrightarrow> message_links d' = message_links d \<Longrightarrow> parent_links d' = parent_links d \<Longrightarrow> covers d' r m" for d d'
    by (induction rule: covers.induct) (auto intro: covers.intros)
  with links show ?thesis by metis
qed

lemma persist_keeps:
  assumes "persist_message env t c s m db = Inr (ok, db')"
  shows "keeps db db'"
proof (cases ok)
  case False
  then have "db' = db"
    using assms by (auto simp: persist_message_def Let_def split: prod.splits sum.splits db_error.splits)
  then show ?thesis by simp
next
  case True
  show ?thesis unfolding keeps_def
  proof
    assume old: "remembered db"
    then have "wf_db db" by (simp add: remembered_def)
    moreover have "persist_message env t c s m db = Inr (True, db')" using assms True by simp
    ultimately obtain rec where
      rec: "mr_conversation_id rec = c" "wf_db db'" "db_messages db' = db_messages db @ [rec]"
        "db_summary_messages db' = db_summary_messages db" "db_summary_parents db' = db_summary_parents db"
        "context_refs db' c = context_refs db c @ [Msg (mr_message_id rec)]"
        "\<And>c'. c' \<noteq> c \<Longrightarrow> context_refs db' c' = context_refs db c'"
      using persist_effect by blast
    have "covered db' c' = message_ids db' c'" for c'
    proof (cases "c' = c")
      case True
      have "covered db' c = insert (mr_message_id rec) (covered db c)"
        by (auto simp: covered_def rec(6) covers_links[OF rec(4,5)])
      moreover have "message_ids db' c = insert (mr_message_id rec) (message_ids db c)"
        using rec(1) by (auto simp: message_ids_def rec(3))
      ultimately show ?thesis using old True by (simp add: remembered_def)
    next
      case False
      have "covered db' c' = covered db c'" by (simp add: covered_def rec(7)[OF False] covers_links[OF rec(4,5)])
      moreover have "message_ids db' c' = message_ids db c'"
        using rec(1) False by (auto simp: message_ids_def rec(3))
      ultimately show ?thesis using old by (simp add: remembered_def)
    qed
    then show "remembered db' \<and> prefix (db_messages db) (db_messages db')"
      using rec(2,3) by (simp add: remembered_def)
  qed
qed

subsection \<open>Every event\<close>

lemma single_keeps: "ingest_single env s m key st = (st', r) \<Longrightarrow> keeps (ig_db st) (ig_db st')"
  by (auto simp: ingest_single_def Let_def split: if_splits sum.splits prod.splits dest!: persist_keeps)

lemma batch_keeps: "ingest_batch env s key ms st = (st', n) \<Longrightarrow> keeps (ig_db st) (ig_db st')"
proof (induction ms arbitrary: st n)
  case (Cons m ms)
  then show ?case by (auto split: prod.splits dest!: single_keeps intro: keeps_trans)
qed simp

lemma diff_keeps: "keeps (ig_db st) (ig_db (do_ingest_history_diff env s h st))"
proof -
  have "ig_db (reconcile_ingest_cursor env s h st) = ig_db st" for st
    by (auto simp: reconcile_ingest_cursor_def Let_def split: option.split prod.split)
  then show ?thesis
    by (auto simp: do_ingest_history_diff_def Let_def split: prod.split dest!: batch_keeps)
qed

lemma compact_session_keeps:
  assumes "\<And>c db. remembered db \<Longrightarrow> \<exists>db' t r. sweep c db = Some (db', t, r) \<and> lossless cfg c db db'"
  shows "keeps (ig_db (es_ingest st)) (ig_db (es_ingest (compact_session sweep s st)))"
proof (cases "remembered (ig_db (es_ingest st))")
  case True
  show ?thesis
  proof (cases "conversation_id_of st s")
    case (Some c)
    from assms[OF True, of c] obtain db' t r where "sweep c (ig_db (es_ingest st)) = Some (db', t, r)"
      "lossless cfg c (ig_db (es_ingest st)) db'" by blast
    with Some show ?thesis by (simp add: compact_session_def set_db_def update_ingest_def lossless_keeps)
  qed (simp add: compact_session_def)
qed (simp add: keeps_def)

lemma rewrite_db: "ig_db (es_ingest (fst (preassemble env messages budget st))) = ig_db (es_ingest st)"
proof -
  obtain st' out where "preassemble env messages budget st = (st', out)" by fastforce
  from preassemble_cases[OF this refl] this show ?thesis by auto
qed

lemma compress_db: "ig_db (es_ingest (fst (compress env messages current_tokens topic st))) = ig_db (es_ingest st)"
proof -
  obtain st1 r where run: "assemble_with_signal env (infer_session_id messages) messages
      (compress_budget current_tokens st) topic st = (st1, r)" by fastforce
  with assemble_with_signal_cases[OF run] show ?thesis
    by (auto simp: compress_def update_ingest_def record_compression_def Let_def split: option.split)
qed

lemma event_keeps: "keeps (ig_db (es_ingest st)) (ig_db (es_ingest (run_event env cfg cenv e st)))"
proof (cases e)
  case (Sweep s tick budget force hard model)
  have "keeps (ig_db (es_ingest st)) (ig_db (es_ingest
      (compact_session (\<lambda>c. compact_full_sweep cfg cenv tick c budget force hard model) s st)))"
  proof (rule compact_session_keeps[where cfg = cfg])
    fix c db assume "remembered db"
    then have "wf_db db" by (simp add: remembered_def)
    from full_sweep_cases[OF this, of cfg cenv tick c budget force hard model]
    show "\<exists>db' t r. compact_full_sweep cfg cenv tick c budget force hard model db = Some (db', t, r) \<and> lossless cfg c db db'"
      by blast
  qed
  with Sweep show ?thesis by simp
next
  case (Until_Under s tick budget target current model)
  have "keeps (ig_db (es_ingest st)) (ig_db (es_ingest
      (compact_session (\<lambda>c. compact_until_under cfg cenv tick c budget target current model) s st)))"
  proof (rule compact_session_keeps[where cfg = cfg])
    fix c db assume "remembered db"
    then have "wf_db db" by (simp add: remembered_def)
    from until_under_cases[OF this refl, where cfg = cfg and env = cenv and tick = tick and c = c and budget = budget
        and target_tokens = target and current_tokens = current and model = model]
    show "\<exists>db' t r. compact_until_under cfg cenv tick c budget target current model db = Some (db', t, r) \<and> lossless cfg c db db'"
      by blast
  qed
  with Until_Under show ?thesis by simp
qed (simp_all add: update_ingest_def diff_keeps rewrite_db compress_db)

lemma events_keep: "keeps (ig_db (es_ingest st)) (ig_db (es_ingest (run_events env cfg cenv events st)))"
proof (induction events arbitrary: st)
  case (Cons e events)
  show ?case using keeps_trans[OF event_keeps Cons.IH] by (simp add: run_events_def)
qed (simp add: run_events_def)

text \<open>C1. Nothing that was stored is lost. From a state whose contexts cover exactly the stored messages, such as an
  empty database, every run of the engine leads to such a state, in which every message that was stored
  before is still stored as it was: whatever histories the hooks bring and whenever the database is
  busy, the process restarts, the live list is rewritten, or a compaction with any configuration and
  any answers of the summarizer runs, succeeds or fails.\<close>

theorem nothing_stored_is_lost:
  assumes "wf_db (ig_db (es_ingest st))" "\<And>c. covered (ig_db (es_ingest st)) c = message_ids (ig_db (es_ingest st)) c"
  shows "let db = ig_db (es_ingest st); db' = ig_db (es_ingest (run_events env cfg cenv events st)) in
    wf_db db' \<and> covered db' c = message_ids db' c \<and> prefix (db_messages db) (db_messages db')"
  using events_keep[of st env cfg cenv events] assms by (simp add: keeps_def remembered_def Let_def)

definition stored_state :: engine_state where
  "stored_state = set_db sample_db summarized_state"

theorem nothing_stored_is_lost_witness:
  "let db' = ig_db (es_ingest (run_events sample_engine_env small_config (echo_env (Reply [97]))
      [Hook (cps ''s'') [sample_user [98]], Sweep (cps ''s'') 0 20 True False None, Restart,
       Rewrite [live_turn] None, Until_Under (cps ''s'') 5 20 None None None] stored_state)) in
    covered db' 1 = message_ids db' 1 \<and> {1, 2, 3, 4} \<subseteq> covered db' 1"
proof -
  have db: "ig_db (es_ingest stored_state) = sample_db" by (simp add: stored_state_def set_db_def update_ingest_def)
  have "context_refs sample_db c = (if c = 1 then map Msg [1, 2, 3, 4] else [])" for c
    using sample_db_items by (simp add: context_refs_def) (simp add: get_context_items_def context_rows_def sample_db_def)
  then have "covered sample_db c = (if c = 1 then {1, 2, 3, 4} else {})" for c by (auto simp: covered_def)
  moreover have ids: "message_ids sample_db c = (if c = 1 then {1, 2, 3, 4} else {})" for c
  proof -
    have "message_ids sample_db c = set (map mr_message_id (filter (\<lambda>m. mr_conversation_id m = c) (db_messages sample_db)))"
      by (simp add: message_ids_def)
    then show ?thesis by (simp add: sample_db_def empty_db_def Context_Store.sample_message_def)
  qed
  ultimately have cov: "covered sample_db c = message_ids sample_db c" for c by simp
  from nothing_stored_is_lost[of stored_state, unfolded db, OF sample_db_wf cov]
  have run: "let db' = ig_db (es_ingest (run_events env cfg cenv events stored_state)) in
    covered db' 1 = message_ids db' 1 \<and> prefix (db_messages sample_db) (db_messages db')" for env cfg cenv events
    by (auto simp: Let_def)
  have "message_ids sample_db 1 \<subseteq> message_ids db' 1" if "prefix (db_messages sample_db) (db_messages db')" for db'
    using set_mono_prefix[OF that] by (auto simp: message_ids_def)
  with ids[of 1] run show ?thesis by (simp add: Let_def)
qed

end
