(* ===== verification/Session_Locks.thy ===== *)
theory Session_Locks
  imports Lcm_Prelude
begin

text \<open>
  The per-session locks (\<open>engine/session_locks.py\<close>): a dict from session ids to records with a lock and a
  reference count, guarded by a lock of its own. A caller counts itself in, takes the lock of the
  record, runs its body, gives the lock back and counts itself out; records that nobody uses are
  deleted, but only once the dict has grown past a mark.

  The two halves of the class are twins, one for threads and one for asyncio tasks; the model is of one
  half. Each method that holds the dict lock is one function here (\<open>acquire_record\<close>, \<open>release_record\<close>,
  \<open>prune\<close>). The records live at addresses, so that a record that was deleted and one that
  was created anew under the same id are two records with two locks: that is what could go wrong.

  \<open>lock_step\<close> interleaves any number of callers. A caller that is cancelled while it waits for the lock
  leaves by the same way (\<open>Give_Up\<close>). Which waiting caller enters next is left open, and so nothing here
  depends on the fairness of the locks. The sections under the dict lock never wait, so a task cannot
  be cancelled inside one.

  The properties: two callers never run in the body for the same session, whatever is pruned in
  between; a caller that waits can enter or somebody is in the body; and the dict has at most as
  many unused records as the mark allows.
\<close>

subsection \<open>The registry\<close>

record 'p lock_record =
  lr_holder :: "'p option"
  lr_refcount :: int

record 'p registry =
  rg_records :: "(utext \<times> nat) list"
  rg_heap :: "nat \<Rightarrow> 'p lock_record"
  rg_next :: nat
  rg_high_water_mark :: nat

definition default_high_water_mark :: nat where "default_high_water_mark = 50"

definition new_registry :: "nat \<Rightarrow> 'p registry" where
  "new_registry mark = \<lparr>rg_records = [], rg_heap = (\<lambda>_. \<lparr>lr_holder = None, lr_refcount = 0\<rparr>), rg_next = 0,
     rg_high_water_mark = mark\<rparr>"

definition add_refs :: "nat \<Rightarrow> int \<Rightarrow> 'p registry \<Rightarrow> 'p registry" where
  "add_refs a n rg = rg\<lparr>rg_heap := (rg_heap rg)(a := (rg_heap rg a)\<lparr>lr_refcount := lr_refcount (rg_heap rg a) + n\<rparr>)\<rparr>"

definition set_holder :: "nat \<Rightarrow> 'p option \<Rightarrow> 'p registry \<Rightarrow> 'p registry" where
  "set_holder a h rg = rg\<lparr>rg_heap := (rg_heap rg)(a := (rg_heap rg a)\<lparr>lr_holder := h\<rparr>)\<rparr>"

definition acquire_record :: "utext \<Rightarrow> 'p registry \<Rightarrow> 'p registry \<times> nat" where
  "acquire_record session_id rg =
     (case map_of (rg_records rg) session_id of
        Some a \<Rightarrow> (add_refs a 1 rg, a)
      | None \<Rightarrow>
          let a = rg_next rg;
              rg1 = rg\<lparr>rg_records := rg_records rg @ [(session_id, a)], rg_next := a + 1,
                rg_heap := (rg_heap rg)(a := \<lparr>lr_holder = None, lr_refcount = 0\<rparr>)\<rparr> in
          (add_refs a 1 rg1, a))"

definition prune_locked :: "'p registry \<Rightarrow> 'p registry \<times> nat" where
  "prune_locked rg =
     (let unused = filter (\<lambda>(k, a). lr_refcount (rg_heap rg a) = 0) (rg_records rg) in
      (rg\<lparr>rg_records := filter (\<lambda>(k, a). lr_refcount (rg_heap rg a) \<noteq> 0) (rg_records rg)\<rparr>, length unused))"

definition release_record :: "utext \<Rightarrow> 'p registry \<Rightarrow> 'p registry" where
  "release_record session_id rg =
     (let rg1 = (case map_of (rg_records rg) session_id of Some a \<Rightarrow> add_refs a (- 1) rg | None \<Rightarrow> rg) in
      if rg_high_water_mark rg1 < length (rg_records rg1) then fst (prune_locked rg1) else rg1)"

definition prune :: "'p registry \<Rightarrow> 'p registry \<times> nat" where
  "prune rg = prune_locked rg"

definition pending_count :: "'p registry \<Rightarrow> nat" where
  "pending_count rg = length (rg_records rg)"

subsection \<open>Callers\<close>

text \<open>Where a caller of \<open>acquire(session_id)\<close> is: outside, counted in and waiting for the lock of the record
  at an address, in the body, or past it with the lock given back.\<close>

datatype caller = Outside | Waiting utext nat | Inside utext nat | Leaving utext nat

fun placed :: "caller \<Rightarrow> (utext \<times> nat) option" where
  "placed Outside = None"
| "placed (Waiting s a) = Some (s, a)"
| "placed (Inside s a) = Some (s, a)"
| "placed (Leaving s a) = Some (s, a)"

record 'p locks_state =
  ls_registry :: "'p registry"
  ls_callers :: "'p \<Rightarrow> caller"

definition move :: "'p \<Rightarrow> caller \<Rightarrow> 'p registry \<Rightarrow> 'p locks_state \<Rightarrow> 'p locks_state" where
  "move p c rg st = \<lparr>ls_registry = rg, ls_callers = (ls_callers st)(p := c)\<rparr>"

inductive lock_step :: "'p locks_state \<Rightarrow> 'p locks_state \<Rightarrow> bool" where
  Count_In: "ls_callers st p = Outside \<Longrightarrow> acquire_record s (ls_registry st) = (rg, a) \<Longrightarrow>
     lock_step st (move p (Waiting s a) rg st)"
| Enter: "ls_callers st p = Waiting s a \<Longrightarrow> lr_holder (rg_heap (ls_registry st) a) = None \<Longrightarrow>
     lock_step st (move p (Inside s a) (set_holder a (Some p) (ls_registry st)) st)"
| Give_Up: "ls_callers st p = Waiting s a \<Longrightarrow> lock_step st (move p (Leaving s a) (ls_registry st) st)"
| Leave: "ls_callers st p = Inside s a \<Longrightarrow>
     lock_step st (move p (Leaving s a) (set_holder a None (ls_registry st)) st)"
| Count_Out: "ls_callers st p = Leaving s a \<Longrightarrow>
     lock_step st (move p Outside (release_record s (ls_registry st)) st)"
| Prune: "lock_step st (st\<lparr>ls_registry := fst (prune (ls_registry st))\<rparr>)"

inductive_cases lock_stepE: "lock_step st st'"

inductive reachable :: "nat \<Rightarrow> 'p locks_state \<Rightarrow> bool" for mark where
  Start: "reachable mark \<lparr>ls_registry = new_registry mark, ls_callers = (\<lambda>_. Outside)\<rparr>"
| Step: "reachable mark st \<Longrightarrow> lock_step st st' \<Longrightarrow> reachable mark st'"

subsection \<open>The invariant\<close>

definition users :: "('p \<Rightarrow> caller) \<Rightarrow> utext \<times> nat \<Rightarrow> 'p set" where
  "users cs x = {p. placed (cs p) = Some x}"

definition unused :: "'p registry \<Rightarrow> (utext \<times> nat) list" where
  "unused rg = filter (\<lambda>x. lr_refcount (rg_heap rg (snd x)) = 0) (rg_records rg)"

definition locks_inv :: "nat \<Rightarrow> 'p locks_state \<Rightarrow> bool" where
  "locks_inv mark st \<longleftrightarrow> (let rg = ls_registry st; cs = ls_callers st in
     rg_high_water_mark rg = mark
   \<and> distinct (map fst (rg_records rg)) \<and> distinct (map snd (rg_records rg))
   \<and> (\<forall>x \<in> set (rg_records rg). snd x < rg_next rg)
   \<and> finite {p. cs p \<noteq> Outside}
   \<and> (\<forall>p x. placed (cs p) = Some x \<longrightarrow> x \<in> set (rg_records rg))
   \<and> (\<forall>x \<in> set (rg_records rg). lr_refcount (rg_heap rg (snd x)) = int (card (users cs x)))
   \<and> (\<forall>a p. lr_holder (rg_heap rg a) = Some p \<longleftrightarrow> (\<exists>s. cs p = Inside s a)))"

lemma locks_invI:
  assumes "rg_high_water_mark rg = mark" "distinct (map fst (rg_records rg))" "distinct (map snd (rg_records rg))"
    "\<And>x. x \<in> set (rg_records rg) \<Longrightarrow> snd x < rg_next rg" "finite {p. cs p \<noteq> Outside}"
    "\<And>p x. placed (cs p) = Some x \<Longrightarrow> x \<in> set (rg_records rg)"
    "\<And>x. x \<in> set (rg_records rg) \<Longrightarrow> lr_refcount (rg_heap rg (snd x)) = int (card (users cs x))"
    "\<And>a p. lr_holder (rg_heap rg a) = Some p \<longleftrightarrow> (\<exists>s. cs p = Inside s a)"
  shows "locks_inv mark \<lparr>ls_registry = rg, ls_callers = cs\<rparr>"
  using assms by (simp add: locks_inv_def)

lemma locks_invD:
  assumes "locks_inv mark st"
  shows "rg_high_water_mark (ls_registry st) = mark" "distinct (map fst (rg_records (ls_registry st)))" "distinct (map snd (rg_records (ls_registry st)))"
    "x \<in> set (rg_records (ls_registry st)) \<Longrightarrow> snd x < rg_next (ls_registry st)" "finite {p. ls_callers st p \<noteq> Outside}"
    "placed (ls_callers st p) = Some x \<Longrightarrow> x \<in> set (rg_records (ls_registry st))"
    "x \<in> set (rg_records (ls_registry st)) \<Longrightarrow>
       lr_refcount (rg_heap (ls_registry st) (snd x)) = int (card (users (ls_callers st) x))"
    "lr_holder (rg_heap (ls_registry st) a) = Some p \<longleftrightarrow> (\<exists>s. ls_callers st p = Inside s a)"
  using assms by (simp_all add: locks_inv_def Let_def del: split_paired_All)

lemma users_upd: "users (cs(p := c)) x = (if placed c = Some x then insert p (users cs x) else users cs x - {p})"
  by (auto simp: users_def)

lemma finite_users: "finite {p. cs p \<noteq> Outside} \<Longrightarrow> finite (users cs x)"
  by (rule finite_subset[of _ "{p. cs p \<noteq> Outside}"]) (auto simp: users_def)

lemma finite_busy_upd: "finite {p. cs p \<noteq> Outside} \<Longrightarrow> finite {p. (cs(q := c)) p \<noteq> Outside}"
  by (rule finite_subset[of _ "insert q {p. cs p \<noteq> Outside}"]) auto

text \<open>A step that moves a caller within its record changes only the holder.\<close>

lemma users_moved: "placed c = placed (cs p) \<Longrightarrow> users (cs(p := c)) = users cs"
  by (auto simp: users_def fun_eq_iff)

lemma set_holder_fields [simp]:
  "rg_records (set_holder a h rg) = rg_records rg" "rg_next (set_holder a h rg) = rg_next rg"
  "rg_high_water_mark (set_holder a h rg) = rg_high_water_mark rg"
  "lr_refcount (rg_heap (set_holder a h rg) b) = lr_refcount (rg_heap rg b)"
  "lr_holder (rg_heap (set_holder a h rg) b) = (if b = a then h else lr_holder (rg_heap rg b))"
  by (simp_all add: set_holder_def)

lemma unused_set_holder [simp]: "unused (set_holder a h rg) = unused rg"
  by (simp add: unused_def)

lemma add_refs_fields [simp]:
  "rg_records (add_refs a n rg) = rg_records rg" "rg_next (add_refs a n rg) = rg_next rg"
  "rg_high_water_mark (add_refs a n rg) = rg_high_water_mark rg"
  "lr_refcount (rg_heap (add_refs a n rg) b) = lr_refcount (rg_heap rg b) + (if b = a then n else 0)"
  "lr_holder (rg_heap (add_refs a n rg) b) = lr_holder (rg_heap rg b)"
  by (simp_all add: add_refs_def)

lemma moved_inv:
  assumes inv: "locks_inv mark st" and placed: "placed c = placed (ls_callers st p)"
    and rg: "rg_records rg = rg_records (ls_registry st)" "rg_next rg = rg_next (ls_registry st)"
      "rg_high_water_mark rg = rg_high_water_mark (ls_registry st)"
      "\<And>b. lr_refcount (rg_heap rg b) = lr_refcount (rg_heap (ls_registry st) b)"
    and holder: "\<And>a q. lr_holder (rg_heap rg a) = Some q \<longleftrightarrow> (\<exists>s. ((ls_callers st)(p := c)) q = Inside s a)"
  shows "locks_inv mark (move p c rg st)"
  unfolding move_def
  using locks_invD[OF inv] holder placed
  by (intro locks_invI finite_busy_upd) (auto simp: rg users_moved split: if_splits)

lemma distinct_map_same_key: "distinct (map fst xs) \<Longrightarrow> (k, a) \<in> set xs \<Longrightarrow> (k, b) \<in> set xs \<Longrightarrow> a = b"
  by (meson eq_key_imp_eq_value)

lemma same_address:
  assumes "locks_inv mark st" "x \<in> set (rg_records (ls_registry st))" "y \<in> set (rg_records (ls_registry st))" "snd x = snd y"
  shows "x = y"
  using locks_invD(3)[OF assms(1)] assms(2-4) by (metis distinct_map inj_onD)

lemma count_in_inv:
  assumes inv: "locks_inv mark st" and p: "ls_callers st p = Outside"
    and acq: "acquire_record s (ls_registry st) = (rg, a)"
  shows "locks_inv mark (move p (Waiting s a) rg st) \<and> length (unused rg) \<le> length (unused (ls_registry st))"
proof (cases "map_of (rg_records (ls_registry st)) s")
  case (Some b)
  then have rg: "rg = add_refs a 1 (ls_registry st)" "b = a" using acq by (auto simp: acquire_record_def)
  have mem: "(s, a) \<in> set (rg_records (ls_registry st))" using Some rg(2) by (simp add: map_of_SomeD)
  have only: "snd x = a \<longleftrightarrow> x = (s, a)" if "x \<in> set (rg_records (ls_registry st))" for x
    using same_address[OF inv that mem] by (metis snd_conv)
  have "p \<notin> users (ls_callers st) x" for x by (simp add: users_def p)
  then have card: "card (users ((ls_callers st)(p := Waiting s a)) x) = card (users (ls_callers st) x) + (if x = (s, a) then 1 else 0)" for x
    using finite_users[OF locks_invD(5)[OF inv]] by (auto simp: users_upd)
  have "unused rg = filter (\<lambda>x. x \<noteq> (s, a)) (unused (ls_registry st))"
    using only locks_invD(7)[OF inv] by (auto simp: unused_def rg filter_filter intro!: filter_cong)
  then have "length (unused rg) \<le> length (unused (ls_registry st))" by (simp only: length_filter_le)
  moreover have "locks_inv mark (move p (Waiting s a) rg st)"
    unfolding move_def using locks_invD[OF inv] mem only card
    by (intro locks_invI finite_busy_upd) (auto simp: rg p split: if_splits)
  ultimately show ?thesis by blast
next
  case None
  let ?rg = "ls_registry st"
  have a: "a = rg_next ?rg" and rg: "rg_records rg = rg_records ?rg @ [(s, a)]" "rg_next rg = a + 1"
    "rg_high_water_mark rg = rg_high_water_mark ?rg"
    "\<And>b. rg_heap rg b = (if b = a then \<lparr>lr_holder = None, lr_refcount = 1\<rparr> else rg_heap ?rg b)"
    using acq None by (auto simp: acquire_record_def Let_def add_refs_def)
  have fresh: "x \<in> set (rg_records ?rg) \<Longrightarrow> snd x < a" for x using locks_invD(4)[OF inv] a by simp
  then have notin: "(s', a) \<notin> set (rg_records ?rg)" "a \<notin> snd ` set (rg_records ?rg)" for s' by fastforce+
  have "p \<notin> users (ls_callers st) x" for x by (simp add: users_def p)
  moreover have "users (ls_callers st) (s, a) = {}"
    using locks_invD(6)[OF inv] notin by (auto simp: users_def)
  ultimately have "card (users ((ls_callers st)(p := Waiting s a)) x) = (if x = (s, a) then 1 else card (users (ls_callers st) x))" for x
    by (auto simp: users_upd)
  moreover have "ls_callers st q \<noteq> Inside s' a" for q s'
    using locks_invD(6)[OF inv, of q "(s', a)"] notin by auto
  moreover have "s \<notin> fst ` set (rg_records ?rg)" using None by (simp add: map_of_eq_None_iff)
  ultimately have "locks_inv mark (move p (Waiting s a) rg st)"
    unfolding move_def using locks_invD[OF inv] notin
    by (intro locks_invI finite_busy_upd) (auto simp: rg p dest: fresh split: if_splits)
  moreover have "unused rg = unused ?rg"
    using fresh by (auto simp: unused_def rg intro!: filter_cong)
  ultimately show ?thesis by simp
qed

lemma prune_inv:
  assumes "locks_inv mark st"
  shows "locks_inv mark (st\<lparr>ls_registry := fst (prune_locked (ls_registry st))\<rparr>) \<and> unused (fst (prune_locked (ls_registry st))) = []"
proof -
  have "users (ls_callers st) x \<noteq> {}" if "placed (ls_callers st p) = Some x" for p x
    using that by (auto simp: users_def)
  then have "lr_refcount (rg_heap (ls_registry st) (snd x)) \<noteq> 0" if "placed (ls_callers st p) = Some x" for p x
    using that locks_invD(6,7)[OF assms] finite_users[OF locks_invD(5)[OF assms]] by (metis card_0_eq of_nat_eq_0_iff)
  then have "locks_inv mark \<lparr>ls_registry = fst (prune_locked (ls_registry st)), ls_callers = ls_callers st\<rparr>"
    using locks_invD[OF assms]
    by (intro locks_invI) (auto simp: prune_locked_def case_prod_unfold intro: distinct_map_filter)
  then show ?thesis by (cases st) (auto simp: unused_def prune_locked_def case_prod_unfold filter_empty_conv)
qed

lemma count_out_inv:
  assumes inv: "locks_inv mark st" and p: "ls_callers st p = Leaving s a"
  shows "locks_inv mark (move p Outside (release_record s (ls_registry st)) st)
    \<and> length (unused (release_record s (ls_registry st))) \<le> mark"
proof -
  let ?rg = "add_refs a (- 1) (ls_registry st)"
  have mem: "(s, a) \<in> set (rg_records (ls_registry st))" using locks_invD(6)[OF inv, of p] p by simp
  then have found: "map_of (rg_records (ls_registry st)) s = Some a"
    using locks_invD(2)[OF inv] by (rule_tac map_of_is_SomeI)
  have only: "snd x = a \<longleftrightarrow> x = (s, a)" if "x \<in> set (rg_records (ls_registry st))" for x
    using same_address[OF inv that mem] by (metis snd_conv)
  have "p \<in> users (ls_callers st) (s, a)" by (simp add: users_def p)
  then have "int (card (users ((ls_callers st)(p := Outside)) (s, a))) = int (card (users (ls_callers st) (s, a))) - 1"
    using finite_users[OF locks_invD(5)[OF inv], of "(s, a)"] card_gt_0_iff[of "users (ls_callers st) (s, a)"]
    by (auto simp: users_upd of_nat_diff)
  moreover have "users ((ls_callers st)(p := Outside)) x = users (ls_callers st) x" if "x \<noteq> (s, a)" for x
    using that p by (auto simp: users_def)
  ultimately have one: "locks_inv mark (move p Outside ?rg st)"
    unfolding move_def using locks_invD[OF inv] mem only
    by (intro locks_invI finite_busy_upd) (auto simp: p split: if_splits)
  have rel: "release_record s (ls_registry st)
      = (if mark < length (rg_records ?rg) then fst (prune_locked ?rg) else ?rg)"
    using found locks_invD(1)[OF inv] by (simp add: release_record_def Let_def)
  show ?thesis
  proof (cases "mark < length (rg_records ?rg)")
    case True
    then show ?thesis using prune_inv[OF one] unfolding rel by (simp add: move_def)
  next
    case False
    moreover have "length (unused ?rg) \<le> length (rg_records ?rg)" unfolding unused_def by (rule length_filter_le)
    ultimately show ?thesis using one unfolding rel by simp
  qed
qed

lemma step_inv:
  assumes "lock_step st st'" "locks_inv mark st" "length (unused (ls_registry st)) \<le> mark"
  shows "locks_inv mark st' \<and> length (unused (ls_registry st')) \<le> mark"
  using assms(1)
proof cases
  case (Count_In p s rg a)
  then show ?thesis using count_in_inv[OF assms(2)] assms(3) by (fastforce simp: move_def)
next
  case (Enter p s a)
  have "locks_inv mark (move p (Inside s a) (set_holder a (Some p) (ls_registry st)) st)"
    using Enter(2,3) locks_invD(8)[OF assms(2)] by (intro moved_inv[OF assms(2)]) (auto, metis option.distinct(1))
  then show ?thesis using Enter(1) assms(3) by (simp add: move_def)
next
  case (Give_Up p s a)
  have "locks_inv mark (move p (Leaving s a) (ls_registry st) st)"
    using Give_Up(2) locks_invD(8)[OF assms(2)] by (intro moved_inv[OF assms(2)]) auto
  then show ?thesis using Give_Up(1) assms(3) by (simp add: move_def)
next
  case (Leave p s a)
  have "locks_inv mark (move p (Leaving s a) (set_holder a None (ls_registry st)) st)"
    using Leave(2) locks_invD(8)[OF assms(2)] by (intro moved_inv[OF assms(2)]) (auto, metis option.inject)
  then show ?thesis using Leave(1) assms(3) by (simp add: move_def)
next
  case (Count_Out p s a)
  then show ?thesis using count_out_inv[OF assms(2)] by (simp add: move_def)
next
  case Prune
  then show ?thesis using prune_inv[OF assms(2)] by (simp add: prune_def)
qed

lemma reachable_inv: "reachable mark st \<Longrightarrow> locks_inv mark st \<and> length (unused (ls_registry st)) \<le> mark"
proof (induction rule: reachable.induct)
  case Start
  show ?case by (intro conjI locks_invI) (auto simp: new_registry_def unused_def)
qed (use step_inv in blast)

subsection \<open>Properties\<close>

text \<open>C21. In every state that any interleaving of callers and prunings can reach: two callers in the body for the
  same session are one caller; and when a caller waits for a session, its lock is free or another
  caller is in the body for that session, so no record that was deleted can keep anybody waiting.\<close>

theorem session_bodies_exclusive:
  assumes "reachable mark st"
  shows "(ls_callers st p = Inside s a \<and> ls_callers st q = Inside s b \<longrightarrow> p = q)
    \<and> (ls_callers st w = Waiting s c \<longrightarrow>
        lr_holder (rg_heap (ls_registry st) c) = None \<or> (\<exists>r. ls_callers st r = Inside s c))"
proof -
  have inv: "locks_inv mark st" using reachable_inv[OF assms] by blast
  note D = locks_invD[OF inv]
  have "p = q" if "ls_callers st p = Inside s a" "ls_callers st q = Inside s b"
  proof -
    have "(s, a) \<in> set (rg_records (ls_registry st))" "(s, b) \<in> set (rg_records (ls_registry st))"
      using D(6)[of p "(s, a)"] D(6)[of q "(s, b)"] that by simp_all
    then have "a = b" using D(2) distinct_map_same_key by metis
    then have "lr_holder (rg_heap (ls_registry st) a) = Some p" "lr_holder (rg_heap (ls_registry st) a) = Some q"
      using D(8) that by blast+
    then show ?thesis by simp
  qed
  moreover have "\<exists>r. ls_callers st r = Inside s c"
    if w: "ls_callers st w = Waiting s c" and h: "lr_holder (rg_heap (ls_registry st) c) \<noteq> None"
  proof -
    from h obtain r s' where r: "ls_callers st r = Inside s' c" using D(8) by blast
    then have "(s', c) \<in> set (rg_records (ls_registry st))" "(s, c) \<in> set (rg_records (ls_registry st))"
      using D(6)[of r "(s', c)"] D(6)[of w "(s, c)"] w by simp_all
    then have "s' = s" using same_address[OF inv, of "(s', c)" "(s, c)"] by simp
    with r show ?thesis by blast
  qed
  ultimately show ?thesis by blast
qed

text \<open>The dict does not grow without bound: in every reachable state it has at most as many records as the mark
  and the callers that are not outside.\<close>

theorem registry_bounded:
  assumes "reachable mark st"
  shows "pending_count (ls_registry st) \<le> mark + card {p. ls_callers st p \<noteq> Outside}"
proof -
  have inv: "locks_inv mark st" "length (unused (ls_registry st)) \<le> mark" using reachable_inv[OF assms] by auto
  note D = locks_invD[OF inv(1)]
  let ?recs = "rg_records (ls_registry st)" and ?busy = "{p. ls_callers st p \<noteq> Outside}"
  let ?used = "filter (\<lambda>x. lr_refcount (rg_heap (ls_registry st) (snd x)) \<noteq> 0) ?recs"
  have "set ?used \<subseteq> (\<lambda>p. the (placed (ls_callers st p))) ` ?busy"
  proof
    fix x assume "x \<in> set ?used"
    then have "users (ls_callers st) x \<noteq> {}" using D(7)[of x] by auto
    then obtain p where "placed (ls_callers st p) = Some x" by (auto simp: users_def)
    then show "x \<in> (\<lambda>p. the (placed (ls_callers st p))) ` ?busy" by (auto intro!: image_eqI[of _ _ p])
  qed
  then have "card (set ?used) \<le> card ?busy" by (rule surj_card_le[OF D(5)])
  moreover have "distinct ?used" using D(2) by (simp add: distinct_map)
  moreover have "length ?recs = length (unused (ls_registry st)) + length ?used"
    unfolding unused_def by (rule sum_length_filter_compl[symmetric])
  ultimately show ?thesis
    using inv(2) distinct_card[of ?used] unfolding pending_count_def by linarith
qed

definition two_callers :: "nat locks_state" where
  "two_callers =
     (let start = \<lparr>ls_registry = new_registry 1, ls_callers = (\<lambda>_. Outside)\<rparr>;
          st1 = move 0 (Waiting (cps ''s'') 0) (fst (acquire_record (cps ''s'') (ls_registry start))) start;
          st2 = move 1 (Waiting (cps ''s'') 0) (fst (acquire_record (cps ''s'') (ls_registry st1))) st1 in
      move 0 (Inside (cps ''s'') 0) (set_holder 0 (Some 0) (ls_registry st2)) st2)"

lemma two_callers_reachable: "reachable 1 two_callers"
proof -
  let ?start = "\<lparr>ls_registry = new_registry 1, ls_callers = (\<lambda>_. Outside)\<rparr> :: nat locks_state"
  let ?acq = "\<lambda>rg :: nat registry. fst (acquire_record (cps ''s'') rg)"
  let ?st1 = "move 0 (Waiting (cps ''s'') 0) (?acq (ls_registry ?start)) ?start"
  let ?st2 = "move 1 (Waiting (cps ''s'') 0) (?acq (ls_registry ?st1)) ?st1"
  note simps = move_def acquire_record_def new_registry_def Let_def add_refs_def
  have "reachable 1 ?st1"
    by (rule Step[OF Start], rule Count_In) (simp_all add: simps)
  then have "reachable 1 ?st2"
    by (rule Step, intro Count_In) (simp_all add: simps)
  then show ?thesis
    unfolding two_callers_def Let_def by (rule Step, intro Enter) (simp_all add: simps)
qed

lemma two_callers_callers: "ls_callers two_callers = (\<lambda>_. Outside)(1 := Waiting (cps ''s'') 0, 0 := Inside (cps ''s'') 0)"
  by (auto simp: two_callers_def move_def Let_def fun_eq_iff)

theorem session_bodies_exclusive_witness:
  "{q. ls_callers two_callers q = Inside (cps ''s'') 0} = {0} \<and> ls_callers two_callers 1 = Waiting (cps ''s'') 0"
proof -
  have p: "ls_callers two_callers 0 = Inside (cps ''s'') 0" "ls_callers two_callers 1 = Waiting (cps ''s'') 0"
    by (simp_all add: two_callers_callers)
  have "0 = q" if "ls_callers two_callers q = Inside (cps ''s'') 0" for q
    using session_bodies_exclusive[OF two_callers_reachable, where p = 0 and q = q and s = "cps ''s''" and a = 0 and b = 0]
      p(1) that by blast
  with p show ?thesis by blast
qed

theorem registry_bounded_witness: "pending_count (ls_registry two_callers) \<le> 3"
proof -
  have "{p. ls_callers two_callers p \<noteq> Outside} = {0, 1}" by (auto simp: two_callers_callers)
  with registry_bounded[OF two_callers_reachable] show ?thesis by simp
qed

end
