(* ===== verification/Worker_Lock.thy ===== *)
theory Worker_Lock
  imports Lcm_Prelude
begin

text \<open>
  The cross-process job lock of \<open>src/lossless_hermes/concurrency/worker_lock.py\<close>.

  The table \<open>lcm_worker_lock\<close> has one row per job kind (its primary key), so it is a map from
  kinds to \<open>lock_row\<close>. Every time stamp comes from the database clock in whole seconds
  (\<open>datetime('now')\<close>); the stamps are fixed-width ISO strings, whose text order is the order
  of the times, so they are integers here and \<open>now\<close> is an argument. Each SQL statement is
  atomic; \<open>acquire_lock\<close> is two statements, \<open>gc_stale\<close> and \<open>insert_or_ignore\<close>, and the
  exclusivity theorem is stated for sequences of single statements of any number of workers.

  The locale \<open>job_lease\<close> is the contract that the clients of the lock rely on; it is
  interpreted on the table operations. \<open>run_with_heartbeat\<close> is the wrapper of that name, with
  the wake-ups of its heartbeat task as an explicit schedule.
\<close>

subsection \<open>The table and its statements\<close>

record lock_row =
  worker_id :: string
  acquired_at :: int
  expires_at :: int
  last_heartbeat_at :: int
  job_session_key :: "string option"
  job_metadata :: "string option"

type_synonym lock_table = "string \<rightharpoonup> lock_row"

datatype lock_error = WorkerIdRequired

definition gc_stale :: "int \<Rightarrow> string \<Rightarrow> lock_table \<Rightarrow> lock_table" where
  "gc_stale now kind db =
     (case db kind of
        None \<Rightarrow> db
      | Some r \<Rightarrow> if expires_at r \<le> now then db(kind := None) else db)"

definition ttl_seconds :: "real \<Rightarrow> int" where
  "ttl_seconds ttl_s = max 0 (py_round ttl_s)"

definition insert_or_ignore ::
  "int \<Rightarrow> string \<Rightarrow> string \<Rightarrow> real \<Rightarrow> string option \<Rightarrow> string option \<Rightarrow> lock_table \<Rightarrow> bool \<times> lock_table" where
  "insert_or_ignore now kind wid ttl_s skey meta db =
     (case db kind of
        Some _ \<Rightarrow> (False, db)
      | None \<Rightarrow> (True, db(kind \<mapsto> \<lparr>worker_id = wid, acquired_at = now,
                  expires_at = now + ttl_seconds ttl_s, last_heartbeat_at = now,
                  job_session_key = skey, job_metadata = meta\<rparr>)))"

definition acquire_lock ::
  "int \<Rightarrow> string \<Rightarrow> string \<Rightarrow> real \<Rightarrow> string option \<Rightarrow> string option \<Rightarrow> lock_table
   \<Rightarrow> lock_error + bool \<times> lock_table" where
  "acquire_lock now kind wid ttl_s skey meta db =
     (if wid = [] \<or> py_strip wid = [] then Inl WorkerIdRequired
      else Inr (insert_or_ignore now kind wid ttl_s skey meta (gc_stale now kind db)))"

definition release_lock :: "string \<Rightarrow> string \<Rightarrow> lock_table \<Rightarrow> bool \<times> lock_table" where
  "release_lock kind wid db =
     (case db kind of
        None \<Rightarrow> (False, db)
      | Some r \<Rightarrow> if worker_id r = wid then (True, db(kind := None)) else (False, db))"

definition heartbeat_lock :: "int \<Rightarrow> string \<Rightarrow> string \<Rightarrow> real \<Rightarrow> lock_table \<Rightarrow> bool \<times> lock_table" where
  "heartbeat_lock now kind wid ttl_s db =
     (case db kind of
        None \<Rightarrow> (False, db)
      | Some r \<Rightarrow>
          if worker_id r = wid \<and> now < expires_at r then
            (True, db(kind \<mapsto> r\<lparr>last_heartbeat_at := now, expires_at := now + ttl_seconds ttl_s\<rparr>))
          else (False, db))"

definition lock_info :: "string \<Rightarrow> lock_table \<Rightarrow> lock_row option" where
  "lock_info kind db = db kind"

text \<open>Who holds a kind at time \<open>now\<close>, and until when: a row that has not expired.\<close>

definition live_holder :: "int \<Rightarrow> lock_table \<Rightarrow> string \<Rightarrow> (string \<times> int) option" where
  "live_holder now db kind =
     (case db kind of
        None \<Rightarrow> None
      | Some r \<Rightarrow> if now < expires_at r then Some (worker_id r, expires_at r) else None)"

subsection \<open>The statements of several workers, one after the other\<close>

datatype lock_stmt =
    Gc int string
  | Insert int string string real
  | Release int string string
  | Heartbeat int string string real

fun stmt_time :: "lock_stmt \<Rightarrow> int" where
  "stmt_time (Gc t _) = t"
| "stmt_time (Insert t _ _ _) = t"
| "stmt_time (Release t _ _) = t"
| "stmt_time (Heartbeat t _ _ _) = t"

fun exec_stmt :: "lock_stmt \<Rightarrow> lock_table \<Rightarrow> bool \<times> lock_table" where
  "exec_stmt (Gc t k) db = (False, gc_stale t k db)"
| "exec_stmt (Insert t k w ttl) db = insert_or_ignore t k w ttl None None db"
| "exec_stmt (Release t k w) db = release_lock k w db"
| "exec_stmt (Heartbeat t k w ttl) db = heartbeat_lock t k w ttl db"

definition exec_all :: "lock_stmt list \<Rightarrow> lock_table \<Rightarrow> lock_table" where
  "exec_all = fold (\<lambda>s db. snd (exec_stmt s db))"

lemma exec_all_simps [simp]:
  "exec_all [] db = db" "exec_all (s # ss) db = exec_all ss (snd (exec_stmt s db))"
  by (simp_all add: exec_all_def)

text \<open>
  The statements that leave the lease of \<open>w\<close> on \<open>kind\<close> in force until \<open>e\<close>: they run before
  \<open>e\<close>, none is the release by \<open>w\<close> itself, and a heartbeat of \<open>w\<close> does not shorten the lease.
\<close>

fun respects_lease :: "string \<Rightarrow> string \<Rightarrow> int \<Rightarrow> lock_stmt \<Rightarrow> bool" where
  "respects_lease kind w e (Gc t k) \<longleftrightarrow> t < e"
| "respects_lease kind w e (Insert t k v ttl) \<longleftrightarrow> t < e"
| "respects_lease kind w e (Release t k v) \<longleftrightarrow> \<not> (k = kind \<and> v = w)"
| "respects_lease kind w e (Heartbeat t k v ttl) \<longleftrightarrow>
     (k = kind \<and> v = w \<longrightarrow> e \<le> t + ttl_seconds ttl)"

definition leased :: "string \<Rightarrow> string \<Rightarrow> int \<Rightarrow> lock_table \<Rightarrow> bool" where
  "leased kind w e db \<longleftrightarrow> (\<exists>r. db kind = Some r \<and> worker_id r = w \<and> e \<le> expires_at r)"

named_theorems lock_defs
lemmas [lock_defs] = gc_stale_def insert_or_ignore_def release_lock_def heartbeat_lock_def
  live_holder_def leased_def acquire_lock_def

lemma exec_stmt_leased:
  "leased kind w e db \<Longrightarrow> respects_lease kind w e s \<Longrightarrow> leased kind w e (snd (exec_stmt s db))"
  by (cases s) (auto simp: lock_defs split: option.splits)

lemma exec_all_leased:
  "leased kind w e db \<Longrightarrow> list_all (respects_lease kind w e) ss \<Longrightarrow> leased kind w e (exec_all ss db)"
  by (induction ss arbitrary: db) (auto dest: exec_stmt_leased)

lemma leased_blocks_insert:
  "leased kind w e db \<Longrightarrow> fst (insert_or_ignore t kind v ttl sk md db) = False"
  by (auto simp: lock_defs)

lemma insert_leased:
  assumes "fst (insert_or_ignore t kind w ttl sk md db)"
  shows "leased kind w (t + ttl_seconds ttl) (snd (insert_or_ignore t kind w ttl sk md db))"
proof (cases "db kind")
  case None
  show ?thesis unfolding leased_def
    by (rule exI [where x = "\<lparr>worker_id = w, acquired_at = t, expires_at = t + ttl_seconds ttl,
          last_heartbeat_at = t, job_session_key = sk, job_metadata = md\<rparr>"])
       (simp add: insert_or_ignore_def None)
qed (use assms in \<open>simp add: insert_or_ignore_def\<close>)

subsection \<open>What the clients of the lock rely on\<close>

locale job_lease =
  fixes acquire :: "int \<Rightarrow> string \<Rightarrow> string \<Rightarrow> int \<Rightarrow> 'db \<Rightarrow> bool \<times> 'db"
    and heartbeat :: "int \<Rightarrow> string \<Rightarrow> string \<Rightarrow> int \<Rightarrow> 'db \<Rightarrow> bool \<times> 'db"
    and release :: "string \<Rightarrow> string \<Rightarrow> 'db \<Rightarrow> bool \<times> 'db"
    and holder :: "int \<Rightarrow> 'db \<Rightarrow> string \<Rightarrow> (string \<times> int) option"
  assumes holder_expiry: "holder t db k = Some (w, e) \<Longrightarrow> t < e"
    and holder_later: "holder t db k = Some (w, e) \<Longrightarrow> t \<le> t' \<Longrightarrow> t' < e \<Longrightarrow> holder t' db k = Some (w, e)"
    and acquire_iff: "fst (acquire t k w ttl db) \<longleftrightarrow> holder t db k = None"
    and acquire_holds: "fst (acquire t k w ttl db) \<Longrightarrow> 0 < ttl \<Longrightarrow>
          holder t (snd (acquire t k w ttl db)) k = Some (w, t + ttl)"
    and heartbeat_iff: "fst (heartbeat t k w ttl db) \<longleftrightarrow> (\<exists>e. holder t db k = Some (w, e))"
    and heartbeat_holds: "fst (heartbeat t k w ttl db) \<Longrightarrow> 0 < ttl \<Longrightarrow>
          holder t (snd (heartbeat t k w ttl db)) k = Some (w, t + ttl)"
    and heartbeat_lost: "\<not> fst (heartbeat t k w ttl db) \<Longrightarrow> snd (heartbeat t k w ttl db) = db"
    and release_gone: "holder t (snd (release k w db)) k \<noteq> Some (w, e)"
begin

lemma acquire_fails_while_held:
  "holder t db k = Some (w, e) \<Longrightarrow> t \<le> t' \<Longrightarrow> t' < e \<Longrightarrow> \<not> fst (acquire t' k v ttl db)"
  using holder_later [of t db k w e t'] acquire_iff [of t' k v ttl db] by simp

lemma heartbeat_keeps:
  "holder t db k = Some (w, e) \<Longrightarrow> t \<le> t' \<Longrightarrow> t' < e \<Longrightarrow> 0 < ttl \<Longrightarrow>
   fst (heartbeat t' k w ttl db) \<and> holder t' (snd (heartbeat t' k w ttl db)) k = Some (w, t' + ttl)"
  using holder_later [of t db k w e t'] heartbeat_iff [of t' k w ttl db] heartbeat_holds [of t' k w ttl db]
  by simp

text \<open>Heartbeats at gaps below the lease length keep the lock for as long as they go on.\<close>

fun beat :: "string \<Rightarrow> string \<Rightarrow> int \<Rightarrow> int list \<Rightarrow> 'db \<Rightarrow> bool \<times> 'db" where
  "beat k w ttl [] db = (True, db)"
| "beat k w ttl (t # ts) db =
     (case heartbeat t k w ttl db of
        (ok, db') \<Rightarrow> if ok then beat k w ttl ts db' else (False, db'))"

lemma beats_keep:
  "holder t0 db k = Some (w, t0 + ttl) \<Longrightarrow> 0 < ttl \<Longrightarrow>
   successively (\<lambda>a b. a \<le> b \<and> b < a + ttl) (t0 # ts) \<Longrightarrow>
   fst (beat k w ttl ts db) \<and>
   holder (last (t0 # ts)) (snd (beat k w ttl ts db)) k = Some (w, last (t0 # ts) + ttl)"
proof (induction ts arbitrary: t0 db)
  case (Cons t ts)
  then have t: "t0 \<le> t" "t < t0 + ttl" and rest: "successively (\<lambda>a b. a \<le> b \<and> b < a + ttl) (t # ts)"
    by auto
  from heartbeat_keeps [OF Cons.prems(1) t Cons.prems(2)]
  have "fst (heartbeat t k w ttl db)" "holder t (snd (heartbeat t k w ttl db)) k = Some (w, t + ttl)" by auto
  with Cons.IH [of t "snd (heartbeat t k w ttl db)"] rest Cons.prems(2)
  show ?case by (cases "heartbeat t k w ttl db") auto
qed simp

end

definition table_acquire :: "int \<Rightarrow> string \<Rightarrow> string \<Rightarrow> int \<Rightarrow> lock_table \<Rightarrow> bool \<times> lock_table" where
  "table_acquire t k w ttl db = insert_or_ignore t k w (of_int ttl) None None (gc_stale t k db)"

interpretation table: job_lease table_acquire "\<lambda>t k w ttl. heartbeat_lock t k w (of_int ttl)"
    release_lock live_holder
  by unfold_locales
     (auto simp: table_acquire_def lock_defs ttl_seconds_def split: option.splits if_splits)


subsection \<open>The wrapper \<open>run_with_heartbeat\<close>\<close>

text \<open>
  One wake-up of the heartbeat task: the statements other workers ran since the last one,
  and the time of the heartbeat, or \<open>None\<close> for a heartbeat that raises \<open>sqlite3.Error\<close>.
  The loop returns whether \<open>stolen_event\<close> was set.
\<close>

type_synonym wake = "lock_stmt list \<times> int option"

fun heartbeat_loop :: "string \<Rightarrow> string \<Rightarrow> real \<Rightarrow> wake list \<Rightarrow> lock_table \<Rightarrow> bool \<times> lock_table" where
  "heartbeat_loop kind wid ttl_s [] db = (False, db)"
| "heartbeat_loop kind wid ttl_s ((others, None) # ws) db = (True, exec_all others db)"
| "heartbeat_loop kind wid ttl_s ((others, Some t) # ws) db =
     (case heartbeat_lock t kind wid ttl_s (exec_all others db) of
        (ok, db') \<Rightarrow> if ok then heartbeat_loop kind wid ttl_s ws db' else (True, db'))"

datatype ('e, 'a) run_result = BadWorkerId | NotAcquired | Raised 'e | Returned 'a

text \<open>
  \<open>ws\<close> are the wake-ups before the body ends, \<open>others\<close> what other workers do between the last
  of them and the release; the body sees whether the event was set.
\<close>

definition run_with_heartbeat ::
  "int \<Rightarrow> string \<Rightarrow> string \<Rightarrow> real \<Rightarrow> string option \<Rightarrow> string option \<Rightarrow> wake list \<Rightarrow> lock_stmt list
   \<Rightarrow> (bool \<Rightarrow> 'e + 'a) \<Rightarrow> lock_table \<Rightarrow> ('e, 'a) run_result \<times> lock_table" where
  "run_with_heartbeat now kind wid ttl_s skey meta ws others body db =
     (case acquire_lock now kind wid ttl_s skey meta db of
        Inl _ \<Rightarrow> (BadWorkerId, db)
      | Inr (False, db1) \<Rightarrow> (NotAcquired, db1)
      | Inr (True, db1) \<Rightarrow>
          (case heartbeat_loop kind wid ttl_s ws db1 of
             (stolen, db2) \<Rightarrow>
               (case body stolen of Inl e \<Rightarrow> Raised e | Inr x \<Rightarrow> Returned x,
                snd (release_lock kind wid (exec_all others db2)))))"

text \<open>Wake-ups in time: each heartbeat comes before the lease of the previous one ends.\<close>

fun timely :: "string \<Rightarrow> string \<Rightarrow> real \<Rightarrow> int \<Rightarrow> wake list \<Rightarrow> bool" where
  "timely kind wid ttl_s tp [] \<longleftrightarrow> True"
| "timely kind wid ttl_s tp ((others, None) # ws) \<longleftrightarrow> False"
| "timely kind wid ttl_s tp ((others, Some t) # ws) \<longleftrightarrow>
     t < tp + ttl_seconds ttl_s \<and>
     list_all (respects_lease kind wid (tp + ttl_seconds ttl_s)) others \<and>
     timely kind wid ttl_s t ws"

lemma heartbeat_leased:
  assumes "leased kind w e db" "t < e"
  shows "fst (heartbeat_lock t kind w ttl db) \<and>
         leased kind w (t + ttl_seconds ttl) (snd (heartbeat_lock t kind w ttl db))"
proof -
  from assms obtain r where "db kind = Some r" "worker_id r = w" "e \<le> expires_at r"
    by (auto simp: leased_def)
  with assms(2) show ?thesis by (simp add: heartbeat_lock_def leased_def)
qed

lemma heartbeat_loop_timely:
  "leased kind w (tp + ttl_seconds ttl) db \<Longrightarrow> timely kind w ttl tp ws \<Longrightarrow>
   \<exists>t. \<not> fst (heartbeat_loop kind w ttl ws db) \<and>
       leased kind w (t + ttl_seconds ttl) (snd (heartbeat_loop kind w ttl ws db))"
proof (induction kind w ttl tp ws arbitrary: db rule: timely.induct)
  case (3 kind wid ttl_s tp others t ws)
  have "leased kind wid (tp + ttl_seconds ttl_s) (exec_all others db)"
    using "3.prems" by (intro exec_all_leased) simp_all
  then have "fst (heartbeat_lock t kind wid ttl_s (exec_all others db)) \<and>
      leased kind wid (t + ttl_seconds ttl_s) (snd (heartbeat_lock t kind wid ttl_s (exec_all others db)))"
    using "3.prems" by (intro heartbeat_leased [of _ _ "tp + ttl_seconds ttl_s"]) simp_all
  with "3.IH" "3.prems" show ?case
    by (cases "heartbeat_lock t kind wid ttl_s (exec_all others db)") auto
qed auto

lemma acquire_leased:
  "acquire_lock now kind w ttl sk md db = Inr (True, db') \<Longrightarrow> leased kind w (now + ttl_seconds ttl) db'"
  using insert_leased [of now kind w ttl sk md "gc_stale now kind db"]
  by (cases "insert_or_ignore now kind w ttl sk md (gc_stale now kind db)")
     (auto simp: acquire_lock_def split: if_splits)

lemma leased_acquire:
  assumes "leased kind w e db" "t < e"
  shows "acquire_lock t kind v ttl sk md db \<noteq> Inr (True, db')"
proof -
  have "leased kind w e (gc_stale t kind db)"
    using exec_stmt_leased [OF assms(1), of "Gc t kind"] assms(2) by simp
  from leased_blocks_insert [OF this] have "fst (insert_or_ignore t kind v ttl sk md (gc_stale t kind db)) = False" .
  then show ?thesis by (auto simp: acquire_lock_def)
qed

subsection \<open>Properties\<close>

text \<open>C12. Exclusivity of the lease. After worker \<open>w\<close> acquires a kind at \<open>t0\<close>, let any statements
  of any workers run, interleaved in any way and each before the lease ends, with no release
  by \<open>w\<close> and no heartbeat of \<open>w\<close> that shortens the lease. Then until the lease ends no worker
  can acquire the kind, and \<open>w\<close>'s own heartbeat and release still succeed.\<close>

theorem lock_exclusive:
  assumes "acquire_lock t0 kind w ttl sk md db = Inr (True, db0)"
    and "list_all (respects_lease kind w (t0 + ttl_seconds ttl)) ss"
    and "t < t0 + ttl_seconds ttl"
  shows "(\<forall>v ttl' sk' md' db'. acquire_lock t kind v ttl' sk' md' (exec_all ss db0) \<noteq> Inr (True, db')) \<and>
         fst (heartbeat_lock t kind w ttl (exec_all ss db0)) \<and>
         fst (release_lock kind w (exec_all ss db0))"
proof -
  have l: "leased kind w (t0 + ttl_seconds ttl) (exec_all ss db0)"
    using exec_all_leased [OF acquire_leased [OF assms(1)] assms(2)] .
  then have "fst (release_lock kind w (exec_all ss db0))" by (auto simp: leased_def release_lock_def)
  with leased_acquire [OF l assms(3)] heartbeat_leased [OF l assms(3)] show ?thesis by blast
qed

theorem lock_exclusive_witness:
  "\<exists>db0. acquire_lock 100 ''eval'' ''w1'' (of_int 90) None None Map.empty = Inr (True, db0) \<and>
     acquire_lock 189 ''eval'' ''w3'' (of_int 90) None None
       (exec_all [Gc 150 ''eval'', Insert 150 ''eval'' ''w2'' (of_int 90), Release 160 ''eval'' ''w2'',
                  Heartbeat 170 ''eval'' ''w1'' (of_int 90)] db0) \<noteq> Inr (True, Map.empty)"
proof -
  let ?ss = "[Gc 150 ''eval'', Insert 150 ''eval'' ''w2'' (of_int 90), Release 160 ''eval'' ''w2'',
              Heartbeat 170 ''eval'' ''w1'' (of_int 90)]"
  obtain db0 where a: "acquire_lock 100 ''eval'' ''w1'' (of_int 90) None None Map.empty = Inr (True, db0)"
    by (simp add: acquire_lock_def gc_stale_def insert_or_ignore_def py_isspace_def)
  have ttl: "ttl_seconds (of_int 90) = 90" unfolding ttl_seconds_def py_round_of_int by simp
  have r: "list_all (respects_lease ''eval'' ''w1'' (100 + ttl_seconds (of_int 90))) ?ss"
    unfolding ttl by (simp add: ttl del: of_int_numeral)
  have t: "(189::int) < 100 + ttl_seconds (of_int 90)" unfolding ttl by simp
  from lock_exclusive [OF a r t] a show ?thesis by blast
qed

text \<open>Timely heartbeats keep the lock. If \<open>run_with_heartbeat\<close> acquires the lock and every
  heartbeat runs before the previous lease ends, while the other workers keep to their own
  rows, the body never sees the lock reported as stolen.\<close>

theorem timely_heartbeats_keep_lock:
  assumes "acquire_lock now kind w ttl sk md db = Inr (True, db1)"
    and "timely kind w ttl now ws"
  shows "fst (run_with_heartbeat now kind w ttl sk md ws others body db) =
         (case body False of Inl e \<Rightarrow> Raised e | Inr x \<Rightarrow> Returned x)"
proof -
  from heartbeat_loop_timely [OF acquire_leased [OF assms(1)] assms(2)]
  have "fst (heartbeat_loop kind w ttl ws db1) = False" by auto
  then show ?thesis
    by (cases "heartbeat_loop kind w ttl ws db1") (simp add: run_with_heartbeat_def assms(1))
qed

theorem timely_heartbeats_keep_lock_witness:
  "fst (run_with_heartbeat 0 ''eval'' ''w1'' (of_int 90) None None
      [([Gc 20 ''eval''], Some 30), ([], Some 100)] [] (\<lambda>stolen. if stolen then Inl () else Inr (1::int))
      Map.empty) = Returned 1"
proof -
  have ttl: "ttl_seconds (of_int 90) = 90" unfolding ttl_seconds_def py_round_of_int by simp
  obtain db1 where a: "acquire_lock 0 ''eval'' ''w1'' (of_int 90) None None Map.empty = Inr (True, db1)"
    by (simp add: acquire_lock_def gc_stale_def insert_or_ignore_def py_isspace_def)
  have t: "timely ''eval'' ''w1'' (of_int 90) 0 [([Gc 20 ''eval''], Some 30), ([], Some 100)]"
    using ttl by (simp del: of_int_numeral)
  show ?thesis by (subst timely_heartbeats_keep_lock [OF a t]) simp
qed

text \<open>The lock is given back on every path: once acquired, whatever the heartbeats and the
  other workers do and whether the body returns or raises, the worker holds no row of the
  kind when \<open>run_with_heartbeat\<close> ends.\<close>

theorem run_with_heartbeat_releases:
  "fst (run_with_heartbeat now kind w ttl sk md ws others body db) \<in> {BadWorkerId, NotAcquired} \<or>
   (\<forall>t e. live_holder t (snd (run_with_heartbeat now kind w ttl sk md ws others body db)) kind \<noteq> Some (w, e))"
  using table.release_gone
  by (auto simp: run_with_heartbeat_def split: sum.splits prod.splits bool.splits)

text \<open>A heartbeat never brings an expired lock back: it succeeds exactly for the worker
  that holds the kind at that time, and otherwise leaves the table as it is.\<close>

theorem heartbeat_only_live:
  "(fst (heartbeat_lock t kind w ttl db) \<longleftrightarrow> (\<exists>e. live_holder t db kind = Some (w, e))) \<and>
   (fst (heartbeat_lock t kind w ttl db) \<or> snd (heartbeat_lock t kind w ttl db) = db)"
  by (auto simp: heartbeat_lock_def live_holder_def split: option.splits)

end
