(* ===== verification/Expansion_Guard.thy ===== *)
theory Expansion_Guard
  imports Media_Text
begin

text \<open>
  The guard around delegated expansions (\<open>tools/expansion_recursion_guard.py\<close>). An expansion hands a
  question to a sub-agent session; the guard keeps a sub-agent from delegating again (the recursion
  guard, on the contexts that are stamped on child sessions) and keeps two expansions of one origin
  session from running at once (the concurrency guard).

  The module's three dicts and its counters are one record; every function holds the module's lock for
  the reads and writes it makes, so it is one step. A session key that is not a string is \<open>None\<close>. The
  resolver of delegated grants is an argument, as are the fresh request ids and the clock. The texts of
  the block messages are left out.

  The properties: while a request holds the slot of its origin no other request gets it, whatever other
  calls come in between; and a session that was stamped as the child of any session is refused.
  An origin that is blank is \<open>main\<close> to the acquire and nothing to the release, so its slot is never
  given back.
\<close>

definition expansion_delegation_depth_cap :: int where "expansion_delegation_depth_cap = 1"

datatype telemetry_event = Tel_Start | Tel_Block | Tel_Timeout | Tel_Success

record delegated_expansion_context =
  dx_request_id :: utext
  dx_expansion_depth :: int
  dx_origin_session_key :: utext
  dx_stamped_by :: utext
  dx_created_at :: utext

record guard_state =
  gd_delegated :: "utext \<rightharpoonup> delegated_expansion_context"
  gd_blocked :: "utext \<rightharpoonup> utext set"
  gd_active :: "utext \<rightharpoonup> utext"
  gd_counters :: "telemetry_event \<Rightarrow> nat"

definition reset_guard :: guard_state where
  "reset_guard = \<lparr>gd_delegated = (\<lambda>_. None), gd_blocked = (\<lambda>_. None), gd_active = (\<lambda>_. None), gd_counters = (\<lambda>_. 0)\<rparr>"

subsection \<open>Keys, depths and stamps\<close>

definition normalize_session_key :: "utext option \<Rightarrow> utext" where
  "normalize_session_key k = (case k of None \<Rightarrow> [] | Some s \<Rightarrow> u_strip s)"

definition or_main :: "utext \<Rightarrow> utext" where
  "or_main k = (if k = [] then cps ''main'' else k)"

definition has_grant :: "(utext \<Rightarrow> utext option) \<Rightarrow> utext \<Rightarrow> bool" where
  "has_grant resolver key = (case resolver key of None \<Rightarrow> False | Some g \<Rightarrow> g \<noteq> [])"

definition resolve_fallback_delegated_context ::
    "(utext \<Rightarrow> utext option) \<Rightarrow> utext \<Rightarrow> utext \<Rightarrow> utext \<Rightarrow> delegated_expansion_context option" where
  "resolve_fallback_delegated_context resolver now session_key request_id =
     (if session_key = [] then None
      else if \<not> has_grant resolver session_key then None
      else Some \<lparr>dx_request_id = request_id, dx_expansion_depth = expansion_delegation_depth_cap,
        dx_origin_session_key = session_key, dx_stamped_by = cps ''delegated_grant'', dx_created_at = now\<rparr>)"

definition resolve_expansion_request_id :: "utext \<Rightarrow> utext option \<Rightarrow> guard_state \<Rightarrow> utext" where
  "resolve_expansion_request_id fresh session_key st =
     (case gd_delegated st (normalize_session_key session_key) of
        Some c \<Rightarrow> dx_request_id c
      | None \<Rightarrow> fresh)"

definition resolve_next_expansion_depth :: "(utext \<Rightarrow> utext option) \<Rightarrow> utext option \<Rightarrow> guard_state \<Rightarrow> int" where
  "resolve_next_expansion_depth resolver session_key st =
     (let key = normalize_session_key session_key in
      if key = [] then 1
      else case gd_delegated st key of
        Some c \<Rightarrow> dx_expansion_depth c + 1
      | None \<Rightarrow> if has_grant resolver key then expansion_delegation_depth_cap + 1 else 1)"

definition stamp_delegated_expansion_context ::
    "utext \<Rightarrow> utext option \<Rightarrow> utext \<Rightarrow> int \<Rightarrow> utext option \<Rightarrow> utext \<Rightarrow> guard_state \<Rightarrow> guard_state \<times> delegated_expansion_context" where
  "stamp_delegated_expansion_context now session_key request_id expansion_depth origin_session_key stamped_by st =
     (let key = normalize_session_key session_key;
          context = \<lparr>dx_request_id = request_id, dx_expansion_depth = max 0 expansion_depth,
            dx_origin_session_key = or_main (normalize_session_key origin_session_key), dx_stamped_by = stamped_by,
            dx_created_at = now\<rparr> in
      (if key = [] then st else st\<lparr>gd_delegated := (gd_delegated st)(key \<mapsto> context)\<rparr>, context))"

definition clear_delegated_expansion_context :: "utext option \<Rightarrow> guard_state \<Rightarrow> guard_state" where
  "clear_delegated_expansion_context session_key st =
     (let key = normalize_session_key session_key in
      if key = [] then st
      else st\<lparr>gd_delegated := (gd_delegated st)(key := None), gd_blocked := (gd_blocked st)(key := None)\<rparr>)"

subsection \<open>The two guards\<close>

datatype block_reason = Depth_Cap | Idempotent_Reentry

datatype recursion_decision =
    Recursion_Allowed utext int utext
  | Recursion_Blocked block_reason utext int utext

definition evaluate_expansion_recursion_guard ::
    "(utext \<Rightarrow> utext option) \<Rightarrow> utext \<Rightarrow> utext \<Rightarrow> utext option \<Rightarrow> utext \<Rightarrow> guard_state \<Rightarrow> guard_state \<times> recursion_decision" where
  "evaluate_expansion_recursion_guard resolver now fresh session_key request_id st =
     (let key = normalize_session_key session_key;
          trimmed = u_strip request_id;
          context = (case gd_delegated st key of
            Some c \<Rightarrow> Some c
          | None \<Rightarrow> resolve_fallback_delegated_context resolver now key (if trimmed = [] then fresh else trimmed)) in
      case context of
        None \<Rightarrow> (st, Recursion_Allowed trimmed 0 (or_main key))
      | Some c \<Rightarrow>
          if dx_expansion_depth c < expansion_delegation_depth_cap
          then (st, Recursion_Allowed trimmed (dx_expansion_depth c) (dx_origin_session_key c))
          else let seen = (case gd_blocked st key of None \<Rightarrow> {} | Some ids \<Rightarrow> ids) in
            (st\<lparr>gd_blocked := (gd_blocked st)(key \<mapsto> insert trimmed seen)\<rparr>,
             Recursion_Blocked (if trimmed \<in> seen then Idempotent_Reentry else Depth_Cap)
               trimmed (dx_expansion_depth c) (dx_origin_session_key c)))"

datatype concurrency_decision = Slot_Allowed utext utext | Slot_Blocked utext utext

definition active_request :: "guard_state \<Rightarrow> utext \<Rightarrow> utext" where
  "active_request st origin = (case gd_active st origin of None \<Rightarrow> [] | Some r \<Rightarrow> r)"

definition acquire_expansion_concurrency_slot ::
    "utext option \<Rightarrow> utext \<Rightarrow> guard_state \<Rightarrow> guard_state \<times> concurrency_decision" where
  "acquire_expansion_concurrency_slot origin_session_key request_id st =
     (let origin = or_main (normalize_session_key origin_session_key);
          trimmed = u_strip request_id;
          active = active_request st origin in
      if active \<noteq> [] \<and> active \<noteq> trimmed then (st, Slot_Blocked trimmed origin)
      else (if active = [] then st\<lparr>gd_active := (gd_active st)(origin \<mapsto> trimmed)\<rparr> else st,
            Slot_Allowed trimmed origin))"

definition release_expansion_concurrency_slot :: "utext option \<Rightarrow> utext option \<Rightarrow> guard_state \<Rightarrow> guard_state" where
  "release_expansion_concurrency_slot origin_session_key request_id st =
     (let origin = normalize_session_key origin_session_key;
          trimmed = (case request_id of None \<Rightarrow> [] | Some r \<Rightarrow> u_strip r);
          active = active_request st origin in
      if origin = [] then st
      else if active = [] then st
      else if trimmed \<noteq> [] \<and> active \<noteq> trimmed then st
      else st\<lparr>gd_active := (gd_active st)(origin := None)\<rparr>)"

definition record_expansion_delegation_telemetry :: "telemetry_event \<Rightarrow> guard_state \<Rightarrow> guard_state" where
  "record_expansion_delegation_telemetry event st =
     st\<lparr>gd_counters := (gd_counters st)(event := gd_counters st event + 1)\<rparr>"

subsection \<open>Any sequence of calls\<close>

datatype guard_call =
    Stamp utext "utext option" utext int "utext option" utext
  | Clear "utext option"
  | Evaluate utext utext "utext option" utext
  | Acquire "utext option" utext
  | Release "utext option" "utext option"
  | Telemetry telemetry_event

fun run_call :: "(utext \<Rightarrow> utext option) \<Rightarrow> guard_call \<Rightarrow> guard_state \<Rightarrow> guard_state" where
  "run_call resolver (Stamp now k r d o' by') st = fst (stamp_delegated_expansion_context now k r d o' by' st)"
| "run_call resolver (Clear k) st = clear_delegated_expansion_context k st"
| "run_call resolver (Evaluate now fresh k r) st = fst (evaluate_expansion_recursion_guard resolver now fresh k r st)"
| "run_call resolver (Acquire o' r) st = fst (acquire_expansion_concurrency_slot o' r st)"
| "run_call resolver (Release o' r) st = release_expansion_concurrency_slot o' r st"
| "run_call resolver (Telemetry e) st = record_expansion_delegation_telemetry e st"

definition run_calls :: "(utext \<Rightarrow> utext option) \<Rightarrow> guard_call list \<Rightarrow> guard_state \<Rightarrow> guard_state" where
  "run_calls resolver = fold (run_call resolver)"

lemma run_calls_simps [simp]:
  "run_calls resolver [] st = st"
  "run_calls resolver (c # cs) st = run_calls resolver cs (run_call resolver c st)"
  by (simp_all add: run_calls_def)

text \<open>A release that concerns the holder \<open>r\<close> of the slot of \<open>origin\<close>: with its id or with no id.\<close>

fun releases_slot :: "utext \<Rightarrow> utext \<Rightarrow> guard_call \<Rightarrow> bool" where
  "releases_slot origin r (Release o' rid) =
     (normalize_session_key o' = origin \<and> (case rid of None \<Rightarrow> True | Some s \<Rightarrow> u_strip s = [] \<or> u_strip s = r))"
| "releases_slot origin r _ = False"

text \<open>A call that gives a session a new context or takes its context away.\<close>

fun restamps :: "utext \<Rightarrow> guard_call \<Rightarrow> bool" where
  "restamps key (Stamp now k r d o' by') = (normalize_session_key k = key)"
| "restamps key (Clear k) = (normalize_session_key k = key)"
| "restamps key _ = False"

lemma slot_kept:
  assumes "active_request st origin = r" "r \<noteq> []" "\<not> releases_slot origin r c"
  shows "active_request (run_call resolver c st) origin = r"
  using assms
  by (cases c) (auto simp: active_request_def stamp_delegated_expansion_context_def clear_delegated_expansion_context_def
      evaluate_expansion_recursion_guard_def acquire_expansion_concurrency_slot_def release_expansion_concurrency_slot_def
      record_expansion_delegation_telemetry_def Let_def split: option.splits)

lemma slot_kept_all:
  "active_request st origin = r \<Longrightarrow> r \<noteq> [] \<Longrightarrow> list_all (\<lambda>c. \<not> releases_slot origin r c) cs \<Longrightarrow>
    active_request (run_calls resolver cs st) origin = r"
  by (induction cs arbitrary: st) (auto simp: slot_kept)

lemma acquired:
  assumes "snd (acquire_expansion_concurrency_slot o' r st) = Slot_Allowed (u_strip r) (or_main (normalize_session_key o'))"
    "u_strip r \<noteq> []"
  shows "active_request (fst (acquire_expansion_concurrency_slot o' r st)) (or_main (normalize_session_key o')) = u_strip r"
  using assms by (auto simp: acquire_expansion_concurrency_slot_def active_request_def Let_def split: if_splits option.splits)


text \<open>A blank origin leaks its slot: the acquire takes it for \<open>main\<close>, the release does nothing for it, so after
  the release with the same arguments every other request of the main session is still refused.\<close>

theorem blank_origin_slot_leaks:
  assumes "normalize_session_key o1 = []" "u_strip r1 \<noteq> []" "active_request st (cps ''main'') = []" "u_strip r2 \<noteq> u_strip r1"
    "or_main (normalize_session_key o2) = cps ''main''"
  shows "snd (acquire_expansion_concurrency_slot o1 r1 st) = Slot_Allowed (u_strip r1) (cps ''main'')
    \<and> snd (acquire_expansion_concurrency_slot o2 r2
        (release_expansion_concurrency_slot o1 rid (fst (acquire_expansion_concurrency_slot o1 r1 st))))
      = Slot_Blocked (u_strip r2) (cps ''main'')"
  using assms
  by (auto simp: acquire_expansion_concurrency_slot_def release_expansion_concurrency_slot_def or_main_def active_request_def
      Let_def)

lemma context_kept:
  assumes "gd_delegated st key = Some ctx" "\<not> restamps key c"
  shows "gd_delegated (run_call resolver c st) key = Some ctx"
  using assms
  by (cases c) (auto simp: stamp_delegated_expansion_context_def clear_delegated_expansion_context_def
      evaluate_expansion_recursion_guard_def acquire_expansion_concurrency_slot_def release_expansion_concurrency_slot_def
      record_expansion_delegation_telemetry_def Let_def split: option.splits)

lemma context_kept_all:
  "gd_delegated st key = Some ctx \<Longrightarrow> list_all (\<lambda>c. \<not> restamps key c) cs \<Longrightarrow>
    gd_delegated (run_calls resolver cs st) key = Some ctx"
  by (induction cs arbitrary: st) (auto simp: context_kept)

lemma next_depth_pos:
  assumes "\<And>k c. gd_delegated st k = Some c \<Longrightarrow> 0 \<le> dx_expansion_depth c"
  shows "1 \<le> resolve_next_expansion_depth resolver parent st"
  using assms by (fastforce simp: resolve_next_expansion_depth_def expansion_delegation_depth_cap_def Let_def split: option.split)

lemma depths_run: "(\<And>k c. gd_delegated st k = Some c \<Longrightarrow> 0 \<le> dx_expansion_depth c) \<Longrightarrow>
    gd_delegated (run_calls resolver cs st) k = Some c \<Longrightarrow> 0 \<le> dx_expansion_depth c"
proof (induction cs arbitrary: st)
  case (Cons g cs)
  have "0 \<le> dx_expansion_depth d" if "gd_delegated (run_call resolver g st) j = Some d" for j d
    using Cons.prems(1) that
    by (cases g) (auto simp: stamp_delegated_expansion_context_def clear_delegated_expansion_context_def
      evaluate_expansion_recursion_guard_def acquire_expansion_concurrency_slot_def release_expansion_concurrency_slot_def
      record_expansion_delegation_telemetry_def Let_def split: option.splits if_splits)
  from Cons.IH[OF this] Cons.prems(2) show ?case by simp
qed auto

text \<open>No delegation from a delegated session. After any calls from the start, a child that is stamped with the
  depth that is computed for it as the child of any session is refused, and stays refused until it is
  stamped again or cleared; the reason is the depth the first time a request asks, and a re-entry when
  the same request asks again.\<close>

theorem delegated_session_refused:
  assumes "normalize_session_key child \<noteq> []" "list_all (\<lambda>c. \<not> restamps (normalize_session_key child) c) later"
  shows "let st = run_calls resolver before reset_guard;
             depth = resolve_next_expansion_depth resolver parent st;
             st1 = fst (stamp_delegated_expansion_context now child request depth origin by_whom st);
             st2 = run_calls resolver later st1;
             (st3, first) = evaluate_expansion_recursion_guard resolver now' fresh child r st2;
             (st4, again) = evaluate_expansion_recursion_guard resolver now' fresh child r st3 in
    (\<exists>reason. first = Recursion_Blocked reason (u_strip r) depth (or_main (normalize_session_key origin)))
    \<and> again = Recursion_Blocked Idempotent_Reentry (u_strip r) depth (or_main (normalize_session_key origin))"
proof -
  define st where "st = run_calls resolver before reset_guard"
  define depth where "depth = resolve_next_expansion_depth resolver parent st"
  define st1 where "st1 = fst (stamp_delegated_expansion_context now child request depth origin by_whom st)"
  have "1 \<le> depth"
    unfolding depth_def st_def by (rule next_depth_pos, rule depths_run) (auto simp: reset_guard_def)
  then have "gd_delegated st1 (normalize_session_key child) = Some \<lparr>dx_request_id = request, dx_expansion_depth = depth,
      dx_origin_session_key = or_main (normalize_session_key origin), dx_stamped_by = by_whom, dx_created_at = now\<rparr>"
    using assms(1) by (simp add: st1_def stamp_delegated_expansion_context_def Let_def)
  from context_kept_all[OF this assms(2), of resolver] \<open>1 \<le> depth\<close> show ?thesis
    unfolding st_def[symmetric] Let_def depth_def[symmetric] st1_def[symmetric]
    by (auto simp: evaluate_expansion_recursion_guard_def expansion_delegation_depth_cap_def Let_def)
qed

subsection \<open>Examples\<close>

lemma sample_strip: "u_strip [97] = [97]" "u_strip [98] = [98]" "u_strip [] = []"
  by (simp_all add: u_strip_def u_lstrip_def u_rstrip_def u_isspace_def)


theorem blank_origin_slot_leaks_witness:
  "snd (acquire_expansion_concurrency_slot None [98] (release_expansion_concurrency_slot None (Some [97])
      (fst (acquire_expansion_concurrency_slot None [97] reset_guard)))) = Slot_Blocked [98] (cps ''main'')"
  using blank_origin_slot_leaks[of None "[97]" reset_guard "[98]" None "Some [97]"]
  by (simp add: sample_strip normalize_session_key_def or_main_def active_request_def reset_guard_def)

theorem delegated_session_refused_witness:
  "snd (evaluate_expansion_recursion_guard (\<lambda>_. None) [] [] (Some [97]) [98]
      (fst (evaluate_expansion_recursion_guard (\<lambda>_. None) [] [] (Some [97]) [98]
        (fst (stamp_delegated_expansion_context [] (Some [97]) [98]
          (resolve_next_expansion_depth (\<lambda>_. None) None reset_guard) None [] reset_guard))))) =
   Recursion_Blocked Idempotent_Reentry [98] 1 (cps ''main'')"
  using delegated_session_refused[of "Some [97]" "[]" "\<lambda>_. None" "[]" None "[]" "[98]" None "[]" "[]" "[]" "[98]"]
  by (simp add: sample_strip normalize_session_key_def or_main_def Let_def resolve_next_expansion_depth_def split: prod.splits)

end
