(* ===== verification/Token_Gate.thy ===== *)
theory Token_Gate
  imports Message_Parts
begin

text \<open>
  The token gate before the tools: the cap on tool results (\<open>plugin/result_budget.py\<close>), the running token
  count of each session (\<open>plugin/token_state.py\<close>), and the gate that refuses a call whose estimated
  result would push the context over the threshold (\<open>plugin/needs_compact_gate.py\<close>).

  The module state of the cap is the record \<open>budget_state\<close> (the value of the environment variable when
  the module was loaded, and the cap), the snapshots are a map, and a gated call is a function of the
  map and of what the tool does: a text or an exception with its message. JSON numbers are integers
  here, and the ratios are exact reals where the code divides floats. \<open>json.dumps\<close>, the parsing of the
  environment's text by \<open>int\<close>, and the clock are arguments.

  The properties: over any sequence of gated calls whose results are not larger than estimated, the
  count of a session stays under the threshold, up to what refusals and errors cost themselves; the
  count is always the last anchor and the results since; after a successful compaction nothing is
  counted until the next response of the model, so the gate is open until then.
\<close>

subsection \<open>The cap on results\<close>

definition floor_tokens :: int where "floor_tokens = 2000"
definition default_tokens :: int where "default_tokens = 10000"
definition chars_per_token :: int where "chars_per_token = 4"

record budget_state =
  bg_env_value_at_load :: "int option"
  bg_max_result_tokens :: int
  bg_max_result_chars :: int

definition resolve_from_env :: "(utext \<Rightarrow> int option) \<Rightarrow> utext option \<Rightarrow> int option" where
  "resolve_from_env parse_int env =
     (let raw = u_strip (case env of Some s \<Rightarrow> s | None \<Rightarrow> []) in
      if raw = [] then None
      else case parse_int raw of
        None \<Rightarrow> None
      | Some parsed \<Rightarrow> if parsed \<le> 0 then None else Some parsed)"

definition clamp_to_floor :: "int option \<Rightarrow> int" where
  "clamp_to_floor n =
     (let tokens = (case n of Some k \<Rightarrow> if 0 < k then k else default_tokens | None \<Rightarrow> default_tokens) in
      max floor_tokens tokens)"

definition set_max_result_tokens :: "int \<Rightarrow> budget_state \<Rightarrow> budget_state" where
  "set_max_result_tokens n bg = bg\<lparr>bg_max_result_tokens := n, bg_max_result_chars := n * chars_per_token\<rparr>"

definition load_budget :: "(utext \<Rightarrow> int option) \<Rightarrow> utext option \<Rightarrow> budget_state" where
  "load_budget parse_int env =
     (let v = resolve_from_env parse_int env; n = clamp_to_floor v in
      \<lparr>bg_env_value_at_load = v, bg_max_result_tokens = n, bg_max_result_chars = n * chars_per_token\<rparr>)"

definition apply_result_budget_config :: "int option \<Rightarrow> budget_state \<Rightarrow> budget_state" where
  "apply_result_budget_config from_config bg =
     (if bg_env_value_at_load bg \<noteq> None then bg
      else case from_config of
        Some n \<Rightarrow> if 0 < n then set_max_result_tokens (clamp_to_floor (Some n)) bg else bg
      | None \<Rightarrow> bg)"

definition truncation_notice :: "budget_state \<Rightarrow> utext \<Rightarrow> utext" where
  "truncation_notice bg reason_hint =
     cps ''*(truncated at ~'' @ int_text (bg_max_result_tokens bg) @ cps '' tokens to protect agent context '' @ [8212]
       @ cps '' '' @ reason_hint
       @ cps ''; raise LCM_TOOL_RESULT_TOKEN_BUDGET env or LcmConfig.toolResultTokenBudget to increase the cap)*''"

subsection \<open>The token count of a session\<close>

datatype update_source = Llm_Output | Tool_Self_Report

record token_snapshot =
  tk_current_token_count :: int
  tk_token_budget :: "int option"
  tk_anchor_at :: int
  tk_last_update_at :: int
  tk_last_update_source :: update_source

type_synonym token_map = "utext \<rightharpoonup> token_snapshot"

text \<open>\<open>usage.get(a) or usage.get(b) or 0\<close>, and \<open>int\<close> of a number.\<close>

fun first_truthy :: "string list \<Rightarrow> json \<Rightarrow> json" where
  "first_truthy [] usage = JInt 0"
| "first_truthy (k # ks) usage = (if truthy (jget k usage) then jget k usage else first_truthy ks usage)"

fun json_int :: "json \<Rightarrow> int" where
  "json_int (JInt n) = n"
| "json_int (JBool b) = of_bool b"
| "json_int _ = 0"

definition usage_tokens :: "json \<Rightarrow> int" where
  "usage_tokens usage =
     (let input_tokens = first_truthy [''input_tokens'', ''prompt_tokens''] usage;
          cache_read = first_truthy [''cache_read_tokens'', ''cache_read_input_tokens''] usage;
          cache_write = first_truthy [''cache_write_tokens'', ''cache_creation_input_tokens''] usage;
          details = jget ''prompt_tokens_details'' usage;
          cache_read' = (if truthy cache_read then cache_read
            else if is_obj details then first_truthy [''cached_tokens''] details else cache_read) in
      json_int input_tokens + json_int cache_read' + json_int cache_write)"

definition record_llm_output :: "int \<Rightarrow> utext option \<Rightarrow> json \<Rightarrow> int option \<Rightarrow> token_map \<Rightarrow> token_map" where
  "record_llm_output now session_key usage token_budget tm =
     (case session_key of
        None \<Rightarrow> tm
      | Some k \<Rightarrow> if k = [] then tm
          else let resolved = (case token_budget of
                 Some b \<Rightarrow> Some b
               | None \<Rightarrow> (case tm k of Some s \<Rightarrow> tk_token_budget s | None \<Rightarrow> None)) in
            tm(k \<mapsto> \<lparr>tk_current_token_count = usage_tokens usage, tk_token_budget = resolved, tk_anchor_at = now,
              tk_last_update_at = now, tk_last_update_source = Llm_Output\<rparr>))"

text \<open>\<open>(len(result_text) + 3) // 4\<close>\<close>

definition text_tokens :: "utext \<Rightarrow> int" where
  "text_tokens t = (int (length t) + 3) div 4"

definition accumulate_tool_result_tokens :: "int \<Rightarrow> utext option \<Rightarrow> utext \<Rightarrow> token_map \<Rightarrow> token_map" where
  "accumulate_tool_result_tokens now session_key result_text tm =
     (case session_key of
        None \<Rightarrow> tm
      | Some k \<Rightarrow> if k = [] \<or> result_text = [] then tm
          else case tm k of
            None \<Rightarrow> tm
          | Some s \<Rightarrow> tm(k \<mapsto> s\<lparr>tk_current_token_count := tk_current_token_count s + text_tokens result_text,
              tk_last_update_at := now, tk_last_update_source := Tool_Self_Report\<rparr>))"

definition get_runtime_context :: "utext option \<Rightarrow> token_map \<Rightarrow> token_snapshot option" where
  "get_runtime_context session_key tm = (case session_key of None \<Rightarrow> None | Some k \<Rightarrow> if k = [] then None else tm k)"

definition note_successful_compact :: "utext option \<Rightarrow> token_map \<Rightarrow> token_map" where
  "note_successful_compact session_key tm =
     (case session_key of None \<Rightarrow> tm | Some k \<Rightarrow> if k = [] then tm else tm(k := None))"

subsection \<open>The estimate\<close>

fun int_or :: "int \<Rightarrow> json \<Rightarrow> int" where
  "int_or d (JInt n) = n"
| "int_or d (JBool b) = of_bool b"
| "int_or d _ = d"

text \<open>\<open>math.ceil(chars / 4)\<close>\<close>

definition chars_to_tokens :: "int \<Rightarrow> int" where
  "chars_to_tokens chars = \<lceil>real_of_int chars / 4\<rceil>"

definition grep_mode :: "json \<Rightarrow> json" where
  "grep_mode params = (if truthy (jget ''mode'' params) then jget ''mode'' params else JStr (cps ''regex''))"

definition estimate_result_tokens :: "budget_state \<Rightarrow> string \<Rightarrow> json \<Rightarrow> int" where
  "estimate_result_tokens bg tool_name params =
     (let cap = bg_max_result_tokens bg; limit = int_or 20 (jget ''limit'' params);
          capped = (\<lambda>chars. min cap (chars_to_tokens chars)) in
      if tool_name = ''lcm_grep'' then
        (let mode = grep_mode params in
         if mode = JStr (cps ''regex'') \<or> mode = JStr (cps ''full_text'') then capped (200 + limit * 200)
         else if mode = JStr (cps ''hybrid'') then capped (250 + limit * 230)
         else if mode = JStr (cps ''semantic'') then capped (350 + limit * 215)
         else if mode = JStr (cps ''verbatim'') then capped (70 + min 20 limit * 2400)
         else 1500)
      else if tool_name = ''lcm_describe'' then
        capped (350 + 5 * 250 + 3200
          + (if truthy (jget ''expandChildren'' params) then int_or 20 (jget ''expandChildrenLimit'' params) * 2000 else 0)
          + (if truthy (jget ''expandMessages'' params) then int_or 20 (jget ''expandMessagesLimit'' params) * 600 else 0))
      else if tool_name = ''lcm_get_entity'' then capped (250 + int_or 20 (jget ''mentionLimit'' params) * 110)
      else if tool_name = ''lcm_search_entities'' then capped (420 + limit * 85)
      else if tool_name = ''lcm_expand_query'' then min cap (int_or 2000 (jget ''maxTokens'' params) + 200)
      else if tool_name = ''lcm_compact'' then 150
      else if tool_name = ''lcm_synthesize_around'' then 6000
      else 1000)"

subsection \<open>The gate\<close>

definition refusal_threshold :: real where "refusal_threshold = 92 / 100"

record needs_compact_refusal =
  nc_current_ratio :: real
  nc_estimated_result_tokens :: int
  nc_projected_ratio :: real
  nc_note :: utext
  nc_suggested_actions :: "utext list"

text \<open>The suggestion for a numeric parameter that can be halved; a boolean is not a number here.\<close>

definition halving :: "string \<Rightarrow> json \<Rightarrow> utext list" where
  "halving key params = (case jget key params of
     JInt n \<Rightarrow> if 5 < n then [cps ''retry with '' @ cps key @ cps ''='' @ int_text (max 5 (n div 2))] else []
   | _ \<Rightarrow> [])"

definition suggested_actions :: "string \<Rightarrow> json \<Rightarrow> utext list" where
  "suggested_actions tool_name params =
     cps ''lcm_compact then retry with same params''
     # halving ''limit'' params @ halving ''expandChildrenLimit'' params @ halving ''expandMessagesLimit'' params
     @ (if tool_name = ''lcm_describe'' \<and> truthy (jget ''expandChildren'' params) \<and> truthy (jget ''expandMessages'' params)
        then [cps ''retry without one of the expand flags (e.g. drop expandMessages, keep expandChildren)''] else [])"

definition evaluate_needs_compact_gate ::
    "budget_state \<Rightarrow> string \<Rightarrow> json \<Rightarrow> int option \<Rightarrow> int option \<Rightarrow> real option \<Rightarrow> needs_compact_refusal option" where
  "evaluate_needs_compact_gate bg tool_name params current_token_count token_budget threshold_override =
     (let threshold = (case threshold_override of Some t \<Rightarrow> t | None \<Rightarrow> refusal_threshold) in
      case current_token_count of
        None \<Rightarrow> None
      | Some current \<Rightarrow> if current < 0 then None else
        (case token_budget of
          None \<Rightarrow> None
        | Some budget \<Rightarrow> if budget \<le> 0 then None else
          let estimated = estimate_result_tokens bg tool_name params;
              current_ratio = real_of_int current / real_of_int budget;
              projected_ratio = real_of_int (current + estimated) / real_of_int budget in
          if projected_ratio \<le> threshold then None
          else Some \<lparr>
            nc_current_ratio = real_of_int (py_round (current_ratio * 1000)) / 1000,
            nc_estimated_result_tokens = estimated,
            nc_projected_ratio = real_of_int (py_round (projected_ratio * 1000)) / 1000,
            nc_note = cps ''Serving this call would push context to '' @ int_text (py_round (projected_ratio * 100))
              @ cps ''% of budget (currently at '' @ int_text (py_round (current_ratio * 100))
              @ cps ''%, would add ~'' @ int_text estimated
              @ cps '' tokens). Refusing to prevent overflow. Call lcm_compact to free space, then retry '' @ [8212]
              @ cps '' OR narrow params to reduce expected size.'',
            nc_suggested_actions = suggested_actions tool_name params\<rparr>))"

record gate_env =
  ge_budget :: budget_state
  ge_dumps_refusal :: "needs_compact_refusal \<Rightarrow> utext"
  ge_dumps_error :: "utext \<Rightarrow> utext"

text \<open>What a call hands back: a text, or the exception of the tool with its message; and whether the tool ran.\<close>

datatype gate_outcome = Refused utext | Served utext | Tool_Raised utext

definition run_with_token_gate ::
    "gate_env \<Rightarrow> int \<Rightarrow> string \<Rightarrow> json \<Rightarrow> utext option \<Rightarrow> int option \<Rightarrow> int option \<Rightarrow> (utext + utext)
     \<Rightarrow> token_map \<Rightarrow> token_map \<times> gate_outcome" where
  "run_with_token_gate env now tool_name params session_key current_token_count token_budget inner tm =
     (case evaluate_needs_compact_gate (ge_budget env) tool_name params current_token_count token_budget None of
        Some refusal \<Rightarrow>
          let refusal_text = ge_dumps_refusal env refusal in
          (accumulate_tool_result_tokens now session_key refusal_text tm, Refused refusal_text)
      | None \<Rightarrow> (case inner of
          Inl message \<Rightarrow>
            let error_text = ge_dumps_error env (cps tool_name @ cps '': '' @ message) in
            (accumulate_tool_result_tokens now session_key error_text tm, Tool_Raised error_text)
        | Inr result \<Rightarrow> (accumulate_tool_result_tokens now session_key result tm, Served result)))"

text \<open>\<open>_run_with_token_gate\<close> of the engine: the counts come from the snapshot of the session.\<close>

definition gated_call ::
    "gate_env \<Rightarrow> int \<Rightarrow> string \<Rightarrow> json \<Rightarrow> utext option \<Rightarrow> (utext + utext) \<Rightarrow> token_map \<Rightarrow> token_map \<times> gate_outcome" where
  "gated_call env now tool_name params session_key inner tm =
     (let view = get_runtime_context session_key tm in
      run_with_token_gate env now tool_name params session_key (map_option tk_current_token_count view)
        (case view of None \<Rightarrow> None | Some s \<Rightarrow> tk_token_budget s) inner tm)"

subsection \<open>The cap and the ledger\<close>

text \<open>However the module is loaded and configured, the cap is at least the floor, the characters are four
  to a token, and a value of the environment cannot be changed by the configuration.\<close>

lemma cap_at_least_floor:
  "let bg = fold apply_result_budget_config configs (load_budget parse_int env) in
     floor_tokens \<le> bg_max_result_tokens bg \<and> bg_max_result_chars bg = bg_max_result_tokens bg * chars_per_token
   \<and> (resolve_from_env parse_int env \<noteq> None \<longrightarrow> bg = load_budget parse_int env)"
proof -
  let ?ok = "\<lambda>bg. floor_tokens \<le> bg_max_result_tokens bg \<and> bg_max_result_chars bg = bg_max_result_tokens bg * chars_per_token"
  have "?ok (apply_result_budget_config c bg)" if "?ok bg" for c bg
    using that by (auto simp: apply_result_budget_config_def set_max_result_tokens_def clamp_to_floor_def Let_def
        split: option.split)
  then have "?ok bg \<Longrightarrow> ?ok (fold apply_result_budget_config configs bg)" for bg
    by (induction configs arbitrary: bg) simp_all
  moreover have "?ok (load_budget parse_int env)" by (simp add: load_budget_def clamp_to_floor_def Let_def)
  moreover have "bg_env_value_at_load bg \<noteq> None \<Longrightarrow> fold apply_result_budget_config configs bg = bg" for bg
    by (induction configs) (simp_all add: apply_result_budget_config_def)
  moreover have "bg_env_value_at_load (load_budget parse_int env) = resolve_from_env parse_int env"
    by (simp add: load_budget_def Let_def)
  ultimately show ?thesis by (simp add: Let_def)
qed

lemma text_tokens_nonneg [simp]: "0 \<le> text_tokens t"
  by (simp add: text_tokens_def)

lemma text_tokens_Nil [simp]: "text_tokens [] = 0"
  by (simp add: text_tokens_def)

lemma accumulate_Some:
  "tm k = Some s \<Longrightarrow> k \<noteq> [] \<Longrightarrow>
    \<exists>s'. accumulate_tool_result_tokens now (Some k) t tm k = Some s'
      \<and> tk_current_token_count s' = tk_current_token_count s + text_tokens t
      \<and> tk_token_budget s' = tk_token_budget s \<and> tk_anchor_at s' = tk_anchor_at s"
  by (auto simp: accumulate_tool_result_tokens_def)

lemma accumulate_None: "tm k = None \<Longrightarrow> accumulate_tool_result_tokens now (Some k) t tm k = None"
  by (simp add: accumulate_tool_result_tokens_def)

lemma accumulate_other: "k \<noteq> k' \<Longrightarrow> accumulate_tool_result_tokens now (Some k) t tm k' = tm k'"
  by (auto simp: accumulate_tool_result_tokens_def split: option.split)

text \<open>The count is the last anchor and the results since.\<close>

lemma ledger_exact:
  assumes "k \<noteq> []"
  shows "\<exists>s. fold (\<lambda>(now, t). accumulate_tool_result_tokens now (Some k) t) results
       (record_llm_output now (Some k) usage budget tm) k = Some s
     \<and> tk_current_token_count s = usage_tokens usage + sum_list (map (\<lambda>(now, t). text_tokens t) results)
     \<and> tk_anchor_at s = now"
proof -
  have "\<exists>s'. fold (\<lambda>(now, t). accumulate_tool_result_tokens now (Some k) t) results tm k = Some s'
     \<and> tk_current_token_count s' = tk_current_token_count s + sum_list (map (\<lambda>(now, t). text_tokens t) results)
     \<and> tk_anchor_at s' = tk_anchor_at s" if "tm k = Some s" for tm s
    using that
  proof (induction results arbitrary: tm s)
    case (Cons r results)
    obtain n t where r: "r = (n, t)" by fastforce
    from accumulate_Some[of tm k s, OF Cons.prems assms, of n t] obtain s1 where
      "accumulate_tool_result_tokens n (Some k) t tm k = Some s1"
      "tk_current_token_count s1 = tk_current_token_count s + text_tokens t" "tk_anchor_at s1 = tk_anchor_at s" by blast
    with Cons.IH[of "accumulate_tool_result_tokens n (Some k) t tm" s1] show ?case by (simp add: r add.assoc)
  qed simp
  from this[of "record_llm_output now (Some k) usage budget tm"] assms show ?thesis
    by (simp add: record_llm_output_def Let_def)
qed

text \<open>The count of a provider that reports the cached part of the prompt as a part of \<open>prompt_tokens\<close>
  has that part twice.\<close>

lemma cached_tokens_counted_twice:
  "usage_tokens (JObj [(''prompt_tokens'', JInt n), (''prompt_tokens_details'', JObj [(''cached_tokens'', JInt c)])]) = n + c"
  by (simp add: usage_tokens_def Let_def)

lemma estimate_at_most: "estimate_result_tokens bg tool params \<le> max (bg_max_result_tokens bg) 6000"
  by (auto simp: estimate_result_tokens_def Let_def le_max_iff_disj min_le_iff_disj)

text \<open>Some estimates ignore the cap, and a negative limit makes the estimate negative.\<close>

lemma estimate_over_cap:
  "bg_max_result_tokens bg = 2000 \<Longrightarrow> bg_max_result_tokens bg < estimate_result_tokens bg ''lcm_synthesize_around'' params"
  by (simp add: estimate_result_tokens_def Let_def)

lemma negative_limit_estimate:
  "floor_tokens \<le> bg_max_result_tokens bg \<Longrightarrow>
    estimate_result_tokens bg ''lcm_grep'' (JObj [(''limit'', JInt (- 1000))]) = - 49950"
  by (simp add: estimate_result_tokens_def grep_mode_def chars_to_tokens_def floor_tokens_def Let_def)

subsection \<open>Sequences of gated calls\<close>

type_synonym tool_call = "int \<times> string \<times> json \<times> (utext + utext)"

fun run_gated :: "gate_env \<Rightarrow> utext \<Rightarrow> tool_call list \<Rightarrow> token_map \<Rightarrow> token_map \<times> gate_outcome list" where
  "run_gated env key [] tm = (tm, [])"
| "run_gated env key ((now, tool, params, inner) # calls) tm =
     (case gated_call env now tool params (Some key) inner tm of (tm1, o1) \<Rightarrow>
      case run_gated env key calls tm1 of (tm2, os) \<Rightarrow> (tm2, o1 # os))"

text \<open>What the calls cost that did not deliver a result.\<close>

fun overhead :: "gate_outcome \<Rightarrow> int" where
  "overhead (Refused t) = text_tokens t"
| "overhead (Tool_Raised t) = text_tokens t"
| "overhead (Served t) = 0"

fun honest :: "gate_env \<Rightarrow> tool_call \<Rightarrow> bool" where
  "honest env (now, tool, params, Inr t) = (text_tokens t \<le> estimate_result_tokens (ge_budget env) tool params)"
| "honest env (now, tool, params, Inl e) = True"

lemma overhead_nonneg: "0 \<le> overhead x"
  by (cases x) simp_all

lemma gated_step:
  assumes "tm key = Some s" "key \<noteq> []" "tk_token_budget s = Some b" "0 < b" "0 \<le> tk_current_token_count s"
    and "honest env (now, tool, params, inner)" "gated_call env now tool params (Some key) inner tm = (tm', r)"
  shows "\<exists>s'. tm' key = Some s' \<and> tk_token_budget s' = Some b \<and> 0 \<le> tk_current_token_count s'
    \<and> real_of_int (tk_current_token_count s')
      \<le> max (real_of_int (tk_current_token_count s)) (refusal_threshold * real_of_int b) + real_of_int (overhead r)"
proof -
  let ?c = "tk_current_token_count s"
  let ?e = "estimate_result_tokens (ge_budget env) tool params"
  let ?gate = "evaluate_needs_compact_gate (ge_budget env) tool params (Some ?c) (Some b) None"
  have call: "run_with_token_gate env now tool params (Some key) (Some ?c) (Some b) inner tm = (tm', r)"
    using assms(1-3,7) by (simp add: gated_call_def get_runtime_context_def)
  obtain t where t: "tm' = accumulate_tool_result_tokens now (Some key) t tm"
    and cases: "overhead r = text_tokens t \<or> overhead r = 0 \<and> ?gate = None \<and> inner = Inr t"
    using call by (auto simp: run_with_token_gate_def Let_def split: option.splits sum.splits)
  from accumulate_Some[of tm key s, OF assms(1,2), of now t] obtain s' where
    s': "tm' key = Some s'" "tk_current_token_count s' = ?c + text_tokens t" "tk_token_budget s' = Some b"
    using t assms(3) by auto
  have "real_of_int (?c + text_tokens t)
      \<le> max (real_of_int ?c) (refusal_threshold * real_of_int b) + real_of_int (overhead r)"
    using cases
  proof
    assume "overhead r = 0 \<and> ?gate = None \<and> inner = Inr t"
    then have "real_of_int (?c + ?e) / real_of_int b \<le> refusal_threshold" "text_tokens t \<le> ?e" "overhead r = 0"
      using assms(4-6) by (auto simp: evaluate_needs_compact_gate_def Let_def split: if_splits)
    then have "real_of_int (?c + text_tokens t) \<le> refusal_threshold * real_of_int b"
      using assms(4) by (simp add: divide_le_eq)
    with \<open>overhead r = 0\<close> show ?thesis by simp
  next
    assume "overhead r = text_tokens t"
    then show ?thesis by simp
  qed
  with s' assms(5) show ?thesis by (intro exI[of _ s']) (simp add: text_tokens_nonneg del: of_int_add)
qed

lemma gated_run:
  assumes "tm key = Some s" "key \<noteq> []" "tk_token_budget s = Some b" "0 < b" "0 \<le> tk_current_token_count s"
    and "list_all (honest env) calls" "run_gated env key calls tm = (tm', rs)"
  shows "\<exists>s'. tm' key = Some s' \<and> tk_token_budget s' = Some b
    \<and> real_of_int (tk_current_token_count s')
      \<le> max (real_of_int (tk_current_token_count s)) (refusal_threshold * real_of_int b) + real_of_int (sum_list (map overhead rs))"
  using assms(1,3,5-7)
proof (induction calls arbitrary: tm s rs)
  case (Cons c calls)
  obtain now tool params inner where c: "c = (now, tool, params, inner)" by (cases c) auto
  obtain tm1 r where step: "gated_call env now tool params (Some key) inner tm = (tm1, r)" by fastforce
  obtain rs' where rest: "run_gated env key calls tm1 = (tm', rs')" "rs = r # rs'"
    using Cons.prems(5) step by (auto simp: c split: prod.splits)
  have "honest env (now, tool, params, inner)" using Cons.prems(4) by (simp add: c)
  from gated_step[OF Cons.prems(1) assms(2) Cons.prems(2) assms(4) Cons.prems(3) this step] obtain s1 where
    s1: "tm1 key = Some s1" "tk_token_budget s1 = Some b" "0 \<le> tk_current_token_count s1"
      "real_of_int (tk_current_token_count s1)
        \<le> max (real_of_int (tk_current_token_count s)) (refusal_threshold * real_of_int b) + real_of_int (overhead r)" by blast
  have "list_all (honest env) calls" using Cons.prems(4) by simp
  from Cons.IH[OF s1(1-3) this rest(1)] s1(4) overhead_nonneg[of r] show ?case by (auto simp: rest(2))
qed simp

text \<open>The gate keeps a session under the threshold: over any sequence of gated calls whose results are not larger
  than the estimate, the counted context stays within 92 percent of the budget (or where it was, if that
  is more) plus what refusals and errors cost themselves.\<close>

theorem gate_keeps_threshold:
  assumes "tm key = Some s" "key \<noteq> []" "tk_token_budget s = Some b" "0 < b" "0 \<le> tk_current_token_count s"
    and "list_all (honest env) calls" "run_gated env key calls tm = (tm', rs)"
  shows "\<exists>s'. tm' key = Some s'
    \<and> real_of_int (tk_current_token_count s')
      \<le> max (real_of_int (tk_current_token_count s)) (refusal_threshold * real_of_int b) + real_of_int (sum_list (map overhead rs))"
  using gated_run[OF assms] by blast

lemma gated_without_snapshot:
  assumes "tm key = None" "run_gated env key calls tm = (tm', rs)"
  shows "tm' key = None \<and> list_all (\<lambda>r. case r of Refused t \<Rightarrow> False | _ \<Rightarrow> True) rs"
  using assms
proof (induction calls arbitrary: tm rs)
  case (Cons c calls)
  obtain now tool params inner where c: "c = (now, tool, params, inner)" by (cases c) auto
  obtain tm1 r where step: "gated_call env now tool params (Some key) inner tm = (tm1, r)" by fastforce
  obtain rs' where rest: "run_gated env key calls tm1 = (tm', rs')" "rs = r # rs'"
    using Cons.prems(2) step by (auto simp: c split: prod.splits)
  have "tm1 key = None" "case r of Refused t \<Rightarrow> False | _ \<Rightarrow> True"
    using step Cons.prems(1)
    by (auto simp: gated_call_def get_runtime_context_def run_with_token_gate_def evaluate_needs_compact_gate_def
        accumulate_None Let_def split: sum.splits if_splits)
  with Cons.IH[OF _ rest(1)] rest(2) show ?case by simp
qed simp

text \<open>The gate is open after a compaction: once a session's count was cleared, no call is refused and no result is
  counted, however large the results are, until the model's next response anchors the count again.\<close>

theorem gate_open_after_compact:
  assumes "key \<noteq> []" "run_gated env key calls (note_successful_compact (Some key) tm) = (tm', rs)"
  shows "get_runtime_context (Some key) tm' = None \<and> list_all (\<lambda>r. case r of Refused t \<Rightarrow> False | _ \<Rightarrow> True) rs"
  using gated_without_snapshot[OF _ assms(2)] assms(1)
  by (simp add: note_successful_compact_def get_runtime_context_def)

definition sample_gate_env :: gate_env where
  "sample_gate_env = \<lparr>ge_budget = load_budget (\<lambda>_. None) None, ge_dumps_refusal = (\<lambda>_. replicate 40 114),
     ge_dumps_error = (\<lambda>_. [101])\<rparr>"

definition sample_calls :: "tool_call list" where
  "sample_calls = [(1, ''lcm_compact'', JObj [], Inr (replicate 400 97)), (2, ''lcm_synthesize_around'', JObj [], Inr [98])]"

theorem gate_keeps_threshold_witness:
  "\<exists>s'. fst (run_gated sample_gate_env [107] sample_calls
       (record_llm_output 0 (Some [107]) (JObj [(''input_tokens'', JInt 500)]) (Some 1000) Map.empty)) [107] = Some s'
     \<and> real_of_int (tk_current_token_count s') \<le> 930"
proof -
  let ?tm = "record_llm_output 0 (Some [107]) (JObj [(''input_tokens'', JInt 500)]) (Some 1000) Map.empty"
  have start: "?tm [107] = Some \<lparr>tk_current_token_count = 500, tk_token_budget = Some 1000, tk_anchor_at = 0,
      tk_last_update_at = 0, tk_last_update_source = Llm_Output\<rparr>"
    by (simp add: record_llm_output_def usage_tokens_def Let_def)
  have honest: "list_all (honest sample_gate_env) sample_calls"
    by (simp add: sample_calls_def text_tokens_def estimate_result_tokens_def Let_def)
  obtain tm' rs where run: "run_gated sample_gate_env [107] sample_calls ?tm = (tm', rs)" by fastforce
  have "sum_list (map overhead rs) = 10"
    using run start
    by (auto simp: sample_calls_def gated_call_def get_runtime_context_def run_with_token_gate_def
        evaluate_needs_compact_gate_def estimate_result_tokens_def refusal_threshold_def accumulate_tool_result_tokens_def
        text_tokens_def sample_gate_env_def Let_def)
  with gate_keeps_threshold[OF start _ _ _ _ honest run, of 1000] run show ?thesis
    by (auto simp: refusal_threshold_def)
qed

theorem gate_open_after_compact_witness:
  "get_runtime_context (Some [107]) (fst (run_gated sample_gate_env [107] sample_calls
     (note_successful_compact (Some [107]) Map.empty))) = None"
proof -
  obtain tm' rs where "run_gated sample_gate_env [107] sample_calls (note_successful_compact (Some [107]) Map.empty) = (tm', rs)"
    by fastforce
  from gate_open_after_compact[OF _ this] this show ?thesis by simp
qed

end
