(* ===== verification/Summary_Prompts.thy ===== *)
theory Summary_Prompts
  imports Media_Text
begin

text \<open>
  The prompts of the summarizer (\<open>summarize.py\<close>): the leaf prompt in its two modes and the prompts of a
  condensed summary by depth, as the texts that are sent, and the fallback that is written without a
  model. The lemmas say that the source text stands unchanged in a prompt, and what the fallback keeps.
\<close>

subsection \<open>Shared pieces\<close>

datatype summary_mode = Normal | Aggressive

definition u_lines :: "utext list \<Rightarrow> utext" where
  "u_lines = u_join [10]"

definition u_blocks :: "utext list \<Rightarrow> utext" where
  "u_blocks = u_join [10, 10]"

definition lcm_summarizer_system_prompt :: utext where
  "lcm_summarizer_system_prompt = cps ''You are a context-compaction summarization engine. ''
     @ cps ''Follow user instructions exactly and return plain text summary content only.''"

definition normalize_previous_context :: "utext option \<Rightarrow> utext" where
  "normalize_previous_context previous_summary =
     (case previous_summary of
        None \<Rightarrow> cps ''(none)''
      | Some s \<Rightarrow> let stripped = u_strip s in if stripped \<noteq> [] then stripped else cps ''(none)'')"

definition instruction_block :: "utext option \<Rightarrow> utext" where
  "instruction_block custom_instructions =
     (case custom_instructions of
        None \<Rightarrow> cps ''Operator instructions: (none)''
      | Some s \<Rightarrow> let stripped = u_strip s in
          if stripped = [] then cps ''Operator instructions: (none)''
          else cps ''Operator instructions:'' @ [10] @ stripped)"

definition leaf_normal_policy :: utext where
  "leaf_normal_policy = u_lines
    [cps ''Normal summary policy:'',
     cps ''- Preserve key decisions, rationale, constraints, and active tasks.'',
     cps ''- Keep essential technical details needed to continue work safely.'',
     cps ''- Remove obvious repetition and conversational filler.'']"

definition leaf_aggressive_policy :: utext where
  "leaf_aggressive_policy = u_lines
    [cps ''Aggressive summary policy:'',
     cps ''- Keep only durable facts and current task state.'',
     cps ''- Remove examples, repetition, and low-value narrative details.'',
     cps ''- Preserve explicit TODOs, blockers, decisions, and constraints.'']"

subsection \<open>The leaf prompt\<close>

definition output_requirements :: "int \<Rightarrow> utext" where
  "output_requirements target_tokens = u_lines
    [cps ''Output requirements:'',
     cps ''- Plain text only.'',
     cps ''- No preamble, headings, or markdown formatting.'',
     cps ''- Keep it concise while preserving required details.'',
     cps ''- Track file operations (created, modified, deleted, renamed) with file paths and current status.'',
     cps ''- If no file operations appear, include exactly: \"Files: none\".'',
     cps ''- End with exactly: \"Expand for details about: <comma-separated list of what was dropped or compressed>\".'',
     cps ''- Target length: about '' @ int_text target_tokens @ cps '' tokens or less.'']"

definition build_leaf_prompt :: "utext \<Rightarrow> summary_mode \<Rightarrow> int \<Rightarrow> utext option \<Rightarrow> utext option \<Rightarrow> utext" where
  "build_leaf_prompt tx mode target_tokens previous_summary custom_instructions =
     (let previous_context = normalize_previous_context previous_summary;
          policy = (if mode = Aggressive then leaf_aggressive_policy else leaf_normal_policy);
          instruction_block = instruction_block custom_instructions;
          output_requirements = output_requirements target_tokens in u_blocks
    [cps ''You summarize a SEGMENT of an OpenClaw conversation for future model turns.'',
     cps ''Treat this as incremental memory compaction input, not a full-conversation summary.'',
     policy,
     instruction_block,
     output_requirements,
     cps ''<previous_context>'' @ [10] @ previous_context @ [10] @ cps ''</previous_context>'',
     cps ''<conversation_segment>'' @ [10] @ tx @ [10] @ cps ''</conversation_segment>''])"

subsection \<open>The prompts of condensed summaries\<close>

definition d1_body :: "int \<Rightarrow> utext" where
  "d1_body target_tokens = u_lines
    [cps ''Preserve:'',
     cps ''- Decisions made and their rationale when rationale matters going forward.'',
     cps ''- Earlier decisions that were superseded, and what replaced them.'',
     cps ''- Completed tasks/topics with outcomes.'',
     cps ''- In-progress items with current state and what remains.'',
     cps ''- Blockers, open questions, and unresolved tensions.'',
     cps ''- Specific references (names, paths, URLs, identifiers) needed for continuation.'',
     [],
     cps ''Drop low-value detail:'',
     cps ''- Context that has not changed from previous_context.'',
     cps ''- Intermediate dead ends where the conclusion is already known.'',
     cps ''- Transient states that are already resolved.'',
     cps ''- Tool-internal mechanics and process scaffolding.'',
     [],
     cps ''Use plain text. No mandatory structure.'',
     cps ''Include a timeline with timestamps (hour or half-hour) for significant events.'',
     cps ''Present information chronologically and mark superseded decisions.'',
     cps ''End with exactly: \"Expand for details about: <comma-separated list of what was dropped or compressed>\".'',
     cps ''Target length: about '' @ int_text target_tokens @ cps '' tokens.'']"

definition build_d1_prompt :: "utext \<Rightarrow> int \<Rightarrow> utext option \<Rightarrow> utext option \<Rightarrow> utext" where
  "build_d1_prompt tx target_tokens previous_summary custom_instructions =
     (let instruction_block = instruction_block custom_instructions;
          previous_context = (case previous_summary of None \<Rightarrow> [] | Some s \<Rightarrow> u_strip s);
          previous_context_block =
            (if previous_context \<noteq> [] then u_lines
    [cps ''It already has this preceding summary as context. Do not repeat information'',
     cps ''that appears there unchanged. Focus on what is new, changed, or resolved:'',
     [],
     cps ''<previous_context>'' @ [10] @ previous_context @ [10] @ cps ''</previous_context>'']
             else cps ''Focus on what matters for continuation:'');
          body = d1_body target_tokens in u_blocks
    [cps ''You are compacting leaf-level conversation summaries into a single condensed memory node.'',
     cps ''You are preparing context for a fresh model instance that will continue this conversation.'',
     instruction_block,
     previous_context_block,
     body,
     cps ''<conversation_to_condense>'' @ [10] @ tx @ [10] @ cps ''</conversation_to_condense>''])"

definition d2_body :: "int \<Rightarrow> utext" where
  "d2_body target_tokens = u_lines
    [cps ''Preserve:'',
     cps ''- Decisions still in effect and their rationale.'',
     cps ''- Decisions that evolved: what changed and why.'',
     cps ''- Completed work with outcomes.'',
     cps ''- Active constraints, limitations, and known issues.'',
     cps ''- Current state of in-progress work.'',
     [],
     cps ''Drop:'',
     cps ''- Session-local operational detail and process mechanics.'',
     cps ''- Identifiers that are no longer relevant.'',
     cps ''- Intermediate states superseded by later outcomes.'',
     [],
     cps ''Use plain text. Brief headers are fine if useful.'',
     cps ''Include a timeline with dates and approximate time of day for key milestones.'',
     cps ''End with exactly: \"Expand for details about: <comma-separated list of what was dropped or compressed>\".'',
     cps ''Target length: about '' @ int_text target_tokens @ cps '' tokens.'']"

definition build_d2_prompt :: "utext \<Rightarrow> int \<Rightarrow> utext option \<Rightarrow> utext" where
  "build_d2_prompt tx target_tokens custom_instructions =
     (let instruction_block = instruction_block custom_instructions; body = d2_body target_tokens in u_blocks
    [cps ''You are condensing multiple session-level summaries into a higher-level memory node.'',
     cps ''A future model should understand trajectory, not per-session minutiae.'',
     instruction_block,
     body,
     cps ''<conversation_to_condense>'' @ [10] @ tx @ [10] @ cps ''</conversation_to_condense>''])"

definition d3_body :: "int \<Rightarrow> utext" where
  "d3_body target_tokens = u_lines
    [cps ''Preserve:'',
     cps ''- Key decisions and rationale.'',
     cps ''- What was accomplished and current state.'',
     cps ''- Active constraints and hard limitations.'',
     cps ''- Important relationships between people, systems, or concepts.'',
     cps ''- Durable lessons learned.'',
     [],
     cps ''Drop:'',
     cps ''- Operational and process detail.'',
     cps ''- Method details unless the method itself was the decision.'',
     cps ''- Specific references unless essential for continuation.'',
     [],
     cps ''Use plain text. Be concise.'',
     cps ''Include a brief timeline with dates (or date ranges) for major milestones.'',
     cps ''End with exactly: \"Expand for details about: <comma-separated list of what was dropped or compressed>\".'',
     cps ''Target length: about '' @ int_text target_tokens @ cps '' tokens.'']"

definition build_d3_plus_prompt :: "utext \<Rightarrow> int \<Rightarrow> utext option \<Rightarrow> utext" where
  "build_d3_plus_prompt tx target_tokens custom_instructions =
     (let instruction_block = instruction_block custom_instructions; body = d3_body target_tokens in u_blocks
    [cps ''You are creating a high-level memory node from multiple phase-level summaries.'',
     cps ''This may persist for the rest of the conversation. Keep only durable context.'',
     instruction_block,
     body,
     cps ''<conversation_to_condense>'' @ [10] @ tx @ [10] @ cps ''</conversation_to_condense>''])"

definition build_condensed_prompt :: "utext \<Rightarrow> int \<Rightarrow> int \<Rightarrow> utext option \<Rightarrow> utext option \<Rightarrow> utext" where
  "build_condensed_prompt tx target_tokens depth previous_summary custom_instructions =
     (if depth \<le> 1 then build_d1_prompt tx target_tokens previous_summary custom_instructions
      else if depth = 2 then build_d2_prompt tx target_tokens custom_instructions
      else build_d3_plus_prompt tx target_tokens custom_instructions)"

subsection \<open>The fallback\<close>

definition fallback_marker :: utext where
  "fallback_marker = cps ''[LCM fallback summary '' @ [8212] @ cps '' model unavailable; raw source preserved verbatim below]''"

definition fallback_marker_trunc :: utext where
  "fallback_marker_trunc =
     cps ''[LCM fallback summary '' @ [8212] @ cps '' model unavailable; raw source truncated for context management]''"

definition build_deterministic_fallback :: "utext \<Rightarrow> int \<Rightarrow> utext" where
  "build_deterministic_fallback tx target_tokens =
     (if tx = [] then []
      else let trimmed = u_strip tx in
        if trimmed = [] then []
        else let max_chars = max 256 (target_tokens * 4) in
          if int (length trimmed) \<le> max_chars then fallback_marker @ [10] @ trimmed
          else fallback_marker_trunc @ [10] @ take (nat max_chars) trimmed)"

end
