(* ===== verification/Summarizer.thy ===== *)
theory Summarizer
  imports Compaction_Pass Message_Parts Summary_Prompts
begin

text \<open>
  The summarizer with its chain of providers (\<open>summarize.py\<close>): how a response is read as a text, how
  authentication and other failures are recognised, which candidates are resolved, and the loop over
  them with its retries.

  What is not code of the repository is the record \<open>summarizer_env\<close>: the completion call, as a function
  of the number of calls made before and the request, which answers, raises or overruns its time; the
  key store; the provider predicate of the host; \<open>int\<close> on a text; the table of alphanumeric code points;
  and the rounding of floating-point products. An exception is its type name, its message and its
  attributes as JSON values (an attribute that is none of Python's JSON types is \<open>JBool True\<close>). The state
  of a run is the log of the requests and of the pauses. Block types, which are only logged, are left out.
\<close>

subsection \<open>Failures\<close>

record provider_auth_failure =
  af_status_code :: "int option"
  af_message :: "utext option"
  af_missing_model_request_scope :: bool

record provider_response_failure =
  rf_status_code :: "int option"
  rf_finish_reason :: "utext option"
  rf_code :: "utext option"
  rf_message :: "utext option"

datatype call_exn =
    Provider_Auth_Error utext utext provider_auth_failure
  | Provider_Response_Error utext utext provider_response_failure
  | Timeout_Error int string
  | Other_Error utext utext "(string \<times> json) list"

definition build_provider_auth_warning :: "utext \<Rightarrow> utext \<Rightarrow> provider_auth_failure \<Rightarrow> utext" where
  "build_provider_auth_warning provider model failure =
     (let detail_parts = (if af_status_code failure = Some 401 then [cps ''401''] else [])
            @ (if af_missing_model_request_scope failure then [cps ''missing model.request scope''] else []);
          detail = (if detail_parts \<noteq> [] then cps ''provider auth error ('' @ u_join (cps '' / '') detail_parts @ cps '')''
            else cps ''provider auth error'');
          message_suffix = (case af_message failure of
              Some m \<Rightarrow> if m \<noteq> [] \<and> \<not> af_missing_model_request_scope failure then cps '' Detail: '' @ m else []
            | None \<Rightarrow> []) in
      cps ''[lcm] compaction failed: '' @ detail @ cps ''. Check that the configured ''
        @ cps ''summaryProvider has valid API credentials. '' @ cps ''Current: '' @ provider @ cps ''/'' @ model
        @ message_suffix)"

definition build_provider_response_warning :: "utext \<Rightarrow> utext \<Rightarrow> provider_response_failure \<Rightarrow> utext" where
  "build_provider_response_warning provider model failure =
     (let part = (\<lambda>label x. case x of Some s \<Rightarrow> if s \<noteq> [] then [label @ s] else [] | None \<Rightarrow> []);
          detail_parts = (case rf_status_code failure of Some n \<Rightarrow> [int_text n] | None \<Rightarrow> [])
            @ part (cps ''finish='') (rf_finish_reason failure) @ part (cps ''code='') (rf_code failure);
          detail = (if detail_parts \<noteq> [] then cps '' ('' @ u_join (cps '' / '') detail_parts @ cps '')'' else []) in
      cps ''[lcm] provider error response'' @ detail @ cps ''; provider='' @ provider @ cps ''; model='' @ model
        @ (case rf_message failure of Some m \<Rightarrow> if m \<noteq> [] then cps '' Detail: '' @ m else [] | None \<Rightarrow> []))"

definition timeout_message :: "int \<Rightarrow> string \<Rightarrow> utext" where
  "timeout_message ms label =
     cps ''[lcm] summarizer timeout after '' @ int_text ms @ cps ''ms ('' @ cps label @ cps '')''"

subsection \<open>Regular expressions\<close>

text \<open>
  The patterns of the module are sequences of these atoms, searched with \<open>re.IGNORECASE\<close>: a letter, an
  optional character of a class, \<open>\s+\<close>, and \<open>\b\<close>. \<open>prev\<close> is the character before the place.
\<close>

datatype re_atom = Ch nat | Opt_In "nat list" | Spaces | Bound

definition word_at :: "(nat \<Rightarrow> bool) \<Rightarrow> nat option \<Rightarrow> bool" where
  "word_at is_alnum c = (case c of None \<Rightarrow> False | Some x \<Rightarrow> word_char is_alnum x)"

fun next_char :: "utext \<Rightarrow> nat option" where
  "next_char [] = None"
| "next_char (c # cs) = Some c"

function re_match :: "(nat \<Rightarrow> bool) \<Rightarrow> nat option \<Rightarrow> re_atom list \<Rightarrow> utext \<Rightarrow> bool" where
  "re_match al prev [] s = True"
| "re_match al prev (Ch p # ps) [] = False"
| "re_match al prev (Ch p # ps) (c # cs) = (ci_eq p c \<and> re_match al (Some c) ps cs)"
| "re_match al prev (Opt_In cl # ps) [] = re_match al prev ps []"
| "re_match al prev (Opt_In cl # ps) (c # cs) =
     (list_ex (\<lambda>p. ci_eq p c) cl \<and> re_match al (Some c) ps cs \<or> re_match al prev ps (c # cs))"
| "re_match al prev (Spaces # ps) [] = False"
| "re_match al prev (Spaces # ps) (c # cs) =
     (u_isspace c \<and> (re_match al (Some c) (Spaces # ps) cs \<or> re_match al (Some c) ps cs))"
| "re_match al prev (Bound # ps) s =
     (word_at al prev \<noteq> word_at al (next_char s) \<and> re_match al prev ps s)"
  by pat_completeness auto
termination by (relation "measure (\<lambda>(al, prev, ps, s). length ps + length s)") auto

fun re_search_from :: "(nat \<Rightarrow> bool) \<Rightarrow> nat option \<Rightarrow> re_atom list \<Rightarrow> utext \<Rightarrow> bool" where
  "re_search_from al prev ps [] = re_match al prev ps []"
| "re_search_from al prev ps (c # cs) = (re_match al prev ps (c # cs) \<or> re_search_from al (Some c) ps cs)"

definition re_search :: "(nat \<Rightarrow> bool) \<Rightarrow> re_atom list \<Rightarrow> utext \<Rightarrow> bool" where
  "re_search al ps s = re_search_from al None ps s"

definition lits :: "string \<Rightarrow> re_atom list" where
  "lits s = map Ch (cps s)"

definition sep :: re_atom where "sep = Opt_In [95, 32, 45]"

definition auth_error_text_pattern :: "re_atom list list" where
  "auth_error_text_pattern =
     [[Bound] @ lits ''401'' @ [Bound], lits ''unauthorized'', lits ''unauthorised'',
      lits ''invalid'' @ [sep] @ lits ''token'', lits ''invalid'' @ [sep] @ lits ''api'' @ [sep] @ lits ''key'',
      lits ''authentication failed'', lits ''authorization failed'', lits ''missing scope'',
      lits ''insufficient scope'', lits ''model.request'' @ [Bound]]"

text \<open>\<open>re.sub(r"\s+", " ", s)\<close>\<close>

fun collapse_from :: "bool \<Rightarrow> utext \<Rightarrow> utext" where
  "collapse_from prev [] = []"
| "collapse_from prev (c # cs) =
     (if u_isspace c then (if prev then [] else [32]) @ collapse_from True cs else c # collapse_from False cs)"

definition collapse_spaces :: "utext \<Rightarrow> utext" where
  "collapse_spaces s = collapse_from False s"

subsection \<open>The text of a response\<close>

definition is_reasoning_like_type :: "json \<Rightarrow> bool" where
  "is_reasoning_like_type value = (case value of
     JStr s \<Rightarrow> let normalized = u_lower (u_strip s) in
       contains (cps ''reasoning'') normalized \<or> contains (cps ''thinking'') normalized
   | _ \<Rightarrow> False)"

definition str_chunk :: "json \<Rightarrow> utext list" where
  "str_chunk value = (case value of JStr s \<Rightarrow> [s] | _ \<Rightarrow> [])"

fun append_text_value :: "json \<Rightarrow> utext list" where
  "append_text_value (JStr s) = [s]"
| "append_text_value (JArr xs) = concat (map append_text_value xs)"
| "append_text_value (JObj kvs) = str_chunk (jget ''value'' (JObj kvs)) @ str_chunk (jget ''text'' (JObj kvs))"
| "append_text_value _ = []"

lemma size_jget: "has_key k v \<Longrightarrow> size (jget k v) < size v"
proof (cases v)
  case (JObj kvs)
  have "map_of kvs k = Some x \<Longrightarrow> size x < Suc (size_list (size_prod (\<lambda>_. 0) size) kvs)" for x
    by (induction kvs) (auto split: if_splits)
  then show "has_key k v \<Longrightarrow> ?thesis" by (auto simp: JObj has_key_def split: option.split)
qed (simp_all add: has_key_def)

lemma size_arr: "x \<in> set xs \<Longrightarrow> size x < size (JArr xs)"
  by (induction xs) auto

function collect_text_like_fields :: "json \<Rightarrow> utext list" where
  "collect_text_like_fields (JArr xs) = concat (map collect_text_like_fields xs)"
| "collect_text_like_fields (JObj kvs) =
     (if is_reasoning_like_type (jget ''type'' (JObj kvs)) then []
      else concat (map (\<lambda>key. if has_key key (JObj kvs) then append_text_value (jget key (JObj kvs)) else [])
             [''text'', ''output_text''])
        @ concat (map (\<lambda>key. if has_key key (JObj kvs) then collect_text_like_fields (jget key (JObj kvs)) else [])
             [''content'', ''summary'', ''output'', ''message'', ''response'']))"
| "collect_text_like_fields JNull = []"
| "collect_text_like_fields (JBool b) = []"
| "collect_text_like_fields (JInt n) = []"
| "collect_text_like_fields (JStr s) = []"
  by pat_completeness auto
termination
  by (relation "measure size") (auto simp del: jget.simps gjson.size simp: size_jget size_arr)

definition normalize_text_fragments :: "utext list \<Rightarrow> utext" where
  "normalize_text_fragments chunks =
     u_strip (u_join [10] (dedupe_from [] (filter (\<lambda>s. s \<noteq> []) (map u_strip chunks))))"

definition normalize_completion_summary :: "json \<Rightarrow> utext" where
  "normalize_completion_summary content = normalize_text_fragments (collect_text_like_fields content)"

subsection \<open>Recognising failures\<close>

record llm_request =
  rq_provider :: utext
  rq_model :: utext
  rq_api_key :: "utext option"
  rq_user_prompt :: utext
  rq_max_tokens :: int
  rq_reasoning :: "string option"
  rq_skip_model_auth :: bool
  rq_timeout_ms :: int

datatype provider_outcome = Completed json | Raised call_exn | Overrun

record summarizer_env =
  se_complete :: "nat \<Rightarrow> llm_request \<Rightarrow> provider_outcome"
  se_api_key :: "nat \<Rightarrow> utext \<Rightarrow> utext \<Rightarrow> bool \<Rightarrow> call_exn + utext option"
  se_runtime_managed :: "utext \<Rightarrow> bool option"
  se_parse_int :: "utext \<Rightarrow> int option"
  se_is_alnum :: "nat \<Rightarrow> bool"
  se_fl :: "real \<Rightarrow> real"

definition truncate_diagnostic_text :: "utext \<Rightarrow> nat \<Rightarrow> utext" where
  "truncate_diagnostic_text value max_chars =
     (if length value \<le> max_chars then value
      else take max_chars value @ cps ''...[truncated:'' @ int_text (int (length value - max_chars)) @ cps '' chars]'')"

text \<open>The depth of the source counts up to four; here the first argument is what is left of it.\<close>

fun collect_auth_failure_text :: "nat \<Rightarrow> json \<Rightarrow> utext list" where
  "collect_auth_failure_text 0 value = []"
| "collect_auth_failure_text (Suc left) (JStr s) = (if u_strip s \<noteq> [] then [u_strip s] else [])"
| "collect_auth_failure_text (Suc left) (JArr xs) = concat (map (collect_auth_failure_text left) (take 8 xs))"
| "collect_auth_failure_text (Suc left) (JObj kvs) =
     concat (map (collect_auth_failure_text left) (take 16 (map snd kvs)))"
| "collect_auth_failure_text (Suc left) _ = []"

definition auth_error_status_keys :: "string list" where
  "auth_error_status_keys = [''status'', ''statusCode'', ''status_code'']"

definition auth_error_nested_keys :: "string list" where
  "auth_error_nested_keys = [''error'', ''response'', ''cause'', ''details'', ''data'', ''body'']"

definition auth_error_top_level_keys :: "string list" where
  "auth_error_top_level_keys = [''error'', ''errorMessage'', ''status'', ''statusCode'', ''status_code'', ''code'',
     ''details'', ''cause'', ''data'', ''body'']"

fun status_code_of :: "(utext \<Rightarrow> int option) \<Rightarrow> json \<Rightarrow> int option" where
  "status_code_of parse_int (JInt n) = Some n"
| "status_code_of parse_int (JStr s) = parse_int s"
| "status_code_of parse_int _ = None"

fun extract_auth_failure_status_code :: "(utext \<Rightarrow> int option) \<Rightarrow> nat \<Rightarrow> json \<Rightarrow> int option" where
  "extract_auth_failure_status_code parse_int 0 value = None"
| "extract_auth_failure_status_code parse_int (Suc left) value =
     (if \<not> is_obj value then None
      else case first_some (\<lambda>key. status_code_of parse_int (jget key value)) auth_error_status_keys of
        Some n \<Rightarrow> Some n
      | None \<Rightarrow> first_some (\<lambda>key. extract_auth_failure_status_code parse_int left (jget key value)) auth_error_nested_keys)"

definition has_top_level_auth_inspection_keys :: "json \<Rightarrow> bool" where
  "has_top_level_auth_inspection_keys value = list_ex (\<lambda>key. has_key key value) auth_error_top_level_keys"

definition looks_like_thrown_error :: "(nat \<Rightarrow> bool) \<Rightarrow> json \<Rightarrow> bool" where
  "looks_like_thrown_error al value =
     ((case jget ''name'' value of JStr name \<Rightarrow> re_search al ([Bound] @ lits ''error'' @ [Bound]) name | _ \<Rightarrow> False)
      \<or> has_key ''stack'' value
      \<or> str_of (jget ''message'' value) \<noteq> None
        \<and> \<not> has_key ''content'' value \<and> \<not> has_key ''response'' value \<and> \<not> has_key ''output'' value)"

definition is_provider_auth :: "json \<Rightarrow> bool" where
  "is_provider_auth error_field \<longleftrightarrow> is_obj error_field \<and> jget ''kind'' error_field = JStr (cps ''provider_auth'')"

definition pick_auth_inspection_value :: "(nat \<Rightarrow> bool) \<Rightarrow> json \<Rightarrow> json" where
  "pick_auth_inspection_value al value =
     (if \<not> is_obj value then value
      else let error_field = jget ''error'' value in
        if is_provider_auth error_field then error_field
        else let has_top = has_top_level_auth_inspection_keys value;
                 error_like = looks_like_thrown_error al value;
                 response = jget ''response'' value in
          JObj (map (\<lambda>key. (key, jget key value)) (filter (\<lambda>key. has_key key value) auth_error_top_level_keys)
            @ (if (has_top \<or> error_like) \<and> has_key ''message'' value then [(''message'', jget ''message'' value)] else [])
            @ (if has_key ''response'' value
                  \<and> (has_top \<or> has_top_level_auth_inspection_keys response
                     \<or> is_obj response \<and> looks_like_thrown_error al response)
               then [(''response'', response)] else [])))"

definition exn_attributes :: "string list" where
  "exn_attributes = [''status'', ''status_code'', ''statusCode'', ''response'', ''cause'', ''details'', ''data'', ''body'',
     ''code'', ''error'', ''errorMessage'', ''stack'']"

text \<open>\<open>_coerce_to_dict\<close> on an exception; a dictionary is itself.\<close>

fun coerce_exn :: "call_exn \<Rightarrow> json" where
  "coerce_exn (Provider_Auth_Error p m f) =
     JObj [(''name'', JStr (cps ''LcmProviderAuthError'')), (''message'', JStr (build_provider_auth_warning p m f))]"
| "coerce_exn (Provider_Response_Error p m f) =
     JObj [(''name'', JStr (cps ''LcmProviderResponseError'')), (''message'', JStr (build_provider_response_warning p m f))]"
| "coerce_exn (Timeout_Error ms label) =
     JObj [(''name'', JStr (cps ''SummarizerTimeoutError'')), (''message'', JStr (timeout_message ms label))]"
| "coerce_exn (Other_Error name message attrs) =
     JObj ([(''name'', JStr name), (''message'', JStr message)]
       @ List.map_filter (\<lambda>a. map_option (Pair a) (map_of attrs a)) exn_attributes)"

definition extract_provider_auth_failure :: "summarizer_env \<Rightarrow> bool \<Rightarrow> json \<Rightarrow> provider_auth_failure option" where
  "extract_provider_auth_failure env require_structural_signal value =
     (let al = se_is_alnum env; inspect_value = pick_auth_inspection_value al value in
      if inspect_value = JNull then None
      else let
        status_code = extract_auth_failure_status_code (se_parse_int env) 4 inspect_value;
        text_parts = collect_auth_failure_text 4 inspect_value;
        normalized_message = u_strip (collapse_spaces (u_join [32] text_parts));
        missing_model_request_scope = re_search al ([Bound] @ lits ''model.request'' @ [Bound]) normalized_message;
        has_scope_signal = missing_model_request_scope
          \<or> list_ex (\<lambda>w. re_search al ([Bound] @ lits w @ [Spaces] @ lits ''scope'' @ [Bound]) normalized_message)
              [''missing'', ''insufficient''];
        has_explicit_error_kind = is_obj value \<and> is_provider_auth (jget ''error'' value) in
      if (if require_structural_signal then status_code \<noteq> Some 401 \<and> \<not> has_explicit_error_kind
          else status_code \<noteq> Some 401 \<and> \<not> has_scope_signal
            \<and> \<not> list_ex (\<lambda>p. re_search al p normalized_message) auth_error_text_pattern)
      then None
      else Some \<lparr>af_status_code = status_code,
        af_message = (if normalized_message \<noteq> [] then Some (truncate_diagnostic_text normalized_message 240) else None),
        af_missing_model_request_scope = missing_model_request_scope\<rparr>)"

definition stripped_str :: "json \<Rightarrow> utext option" where
  "stripped_str value = (case value of JStr s \<Rightarrow> if u_strip s \<noteq> [] then Some (u_strip s) else None | _ \<Rightarrow> None)"

definition get_provider_response_finish_reason :: "json \<Rightarrow> utext option" where
  "get_provider_response_finish_reason value =
     first_some (\<lambda>key. stripped_str (jget key value)) [''finish_reason'', ''stopReason'', ''stop_reason'', ''status'']"

definition get_provider_response_error_code :: "json \<Rightarrow> utext option" where
  "get_provider_response_error_code value =
     first_some stripped_str [jget ''code'' value, jget ''code'' (jget ''error'' value)]"

definition get_provider_response_error_message :: "json \<Rightarrow> utext option" where
  "get_provider_response_error_message value =
     (let text_parts = List.map_filter (\<lambda>key. stripped_str (jget key value)) [''errorMessage'', ''message'']
            @ (if is_obj (jget ''error'' value) then collect_auth_failure_text 4 (jget ''error'' value) else []) in
      if text_parts = [] then None
      else Some (truncate_diagnostic_text (u_strip (collapse_spaces (u_join [32] text_parts))) 240))"

definition extract_provider_response_failure :: "summarizer_env \<Rightarrow> json \<Rightarrow> provider_response_failure option" where
  "extract_provider_response_failure env value =
     (if \<not> is_obj value then None
      else let
        status_code = extract_auth_failure_status_code (se_parse_int env) 4 value;
        finish_reason = get_provider_response_finish_reason value;
        normalized_finish = map_option u_lower finish_reason;
        nested_error_kind = str_of (jget ''kind'' (jget ''error'' value));
        has_explicit_error_signal =
          normalized_finish \<in> Some ` {cps ''error'', cps ''failed'', cps ''cancelled''}
          \<or> (case status_code of Some n \<Rightarrow> 400 \<le> n | None \<Rightarrow> False)
          \<or> (case nested_error_kind of Some k \<Rightarrow> k \<noteq> cps ''provider_auth'' | None \<Rightarrow> False) in
      if \<not> has_explicit_error_signal then None
      else Some \<lparr>rf_status_code = status_code, rf_finish_reason = finish_reason,
        rf_code = get_provider_response_error_code value, rf_message = get_provider_response_error_message value\<rparr>)"

fun collect_incomplete_response_signals :: "nat \<Rightarrow> utext \<Rightarrow> json \<Rightarrow> utext list" where
  "collect_incomplete_response_signals 0 label value = []"
| "collect_incomplete_response_signals (Suc left) label (JArr xs) =
     concat (map (\<lambda>(i, x). collect_incomplete_response_signals left (label @ cps ''['' @ int_text (int i) @ cps '']'') x)
       (enumerate 0 (take 8 xs)))"
| "collect_incomplete_response_signals (Suc left) label (JObj kvs) =
     (let value = JObj kvs in
      (case jget ''status'' value of
         JStr s \<Rightarrow> if u_lower (u_strip s) = cps ''incomplete'' then [label @ cps ''.status=incomplete''] else []
       | _ \<Rightarrow> [])
      @ (case stripped_str (jget ''reason'' (jget ''incomplete_details'' value)) of
           Some reason \<Rightarrow> [label @ cps ''.reason='' @ reason] | None \<Rightarrow> [])
      @ concat (map (\<lambda>key. if has_key key value
             then collect_incomplete_response_signals left (label @ cps ''.'' @ cps key) (jget key value) else [])
           [''content'', ''output'', ''message'', ''response'', ''items'']))"
| "collect_incomplete_response_signals (Suc left) label _ = []"

definition extract_incomplete_response_signals :: "json \<Rightarrow> utext list" where
  "extract_incomplete_response_signals value = remdups (collect_incomplete_response_signals 4 (cps ''response'') value)"

subsection \<open>The candidates\<close>

record resolved_summary_candidate =
  sc_level_name :: utext
  sc_model :: utext
  sc_provider :: utext
  sc_has_explicit_provider :: bool
  sc_use_legacy_auth_profile :: bool

text \<open>The fields of the configuration that the module reads, and the two environment variables.\<close>

record summarizer_config =
  sf_summary_model :: json
  sf_summary_provider :: json
  sf_fallback_providers :: "(utext \<times> utext) list"
  sf_agents_compaction_model :: json
  sf_agents_default_model :: json
  sf_leaf_target_tokens :: json
  sf_condensed_target_tokens :: json
  sf_summary_timeout_ms :: json
  sf_env_summary_provider :: utext
  sf_env_summary_model :: utext

definition read_model_ref :: "json \<Rightarrow> utext" where
  "read_model_ref value = (case value of
     JStr s \<Rightarrow> u_strip s
   | JObj kvs \<Rightarrow> (case jget ''primary'' value of JStr s \<Rightarrow> u_strip s | _ \<Rightarrow> [])
   | _ \<Rightarrow> [])"

definition split_model_ref :: "utext \<Rightarrow> utext option \<Rightarrow> (utext \<times> utext) option" where
  "split_model_ref model_ref provider_hint =
     (if model_ref = [] then None
      else let provider = u_strip (takeWhile (\<lambda>c. c \<noteq> 47) model_ref);
               model = u_strip (tl (dropWhile (\<lambda>c. c \<noteq> 47) model_ref)) in
        if 47 \<in> set model_ref \<and> provider \<noteq> [] \<and> model \<noteq> [] then Some (provider, model)
        else case provider_hint of
            Some h \<Rightarrow> if h \<noteq> [] then Some (u_strip h, u_strip model_ref) else None
          | None \<Rightarrow> None)"

definition candidate_key :: "resolved_summary_candidate \<Rightarrow> utext" where
  "candidate_key c = sc_provider c @ [0] @ sc_model c"

fun dedupe_candidates_from :: "utext list \<Rightarrow> resolved_summary_candidate list \<Rightarrow> resolved_summary_candidate list" where
  "dedupe_candidates_from seen [] = []"
| "dedupe_candidates_from seen (c # cs) =
     (if candidate_key c \<in> set seen then dedupe_candidates_from seen cs
      else c # dedupe_candidates_from (candidate_key c # seen) cs)"

definition dedupe_resolved_candidates :: "resolved_summary_candidate list \<Rightarrow> resolved_summary_candidate list" where
  "dedupe_resolved_candidates = dedupe_candidates_from []"

text \<open>\<open>a or b\<close> on texts, the empty text being \<open>None\<close>.\<close>

definition or_hint :: "utext \<Rightarrow> utext option \<Rightarrow> utext option" where
  "or_hint a b = (if a \<noteq> [] then Some a else b)"

type_synonym candidate_layer = "utext \<times> utext \<times> utext option \<times> bool \<times> bool"

definition layer_candidate :: "candidate_layer \<Rightarrow> resolved_summary_candidate list" where
  "layer_candidate layer = (case layer of (level_name, model_ref, hint, has_explicit, use_legacy) \<Rightarrow>
     if model_ref = [] then []
     else case split_model_ref model_ref hint of
         None \<Rightarrow> []
       | Some (provider, model) \<Rightarrow> if provider \<noteq> [] \<and> model \<noteq> [] then
           [\<lparr>sc_level_name = level_name, sc_model = model, sc_provider = provider,
             sc_has_explicit_provider = has_explicit, sc_use_legacy_auth_profile = use_legacy\<rparr>] else [])"

definition fallback_candidate :: "utext \<times> utext \<Rightarrow> resolved_summary_candidate list" where
  "fallback_candidate fb = (case fb of (fb_provider, fb_model) \<Rightarrow>
     if fb_provider = [] \<or> fb_model = [] then []
     else [\<lparr>sc_level_name = cps ''explicit fallback ('' @ fb_provider @ cps ''/'' @ fb_model @ cps '')'',
       sc_model = fb_model, sc_provider = fb_provider, sc_has_explicit_provider = True,
       sc_use_legacy_auth_profile = False\<rparr>])"

definition resolve_summary_candidates ::
    "summarizer_config \<Rightarrow> utext option \<Rightarrow> utext option \<Rightarrow> resolved_summary_candidate list" where
  "resolve_summary_candidates cfg provider_hint model_hint =
     (let strip_hint = (\<lambda>h. case h of None \<Rightarrow> None | Some s \<Rightarrow> if u_strip s \<noteq> [] then Some (u_strip s) else None);
          provider_hint = strip_hint provider_hint;
          model_hint = strip_hint model_hint;
          env_provider = u_strip (sf_env_summary_provider cfg);
          env_model = u_strip (sf_env_summary_model cfg);
          plugin_provider = (case sf_summary_provider cfg of JStr s \<Rightarrow> u_strip s | _ \<Rightarrow> []);
          layers =
            [(cps ''environment variables'', env_model, or_hint env_provider provider_hint, env_provider \<noteq> [], False),
             (cps ''plugin config (lossless-hermes)'', read_model_ref (sf_summary_model cfg),
               or_hint plugin_provider provider_hint, plugin_provider \<noteq> [], False),
             (cps ''OpenClaw agents.defaults.compaction.model'', read_model_ref (sf_agents_compaction_model cfg), None, False, False),
             (cps ''OpenClaw agents.defaults.model'', read_model_ref (sf_agents_default_model cfg), None, False, False),
             (cps ''legacy runtime/session model'', (case model_hint of Some m \<Rightarrow> m | None \<Rightarrow> []), provider_hint,
               provider_hint \<noteq> None, True)] in
      dedupe_resolved_candidates
        (concat (map layer_candidate layers) @ concat (map fallback_candidate (sf_fallback_providers cfg))))"

subsection \<open>One candidate\<close>

definition resolve_target_tokens :: "(real \<Rightarrow> real) \<Rightarrow> int \<Rightarrow> summary_mode \<Rightarrow> bool \<Rightarrow> int \<Rightarrow> int \<Rightarrow> int" where
  "resolve_target_tokens fl input_tokens mode is_condensed leaf_target_tokens condensed_target_tokens =
     (if is_condensed then max 512 condensed_target_tokens
      else let leaf_floor = max 192 leaf_target_tokens in
        if mode = Aggressive then
          let aggressive_cap = max 96 (min leaf_floor \<lfloor>fl (of_int leaf_floor * fl (55 / 100))\<rfloor>) in
          max 96 (min aggressive_cap \<lfloor>fl (of_int input_tokens * fl (20 / 100))\<rfloor>)
        else max 192 (min leaf_floor \<lfloor>fl (of_int input_tokens * fl (35 / 100))\<rfloor>))"

record chain_log =
  cl_calls :: "llm_request list"
  cl_sleeps :: "int list"

record call_args =
  ca_prompt :: utext
  ca_target_tokens :: int
  ca_timeout_ms :: int

definition with_timeout :: "int \<Rightarrow> string \<Rightarrow> provider_outcome \<Rightarrow> call_exn + json" where
  "with_timeout timeout_ms label outcome = (case outcome of
     Completed r \<Rightarrow> Inr r
   | Raised e \<Rightarrow> Inl e
   | Overrun \<Rightarrow> Inl (Timeout_Error timeout_ms label))"

definition run_summarizer_call ::
    "summarizer_env \<Rightarrow> call_args \<Rightarrow> resolved_summary_candidate \<Rightarrow> utext option \<Rightarrow> string \<Rightarrow> string option \<Rightarrow> bool
     \<Rightarrow> chain_log \<Rightarrow> chain_log \<times> (call_exn + json)" where
  "run_summarizer_call env args cand api_key label reasoning skip_model_auth lg =
     (let req = \<lparr>rq_provider = sc_provider cand, rq_model = sc_model cand, rq_api_key = api_key,
            rq_user_prompt = ca_prompt args, rq_max_tokens = ca_target_tokens args, rq_reasoning = reasoning,
            rq_skip_model_auth = skip_model_auth, rq_timeout_ms = ca_timeout_ms args\<rparr> in
      (lg\<lparr>cl_calls := cl_calls lg @ [req]\<rparr>,
       with_timeout (ca_timeout_ms args) label (se_complete env (length (cl_calls lg)) req)))"

text \<open>The checks of a result, and what a direct retry makes of an exception.\<close>

definition checked_result ::
    "summarizer_env \<Rightarrow> resolved_summary_candidate \<Rightarrow> json \<Rightarrow> call_exn + json" where
  "checked_result env cand result =
     (case extract_provider_auth_failure env True result of
        Some f \<Rightarrow> Inl (Provider_Auth_Error (sc_provider cand) (sc_model cand) f)
      | None \<Rightarrow> (case extract_provider_response_failure env result of
          Some f \<Rightarrow> Inl (Provider_Response_Error (sc_provider cand) (sc_model cand) f)
        | None \<Rightarrow> Inr result))"

fun direct_error :: "summarizer_env \<Rightarrow> resolved_summary_candidate \<Rightarrow> call_exn \<Rightarrow> call_exn" where
  "direct_error env cand (Provider_Auth_Error p m f) = Provider_Auth_Error p m f"
| "direct_error env cand (Provider_Response_Error p m f) = Provider_Response_Error p m f"
| "direct_error env cand e = (case extract_provider_auth_failure env True (coerce_exn e) of
     Some f \<Rightarrow> Provider_Auth_Error (sc_provider cand) (sc_model cand) f
   | None \<Rightarrow> e)"

definition retry_without_model_auth ::
    "summarizer_env \<Rightarrow> call_args \<Rightarrow> resolved_summary_candidate \<Rightarrow> provider_auth_failure \<Rightarrow> string option
     \<Rightarrow> chain_log \<Rightarrow> chain_log \<times> (call_exn + json)" where
  "retry_without_model_auth env args cand failure reasoning lg =
     (let initial = Provider_Auth_Error (sc_provider cand) (sc_model cand) failure in
      if se_runtime_managed env (sc_provider cand) = Some True then (lg, Inl initial)
      else case se_api_key env (length (cl_calls lg)) (sc_provider cand) (sc_model cand) True of
        Inl e \<Rightarrow> (lg, Inl e)
      | Inr direct_api_key \<Rightarrow>
          if direct_api_key = None \<or> direct_api_key = Some [] then (lg, Inl initial)
          else case run_summarizer_call env args cand direct_api_key ''auth-retry'' reasoning True lg of
            (lg', Inl direct_err) \<Rightarrow> (lg', Inl (direct_error env cand direct_err))
          | (lg', Inr direct_result) \<Rightarrow> (lg', checked_result env cand direct_result))"

definition attempt_summarizer_call ::
    "summarizer_env \<Rightarrow> call_args \<Rightarrow> resolved_summary_candidate \<Rightarrow> string \<Rightarrow> string option
     \<Rightarrow> chain_log \<Rightarrow> chain_log \<times> (call_exn + json)" where
  "attempt_summarizer_call env args cand label reasoning lg =
     (case se_api_key env (length (cl_calls lg)) (sc_provider cand) (sc_model cand) False of
        Inl e \<Rightarrow> (lg, Inl e)
      | Inr api_key \<Rightarrow> (case run_summarizer_call env args cand api_key label reasoning False lg of
          (lg', Inl (Provider_Response_Error p m f)) \<Rightarrow> (lg', Inl (Provider_Response_Error p m f))
        | (lg', Inl (Timeout_Error ms l)) \<Rightarrow> (lg', Inl (Timeout_Error ms l))
        | (lg', Inl e) \<Rightarrow> (case extract_provider_auth_failure env False (coerce_exn e) of
            None \<Rightarrow> (lg', Inl e)
          | Some f \<Rightarrow> retry_without_model_auth env args cand f reasoning lg')
        | (lg', Inr result) \<Rightarrow> (case extract_provider_auth_failure env True result of
            None \<Rightarrow> (lg', checked_result env cand result)
          | Some f \<Rightarrow> retry_without_model_auth env args cand f reasoning lg')))"

definition compute_backoff_ms :: "nat \<Rightarrow> int" where
  "compute_backoff_ms index = min (500 * 2 ^ index) 8000"

definition backoff :: "nat \<Rightarrow> chain_log \<Rightarrow> chain_log" where
  "backoff index lg = lg\<lparr>cl_sleeps := cl_sleeps lg @ [compute_backoff_ms index]\<rparr>"

text \<open>The text of a response: its content, or else the whole envelope.\<close>

definition summary_of_response :: "json \<Rightarrow> utext" where
  "summary_of_response result =
     (let summary = normalize_completion_summary (jget ''content'' result) in
      if summary \<noteq> [] then summary else normalize_completion_summary result)"

text \<open>How the body of the loop ends: \<open>return\<close>, \<open>raise\<close>, \<open>continue\<close> or \<open>break\<close>.\<close>

datatype verdict = Return_Text utext | Raise_Error call_exn | Continue | Break

type_synonym candidate_step = "chain_log \<times> call_exn option \<times> verdict"

definition retry_candidate ::
    "summarizer_env \<Rightarrow> call_args \<Rightarrow> utext \<Rightarrow> bool \<Rightarrow> nat \<Rightarrow> resolved_summary_candidate \<Rightarrow> utext
     \<Rightarrow> call_exn option \<Rightarrow> chain_log \<Rightarrow> candidate_step" where
  "retry_candidate env args fallback has_next index cand initial_summary last_auth_error lg =
     (let finish = Return_Text (if initial_summary = [] then fallback else initial_summary) in
      case attempt_summarizer_call env args cand ''retry'' (Some ''low'') lg of
        (lg', Inr retry_result) \<Rightarrow>
          if summary_of_response retry_result \<noteq> [] then
            (lg', last_auth_error, Return_Text (summary_of_response retry_result))
          else if has_next then (backoff index lg', last_auth_error, Continue)
          else (lg', last_auth_error, finish)
      | (lg', Inl e) \<Rightarrow> (case e of
          Provider_Auth_Error p m f \<Rightarrow>
            if has_next then (backoff index lg', Some e, Continue) else (lg', Some e, Raise_Error e)
        | Provider_Response_Error p m f \<Rightarrow>
            if has_next then (backoff index lg', last_auth_error, Continue) else (lg', last_auth_error, Continue)
        | Timeout_Error ms l \<Rightarrow>
            if has_next then (backoff index lg', last_auth_error, Continue) else (lg', last_auth_error, finish)
        | Other_Error n m a \<Rightarrow>
            if has_next then (lg', last_auth_error, Continue) else (lg', last_auth_error, finish)))"

definition try_candidate ::
    "summarizer_env \<Rightarrow> call_args \<Rightarrow> utext \<Rightarrow> bool \<Rightarrow> nat \<Rightarrow> resolved_summary_candidate
     \<Rightarrow> call_exn option \<Rightarrow> chain_log \<Rightarrow> candidate_step" where
  "try_candidate env args fallback has_next index cand last_auth_error lg =
     (case attempt_summarizer_call env args cand ''initial'' None lg of
        (lg', Inl e) \<Rightarrow> (case e of
          Provider_Auth_Error p m f \<Rightarrow>
            if has_next then (backoff index lg', Some e, Continue) else (lg', Some e, Raise_Error e)
        | Provider_Response_Error p m f \<Rightarrow>
            if has_next then (backoff index lg', last_auth_error, Continue) else (lg', last_auth_error, Break)
        | Timeout_Error ms l \<Rightarrow>
            if has_next then (backoff index lg', last_auth_error, Continue) else (lg', last_auth_error, Return_Text fallback)
        | Other_Error n m a \<Rightarrow>
            if has_next then (backoff index lg', last_auth_error, Continue) else (lg', last_auth_error, Break))
      | (lg', Inr result) \<Rightarrow>
          let summary = summary_of_response result in
          if summary \<noteq> [] \<and> extract_incomplete_response_signals result = [] then
            (lg', last_auth_error, Return_Text summary)
          else retry_candidate env args fallback has_next index cand summary last_auth_error lg')"

subsection \<open>The chain\<close>

fun try_candidates ::
    "summarizer_env \<Rightarrow> call_args \<Rightarrow> utext \<Rightarrow> nat \<Rightarrow> resolved_summary_candidate list \<Rightarrow> call_exn option
     \<Rightarrow> chain_log \<Rightarrow> chain_log \<times> (call_exn + utext)" where
  "try_candidates env args fallback index [] last_auth_error lg =
     (lg, case last_auth_error of Some e \<Rightarrow> Inl e | None \<Rightarrow> Inr fallback)"
| "try_candidates env args fallback index (cand # cands) last_auth_error lg =
     (case try_candidate env args fallback (cands \<noteq> []) index cand last_auth_error lg of
        (lg', last_auth_error', Return_Text s) \<Rightarrow> (lg', Inr s)
      | (lg', last_auth_error', Raise_Error e) \<Rightarrow> (lg', Inl e)
      | (lg', last_auth_error', Continue) \<Rightarrow> try_candidates env args fallback (Suc index) cands last_auth_error' lg'
      | (lg', last_auth_error', Break) \<Rightarrow>
          (lg', case last_auth_error' of Some e \<Rightarrow> Inl e | None \<Rightarrow> Inr fallback))"

record lcm_summarize_options =
  so_previous_summary :: "utext option"
  so_is_condensed :: bool
  so_depth :: "int option"

record lcm_summarizer =
  ls_config :: summarizer_config
  ls_custom_instructions :: "utext option"
  ls_candidates :: "resolved_summary_candidate list"

definition new_summarizer ::
    "summarizer_config \<Rightarrow> utext option \<Rightarrow> utext option \<Rightarrow> utext option \<Rightarrow> lcm_summarizer" where
  "new_summarizer cfg custom_instructions provider_hint model_hint =
     \<lparr>ls_config = cfg, ls_custom_instructions = custom_instructions,
      ls_candidates = resolve_summary_candidates cfg provider_hint model_hint\<rparr>"

fun positive_int_or :: "int \<Rightarrow> json \<Rightarrow> int" where
  "positive_int_or d (JInt n) = (if n \<le> 0 then d else n)"
| "positive_int_or d (JBool b) = (if b then 1 else d)"
| "positive_int_or d _ = d"

definition summarize_target :: "summarizer_env \<Rightarrow> lcm_summarizer \<Rightarrow> utext \<Rightarrow> bool \<Rightarrow> lcm_summarize_options \<Rightarrow> int" where
  "summarize_target env sz tx aggressive opts =
     resolve_target_tokens (se_fl env) (estimate_tokens tx) (if aggressive then Aggressive else Normal)
       (so_is_condensed opts) (positive_int_or 4000 (sf_leaf_target_tokens (ls_config sz)))
       (positive_int_or 2000 (sf_condensed_target_tokens (ls_config sz)))"

definition summarize_args :: "summarizer_env \<Rightarrow> lcm_summarizer \<Rightarrow> utext \<Rightarrow> bool \<Rightarrow> lcm_summarize_options \<Rightarrow> call_args" where
  "summarize_args env sz tx aggressive opts =
     (let target = summarize_target env sz tx aggressive opts;
          prompt = (if so_is_condensed opts then
              build_condensed_prompt tx target
                (case so_depth opts of Some d \<Rightarrow> if d < 1 then 1 else d | None \<Rightarrow> 1)
                (so_previous_summary opts) (ls_custom_instructions sz)
            else build_leaf_prompt tx (if aggressive then Aggressive else Normal) target
              (so_previous_summary opts) (ls_custom_instructions sz)) in
      \<lparr>ca_prompt = prompt, ca_target_tokens = target,
       ca_timeout_ms = positive_int_or 60000 (sf_summary_timeout_ms (ls_config sz))\<rparr>)"

definition no_candidates_error :: call_exn where
  "no_candidates_error =
     Other_Error (cps ''RuntimeError'') (cps ''[lcm] createLcmSummarize: no summary model candidates resolved'') []"

definition summarize ::
    "summarizer_env \<Rightarrow> lcm_summarizer \<Rightarrow> utext \<Rightarrow> bool \<Rightarrow> lcm_summarize_options \<Rightarrow> chain_log
     \<Rightarrow> chain_log \<times> (call_exn + utext)" where
  "summarize env sz tx aggressive opts lg =
     (if tx = [] \<or> u_strip tx = [] then (lg, Inr [])
      else if ls_candidates sz = [] then (lg, Inl no_candidates_error)
      else try_candidates env (summarize_args env sz tx aggressive opts)
        (build_deterministic_fallback tx (summarize_target env sz tx aggressive opts)) 0 (ls_candidates sz) None lg)"

subsection \<open>One attempt\<close>

text \<open>What the calls from one log to a later one were.\<close>

definition new_calls :: "chain_log \<Rightarrow> chain_log \<Rightarrow> llm_request list" where
  "new_calls lg lg' = drop (length (cl_calls lg)) (cl_calls lg')"

definition asks :: "resolved_summary_candidate \<Rightarrow> llm_request \<Rightarrow> bool" where
  "asks c q \<longleftrightarrow> rq_provider q = sc_provider c \<and> rq_model q = sc_model c"

text \<open>The last call of the log was completed with this response.\<close>

definition answered :: "summarizer_env \<Rightarrow> chain_log \<Rightarrow> json \<Rightarrow> bool" where
  "answered env lg r \<longleftrightarrow> cl_calls lg \<noteq> []
     \<and> se_complete env (length (cl_calls lg) - 1) (last (cl_calls lg)) = Completed r"

definition sound :: "summarizer_env \<Rightarrow> json \<Rightarrow> bool" where
  "sound env r \<longleftrightarrow> extract_provider_auth_failure env True r = None \<and> extract_provider_response_failure env r = None"

text \<open>A call was answered completely: no failure, a text, and no sign that it is cut off.\<close>

definition good_answer :: "summarizer_env \<Rightarrow> nat \<Rightarrow> llm_request \<Rightarrow> bool" where
  "good_answer env i q = (case se_complete env i q of
     Completed r \<Rightarrow> sound env r \<and> summary_of_response r \<noteq> [] \<and> extract_incomplete_response_signals r = []
   | _ \<Rightarrow> False)"

text \<open>
  An attempt adds at most two calls to its candidate and no pause; when it returns a response, that is
  the sound answer of its last call, and otherwise none of its calls was answered soundly.
\<close>

definition attempt_effect ::
    "summarizer_env \<Rightarrow> resolved_summary_candidate \<Rightarrow> nat \<Rightarrow> chain_log \<Rightarrow> chain_log \<Rightarrow> call_exn + json \<Rightarrow> bool" where
  "attempt_effect env cand n lg lg' r \<longleftrightarrow>
     (\<exists>new. cl_calls lg' = cl_calls lg @ new \<and> length new \<le> n \<and> list_all (asks cand) new
        \<and> cl_sleeps lg' = cl_sleeps lg
        \<and> (case r of
             Inr j \<Rightarrow> new \<noteq> [] \<and> sound env j \<and> answered env lg' j
               \<and> (\<forall>i < length new - 1. \<not> good_answer env (length (cl_calls lg) + i) (new ! i))
           | Inl e \<Rightarrow> \<forall>i < length new. \<not> good_answer env (length (cl_calls lg) + i) (new ! i)))"

lemma checked_result_cases:
  "checked_result env cand j = Inr j' \<longleftrightarrow> j' = j \<and> sound env j"
  "checked_result env cand j = Inl e \<Longrightarrow> \<not> sound env j"
  by (auto simp: checked_result_def sound_def split: option.splits)

lemma run_effect:
  assumes "run_summarizer_call env args cand key label reasoning skip lg = (lg', r)"
  shows "\<exists>q. cl_calls lg' = cl_calls lg @ [q] \<and> asks cand q \<and> cl_sleeps lg' = cl_sleeps lg
    \<and> r = with_timeout (ca_timeout_ms args) label (se_complete env (length (cl_calls lg)) q)"
  using assms by (auto simp: run_summarizer_call_def asks_def Let_def)

lemma with_timeout_Inr: "with_timeout ms label oc = Inr j \<longleftrightarrow> oc = Completed j"
  by (cases oc) (simp_all add: with_timeout_def)

lemma with_timeout_Inl_not_good: "with_timeout ms label (se_complete env i q) = Inl e \<Longrightarrow> \<not> good_answer env i q"
  by (cases "se_complete env i q") (simp_all add: with_timeout_def good_answer_def)

lemma unsound_not_good: "se_complete env i q = Completed j \<Longrightarrow> \<not> sound env j \<Longrightarrow> \<not> good_answer env i q"
  by (simp add: good_answer_def)

lemma retry_effect:
  assumes "retry_without_model_auth env args cand f reasoning lg = (lg', r)"
  shows "attempt_effect env cand 1 lg lg' r"
proof -
  consider "lg' = lg" "\<exists>e. r = Inl e"
    | key x where "run_summarizer_call env args cand key ''auth-retry'' reasoning True lg = (lg', x)"
        "r = (case x of Inl e \<Rightarrow> Inl (direct_error env cand e) | Inr j \<Rightarrow> checked_result env cand j)"
    using assms by (fastforce simp: retry_without_model_auth_def Let_def split: if_splits sum.splits prod.splits)
  then show ?thesis
  proof cases
    case 1
    then show ?thesis by (auto simp: attempt_effect_def)
  next
    case 2
    from run_effect[OF 2(1)] obtain q where q: "cl_calls lg' = cl_calls lg @ [q]" "asks cand q" "cl_sleeps lg' = cl_sleeps lg"
      "x = with_timeout (ca_timeout_ms args) ''auth-retry'' (se_complete env (length (cl_calls lg)) q)" by blast
    show ?thesis
    proof (cases x)
      case (Inl e)
      then show ?thesis using 2 q with_timeout_Inl_not_good[of "ca_timeout_ms args" "''auth-retry''" env "length (cl_calls lg)" q e]
        by (auto simp: attempt_effect_def)
    next
      case (Inr j)
      then have "se_complete env (length (cl_calls lg)) q = Completed j" using q by (simp add: with_timeout_Inr)
      then show ?thesis using 2 q Inr
        by (auto simp: attempt_effect_def answered_def checked_result_cases unsound_not_good
            dest: checked_result_cases(2) split: sum.splits)
    qed
  qed
qed

lemma attempt_effect_attempt:
  assumes "attempt_summarizer_call env args cand label reasoning lg = (lg', r)"
  shows "attempt_effect env cand 2 lg lg' r"
proof (cases "se_api_key env (length (cl_calls lg)) (sc_provider cand) (sc_model cand) False")
  case (Inl e)
  then show ?thesis using assms by (auto simp: attempt_summarizer_call_def attempt_effect_def)
next
  case (Inr key)
  obtain lg1 x where run: "run_summarizer_call env args cand key label reasoning False lg = (lg1, x)" by fastforce
  from run_effect[OF this] obtain q where q: "cl_calls lg1 = cl_calls lg @ [q]" "asks cand q" "cl_sleeps lg1 = cl_sleeps lg"
    "x = with_timeout (ca_timeout_ms args) label (se_complete env (length (cl_calls lg)) q)" by blast
  consider (stop) e where "x = Inl e" "lg' = lg1" "r = Inl e"
    | (checked) j where "x = Inr j" "lg' = lg1" "r = checked_result env cand j"
    | (again) f where "retry_without_model_auth env args cand f reasoning lg1 = (lg', r)"
        "\<not> good_answer env (length (cl_calls lg)) q"
  proof (cases x)
    case (Inl e)
    then have "\<not> good_answer env (length (cl_calls lg)) q" using q(4) with_timeout_Inl_not_good by metis
    moreover have "lg' = lg1 \<and> r = Inl e \<or> (\<exists>f. retry_without_model_auth env args cand f reasoning lg1 = (lg', r))"
      using assms \<open>se_api_key _ _ _ _ _ = Inr key\<close> run Inl
      by (cases e) (auto simp: attempt_summarizer_call_def simp del: coerce_exn.simps split: option.splits)
    ultimately show ?thesis using stop[OF Inl] again by blast
  next
    case (Inr j)
    then have "se_complete env (length (cl_calls lg)) q = Completed j" using q by (simp add: with_timeout_Inr)
    then have "extract_provider_auth_failure env True j \<noteq> None \<Longrightarrow> \<not> good_answer env (length (cl_calls lg)) q"
      by (simp add: good_answer_def sound_def)
    moreover have "extract_provider_auth_failure env True j = None \<and> lg' = lg1 \<and> r = checked_result env cand j
      \<or> extract_provider_auth_failure env True j \<noteq> None
        \<and> (\<exists>f. retry_without_model_auth env args cand f reasoning lg1 = (lg', r))"
      using assms \<open>se_api_key _ _ _ _ _ = Inr key\<close> run Inr
      by (cases "extract_provider_auth_failure env True j") (auto simp: attempt_summarizer_call_def)
    ultimately show ?thesis using checked[OF Inr] again by blast
  qed
  then show ?thesis
  proof cases
    case stop
    then have "\<not> good_answer env (length (cl_calls lg)) q" using q(4) with_timeout_Inl_not_good by metis
    then show ?thesis using stop q by (auto simp: attempt_effect_def)
  next
    case checked
    then have "se_complete env (length (cl_calls lg)) q = Completed j" using q by (simp add: with_timeout_Inr)
    then show ?thesis using checked q
      by (auto simp: attempt_effect_def answered_def checked_result_cases unsound_not_good
          dest: checked_result_cases(2) split: sum.splits)
  next
    case again
    from retry_effect[OF again(1)] obtain new where new: "cl_calls lg' = cl_calls lg1 @ new" "length new \<le> 1"
      "list_all (asks cand) new" "cl_sleeps lg' = cl_sleeps lg1"
      "case r of Inr j \<Rightarrow> new \<noteq> [] \<and> sound env j \<and> answered env lg' j
         \<and> (\<forall>i < length new - 1. \<not> good_answer env (length (cl_calls lg1) + i) (new ! i))
       | Inl e \<Rightarrow> \<forall>i < length new. \<not> good_answer env (length (cl_calls lg1) + i) (new ! i)"
      unfolding attempt_effect_def by blast
    have good: "\<not> good_answer env (length (cl_calls lg) + i) ((q # new) ! i)"
      if "i < length (q # new) - (case r of Inl _ \<Rightarrow> 0 | Inr _ \<Rightarrow> 1)" for i
      using that new(5) again(2) q(1) by (cases i) (auto split: sum.splits)
    show ?thesis unfolding attempt_effect_def
      by (rule exI[of _ "q # new"]) (use new q good in \<open>auto split: sum.splits\<close>)
  qed
qed

subsection \<open>One candidate, and the chain\<close>

definition no_good :: "summarizer_env \<Rightarrow> nat \<Rightarrow> llm_request list \<Rightarrow> bool" where
  "no_good env n qs \<longleftrightarrow> (\<forall>i < length qs. \<not> good_answer env (n + i) (qs ! i))"

text \<open>A text that is the summary in the response to one of the calls.\<close>

definition said :: "summarizer_env \<Rightarrow> chain_log \<Rightarrow> utext \<Rightarrow> bool" where
  "said env lg s \<longleftrightarrow> (\<exists>i < length (cl_calls lg). \<exists>r.
     se_complete env i (cl_calls lg ! i) = Completed r \<and> s = summary_of_response r)"

definition is_auth :: "call_exn \<Rightarrow> bool" where
  "is_auth e = (case e of Provider_Auth_Error p m f \<Rightarrow> True | _ \<Rightarrow> False)"

text \<open>Only the last call can be a good answer, and then its text is what is returned.\<close>

definition good_is_last :: "summarizer_env \<Rightarrow> nat \<Rightarrow> llm_request list \<Rightarrow> utext \<Rightarrow> bool" where
  "good_is_last env n qs s \<longleftrightarrow> (\<forall>i < length qs. good_answer env (n + i) (qs ! i) \<longrightarrow>
     Suc i = length qs \<and> (\<exists>r. se_complete env (n + i) (qs ! i) = Completed r \<and> s = summary_of_response r))"

lemma append_index_cases:
  assumes "i < length (xs @ ys)"
  obtains "i < length xs" "(xs @ ys) ! i = xs ! i"
    | j where "i = length xs + j" "j < length ys" "(xs @ ys) ! i = ys ! j"
  using assms by (cases "i < length xs") (auto simp: nth_append dest!: le_Suc_ex simp: not_less)

lemma no_good_append:
  assumes "no_good env n xs" "no_good env (n + length xs) ys"
  shows "no_good env n (xs @ ys)"
  unfolding no_good_def
proof (intro allI impI)
  fix i assume "i < length (xs @ ys)"
  then show "\<not> good_answer env (n + i) ((xs @ ys) ! i)"
    by (rule append_index_cases) (use assms in \<open>auto simp: no_good_def add.assoc\<close>)
qed

lemma good_is_last_append:
  assumes "no_good env n xs" "good_is_last env (n + length xs) ys s"
  shows "good_is_last env n (xs @ ys) s"
  unfolding good_is_last_def
proof (intro allI impI)
  fix i assume i: "i < length (xs @ ys)" and good: "good_answer env (n + i) ((xs @ ys) ! i)"
  from i show "Suc i = length (xs @ ys)
      \<and> (\<exists>r. se_complete env (n + i) ((xs @ ys) ! i) = Completed r \<and> s = summary_of_response r)"
    by (rule append_index_cases) (use assms good in \<open>auto simp: no_good_def good_is_last_def add.assoc\<close>)
qed

lemma no_good_is_last: "no_good env n qs \<Longrightarrow> good_is_last env n qs s"
  by (simp add: no_good_def good_is_last_def)

lemma said_mono: "said env lg s \<Longrightarrow> cl_calls lg' = cl_calls lg @ new \<Longrightarrow> said env lg' s"
  unfolding said_def by (metis length_append nth_append trans_less_add1)

lemma answered_said: "answered env lg r \<Longrightarrow> said env lg (summary_of_response r)"
  unfolding answered_def said_def
  by (metis (no_types, lifting) diff_less last_conv_nth length_greater_0_conv zero_less_one)

lemma answered_index:
  assumes "answered env lg' r" "cl_calls lg' = cl_calls lg @ new" "new \<noteq> []"
  shows "se_complete env (length (cl_calls lg) + (length new - 1)) (new ! (length new - 1)) = Completed r"
proof -
  have "length (cl_calls lg') - 1 = length (cl_calls lg) + (length new - 1)" using assms(2,3) by (cases new) auto
  moreover have "last (cl_calls lg') = new ! (length new - 1)" using assms(2,3) last_conv_nth[of new] by simp
  ultimately show ?thesis using assms(1) by (simp add: answered_def)
qed

text \<open>What an attempt says of its calls, in these terms.\<close>

lemma attempt_calls:
  assumes "attempt_summarizer_call env args cand label reasoning lg = (lg', r)"
  obtains new where "cl_calls lg' = cl_calls lg @ new" "length new \<le> 2" "list_all (asks cand) new"
    "cl_sleeps lg' = cl_sleeps lg"
    "\<And>e. r = Inl e \<Longrightarrow> no_good env (length (cl_calls lg)) new"
    "\<And>j. r = Inr j \<Longrightarrow> said env lg' (summary_of_response j)"
    "\<And>j. r = Inr j \<Longrightarrow> good_is_last env (length (cl_calls lg)) new (summary_of_response j)"
    "\<And>j. r = Inr j \<Longrightarrow> summary_of_response j = [] \<or> extract_incomplete_response_signals j \<noteq> [] \<Longrightarrow>
       no_good env (length (cl_calls lg)) new"
proof -
  obtain new where new: "cl_calls lg' = cl_calls lg @ new" "length new \<le> 2" "list_all (asks cand) new"
    "cl_sleeps lg' = cl_sleeps lg"
    "case r of
       Inr j \<Rightarrow> new \<noteq> [] \<and> sound env j \<and> answered env lg' j
         \<and> (\<forall>i < length new - 1. \<not> good_answer env (length (cl_calls lg) + i) (new ! i))
     | Inl e \<Rightarrow> \<forall>i < length new. \<not> good_answer env (length (cl_calls lg) + i) (new ! i)"
    using attempt_effect_attempt[OF assms] unfolding attempt_effect_def by blast
  have last: "i = length new - 1" if "r = Inr j" "i < length new" "good_answer env (length (cl_calls lg) + i) (new ! i)" for i j
    using new(5) that by (cases "i < length new - 1") auto
  have at: "se_complete env (length (cl_calls lg) + (length new - 1)) (new ! (length new - 1)) = Completed j"
    if "r = Inr j" for j
    using answered_index[OF _ new(1)] new(5) that by simp
  show thesis
  proof (rule that[OF new(1-4)])
    show "no_good env (length (cl_calls lg)) new" if "r = Inl e" for e using new(5) that by (simp add: no_good_def)
    show "said env lg' (summary_of_response j)" if "r = Inr j" for j using new(5) that answered_said by simp
    show "good_is_last env (length (cl_calls lg)) new (summary_of_response j)" if "r = Inr j" for j
      unfolding good_is_last_def using last[OF that] at[OF that] by (metis Suc_diff_1 length_pos_if_in_set less_nat_zero_code not_gr_zero nth_mem)
    show "no_good env (length (cl_calls lg)) new"
      if "r = Inr j" "summary_of_response j = [] \<or> extract_incomplete_response_signals j \<noteq> []" for j
      unfolding no_good_def using last[OF that(1)] at[OF that(1)] that(2) by (auto simp: good_answer_def)
  qed
qed

definition step_effect ::
    "summarizer_env \<Rightarrow> utext \<Rightarrow> bool \<Rightarrow> resolved_summary_candidate \<Rightarrow> nat \<Rightarrow> call_exn option \<Rightarrow> chain_log
     \<Rightarrow> candidate_step \<Rightarrow> bool" where
  "step_effect env fallback has_next cand n last_auth lg step \<longleftrightarrow>
     (case step of (lg', last_auth', v) \<Rightarrow> \<exists>new pauses.
        cl_calls lg' = cl_calls lg @ new \<and> length new \<le> n \<and> list_all (asks cand) new
        \<and> cl_sleeps lg' = cl_sleeps lg @ pauses \<and> list_all (\<lambda>ms. ms \<le> 8000) pauses
        \<and> length pauses \<le> of_bool has_next
        \<and> (last_auth' = last_auth \<or> (\<exists>e. last_auth' = Some e \<and> is_auth e))
        \<and> (case v of
             Return_Text s \<Rightarrow> (s = fallback \<or> s \<noteq> [] \<and> said env lg' s)
               \<and> good_is_last env (length (cl_calls lg)) new s
           | Raise_Error e \<Rightarrow> is_auth e \<and> no_good env (length (cl_calls lg)) new
           | _ \<Rightarrow> no_good env (length (cl_calls lg)) new))"

lemma compute_backoff_le [simp]: "compute_backoff_ms index \<le> 8000"
  by (simp add: compute_backoff_ms_def)

lemma backoff_simps [simp]:
  "cl_calls (backoff index lg) = cl_calls lg"
  "cl_sleeps (backoff index lg) = cl_sleeps lg @ [compute_backoff_ms index]"
  by (simp_all add: backoff_def)

lemma said_cong: "cl_calls lg = cl_calls lg' \<Longrightarrow> said env lg s = said env lg' s"
  by (simp add: said_def)

lemma retry_candidate_effect:
  assumes "initial = [] \<or> said env lg initial"
  shows "step_effect env fallback has_next cand 2 last_auth lg
    (retry_candidate env args fallback has_next index cand initial last_auth lg)"
proof -
  obtain lg' r where run: "attempt_summarizer_call env args cand ''retry'' (Some ''low'') lg = (lg', r)" by fastforce
  from attempt_calls[OF run] obtain new where new: "cl_calls lg' = cl_calls lg @ new" "length new \<le> 2"
    "list_all (asks cand) new" "cl_sleeps lg' = cl_sleeps lg"
    and bad: "\<And>e. r = Inl e \<Longrightarrow> no_good env (length (cl_calls lg)) new"
    and good: "\<And>j. r = Inr j \<Longrightarrow> said env lg' (summary_of_response j)"
      "\<And>j. r = Inr j \<Longrightarrow> good_is_last env (length (cl_calls lg)) new (summary_of_response j)"
      "\<And>j. r = Inr j \<Longrightarrow> summary_of_response j = [] \<or> extract_incomplete_response_signals j \<noteq> [] \<Longrightarrow>
         no_good env (length (cl_calls lg)) new" by metis
  have initial: "initial = [] \<or> said env lg' initial" using assms said_mono[OF _ new(1)] by blast
  show ?thesis
  proof (cases r)
    case (Inl e)
    show ?thesis
      using new bad[OF Inl] no_good_is_last[OF bad[OF Inl]] initial
      by (cases e) (auto simp: retry_candidate_def run Inl step_effect_def Let_def is_auth_def)
  next
    case (Inr j)
    show ?thesis
    proof (cases "summary_of_response j = []")
      case True
      then have "no_good env (length (cl_calls lg)) new" using good(3)[OF Inr] by simp
      then show ?thesis using new initial True no_good_is_last
        by (auto simp: retry_candidate_def run Inr step_effect_def Let_def)
    next
      case False
      then show ?thesis using new good(1,2)[OF Inr]
        by (auto simp: retry_candidate_def run Inr step_effect_def Let_def)
    qed
  qed
qed

lemma step_effect_after:
  assumes "step_effect env fallback has_next cand n last_auth lg1 step"
    and "cl_calls lg1 = cl_calls lg @ new1" "cl_sleeps lg1 = cl_sleeps lg" "length new1 \<le> m" "list_all (asks cand) new1"
    and "no_good env (length (cl_calls lg)) new1"
  shows "step_effect env fallback has_next cand (m + n) last_auth lg step"
proof -
  obtain lg' la v where step: "step = (lg', la, v)" by (cases step) auto
  from assms(1) obtain new pauses where e: "cl_calls lg' = cl_calls lg1 @ new" "length new \<le> n" "list_all (asks cand) new"
      "cl_sleeps lg' = cl_sleeps lg1 @ pauses" "list_all (\<lambda>ms. ms \<le> 8000) pauses" "length pauses \<le> of_bool has_next"
      "la = last_auth \<or> (\<exists>e. la = Some e \<and> is_auth e)"
    and v: "case v of Return_Text s \<Rightarrow> (s = fallback \<or> s \<noteq> [] \<and> said env lg' s) \<and> good_is_last env (length (cl_calls lg1)) new s
      | Raise_Error e \<Rightarrow> is_auth e \<and> no_good env (length (cl_calls lg1)) new
      | _ \<Rightarrow> no_good env (length (cl_calls lg1)) new"
    unfolding step_effect_def step prod.case by blast
  have "case v of Return_Text s \<Rightarrow> (s = fallback \<or> s \<noteq> [] \<and> said env lg' s) \<and> good_is_last env (length (cl_calls lg)) (new1 @ new) s
      | Raise_Error e \<Rightarrow> is_auth e \<and> no_good env (length (cl_calls lg)) (new1 @ new)
      | _ \<Rightarrow> no_good env (length (cl_calls lg)) (new1 @ new)"
    using v good_is_last_append[OF assms(6)] no_good_append[OF assms(6)] assms(2) by (auto split: verdict.splits)
  then show ?thesis unfolding step_effect_def step prod.case
    using e assms(2-5) by (intro exI[of _ "new1 @ new"] exI[of _ pauses]) auto
qed

lemma try_candidate_effect:
  "step_effect env fallback has_next cand 4 last_auth lg
    (try_candidate env args fallback has_next index cand last_auth lg)"
proof -
  obtain lg' r where run: "attempt_summarizer_call env args cand ''initial'' None lg = (lg', r)" by fastforce
  from attempt_calls[OF run] obtain new where new: "cl_calls lg' = cl_calls lg @ new" "length new \<le> 2"
    "list_all (asks cand) new" "cl_sleeps lg' = cl_sleeps lg"
    and bad: "\<And>e. r = Inl e \<Longrightarrow> no_good env (length (cl_calls lg)) new"
    and good: "\<And>j. r = Inr j \<Longrightarrow> said env lg' (summary_of_response j)"
      "\<And>j. r = Inr j \<Longrightarrow> good_is_last env (length (cl_calls lg)) new (summary_of_response j)"
      "\<And>j. r = Inr j \<Longrightarrow> summary_of_response j = [] \<or> extract_incomplete_response_signals j \<noteq> [] \<Longrightarrow>
         no_good env (length (cl_calls lg)) new" by metis
  show ?thesis
  proof (cases r)
    case (Inl e)
    show ?thesis
      using new bad[OF Inl] no_good_is_last[OF bad[OF Inl]]
      by (cases e) (auto simp: try_candidate_def run Inl step_effect_def Let_def is_auth_def)
  next
    case (Inr j)
    show ?thesis
    proof (cases "summary_of_response j \<noteq> [] \<and> extract_incomplete_response_signals j = []")
      case True
      then show ?thesis using new good(1,2)[OF Inr]
        by (auto simp: try_candidate_def run Inr step_effect_def Let_def)
    next
      case False
      then have "no_good env (length (cl_calls lg)) new" using good(3)[OF Inr] by blast
      from step_effect_after[OF retry_candidate_effect new(1,4,2,3) this] good(1)[OF Inr] False
      show ?thesis by (auto simp: try_candidate_def run Inr)
    qed
  qed
qed

text \<open>What the chain as a whole does.\<close>

definition chain_effect ::
    "summarizer_env \<Rightarrow> utext \<Rightarrow> resolved_summary_candidate list \<Rightarrow> chain_log \<Rightarrow> chain_log \<Rightarrow> call_exn + utext \<Rightarrow> bool" where
  "chain_effect env fallback cands lg lg' r \<longleftrightarrow> (\<exists>news pauses.
     cl_calls lg' = cl_calls lg @ concat news \<and> list_all2 (\<lambda>qs c. length qs \<le> 4 \<and> list_all (asks c) qs) news cands
     \<and> cl_sleeps lg' = cl_sleeps lg @ pauses \<and> list_all (\<lambda>ms. ms \<le> 8000) pauses \<and> length pauses \<le> length cands - 1
     \<and> (case r of
          Inr s \<Rightarrow> (s = fallback \<or> s \<noteq> [] \<and> said env lg' s) \<and> good_is_last env (length (cl_calls lg)) (concat news) s
        | Inl e \<Rightarrow> is_auth e \<and> no_good env (length (cl_calls lg)) (concat news)))"

lemma chain_effect_stop:
  assumes "cl_calls lg' = cl_calls lg @ new" "length new \<le> 4" "list_all (asks cand) new"
    "cl_sleeps lg' = cl_sleeps lg @ pauses" "list_all (\<lambda>ms. ms \<le> 8000) pauses" "length pauses \<le> length cands"
    and "case r of
          Inr s \<Rightarrow> (s = fallback \<or> s \<noteq> [] \<and> said env lg' s) \<and> good_is_last env (length (cl_calls lg)) new s
        | Inl e \<Rightarrow> is_auth e \<and> no_good env (length (cl_calls lg)) new"
  shows "chain_effect env fallback (cand # cands) lg lg' r"
proof -
  have "list_all2 (\<lambda>qs c. length qs \<le> 4 \<and> list_all (asks c) qs) (replicate (length cands) []) cands"
    by (induction cands) simp_all
  then show ?thesis unfolding chain_effect_def
    by (intro exI[of _ "new # replicate (length cands) []"] exI[of _ pauses])
      (use assms in \<open>auto split: sum.splits\<close>)
qed

lemma try_candidates_effect:
  assumes "last_auth = None \<or> (\<exists>e. last_auth = Some e \<and> is_auth e)"
    and "try_candidates env args fallback index cands last_auth lg = (lg', r)"
  shows "chain_effect env fallback cands lg lg' r"
  using assms
proof (induction cands arbitrary: index last_auth lg)
  case Nil
  then show ?case
    by (auto simp: chain_effect_def no_good_def good_is_last_def intro!: exI[of _ "[]"] split: option.splits)
next
  case (Cons cand cands)
  obtain lg1 la v where step: "try_candidate env args fallback (cands \<noteq> []) index cand last_auth lg = (lg1, la, v)"
    by (metis prod_cases3)
  from try_candidate_effect[of env fallback "cands \<noteq> []" cand last_auth lg args index]
  obtain new pauses where e: "cl_calls lg1 = cl_calls lg @ new" "length new \<le> 4" "list_all (asks cand) new"
      "cl_sleeps lg1 = cl_sleeps lg @ pauses" "list_all (\<lambda>ms. ms \<le> 8000) pauses" "length pauses \<le> of_bool (cands \<noteq> [])"
      "la = last_auth \<or> (\<exists>e. la = Some e \<and> is_auth e)"
    and v: "case v of Return_Text s \<Rightarrow> (s = fallback \<or> s \<noteq> [] \<and> said env lg1 s) \<and> good_is_last env (length (cl_calls lg)) new s
      | Raise_Error e \<Rightarrow> is_auth e \<and> no_good env (length (cl_calls lg)) new
      | _ \<Rightarrow> no_good env (length (cl_calls lg)) new"
    unfolding step_effect_def step prod.case by blast
  have la: "la = None \<or> (\<exists>e. la = Some e \<and> is_auth e)" using e(7) Cons.prems(1) by blast
  have pauses: "length pauses \<le> length cands" using e(6) by (cases cands) auto
  note stop = chain_effect_stop[OF e(1-5) pauses]
  show ?case
  proof (cases v)
    case (Return_Text s)
    then have "lg' = lg1" "r = Inr s" using Cons.prems(2) step by simp_all
    with v Return_Text show ?thesis by (auto intro: stop)
  next
    case (Raise_Error x)
    then have "lg' = lg1" "r = Inl x" using Cons.prems(2) step by simp_all
    with v Raise_Error show ?thesis by (auto intro: stop)
  next
    case Break
    then have "lg' = lg1" and r: "r = (case la of Some e \<Rightarrow> Inl e | None \<Rightarrow> Inr fallback)" using Cons.prems(2) step by simp_all
    moreover have "no_good env (length (cl_calls lg)) new" using v Break by simp
    ultimately show ?thesis using la no_good_is_last by (cases la) (auto intro: stop)
  next
    case Continue
    then have "try_candidates env args fallback (Suc index) cands la lg1 = (lg', r)" using Cons.prems(2) step by simp
    from Cons.IH[OF la this] obtain news pauses' where rest: "cl_calls lg' = cl_calls lg1 @ concat news"
      "list_all2 (\<lambda>qs c. length qs \<le> 4 \<and> list_all (asks c) qs) news cands"
      "cl_sleeps lg' = cl_sleeps lg1 @ pauses'" "list_all (\<lambda>ms. ms \<le> 8000) pauses'" "length pauses' \<le> length cands - 1"
      and r: "case r of Inr s \<Rightarrow> (s = fallback \<or> s \<noteq> [] \<and> said env lg' s) \<and> good_is_last env (length (cl_calls lg1)) (concat news) s
        | Inl e \<Rightarrow> is_auth e \<and> no_good env (length (cl_calls lg1)) (concat news)"
      unfolding chain_effect_def by blast
    have ng: "no_good env (length (cl_calls lg)) new" using v Continue by simp
    have "case r of Inr s \<Rightarrow> (s = fallback \<or> s \<noteq> [] \<and> said env lg' s) \<and> good_is_last env (length (cl_calls lg)) (concat (new # news)) s
        | Inl e \<Rightarrow> is_auth e \<and> no_good env (length (cl_calls lg)) (concat (new # news))"
      using r good_is_last_append[OF ng] no_good_append[OF ng] e(1) by (auto split: sum.splits)
    moreover have "length (pauses @ pauses') \<le> length (cand # cands) - 1" using e(6) rest(5) by (cases cands) auto
    ultimately show ?thesis unfolding chain_effect_def
      using e rest by (intro exI[of _ "new # news"] exI[of _ "pauses @ pauses'"]) auto
  qed
qed

subsection \<open>What the summarizer promises\<close>

lemma build_deterministic_fallback_nonempty: "u_strip tx \<noteq> [] \<Longrightarrow> build_deterministic_fallback tx n \<noteq> []"
  by (auto simp: build_deterministic_fallback_def Let_def u_strip_def u_lstrip_def u_rstrip_def)

lemma summarize_effect:
  assumes "summarize env sz tx aggressive opts lg = (lg', r)" "u_strip tx \<noteq> []" "ls_candidates sz \<noteq> []"
  shows "chain_effect env (build_deterministic_fallback tx (summarize_target env sz tx aggressive opts))
    (ls_candidates sz) lg lg' r"
proof -
  have "tx \<noteq> []" using assms(2) by (auto simp: u_strip_def u_lstrip_def u_rstrip_def)
  then show ?thesis
    using try_candidates_effect[of None env _ _ 0 "ls_candidates sz" lg lg' r] assms by (simp add: summarize_def)
qed

lemma is_auth_iff: "is_auth e \<longleftrightarrow> (\<exists>p m f. e = Provider_Auth_Error p m f)"
  by (cases e) (simp_all add: is_auth_def)

text \<open>C23. For a text that is not blank the summarizer returns a text that is not empty, which is what a provider said
  in one of the logged responses or the marked fallback, or it raises an authentication error; no other
  failure of a provider gets out, and no text is made up.\<close>

theorem chain_answers_or_refuses:
  assumes "u_strip tx \<noteq> []" "ls_candidates sz \<noteq> []" "summarize env sz tx aggressive opts lg = (lg', r)"
  shows "(\<exists>s. r = Inr s \<and> s \<noteq> []
      \<and> (s = build_deterministic_fallback tx (summarize_target env sz tx aggressive opts) \<or> said env lg' s))
    \<or> (\<exists>p m f. r = Inl (Provider_Auth_Error p m f))"
  using summarize_effect[OF assms(3,1,2)] build_deterministic_fallback_nonempty[OF assms(1)]
  by (cases r) (auto simp: chain_effect_def is_auth_iff)

text \<open>The candidates are asked in their order, each at most four times (two attempts with one direct retry each),
  with fewer pauses than candidates and no pause over eight seconds.\<close>

theorem candidates_asked_in_order:
  "case summarize env sz tx aggressive opts lg of (lg', r) \<Rightarrow> \<exists>news pauses.
     cl_calls lg' = cl_calls lg @ concat news
     \<and> list_all2 (\<lambda>qs c. length qs \<le> 4 \<and> list_all (asks c) qs) news (ls_candidates sz)
     \<and> cl_sleeps lg' = cl_sleeps lg @ pauses \<and> list_all (\<lambda>ms. ms \<le> 8000) pauses
     \<and> length pauses \<le> length (ls_candidates sz) - 1"
proof -
  obtain lg' r where run: "summarize env sz tx aggressive opts lg = (lg', r)" by fastforce
  show ?thesis
  proof (cases "u_strip tx \<noteq> [] \<and> ls_candidates sz \<noteq> []")
    case True
    with summarize_effect[OF run] show ?thesis by (auto simp: run chain_effect_def)
  next
    case False
    then have "lg' = lg" using run by (auto simp: summarize_def split: if_splits)
    moreover have "list_all2 (\<lambda>qs c. length qs \<le> 4 \<and> list_all (asks c) qs)
        (replicate (length (ls_candidates sz)) []) (ls_candidates sz)"
      by (induction "ls_candidates sz" rule: list.induct) (auto simp: list_all2_conv_all_nth)
    ultimately show ?thesis
      unfolding run prod.case
      by (intro exI[of _ "replicate (length (ls_candidates sz)) []"] exI[of _ "[]"]) simp
  qed
qed

text \<open>The first complete answer ends the chain: no provider is asked after it, and its text is the summary.\<close>

theorem good_answer_ends_chain:
  assumes "summarize env sz tx aggressive opts lg = (lg', r)" "length (cl_calls lg) \<le> i" "i < length (cl_calls lg')"
    and "good_answer env i (cl_calls lg' ! i)" "se_complete env i (cl_calls lg' ! i) = Completed j"
  shows "Suc i = length (cl_calls lg') \<and> r = Inr (summary_of_response j)"
proof -
  have "u_strip tx \<noteq> [] \<and> ls_candidates sz \<noteq> []"
    using assms(1-3) by (auto simp: summarize_def split: if_splits)
  with summarize_effect[OF assms(1)] obtain news where
    new: "cl_calls lg' = cl_calls lg @ concat news"
    and r: "case r of Inr s \<Rightarrow> good_is_last env (length (cl_calls lg)) (concat news) s
        | Inl e \<Rightarrow> no_good env (length (cl_calls lg)) (concat news)"
    unfolding chain_effect_def by (cases r) auto
  obtain k where k: "i = length (cl_calls lg) + k" using assms(2) le_Suc_ex by blast
  with assms(3-5) new have "k < length (concat news)" "good_answer env (length (cl_calls lg) + k) (concat news ! k)"
    "se_complete env (length (cl_calls lg) + k) (concat news ! k) = Completed j" by (simp_all add: nth_append)
  with r k new show ?thesis by (auto simp: no_good_def good_is_last_def split: sum.splits)
qed

text \<open>The chain has no candidate twice, and the target lies between the floors and the configured size.\<close>

lemma candidates_distinct: "distinct (map candidate_key (resolve_summary_candidates cfg provider_hint model_hint))"
proof -
  have "distinct (map candidate_key (dedupe_candidates_from seen cs))
      \<and> set seen \<inter> candidate_key ` set (dedupe_candidates_from seen cs) = {}" for seen cs
  proof (induction cs arbitrary: seen)
    case (Cons c cs)
    from Cons[of seen] Cons[of "candidate_key c # seen"] show ?case by auto
  qed simp
  then show ?thesis by (simp add: resolve_summary_candidates_def dedupe_resolved_candidates_def Let_def)
qed

lemma target_bounds:
  "96 \<le> resolve_target_tokens fl n mode is_condensed leaf condensed
   \<and> resolve_target_tokens fl n mode is_condensed leaf condensed \<le> (if is_condensed then max 512 condensed else max 192 leaf)"
  by (auto simp: resolve_target_tokens_def Let_def)

subsection \<open>Authentication failures\<close>

text \<open>An answer that both readings recognise as a refused key.\<close>

definition refuses :: "summarizer_env \<Rightarrow> provider_outcome \<Rightarrow> bool" where
  "refuses env oc = (case oc of
     Completed r \<Rightarrow> extract_provider_auth_failure env True r \<noteq> None
   | Raised e \<Rightarrow> (case e of
       Other_Error n m a \<Rightarrow> extract_provider_auth_failure env False (coerce_exn e) \<noteq> None
         \<and> extract_provider_auth_failure env True (coerce_exn e) \<noteq> None
     | _ \<Rightarrow> False)
   | Overrun \<Rightarrow> False)"

definition refused_by :: "resolved_summary_candidate \<Rightarrow> call_exn + 'a \<Rightarrow> bool" where
  "refused_by c r \<longleftrightarrow> (\<exists>f. r = Inl (Provider_Auth_Error (sc_provider c) (sc_model c) f))"

lemma run_refused:
  assumes "\<And>i q. asks cand q \<Longrightarrow> refuses env (se_complete env i q)"
    and "run_summarizer_call env args cand key label reasoning skip lg = (lg', x)"
  shows "(\<exists>j. x = Inr j \<and> extract_provider_auth_failure env True j \<noteq> None)
    \<or> (\<exists>n m a. x = Inl (Other_Error n m a)
        \<and> extract_provider_auth_failure env False (coerce_exn (Other_Error n m a)) \<noteq> None
        \<and> extract_provider_auth_failure env True (coerce_exn (Other_Error n m a)) \<noteq> None)"
proof -
  from run_effect[OF assms(2)] obtain q where q: "asks cand q"
    "x = with_timeout (ca_timeout_ms args) label (se_complete env (length (cl_calls lg)) q)" by blast
  with assms(1)[OF q(1), of "length (cl_calls lg)"] show ?thesis
    by (auto simp: refuses_def with_timeout_def simp del: coerce_exn.simps split: provider_outcome.splits call_exn.splits)
qed

lemma retry_refused:
  assumes "\<And>i q. asks cand q \<Longrightarrow> refuses env (se_complete env i q)"
    and "\<And>i p m b. \<exists>k. se_api_key env i p m b = Inr k"
  shows "refused_by cand (snd (retry_without_model_auth env args cand f reasoning lg))"
proof -
  obtain key where key: "se_api_key env (length (cl_calls lg)) (sc_provider cand) (sc_model cand) True = Inr key"
    using assms(2) by blast
  obtain lg1 x where run: "run_summarizer_call env args cand key ''auth-retry'' reasoning True lg = (lg1, x)" by fastforce
  from run_refused[OF assms(1) run] show ?thesis
    by (auto simp: retry_without_model_auth_def Let_def key run refused_by_def checked_result_def
        simp del: coerce_exn.simps split: option.splits)
qed

lemma attempt_refused:
  assumes "\<And>i q. asks cand q \<Longrightarrow> refuses env (se_complete env i q)"
    and "\<And>i p m b. \<exists>k. se_api_key env i p m b = Inr k"
  shows "refused_by cand (snd (attempt_summarizer_call env args cand label reasoning lg))"
proof -
  obtain key where key: "se_api_key env (length (cl_calls lg)) (sc_provider cand) (sc_model cand) False = Inr key"
    using assms(2) by blast
  obtain lg1 x where run: "run_summarizer_call env args cand key label reasoning False lg = (lg1, x)" by fastforce
  from run_refused[OF assms(1) run] retry_refused[OF assms, where args = args] show ?thesis
    by (auto simp: attempt_summarizer_call_def key run simp del: coerce_exn.simps split: option.splits)
qed

lemma try_refused:
  assumes "\<And>i q. asks cand q \<Longrightarrow> refuses env (se_complete env i q)"
    and "\<And>i p m b. \<exists>k. se_api_key env i p m b = Inr k"
  shows "\<exists>lg' f. try_candidate env args fallback has_next index cand last_auth lg =
    (lg', Some (Provider_Auth_Error (sc_provider cand) (sc_model cand) f),
     if has_next then Continue else Raise_Error (Provider_Auth_Error (sc_provider cand) (sc_model cand) f))"
proof -
  obtain lg1 x where run: "attempt_summarizer_call env args cand ''initial'' None lg = (lg1, x)" by fastforce
  have "refused_by cand (snd (attempt_summarizer_call env args cand ''initial'' None lg))"
    by (rule attempt_refused) (use assms in auto)
  then obtain f where "x = Inl (Provider_Auth_Error (sc_provider cand) (sc_model cand) f)" by (auto simp: run refused_by_def)
  then show ?thesis by (auto simp: try_candidate_def run)
qed

lemma chain_refused:
  assumes "\<And>i q c. c \<in> set cands \<Longrightarrow> asks c q \<Longrightarrow> refuses env (se_complete env i q)"
    and "\<And>i p m b. \<exists>k. se_api_key env i p m b = Inr k" "cands \<noteq> []"
  shows "refused_by (last cands) (snd (try_candidates env args fallback index cands last_auth lg))"
  using assms(1,3)
proof (induction cands arbitrary: index last_auth lg)
  case (Cons c cands)
  have "\<exists>lg' f. try_candidate env args fallback (cands \<noteq> []) index c last_auth lg =
      (lg', Some (Provider_Auth_Error (sc_provider c) (sc_model c) f),
       if cands \<noteq> [] then Continue else Raise_Error (Provider_Auth_Error (sc_provider c) (sc_model c) f))"
    by (rule try_refused) (use Cons.prems(1) assms(2) in auto)
  then obtain lg' f where step: "try_candidate env args fallback (cands \<noteq> []) index c last_auth lg =
      (lg', Some (Provider_Auth_Error (sc_provider c) (sc_model c) f),
       if cands \<noteq> [] then Continue else Raise_Error (Provider_Auth_Error (sc_provider c) (sc_model c) f))" by blast
  show ?case
  proof (cases "cands = []")
    case True
    with step show ?thesis by (simp add: refused_by_def)
  next
    case False
    have "refused_by (last cands) (snd (try_candidates env args fallback (Suc index) cands
        (Some (Provider_Auth_Error (sc_provider c) (sc_model c) f)) lg'))"
      by (rule Cons.IH) (use Cons.prems(1) False in auto)
    with step False show ?thesis by simp
  qed
qed simp

text \<open>When every candidate refuses the key in every call, the summarizer raises the authentication error of the
  last one; it never writes the fallback.\<close>

theorem all_refusals_raise:
  assumes "u_strip tx \<noteq> []" "ls_candidates sz \<noteq> []"
    and "\<And>i q c. c \<in> set (ls_candidates sz) \<Longrightarrow> asks c q \<Longrightarrow> refuses env (se_complete env i q)"
    and "\<And>i p m b. \<exists>k. se_api_key env i p m b = Inr k"
  shows "\<exists>f. snd (summarize env sz tx aggressive opts lg)
    = Inl (Provider_Auth_Error (sc_provider (last (ls_candidates sz))) (sc_model (last (ls_candidates sz))) f)"
proof -
  have "tx \<noteq> []" using assms(1) by (auto simp: u_strip_def u_lstrip_def u_rstrip_def)
  have "refused_by (last (ls_candidates sz)) (snd (try_candidates env args fallback 0 (ls_candidates sz) None lg))" for args fallback
    by (rule chain_refused) (use assms in auto)
  then show ?thesis using assms(1,2) \<open>tx \<noteq> []\<close> by (simp add: summarize_def refused_by_def)
qed

lemma attempt_overrun:
  assumes "\<And>i q. asks c q \<Longrightarrow> se_complete env i q = Overrun" "\<And>i p m b. \<exists>k. se_api_key env i p m b = Inr k"
  shows "\<exists>lg' ms. attempt_summarizer_call env args c label reasoning lg = (lg', Inl (Timeout_Error ms label))"
proof -
  obtain key where key: "se_api_key env (length (cl_calls lg)) (sc_provider c) (sc_model c) False = Inr key"
    using assms(2) by blast
  obtain lg1 x where run: "run_summarizer_call env args c key label reasoning False lg = (lg1, x)" by fastforce
  from run_effect[OF this] assms(1) have "x = Inl (Timeout_Error (ca_timeout_ms args) label)"
    by (auto simp: with_timeout_def)
  then show ?thesis by (simp add: attempt_summarizer_call_def key run)
qed

lemma chain_refused_then_overrun:
  assumes "\<And>i q c'. c' \<in> set cands \<Longrightarrow> asks c' q \<Longrightarrow> refuses env (se_complete env i q)"
    and "\<And>i q. asks c q \<Longrightarrow> se_complete env i q = Overrun" "\<And>i p m b. \<exists>k. se_api_key env i p m b = Inr k"
  shows "snd (try_candidates env args fallback index (cands @ [c]) last_auth lg) = Inr fallback"
  using assms(1)
proof (induction cands arbitrary: index last_auth lg)
  case Nil
  have "\<exists>lg' ms. attempt_summarizer_call env args c ''initial'' None lg = (lg', Inl (Timeout_Error ms ''initial''))"
    by (rule attempt_overrun) (use assms(2,3) in auto)
  then show ?case by (auto simp: try_candidate_def)
next
  case (Cons c' cands)
  have "\<exists>lg' f. try_candidate env args fallback True index c' last_auth lg =
      (lg', Some (Provider_Auth_Error (sc_provider c') (sc_model c') f),
       if True then Continue else Raise_Error (Provider_Auth_Error (sc_provider c') (sc_model c') f))"
    by (rule try_refused) (use Cons.prems(1) assms(3) in auto)
  then obtain lg' f where step: "try_candidate env args fallback True index c' last_auth lg =
      (lg', Some (Provider_Auth_Error (sc_provider c') (sc_model c') f), Continue)" by auto
  have "snd (try_candidates env args fallback (Suc index) (cands @ [c]) last_auth' lg') = Inr fallback" for last_auth'
    by (rule Cons.IH) (use Cons.prems(1) in auto)
  with step show ?case by simp
qed

text \<open>A refused key is forgotten when the last candidate overruns its time: although every other candidate
  refused, the fallback is returned and no authentication error is raised.\<close>

theorem timeout_hides_refusals:
  assumes "u_strip tx \<noteq> []" "ls_candidates sz = cands @ [c]"
    and "\<And>i q c'. c' \<in> set cands \<Longrightarrow> asks c' q \<Longrightarrow> refuses env (se_complete env i q)"
    and "\<And>i q. asks c q \<Longrightarrow> se_complete env i q = Overrun" "\<And>i p m b. \<exists>k. se_api_key env i p m b = Inr k"
  shows "snd (summarize env sz tx aggressive opts lg)
    = Inr (build_deterministic_fallback tx (summarize_target env sz tx aggressive opts))"
proof -
  have "tx \<noteq> []" using assms(1) by (auto simp: u_strip_def u_lstrip_def u_rstrip_def)
  have "snd (try_candidates env args fallback 0 (cands @ [c]) None lg) = Inr fallback" for args fallback
    by (rule chain_refused_then_overrun) (use assms in auto)
  then show ?thesis using assms(1,2) \<open>tx \<noteq> []\<close> by (simp add: summarize_def)
qed

subsection \<open>A cut-off answer\<close>

text \<open>The first call was answered with a text that is cut off, and the retry fails.\<close>

definition cut_off :: "summarizer_env \<Rightarrow> json \<Rightarrow> bool" where
  "cut_off env r \<longleftrightarrow> sound env r \<and> summary_of_response r \<noteq> [] \<and> extract_incomplete_response_signals r \<noteq> []"

lemma attempt_sound:
  assumes "\<And>q. se_complete env (length (cl_calls lg)) q = Completed r" "sound env r"
    and "\<And>i p m b. \<exists>k. se_api_key env i p m b = Inr k"
  shows "\<exists>q. attempt_summarizer_call env args c label reasoning lg = (lg\<lparr>cl_calls := cl_calls lg @ [q]\<rparr>, Inr r)"
proof -
  obtain key where key: "se_api_key env (length (cl_calls lg)) (sc_provider c) (sc_model c) False = Inr key"
    using assms(3) by blast
  have "attempt_summarizer_call env args c label reasoning lg
    = (fst (run_summarizer_call env args c key label reasoning False lg), Inr r)"
    using assms(1,2) by (simp add: attempt_summarizer_call_def key run_summarizer_call_def Let_def with_timeout_def
        checked_result_def sound_def)
  then show ?thesis by (auto simp: run_summarizer_call_def Let_def)
qed

lemma attempt_fails:
  assumes "\<And>q. se_complete env (length (cl_calls lg)) q = Completed r"
    and "extract_provider_auth_failure env True r = None" "extract_provider_response_failure env r \<noteq> None"
    and "\<And>i p m b. \<exists>k. se_api_key env i p m b = Inr k"
  shows "\<exists>lg' p m f. attempt_summarizer_call env args c label reasoning lg = (lg', Inl (Provider_Response_Error p m f))"
proof -
  obtain key where key: "se_api_key env (length (cl_calls lg)) (sc_provider c) (sc_model c) False = Inr key"
    using assms(4) by blast
  show ?thesis using assms(1-3)
    by (auto simp: attempt_summarizer_call_def key run_summarizer_call_def Let_def with_timeout_def checked_result_def)
qed

lemma attempt_overrun_at:
  assumes "\<And>q. se_complete env (length (cl_calls lg)) q = Overrun" "\<And>i p m b. \<exists>k. se_api_key env i p m b = Inr k"
  shows "\<exists>lg' ms. attempt_summarizer_call env args c label reasoning lg = (lg', Inl (Timeout_Error ms label))"
proof -
  obtain key where key: "se_api_key env (length (cl_calls lg)) (sc_provider c) (sc_model c) False = Inr key"
    using assms(2) by blast
  show ?thesis using assms(1)
    by (simp add: attempt_summarizer_call_def key run_summarizer_call_def Let_def with_timeout_def)
qed

text \<open>When the retry for a cut-off answer of the only candidate overruns its time, the cut-off text is the summary;
  when the retry gets an error response instead, that text is thrown away for the fallback.\<close>

theorem cut_off_answer_dropped:
  assumes "u_strip tx \<noteq> []" "ls_candidates sz = [c]" "cl_calls lg = []" "cut_off env r"
    and "\<And>q. se_complete env 0 q = Completed r" "\<And>i p m b. \<exists>k. se_api_key env i p m b = Inr k"
  shows "((\<forall>q. se_complete env 1 q = Overrun) \<longrightarrow>
      snd (summarize env sz tx aggressive opts lg) = Inr (summary_of_response r))
    \<and> ((\<forall>q. se_complete env 1 q = Completed r') \<and> extract_provider_auth_failure env True r' = None
        \<and> extract_provider_response_failure env r' \<noteq> None \<longrightarrow>
      snd (summarize env sz tx aggressive opts lg)
        = Inr (build_deterministic_fallback tx (summarize_target env sz tx aggressive opts)))"
proof -
  have tx: "tx \<noteq> []" using assms(1) by (auto simp: u_strip_def u_lstrip_def u_rstrip_def)
  define args where "args = summarize_args env sz tx aggressive opts"
  define fb where "fb = build_deterministic_fallback tx (summarize_target env sz tx aggressive opts)"
  have run: "snd (summarize env sz tx aggressive opts lg) = snd (try_candidates env args fb 0 [c] None lg)"
    using assms(1,2) tx by (simp add: summarize_def args_def fb_def)
  have "\<exists>q. attempt_summarizer_call env args c ''initial'' None lg = (lg\<lparr>cl_calls := cl_calls lg @ [q]\<rparr>, Inr r)"
    by (rule attempt_sound) (use assms in \<open>auto simp: cut_off_def\<close>)
  then obtain q where first: "attempt_summarizer_call env args c ''initial'' None lg = (lg\<lparr>cl_calls := [q]\<rparr>, Inr r)"
    using assms(3) by auto
  let ?lg = "lg\<lparr>cl_calls := [q]\<rparr>"
  have try1: "try_candidate env args fb False 0 c None lg
      = retry_candidate env args fb False 0 c (summary_of_response r) None ?lg"
    using assms(4) by (simp add: try_candidate_def first cut_off_def)
  have "snd (summarize env sz tx aggressive opts lg) = Inr (summary_of_response r)"
    if "\<forall>q. se_complete env 1 q = Overrun"
  proof -
    have "\<exists>lg' ms. attempt_summarizer_call env args c ''retry'' (Some ''low'') ?lg = (lg', Inl (Timeout_Error ms ''retry''))"
      by (rule attempt_overrun_at) (use that assms(6) in auto)
    then show ?thesis using assms(4) by (auto simp: run try1 retry_candidate_def cut_off_def)
  qed
  moreover have "snd (summarize env sz tx aggressive opts lg)
      = Inr (build_deterministic_fallback tx (summarize_target env sz tx aggressive opts))"
    if r': "\<forall>q. se_complete env 1 q = Completed r'" "extract_provider_auth_failure env True r' = None"
      "extract_provider_response_failure env r' \<noteq> None"
  proof -
    have "\<exists>lg' p m f. attempt_summarizer_call env args c ''retry'' (Some ''low'') ?lg = (lg', Inl (Provider_Response_Error p m f))"
      by (rule attempt_fails) (use r' assms(6) in auto)
    then have "snd (try_candidates env args fb 0 [c] None lg) = Inr fb" by (auto simp: try1 retry_candidate_def)
    then show ?thesis using run by (simp add: fb_def)
  qed
  ultimately show ?thesis by blast
qed

text \<open>An exception with a \<open>response\<close> attribute and no status of its own is not looked into: neither its message nor
  a status is read, so a refused key goes unnoticed.\<close>

lemma no_error_word:
  assumes "\<And>c. u_alpha c \<Longrightarrow> al c"
  shows "\<not> re_search al ([Bound] @ lits ''error'' @ [Bound]) (cps ''HTTPStatusError'')"
proof -
  have "al 115" "al 69" using assms by (simp_all add: u_alpha_def)
  then show ?thesis by (simp add: re_search_def lits_def cps_def ci_eq_def word_at_def word_char_def)
qed

lemma nothing_in_blank:
  "\<not> list_ex (\<lambda>p. re_search al p []) auth_error_text_pattern"
  "\<not> re_search al (Bound # ps) []" "\<not> re_search al (lits (c # cs) @ ps) []"
  by (simp_all add: auth_error_text_pattern_def re_search_def lits_def cps_def word_at_def)

lemma exception_with_response_unread:
  assumes "\<And>c. u_alpha c \<Longrightarrow> se_is_alnum env c"
  shows "extract_provider_auth_failure env structural
    (coerce_exn (Other_Error (cps ''HTTPStatusError'') message [(''response'', JBool True)])) = None"
proof -
  have view: "coerce_exn (Other_Error (cps ''HTTPStatusError'') message [(''response'', JBool True)])
    = JObj [(''name'', JStr (cps ''HTTPStatusError'')), (''message'', JStr message), (''response'', JBool True)]"
    by (simp add: exn_attributes_def map_filter_simps)
  have "pick_auth_inspection_value (se_is_alnum env)
      (JObj [(''name'', JStr (cps ''HTTPStatusError'')), (''message'', JStr message), (''response'', JBool True)]) = JObj []"
    using no_error_word[OF assms]
    by (simp add: pick_auth_inspection_value_def has_top_level_auth_inspection_keys_def auth_error_top_level_keys_def
        has_key_def is_provider_auth_def looks_like_thrown_error_def)
  moreover have "extract_auth_failure_status_code (se_parse_int env) 4 (JObj []) = None"
    by (simp add: numeral_eq_Suc auth_error_status_keys_def auth_error_nested_keys_def)
  moreover have "collect_auth_failure_text 4 (JObj []) = []" by (simp add: numeral_eq_Suc)
  ultimately show ?thesis unfolding view
    using nothing_in_blank(1,2)[of "se_is_alnum env"]
    by (simp add: extract_provider_auth_failure_def is_provider_auth_def u_join_def collapse_spaces_def u_strip_def
        u_lstrip_def u_rstrip_def Let_def)
qed

subsection \<open>Concrete runs\<close>

definition sample_answer :: "nat list \<Rightarrow> (string \<times> json) list \<Rightarrow> json" where
  "sample_answer t extra = JObj ((''content'', JArr [JObj [(''text'', JStr t)]]) # extra)"

definition sample_candidate :: "nat \<Rightarrow> resolved_summary_candidate" where
  "sample_candidate n = \<lparr>sc_level_name = [], sc_model = [n], sc_provider = [n], sc_has_explicit_provider = True,
     sc_use_legacy_auth_profile = False\<rparr>"

definition sample_summarizer :: "nat list \<Rightarrow> lcm_summarizer" where
  "sample_summarizer ns = \<lparr>ls_config = \<lparr>sf_summary_model = JNull, sf_summary_provider = JNull, sf_fallback_providers = [],
       sf_agents_compaction_model = JNull, sf_agents_default_model = JNull, sf_leaf_target_tokens = JNull,
       sf_condensed_target_tokens = JNull, sf_summary_timeout_ms = JNull, sf_env_summary_provider = [],
       sf_env_summary_model = []\<rparr>,
     ls_custom_instructions = None, ls_candidates = map sample_candidate ns\<rparr>"

definition sample_env :: "(nat \<Rightarrow> llm_request \<Rightarrow> provider_outcome) \<Rightarrow> summarizer_env" where
  "sample_env f = \<lparr>se_complete = f, se_api_key = (\<lambda>_ _ _ _. Inr (Some [1])), se_runtime_managed = (\<lambda>_. None),
     se_parse_int = (\<lambda>_. None), se_is_alnum = (\<lambda>n. u_alpha n \<or> u_digit n), se_fl = id\<rparr>"

definition sample_options :: lcm_summarize_options where
  "sample_options = \<lparr>so_previous_summary = None, so_is_condensed = False, so_depth = None\<rparr>"

definition empty_log :: chain_log where "empty_log = \<lparr>cl_calls = [], cl_sleeps = []\<rparr>"

definition refusing :: json where "refusing = JObj [(''status'', JInt 401)]"

lemma depth_four: "(4 :: nat) = Suc (Suc (Suc (Suc 0)))"
  by simp

lemma strip_incomplete: "u_strip (cps ''incomplete'') = cps ''incomplete''" "u_lower (cps ''incomplete'') = cps ''incomplete''"
  by (simp_all add: cps_def u_strip_def u_lstrip_def u_rstrip_def u_isspace_def u_lower_def)

lemmas reading_defs = extract_provider_auth_failure_def extract_provider_response_failure_def pick_auth_inspection_value_def
  has_top_level_auth_inspection_keys_def auth_error_top_level_keys_def auth_error_status_keys_def auth_error_nested_keys_def
  has_key_def is_provider_auth_def looks_like_thrown_error_def get_provider_response_finish_reason_def stripped_str_def
  depth_four strip_incomplete

lemma sample_refuses: "refuses (sample_env f) (Completed refusing)"
  by (simp add: refuses_def refusing_def reading_defs Let_def)

lemma sample_sound: "sound (sample_env f) (sample_answer t [])" "sound (sample_env f) (sample_answer t [(''status'', JStr (cps ''incomplete''))])"
  by (simp_all add: sound_def sample_answer_def reading_defs sample_env_def Let_def re_search_def)

lemma sample_summary: "t = [97] \<Longrightarrow> summary_of_response (sample_answer t extra) = t"
  by (simp add: summary_of_response_def sample_answer_def normalize_completion_summary_def normalize_text_fragments_def
      is_reasoning_like_type_def has_key_def u_join_def u_strip_def u_lstrip_def u_rstrip_def u_isspace_def)

lemma sample_incomplete: "extract_incomplete_response_signals (sample_answer t [(''status'', JStr (cps ''incomplete''))]) \<noteq> []"
  "extract_incomplete_response_signals (sample_answer t []) = []"
  by (simp_all add: extract_incomplete_response_signals_def sample_answer_def depth_four strip_incomplete stripped_str_def
      has_key_def)

lemma sample_text: "u_strip [98] = [98]"
  by (simp add: u_strip_def u_lstrip_def u_rstrip_def u_isspace_def)

lemma sample_keys: "\<exists>k. se_api_key (sample_env f) i p m b = Inr k"
  by (simp add: sample_env_def)

lemma sample_complete [simp]: "se_complete (sample_env f) = f"
  by (simp add: sample_env_def)

lemma sample_candidates [simp]: "ls_candidates (sample_summarizer ns) = map sample_candidate ns"
  by (simp add: sample_summarizer_def)

theorem chain_answers_or_refuses_witness:
  "snd (summarize (sample_env (\<lambda>_ _. Overrun)) (sample_summarizer [2, 3]) [98] False sample_options empty_log) \<noteq> Inr []"
proof -
  obtain lg' r where run: "summarize (sample_env (\<lambda>_ _. Overrun)) (sample_summarizer [2, 3]) [98] False sample_options empty_log = (lg', r)"
    by fastforce
  from chain_answers_or_refuses[OF _ _ run] show ?thesis by (auto simp: run sample_text)
qed

theorem good_answer_ends_chain_witness:
  "snd (summarize (sample_env (\<lambda>_ _. Completed (sample_answer [97] []))) (sample_summarizer [2, 3]) [98] False sample_options empty_log)
   = Inr [97]"
proof -
  let ?env = "sample_env (\<lambda>_ _. Completed (sample_answer [97] []))" and ?sz = "sample_summarizer [2, 3]"
  let ?args = "summarize_args ?env ?sz [98] False sample_options"
  have "\<exists>q. attempt_summarizer_call ?env ?args (sample_candidate 2) ''initial'' None empty_log
      = (empty_log\<lparr>cl_calls := cl_calls empty_log @ [q]\<rparr>, Inr (sample_answer [97] []))"
    by (rule attempt_sound) (use sample_sound sample_keys in auto)
  then obtain q where "attempt_summarizer_call ?env ?args (sample_candidate 2) ''initial'' None empty_log
      = (empty_log\<lparr>cl_calls := [q]\<rparr>, Inr (sample_answer [97] []))" by (auto simp: empty_log_def)
  then have run: "summarize ?env ?sz [98] False sample_options empty_log = (empty_log\<lparr>cl_calls := [q]\<rparr>, Inr [97])"
    by (simp add: summarize_def sample_text try_candidate_def sample_summary sample_incomplete)
  have "good_answer ?env 0 q" by (simp add: good_answer_def sample_sound sample_summary sample_incomplete)
  with good_answer_ends_chain[OF run, of 0 "sample_answer [97] []"]
  have said: "(Inr [97] :: call_exn + utext) = Inr (summary_of_response (sample_answer [97] []))" by (simp add: empty_log_def)
  have "snd (summarize ?env ?sz [98] False sample_options empty_log) = Inr [97]" using run by simp
  also note said
  finally show ?thesis by (simp only: sample_summary[OF refl])
qed

theorem all_refusals_raise_witness:
  "\<exists>f. snd (summarize (sample_env (\<lambda>_ _. Completed refusing)) (sample_summarizer [2, 3]) [98] False sample_options empty_log)
    = Inl (Provider_Auth_Error [3] [3] f)"
  using all_refusals_raise[of "[98]" "sample_summarizer [2, 3]" "sample_env (\<lambda>_ _. Completed refusing)" False sample_options empty_log]
  by (simp add: sample_text sample_refuses sample_keys sample_candidate_def)

theorem timeout_hides_refusals_witness:
  "snd (summarize (sample_env (\<lambda>_ q. if rq_provider q = [3] then Overrun else Completed refusing)) (sample_summarizer [2, 3])
      [98] False sample_options empty_log)
    = Inr (build_deterministic_fallback [98] (summarize_target
        (sample_env (\<lambda>_ q. if rq_provider q = [3] then Overrun else Completed refusing)) (sample_summarizer [2, 3]) [98] False sample_options))"
  using timeout_hides_refusals[of "[98]" "sample_summarizer [2, 3]" "[sample_candidate 2]" "sample_candidate 3"
      "sample_env (\<lambda>_ q. if rq_provider q = [3] then Overrun else Completed refusing)" False sample_options empty_log]
  by (simp add: sample_text sample_refuses sample_keys sample_candidate_def asks_def)

definition failing_second :: "nat \<Rightarrow> llm_request \<Rightarrow> provider_outcome" where
  "failing_second i q = (if i = 0 then Completed (sample_answer [97] [(''status'', JStr (cps ''incomplete''))])
     else Completed (JObj [(''status'', JInt 500)]))"

theorem cut_off_answer_dropped_witness:
  "snd (summarize (sample_env failing_second) (sample_summarizer [2]) [98] False sample_options empty_log)
    = Inr (build_deterministic_fallback [98] (summarize_target (sample_env failing_second) (sample_summarizer [2]) [98] False sample_options))"
proof -
  have "cut_off (sample_env failing_second) (sample_answer [97] [(''status'', JStr (cps ''incomplete''))])"
    by (simp add: cut_off_def sample_sound sample_summary sample_incomplete)
  moreover have "extract_provider_auth_failure (sample_env failing_second) True (JObj [(''status'', JInt 500)]) = None"
    "extract_provider_response_failure (sample_env failing_second) (JObj [(''status'', JInt 500)]) \<noteq> None"
    by (simp_all add: reading_defs Let_def)
  ultimately show ?thesis
    using cut_off_answer_dropped[of "[98]" "sample_summarizer [2]" "sample_candidate 2" empty_log "sample_env failing_second"
        "sample_answer [97] [(''status'', JStr (cps ''incomplete''))]" False sample_options "JObj [(''status'', JInt 500)]"]
    by (simp add: sample_text sample_keys failing_second_def empty_log_def)
qed

end
