(* ===== verification/Pruning.thy ===== *)
theory Pruning
  imports Assembler Conversation_Store
begin

text \<open>
  Taking content out of sight: the cascade of \<open>prune.py\<close> and its twin in \<open>operator/purge.py\<close>, which mark
  leaf summaries and their messages as suppressed, cut them out of every context and drop the cached
  texts made from them. Nothing is deleted from the tables of messages and summaries.

  The state adds to the tables what the cascade reads and writes besides them: the conversations, the
  columns \<open>session_key\<close>, \<open>suppress_reason\<close> and \<open>contains_suppressed_leaves\<close> of \<open>summaries\<close>, and the two
  cache tables (\<open>None\<close> in a database that lacks them). A point in time of the criteria is its ISO text,
  and \<open>stamp\<close> gives the text that SQLite stores for a time; the statements compare these texts.
\<close>

subsection \<open>State and criteria\<close>

record prune_state =
  pn_db :: lcm_db
  pn_conversations :: conversation_table
  pn_summary_session_key :: "string \<Rightarrow> utext"
  pn_suppress_reason :: "string \<rightharpoonup> utext"
  pn_contains_suppressed_leaves :: "string \<Rightarrow> bool"
  pn_cache :: "(string list \<times> (string \<times> string) list) option"

record prune_criteria =
  pc_summary_ids :: "string list"
  pc_session_key :: "utext option"
  pc_since :: "string option"
  pc_before :: "string option"
  pc_min_token_count :: "int option"

datatype prune_error = Missing_Reason | No_Criteria | Main_Session_Blocked | Sql_Error

record prune_counts =
  nc_summaries_suppressed :: nat
  nc_condensed_flagged :: nat
  nc_context_items_summary_deleted :: nat
  nc_context_items_message_deleted :: nat
  nc_messages_suppressed :: nat
  nc_synthesis_cache_invalidated :: nat

text \<open>The order of SQLite's texts is that of their bytes.\<close>

fun text_less :: "string \<Rightarrow> string \<Rightarrow> bool" where
  "text_less s [] = False"
| "text_less [] (d # ds) = True"
| "text_less (c # cs) (d # ds) =
     ((of_char c :: nat) < of_char d \<or> c = d \<and> text_less cs ds)"

definition validate_reason :: "utext \<Rightarrow> prune_error option" where
  "validate_reason reason = (if reason = [] \<or> u_strip reason = [] then Some Missing_Reason else None)"

definition validate_criteria :: "prune_criteria \<Rightarrow> prune_error option" where
  "validate_criteria criteria =
     (if pc_summary_ids criteria \<noteq> [] then None
      else if (case pc_session_key criteria of Some k \<Rightarrow> k \<noteq> [] | None \<Rightarrow> False)
          \<or> pc_since criteria \<noteq> None \<or> pc_before criteria \<noteq> None \<or> pc_min_token_count criteria \<noteq> None then None
      else Some No_Criteria)"

subsection \<open>Targets\<close>

definition live_leaf :: "summary_record \<Rightarrow> bool" where
  "live_leaf s \<longleftrightarrow> sr_kind s = Leaf \<and> \<not> sr_suppressed s"

definition in_range :: "(int \<Rightarrow> string) \<Rightarrow> prune_criteria \<Rightarrow> summary_record \<Rightarrow> bool" where
  "in_range stamp criteria s \<longleftrightarrow>
     (case pc_since criteria of Some t \<Rightarrow> \<not> text_less (stamp (sr_created_at s)) t | None \<Rightarrow> True)
   \<and> (case pc_before criteria of Some t \<Rightarrow> text_less (stamp (sr_created_at s)) t | None \<Rightarrow> True)
   \<and> (case pc_min_token_count criteria of Some n \<Rightarrow> n \<le> sr_token_count s | None \<Rightarrow> True)"

definition in_session :: "prune_state \<Rightarrow> utext \<Rightarrow> summary_record \<Rightarrow> bool" where
  "in_session st key s \<longleftrightarrow>
     list_ex (\<lambda>c. cv_session_key c = Some key \<and> cv_conversation_id c = sr_conversation_id s) (ct_rows (pn_conversations st))"

definition criteria_match :: "(int \<Rightarrow> string) \<Rightarrow> prune_criteria \<Rightarrow> prune_state \<Rightarrow> summary_record \<Rightarrow> bool" where
  "criteria_match stamp criteria st s \<longleftrightarrow>
     (if pc_summary_ids criteria \<noteq> [] then sr_summary_id s \<in> set (pc_summary_ids criteria)
      else (case pc_session_key criteria of Some key \<Rightarrow> in_session st key s | None \<Rightarrow> True)
        \<and> in_range stamp criteria s)"

definition resolve_target_leaf_ids :: "(int \<Rightarrow> string) \<Rightarrow> prune_criteria \<Rightarrow> prune_state \<Rightarrow> string list" where
  "resolve_target_leaf_ids stamp criteria st = map sr_summary_id
     (filter (\<lambda>s. live_leaf s \<and> criteria_match stamp criteria st s) (db_summaries (pn_db st)))"

text \<open>\<open>operator/purge.py\<close> reads the key from the column of \<open>summaries\<close>, and takes an empty key for none.\<close>

definition purge_match :: "(int \<Rightarrow> string) \<Rightarrow> prune_criteria \<Rightarrow> prune_state \<Rightarrow> summary_record \<Rightarrow> bool" where
  "purge_match stamp criteria st s \<longleftrightarrow>
     (if pc_summary_ids criteria \<noteq> [] then sr_summary_id s \<in> set (pc_summary_ids criteria)
      else (case pc_session_key criteria of
              Some key \<Rightarrow> key = [] \<or> pn_summary_session_key st (sr_summary_id s) = key | None \<Rightarrow> True)
        \<and> in_range stamp criteria s)"

definition purge_target_leaf_ids :: "(int \<Rightarrow> string) \<Rightarrow> prune_criteria \<Rightarrow> prune_state \<Rightarrow> string list" where
  "purge_target_leaf_ids stamp criteria st = map sr_summary_id
     (filter (\<lambda>s. live_leaf s \<and> purge_match stamp criteria st s) (db_summaries (pn_db st)))"

subsection \<open>The cascade\<close>

definition linked_messages :: "lcm_db \<Rightarrow> string list \<Rightarrow> int list" where
  "linked_messages db leaf_ids =
     map (\<lambda>(_, m, _). m) (filter (\<lambda>(s, _, _). s \<in> set leaf_ids) (db_summary_messages db))"

definition suppress_summaries :: "string list \<Rightarrow> lcm_db \<Rightarrow> lcm_db" where
  "suppress_summaries leaf_ids db = db\<lparr>db_summaries :=
     map (\<lambda>s. if sr_summary_id s \<in> set leaf_ids then s\<lparr>sr_suppressed := True\<rparr> else s) (db_summaries db)\<rparr>"

definition has_suppressed_parent :: "lcm_db \<Rightarrow> string list \<Rightarrow> summary_record \<Rightarrow> bool" where
  "has_suppressed_parent db leaf_ids s \<longleftrightarrow> sr_kind s = Condensed
     \<and> list_ex (\<lambda>(c, p, _). c = sr_summary_id s \<and> p \<in> set leaf_ids) (db_summary_parents db)"

definition points_to_summary :: "string list \<Rightarrow> context_item \<Rightarrow> bool" where
  "points_to_summary leaf_ids i = (case ci_ref i of Sum s \<Rightarrow> s \<in> set leaf_ids | Msg _ \<Rightarrow> False)"

definition points_to_message :: "int list \<Rightarrow> context_item \<Rightarrow> bool" where
  "points_to_message message_ids i = (case ci_ref i of Msg m \<Rightarrow> m \<in> set message_ids | Sum _ \<Rightarrow> False)"

text \<open>The gate of the fifth step: a summary outside the set still shows the message.\<close>

definition shown_elsewhere :: "lcm_db \<Rightarrow> string list \<Rightarrow> int \<Rightarrow> bool" where
  "shown_elsewhere db leaf_ids mid \<longleftrightarrow>
     list_ex (\<lambda>(s, m, _). m = mid \<and> s \<notin> set leaf_ids
       \<and> list_ex (\<lambda>r. sr_summary_id r = s \<and> \<not> sr_suppressed r) (db_summaries db)) (db_summary_messages db)"

definition hides_message :: "lcm_db \<Rightarrow> string list \<Rightarrow> message_record \<Rightarrow> bool" where
  "hides_message db leaf_ids m \<longleftrightarrow>
     mr_message_id m \<in> set (linked_messages db leaf_ids) \<and> \<not> shown_elsewhere db leaf_ids (mr_message_id m)"

definition suppress_messages :: "string list \<Rightarrow> lcm_db \<Rightarrow> lcm_db" where
  "suppress_messages leaf_ids db = db\<lparr>db_messages :=
     map (\<lambda>m. if hides_message db leaf_ids m then m\<lparr>mr_suppressed := True\<rparr> else m) (db_messages db)\<rparr>"

definition stale_cache :: "(string \<times> string) list \<Rightarrow> string list \<Rightarrow> string \<Rightarrow> bool" where
  "stale_cache refs leaf_ids cache_id \<longleftrightarrow> list_ex (\<lambda>(c, l). c = cache_id \<and> l \<in> set leaf_ids) refs"

text \<open>Deleting a cache row deletes its rows in \<open>lcm_cache_leaf_refs\<close> (\<open>ON DELETE CASCADE\<close>).\<close>

definition drop_cache ::
    "string list \<Rightarrow> (string list \<times> (string \<times> string) list) option \<Rightarrow> (string list \<times> (string \<times> string) list) option" where
  "drop_cache leaf_ids cache = (case cache of
     None \<Rightarrow> None
   | Some (rows, refs) \<Rightarrow> let keep = filter (\<lambda>c. \<not> stale_cache refs leaf_ids c) rows in
       Some (keep, filter (\<lambda>(c, _). \<not> stale_cache refs leaf_ids c) refs))"

definition run_soft_prune_body :: "string list \<Rightarrow> utext \<Rightarrow> prune_state \<Rightarrow> prune_state \<times> prune_counts" where
  "run_soft_prune_body leaf_ids reason st =
     (let db0 = pn_db st;
          db1 = suppress_summaries leaf_ids db0;
          hit = filter (has_suppressed_parent db1 leaf_ids) (db_summaries db1);
          db3 = delete_context_items (points_to_summary leaf_ids) db1;
          mids = linked_messages db3 leaf_ids;
          db4 = delete_context_items (points_to_message mids) db3;
          db5 = suppress_messages leaf_ids db4 in
      (st\<lparr>pn_db := db5,
          pn_suppress_reason := (\<lambda>s. if s \<in> set leaf_ids \<and> ref_exists db0 (Sum s) then Some reason else pn_suppress_reason st s),
          pn_contains_suppressed_leaves :=
            (\<lambda>s. pn_contains_suppressed_leaves st s \<or> s \<in> set (map sr_summary_id hit)),
          pn_cache := drop_cache leaf_ids (pn_cache st)\<rparr>,
       \<lparr>nc_summaries_suppressed = length (filter (\<lambda>s. sr_summary_id s \<in> set leaf_ids) (db_summaries db0)),
        nc_condensed_flagged = length hit,
        nc_context_items_summary_deleted = length (filter (points_to_summary leaf_ids) (db_context_items db1)),
        nc_context_items_message_deleted = length (filter (points_to_message mids) (db_context_items db3)),
        nc_messages_suppressed = length (filter (hides_message db4 leaf_ids) (db_messages db4)),
        nc_synthesis_cache_invalidated =
          (case pn_cache st of None \<Rightarrow> 0 | Some (rows, refs) \<Rightarrow> length (filter (stale_cache refs leaf_ids) rows))\<rparr>))"

definition no_counts :: prune_counts where
  "no_counts = \<lparr>nc_summaries_suppressed = 0, nc_condensed_flagged = 0, nc_context_items_summary_deleted = 0,
     nc_context_items_message_deleted = 0, nc_messages_suppressed = 0, nc_synthesis_cache_invalidated = 0\<rparr>"

record prune_result =
  pr_affected_leaf_ids :: "string list"
  pr_counts :: prune_counts

definition run_soft_prune_atomic ::
    "(int \<Rightarrow> string) \<Rightarrow> prune_criteria \<Rightarrow> utext \<Rightarrow> prune_state \<Rightarrow> prune_state \<times> (prune_error + prune_result)" where
  "run_soft_prune_atomic stamp criteria reason st =
     (let target_leaves = resolve_target_leaf_ids stamp criteria st in
      if target_leaves = [] then (st, Inr \<lparr>pr_affected_leaf_ids = [], pr_counts = no_counts\<rparr>)
      else case run_soft_prune_body target_leaves reason st of (st', counts) \<Rightarrow>
        (st', Inr \<lparr>pr_affected_leaf_ids = target_leaves, pr_counts = counts\<rparr>))"

definition ids_criteria :: "string list \<Rightarrow> prune_criteria" where
  "ids_criteria ids = \<lparr>pc_summary_ids = ids, pc_session_key = None, pc_since = None, pc_before = None,
     pc_min_token_count = None\<rparr>"

definition preview_soft_prune_affected ::
    "(int \<Rightarrow> string) \<Rightarrow> prune_criteria \<Rightarrow> prune_state \<Rightarrow> prune_error + nat" where
  "preview_soft_prune_affected stamp criteria st =
     (case validate_criteria criteria of Some e \<Rightarrow> Inl e
      | None \<Rightarrow> Inr (length (resolve_target_leaf_ids stamp criteria st)))"

definition soft_prune_summary_ids ::
    "(int \<Rightarrow> string) \<Rightarrow> string list \<Rightarrow> utext \<Rightarrow> prune_state \<Rightarrow> prune_state \<times> (prune_error + prune_result)" where
  "soft_prune_summary_ids stamp summary_ids reason st =
     (case validate_reason reason of Some e \<Rightarrow> (st, Inl e)
      | None \<Rightarrow> (case validate_criteria (ids_criteria summary_ids) of Some e \<Rightarrow> (st, Inl e)
        | None \<Rightarrow> run_soft_prune_atomic stamp (ids_criteria summary_ids) reason st))"

definition main_session :: utext where "main_session = cps ''agent:main:main''"

definition soft_prune_session ::
    "(int \<Rightarrow> string) \<Rightarrow> utext \<Rightarrow> utext \<Rightarrow> string option \<Rightarrow> string option \<Rightarrow> int option \<Rightarrow> bool \<Rightarrow> prune_state
     \<Rightarrow> prune_state \<times> (prune_error + prune_result)" where
  "soft_prune_session stamp session_key reason since before min_token_count allow_main_session st =
     (let criteria = \<lparr>pc_summary_ids = [], pc_session_key = Some session_key, pc_since = since, pc_before = before,
            pc_min_token_count = min_token_count\<rparr> in
      case validate_reason reason of Some e \<Rightarrow> (st, Inl e)
      | None \<Rightarrow>
        if session_key = [] \<or> u_strip session_key = [] then (st, Inl No_Criteria)
        else if session_key = main_session \<and> \<not> allow_main_session then (st, Inl Main_Session_Blocked)
        else case validate_criteria criteria of Some e \<Rightarrow> (st, Inl e)
          | None \<Rightarrow> run_soft_prune_atomic stamp criteria reason st)"

text \<open>The operator's command. Its body has no test for the cache tables: without them the sixth step raises.\<close>

definition run_soft_purge_body :: "string list \<Rightarrow> utext \<Rightarrow> prune_state \<Rightarrow> prune_error + prune_state" where
  "run_soft_purge_body leaf_ids reason st =
     (let suppressed = suppress_summaries leaf_ids (pn_db st);
          st1 = st\<lparr>pn_db := suppressed,
            pn_suppress_reason := (\<lambda>s. if s \<in> set leaf_ids \<and> ref_exists (pn_db st) (Sum s) then Some reason
              else pn_suppress_reason st s)\<rparr>;
          st2 = st1\<lparr>pn_contains_suppressed_leaves := (\<lambda>s. pn_contains_suppressed_leaves st1 s
            \<or> s \<in> set (map sr_summary_id (filter (has_suppressed_parent (pn_db st1) leaf_ids) (db_summaries (pn_db st1)))))\<rparr>;
          st3 = st2\<lparr>pn_db := delete_context_items (points_to_summary leaf_ids) (pn_db st2)\<rparr>;
          st4 = st3\<lparr>pn_db := delete_context_items (points_to_message (linked_messages (pn_db st3) leaf_ids)) (pn_db st3)\<rparr>;
          st5 = st4\<lparr>pn_db := suppress_messages leaf_ids (pn_db st4)\<rparr> in
      case pn_cache st5 of None \<Rightarrow> Inl Sql_Error
      | Some _ \<Rightarrow> Inr (st5\<lparr>pn_cache := drop_cache leaf_ids (pn_cache st5)\<rparr>))"

text \<open>An exception rolls the transaction back.\<close>

definition run_soft_purge_atomic ::
    "(int \<Rightarrow> string) \<Rightarrow> prune_criteria \<Rightarrow> utext \<Rightarrow> prune_state \<Rightarrow> prune_state \<times> (prune_error + string list)" where
  "run_soft_purge_atomic stamp criteria reason st =
     (let target_leaves = purge_target_leaf_ids stamp criteria st in
      if target_leaves = [] then (st, Inr [])
      else case run_soft_purge_body target_leaves reason st of
          Inl e \<Rightarrow> (st, Inl e)
        | Inr st' \<Rightarrow> (st', Inr target_leaves))"

definition run_purge ::
    "(int \<Rightarrow> string) \<Rightarrow> prune_criteria \<Rightarrow> utext \<Rightarrow> bool \<Rightarrow> prune_state \<Rightarrow> prune_state \<times> (prune_error + string list)" where
  "run_purge stamp criteria reason allow_main_session st =
     (if reason = [] \<or> u_strip reason = [] then (st, Inl Missing_Reason)
      else case validate_criteria criteria of Some e \<Rightarrow> (st, Inl e)
      | None \<Rightarrow>
        if pc_session_key criteria = Some main_session \<and> \<not> allow_main_session then (st, Inl Main_Session_Blocked)
        else run_soft_purge_atomic stamp criteria reason st)"

definition preview_purge_affected :: "(int \<Rightarrow> string) \<Rightarrow> prune_criteria \<Rightarrow> prune_state \<Rightarrow> nat" where
  "preview_purge_affected stamp criteria st = length (purge_target_leaf_ids stamp criteria st)"

subsection \<open>What the cascade does\<close>

text \<open>The tables after the cascade, in terms of those before it.\<close>

lemma body_tables:
  assumes "run_soft_prune_body ids reason st = (st', counts)"
  shows "db_summaries (pn_db st') =
      map (\<lambda>s. if sr_summary_id s \<in> set ids then s\<lparr>sr_suppressed := True\<rparr> else s) (db_summaries (pn_db st))"
    and "db_messages (pn_db st') = map (\<lambda>m. if mr_message_id m \<in> set (linked_messages (pn_db st) ids)
        \<and> \<not> shown_elsewhere (suppress_summaries ids (pn_db st)) ids (mr_message_id m)
      then m\<lparr>mr_suppressed := True\<rparr> else m) (db_messages (pn_db st))"
    and "db_context_items (pn_db st') = filter (\<lambda>i. \<not> points_to_summary ids i
        \<and> \<not> points_to_message (linked_messages (pn_db st) ids) i) (db_context_items (pn_db st))"
    and "db_summary_messages (pn_db st') = db_summary_messages (pn_db st)"
    and "db_summary_parents (pn_db st') = db_summary_parents (pn_db st)"
    and "db_message_parts (pn_db st') = db_message_parts (pn_db st)"
    and "db_next_message_id (pn_db st') = db_next_message_id (pn_db st)"
    and "pn_conversations st' = pn_conversations st"
    and "pn_summary_session_key st' = pn_summary_session_key st"
  using assms
  by (auto simp: run_soft_prune_body_def Let_def suppress_summaries_def suppress_messages_def delete_context_items_def
      linked_messages_def hides_message_def shown_elsewhere_def filter_filter conj_commute intro!: filter_cong)

lemma ref_exists_ids:
  "ref_exists db (Msg m) \<longleftrightarrow> m \<in> set (map mr_message_id (db_messages db))"
  "ref_exists db (Sum sid) \<longleftrightarrow> sid \<in> set (map sr_summary_id (db_summaries db))"
  by (auto simp: list_ex_iff)

lemma ref_exists_pruned:
  assumes "db_summaries db' = map (\<lambda>s. if P s then s\<lparr>sr_suppressed := True\<rparr> else s) (db_summaries db)"
    and "db_messages db' = map (\<lambda>m. if Q m then m\<lparr>mr_suppressed := True\<rparr> else m) (db_messages db)"
  shows "ref_exists db' r = ref_exists db r"
proof -
  have "map mr_message_id (db_messages db') = map mr_message_id (db_messages db)"
    "map sr_summary_id (db_summaries db') = map sr_summary_id (db_summaries db)"
    by (simp_all add: assms)
  then show ?thesis by (cases r) (simp_all add: ref_exists_ids del: ref_exists.simps set_map)
qed

lemma body_wf:
  assumes "wf_db (pn_db st)" "run_soft_prune_body ids reason st = (st', counts)"
  shows "wf_db (pn_db st')"
proof -
  note t = body_tables[OF assms(2)]
  note ref = ref_exists_pruned[OF t(1,2)]
  have m: "map mr_message_id (db_messages (pn_db st')) = map mr_message_id (db_messages (pn_db st))"
    "map (\<lambda>m. (mr_conversation_id m, mr_seq m)) (db_messages (pn_db st'))
      = map (\<lambda>m. (mr_conversation_id m, mr_seq m)) (db_messages (pn_db st))"
    "map sr_summary_id (db_summaries (pn_db st')) = map sr_summary_id (db_summaries (pn_db st))"
    by (simp_all add: t comp_def if_distrib cong: map_cong)
  have "list_all (\<lambda>m. mr_message_id m < db_next_message_id (pn_db st)) (db_messages (pn_db st'))"
    using assms(1) by (auto simp: wf_db_def t(2) list_all_iff)
  then show ?thesis
    using assms(1) unfolding wf_db_def m ref t(4-7)
    by (auto simp: t(3) list_all_iff distinct_map intro: inj_on_subset)
qed

lemma targets_live:
  assumes "sid \<in> set (resolve_target_leaf_ids stamp criteria st)"
  shows "\<exists>s \<in> set (db_summaries (pn_db st)). sr_summary_id s = sid \<and> live_leaf s"
  using assms by (auto simp: resolve_target_leaf_ids_def split: if_splits)

lemma atomic_cases:
  assumes "run_soft_prune_atomic stamp criteria reason st = (st', Inr res)"
  shows "pr_affected_leaf_ids res = resolve_target_leaf_ids stamp criteria st"
    and "pr_affected_leaf_ids res = [] \<Longrightarrow> st' = st"
    and "pr_affected_leaf_ids res \<noteq> [] \<Longrightarrow> \<exists>counts. run_soft_prune_body (pr_affected_leaf_ids res) reason st = (st', counts)"
  using assms by (auto simp: run_soft_prune_atomic_def Let_def split: if_splits prod.splits)

lemma hidden_messages:
  assumes "run_soft_prune_body ids reason st = (st', counts)" "m \<in> set (db_messages (pn_db st'))"
  shows "\<exists>m0 \<in> set (db_messages (pn_db st)). mr_message_id m0 = mr_message_id m \<and> mr_content m0 = mr_content m
    \<and> (mr_suppressed m \<longleftrightarrow> mr_suppressed m0
        \<or> mr_message_id m \<in> set (linked_messages (pn_db st) ids)
          \<and> (\<forall>s \<in> set (db_summaries (pn_db st')). (\<exists>o'. (sr_summary_id s, mr_message_id m, o') \<in> set (db_summary_messages (pn_db st)))
              \<longrightarrow> sr_suppressed s))"
proof -
  note t = body_tables[OF assms(1)]
  from assms(2) obtain m0 where m0: "m0 \<in> set (db_messages (pn_db st))"
    "m = (if mr_message_id m0 \<in> set (linked_messages (pn_db st) ids)
        \<and> \<not> shown_elsewhere (suppress_summaries ids (pn_db st)) ids (mr_message_id m0)
      then m0\<lparr>mr_suppressed := True\<rparr> else m0)" by (auto simp: t(2))
  have id: "mr_message_id m = mr_message_id m0" "mr_content m = mr_content m0" using m0(2) by auto
  have same: "db_summaries (suppress_summaries ids (pn_db st)) = db_summaries (pn_db st')"
    "db_summary_messages (suppress_summaries ids (pn_db st)) = db_summary_messages (pn_db st)"
    by (simp_all add: suppress_summaries_def t(1))
  have live: "sr_summary_id r \<notin> set ids" if "r \<in> set (db_summaries (pn_db st'))" "\<not> sr_suppressed r" for r
    using that by (auto simp: t(1))
  have "shown_elsewhere (suppress_summaries ids (pn_db st)) ids (mr_message_id m) \<longleftrightarrow>
      \<not> (\<forall>s \<in> set (db_summaries (pn_db st')). (\<exists>o'. (sr_summary_id s, mr_message_id m, o') \<in> set (db_summary_messages (pn_db st)))
              \<longrightarrow> sr_suppressed s)"
  proof (intro iffI)
    assume "shown_elsewhere (suppress_summaries ids (pn_db st)) ids (mr_message_id m)"
    then obtain o' r where "(sr_summary_id r, mr_message_id m, o') \<in> set (db_summary_messages (pn_db st))"
      "r \<in> set (db_summaries (pn_db st'))" "\<not> sr_suppressed r"
      unfolding shown_elsewhere_def same list_ex_iff by auto
    then show "\<not> (\<forall>s \<in> set (db_summaries (pn_db st')). (\<exists>o'. (sr_summary_id s, mr_message_id m, o') \<in> set (db_summary_messages (pn_db st)))
              \<longrightarrow> sr_suppressed s)" by blast
  next
    assume "\<not> (\<forall>s \<in> set (db_summaries (pn_db st')). (\<exists>o'. (sr_summary_id s, mr_message_id m, o') \<in> set (db_summary_messages (pn_db st)))
              \<longrightarrow> sr_suppressed s)"
    then obtain s o' where s: "s \<in> set (db_summaries (pn_db st'))" "\<not> sr_suppressed s"
      "(sr_summary_id s, mr_message_id m, o') \<in> set (db_summary_messages (pn_db st))" by blast
    show "shown_elsewhere (suppress_summaries ids (pn_db st)) ids (mr_message_id m)"
      unfolding shown_elsewhere_def same list_ex_iff using s live[OF s(1,2)]
      by (intro bexI[OF _ s(3)]) auto
  qed
  moreover have "mr_suppressed m \<longleftrightarrow> mr_suppressed m0 \<or> mr_message_id m \<in> set (linked_messages (pn_db st) ids)
      \<and> \<not> shown_elsewhere (suppress_summaries ids (pn_db st)) ids (mr_message_id m)"
  proof (cases "mr_message_id m0 \<in> set (linked_messages (pn_db st) ids)
      \<and> \<not> shown_elsewhere (suppress_summaries ids (pn_db st)) ids (mr_message_id m0)")
    case True
    then have "m = m0\<lparr>mr_suppressed := True\<rparr>" using m0(2) by (simp only: if_True simp_thms)
    then have "mr_suppressed m" by simp
    with True show ?thesis unfolding id(1) by blast
  next
    case False
    then have "m = m0" using m0(2) by (simp only: if_False)
    with False show ?thesis unfolding id(1) by blast
  qed
  ultimately have "mr_suppressed m \<longleftrightarrow> mr_suppressed m0
        \<or> mr_message_id m \<in> set (linked_messages (pn_db st) ids)
          \<and> (\<forall>s \<in> set (db_summaries (pn_db st')). (\<exists>o'. (sr_summary_id s, mr_message_id m, o') \<in> set (db_summary_messages (pn_db st)))
              \<longrightarrow> sr_suppressed s)" by (simp only: not_not)
  then show ?thesis by (intro bexI[OF _ m0(1)] conjI id[symmetric])
qed

text \<open>A message is hidden by a prune exactly when it was made into a pruned leaf and every summary that was made
  from it is suppressed afterwards; a message that a live summary still stands for stays readable.
\<close>

theorem prune_spares_shared_messages:
  assumes "run_soft_prune_body ids reason st = (st', counts)" "m \<in> set (db_messages (pn_db st'))"
  shows "\<exists>m0 \<in> set (db_messages (pn_db st)). mr_message_id m0 = mr_message_id m \<and> mr_content m0 = mr_content m
    \<and> (mr_suppressed m \<longleftrightarrow> mr_suppressed m0
        \<or> mr_message_id m \<in> set (linked_messages (pn_db st) ids)
          \<and> (\<forall>s \<in> set (db_summaries (pn_db st')). (\<exists>o'. (sr_summary_id s, mr_message_id m, o') \<in> set (db_summary_messages (pn_db st)))
              \<longrightarrow> sr_suppressed s))"
  by (rule hidden_messages[OF assms])

text \<open>A summary or message that is suppressed is not resolved.\<close>

lemma resolved_summary_live:
  assumes "resolve_item env db i = Some r" "ri_summary r = Some s"
  shows "s \<in> set (db_summaries db) \<and> \<not> sr_suppressed s \<and> ci_ref i = Sum (sr_summary_id s)"
  using assms
  by (auto simp: resolve_item_def resolve_message_item_def resolve_message_row_def resolve_summary_item_def Let_def
      get_summary_def dest!: find_SomeD split: context_ref.splits option.splits if_splits)

lemma resolved_message_id:
  assumes "resolve_item env db i = Some r" "ri_message_id r = Some m"
  shows "ci_ref i = Msg m"
  using assms
  by (auto simp: resolve_item_def resolve_message_item_def resolve_message_row_def resolve_summary_item_def Let_def
      get_message_by_id_def dest!: find_SomeD split: context_ref.splits option.splits if_splits)

definition shows_pruned :: "lcm_db \<Rightarrow> string list \<Rightarrow> resolved_item \<Rightarrow> bool" where
  "shows_pruned db ids i \<longleftrightarrow>
     (case ri_summary i of Some s \<Rightarrow> sr_summary_id s \<in> set ids | None \<Rightarrow> False)
   \<or> (case ri_message_id i of Some m \<Rightarrow> m \<in> set (linked_messages db ids) | None \<Rightarrow> False)"

text \<open>C24. After a prune no conversation's context resolves to a pruned leaf or to a message it was made from; the
  leaves are suppressed, and every row of messages and summaries is still there with its content.\<close>

theorem pruned_not_assembled:
  assumes "run_soft_prune_atomic stamp criteria reason st = (st', Inr res)"
  shows "list_all (\<lambda>i. \<not> shows_pruned (pn_db st) (pr_affected_leaf_ids res) i)
      (resolve_items env (pn_db st') (get_context_items (pn_db st') c))
    \<and> list_all (\<lambda>s. sr_summary_id s \<in> set (pr_affected_leaf_ids res) \<longrightarrow> sr_suppressed s) (db_summaries (pn_db st'))
    \<and> map (\<lambda>s. (sr_summary_id s, sr_content s)) (db_summaries (pn_db st'))
        = map (\<lambda>s. (sr_summary_id s, sr_content s)) (db_summaries (pn_db st))
    \<and> map (\<lambda>m. (mr_message_id m, mr_content m)) (db_messages (pn_db st'))
        = map (\<lambda>m. (mr_message_id m, mr_content m)) (db_messages (pn_db st))"
proof (cases "pr_affected_leaf_ids res = []")
  case True
  then show ?thesis using atomic_cases(2)[OF assms] by (auto simp: shows_pruned_def linked_messages_def list_all_iff split: option.splits)
next
  case False
  let ?ids = "pr_affected_leaf_ids res"
  obtain counts where run: "run_soft_prune_body ?ids reason st = (st', counts)" using atomic_cases(3)[OF assms False] by blast
  note t = body_tables[OF run]
  have "\<not> shows_pruned (pn_db st) ?ids r" if "i \<in> set (get_context_items (pn_db st') c)" "resolve_item env (pn_db st') i = Some r" for i r
  proof -
    have "i \<in> set (db_context_items (pn_db st'))" using that(1) by (simp add: get_context_items_def context_rows_def)
    then have "\<not> points_to_summary ?ids i" "\<not> points_to_message (linked_messages (pn_db st) ?ids) i" by (simp_all add: t(3))
    then show ?thesis using resolved_summary_live[OF that(2)] resolved_message_id[OF that(2)]
      by (auto simp: shows_pruned_def points_to_summary_def points_to_message_def split: option.splits)
  qed
  then have "list_all (\<lambda>i. \<not> shows_pruned (pn_db st) ?ids i) (resolve_items env (pn_db st') (get_context_items (pn_db st') c))"
    by (auto simp: list_all_iff resolve_items_def set_map_filter)
  then show ?thesis by (auto simp: t(1,2) list_all_iff comp_def)
qed

text \<open>Pruning again with the same criteria finds nothing and changes nothing.\<close>

theorem prune_again_finds_nothing:
  assumes "run_soft_prune_atomic stamp criteria reason st = (st', Inr res)"
  shows "run_soft_prune_atomic stamp criteria reason' st' = (st', Inr \<lparr>pr_affected_leaf_ids = [], pr_counts = no_counts\<rparr>)"
proof -
  have "resolve_target_leaf_ids stamp criteria st' = []"
  proof (cases "pr_affected_leaf_ids res = []")
    case True
    then show ?thesis using atomic_cases(1,2)[OF assms(1)] by simp
  next
    case False
    then obtain counts where run: "run_soft_prune_body (pr_affected_leaf_ids res) reason st = (st', counts)"
      using atomic_cases(3)[OF assms(1)] by blast
    note t = body_tables[OF run] and targets = atomic_cases(1)[OF assms(1)]
    have "in_session st' = in_session st" by (intro ext) (simp add: in_session_def t(8))
    then have match: "criteria_match stamp criteria st' s = criteria_match stamp criteria st s" for s
      by (simp add: criteria_match_def split: option.split)
    have "\<not> (live_leaf s \<and> criteria_match stamp criteria st' s)" if s: "s \<in> set (db_summaries (pn_db st'))" for s
    proof
      assume live: "live_leaf s \<and> criteria_match stamp criteria st' s"
      then have "s \<in> set (db_summaries (pn_db st))" "sr_summary_id s \<notin> set (pr_affected_leaf_ids res)"
        using s by (auto simp: t(1) live_leaf_def)
      with live match show False by (auto simp: targets resolve_target_leaf_ids_def)
    qed
    then show ?thesis by (auto simp: resolve_target_leaf_ids_def filter_empty_conv)
  qed
  then show ?thesis by (simp add: run_soft_prune_atomic_def)
qed

text \<open>The dry run counts what the run then takes.\<close>

lemma preview_counts:
  "run_soft_prune_atomic stamp criteria reason st = (st', Inr res) \<Longrightarrow> validate_criteria criteria = None \<Longrightarrow>
    preview_soft_prune_affected stamp criteria st = Inr (length (pr_affected_leaf_ids res))"
  by (simp add: preview_soft_prune_affected_def atomic_cases(1))

subsection \<open>What the cascade leaves\<close>

lemma find_indexed_conversation:
  "x \<in> set xs \<Longrightarrow> distinct (map f xs) \<Longrightarrow> P x \<Longrightarrow> List.find (\<lambda>s. f s = f x \<and> P s) xs = Some x"
  by (induction xs) (auto simp: image_iff)

text \<open>A condensed summary keeps its place in the context and its text when a leaf it was made from is pruned;
  it is flagged for a rebuild only when that leaf is its direct parent.
\<close>

theorem condensed_keeps_pruned_text:
  assumes "run_soft_prune_atomic stamp criteria reason st = (st', Inr res)" "distinct (map sr_summary_id (db_summaries (pn_db st)))"
    and "g \<in> set (db_summaries (pn_db st))" "sr_kind g = Condensed" "\<not> sr_suppressed g"
    and "i \<in> set (db_context_items (pn_db st))" "ci_ref i = Sum (sr_summary_id g)"
  shows "i \<in> set (db_context_items (pn_db st')) \<and> get_summary (pn_db st') (sr_summary_id g) False = Some g
    \<and> (pn_contains_suppressed_leaves st' (sr_summary_id g) \<longleftrightarrow> pn_contains_suppressed_leaves st (sr_summary_id g)
        \<or> (\<exists>p o'. (sr_summary_id g, p, o') \<in> set (db_summary_parents (pn_db st)) \<and> p \<in> set (pr_affected_leaf_ids res)))"
proof -
  have only: "s = g" if "s \<in> set (db_summaries (pn_db st))" "sr_summary_id s = sr_summary_id g" for s
    using assms(2,3) that by (auto simp: distinct_map dest: inj_onD)
  have get: "get_summary db (sr_summary_id g) False = Some g"
    if "g \<in> set (db_summaries db)" "distinct (map sr_summary_id (db_summaries db))" for db
    using find_indexed_conversation[OF that, of "\<lambda>s. \<not> sr_suppressed s"] assms(5) by (simp add: get_summary_def)
  let ?ids = "pr_affected_leaf_ids res"
  have "sr_summary_id g \<notin> set ?ids"
  proof
    assume "sr_summary_id g \<in> set ?ids"
    then obtain s where "s \<in> set (db_summaries (pn_db st))" "sr_summary_id s = sr_summary_id g" "live_leaf s"
      using targets_live atomic_cases(1)[OF assms(1)] by metis
    with only[of s] assms(4) show False by (simp add: live_leaf_def)
  qed
  show ?thesis
  proof (cases "?ids = []")
    case True
    then show ?thesis using atomic_cases(2)[OF assms(1)] assms get by auto
  next
    case False
    then obtain counts where run: "run_soft_prune_body ?ids reason st = (st', counts)" using atomic_cases(3)[OF assms(1)] by blast
    note t = body_tables[OF run]
    have g': "g \<in> set (db_summaries (pn_db st'))" using assms(3) \<open>sr_summary_id g \<notin> set ?ids\<close> by (force simp: t(1))
    have "map sr_summary_id (db_summaries (pn_db st')) = map sr_summary_id (db_summaries (pn_db st))" by (simp add: t(1))
    then have "get_summary (pn_db st') (sr_summary_id g) False = Some g" using get[OF g'] assms(2) by simp
    moreover have "i \<in> set (db_context_items (pn_db st'))"
      using assms(6,7) \<open>sr_summary_id g \<notin> set ?ids\<close> by (simp add: t(3) points_to_summary_def points_to_message_def)
    moreover have "pn_contains_suppressed_leaves st' (sr_summary_id g) \<longleftrightarrow> pn_contains_suppressed_leaves st (sr_summary_id g)
        \<or> (\<exists>p o'. (sr_summary_id g, p, o') \<in> set (db_summary_parents (pn_db st)) \<and> p \<in> set ?ids)"
    proof -
      have "sr_summary_id g \<in> sr_summary_id ` {s \<in> set (db_summaries (suppress_summaries ?ids (pn_db st))).
          has_suppressed_parent (suppress_summaries ?ids (pn_db st)) ?ids s}
        \<longleftrightarrow> list_ex (\<lambda>(c, p, _). c = sr_summary_id g \<and> p \<in> set ?ids) (db_summary_parents (pn_db st))"
        using g' assms(4) by (auto simp: has_suppressed_parent_def suppress_summaries_def t(1)[symmetric] image_iff)
      also have "\<dots> \<longleftrightarrow> (\<exists>p o'. (sr_summary_id g, p, o') \<in> set (db_summary_parents (pn_db st)) \<and> p \<in> set ?ids)"
        unfolding list_ex_iff by fastforce
      finally have "sr_summary_id g \<in> sr_summary_id ` {s \<in> set (db_summaries (suppress_summaries ?ids (pn_db st))).
          has_suppressed_parent (suppress_summaries ?ids (pn_db st)) ?ids s}
        \<longleftrightarrow> (\<exists>p o'. (sr_summary_id g, p, o') \<in> set (db_summary_parents (pn_db st)) \<and> p \<in> set ?ids)" .
      then show ?thesis using run by (auto simp: run_soft_prune_body_def Let_def)
    qed
    ultimately show ?thesis by blast
  qed
qed

subsection \<open>Times\<close>

lemma blank_before_T: "text_less (day @ '' '' @ time) (day @ ''T'' @ limit)"
  by (induction day) simp_all

lemma T_not_before_blank: "\<not> text_less (day @ ''T'' @ limit) (day @ '' '' @ time)"
  by (induction day) simp_all

text \<open>SQLite stores a blank between day and time, the criteria have a T there. So a limit inside a day counts
  as the end of that day: with \<open>before\<close> every leaf of the day is pruned, with \<open>since\<close> none of them is,
  whatever the two times of day are.
\<close>

theorem limit_counts_as_end_of_day:
  assumes "s \<in> set (db_summaries (pn_db st))" "live_leaf s" "distinct (map sr_summary_id (db_summaries (pn_db st)))"
    and "stamp (sr_created_at s) = day @ '' '' @ time"
  shows "criteria_match stamp \<lparr>pc_summary_ids = [], pc_session_key = None, pc_since = None,
        pc_before = Some (day @ ''T'' @ limit), pc_min_token_count = None\<rparr> st s
    \<and> sr_summary_id s \<in> set (resolve_target_leaf_ids stamp \<lparr>pc_summary_ids = [], pc_session_key = None, pc_since = None,
        pc_before = Some (day @ ''T'' @ limit), pc_min_token_count = None\<rparr> st)
    \<and> sr_summary_id s \<notin> set (resolve_target_leaf_ids stamp \<lparr>pc_summary_ids = [], pc_session_key = key,
        pc_since = Some (day @ ''T'' @ limit), pc_before = before, pc_min_token_count = n\<rparr> st)"
proof -
  have only: "s' = s" if "s' \<in> set (db_summaries (pn_db st))" "sr_summary_id s' = sr_summary_id s" for s'
    using assms(1,3) that by (auto simp: distinct_map dest: inj_onD)
  show ?thesis
    using assms(1,2,4) blank_before_T[of day time limit]
    by (auto simp: resolve_target_leaf_ids_def criteria_match_def in_range_def dest!: only split: if_splits)
qed

subsection \<open>The two commands\<close>

lemma purge_body:
  "pn_cache st \<noteq> None \<Longrightarrow> run_soft_purge_body ids reason st = Inr (fst (run_soft_prune_body ids reason st))"
  by (auto simp: run_soft_purge_body_def run_soft_prune_body_def Let_def)

text \<open>The operator's purge of a session and the library's prune of it are the same operation where the key in
  the rows of \<open>summaries\<close> is the key of their conversation and the cache tables exist.
\<close>

theorem purge_is_prune:
  assumes "\<And>s. s \<in> set (db_summaries (pn_db st)) \<Longrightarrow> pn_summary_session_key st (sr_summary_id s) = key \<longleftrightarrow> in_session st key s"
    and "pn_cache st \<noteq> None" "u_strip key \<noteq> []"
  shows "run_purge stamp \<lparr>pc_summary_ids = [], pc_session_key = Some key, pc_since = since, pc_before = before,
        pc_min_token_count = n\<rparr> reason allow st
    = map_prod id (map_sum id pr_affected_leaf_ids) (soft_prune_session stamp key reason since before n allow st)"
proof -
  let ?crit = "\<lparr>pc_summary_ids = [], pc_session_key = Some key, pc_since = since, pc_before = before, pc_min_token_count = n\<rparr>"
  have key: "key \<noteq> []" using assms(3) by (auto simp: u_strip_def u_lstrip_def u_rstrip_def)
  then have "purge_target_leaf_ids stamp ?crit st = resolve_target_leaf_ids stamp ?crit st"
    using assms(1) unfolding purge_target_leaf_ids_def resolve_target_leaf_ids_def
    by (intro arg_cong[where f = "map sr_summary_id"] filter_cong) (simp_all add: purge_match_def criteria_match_def)
  then show ?thesis
    using assms(3) key purge_body[OF assms(2)]
    by (simp add: run_purge_def run_soft_purge_atomic_def soft_prune_session_def run_soft_prune_atomic_def validate_reason_def validate_criteria_def
        Let_def split: prod.split)
qed

subsection \<open>A concrete prune\<close>

definition sample_leaf :: "string \<Rightarrow> summary_kind \<Rightarrow> summary_record" where
  "sample_leaf sid k = \<lparr>sr_summary_id = sid, sr_conversation_id = 1, sr_kind = k, sr_depth = 0, sr_content = [97],
     sr_token_count = 5, sr_file_ids = [], sr_earliest_at = None, sr_latest_at = None, sr_descendant_count = 0,
     sr_descendant_token_count = 0, sr_source_message_token_count = 0, sr_model = [], sr_created_at = 7,
     sr_suppressed = False\<rparr>"

definition sample_state :: prune_state where
  "sample_state = \<lparr>pn_db = \<lparr>db_messages = [\<lparr>mr_message_id = 1, mr_conversation_id = 1, mr_seq = 1, mr_role = Role_User,
         mr_content = [98], mr_token_count = 1, mr_identity_hash = [], mr_created_at = 1, mr_suppressed = False\<rparr>],
       db_next_message_id = 2, db_message_parts = [], db_summaries = [sample_leaf ''a'' Leaf, sample_leaf ''b'' Condensed],
       db_summary_messages = [(''a'', 1, 0)], db_summary_parents = [(''b'', ''a'', 0)],
       db_context_items = [\<lparr>ci_conversation_id = 1, ci_ordinal = 0, ci_ref = Sum ''b''\<rparr>]\<rparr>,
     pn_conversations = \<lparr>ct_rows = [\<lparr>cv_conversation_id = 1, cv_session_id = [115], cv_session_key = Some [107], cv_active = True,
         cv_archived_at = None, cv_title = None, cv_bootstrapped_at = None, cv_created_at = 0, cv_updated_at = 0\<rparr>],
       ct_next_id = 2\<rparr>,
     pn_summary_session_key = (\<lambda>_. [107]), pn_suppress_reason = Map.empty,
     pn_contains_suppressed_leaves = (\<lambda>_. False), pn_cache = Some ([], [])\<rparr>"

definition sample_stamp :: "int \<Rightarrow> string" where
  "sample_stamp t = ''2026-01-02 23:59:59''"

lemma sample_run:
  "\<exists>st' res. run_soft_prune_atomic sample_stamp (ids_criteria [''a'']) [114] sample_state = (st', Inr res)
     \<and> pr_affected_leaf_ids res = [''a'']"
proof -
  have "resolve_target_leaf_ids sample_stamp (ids_criteria [''a'']) sample_state = [''a'']"
    by (simp add: resolve_target_leaf_ids_def criteria_match_def ids_criteria_def sample_state_def sample_leaf_def live_leaf_def)
  moreover obtain st' counts where "run_soft_prune_body [''a''] [114] sample_state = (st', counts)" by fastforce
  ultimately show ?thesis by (simp add: run_soft_prune_atomic_def)
qed

theorem pruned_not_assembled_witness:
  "list_all (\<lambda>s. sr_summary_id s = ''a'' \<longrightarrow> sr_suppressed s)
     (db_summaries (pn_db (fst (run_soft_prune_atomic sample_stamp (ids_criteria [''a'']) [114] sample_state))))"
proof -
  obtain st' res where run: "run_soft_prune_atomic sample_stamp (ids_criteria [''a'']) [114] sample_state = (st', Inr res)"
    "pr_affected_leaf_ids res = [''a'']" using sample_run by blast
  from pruned_not_assembled[OF run(1)] run show ?thesis by simp
qed

theorem prune_spares_shared_messages_witness:
  "list_all mr_suppressed (db_messages (pn_db (fst (run_soft_prune_body [''a''] [114] sample_state))))"
proof -
  obtain st' counts where run: "run_soft_prune_body [''a''] [114] sample_state = (st', counts)" by fastforce
  have "mr_suppressed m" if "m \<in> set (db_messages (pn_db st'))" for m
    using prune_spares_shared_messages[OF run that] body_tables(1)[OF run]
    by (auto simp: sample_state_def sample_leaf_def linked_messages_def)
  then show ?thesis by (simp add: run list_all_iff)
qed

theorem condensed_keeps_pruned_text_witness:
  "get_summary (pn_db (fst (run_soft_prune_atomic sample_stamp (ids_criteria [''a'']) [114] sample_state))) ''b'' False
     = Some (sample_leaf ''b'' Condensed)"
proof -
  obtain st' res where run: "run_soft_prune_atomic sample_stamp (ids_criteria [''a'']) [114] sample_state = (st', Inr res)"
    "pr_affected_leaf_ids res = [''a'']" using sample_run by blast
  from condensed_keeps_pruned_text[OF run(1), of "sample_leaf ''b'' Condensed" "\<lparr>ci_conversation_id = 1, ci_ordinal = 0, ci_ref = Sum ''b''\<rparr>"]
  have "get_summary (pn_db st') ''b'' False = Some (sample_leaf ''b'' Condensed)"
    by (simp add: sample_state_def sample_leaf_def)
  with run(1) show ?thesis by simp
qed

theorem limit_counts_as_end_of_day_witness:
  "''a'' \<in> set (resolve_target_leaf_ids sample_stamp \<lparr>pc_summary_ids = [], pc_session_key = None,
     pc_since = None, pc_before = Some ''2026-01-02T00:00:00'', pc_min_token_count = None\<rparr> sample_state)"
  using limit_counts_as_end_of_day[of "sample_leaf ''a'' Leaf" sample_state sample_stamp "''2026-01-02''"
      "''23:59:59''" "''00:00:00''" None None None]
  by (simp add: sample_state_def sample_leaf_def live_leaf_def sample_stamp_def)

theorem purge_is_prune_witness:
  "run_purge sample_stamp \<lparr>pc_summary_ids = [], pc_session_key = Some [107], pc_since = None, pc_before = None,
        pc_min_token_count = None\<rparr> [114] False sample_state
    = map_prod id (map_sum id pr_affected_leaf_ids) (soft_prune_session sample_stamp [107] [114] None None None False sample_state)"
  by (rule purge_is_prune) (auto simp: sample_state_def sample_leaf_def in_session_def u_strip_def u_lstrip_def u_rstrip_def u_isspace_def)

end
