(* ===== verification/Integrity.thy ===== *)
theory Integrity
  imports Engine_System Pruning
begin

text \<open>
  The integrity scan of \<open>integrity.py\<close>: eight checks of one conversation, each a query of the tables that ends
  in a status, a message and details, the report that counts them, the repair plan that is read off the
  details, and the metrics of a conversation. A check's \<open>name\<close> and texts are the code's; its details are
  the entries the code puts into its dictionary. The time of the scan is left out of the report.
\<close>

subsection \<open>Checks\<close>

datatype check_status = Check_Pass | Check_Fail | Check_Warn

datatype check_details =
    Gaps "(int \<times> int) list"
  | Dangling_Refs "(int \<times> context_ref) list"
  | Missing_Lineage "(string \<times> summary_kind) list"
  | Orphaned_Summaries "string list"
  | Token_Mismatch int int int
  | Duplicate_Refs "(context_ref \<times> int list) list"

record integrity_check =
  ic_name :: string
  ic_status :: check_status
  ic_message :: utext
  ic_details :: "check_details option"

record integrity_report =
  ir_conversation_id :: int
  ir_checks :: "integrity_check list"
  ir_pass_count :: nat
  ir_fail_count :: nat
  ir_warn_count :: nat

definition passed :: "string \<Rightarrow> utext \<Rightarrow> integrity_check" where
  "passed name msg = \<lparr>ic_name = name, ic_status = Check_Pass, ic_message = msg, ic_details = None\<rparr>"

definition check_conversation_exists :: "conversation_table \<Rightarrow> int \<Rightarrow> integrity_check" where
  "check_conversation_exists convs c =
     (if list_ex (\<lambda>r. cv_conversation_id r = c) (ct_rows convs)
      then passed ''conversation_exists'' (cps ''Conversation '' @ int_text c @ cps '' exists'')
      else \<lparr>ic_name = ''conversation_exists'', ic_status = Check_Fail,
        ic_message = cps ''Conversation '' @ int_text c @ cps '' not found'', ic_details = None\<rparr>)"

text \<open>The loop over \<open>enumerate(rows)\<close>: expected against actual number.\<close>

definition number_gaps :: "int list \<Rightarrow> (int \<times> int) list" where
  "number_gaps ns = map (\<lambda>(i, n). (int i, n)) (filter (\<lambda>(i, n). n \<noteq> int i) (enumerate 0 ns))"

definition check_context_items_contiguous :: "lcm_db \<Rightarrow> int \<Rightarrow> integrity_check" where
  "check_context_items_contiguous db c =
     (let rows = map ci_ordinal (get_context_items db c); gaps = number_gaps rows in
      if rows = [] then passed ''context_items_contiguous'' (cps ''No context items to check'')
      else if gaps = [] then passed ''context_items_contiguous''
        (cps ''All '' @ int_text (int (length rows)) @ cps '' context items have contiguous ordinals'')
      else \<lparr>ic_name = ''context_items_contiguous'', ic_status = Check_Fail,
        ic_message = cps ''Found '' @ int_text (int (length gaps)) @ cps '' ordinal gap(s) in context items'',
        ic_details = Some (Gaps gaps)\<rparr>)"

definition check_context_items_valid_refs :: "lcm_db \<Rightarrow> int \<Rightarrow> integrity_check" where
  "check_context_items_valid_refs db c =
     (let dangling = map (\<lambda>i. (ci_ordinal i, ci_ref i)) (filter (\<lambda>i. \<not> ref_exists db (ci_ref i)) (get_context_items db c)) in
      if dangling = [] then passed ''context_items_valid_refs'' (cps ''All context item references are valid'')
      else \<lparr>ic_name = ''context_items_valid_refs'', ic_status = Check_Fail,
        ic_message = cps ''Found '' @ int_text (int (length dangling)) @ cps '' dangling reference(s) in context items'',
        ic_details = Some (Dangling_Refs dangling)\<rparr>)"

text \<open>A leaf needs a row in \<open>summary_messages\<close>, a condensed summary one in \<open>summary_parents\<close>.\<close>

definition has_lineage :: "lcm_db \<Rightarrow> summary_record \<Rightarrow> bool" where
  "has_lineage db s = (case sr_kind s of
     Leaf \<Rightarrow> list_ex (\<lambda>(sid, _, _). sid = sr_summary_id s) (db_summary_messages db)
   | Condensed \<Rightarrow> list_ex (\<lambda>(sid, _, _). sid = sr_summary_id s) (db_summary_parents db))"

definition summary_rows :: "lcm_db \<Rightarrow> int \<Rightarrow> summary_record list" where
  "summary_rows db c = filter (\<lambda>s. sr_conversation_id s = c) (db_summaries db)"

definition check_summaries_have_lineage :: "lcm_db \<Rightarrow> int \<Rightarrow> integrity_check" where
  "check_summaries_have_lineage db c =
     (let rows = summary_rows db c;
          missing = map (\<lambda>s. (sr_summary_id s, sr_kind s)) (filter (\<lambda>s. \<not> has_lineage db s) rows) in
      if missing = [] then passed ''summaries_have_lineage''
        (cps ''All '' @ int_text (int (length rows)) @ cps '' summaries have proper lineage'')
      else \<lparr>ic_name = ''summaries_have_lineage'', ic_status = Check_Fail,
        ic_message = cps ''Found '' @ int_text (int (length missing)) @ cps '' summary/summaries missing lineage'',
        ic_details = Some (Missing_Lineage missing)\<rparr>)"

definition in_context :: "lcm_db \<Rightarrow> int \<Rightarrow> string \<Rightarrow> bool" where
  "in_context db c sid \<longleftrightarrow> list_ex (\<lambda>i. ci_ref i = Sum sid) (context_rows db c)"

definition is_parent :: "lcm_db \<Rightarrow> string \<Rightarrow> bool" where
  "is_parent db sid \<longleftrightarrow> list_ex (\<lambda>(_, p, _). p = sid) (db_summary_parents db)"

definition check_no_orphan_summaries :: "lcm_db \<Rightarrow> int \<Rightarrow> integrity_check" where
  "check_no_orphan_summaries db c =
     (let summary_ids = map sr_summary_id (summary_rows db c);
          orphans = filter (\<lambda>sid. \<not> in_context db c sid \<and> \<not> is_parent db sid) summary_ids in
      if summary_ids = [] \<or> orphans = [] then passed ''no_orphan_summaries'' (cps ''No orphaned summaries found'')
      else \<lparr>ic_name = ''no_orphan_summaries'', ic_status = Check_Warn,
        ic_message = cps ''Found '' @ int_text (int (length orphans))
          @ cps '' orphaned summary/summaries disconnected from the DAG'',
        ic_details = Some (Orphaned_Summaries orphans)\<rparr>)"

text \<open>The first sum joins the items with the rows they point to; the second reads for each item the count of
  the first such row, where a missing row is \<open>NULL\<close>, which \<open>SUM\<close> skips.\<close>

definition manual_sum :: "lcm_db \<Rightarrow> int \<Rightarrow> int" where
  "manual_sum db c =
     sum_list (concat (map (\<lambda>i. case ci_ref i of Sum _ \<Rightarrow> []
       | Msg mid \<Rightarrow> map mr_token_count (filter (\<lambda>m. mr_message_id m = mid) (db_messages db))) (context_rows db c)))
   + sum_list (concat (map (\<lambda>i. case ci_ref i of Msg _ \<Rightarrow> []
       | Sum sid \<Rightarrow> map sr_token_count (filter (\<lambda>s. sr_summary_id s = sid) (db_summaries db))) (context_rows db c)))"

fun ref_token_cell :: "lcm_db \<Rightarrow> context_ref \<Rightarrow> int option" where
  "ref_token_cell db (Msg mid) = map_option mr_token_count (List.find (\<lambda>m. mr_message_id m = mid) (db_messages db))"
| "ref_token_cell db (Sum sid) = map_option sr_token_count (List.find (\<lambda>s. sr_summary_id s = sid) (db_summaries db))"

definition aggregate_total :: "lcm_db \<Rightarrow> int \<Rightarrow> int" where
  "aggregate_total db c = sum_list (List.map_filter (\<lambda>i. ref_token_cell db (ci_ref i)) (context_rows db c))"

definition check_context_token_consistency :: "lcm_db \<Rightarrow> int \<Rightarrow> integrity_check" where
  "check_context_token_consistency db c =
     (if manual_sum db c = aggregate_total db c then passed ''context_token_consistency''
        (cps ''Context token count is consistent ('' @ int_text (aggregate_total db c) @ cps '' tokens)'')
      else \<lparr>ic_name = ''context_token_consistency'', ic_status = Check_Fail,
        ic_message = cps ''Token count mismatch: item-level sum = '' @ int_text (manual_sum db c)
          @ cps '', aggregate query = '' @ int_text (aggregate_total db c),
        ic_details = Some (Token_Mismatch (manual_sum db c) (aggregate_total db c) (manual_sum db c - aggregate_total db c))\<rparr>)"

definition message_seqs :: "lcm_db \<Rightarrow> int \<Rightarrow> int list" where
  "message_seqs db c = sort (map mr_seq (filter (\<lambda>m. mr_conversation_id m = c) (db_messages db)))"

definition check_message_seq_contiguous :: "lcm_db \<Rightarrow> int \<Rightarrow> integrity_check" where
  "check_message_seq_contiguous db c =
     (let rows = message_seqs db c; gaps = number_gaps rows in
      if rows = [] then passed ''message_seq_contiguous'' (cps ''No messages to check'')
      else if gaps = [] then passed ''message_seq_contiguous''
        (cps ''All '' @ int_text (int (length rows)) @ cps '' messages have contiguous seq values'')
      else \<lparr>ic_name = ''message_seq_contiguous'', ic_status = Check_Fail,
        ic_message = cps ''Found '' @ int_text (int (length gaps)) @ cps '' seq gap(s) in messages'',
        ic_details = Some (Gaps gaps)\<rparr>)"

text \<open>\<open>d.setdefault(k, []).append(v)\<close> on a dictionary in the order of its insertions.\<close>

definition setdefault_append :: "'k \<times> 'v \<Rightarrow> ('k \<times> 'v list) list \<Rightarrow> ('k \<times> 'v list) list" where
  "setdefault_append kv d = (case kv of (k, v) \<Rightarrow>
     if k \<in> fst ` set d then map (\<lambda>(k', vs). if k' = k then (k', vs @ [v]) else (k', vs)) d
     else d @ [(k, [v])])"

fun is_message_ref :: "context_ref \<Rightarrow> bool" where
  "is_message_ref (Msg _) = True"
| "is_message_ref (Sum _) = False"

definition seen_ordinals :: "(context_ref \<Rightarrow> bool) \<Rightarrow> context_item list \<Rightarrow> (context_ref \<times> int list) list" where
  "seen_ordinals P rows = fold (\<lambda>i. setdefault_append (ci_ref i, ci_ordinal i)) (filter (\<lambda>i. P (ci_ref i)) rows) []"

definition duplicate_refs :: "lcm_db \<Rightarrow> int \<Rightarrow> (context_ref \<times> int list) list" where
  "duplicate_refs db c =
     (let rows = get_context_items db c in
      filter (\<lambda>(_, ordinals). 1 < length ordinals) (seen_ordinals is_message_ref rows)
    @ filter (\<lambda>(_, ordinals). 1 < length ordinals) (seen_ordinals (\<lambda>r. \<not> is_message_ref r) rows))"

definition check_no_duplicate_context_refs :: "lcm_db \<Rightarrow> int \<Rightarrow> integrity_check" where
  "check_no_duplicate_context_refs db c =
     (let duplicates = duplicate_refs db c in
      if duplicates = [] then passed ''no_duplicate_context_refs'' (cps ''No duplicate references in context items'')
      else \<lparr>ic_name = ''no_duplicate_context_refs'', ic_status = Check_Fail,
        ic_message = cps ''Found '' @ int_text (int (length duplicates)) @ cps '' duplicate reference(s) in context items'',
        ic_details = Some (Duplicate_Refs duplicates)\<rparr>)"

subsection \<open>The scan\<close>

definition count_status :: "check_status \<Rightarrow> integrity_check list \<Rightarrow> nat" where
  "count_status s checks = length (filter (\<lambda>k. ic_status k = s) checks)"

definition scan :: "conversation_table \<Rightarrow> lcm_db \<Rightarrow> int \<Rightarrow> integrity_report" where
  "scan convs db c =
     (let checks =
        [check_conversation_exists convs c, check_context_items_contiguous db c,
         check_context_items_valid_refs db c, check_summaries_have_lineage db c,
         check_no_orphan_summaries db c, check_context_token_consistency db c,
         check_message_seq_contiguous db c, check_no_duplicate_context_refs db c] in
      \<lparr>ir_conversation_id = c, ir_checks = checks, ir_pass_count = count_status Check_Pass checks,
       ir_fail_count = count_status Check_Fail checks, ir_warn_count = count_status Check_Warn checks\<rparr>)"

subsection \<open>The repair plan\<close>

fun ref_text :: "context_ref \<Rightarrow> utext" where
  "ref_text (Msg mid) = cps ''message '' @ int_text mid"
| "ref_text (Sum sid) = cps ''summary '' @ cps sid"

fun dangling_of :: "check_details option \<Rightarrow> (int \<times> context_ref) list" where
  "dangling_of (Some (Dangling_Refs refs)) = refs"
| "dangling_of _ = []"

fun missing_of :: "check_details option \<Rightarrow> (string \<times> summary_kind) list" where
  "missing_of (Some (Missing_Lineage missing)) = missing"
| "missing_of _ = []"

fun orphans_of :: "check_details option \<Rightarrow> string list" where
  "orphans_of (Some (Orphaned_Summaries ids)) = ids"
| "orphans_of _ = []"

fun duplicates_of :: "check_details option \<Rightarrow> (context_ref \<times> int list) list" where
  "duplicates_of (Some (Duplicate_Refs dups)) = dups"
| "duplicates_of _ = []"

definition or_general :: "utext list \<Rightarrow> string \<Rightarrow> utext list" where
  "or_general entries general = (if entries = [] then [cps general] else entries)"

definition lineage_suggestion :: "string \<times> summary_kind \<Rightarrow> utext" where
  "lineage_suggestion entry = (case entry of
     (sid, Leaf) \<Rightarrow> cps ''Add missing lineage for leaf summary '' @ cps sid
        @ cps '' (link to source messages via summary_messages)''
   | (sid, Condensed) \<Rightarrow> cps ''Add missing lineage for condensed summary '' @ cps sid
        @ cps '' (link to parent summaries via summary_parents)'')"

definition duplicate_suggestion :: "context_ref \<times> int list \<Rightarrow> utext" where
  "duplicate_suggestion dup = (case dup of (r, ordinals) \<Rightarrow>
     cps ''Deduplicate '' @ ref_text r @ cps '': keep ordinal '' @ int_text (hd ordinals)
     @ cps '', remove ordinals '' @ u_join (cps '', '') (map int_text (tl ordinals)))"

definition check_suggestions :: "int \<Rightarrow> integrity_check \<Rightarrow> utext list" where
  "check_suggestions c check =
     (if ic_status check = Check_Pass then []
      else if ic_name check = ''conversation_exists'' then
        [cps ''Create or restore conversation '' @ int_text c @ cps '' in the conversations table'']
      else if ic_name check = ''context_items_contiguous'' then
        [cps ''Resequence context items to fix ordinal gaps'']
      else if ic_name check = ''context_items_valid_refs'' then
        or_general (map (\<lambda>(ord, r). cps ''Remove context item at ordinal '' @ int_text ord
            @ cps '' referencing missing '' @ ref_text r) (dangling_of (ic_details check)))
          ''Remove context items with dangling references''
      else if ic_name check = ''summaries_have_lineage'' then
        or_general (map lineage_suggestion (missing_of (ic_details check)))
          ''Add missing lineage links for summaries''
      else if ic_name check = ''no_orphan_summaries'' then
        or_general (map (\<lambda>sid. cps ''Remove orphaned summary '' @ cps sid @ cps '' from summaries table'')
            (orphans_of (ic_details check)))
          ''Remove orphaned summaries disconnected from the DAG''
      else if ic_name check = ''context_token_consistency'' then
        [cps ''Recompute context token count to reconcile mismatch between item-level sum and aggregate query'']
      else if ic_name check = ''message_seq_contiguous'' then
        [cps ''Resequence message seq values to eliminate gaps (renumber starting from 0)'']
      else if ic_name check = ''no_duplicate_context_refs'' then
        or_general (map duplicate_suggestion (duplicates_of (ic_details check)))
          ''Remove duplicate message_id or summary_id references from context items''
      else [cps ''Address failing check: '' @ cps (ic_name check) @ cps '' -- '' @ ic_message check])"

definition build_repair_plan :: "integrity_report \<Rightarrow> utext list" where
  "build_repair_plan report = concat (map (check_suggestions (ir_conversation_id report)) (ir_checks report))"

subsection \<open>Metrics\<close>

record lcm_metrics =
  lm_conversation_id :: int
  lm_context_tokens :: int
  lm_message_count :: nat
  lm_summary_count :: nat
  lm_context_item_count :: nat
  lm_leaf_summary_count :: nat
  lm_condensed_summary_count :: nat
  lm_large_file_count :: nat

definition collect_metrics :: "file_store \<Rightarrow> lcm_db \<Rightarrow> int \<Rightarrow> lcm_metrics" where
  "collect_metrics files db c =
     \<lparr>lm_conversation_id = c,
      lm_context_tokens = aggregate_total db c,
      lm_message_count = length (filter (\<lambda>m. mr_conversation_id m = c) (db_messages db)),
      lm_summary_count = length (summary_rows db c),
      lm_context_item_count = length (context_rows db c),
      lm_leaf_summary_count = length (filter (\<lambda>s. sr_kind s = Leaf) (summary_rows db c)),
      lm_condensed_summary_count = length (filter (\<lambda>s. sr_kind s = Condensed) (summary_rows db c)),
      lm_large_file_count = length (filter (\<lambda>f. lf_conversation_id f = c) (fs_rows files))\<rparr>"

subsection \<open>What the checks decide\<close>

lemma number_gaps_Nil: "number_gaps ns = [] \<longleftrightarrow> ns = map int [0..<length ns]"
proof -
  have "number_gaps ns = [] \<longleftrightarrow> (\<forall>p \<in> set (enumerate 0 ns). snd p = int (fst p))"
    by (simp add: number_gaps_def filter_empty_conv case_prod_beta)
  also have "\<dots> \<longleftrightarrow> (\<forall>i < length ns. ns ! i = int i)"
    by (simp add: enumerate_eq_zip all_set_conv_all_nth)
  also have "\<dots> \<longleftrightarrow> ns = map int [0..<length ns]"
    using list_eq_iff_nth_eq[of ns "map int [0..<length ns]"] by simp
  finally show ?thesis .
qed

lemma setdefault_append_lookup:
  assumes "distinct (map fst d)"
  shows "distinct (map fst (setdefault_append (k, v) d))"
    and "map_of (setdefault_append (k, v) d) k' =
      (if k' = k then Some ((case map_of d k of Some vs \<Rightarrow> vs | None \<Rightarrow> []) @ [v]) else map_of d k')"
proof -
  have keys: "map fst (map (\<lambda>(k', vs). if k' = k then (k', vs @ [v]) else (k', vs)) d) = map fst d"
    by (induction d) auto
  have img: "fst ` set d = set (map fst d)" by simp
  show "distinct (map fst (setdefault_append (k, v) d))"
  proof (cases "k \<in> fst ` set d")
    case True
    then have "map fst (setdefault_append (k, v) d) = map fst d" by (simp only: setdefault_append_def prod.case if_True keys)
    with assms show ?thesis by simp
  next
    case False
    with assms show ?thesis by (simp add: setdefault_append_def)
  qed
  have upd: "map_of (map (\<lambda>(k', vs). if k' = k then (k', vs @ [v]) else (k', vs)) d) k'
    = (if k' = k then map_option (\<lambda>vs. vs @ [v]) (map_of d k) else map_of d k')" for k'
    by (induction d) auto
  show "map_of (setdefault_append (k, v) d) k' =
      (if k' = k then Some ((case map_of d k of Some vs \<Rightarrow> vs | None \<Rightarrow> []) @ [v]) else map_of d k')"
  proof (cases "k \<in> fst ` set d")
    case True
    then obtain vs where "map_of d k = Some vs" by (metis map_of_eq_None_iff option.exhaust)
    with True show ?thesis by (simp add: setdefault_append_def upd)
  next
    case False
    then have "map_of d k = None" by (simp add: map_of_eq_None_iff)
    with False show ?thesis by (simp add: setdefault_append_def map_add_def split: option.split)
  qed
qed

lemma seen_fold:
  assumes "distinct (map fst d)"
  shows "distinct (map fst (fold (\<lambda>i. setdefault_append (ci_ref i, ci_ordinal i)) rows d))
    \<and> map_of (fold (\<lambda>i. setdefault_append (ci_ref i, ci_ordinal i)) rows d) r
      = (let new = map ci_ordinal (filter (\<lambda>i. ci_ref i = r) rows) in
         case map_of d r of Some os \<Rightarrow> Some (os @ new) | None \<Rightarrow> if new = [] then None else Some new)"
  using assms
proof (induction rows arbitrary: d)
  case (Cons i rows)
  note step = setdefault_append_lookup[OF Cons.prems, of "ci_ref i" "ci_ordinal i"]
  show ?case using Cons.IH[OF step(1)] by (auto simp: step(2) Let_def split: option.splits)
qed (auto split: option.splits)

lemma seen_ordinals_spec:
  "distinct (map fst (seen_ordinals P rows))"
  "(r, os) \<in> set (seen_ordinals P rows) \<longleftrightarrow>
     P r \<and> os = map ci_ordinal (filter (\<lambda>i. ci_ref i = r) rows) \<and> os \<noteq> []"
proof -
  let ?d = "seen_ordinals P rows"
  have d: "distinct (map fst ?d)" "map_of ?d r =
      (let new = map ci_ordinal (filter (\<lambda>i. ci_ref i = r) (filter (\<lambda>i. P (ci_ref i)) rows)) in if new = [] then None else Some new)"
    using seen_fold[of "[]" "filter (\<lambda>i. P (ci_ref i)) rows" r] by (simp_all add: seen_ordinals_def)
  show "distinct (map fst ?d)" by (fact d(1))
  have sub: "filter (\<lambda>i. ci_ref i = r) (filter (\<lambda>i. P (ci_ref i)) rows) = (if P r then filter (\<lambda>i. ci_ref i = r) rows else [])"
    by (induction rows) auto
  have "(r, os) \<in> set ?d \<longleftrightarrow> map_of ?d r = Some os" using d(1) by (simp add: map_of_eq_Some_iff)
  then show "(r, os) \<in> set ?d \<longleftrightarrow> P r \<and> os = map ci_ordinal (filter (\<lambda>i. ci_ref i = r) rows) \<and> os \<noteq> []"
    unfolding d(2) sub by (auto simp: Let_def)
qed

lemma duplicate_refs_set:
  "(r, os) \<in> set (duplicate_refs db c) \<longleftrightarrow>
     os = map ci_ordinal (filter (\<lambda>i. ci_ref i = r) (get_context_items db c)) \<and> 1 < length os"
  by (cases "is_message_ref r") (auto simp: duplicate_refs_def Let_def seen_ordinals_spec)

lemma distinct_count: "distinct xs \<longleftrightarrow> (\<forall>x. count_list xs x \<le> 1)"
proof (induction xs)
  case (Cons a xs)
  have "count_list xs a = 0 \<longleftrightarrow> a \<notin> set xs" by (rule count_list_0_iff)
  with Cons show ?case by (auto simp: le_Suc_eq)
qed simp

lemma duplicate_refs_Nil: "duplicate_refs db c = [] \<longleftrightarrow> distinct (context_refs db c)"
proof -
  have "duplicate_refs db c = [] \<longleftrightarrow> (\<forall>r os. (r, os) \<notin> set (duplicate_refs db c))"
    by (metis list.set_intros(1) list.exhaust empty_iff list.set(1) surj_pair)
  also have "\<dots> \<longleftrightarrow> (\<forall>r. length (filter (\<lambda>i. ci_ref i = r) (get_context_items db c)) \<le> 1)"
    by (auto simp: duplicate_refs_set not_less)
  also have "\<dots> \<longleftrightarrow> distinct (context_refs db c)"
    by (simp add: distinct_count context_refs_def count_list_eq_length_filter filter_map comp_def eq_commute)
  finally show ?thesis .
qed

lemma filter_unique:
  assumes "distinct (map f xs)"
  shows "filter (\<lambda>x. f x = k) xs = (case List.find (\<lambda>x. f x = k) xs of None \<Rightarrow> [] | Some x \<Rightarrow> [x])"
  using assms
proof (induction xs)
  case (Cons a xs)
  show ?case
  proof (cases "f a = k")
    case True
    with Cons.prems have "filter (\<lambda>x. f x = k) xs = []"
      by (simp add: filter_empty_conv) (metis imageI)
    with True show ?thesis by simp
  qed (use Cons in simp)
qed simp

lemma ref_token_cell_sum: "wf_db db \<Longrightarrow>
  ref_tokens db r = (case ref_token_cell db r of None \<Rightarrow> 0 | Some n \<Rightarrow> n)"
  by (cases r) (auto simp: wf_db_def filter_unique split: option.split)

text \<open>Both sums are the sum that the engine itself works with.\<close>

lemma sum_map_filter: "sum_list (List.map_filter f xs) = sum_list (map (\<lambda>x. case f x of None \<Rightarrow> 0 | Some n \<Rightarrow> n) xs)"
  by (induction xs) (auto simp: List.map_filter_def split: option.split)

lemma aggregate_is_context_count: "wf_db db \<Longrightarrow> aggregate_total db c = get_context_token_count db c"
  by (simp add: aggregate_total_def get_context_token_count_def sum_map_filter ref_token_cell_sum)

lemma manual_is_context_count: "manual_sum db c = get_context_token_count db c"
proof -
  have "sum_list (concat (map (\<lambda>i. case ci_ref i of Sum _ \<Rightarrow> []
       | Msg mid \<Rightarrow> map mr_token_count (filter (\<lambda>m. mr_message_id m = mid) (db_messages db))) is))
   + sum_list (concat (map (\<lambda>i. case ci_ref i of Msg _ \<Rightarrow> []
       | Sum sid \<Rightarrow> map sr_token_count (filter (\<lambda>s. sr_summary_id s = sid) (db_summaries db))) is))
   = sum_list (map (\<lambda>i. ref_tokens db (ci_ref i)) is)" for "is"
    by (induction "is") (auto split: context_ref.split)
  then show ?thesis by (simp add: manual_sum_def get_context_token_count_def)
qed

lemma valid_refs_of_wf: "wf_db db \<Longrightarrow> list_all (\<lambda>i. ref_exists db (ci_ref i)) (get_context_items db c)"
  by (auto simp: wf_db_def list_all_iff)

text \<open>The status of each check, in terms of the tables.\<close>

lemma check_status:
  "ic_status (check_conversation_exists convs c) =
     (if c \<in> cv_conversation_id ` set (ct_rows convs) then Check_Pass else Check_Fail)"
  "ic_status (check_context_items_contiguous db c) =
     (if item_ordinals db c = map int [0..<length (item_ordinals db c)] then Check_Pass else Check_Fail)"
  "ic_status (check_context_items_valid_refs db c) =
     (if list_all (\<lambda>i. ref_exists db (ci_ref i)) (get_context_items db c) then Check_Pass else Check_Fail)"
  "ic_status (check_summaries_have_lineage db c) =
     (if list_all (has_lineage db) (summary_rows db c) then Check_Pass else Check_Fail)"
  "ic_status (check_no_orphan_summaries db c) =
     (if list_all (\<lambda>s. in_context db c (sr_summary_id s) \<or> is_parent db (sr_summary_id s)) (summary_rows db c)
      then Check_Pass else Check_Warn)"
  "ic_status (check_context_token_consistency db c) = (if manual_sum db c = aggregate_total db c then Check_Pass else Check_Fail)"
  "ic_status (check_message_seq_contiguous db c) =
     (if message_seqs db c = map int [0..<length (message_seqs db c)] then Check_Pass else Check_Fail)"
  "ic_status (check_no_duplicate_context_refs db c) = (if distinct (context_refs db c) then Check_Pass else Check_Fail)"
  by (auto simp: check_conversation_exists_def check_context_items_contiguous_def check_context_items_valid_refs_def
      check_summaries_have_lineage_def check_no_orphan_summaries_def check_context_token_consistency_def
      check_message_seq_contiguous_def check_no_duplicate_context_refs_def passed_def Let_def number_gaps_Nil
      duplicate_refs_Nil item_ordinals_def list_all_iff list_ex_iff filter_empty_conv)

lemma no_failures:
  "ir_fail_count (scan convs db c) = 0 \<longleftrightarrow> list_all (\<lambda>k. ic_status k \<noteq> Check_Fail) (ir_checks (scan convs db c))"
  by (auto simp: scan_def Let_def count_status_def filter_empty_conv list_all_iff)

text \<open>What a scan without a failure says. On tables whose keys are unique and whose references resolve, no check fails
  exactly when the conversation exists, its context is numbered from zero without a gap and shows nothing
  twice, every leaf has messages and every condensed summary has summaries it was made from, and the
  messages are numbered from zero without a gap. The reference check and the token check never fail there.\<close>

theorem clean_scan:
  assumes "wf_db db"
  shows "ir_fail_count (scan convs db c) = 0 \<longleftrightarrow>
      c \<in> cv_conversation_id ` set (ct_rows convs)
    \<and> item_ordinals db c = map int [0..<length (item_ordinals db c)]
    \<and> distinct (context_refs db c)
    \<and> list_all (has_lineage db) (summary_rows db c)
    \<and> message_seqs db c = map int [0..<length (message_seqs db c)]"
  unfolding no_failures
  using valid_refs_of_wf[OF assms, of c] manual_is_context_count[of db c] aggregate_is_context_count[OF assms, of c]
  by (auto simp: scan_def Let_def check_status split: if_splits)

subsection \<open>The numbers of stored messages\<close>

text \<open>The engine numbers the messages of a conversation from one: \<open>get_max_seq\<close> is zero for a conversation without
  messages, and a new message gets the next number.\<close>

definition numbered_from_one :: "lcm_db \<Rightarrow> bool" where
  "numbered_from_one db \<longleftrightarrow> (\<forall>c. message_seqs db c = map (\<lambda>i. int i + 1) [0..<length (message_seqs db c)])"

lemma numbered_set:
  assumes "numbered_from_one db"
  shows "n \<in> set (message_seqs db c) \<longleftrightarrow> 1 \<le> n \<and> n \<le> int (length (message_seqs db c))"
proof -
  let ?l = "length (message_seqs db c)"
  have "set (message_seqs db c) = set (map (\<lambda>i. int i + 1) [0..<?l])"
    using assms unfolding numbered_from_one_def by metis
  also have "\<dots> = {1..int ?l}"
  proof -
    have "x \<in> (\<lambda>i. int i + 1) ` {0..<?l}" if "1 \<le> x" "x \<le> int ?l" for x
      using that by (intro image_eqI[of _ _ "nat (x - 1)"]) auto
    then show ?thesis by auto
  qed
  finally show ?thesis by simp
qed

lemma numbered_max_seq:
  assumes "numbered_from_one db"
  shows "get_max_seq db c = int (length (message_seqs db c))"
proof (cases "map mr_seq (filter (\<lambda>m. mr_conversation_id m = c) (db_messages db))")
  case Nil
  then show ?thesis by (simp add: get_max_seq_def message_seqs_def)
next
  case (Cons x xs)
  then have s: "set (message_seqs db c) = set (x # xs)" and l: "length (message_seqs db c) = Suc (length xs)"
    by (simp_all add: message_seqs_def Cons set_insort_key del: set_map length_map)
  have "get_max_seq db c = Max (set (x # xs))" by (simp only: get_max_seq_def Cons list.case Max.set_eq_fold)
  also have "\<dots> = int (Suc (length xs))"
    using numbered_set[OF assms, of _ c] l unfolding s[symmetric] by (intro Max_eqI) auto
  finally show ?thesis by (simp add: l)
qed

lemma message_seqs_append:
  assumes "db_messages db' = db_messages db @ [r]" "\<forall>n \<in> set (message_seqs db (mr_conversation_id r)). n < mr_seq r"
  shows "message_seqs db' c = message_seqs db c @ (if c = mr_conversation_id r then [mr_seq r] else [])"
proof (cases "c = mr_conversation_id r")
  case True
  let ?old = "map mr_seq (filter (\<lambda>m. mr_conversation_id m = c) (db_messages db))"
  have "sort (?old @ [mr_seq r]) = sort ?old @ [mr_seq r]"
  proof (rule properties_for_sort)
    show "mset (sort ?old @ [mr_seq r]) = mset (?old @ [mr_seq r])" by simp
    show "sorted (sort ?old @ [mr_seq r])" using assms(2) True by (auto simp: sorted_append message_seqs_def less_imp_le)
  qed
  then show ?thesis using True by (simp add: message_seqs_def assms(1))
qed (simp add: message_seqs_def assms(1))

lemma persist_numbers:
  assumes wf: "wf_db db" and run: "persist_message env t c s m db = Inr (ok, db')" and num: "numbered_from_one db"
  shows "numbered_from_one db'"
proof (cases ok)
  case False
  then have "db' = db"
    using run by (auto simp: persist_message_def Let_def split: prod.splits sum.splits db_error.splits)
  then show ?thesis using num by simp
next
  case True
  obtain role content where id: "identity_of (ie_codec env) m = (role, content)" by fastforce
  let ?inp = "\<lparr>cm_conversation_id = c, cm_seq = get_max_seq db c + 1, cm_role = role, cm_content = content,
    cm_token_count = estimate_tokens content, cm_identity_hash = None\<rparr>"
  from run True obtain rec db1 db2 where steps: "create_message (ie_digest env) (ie_now env t) ?inp db = Inr (rec, db1)"
    "create_message_parts (ie_part_id env t) (mr_message_id rec) (build_message_parts (ie_codec env) s m content) db1 = Inr db2"
    "append_context_message c (mr_message_id rec) db2 = Inr db'"
    by (auto simp: persist_message_def id Let_def split: sum.splits db_error.splits)
  have rec: "mr_conversation_id rec = c" "mr_seq rec = get_max_seq db c + 1" and db1: "db_messages db1 = db_messages db @ [rec]"
    using steps(1) by (auto simp: create_message_def message_of_input_def Let_def split: if_splits)
  have "db_messages db2 = db_messages db1"
    using create_parts_effect[OF wf_create_message[OF wf steps(1)] steps(2)] by (auto simp: parts_only_def)
  then have rows: "db_messages db' = db_messages db @ [rec]"
    using steps(3) db1 by (auto simp: append_context_message_def insert_context_item_def split: if_splits)
  have seqs: "message_seqs db' c' = message_seqs db c' @ (if c' = c then [get_max_seq db c + 1] else [])" for c'
    using message_seqs_append[OF rows, of c'] numbered_set[OF num, of _ c] numbered_max_seq[OF num, of c] rec by auto
  have old: "message_seqs db c' = map (\<lambda>i. int i + 1) [0..<length (message_seqs db c')]" for c'
    using num by (simp add: numbered_from_one_def)
  show ?thesis unfolding numbered_from_one_def
  proof
    fix c'
    show "message_seqs db' c' = map (\<lambda>i. int i + 1) [0..<length (message_seqs db' c')]"
      using old[of c'] numbered_max_seq[OF num, of c] by (cases "c' = c") (simp_all add: seqs)
  qed
qed

text \<open>What the events do to the numbers, next to what \<open>keeps\<close> says of them.\<close>

definition keeps_numbers :: "lcm_db \<Rightarrow> lcm_db \<Rightarrow> bool" where
  "keeps_numbers db db' \<longleftrightarrow> keeps db db' \<and> (remembered db \<and> numbered_from_one db \<longrightarrow> numbered_from_one db')"

lemma keeps_numbers_refl [simp]: "keeps_numbers db db"
  by (simp add: keeps_numbers_def)

lemma keeps_numbers_trans: "keeps_numbers db db1 \<Longrightarrow> keeps_numbers db1 db2 \<Longrightarrow> keeps_numbers db db2"
  by (auto simp: keeps_numbers_def keeps_def intro: prefix_order.trans)

lemma persist_keeps_numbers: "persist_message env t c s m db = Inr (ok, db') \<Longrightarrow> keeps_numbers db db'"
  using persist_keeps persist_numbers by (auto simp: keeps_numbers_def remembered_def)

lemma single_keeps_numbers: "ingest_single env s m key st = (st', r) \<Longrightarrow> keeps_numbers (ig_db st) (ig_db st')"
  by (auto simp: ingest_single_def Let_def split: if_splits sum.splits prod.splits dest!: persist_keeps_numbers)

lemma batch_keeps_numbers: "ingest_batch env s key ms st = (st', n) \<Longrightarrow> keeps_numbers (ig_db st) (ig_db st')"
proof (induction ms arbitrary: st n)
  case (Cons m ms)
  then show ?case by (auto split: prod.splits dest!: single_keeps_numbers intro: keeps_numbers_trans)
qed simp

lemma diff_keeps_numbers: "keeps_numbers (ig_db st) (ig_db (do_ingest_history_diff env s h st))"
proof -
  have "ig_db (reconcile_ingest_cursor env s h st) = ig_db st" for st
    by (auto simp: reconcile_ingest_cursor_def Let_def split: option.split prod.split)
  then show ?thesis
    by (auto simp: do_ingest_history_diff_def Let_def split: prod.split dest!: batch_keeps_numbers)
qed

lemma numbered_cong: "db_messages db' = db_messages db \<Longrightarrow> numbered_from_one db' = numbered_from_one db"
  by (simp add: numbered_from_one_def message_seqs_def)

lemma compact_messages:
  assumes "\<And>c. \<exists>db' t r. sweep c (ig_db (es_ingest st)) = Some (db', t, r) \<and> lossless cfg c (ig_db (es_ingest st)) db'"
  shows "db_messages (ig_db (es_ingest (compact_session sweep s st))) = db_messages (ig_db (es_ingest st))"
proof (cases "conversation_id_of st s")
  case (Some c)
  from assms[of c] obtain db' t r where "sweep c (ig_db (es_ingest st)) = Some (db', t, r)"
    "lossless cfg c (ig_db (es_ingest st)) db'" by blast
  with Some show ?thesis by (simp add: compact_session_def set_db_def update_ingest_def lossless_def)
qed (simp add: compact_session_def)

lemma compaction_messages:
  assumes wf: "wf_db (ig_db (es_ingest st))"
  shows "db_messages (ig_db (es_ingest (run_event env cfg cenv (Sweep s tick budget force hard model) st))) = db_messages (ig_db (es_ingest st))"
    and "db_messages (ig_db (es_ingest (run_event env cfg cenv (Until_Under s tick budget target current model) st))) = db_messages (ig_db (es_ingest st))"
proof -
  show "db_messages (ig_db (es_ingest (run_event env cfg cenv (Sweep s tick budget force hard model) st))) = db_messages (ig_db (es_ingest st))"
    unfolding run_event.simps by (rule compact_messages[where cfg = cfg]) (use full_sweep_cases[OF wf] in blast)
  show "db_messages (ig_db (es_ingest (run_event env cfg cenv (Until_Under s tick budget target current model) st))) = db_messages (ig_db (es_ingest st))"
    unfolding run_event.simps by (rule compact_messages[where cfg = cfg]) (use until_under_cases[OF wf refl] in blast)
qed

lemma event_keeps_numbers: "keeps_numbers (ig_db (es_ingest st)) (ig_db (es_ingest (run_event env cfg cenv e st)))"
proof (cases e)
  case (Sweep s tick budget force hard model)
  then show ?thesis
    using event_keeps[of st env cfg cenv e] compaction_messages(1)[of st env cfg cenv s tick budget force hard model]
    by (auto simp: keeps_numbers_def remembered_def dest: numbered_cong)
next
  case (Until_Under s tick budget target current model)
  then show ?thesis
    using event_keeps[of st env cfg cenv e] compaction_messages(2)[of st env cfg cenv s tick budget target current model]
    by (auto simp: keeps_numbers_def remembered_def dest: numbered_cong)
qed (simp_all add: update_ingest_def diff_keeps_numbers rewrite_db compress_db)

lemma events_keep_numbers:
  "keeps_numbers (ig_db (es_ingest st)) (ig_db (es_ingest (run_events env cfg cenv events st)))"
proof (induction events arbitrary: st)
  case (Cons e events)
  show ?case using keeps_numbers_trans[OF event_keeps_numbers Cons.IH] by (simp add: run_events_def)
qed (simp add: run_events_def)

text \<open>The engine's own conversations fail the scan. However the engine ran from an empty message table, the messages
  of each conversation are numbered \<open>1, 2, ..., n\<close> without a gap, and the check of the message numbers,
  which counts from zero, fails for each conversation that has a message.\<close>

theorem stored_conversations_fail_scan:
  assumes "wf_db (ig_db (es_ingest st))" "db_messages (ig_db (es_ingest st)) = []"
    and "\<And>c. covered (ig_db (es_ingest st)) c = {}"
  shows "let db = ig_db (es_ingest (run_events env cfg cenv events st)) in
    message_seqs db c = map (\<lambda>i. int i + 1) [0..<get_message_count db c]
    \<and> (get_message_count db c \<noteq> 0 \<longleftrightarrow> ic_status (check_message_seq_contiguous db c) = Check_Fail)
    \<and> (get_message_count db c \<noteq> 0 \<longrightarrow> 0 < ir_fail_count (scan convs db c))"
proof -
  let ?db = "ig_db (es_ingest (run_events env cfg cenv events st))"
  have "remembered (ig_db (es_ingest st))" "numbered_from_one (ig_db (es_ingest st))"
    using assms by (simp_all add: remembered_def message_ids_def numbered_from_one_def message_seqs_def)
  then have num: "numbered_from_one ?db"
    using events_keep_numbers[of st env cfg cenv events] by (auto simp: keeps_numbers_def)
  have len: "length (message_seqs ?db c) = get_message_count ?db c" by (simp add: message_seqs_def get_message_count_def)
  have seqs: "message_seqs ?db c = map (\<lambda>i. int i + 1) [0..<get_message_count ?db c]"
    using num len unfolding numbered_from_one_def by metis
  have fail: "ic_status (check_message_seq_contiguous ?db c) = Check_Fail \<longleftrightarrow> get_message_count ?db c \<noteq> 0"
    by (auto simp: check_status seqs intro: gr0I)
  moreover have "ir_fail_count (scan convs ?db c) \<noteq> 0" if "get_message_count ?db c \<noteq> 0"
    using that fail unfolding no_failures by (simp add: scan_def Let_def)
  ultimately show ?thesis using seqs by (simp add: Let_def)
qed

subsection \<open>Repairs and prunes\<close>

text \<open>Deleting what the suggestions name: of each duplicate reference every item but the first.\<close>

definition deduplicate :: "int \<Rightarrow> lcm_db \<Rightarrow> lcm_db" where
  "deduplicate c db = delete_context_items (\<lambda>i. ci_conversation_id i = c
     \<and> list_ex (\<lambda>(r, ordinals). ci_ordinal i \<in> set (tl ordinals)) (duplicate_refs db c)) db"

lemma deduplicated_ref:
  assumes "wf_db db"
  shows "filter (\<lambda>i. ci_ref i = r) (get_context_items (deduplicate c db) c)
    = take 1 (filter (\<lambda>i. ci_ref i = r) (get_context_items db c))"
proof -
  let ?is = "get_context_items db c"
  let ?xs = "filter (\<lambda>i. ci_ref i = r) ?is"
  have dist: "distinct (map ci_ordinal ?is)" using distinct_item_ordinals[OF assms, of c] by (simp add: item_ordinals_def)
  have drop_iff: "list_ex (\<lambda>(r, os). ci_ordinal i \<in> set (tl os)) (duplicate_refs db c) \<longleftrightarrow> ci_ordinal i \<in> set (tl (map ci_ordinal ?xs))"
    if "i \<in> set ?xs" for i
  proof
    assume "list_ex (\<lambda>(r, os). ci_ordinal i \<in> set (tl os)) (duplicate_refs db c)"
    then obtain q where q: "ci_ordinal i \<in> set (tl (map ci_ordinal (filter (\<lambda>i. ci_ref i = q) ?is)))"
      by (auto simp: list_ex_iff duplicate_refs_set)
    moreover have "set (tl xs) \<subseteq> set xs" for xs :: "int list" by (cases xs) auto
    ultimately have "ci_ordinal i \<in> set (map ci_ordinal (filter (\<lambda>i. ci_ref i = q) ?is))" by blast
    then obtain j where j: "j \<in> set ?is" "ci_ref j = q" "ci_ordinal j = ci_ordinal i" by auto
    then have "j = i" using dist that by (auto dest: inj_onD simp: distinct_map)
    with j q that show "ci_ordinal i \<in> set (tl (map ci_ordinal ?xs))" by auto
  next
    assume tl: "ci_ordinal i \<in> set (tl (map ci_ordinal ?xs))"
    then have "1 < length ?xs" by (cases ?xs; cases "tl ?xs") auto
    with tl show "list_ex (\<lambda>(r, os). ci_ordinal i \<in> set (tl os)) (duplicate_refs db c)"
      unfolding list_ex_iff by (intro bexI[of _ "(r, map ci_ordinal ?xs)"]) (auto simp: duplicate_refs_set)
  qed
  have "filter (\<lambda>i. ci_ref i = r) (get_context_items (deduplicate c db) c)
      = filter (\<lambda>i. \<not> (ci_conversation_id i = c \<and> list_ex (\<lambda>(r, os). ci_ordinal i \<in> set (tl os)) (duplicate_refs db c))) ?xs"
    by (simp add: deduplicate_def items_delete conj_commute)
  also have "\<dots> = filter (\<lambda>i. ci_ordinal i \<notin> set (tl (map ci_ordinal ?xs))) ?xs"
    by (rule filter_cong[OF refl]) (use drop_iff in auto)
  also have "\<dots> = take 1 ?xs"
  proof -
    have "distinct (map ci_ordinal ?xs)" using dist by (rule distinct_map_filter)
    moreover have "filter (\<lambda>i. ci_ordinal i \<notin> set (tl (map ci_ordinal xs))) xs = take 1 xs"
      if "distinct (map ci_ordinal xs)" for xs :: "context_item list"
      using that by (cases xs) (auto simp: filter_empty_conv)
    ultimately show ?thesis by blast
  qed
  finally show ?thesis .
qed

text \<open>The suggestions for duplicates repair them. Deleting every context item that a suggestion says to remove makes
  the check pass, shows the same messages and summaries as before, and leaves every other conversation's
  context as it was.\<close>

theorem deduplicate_repairs:
  assumes "wf_db db"
  shows "ic_status (check_no_duplicate_context_refs (deduplicate c db) c) = Check_Pass
    \<and> set (context_refs (deduplicate c db) c) = set (context_refs db c)
    \<and> (\<forall>d. d = c \<or> get_context_items (deduplicate c db) d = get_context_items db d)"
proof (intro conjI allI)
  let ?new = "deduplicate c db"
  note one = deduplicated_ref[OF assms, of _ c]
  have "length (filter (\<lambda>i. ci_ref i = r) (get_context_items ?new c)) \<le> 1" for r by (simp add: one)
  then have "distinct (context_refs ?new c)"
    by (simp add: distinct_count context_refs_def count_list_eq_length_filter filter_map comp_def eq_commute)
  then show "ic_status (check_no_duplicate_context_refs ?new c) = Check_Pass" by (simp add: check_status)
  have mem: "r \<in> set (context_refs d c) \<longleftrightarrow> filter (\<lambda>i. ci_ref i = r) (get_context_items d c) \<noteq> []" for r d
    by (auto simp: context_refs_def filter_empty_conv)
  have "r \<in> set (context_refs ?new c) \<longleftrightarrow> r \<in> set (context_refs db c)" for r
    unfolding mem one by (cases "filter (\<lambda>i. ci_ref i = r) (get_context_items db c)") auto
  then show "set (context_refs ?new c) = set (context_refs db c)" by blast
  show "d = c \<or> get_context_items ?new d = get_context_items db d" for d
    by (auto simp: deduplicate_def items_delete filter_id_conv)
qed

text \<open>A prune leaves a gap. On a context numbered without a gap, the check of the numbers passes after the cascade
  exactly when what remains of the context is an initial part of it: hiding anything before an item that
  stays, such as the summary of the oldest messages, makes the scan fail until the next compaction numbers
  the items again.\<close>

theorem prune_leaves_gaps:
  assumes "wf_db (pn_db st)" "run_soft_prune_body ids reason st = (st', counts)"
    and "ic_status (check_context_items_contiguous (pn_db st) c) = Check_Pass"
  shows "ic_status (check_context_items_contiguous (pn_db st') c) = Check_Pass
    \<longleftrightarrow> prefix (get_context_items (pn_db st') c) (get_context_items (pn_db st) c)"
proof -
  let ?old = "get_context_items (pn_db st) c" and ?new = "get_context_items (pn_db st') c"
  have new: "\<exists>P. ?new = filter P ?old"
    by (rule exI[of _ "\<lambda>i. \<not> points_to_summary ids i \<and> \<not> points_to_message (linked_messages (pn_db st) ids) i"])
      (auto simp: get_context_items_def context_rows_def body_tables(3)[OF assms(2)] filter_sort
        intro!: arg_cong[of _ _ "sort_key ci_ordinal"] filter_cong)
  have old: "map ci_ordinal ?old = map int [0..<length ?old]"
    using assms(3) by (auto simp: check_status item_ordinals_def split: if_splits)
  have nth: "i = ?old ! nat (ci_ordinal i)" if "i \<in> set ?old" for i
  proof -
    from that obtain k where "k < length ?old" "i = ?old ! k" unfolding in_set_conv_nth by metis
    moreover from this have "ci_ordinal i = int k" using arg_cong[OF old, of "\<lambda>xs. xs ! k"] by simp
    ultimately show ?thesis by simp
  qed
  have "map ci_ordinal ?new = map int [0..<length ?new] \<longleftrightarrow> prefix ?new ?old"
  proof
    assume num: "map ci_ordinal ?new = map int [0..<length ?new]"
    have same: "?new ! k = ?old ! k" if "k < length ?new" for k
    proof -
      have "set ?new \<subseteq> set ?old" using new by force
      with that have "?new ! k \<in> set ?old" by (meson nth_mem subsetD)
      from nth[OF this] show ?thesis using that arg_cong[OF num, of "\<lambda>xs. xs ! k"] by simp
    qed
    have "length ?new \<le> length ?old" using new by auto
    then have "?new = take (length ?new) ?old" by (intro nth_equalityI) (simp_all add: same)
    then show "prefix ?new ?old" by (metis take_is_prefix)
  next
    assume "prefix ?new ?old"
    then have new_eq: "?new = take (length ?new) ?old" by (metis append_eq_conv_conj prefix_def)
    then have "map ci_ordinal ?new = take (length ?new) (map ci_ordinal ?old)" by (metis take_map)
    also have "\<dots> = map int (take (length ?new) [0..<length ?old])" unfolding old by (simp add: take_map)
    also have "\<dots> = map int [0..<length ?new]" using new by (auto simp: take_upt)
    finally show "map ci_ordinal ?new = map int [0..<length ?new]" .
  qed
  then show ?thesis by (auto simp: check_status item_ordinals_def)
qed

subsection \<open>Concrete scans\<close>

theorem clean_scan_witness:
  "0 < ir_fail_count (scan two_sessions sample_db 1)"
proof -
  have "item_ordinals sample_db 1 \<noteq> map int [0..<length (item_ordinals sample_db 1)]"
    by (simp add: item_ordinals_def sample_db_items upt_rec)
  then show ?thesis using clean_scan[OF sample_db_wf, of two_sessions 1] by (metis gr0I)
qed

definition fresh_engine :: engine_state where
  "fresh_engine = update_ingest (\<lambda>_. blank_state) summarized_state"

theorem stored_conversations_fail_scan_witness:
  "let db = ig_db (es_ingest (run_events sample_engine_env small_config (echo_env (Reply [97]))
      [Hook (cps ''s'') [Ingest.sample_message ''user'' ''hi''], Restart] fresh_engine)) in
   \<exists>c. 0 < ir_fail_count (scan two_sessions db c) \<and> message_seqs db c \<noteq> []"
proof -
  let ?env = "sample_ingest_env (\<lambda>_. False)" and ?hi = "Ingest.sample_message ''user'' ''hi''"
  let ?st = "do_ingest_history_diff ?env (cps ''s'') [?hi] blank_state"
  have db: "ig_db (es_ingest (run_events sample_engine_env small_config (echo_env (Reply [97])) [Hook (cps ''s'') [?hi], Restart] fresh_engine))
      = ig_db ?st"
    by (simp add: run_events_def fresh_engine_def update_ingest_def sample_engine_env_def)
  obtain r convs where goc: "get_or_create_conversation (ie_now ?env (ig_tick blank_state)) (cps ''s'') None None
      (ig_conversations blank_state) = Inr (r, convs)" using new_session by blast
  have "protect_message_for_ingest (ie_codec ?env) (ie_files ?env) convs (cv_conversation_id r) ?hi (ig_files blank_state)
      = (ig_files blank_state, ?hi)" by (simp add: short_sample)
  from first_message_stored[OF _ _ blank_ok _ _ _ sample_persistable goc this]
  have "transcript ?st (cps ''s'') \<noteq> []" by simp
  then obtain c where c: "stored_identities (ig_db ?st) c \<noteq> []" by (auto simp: transcript_def split: option.splits)
  then have "set (get_messages (ig_db ?st) c None None) \<noteq> {}" by (simp add: stored_identities_def)
  then obtain m where "m \<in> set (db_messages (ig_db ?st))" "mr_conversation_id m = c"
    by (auto simp: get_messages_def)
  then have count: "get_message_count (ig_db ?st) c \<noteq> 0" by (auto simp: get_message_count_def filter_empty_conv)
  have "wf_db (ig_db (es_ingest fresh_engine))" "db_messages (ig_db (es_ingest fresh_engine)) = []"
    "\<And>c. covered (ig_db (es_ingest fresh_engine)) c = {}"
    using no_rows_wf
    by (simp_all add: fresh_engine_def update_ingest_def blank_state_def no_rows_def covered_def context_refs_def
        get_context_items_def context_rows_def)
  from stored_conversations_fail_scan[OF this, of sample_engine_env small_config "echo_env (Reply [97])"
      "[Hook (cps ''s'') [?hi], Restart]" c two_sessions]
  show ?thesis unfolding db using count by (auto simp: Let_def)
qed

definition doubled_db :: lcm_db where
  "doubled_db = sample_db\<lparr>db_context_items := map (\<lambda>(n, m). \<lparr>ci_conversation_id = 1, ci_ordinal = n, ci_ref = Msg m\<rparr>)
       [(0, 1), (1, 2), (2, 2), (3, 3)]\<rparr>"

theorem deduplicate_repairs_witness:
  "set (context_refs (deduplicate 1 doubled_db) 1) = {Msg 1, Msg 2, Msg 3}
    \<and> ic_status (check_no_duplicate_context_refs doubled_db 1) = Check_Fail"
proof -
  have "wf_db doubled_db"
    by (simp add: wf_db_def doubled_db_def sample_db_def empty_db_def Context_Store.sample_message_def context_key_def
        summary_of_input_def sample_input_def)
  moreover have "context_refs doubled_db 1 = [Msg 1, Msg 2, Msg 2, Msg 3]"
    by (simp add: context_refs_def get_context_items_def context_rows_def doubled_db_def)
  ultimately show ?thesis using deduplicate_repairs[of doubled_db 1] by (simp add: check_status)
qed

definition pruned_head :: prune_state where
  "pruned_head = sample_state\<lparr>pn_db := (pn_db sample_state)\<lparr>db_context_items :=
     [\<lparr>ci_conversation_id = 1, ci_ordinal = 0, ci_ref = Sum ''a''\<rparr>, \<lparr>ci_conversation_id = 1, ci_ordinal = 1, ci_ref = Sum ''b''\<rparr>]\<rparr>\<rparr>"

theorem prune_leaves_gaps_witness:
  "ic_status (check_context_items_contiguous (pn_db pruned_head) 1) = Check_Pass
    \<and> ic_status (check_context_items_contiguous (pn_db (fst (run_soft_prune_body [''a''] [114] pruned_head))) 1) \<noteq> Check_Pass"
proof -
  obtain st' counts where run: "run_soft_prune_body [''a''] [114] pruned_head = (st', counts)" by fastforce
  have old: "get_context_items (pn_db pruned_head) 1 = [\<lparr>ci_conversation_id = 1, ci_ordinal = 0, ci_ref = Sum ''a''\<rparr>,
      \<lparr>ci_conversation_id = 1, ci_ordinal = 1, ci_ref = Sum ''b''\<rparr>]"
    by (simp add: get_context_items_def context_rows_def pruned_head_def)
  have new: "get_context_items (pn_db st') 1 = [\<lparr>ci_conversation_id = 1, ci_ordinal = 1, ci_ref = Sum ''b''\<rparr>]"
    using body_tables(3)[OF run]
    by (simp add: get_context_items_def context_rows_def pruned_head_def points_to_summary_def points_to_message_def)
  have "wf_db (pn_db pruned_head)"
    by (simp add: wf_db_def pruned_head_def sample_state_def sample_leaf_def context_key_def)
  moreover have "ic_status (check_context_items_contiguous (pn_db pruned_head) 1) = Check_Pass"
    by (simp add: check_status item_ordinals_def old)
  ultimately show ?thesis using prune_leaves_gaps[OF _ run, of 1] by (simp add: run old new)
qed

end
