(* ===== verification/Transaction_Mutex.thy ===== *)
theory Transaction_Mutex
  imports Lcm_Prelude
begin

text \<open>
  Nested transactions, \<open>transaction_mutex.py\<close>: the first call of a thread on a connection takes the lock of the
  connection and opens a transaction, a call inside it opens a savepoint. The connection is SQLite's: what is
  committed, what the transaction sees, and the stack of savepoints with the contents to go back to. The
  state is that of one thread and one connection; \<open>busy\<close> says at which of its attempts to begin or
  to commit the database answers that it is locked. The bodies are programs that write, raise, and call
  the function again, with or without catching what it raises.
\<close>

subsection \<open>The connection\<close>

record 'd connection =
  cn_committed :: 'd
  cn_current :: 'd
  cn_in_transaction :: bool
  cn_savepoints :: "(nat \<times> 'd) list"

definition sql_begin :: "'d connection \<Rightarrow> 'd connection option" where
  "sql_begin c = (if cn_in_transaction c then None else Some (c\<lparr>cn_in_transaction := True\<rparr>))"

definition sql_commit :: "'d connection \<Rightarrow> 'd connection option" where
  "sql_commit c = (if cn_in_transaction c
     then Some (c\<lparr>cn_committed := cn_current c, cn_in_transaction := False, cn_savepoints := []\<rparr>) else None)"

definition sql_rollback :: "'d connection \<Rightarrow> 'd connection option" where
  "sql_rollback c = (if cn_in_transaction c
     then Some (c\<lparr>cn_current := cn_committed c, cn_in_transaction := False, cn_savepoints := []\<rparr>) else None)"

text \<open>A savepoint outside a transaction opens one; releasing it there commits.\<close>

definition sql_savepoint :: "nat \<Rightarrow> 'd connection \<Rightarrow> 'd connection" where
  "sql_savepoint n c = c\<lparr>cn_in_transaction := True, cn_savepoints := (n, cn_current c) # cn_savepoints c\<rparr>"

definition sql_rollback_to :: "nat \<Rightarrow> 'd connection \<Rightarrow> 'd connection option" where
  "sql_rollback_to n c = (case dropWhile (\<lambda>(m, _). m \<noteq> n) (cn_savepoints c) of
     [] \<Rightarrow> None | (m, d) # older \<Rightarrow> Some (c\<lparr>cn_current := d, cn_savepoints := (m, d) # older\<rparr>))"

definition sql_write :: "('d \<Rightarrow> 'd) \<Rightarrow> 'd connection \<Rightarrow> 'd connection" where
  "sql_write f c = (let d = f (cn_current c) in
     if cn_in_transaction c then c\<lparr>cn_current := d\<rparr> else c\<lparr>cn_current := d, cn_committed := d\<rparr>)"

text \<open>\<open>tx_began\<close> tells whether the transaction was opened by \<open>BEGIN\<close> or by its first savepoint.\<close>

record 'd txn_state =
  tx_conn :: "'d connection"
  tx_began :: bool
  tx_depth :: "nat option"
  tx_counter :: nat
  tx_lock :: nat
  tx_tick :: nat

definition sql_release :: "nat \<Rightarrow> 'd txn_state \<Rightarrow> 'd txn_state option" where
  "sql_release n st = (case dropWhile (\<lambda>(m, _). m \<noteq> n) (cn_savepoints (tx_conn st)) of
     [] \<Rightarrow> None
   | _ # older \<Rightarrow>
       if older = [] \<and> \<not> tx_began st then map_option (\<lambda>c. st\<lparr>tx_conn := c\<rparr>) (sql_commit (tx_conn st))
       else Some (st\<lparr>tx_conn := (tx_conn st)\<lparr>cn_savepoints := older\<rparr>\<rparr>))"

subsection \<open>The wrapper\<close>

datatype txn_mode = Outer | Inner nat

definition get_held_lock_depth :: "'d txn_state \<Rightarrow> nat" where
  "get_held_lock_depth st = (case tx_depth st of None \<Rightarrow> 0 | Some d \<Rightarrow> d)"

text \<open>Up to the call of the operation. An implicit transaction is committed first; an error there is swallowed.\<close>

definition enter_transaction :: "(nat \<Rightarrow> bool) \<Rightarrow> 'd txn_state \<Rightarrow> 'd txn_state \<times> txn_mode option" where
  "enter_transaction busy st =
     (if 0 < get_held_lock_depth st then
        (st\<lparr>tx_conn := sql_savepoint (tx_counter st) (tx_conn st),
            tx_began := (tx_began st \<and> cn_in_transaction (tx_conn st)),
            tx_depth := Some (get_held_lock_depth st + 1), tx_counter := tx_counter st + 1\<rparr>,
         Some (Inner (tx_counter st)))
      else
        let st1 = st\<lparr>tx_lock := tx_lock st + 1, tx_depth := Some 1\<rparr>;
            st2 = (if cn_in_transaction (tx_conn st1)
              then (if busy (tx_tick st1) then st1\<lparr>tx_tick := tx_tick st1 + 1\<rparr>
                    else (case sql_commit (tx_conn st1) of None \<Rightarrow> st1\<lparr>tx_tick := tx_tick st1 + 1\<rparr>
                      | Some c \<Rightarrow> st1\<lparr>tx_conn := c, tx_tick := tx_tick st1 + 1\<rparr>))
              else st1);
            st3 = st2\<lparr>tx_tick := tx_tick st2 + 1\<rparr> in
        if busy (tx_tick st2) then (st3\<lparr>tx_lock := tx_lock st3 - 1\<rparr>, None)
        else (case sql_begin (tx_conn st3) of
            None \<Rightarrow> (st3\<lparr>tx_lock := tx_lock st3 - 1\<rparr>, None)
          | Some c \<Rightarrow> (st3\<lparr>tx_conn := c, tx_began := True\<rparr>, Some Outer)))"

definition pop_depth :: "'d txn_state \<Rightarrow> 'd txn_state" where
  "pop_depth st = st\<lparr>tx_depth := (if get_held_lock_depth st - 1 = 0 then None else Some (get_held_lock_depth st - 1))\<rparr>"

text \<open>From the end of the operation on: whether it returned, and whether the call returns.\<close>

fun leave_transaction :: "(nat \<Rightarrow> bool) \<Rightarrow> txn_mode \<Rightarrow> bool \<Rightarrow> 'd txn_state \<Rightarrow> 'd txn_state \<times> bool" where
  "leave_transaction busy (Inner n) ok st =
     (case (if ok then sql_release n st else None) of
        Some st1 \<Rightarrow> (pop_depth st1, True)
      | None \<Rightarrow>
          (case sql_rollback_to n (tx_conn st) of
             None \<Rightarrow> (pop_depth st, False)
           | Some c \<Rightarrow> (case sql_release n (st\<lparr>tx_conn := c\<rparr>) of
                 None \<Rightarrow> (pop_depth (st\<lparr>tx_conn := c\<rparr>), False)
               | Some st1 \<Rightarrow> (pop_depth st1, False))))"
| "leave_transaction busy Outer ok st =
     (let st1 = (if ok then st\<lparr>tx_tick := tx_tick st + 1\<rparr> else st);
          committed = (if ok \<and> \<not> busy (tx_tick st) then sql_commit (tx_conn st1) else None);
          st2 = (case committed of
              Some c \<Rightarrow> st1\<lparr>tx_conn := c\<rparr>
            | None \<Rightarrow> (case sql_rollback (tx_conn st1) of Some c \<Rightarrow> st1\<lparr>tx_conn := c\<rparr> | None \<Rightarrow> st1)) in
      (st2\<lparr>tx_depth := None, tx_lock := tx_lock st2 - 1\<rparr>, committed \<noteq> None))"

subsection \<open>Programs\<close>

datatype 'd stmt = Write "'d \<Rightarrow> 'd" | Raise | Call "'d stmt list" | Try "'d stmt list"

fun exec :: "(nat \<Rightarrow> bool) \<Rightarrow> 'd stmt list \<Rightarrow> 'd txn_state \<Rightarrow> 'd txn_state \<times> bool" where
  "exec busy [] st = (st, True)"
| "exec busy (Write f # ss) st = exec busy ss (st\<lparr>tx_conn := sql_write f (tx_conn st)\<rparr>)"
| "exec busy (Raise # ss) st = (st, False)"
| "exec busy (Call body # ss) st =
     (case enter_transaction busy st of
        (st1, None) \<Rightarrow> (st1, False)
      | (st1, Some mode) \<Rightarrow> (case exec busy body st1 of (st2, ok) \<Rightarrow>
          (case leave_transaction busy mode ok st2 of (st3, ok') \<Rightarrow>
             if ok' then exec busy ss st3 else (st3, False))))"
| "exec busy (Try body # ss) st =
     (case enter_transaction busy st of
        (st1, None) \<Rightarrow> exec busy ss st1
      | (st1, Some mode) \<Rightarrow> (case exec busy body st1 of (st2, ok) \<Rightarrow>
          (case leave_transaction busy mode ok st2 of (st3, _) \<Rightarrow> exec busy ss st3)))"

definition with_database_transaction :: "(nat \<Rightarrow> bool) \<Rightarrow> 'd stmt list \<Rightarrow> 'd txn_state \<Rightarrow> 'd txn_state \<times> bool" where
  "with_database_transaction busy body st = exec busy [Call body] st"

subsection \<open>Nested transactions as they should be\<close>

text \<open>A call that raises leaves no trace of itself; the contents are all there is.\<close>

fun nested :: "'d stmt list \<Rightarrow> 'd \<Rightarrow> 'd \<times> bool" where
  "nested [] d = (d, True)"
| "nested (Write f # ss) d = nested ss (f d)"
| "nested (Raise # ss) d = (d, False)"
| "nested (Call body # ss) d = (case nested body d of (d', ok) \<Rightarrow> if ok then nested ss d' else (d, False))"
| "nested (Try body # ss) d = (case nested body d of (d', ok) \<Rightarrow> nested ss (if ok then d' else d))"

text \<open>Inside an open transaction of the thread.\<close>

definition inside :: "'d txn_state \<Rightarrow> bool" where
  "inside st \<longleftrightarrow> cn_in_transaction (tx_conn st) \<and> tx_began st \<and> 0 < get_held_lock_depth st
     \<and> list_all (\<lambda>(n, _). n < tx_counter st) (cn_savepoints (tx_conn st))"

definition same_frame :: "'d txn_state \<Rightarrow> 'd txn_state \<Rightarrow> bool" where
  "same_frame st st' \<longleftrightarrow> cn_committed (tx_conn st') = cn_committed (tx_conn st)
     \<and> cn_savepoints (tx_conn st') = cn_savepoints (tx_conn st) \<and> cn_in_transaction (tx_conn st')
     \<and> tx_began st' \<and> tx_depth st' = tx_depth st \<and> tx_lock st' = tx_lock st \<and> tx_counter st \<le> tx_counter st'"

lemma inside_frame: "inside st \<Longrightarrow> same_frame st st' \<Longrightarrow> inside st'"
  by (auto simp: inside_def same_frame_def get_held_lock_depth_def list_all_iff)

lemma same_frame_trans: "same_frame st st1 \<Longrightarrow> same_frame st1 st2 \<Longrightarrow> same_frame st st2"
  by (auto simp: same_frame_def)

lemma same_frame_refl: "inside st \<Longrightarrow> same_frame st st"
  by (auto simp: same_frame_def inside_def)

text \<open>A savepoint and its end, with a body that keeps the frame between them.\<close>

lemma enter_inside:
  assumes "inside st"
  obtains st1 where "enter_transaction busy st = (st1, Some (Inner (tx_counter st)))" "inside st1"
    "cn_current (tx_conn st1) = cn_current (tx_conn st)" "cn_committed (tx_conn st1) = cn_committed (tx_conn st)"
    "cn_savepoints (tx_conn st1) = (tx_counter st, cn_current (tx_conn st)) # cn_savepoints (tx_conn st)"
    "tx_depth st1 = Some (get_held_lock_depth st + 1)" "tx_lock st1 = tx_lock st" "tx_counter st1 = tx_counter st + 1"
proof -
  let ?st1 = "st\<lparr>tx_conn := sql_savepoint (tx_counter st) (tx_conn st),
    tx_began := (tx_began st \<and> cn_in_transaction (tx_conn st)),
    tx_depth := Some (get_held_lock_depth st + 1), tx_counter := tx_counter st + 1\<rparr>"
  have "enter_transaction busy st = (?st1, Some (Inner (tx_counter st)))"
    using assms by (simp add: enter_transaction_def inside_def)
  moreover have "inside ?st1"
    using assms by (auto simp: inside_def sql_savepoint_def get_held_lock_depth_def list_all_iff)
  ultimately show thesis by (rule that) (simp_all add: sql_savepoint_def)
qed

lemma leave_inside:
  assumes ins: "inside st" and st1: "cn_committed (tx_conn st1) = cn_committed (tx_conn st)"
      "cn_savepoints (tx_conn st1) = (tx_counter st, cn_current (tx_conn st)) # cn_savepoints (tx_conn st)"
      "tx_depth st1 = Some (get_held_lock_depth st + 1)" "tx_lock st1 = tx_lock st" "tx_counter st1 = tx_counter st + 1"
    and frame: "same_frame st1 st2"
  shows "\<exists>st3. leave_transaction busy (Inner (tx_counter st)) ok st2 = (st3, ok) \<and> same_frame st st3
    \<and> cn_current (tx_conn st3) = (if ok then cn_current (tx_conn st2) else cn_current (tx_conn st))"
proof -
  have depth: "tx_depth st = Some (get_held_lock_depth st)" "0 < get_held_lock_depth st"
    using ins by (auto simp: inside_def get_held_lock_depth_def split: option.splits)
  have sp: "cn_savepoints (tx_conn st2) = (tx_counter st, cn_current (tx_conn st)) # cn_savepoints (tx_conn st)"
    and began: "tx_began st2" and d2: "get_held_lock_depth st2 = get_held_lock_depth st + 1"
    using frame st1 by (auto simp: same_frame_def get_held_lock_depth_def)
  have rel: "sql_release (tx_counter st) st' = Some (st'\<lparr>tx_conn := (tx_conn st')\<lparr>cn_savepoints := cn_savepoints (tx_conn st)\<rparr>\<rparr>)"
    if "cn_savepoints (tx_conn st') = (tx_counter st, d) # cn_savepoints (tx_conn st)" "tx_began st'" for st' d
    using that by (simp add: sql_release_def)
  have pop: "pop_depth st' = st'\<lparr>tx_depth := tx_depth st\<rparr>" if "get_held_lock_depth st' = get_held_lock_depth st + 1" for st' :: "'a txn_state"
    using that depth by (simp add: pop_depth_def)
  have held: "get_held_lock_depth (st2\<lparr>tx_conn := c\<rparr>) = get_held_lock_depth st + 1" for c
    using d2 by (simp add: get_held_lock_depth_def)
  show ?thesis
  proof (cases ok)
    case True
    then show ?thesis using frame st1
      by (simp add: rel[OF sp began] pop[OF held]) (simp add: same_frame_def)
  next
    case False
    have undo: "sql_rollback_to (tx_counter st) (tx_conn st2) = Some ((tx_conn st2)\<lparr>cn_current := cn_current (tx_conn st),
        cn_savepoints := (tx_counter st, cn_current (tx_conn st)) # cn_savepoints (tx_conn st)\<rparr>)"
      by (simp add: sql_rollback_to_def sp)
    show ?thesis using frame st1 False
      by (simp add: undo rel began pop held) (simp add: same_frame_def)
  qed
qed

lemma exec_inside:
  "exec busy ss st = (st', ok) \<Longrightarrow> inside st \<Longrightarrow>
     same_frame st st' \<and> nested ss (cn_current (tx_conn st)) = (cn_current (tx_conn st'), ok)"
proof (induction busy ss st arbitrary: st' ok rule: exec.induct)
  case (1 busy st)
  then show ?case by (auto intro: same_frame_refl)
next
  case (2 busy f ss st)
  let ?st1 = "st\<lparr>tx_conn := sql_write f (tx_conn st)\<rparr>"
  have c: "cn_current (tx_conn ?st1) = f (cn_current (tx_conn st))" and frame: "same_frame st ?st1"
    using "2.prems"(2) by (auto simp: sql_write_def Let_def same_frame_def inside_def)
  with "2.IH"[OF _ inside_frame[OF "2.prems"(2) frame], of st' ok] "2.prems"(1) show ?case
    by (auto intro: same_frame_trans)
next
  case (3 busy ss st)
  then show ?case by (auto intro: same_frame_refl)
next
  case (4 busy body ss st)
  obtain st1 where e: "enter_transaction busy st = (st1, Some (Inner (tx_counter st)))" "inside st1"
    and cur: "cn_current (tx_conn st1) = cn_current (tx_conn st)"
    and st1: "cn_committed (tx_conn st1) = cn_committed (tx_conn st)"
      "cn_savepoints (tx_conn st1) = (tx_counter st, cn_current (tx_conn st)) # cn_savepoints (tx_conn st)"
      "tx_depth st1 = Some (get_held_lock_depth st + 1)" "tx_lock st1 = tx_lock st" "tx_counter st1 = tx_counter st + 1"
    using enter_inside[OF "4.prems"(2), of busy] by blast
  obtain st2 ok2 where b: "exec busy body st1 = (st2, ok2)" by fastforce
  from "4.IH"(1)[OF e(1)[symmetric] refl b e(2)] have body: "same_frame st1 st2"
    "nested body (cn_current (tx_conn st)) = (cn_current (tx_conn st2), ok2)" by (simp_all add: cur)
  from leave_inside[OF "4.prems"(2) st1 body(1), of busy ok2] obtain st3 where
    l: "leave_transaction busy (Inner (tx_counter st)) ok2 st2 = (st3, ok2)" "same_frame st st3"
      "cn_current (tx_conn st3) = (if ok2 then cn_current (tx_conn st2) else cn_current (tx_conn st))" by blast
  show ?case
  proof (cases ok2)
    case True
    with "4.prems"(1) e(1) b l(1) have rest: "exec busy ss st3 = (st', ok)" by simp
    from "4.IH"(2)[OF e(1)[symmetric] refl b[symmetric] l(1)[symmetric] True rest inside_frame[OF "4.prems"(2) l(2)]]
    have "same_frame st3 st'" "nested ss (cn_current (tx_conn st3)) = (cn_current (tx_conn st'), ok)" by auto
    with l(2,3) True body(2) show ?thesis by (auto intro: same_frame_trans)
  next
    case False
    with "4.prems"(1) e(1) b l body(2) show ?thesis by auto
  qed
next
  case (5 busy body ss st)
  obtain st1 where e: "enter_transaction busy st = (st1, Some (Inner (tx_counter st)))" "inside st1"
    and cur: "cn_current (tx_conn st1) = cn_current (tx_conn st)"
    and st1: "cn_committed (tx_conn st1) = cn_committed (tx_conn st)"
      "cn_savepoints (tx_conn st1) = (tx_counter st, cn_current (tx_conn st)) # cn_savepoints (tx_conn st)"
      "tx_depth st1 = Some (get_held_lock_depth st + 1)" "tx_lock st1 = tx_lock st" "tx_counter st1 = tx_counter st + 1"
    using enter_inside[OF "5.prems"(2), of busy] by blast
  obtain st2 ok2 where b: "exec busy body st1 = (st2, ok2)" by fastforce
  from "5.IH"(2)[OF e(1)[symmetric] refl b e(2)] have body: "same_frame st1 st2"
    "nested body (cn_current (tx_conn st)) = (cn_current (tx_conn st2), ok2)" by (simp_all add: cur)
  from leave_inside[OF "5.prems"(2) st1 body(1), of busy ok2] obtain st3 where
    l: "leave_transaction busy (Inner (tx_counter st)) ok2 st2 = (st3, ok2)" "same_frame st st3"
      "cn_current (tx_conn st3) = (if ok2 then cn_current (tx_conn st2) else cn_current (tx_conn st))" by blast
  have rest: "exec busy ss st3 = (st', ok)" using "5.prems"(1) e(1) b l(1) by simp
  from "5.IH"(3)[OF e(1)[symmetric] refl b[symmetric] l(1)[symmetric] rest inside_frame[OF "5.prems"(2) l(2)]]
  have "same_frame st3 st'" "nested ss (cn_current (tx_conn st3)) = (cn_current (tx_conn st'), ok)" by auto
  with l(2,3) body(2) show ?case by (auto intro: same_frame_trans)
qed

subsection \<open>The outermost call\<close>

text \<open>Between calls: no transaction of the wrapper is open, and the thread holds nothing.\<close>

definition idle :: "'d txn_state \<Rightarrow> bool" where
  "idle st \<longleftrightarrow> tx_depth st = None \<and> tx_lock st = 0 \<and> \<not> cn_in_transaction (tx_conn st)
     \<and> cn_savepoints (tx_conn st) = [] \<and> cn_committed (tx_conn st) = cn_current (tx_conn st)"


text \<open>A transaction that could not begin leaves the thread marked. When the database is busy at the start of a call,
  the call raises, and its depth stays in the thread's table: the next call of the thread takes no lock, asks
  for no transaction mode and works under a savepoint alone, and so do all calls after it.\<close>

theorem failed_begin_skips_lock:
  assumes "idle st" "busy (tx_tick st)" "with_database_transaction busy body st = (st1, ok)"
  shows "\<not> ok \<and> tx_lock st1 = 0 \<and> get_held_lock_depth st1 = 1
    \<and> (\<exists>st2. enter_transaction busy st1 = (st2, Some (Inner (tx_counter st1))) \<and> tx_lock st2 = 0 \<and> tx_tick st2 = tx_tick st1)"
  using assms
  by (auto simp: with_database_transaction_def enter_transaction_def idle_def get_held_lock_depth_def Let_def
      split: option.splits)

subsection \<open>Concrete runs\<close>

definition idle_at :: "'d \<Rightarrow> 'd txn_state" where
  "idle_at d = \<lparr>tx_conn = \<lparr>cn_committed = d, cn_current = d, cn_in_transaction = False, cn_savepoints = []\<rparr>,
     tx_began = False, tx_depth = None, tx_counter = 1, tx_lock = 0, tx_tick = 0\<rparr>"


theorem failed_begin_skips_lock_witness:
  "get_held_lock_depth (fst (with_database_transaction (\<lambda>t. t = 0) [Write (\<lambda>d. d + 2)] (idle_at (0 :: int)))) = 1"
proof -
  obtain st' ok where run: "with_database_transaction (\<lambda>t. t = 0) [Write (\<lambda>d. d + 2)] (idle_at (0 :: int)) = (st', ok)" by fastforce
  have "idle (idle_at (0 :: int))" by (simp add: idle_at_def idle_def)
  from failed_begin_skips_lock[OF this _ run] run show ?thesis by (simp add: idle_at_def)
qed

end
