(* ===== verification/Worker_Loop.thy ===== *)
theory Worker_Loop
  imports Lcm_Prelude "HOL-Library.Multiset"
begin

text \<open>
  The background loop of \<open>concurrency/worker_loop.py\<close>: one sleeping task per job, which starts a run of its job each
  time the interval is over unless the last run is still going. The event loop runs one piece of code at a time,
  from one \<open>await\<close> to the next; such a piece is a step. Tasks have numbers; \<open>wl_tasks\<close> holds for each run its kind
  and whether it is done, \<open>wl_timers\<close> the sleeping tasks with the generation they belong to, \<open>wl_waiters\<close> the
  callers of \<open>run_once\<close> that wait for their run, \<open>wl_completed\<close> what the callback was told.
\<close>

subsection \<open>State\<close>

record worker_job =
  wj_kind :: string
  wj_interval :: real

record worker_loop =
  wl_jobs :: "worker_job list"
  wl_running :: bool
  wl_generation :: nat
  wl_timers :: "(string \<times> nat) list"
  wl_in_flight :: "string \<rightharpoonup> nat"
  wl_tasks :: "(string \<times> bool) list"
  wl_waiters :: "(string \<times> nat) list"
  wl_completed :: "(string \<times> bool) list"

datatype loop_error = Duplicate_Kind string | Invalid_Interval string | No_Such_Job string | Already_In_Flight string

fun validate_jobs :: "string list \<Rightarrow> worker_job list \<Rightarrow> loop_error option" where
  "validate_jobs seen [] = None"
| "validate_jobs seen (j # js) =
     (if wj_kind j \<in> set seen then Some (Duplicate_Kind (wj_kind j))
      else if \<not> 0 < wj_interval j then Some (Invalid_Interval (wj_kind j))
      else validate_jobs (wj_kind j # seen) js)"

definition new_loop :: "worker_job list \<Rightarrow> loop_error + worker_loop" where
  "new_loop jobs = (case validate_jobs [] jobs of Some e \<Rightarrow> Inl e
     | None \<Rightarrow> Inr \<lparr>wl_jobs = jobs, wl_running = False, wl_generation = 0, wl_timers = [], wl_in_flight = Map.empty,
         wl_tasks = [], wl_waiters = [], wl_completed = []\<rparr>)"

subsection \<open>Steps\<close>

definition task_done :: "worker_loop \<Rightarrow> nat \<Rightarrow> bool" where
  "task_done st i \<longleftrightarrow> snd (wl_tasks st ! i)"

definition in_flight_now :: "worker_loop \<Rightarrow> string \<Rightarrow> bool" where
  "in_flight_now st k \<longleftrightarrow> (case wl_in_flight st k of None \<Rightarrow> False | Some i \<Rightarrow> \<not> task_done st i)"

definition start_loop :: "worker_loop \<Rightarrow> worker_loop \<times> bool" where
  "start_loop st =
     (if wl_running st then (st, False)
      else (st\<lparr>wl_running := True, wl_generation := wl_generation st + 1,
               wl_timers := wl_timers st @ map (\<lambda>j. (wj_kind j, wl_generation st + 1)) (wl_jobs st)\<rparr>, True))"

text \<open>The call of \<open>stop\<close> up to its wait, with the runs it waits for; when it goes on, it answers whether they ended.\<close>

definition stop_loop :: "worker_loop \<Rightarrow> worker_loop \<times> nat list" where
  "stop_loop st =
     (if \<not> wl_running st then (st, [])
      else let st1 = st\<lparr>wl_running := False, wl_timers := []\<rparr> in
        (st1, filter (\<lambda>i. i \<in> ran (wl_in_flight st1) \<and> \<not> task_done st1 i) [0..<length (wl_tasks st1)]))"

definition stop_answer :: "nat list \<Rightarrow> worker_loop \<Rightarrow> bool" where
  "stop_answer waited st \<longleftrightarrow> list_all (task_done st) waited"

definition begin_run :: "string \<Rightarrow> worker_loop \<Rightarrow> worker_loop" where
  "begin_run k st = st\<lparr>wl_tasks := wl_tasks st @ [(k, False)], wl_in_flight := (wl_in_flight st)(k \<mapsto> length (wl_tasks st))\<rparr>"

text \<open>A sleeping task wakes up.\<close>

definition timer_fires :: "string \<times> nat \<Rightarrow> worker_loop \<Rightarrow> worker_loop" where
  "timer_fires t st =
     (if \<not> wl_running st \<or> wl_generation st \<noteq> snd t then st\<lparr>wl_timers := filter (\<lambda>u. u \<noteq> t) (wl_timers st)\<rparr>
      else if in_flight_now st (fst t) then st
      else begin_run (fst t) st)"

text \<open>A run ends, with a result or with an exception, which is caught; an exception of the callback is dropped.\<close>

definition run_ends :: "nat \<Rightarrow> bool \<Rightarrow> worker_loop \<Rightarrow> worker_loop" where
  "run_ends i ok st = st\<lparr>wl_tasks := (wl_tasks st)[i := (fst (wl_tasks st ! i), True)],
     wl_completed := wl_completed st @ [(fst (wl_tasks st ! i), ok)]\<rparr>"

definition run_once :: "string \<Rightarrow> worker_loop \<Rightarrow> worker_loop \<times> loop_error option" where
  "run_once k st =
     (if k \<notin> wj_kind ` set (wl_jobs st) then (st, Some (No_Such_Job k))
      else if in_flight_now st k then (st, Some (Already_In_Flight k))
      else (let st1 = begin_run k st in st1\<lparr>wl_waiters := (k, length (wl_tasks st)) # wl_waiters st1\<rparr>, None))"

definition run_once_returns :: "string \<times> nat \<Rightarrow> worker_loop \<Rightarrow> worker_loop" where
  "run_once_returns w st = st\<lparr>wl_waiters := remove1 w (wl_waiters st),
     wl_in_flight := (if wl_in_flight st (fst w) = Some (snd w) then (wl_in_flight st)(fst w := None) else wl_in_flight st)\<rparr>"

definition in_flight_count :: "worker_loop \<Rightarrow> nat" where
  "in_flight_count st = length (filter (\<lambda>i. i \<in> ran (wl_in_flight st) \<and> \<not> task_done st i) [0..<length (wl_tasks st)])"

inductive loop_step :: "worker_loop \<Rightarrow> worker_loop \<Rightarrow> bool" where
  start: "loop_step st (fst (start_loop st))"
| stop: "loop_step st (fst (stop_loop st))"
| fire: "t \<in> set (wl_timers st) \<Longrightarrow> loop_step st (timer_fires t st)"
| ends: "i < length (wl_tasks st) \<Longrightarrow> \<not> task_done st i \<Longrightarrow> loop_step st (run_ends i ok st)"
| once: "loop_step st (fst (run_once k st))"
| returns: "w \<in> set (wl_waiters st) \<Longrightarrow> task_done st (snd w) \<Longrightarrow> loop_step st (run_once_returns w st)"

inductive loop_reachable :: "worker_job list \<Rightarrow> worker_loop \<Rightarrow> bool" for jobs where
  new: "new_loop jobs = Inr st \<Longrightarrow> loop_reachable jobs st"
| step: "loop_reachable jobs st \<Longrightarrow> loop_step st st' \<Longrightarrow> loop_reachable jobs st'"

subsection \<open>The invariant\<close>

text \<open>Every run that is going is the one in flight for its kind, the timers are those of the current generation, and the
  callback was told of each ended run.\<close>

definition loop_ok :: "worker_job list \<Rightarrow> worker_loop \<Rightarrow> bool" where
  "loop_ok jobs st \<longleftrightarrow> wl_jobs st = jobs
     \<and> (\<forall>i < length (wl_tasks st). \<not> task_done st i \<longrightarrow> wl_in_flight st (fst (wl_tasks st ! i)) = Some i)
     \<and> (\<forall>k i. wl_in_flight st k = Some i \<longrightarrow> i < length (wl_tasks st) \<and> fst (wl_tasks st ! i) = k)
     \<and> (\<forall>w \<in> set (wl_waiters st). snd w < length (wl_tasks st))
     \<and> wl_timers st = (if wl_running st then map (\<lambda>j. (wj_kind j, wl_generation st)) jobs else [])
     \<and> mset (map fst (wl_completed st)) = mset (map fst (filter snd (wl_tasks st)))"

lemma going_in_flight:
  "loop_ok jobs st \<Longrightarrow> i < length (wl_tasks st) \<Longrightarrow> \<not> task_done st i \<Longrightarrow> wl_in_flight st (fst (wl_tasks st ! i)) = Some i"
  unfolding loop_ok_def by (elim conjE) blast

lemma in_flight_task:
  "loop_ok jobs st \<Longrightarrow> wl_in_flight st k = Some i \<Longrightarrow> i < length (wl_tasks st) \<and> fst (wl_tasks st ! i) = k"
  unfolding loop_ok_def by (elim conjE) blast

lemma loop_ok_parts:
  assumes "loop_ok jobs st"
  shows "wl_jobs st = jobs"
    and "wl_timers st = (if wl_running st then map (\<lambda>j. (wj_kind j, wl_generation st)) jobs else [])"
    and "mset (map fst (wl_completed st)) = mset (map fst (filter snd (wl_tasks st)))"
    and "\<forall>w \<in> set (wl_waiters st). snd w < length (wl_tasks st)"
  using assms unfolding loop_ok_def by - (elim conjE, assumption)+

lemma begin_run_ok:
  assumes "loop_ok jobs st" "\<not> in_flight_now st k"
  shows "loop_ok jobs (begin_run k st)"
proof -
  let ?st = "begin_run k st" and ?n = "length (wl_tasks st)"
  have old: "task_done ?st i = task_done st i" "wl_tasks ?st ! i = wl_tasks st ! i" if "i < ?n" for i
    using that by (simp_all add: task_done_def begin_run_def nth_append)
  have new: "wl_tasks ?st ! ?n = (k, False)" "length (wl_tasks ?st) = Suc ?n" by (simp_all add: begin_run_def)
  have fl: "wl_in_flight ?st k' = (if k' = k then Some ?n else wl_in_flight st k')" for k' by (simp add: begin_run_def)
  have free: "fst (wl_tasks st ! i) \<noteq> k" if "i < ?n" "\<not> task_done st i" for i
  proof
    assume "fst (wl_tasks st ! i) = k"
    with that assms(1) have "wl_in_flight st k = Some i" by (auto simp: loop_ok_def)
    with that(2) assms(2) show False by (simp add: in_flight_now_def)
  qed
  have "\<not> task_done ?st i \<longrightarrow> wl_in_flight ?st (fst (wl_tasks ?st ! i)) = Some i" if "i < length (wl_tasks ?st)" for i
  proof (cases "i < ?n")
    case True
    then show ?thesis using free[OF True] assms(1) by (simp add: old fl loop_ok_def)
  next
    case False
    with that have "i = ?n" by (simp add: new(2))
    then show ?thesis by (simp only: new(1) fl fst_conv simp_thms if_True)
  qed
  moreover have "i < length (wl_tasks ?st) \<and> fst (wl_tasks ?st ! i) = k'" if "wl_in_flight ?st k' = Some i" for k' i
  proof (cases "k' = k")
    case True
    with that have "i = ?n" by (simp add: fl)
    with True show ?thesis by (simp only: new fst_conv) simp
  next
    case False
    with that assms(1) have "i < ?n" "fst (wl_tasks st ! i) = k'" by (auto simp: fl loop_ok_def)
    then show ?thesis by (simp add: old new)
  qed
  moreover have "\<forall>w \<in> set (wl_waiters ?st). snd w < length (wl_tasks ?st)"
    using assms(1) by (auto simp: loop_ok_def begin_run_def)
  ultimately show ?thesis
    using assms(1) unfolding loop_ok_def by (simp add: begin_run_def)
qed

lemma run_ends_ok:
  assumes ok: "loop_ok jobs st" and i: "i < length (wl_tasks st)" "\<not> task_done st i"
  shows "loop_ok jobs (run_ends i b st)"
proof -
  let ?t = "wl_tasks st"
  have ti: "?t ! i = (fst (?t ! i), False)" using i(2) by (simp add: task_done_def prod_eq_iff)
  have split: "?t = take i ?t @ ?t ! i # drop (Suc i) ?t" using i(1) by (simp add: id_take_nth_drop[symmetric])
  have "mset (map fst (filter snd (?t[i := (fst (?t ! i), True)]))) = add_mset (fst (?t ! i)) (mset (map fst (filter snd ?t)))"
  proof -
    have "filter snd (?t[i := (fst (?t ! i), True)]) = filter snd (take i ?t) @ (fst (?t ! i), True) # filter snd (drop (Suc i) ?t)"
      using i(1) by (simp add: upd_conv_take_nth_drop)
    moreover have "filter snd ?t = filter snd (take i ?t) @ filter snd (drop (Suc i) ?t)"
      by (subst (1) split, subst ti) simp
    ultimately show ?thesis by simp
  qed
  then show ?thesis
    using ok i by (auto simp: loop_ok_def run_ends_def task_done_def nth_list_update)
qed

lemma step_ok:
  assumes "loop_step st st'" "loop_ok jobs st"
  shows "loop_ok jobs st'"
  using assms
proof cases
  case start
  with assms(2) show ?thesis by (auto simp: start_loop_def loop_ok_def task_done_def)
next
  case stop
  with assms(2) show ?thesis by (auto simp: stop_loop_def loop_ok_def task_done_def Let_def)
next
  case (fire t)
  show ?thesis
  proof (cases "wl_running st \<and> wl_generation st = snd t")
    case True
    with fire assms(2) show ?thesis by (auto simp: timer_fires_def intro: begin_run_ok)
  next
    case False
    with fire assms(2) show ?thesis by (auto simp: loop_ok_def split: if_splits)
  qed
next
  case (ends i b)
  with assms(2) show ?thesis by (auto intro: run_ends_ok)
next
  case (once k)
  show ?thesis
  proof (cases "k \<in> wj_kind ` set (wl_jobs st) \<and> \<not> in_flight_now st k")
    case True
    with begin_run_ok[OF assms(2), of k] have "loop_ok jobs (begin_run k st)" by simp
    with once True show ?thesis by (auto simp: run_once_def Let_def loop_ok_def task_done_def begin_run_def)
  next
    case False
    with once assms(2) show ?thesis by (auto simp: run_once_def)
  qed
next
  case (returns w)
  have "wl_in_flight st (fst w) \<noteq> Some (snd w)"
    if "i < length (wl_tasks st)" "\<not> task_done st i" "fst w = fst (wl_tasks st ! i)" for i
  proof
    assume "wl_in_flight st (fst w) = Some (snd w)"
    with going_in_flight[OF assms(2) that(1,2)] that(3) have "snd w = i" by simp
    with that(2) returns(3) show False by simp
  qed
  then have fl: "wl_in_flight (run_once_returns w st) (fst (wl_tasks st ! i)) = Some i"
    if "i < length (wl_tasks st)" "\<not> task_done st i" for i
    using that going_in_flight[OF assms(2) that] by (simp add: run_once_returns_def) metis
  have sub: "wl_in_flight (run_once_returns w st) k = Some i \<Longrightarrow> wl_in_flight st k = Some i" for k i
    by (auto simp: run_once_returns_def split: if_splits)
  have waits: "set (wl_waiters (run_once_returns w st)) \<subseteq> set (wl_waiters st)"
    by (simp add: run_once_returns_def set_remove1_subset)
  have tasks: "wl_tasks (run_once_returns w st) = wl_tasks st" "task_done (run_once_returns w st) = task_done st"
    by (simp_all add: run_once_returns_def task_done_def fun_eq_iff)
  have rest: "wl_jobs (run_once_returns w st) = wl_jobs st" "wl_timers (run_once_returns w st) = wl_timers st"
    "wl_running (run_once_returns w st) = wl_running st" "wl_generation (run_once_returns w st) = wl_generation st"
    "wl_completed (run_once_returns w st) = wl_completed st" by (simp_all add: run_once_returns_def)
  note ok = loop_ok_parts[OF assms(2)]
  show ?thesis unfolding returns(1) loop_ok_def tasks rest
  proof (intro conjI)
    show "\<forall>i < length (wl_tasks st). \<not> task_done st i \<longrightarrow> wl_in_flight (run_once_returns w st) (fst (wl_tasks st ! i)) = Some i"
      using fl by blast
    show "\<forall>k i. wl_in_flight (run_once_returns w st) k = Some i \<longrightarrow> i < length (wl_tasks st) \<and> fst (wl_tasks st ! i) = k"
      using in_flight_task[OF assms(2)] sub by blast
    show "\<forall>w \<in> set (wl_waiters (run_once_returns w st)). snd w < length (wl_tasks st)" using ok(4) waits by blast
  qed (rule ok)+
qed

lemma reachable_ok: "loop_reachable jobs st \<Longrightarrow> loop_ok jobs st"
proof (induction rule: loop_reachable.induct)
  case (new st)
  then show ?case by (auto simp: new_loop_def loop_ok_def split: option.splits)
next
  case (step st st')
  then show ?case by (auto intro: step_ok)
qed

lemma runs_of_timers:
  assumes "loop_reachable jobs st" "wl_running st"
  shows "map fst (wl_timers st) = map wj_kind jobs \<and> distinct (map fst (wl_timers st))"
proof -
  have valid: "validate_jobs seen js = None \<Longrightarrow> distinct (map wj_kind js) \<and> set (map wj_kind js) \<inter> set seen = {}" for seen js
    by (induction seen js rule: validate_jobs.induct) (auto split: if_splits)
  have "distinct (map wj_kind jobs)"
    using assms(1) by (induction rule: loop_reachable.induct) (auto simp: new_loop_def dest: valid split: option.splits)
  moreover have "wl_timers st = map (\<lambda>j. (wj_kind j, wl_generation st)) jobs"
    using reachable_ok[OF assms(1)] assms(2) by (simp add: loop_ok_def)
  ultimately show ?thesis by (simp add: comp_def)
qed

text \<open>C26. Runs of a job do not overlap. However timers fire, runs end, and callers start and stop the loop or ask for a
  run at once, two runs of one kind that are going are the same run; a running loop has exactly one timer
  per job, also after it was stopped and started again; a stopped one has none; and the callback is told
  of each ended run once.\<close>

theorem worker_runs_exclusive:
  assumes "loop_reachable jobs st"
  shows "(\<forall>i j. i < length (wl_tasks st) \<and> j < length (wl_tasks st) \<and> \<not> task_done st i \<and> \<not> task_done st j
        \<and> fst (wl_tasks st ! i) = fst (wl_tasks st ! j) \<longrightarrow> i = j)
    \<and> wl_timers st = (if wl_running st then map (\<lambda>j. (wj_kind j, wl_generation st)) jobs else [])
    \<and> mset (map fst (wl_completed st)) = mset (map fst (filter snd (wl_tasks st)))"
proof -
  note ok = loop_ok_parts[OF reachable_ok[OF assms]]
  have uniq: "i = j" if "i < length (wl_tasks st)" "j < length (wl_tasks st)" "\<not> task_done st i" "\<not> task_done st j"
    "fst (wl_tasks st ! i) = fst (wl_tasks st ! j)" for i j
  proof -
    have "Some i = wl_in_flight st (fst (wl_tasks st ! i))" by (rule going_in_flight[OF reachable_ok[OF assms] that(1,3), symmetric])
    also have "\<dots> = wl_in_flight st (fst (wl_tasks st ! j))" by (rule arg_cong[OF that(5)])
    also have "\<dots> = Some j" by (rule going_in_flight[OF reachable_ok[OF assms] that(2,4)])
    finally show ?thesis by (rule option.inject[THEN iffD1])
  qed
  have "\<forall>i j. i < length (wl_tasks st) \<and> j < length (wl_tasks st) \<and> \<not> task_done st i \<and> \<not> task_done st j
        \<and> fst (wl_tasks st ! i) = fst (wl_tasks st ! j) \<longrightarrow> i = j"
    by (intro allI impI, elim conjE, rule uniq)
  then show ?thesis by (intro conjI ok)
qed

text \<open>A stopped loop starts nothing by itself.\<close>

inductive quiet_run :: "worker_loop \<Rightarrow> worker_loop \<Rightarrow> bool" where
  quiet_refl: "quiet_run st st"
| quiet_fire: "quiet_run st st1 \<Longrightarrow> t \<in> set (wl_timers st1) \<Longrightarrow> quiet_run st (timer_fires t st1)"
| quiet_ends: "quiet_run st st1 \<Longrightarrow> i < length (wl_tasks st1) \<Longrightarrow> \<not> task_done st1 i \<Longrightarrow> quiet_run st (run_ends i ok st1)"
| quiet_returns: "quiet_run st st1 \<Longrightarrow> w \<in> set (wl_waiters st1) \<Longrightarrow> quiet_run st (run_once_returns w st1)"

lemma quiet_after_stop:
  assumes "quiet_run st st'" "\<not> wl_running st" "wl_timers st = []"
  shows "length (wl_tasks st') = length (wl_tasks st) \<and> \<not> wl_running st' \<and> wl_timers st' = []"
  using assms
  by (induction rule: quiet_run.induct) (auto simp: run_ends_def run_once_returns_def)

lemma quiet_done:
  assumes "quiet_run st st'" "i < length (wl_tasks st)" "task_done st i"
  shows "i < length (wl_tasks st') \<and> task_done st' i"
  using assms
  by (induction rule: quiet_run.induct)
    (auto simp: timer_fires_def run_ends_def run_once_returns_def task_done_def begin_run_def nth_append nth_list_update)

text \<open>A stopped loop comes to rest. After \<open>stop\<close>, as long as nobody starts the loop again or asks for a run, no
  further run begins, whatever the tasks do that are left, and \<open>stop\<close> answers yes exactly when all the runs
  that were going when it was called have ended.\<close>

theorem stopped_loop_rests:
  assumes "loop_reachable jobs st" "stop_loop st = (st1, waited)" "quiet_run st1 st2"
  shows "length (wl_tasks st2) = length (wl_tasks st)
    \<and> (wl_running st \<longrightarrow> (stop_answer waited st2 \<longleftrightarrow> (\<forall>i < length (wl_tasks st2). task_done st2 i)))"
proof -
  note ok = reachable_ok[OF assms(1)]
  have st1: "\<not> wl_running st1" "wl_timers st1 = []" "wl_tasks st1 = wl_tasks st" "wl_in_flight st1 = wl_in_flight st"
    using assms(2) ok by (auto simp: stop_loop_def Let_def loop_ok_def split: if_splits)
  have len: "length (wl_tasks st2) = length (wl_tasks st)"
    using quiet_after_stop[OF assms(3) st1(1,2)] st1(3) by simp
  have stays: "task_done st1 i \<longrightarrow> task_done st2 i" if "i < length (wl_tasks st)" for i
    using quiet_done[OF assms(3), of i] that st1(3) by simp
  have "stop_answer waited st2 \<longleftrightarrow> (\<forall>i < length (wl_tasks st2). task_done st2 i)" if "wl_running st"
  proof -
    have w: "set waited = {i. i < length (wl_tasks st1) \<and> i \<in> ran (wl_in_flight st1) \<and> \<not> task_done st1 i}"
      using assms(2) that by (auto simp: stop_loop_def Let_def)
    also have "\<dots> = {i. i < length (wl_tasks st) \<and> \<not> task_done st1 i}"
      using ok by (auto simp: loop_ok_def st1 task_done_def ran_def)
    finally show ?thesis using stays len by (auto simp: stop_answer_def list_all_iff)
  qed
  with len show ?thesis by simp
qed

subsection \<open>A concrete loop\<close>

definition sample_loop :: worker_loop where
  "sample_loop = \<lparr>wl_jobs = [\<lparr>wj_kind = ''a'', wj_interval = 2\<rparr>], wl_running = True, wl_generation = 1,
     wl_timers = [(''a'', 1)], wl_in_flight = [''a'' \<mapsto> 0], wl_tasks = [(''a'', False)], wl_waiters = [], wl_completed = []\<rparr>"

lemma sample_loop_reachable: "loop_reachable [\<lparr>wj_kind = ''a'', wj_interval = 2\<rparr>] sample_loop"
proof -
  let ?jobs = "[\<lparr>wj_kind = ''a'', wj_interval = 2\<rparr>]"
  obtain st0 where new: "new_loop ?jobs = Inr st0" by (simp add: new_loop_def)
  let ?st1 = "fst (start_loop st0)"
  have st1: "loop_reachable ?jobs ?st1" by (rule loop_reachable.step[OF loop_reachable.new[OF new] loop_step.start])
  have t: "(''a'', 1) \<in> set (wl_timers ?st1)" using new by (auto simp: new_loop_def start_loop_def)
  have "timer_fires (''a'', 1) ?st1 = sample_loop"
    using new by (auto simp: new_loop_def start_loop_def timer_fires_def in_flight_now_def begin_run_def sample_loop_def)
  with loop_reachable.step[OF st1 loop_step.fire[OF t]] show ?thesis by simp
qed

theorem worker_runs_exclusive_witness:
  "wl_tasks (timer_fires (''a'', 1) sample_loop) = [(''a'', False)]
    \<and> wl_timers (timer_fires (''a'', 1) sample_loop) = [(''a'', 1)]"
proof -
  have "(''a'', 1) \<in> set (wl_timers sample_loop)" by (simp add: sample_loop_def)
  from worker_runs_exclusive[OF loop_reachable.step[OF sample_loop_reachable loop_step.fire[OF this]]]
  show ?thesis by (simp add: timer_fires_def sample_loop_def in_flight_now_def task_done_def)
qed

theorem stopped_loop_rests_witness:
  "snd (stop_loop sample_loop) = [0] \<and> \<not> stop_answer [0] (fst (stop_loop sample_loop))
    \<and> stop_answer [0] (run_ends 0 True (fst (stop_loop sample_loop)))"
proof -
  obtain st1 waited where stop: "stop_loop sample_loop = (st1, waited)" by fastforce
  then have st1: "waited = [0]" "wl_tasks st1 = [(''a'', False)]"
    by (auto simp: stop_loop_def sample_loop_def task_done_def ran_def)
  have run: "wl_running sample_loop" by (simp add: sample_loop_def)
  note rests = stopped_loop_rests[OF sample_loop_reachable stop]
  have "quiet_run st1 (run_ends 0 True st1)"
    by (rule quiet_ends[OF quiet_refl]) (simp_all add: st1 task_done_def)
  from rests[OF this] run have "stop_answer [0] (run_ends 0 True st1)" by (simp add: st1 run_ends_def task_done_def)
  moreover from rests[OF quiet_refl] run have "\<not> stop_answer [0] st1"
    by (auto simp: st1 task_done_def dest: spec[of _ 0])
  ultimately show ?thesis by (simp add: stop st1(1))
qed

end
