(* ===== verification/Hybrid_Search.thy ===== *)
theory Hybrid_Search
  imports Media_Text
begin

text \<open>
  Hybrid search, \<open>embeddings/hybrid_search.py\<close>: the hits of the full-text arm and of the semantic arm are merged by
  summary, packed into the budget of one call of the reranker and ranked by it, or, where that is not asked for
  or fails, by reciprocal rank fusion. The answers of the two arms and of the reranker are arguments, a
  failure of the embedding service among them. The steps of a score are Python floats: \<open>fl\<close> is the rounding
  after each operation.
\<close>

subsection \<open>Hits\<close>

datatype summary_level = Level_Leaf | Level_Condensed

record fts_hit =
  fh_summary_id :: string
  fh_conversation_id :: int
  fh_session_key :: utext
  fh_kind :: summary_level
  fh_content :: utext
  fh_token_count :: int
  fh_created_at :: utext
  fh_rank :: nat

record semantic_hit =
  sh_summary_id :: string
  sh_distance :: real
  sh_cosine_similarity :: real
  sh_conversation_id :: int
  sh_session_key :: utext
  sh_kind :: summary_level
  sh_content :: utext
  sh_token_count :: int
  sh_created_at :: utext

record hybrid_hit =
  hh_summary_id :: string
  hh_conversation_id :: int
  hh_session_key :: utext
  hh_kind :: summary_level
  hh_content :: utext
  hh_token_count :: int
  hh_created_at :: utext
  hh_score :: real
  hh_from_fts :: bool
  hh_from_semantic :: bool
  hh_semantic_distance :: "real option"
  hh_cosine_similarity :: "real option"
  hh_fts_rank :: "nat option"

datatype voyage_kind = Voyage_Auth | Voyage_Other

record semantic_result =
  sm_hits :: "semantic_hit list"
  sm_tokens :: int
  sm_model :: utext

datatype semantic_outcome = Sem_Found semantic_result | Sem_Unavailable | Sem_Voyage_Error voyage_kind

record rerank_response =
  rr_results :: "(string \<times> real) list"
  rr_total_tokens :: int

datatype hybrid_error = Query_Required | Voyage_Error voyage_kind

record hybrid_result =
  hr_hits :: "hybrid_hit list"
  hr_candidate_count :: nat
  hr_voyage_tokens_consumed :: int
  hr_degraded_to_fts_only :: bool
  hr_degraded_skipped_rerank :: bool
  hr_rerank_pack_truncated :: bool
  hr_rerank_packed_count :: nat
  hr_model :: utext
  hr_reranker_model :: "utext option"

text \<open>What the caller gives: the reranker is \<open>None\<close> without a client.\<close>

record hybrid_request =
  hq_query :: "utext option"
  hq_top_n :: int
  hq_rerank :: bool
  hq_reranker_model :: utext
  hq_reranker :: "(utext \<Rightarrow> (string \<times> utext) list \<Rightarrow> int \<Rightarrow> voyage_kind + rerank_response) option"

subsection \<open>The arms and the merge\<close>

definition semantic_with_degrade :: "semantic_outcome \<Rightarrow> hybrid_error + semantic_result option" where
  "semantic_with_degrade outcome = (case outcome of
     Sem_Found r \<Rightarrow> Inr (Some r)
   | Sem_Unavailable \<Rightarrow> Inr None
   | Sem_Voyage_Error Voyage_Auth \<Rightarrow> Inl (Voyage_Error Voyage_Auth)
   | Sem_Voyage_Error Voyage_Other \<Rightarrow> Inr None)"

definition hit_of_fts :: "nat \<Rightarrow> fts_hit \<Rightarrow> hybrid_hit" where
  "hit_of_fts i f = \<lparr>hh_summary_id = fh_summary_id f, hh_conversation_id = fh_conversation_id f,
     hh_session_key = fh_session_key f, hh_kind = fh_kind f, hh_content = fh_content f,
     hh_token_count = fh_token_count f, hh_created_at = fh_created_at f, hh_score = 0, hh_from_fts = True,
     hh_from_semantic = False, hh_semantic_distance = None, hh_cosine_similarity = None, hh_fts_rank = Some i\<rparr>"

definition hit_of_semantic :: "semantic_hit \<Rightarrow> hybrid_hit" where
  "hit_of_semantic s = \<lparr>hh_summary_id = sh_summary_id s, hh_conversation_id = sh_conversation_id s,
     hh_session_key = sh_session_key s, hh_kind = sh_kind s, hh_content = sh_content s,
     hh_token_count = sh_token_count s, hh_created_at = sh_created_at s, hh_score = 0, hh_from_fts = False,
     hh_from_semantic = True, hh_semantic_distance = Some (sh_distance s),
     hh_cosine_similarity = Some (sh_cosine_similarity s), hh_fts_rank = None\<rparr>"

text \<open>The dictionary \<open>merged\<close>, in the order of its insertions: a key that is there keeps its place.\<close>

definition put_hit :: "hybrid_hit \<Rightarrow> hybrid_hit list \<Rightarrow> hybrid_hit list" where
  "put_hit h merged =
     (if hh_summary_id h \<in> hh_summary_id ` set merged
      then map (\<lambda>x. if hh_summary_id x = hh_summary_id h then h else x) merged
      else merged @ [h])"

definition add_semantic :: "semantic_hit \<Rightarrow> hybrid_hit list \<Rightarrow> hybrid_hit list" where
  "add_semantic s merged =
     (if sh_summary_id s \<in> hh_summary_id ` set merged
      then map (\<lambda>x. if hh_summary_id x = sh_summary_id s
          then x\<lparr>hh_from_semantic := True, hh_semantic_distance := Some (sh_distance s),
                 hh_cosine_similarity := Some (sh_cosine_similarity s)\<rparr>
          else x) merged
      else merged @ [hit_of_semantic s])"

definition merge_arms :: "fts_hit list \<Rightarrow> semantic_hit list \<Rightarrow> hybrid_hit list" where
  "merge_arms fts_hits sem_hits =
     fold add_semantic sem_hits (fold (\<lambda>(i, f). put_hit (hit_of_fts i f)) (enumerate 0 fts_hits) [])"

subsection \<open>Packing\<close>

definition rerank_budget :: int where "rerank_budget = 510000"

definition ceil_quarter :: "utext \<Rightarrow> int" where
  "ceil_quarter t = (int (length t) + 3) div 4"

definition candidate_tokens :: "hybrid_hit \<Rightarrow> int" where
  "candidate_tokens c = (if hh_token_count c \<noteq> 0 then hh_token_count c else ceil_quarter (hh_content c))"

fun pack_loop :: "int \<Rightarrow> hybrid_hit list \<Rightarrow> hybrid_hit list \<times> bool" where
  "pack_loop cumulative [] = ([], False)"
| "pack_loop cumulative (c # cs) =
     (if rerank_budget < candidate_tokens c then (fst (pack_loop cumulative cs), True)
      else if rerank_budget < cumulative + candidate_tokens c then ([], True)
      else case pack_loop (cumulative + candidate_tokens c) cs of (packed, truncated) \<Rightarrow> (c # packed, truncated))"

subsection \<open>Ranking\<close>

definition RRF_K :: nat where "RRF_K = 60"

definition apply_rerank :: "hybrid_hit list \<Rightarrow> (string \<times> real) list \<Rightarrow> hybrid_hit list" where
  "apply_rerank packed results = List.map_filter (\<lambda>(i, score).
     case List.find (\<lambda>c. hh_summary_id c = i) (rev packed) of
       None \<Rightarrow> None | Some c \<Rightarrow> Some (c\<lparr>hh_score := score\<rparr>)) results"

text \<open>\<open>{h.summary_id: i for i, h in enumerate(sem_hits)}\<close>: the last index of an id.\<close>

definition semantic_index :: "semantic_hit list \<Rightarrow> string \<Rightarrow> nat option" where
  "semantic_index sem_hits i = map_option fst (List.find (\<lambda>(_, h). sh_summary_id h = i) (rev (enumerate 0 sem_hits)))"

definition add_rank :: "(real \<Rightarrow> real) \<Rightarrow> nat option \<Rightarrow> real \<Rightarrow> real" where
  "add_rank fl rank score = (case rank of None \<Rightarrow> score | Some r \<Rightarrow> fl (score + fl (1 / real (RRF_K + r))))"

definition rrf_score :: "(real \<Rightarrow> real) \<Rightarrow> semantic_hit list \<Rightarrow> hybrid_hit \<Rightarrow> real" where
  "rrf_score fl sem_hits c =
     add_rank fl (if hh_from_semantic c then semantic_index sem_hits (hh_summary_id c) else None)
       (add_rank fl (hh_fts_rank c) 0)"

text \<open>\<open>list.sort(reverse=True)\<close> keeps the order of equal scores; a negative bound of a slice counts from the end.\<close>

definition rrf_rank :: "(real \<Rightarrow> real) \<Rightarrow> semantic_hit list \<Rightarrow> hybrid_hit list \<Rightarrow> hybrid_hit list" where
  "rrf_rank fl sem_hits candidates =
     sort_key (\<lambda>c. - hh_score c) (map (\<lambda>c. c\<lparr>hh_score := rrf_score fl sem_hits c\<rparr>) candidates)"

definition first_n :: "int \<Rightarrow> 'a list \<Rightarrow> 'a list" where
  "first_n n xs = take (nat (if n < 0 then int (length xs) + n else n)) xs"

definition run_hybrid_search ::
    "(real \<Rightarrow> real) \<Rightarrow> fts_hit list \<Rightarrow> semantic_outcome \<Rightarrow> hybrid_request \<Rightarrow> hybrid_error + hybrid_result" where
  "run_hybrid_search fl fts_hits outcome req =
     (let query_stripped = (case hq_query req of Some q \<Rightarrow> u_strip q | None \<Rightarrow> []) in
      if query_stripped = [] then Inl Query_Required
      else case semantic_with_degrade outcome of Inl e \<Rightarrow> Inl e
      | Inr sem_result \<Rightarrow>
        let sem_hits = (case sem_result of Some r \<Rightarrow> sm_hits r | None \<Rightarrow> []);
            tokens = (case sem_result of Some r \<Rightarrow> sm_tokens r | None \<Rightarrow> 0);
            model_name = (case sem_result of Some r \<Rightarrow> sm_model r | None \<Rightarrow> []);
            fts_only = (sem_result = None);
            candidates = merge_arms fts_hits sem_hits;
            (packed, truncated) = (if hq_rerank req then pack_loop (ceil_quarter query_stripped) candidates else (candidates, False));
            fused = (\<lambda>skipped. Inr \<lparr>hr_hits = first_n (hq_top_n req) (rrf_rank fl sem_hits candidates),
                hr_candidate_count = length candidates, hr_voyage_tokens_consumed = tokens,
                hr_degraded_to_fts_only = fts_only, hr_degraded_skipped_rerank = skipped,
                hr_rerank_pack_truncated = truncated, hr_rerank_packed_count = 0, hr_model = model_name,
                hr_reranker_model = None\<rparr>) in
        if candidates = [] then
          Inr \<lparr>hr_hits = [], hr_candidate_count = 0, hr_voyage_tokens_consumed = tokens,
            hr_degraded_to_fts_only = fts_only, hr_degraded_skipped_rerank = False,
            hr_rerank_pack_truncated = False, hr_rerank_packed_count = 0, hr_model = model_name,
            hr_reranker_model = None\<rparr>
        else if \<not> hq_rerank req then fused False
        else if packed = [] then fused True
        else (case hq_reranker req of None \<Rightarrow> fused True
          | Some rerank \<Rightarrow>
            (case rerank query_stripped (map (\<lambda>c. (hh_summary_id c, hh_content c)) packed)
                    (min (hq_top_n req) (int (length packed))) of
               Inl Voyage_Auth \<Rightarrow> Inl (Voyage_Error Voyage_Auth)
             | Inl Voyage_Other \<Rightarrow> fused True
             | Inr resp \<Rightarrow>
                 Inr \<lparr>hr_hits = apply_rerank packed (rr_results resp), hr_candidate_count = length candidates,
                   hr_voyage_tokens_consumed = tokens + rr_total_tokens resp, hr_degraded_to_fts_only = fts_only,
                   hr_degraded_skipped_rerank = False, hr_rerank_pack_truncated = truncated,
                   hr_rerank_packed_count = length packed, hr_model = model_name,
                   hr_reranker_model = Some (hq_reranker_model req)\<rparr>)))"

subsection \<open>The merge\<close>

lemma put_hit_ids: "distinct (map hh_summary_id m) \<Longrightarrow> distinct (map hh_summary_id (put_hit h m))"
  "hh_summary_id ` set (put_hit h m) = insert (hh_summary_id h) (hh_summary_id ` set m)"
proof -
  have same: "map hh_summary_id (map (\<lambda>x. if hh_summary_id x = hh_summary_id h then h else x) m) = map hh_summary_id m"
    by (induction m) auto
  show "distinct (map hh_summary_id m) \<Longrightarrow> distinct (map hh_summary_id (put_hit h m))"
    using same by (auto simp: put_hit_def simp del: map_map)
  show "hh_summary_id ` set (put_hit h m) = insert (hh_summary_id h) (hh_summary_id ` set m)"
    by (auto simp: put_hit_def image_iff)
qed

lemma add_semantic_ids: "distinct (map hh_summary_id m) \<Longrightarrow> distinct (map hh_summary_id (add_semantic s m))"
  "hh_summary_id ` set (add_semantic s m) = insert (sh_summary_id s) (hh_summary_id ` set m)"
proof -
  let ?f = "\<lambda>x. if hh_summary_id x = sh_summary_id s
          then x\<lparr>hh_from_semantic := True, hh_semantic_distance := Some (sh_distance s),
                 hh_cosine_similarity := Some (sh_cosine_similarity s)\<rparr> else x"
  have same: "map hh_summary_id (map ?f m) = map hh_summary_id m" by simp
  show "distinct (map hh_summary_id m) \<Longrightarrow> distinct (map hh_summary_id (add_semantic s m))"
    using same by (auto simp: add_semantic_def hit_of_semantic_def simp del: map_map)
  have "hh_summary_id ` set (map ?f m) = hh_summary_id ` set m" by (metis same set_map)
  then show "hh_summary_id ` set (add_semantic s m) = insert (sh_summary_id s) (hh_summary_id ` set m)"
    by (auto simp: add_semantic_def hit_of_semantic_def simp del: set_map)
qed

lemma merged_fts:
  "distinct (map hh_summary_id m) \<Longrightarrow>
    distinct (map hh_summary_id (fold (\<lambda>(i, f). put_hit (hit_of_fts i f)) (enumerate n fs) m))
    \<and> hh_summary_id ` set (fold (\<lambda>(i, f). put_hit (hit_of_fts i f)) (enumerate n fs) m)
      = hh_summary_id ` set m \<union> fh_summary_id ` set fs"
proof (induction fs arbitrary: n m)
  case (Cons f fs)
  have "distinct (map hh_summary_id (put_hit (hit_of_fts n f) m))" by (rule put_hit_ids(1)[OF Cons.prems])
  from Cons.IH[OF this, of "Suc n"] show ?case by (auto simp: put_hit_ids(2)) (simp_all add: hit_of_fts_def)
qed simp

lemma merged_semantic:
  "distinct (map hh_summary_id m) \<Longrightarrow>
    distinct (map hh_summary_id (fold add_semantic ss m))
    \<and> hh_summary_id ` set (fold add_semantic ss m) = hh_summary_id ` set m \<union> sh_summary_id ` set ss"
proof (induction ss arbitrary: m)
  case (Cons s ss)
  have "distinct (map hh_summary_id (add_semantic s m))" by (rule add_semantic_ids(1)[OF Cons.prems])
  from Cons.IH[OF this] show ?case by (auto simp: add_semantic_ids(2))
qed simp

lemma merge_arms_ids:
  "distinct (map hh_summary_id (merge_arms fs ss))"
  "hh_summary_id ` set (merge_arms fs ss) = fh_summary_id ` set fs \<union> sh_summary_id ` set ss"
  using merged_fts[of "[]" 0 fs] merged_semantic[of "fold (\<lambda>(i, f). put_hit (hit_of_fts i f)) (enumerate 0 fs) []" ss]
  by (auto simp: merge_arms_def)

subsection \<open>What the pack holds\<close>

definition fits_alone :: "hybrid_hit \<Rightarrow> bool" where
  "fits_alone c \<longleftrightarrow> candidate_tokens c \<le> rerank_budget"

definition pack_total :: "hybrid_hit list \<Rightarrow> int" where
  "pack_total cs = sum_list (map candidate_tokens cs)"

lemma pack_loop_spec:
  assumes "pack_loop cumulative cs = (packed, truncated)"
  shows "\<exists>rest. filter fits_alone cs = packed @ rest
      \<and> (packed = [] \<or> cumulative + pack_total packed \<le> rerank_budget)
      \<and> (rest = [] \<or> rerank_budget < cumulative + pack_total (packed @ [hd rest]))
      \<and> (truncated \<longleftrightarrow> packed \<noteq> cs)"
  using assms
proof (induction cumulative cs arbitrary: packed truncated rule: pack_loop.induct)
  case (2 cumulative c cs)
  show ?case
  proof (cases "fits_alone c")
    case False
    then have big: "rerank_budget < candidate_tokens c" by (simp add: fits_alone_def)
    then have p: "packed = fst (pack_loop cumulative cs)" "truncated" using "2.prems" by auto
    obtain t where t: "pack_loop cumulative cs = (packed, t)" using p(1) by (metis prod.collapse)
    from "2.IH"(1)[OF big t] obtain rest where "filter fits_alone cs = packed @ rest"
      "packed = [] \<or> cumulative + pack_total packed \<le> rerank_budget"
      "rest = [] \<or> rerank_budget < cumulative + pack_total (packed @ [hd rest])" by blast
    moreover have "packed \<noteq> c # cs"
    proof
      assume "packed = c # cs"
      with calculation(1) have "c \<in> set (filter fits_alone cs)" by simp
      with False show False by simp
    qed
    ultimately show ?thesis using p(2) False by auto
  next
    case fits: True
    then have small: "\<not> rerank_budget < candidate_tokens c" by (simp add: fits_alone_def)
    show ?thesis
    proof (cases "rerank_budget < cumulative + candidate_tokens c")
      case True
      then have "packed = []" "truncated" using "2.prems" small by auto
      with fits True show ?thesis by (simp add: pack_total_def)
    next
      case False
      obtain packed' where rec: "pack_loop (cumulative + candidate_tokens c) cs = (packed', truncated)" "packed = c # packed'"
        using "2.prems" small False by (auto split: prod.splits)
      from "2.IH"(2)[OF small False rec(1)] obtain rest where "filter fits_alone cs = packed' @ rest"
        "packed' = [] \<or> cumulative + candidate_tokens c + pack_total packed' \<le> rerank_budget"
        "rest = [] \<or> rerank_budget < cumulative + candidate_tokens c + pack_total (packed' @ [hd rest])"
        "truncated \<longleftrightarrow> packed' \<noteq> cs" by blast
      then show ?thesis using fits False rec(2) by (auto simp: pack_total_def algebra_simps)
    qed
  qed
qed auto

subsection \<open>Which candidates are returned\<close>

lemma apply_rerank_ids: "h \<in> set (apply_rerank packed results) \<Longrightarrow> hh_summary_id h \<in> hh_summary_id ` set packed"
  by (auto simp: apply_rerank_def List.map_filter_def split: option.splits dest!: find_SomeD)

lemma first_n_all: "int (length xs) \<le> n \<Longrightarrow> first_n n xs = xs"
  by (simp add: first_n_def)

lemma rrf_rank_ids: "hh_summary_id ` set (rrf_rank fl ss cs) = hh_summary_id ` set cs"
  by (auto simp: rrf_rank_def image_iff)

text \<open>The two ways a search returns.\<close>

lemma search_cases:
  assumes "run_hybrid_search fl fts_hits outcome req = Inr r" "hr_hits r \<noteq> []"
  obtains (Reranked) resp query packed truncated rerank where "hq_reranker req = Some rerank" "hq_rerank req"
      "hq_query req = Some query" "pack_loop (ceil_quarter (u_strip query)) (merge_arms fts_hits (case outcome of Sem_Found s \<Rightarrow> sm_hits s | _ \<Rightarrow> [])) = (packed, truncated)"
      "rerank (u_strip query) (map (\<lambda>c. (hh_summary_id c, hh_content c)) packed) (min (hq_top_n req) (int (length packed))) = Inr resp"
      "hr_hits r = apply_rerank packed (rr_results resp)" "hr_rerank_packed_count r = length packed"
      "hr_rerank_pack_truncated r = truncated" "hr_reranker_model r \<noteq> None"
  | (Fused) sem_hits where "sem_hits = (case outcome of Sem_Found s \<Rightarrow> sm_hits s | _ \<Rightarrow> [])"
      "hr_hits r = first_n (hq_top_n req) (rrf_rank fl sem_hits (merge_arms fts_hits sem_hits))" "hr_reranker_model r = None"
  using assms
  by (fastforce simp: run_hybrid_search_def semantic_with_degrade_def Let_def
      split: if_splits sum.splits prod.splits option.splits semantic_outcome.splits voyage_kind.splits)

text \<open>The pack of a reranker call. Of the candidates that fit the budget by themselves, in their order, the pack is
  the longest initial part that fits together with the query; a candidate too big by itself does not end
  the packing; and the flag is set exactly when a candidate was left out.\<close>

theorem pack_is_longest_prefix:
  "\<exists>rest. filter fits_alone cs = fst (pack_loop query_tokens cs) @ rest
     \<and> (fst (pack_loop query_tokens cs) = [] \<or> query_tokens + pack_total (fst (pack_loop query_tokens cs)) \<le> rerank_budget)
     \<and> (rest = [] \<or> rerank_budget < query_tokens + pack_total (fst (pack_loop query_tokens cs) @ [hd rest]))
     \<and> (snd (pack_loop query_tokens cs) \<longleftrightarrow> fst (pack_loop query_tokens cs) \<noteq> cs)"
  by (rule pack_loop_spec) simp

text \<open>What a search returns. A fused search with room for all candidates returns every summary of either arm; a
  reranked one only summaries that went into the pack: a candidate that the budget left out, however well
  both arms rank it, is then not returned at all.\<close>

theorem unpacked_candidates_vanish:
  assumes "run_hybrid_search fl fts_hits outcome req = Inr r" "hr_hits r \<noteq> []" "hq_query req = Some query"
  shows "let sem_hits = (case outcome of Sem_Found s \<Rightarrow> sm_hits s | _ \<Rightarrow> []);
             candidates = merge_arms fts_hits sem_hits in
    (hr_reranker_model r \<noteq> None \<longrightarrow>
      hh_summary_id ` set (hr_hits r) \<subseteq> hh_summary_id ` set (fst (pack_loop (ceil_quarter (u_strip query)) candidates)))
    \<and> (hr_reranker_model r = None \<longrightarrow> int (length candidates) \<le> hq_top_n req \<longrightarrow>
        hh_summary_id ` set (hr_hits r) = fh_summary_id ` set fts_hits \<union> sh_summary_id ` set sem_hits)"
proof (cases rule: search_cases[OF assms(1,2)])
  case (1 resp query' packed truncated rerank)
  have "hh_summary_id ` set (hr_hits r) \<subseteq> hh_summary_id ` set packed" using apply_rerank_ids 1(6) by auto
  with 1(3,4,9) assms(3) show ?thesis by (auto simp: Let_def)
next
  case (2 sem_hits)
  then show ?thesis using rrf_rank_ids[of fl sem_hits "merge_arms fts_hits sem_hits"] merge_arms_ids(2)[of fts_hits sem_hits]
    by (auto simp: Let_def first_n_all rrf_rank_def)
qed

subsection \<open>Fusion\<close>

text \<open>What the rounding of floats keeps.\<close>

definition rounding :: "(real \<Rightarrow> real) \<Rightarrow> bool" where
  "rounding fl \<longleftrightarrow> mono fl \<and> fl 0 = 0 \<and> (\<forall>x. fl (fl x) = fl x)"

lemma rounding_nonneg: "rounding fl \<Longrightarrow> 0 \<le> x \<Longrightarrow> 0 \<le> fl x"
  unfolding rounding_def by (metis monoD)

definition at_least_as_good :: "nat option \<Rightarrow> nat option \<Rightarrow> bool" where
  "at_least_as_good a b \<longleftrightarrow> (\<forall>q. b = Some q \<longrightarrow> (\<exists>p. a = Some p \<and> p \<le> q))"

lemma add_rank_mono:
  assumes fl: "rounding fl" and rank: "at_least_as_good r r'" and le: "s' \<le> s" "fl s' = s'"
  shows "add_rank fl r' s' \<le> add_rank fl r s"
proof (cases r')
  case None
  show ?thesis
  proof (cases r)
    case (Some p)
    have "0 \<le> fl (1 / real (RRF_K + p))" using rounding_nonneg[OF fl] by simp
    then have "fl s' \<le> fl (s + fl (1 / real (RRF_K + p)))"
      using fl le(1) by (intro monoD[of fl]) (auto simp: rounding_def)
    then show ?thesis by (simp add: None Some add_rank_def le(2))
  qed (simp add: None le add_rank_def)
next
  case (Some q)
  with rank obtain p where p: "r = Some p" "p \<le> q" by (auto simp: at_least_as_good_def)
  have "1 / real (RRF_K + q) \<le> 1 / real (RRF_K + p)" using p(2) by (intro divide_left_mono) (auto simp: RRF_K_def)
  then have "fl (1 / real (RRF_K + q)) \<le> fl (1 / real (RRF_K + p))" using fl by (auto simp: rounding_def monoD)
  with fl le(1) have "fl (s' + fl (1 / real (RRF_K + q))) \<le> fl (s + fl (1 / real (RRF_K + p)))"
    by (intro monoD[of fl]) (auto simp: rounding_def)
  then show ?thesis by (simp add: Some p(1) add_rank_def)
qed

lemma add_rank_rounded: "rounding fl \<Longrightarrow> fl s = s \<Longrightarrow> fl (add_rank fl r s) = add_rank fl r s"
  by (auto simp: add_rank_def rounding_def split: option.split)

definition semantic_rank :: "semantic_hit list \<Rightarrow> hybrid_hit \<Rightarrow> nat option" where
  "semantic_rank sem_hits c = (if hh_from_semantic c then semantic_index sem_hits (hh_summary_id c) else None)"

lemma first_n_sorted: "sorted_wrt P xs \<Longrightarrow> sorted_wrt P (first_n n xs)"
  by (simp add: first_n_def sorted_wrt_take)

lemma set_first_n: "x \<in> set (first_n n xs) \<Longrightarrow> x \<in> set xs"
  by (auto simp: first_n_def dest: in_set_takeD)

text \<open>Fusion respects the ranks. Whatever the rounding of floats does to the sums, a fused search lists its hits by
  falling score, and a hit that each arm ranks at least as high as another hit scores at least as much.\<close>

theorem fusion_respects_ranks:
  assumes "rounding fl" "run_hybrid_search fl fts_hits outcome req = Inr r" "hr_hits r \<noteq> []" "hr_reranker_model r = None"
  shows "let sem_hits = (case outcome of Sem_Found s \<Rightarrow> sm_hits s | _ \<Rightarrow> []) in
    sorted_wrt (\<lambda>a b. hh_score b \<le> hh_score a) (hr_hits r)
    \<and> (\<forall>a \<in> set (hr_hits r). \<forall>b \<in> set (hr_hits r).
        at_least_as_good (hh_fts_rank a) (hh_fts_rank b)
        \<and> at_least_as_good (semantic_rank sem_hits a) (semantic_rank sem_hits b) \<longrightarrow> hh_score b \<le> hh_score a)"
proof (cases rule: search_cases[OF assms(2,3)])
  case (1 resp query packed truncated rerank)
  with assms(4) show ?thesis by simp
next
  case (2 sem_hits)
  let ?all = "rrf_rank fl sem_hits (merge_arms fts_hits sem_hits)"
  have "sorted (map (\<lambda>c. - hh_score c) ?all)" by (simp add: rrf_rank_def)
  then have "sorted_wrt (\<lambda>a b. hh_score b \<le> hh_score a) ?all" by (simp add: sorted_wrt_map)
  moreover have score: "hh_score a = add_rank fl (semantic_rank sem_hits a) (add_rank fl (hh_fts_rank a) 0)"
    if "a \<in> set (hr_hits r)" for a
    using that set_first_n[of a "hq_top_n req" ?all] unfolding 2(2)
    by (auto simp: rrf_rank_def rrf_score_def semantic_rank_def)
  moreover have "hh_score b \<le> hh_score a" if "a \<in> set (hr_hits r)" "b \<in> set (hr_hits r)"
      "at_least_as_good (hh_fts_rank a) (hh_fts_rank b)" "at_least_as_good (semantic_rank sem_hits a) (semantic_rank sem_hits b)" for a b
    using that assms(1) unfolding score[OF that(1)] score[OF that(2)]
    by (intro add_rank_mono add_rank_rounded) (auto simp: rounding_def)
  ultimately show ?thesis unfolding Let_def 2(1)[symmetric] 2(2) by (auto intro: first_n_sorted)
qed

subsection \<open>Concrete searches\<close>

definition sample_fts :: "string \<Rightarrow> int \<Rightarrow> fts_hit" where
  "sample_fts sid tokens = \<lparr>fh_summary_id = sid, fh_conversation_id = 2, fh_session_key = [], fh_kind = Level_Leaf, fh_content = [97],
     fh_token_count = tokens, fh_created_at = [], fh_rank = 0\<rparr>"

definition sample_request :: "bool \<Rightarrow> hybrid_request" where
  "sample_request rerank = \<lparr>hq_query = Some [98], hq_top_n = 20, hq_rerank = rerank, hq_reranker_model = [],
     hq_reranker = Some (\<lambda>q docs k. Inr \<lparr>rr_results = map (\<lambda>(i, _). (i, 2)) docs, rr_total_tokens = 3\<rparr>)\<rparr>"

lemmas sample_search = run_hybrid_search_def sample_request_def sample_fts_def merge_arms_def put_hit_def hit_of_fts_def
  semantic_with_degrade_def candidate_tokens_def ceil_quarter_def rerank_budget_def apply_rerank_def List.map_filter_def
  u_strip_def u_lstrip_def u_rstrip_def u_isspace_def

theorem unpacked_candidates_vanish_witness:
  "map_sum (\<lambda>_. ()) (\<lambda>r. map hh_summary_id (hr_hits r))
     (run_hybrid_search id [sample_fts ''big'' 510001, sample_fts ''a'' 7] Sem_Unavailable (sample_request True)) = Inr [''a'']
   \<and> ''big'' \<in> hh_summary_id ` set (merge_arms [sample_fts ''big'' 510001, sample_fts ''a'' 7] [])"
proof -
  obtain r where run: "run_hybrid_search id [sample_fts ''big'' 510001, sample_fts ''a'' 7] Sem_Unavailable (sample_request True) = Inr r"
    and r: "map hh_summary_id (hr_hits r) = [''a'']" "hr_reranker_model r \<noteq> None"
    by (simp add: sample_search)
  then have "hr_hits r \<noteq> []" by auto
  from unpacked_candidates_vanish[OF run this, of "[98]"] r run show ?thesis
    by (auto simp: Let_def merge_arms_ids(2)) (simp_all add: sample_search)
qed

theorem fusion_respects_ranks_witness:
  "map_sum (\<lambda>_. ()) (\<lambda>r. sorted_wrt (\<lambda>a b. hh_score b \<le> hh_score a) (hr_hits r))
     (run_hybrid_search id [sample_fts ''big'' 510001, sample_fts ''a'' 7] Sem_Unavailable (sample_request False)) = Inr True"
proof -
  obtain r where run: "run_hybrid_search id [sample_fts ''big'' 510001, sample_fts ''a'' 7] Sem_Unavailable (sample_request False) = Inr r"
    and r: "hr_hits r \<noteq> []" "hr_reranker_model r = None"
    by (simp add: sample_search first_n_def rrf_rank_def)
  have "rounding id" by (simp add: rounding_def mono_def)
  from fusion_respects_ranks[OF this run r] run show ?thesis by (simp add: Let_def)
qed

end
