(* ===== verification/Summary_Tree.thy ===== *)
theory Summary_Tree
  imports Context_Store Message_Parts "HOL-Library.List_Lexorder" "HOL-Library.Product_Lexorder"
begin

text \<open>
  Queries of \<open>store/summary.py\<close> over the links between summaries and messages: the walk from a summary to those
  that were made from it, the leaves that show given messages, and the tool results that the transcript may
  lose. A row \<open>(s, p, n)\<close> of \<open>summary_parents\<close> says that \<open>s\<close> was made from \<open>p\<close>, its source number \<open>n\<close>. A recursive
  query works off a queue of rows; it need not end, and then it has no value.
\<close>

subsection \<open>The recursive query\<close>

record subtree_row =
  st_summary_id :: string
  st_parent_summary_id :: "string option"
  st_depth_from_root :: nat
  st_path :: utext

text \<open>\<open>printf('%04d', n)\<close>.\<close>

definition four_digits :: "int \<Rightarrow> utext" where
  "four_digits n = (let ds = dec_digits (nat \<bar>n\<bar>); sign = (if n < 0 then [45] else []) in
     sign @ replicate (4 - length sign - length ds) 48 @ ds)"

definition extend_path :: "utext \<Rightarrow> int \<Rightarrow> utext" where
  "extend_path path n = (if path = [] then four_digits n else path @ [46] @ four_digits n)"

definition derived_rows :: "(string \<times> string \<times> int) list \<Rightarrow> subtree_row \<Rightarrow> subtree_row list" where
  "derived_rows links r = map (\<lambda>(s, p, n). \<lparr>st_summary_id = s, st_parent_summary_id = Some p,
       st_depth_from_root = st_depth_from_root r + 1, st_path = extend_path (st_path r) n\<rparr>)
     (filter (\<lambda>(_, p, _). p = st_summary_id r) links)"

partial_function (option) walk_rows :: "(string \<times> string \<times> int) list \<Rightarrow> subtree_row list \<Rightarrow> subtree_row list option" where
  "walk_rows links queue = (case queue of
     [] \<Rightarrow> Some []
   | r # rest \<Rightarrow> Option.bind (walk_rows links (rest @ derived_rows links r)) (\<lambda>rows. Some (r # rows)))"

definition seed_row :: "string \<Rightarrow> subtree_row" where
  "seed_row sid = \<lparr>st_summary_id = sid, st_parent_summary_id = None, st_depth_from_root = 0, st_path = []\<rparr>"

definition subtree_hard_cap :: nat where "subtree_hard_cap = 10000"

record subtree_node =
  sn_summary :: summary_record
  sn_depth_from_root :: nat
  sn_parent_summary_id :: "string option"
  sn_path :: utext
  sn_child_count :: nat

definition child_count :: "lcm_db \<Rightarrow> string \<Rightarrow> nat" where
  "child_count db sid = length (filter (\<lambda>(_, p, _). p = sid) (db_summary_parents db))"

definition join_summary :: "lcm_db \<Rightarrow> subtree_row \<Rightarrow> subtree_node option" where
  "join_summary db r = map_option (\<lambda>s. \<lparr>sn_summary = s, sn_depth_from_root = st_depth_from_root r,
       sn_parent_summary_id = st_parent_summary_id r, sn_path = st_path r, sn_child_count = child_count db (sr_summary_id s)\<rparr>)
     (List.find (\<lambda>s. sr_summary_id s = st_summary_id r \<and> \<not> sr_suppressed s) (db_summaries db))"

definition ordered_rows :: "lcm_db \<Rightarrow> subtree_row list \<Rightarrow> subtree_node list" where
  "ordered_rows db rows =
     sort_key (\<lambda>n. (sn_depth_from_root n, sn_path n, sr_created_at (sn_summary n))) (List.map_filter (join_summary db) rows)"

text \<open>The loop with the set \<open>seen\<close>: the first row of each summary.\<close>

fun first_rows :: "string list \<Rightarrow> subtree_node list \<Rightarrow> subtree_node list" where
  "first_rows seen [] = []"
| "first_rows seen (n # ns) =
     (if sr_summary_id (sn_summary n) \<in> set seen then first_rows seen ns
      else n # first_rows (sr_summary_id (sn_summary n) # seen) ns)"

definition get_summary_subtree :: "lcm_db \<Rightarrow> string \<Rightarrow> subtree_node list option" where
  "get_summary_subtree db sid =
     map_option (\<lambda>rows. first_rows [] (take subtree_hard_cap (ordered_rows db rows)))
       (walk_rows (db_summary_parents db) [seed_row sid])"

subsection \<open>Lists of a conversation\<close>

definition get_summaries_by_conversation :: "lcm_db \<Rightarrow> int \<Rightarrow> summary_record list" where
  "get_summaries_by_conversation db c = sort_key sr_created_at (filter (\<lambda>s. sr_conversation_id s = c) (db_summaries db))"

text \<open>The leaves for given messages, grouped in the order of the messages.\<close>

definition positive_ids :: "int list \<Rightarrow> int list" where
  "positive_ids ids = rev (remdups (rev (filter (\<lambda>m. 0 < m) ids)))"

definition leaf_links :: "lcm_db \<Rightarrow> int \<Rightarrow> int list \<Rightarrow> (int \<times> string) list" where
  "leaf_links db c ids =
     map (\<lambda>(m, sid, _, _). (m, sid)) (sort_key (\<lambda>(_, _, ord, created). (ord, created))
       (List.map_filter (\<lambda>(sid, m, ord). if m \<in> set ids then
            map_option (\<lambda>s. (m, sid, ord, sr_created_at s))
              (List.find (\<lambda>s. sr_summary_id s = sid \<and> sr_conversation_id s = c \<and> sr_kind s = Leaf \<and> \<not> sr_suppressed s)
                (db_summaries db))
          else None) (db_summary_messages db)))"

definition get_leaf_summary_links_for_message_ids :: "lcm_db \<Rightarrow> int \<Rightarrow> int list \<Rightarrow> (int \<times> string) list" where
  "get_leaf_summary_links_for_message_ids db c ids =
     (let normalized = positive_ids ids; rows = leaf_links db c normalized in
      concat (map (\<lambda>m. map (\<lambda>sid. (m, sid)) (rev (remdups (rev (map snd (filter (\<lambda>(m', _). m' = m) rows)))))) normalized))"

subsection \<open>Candidates of the transcript collection\<close>

record gc_candidate =
  gc_message_id :: int
  gc_conversation_id :: int
  gc_seq :: int
  gc_tool_call_id :: utext
  gc_tool_name :: "utext option"
  gc_externalized_file_id :: "utext option"
  gc_original_byte_size :: "int option"

definition to_gc_candidate :: "(utext \<Rightarrow> json option) \<Rightarrow> message_record \<times> message_part \<Rightarrow> gc_candidate option" where
  "to_gc_candidate loads mp = (case mp of (m, p) \<Rightarrow>
     case mp_tool_call_id p of None \<Rightarrow> None
   | Some call_id \<Rightarrow>
       if call_id = [] then None
       else
         let metadata = (case mp_metadata p of None \<Rightarrow> None
               | Some raw \<Rightarrow> if raw = [] then None
                   else (case loads raw of Some j \<Rightarrow> if is_obj j then Some j else None | None \<Rightarrow> None)) in
         case metadata of None \<Rightarrow> None
         | Some j \<Rightarrow>
             if jget ''toolOutputExternalized'' j \<noteq> JBool True then None
             else Some \<lparr>gc_message_id = mr_message_id m, gc_conversation_id = mr_conversation_id m, gc_seq = mr_seq m,
               gc_tool_call_id = call_id, gc_tool_name = mp_tool_name p,
               gc_externalized_file_id = str_of (jget ''externalizedFileId'' j),
               gc_original_byte_size = (case jget ''originalByteSize'' j of JInt n \<Rightarrow> Some (max 0 n) | _ \<Rightarrow> None)\<rparr>)"

definition in_raw_context :: "lcm_db \<Rightarrow> message_record \<Rightarrow> bool" where
  "in_raw_context db m \<longleftrightarrow> list_ex (\<lambda>i. ci_ref i = Msg (mr_message_id m)) (context_rows db (mr_conversation_id m))"

definition summarized :: "lcm_db \<Rightarrow> message_record \<Rightarrow> bool" where
  "summarized db m \<longleftrightarrow> list_ex (\<lambda>(_, mid, _). mid = mr_message_id m) (db_summary_messages db)"

definition gc_rows :: "lcm_db \<Rightarrow> int \<Rightarrow> (message_record \<times> message_part) list" where
  "gc_rows db c = sort_key (\<lambda>(m, p). (mr_seq m, mp_ordinal p))
     (concat (map (\<lambda>m. map (\<lambda>p. (m, p)) (filter (\<lambda>p. mp_message_id p = mr_message_id m \<and> mp_part_type p = cps ''tool''
           \<and> mp_tool_call_id p \<noteq> None \<and> mp_tool_call_id p \<noteq> Some []) (db_message_parts db)))
        (filter (\<lambda>m. mr_conversation_id m = c \<and> mr_role m = Role_Tool \<and> summarized db m \<and> \<not> in_raw_context db m)
          (db_messages db))))"

fun collect_candidates ::
    "(utext \<Rightarrow> json option) \<Rightarrow> nat \<Rightarrow> int list \<Rightarrow> (message_record \<times> message_part) list \<Rightarrow> gc_candidate list" where
  "collect_candidates loads left seen [] = []"
| "collect_candidates loads left seen (row # rows) =
     (if mr_message_id (fst row) \<in> set seen then collect_candidates loads left seen rows
      else case to_gc_candidate loads row of
          None \<Rightarrow> collect_candidates loads left seen rows
        | Some g \<Rightarrow> g # (if left \<le> 1 then [] else collect_candidates loads (left - 1) (gc_message_id g # seen) rows))"

definition list_transcript_gc_candidates :: "(utext \<Rightarrow> json option) \<Rightarrow> lcm_db \<Rightarrow> int \<Rightarrow> int \<Rightarrow> gc_candidate list" where
  "list_transcript_gc_candidates loads db c limit =
     collect_candidates loads (if limit \<le> 0 then 25 else nat limit) [] (gc_rows db c)"

subsection \<open>When the walk ends\<close>

definition made_from :: "(string \<times> string \<times> int) list \<Rightarrow> (string \<times> string) set" where
  "made_from links = {(p, s). \<exists>n. (s, p, n) \<in> set links}"

lemma walk_rows_Nil [simp]: "walk_rows links [] = Some []"
  by (simp add: walk_rows.simps)

lemma walk_rows_Cons:
  "walk_rows links (r # q) = Option.bind (walk_rows links (q @ derived_rows links r)) (\<lambda>rows. Some (r # rows))"
  by (simp add: walk_rows.simps)

lemma walk_rows_ConsD:
  "walk_rows links (r # q) = Some rows \<Longrightarrow> \<exists>rows'. walk_rows links (q @ derived_rows links r) = Some rows' \<and> rows = r # rows'"
  by (auto simp: walk_rows_Cons split: Option.bind_splits)

lemma derived_ids: "st_summary_id ` set (derived_rows links r) = {s. (st_summary_id r, s) \<in> made_from links}"
  by (force simp: derived_rows_def made_from_def)

lemma finite_made_from: "finite (made_from links)"
proof -
  have "made_from links \<subseteq> (\<lambda>(s, p, _). (p, s)) ` set links" by (force simp: made_from_def)
  then show ?thesis by (rule finite_subset) simp
qed

lemma walk_rows_total:
  assumes "acyclic (made_from links)"
  shows "\<exists>rows. walk_rows links q = Some rows"
proof -
  let ?less = "(made_from links)\<inverse>"
  have "wf ?less" using assms finite_made_from by (simp add: finite_acyclic_wf_converse)
  then have "wf (mult ?less)" by (rule wf_mult)
  then show ?thesis
  proof (induction "mset (map st_summary_id q)" arbitrary: q rule: wf_induct_rule)
    case less
    show ?case
    proof (cases q)
      case (Cons r rest)
      let ?new = "rest @ derived_rows links r"
      have "(mset (map st_summary_id ?new), mset (map st_summary_id q)) \<in> mult ?less"
      proof -
        have "(mset (map st_summary_id rest) + mset (map st_summary_id (derived_rows links r)),
            mset (map st_summary_id rest) + {#st_summary_id r#}) \<in> mult ?less"
        proof (rule one_step_implies_mult)
          show "\<forall>k \<in># mset (map st_summary_id (derived_rows links r)). \<exists>j \<in># {#st_summary_id r#}. (k, j) \<in> ?less"
            using derived_ids[of links r] by auto
        qed simp
        then show ?thesis by (simp add: Cons)
      qed
      from less[OF this] show ?thesis by (auto simp: Cons walk_rows_Cons)
    qed simp
  qed
qed

text \<open>The rows of a walk that ends hold the queue and are closed under derivation.\<close>

lemma walk_rows_closed:
  assumes "walk_rows links q = Some rows"
  shows "set q \<subseteq> set rows \<and> (\<forall>r \<in> set rows. set (derived_rows links r) \<subseteq> set rows)"
  using assms
proof (induction "length rows" arbitrary: q rows)
  case 0
  then show ?case by (cases q) (auto simp: walk_rows_Cons split: Option.bind_splits)
next
  case (Suc n)
  show ?case
  proof (cases q)
    case Nil
    with Suc show ?thesis by simp
  next
    case (Cons r rest)
    from walk_rows_ConsD[OF Suc.prems[unfolded Cons]] obtain rows' where
      w: "walk_rows links (rest @ derived_rows links r) = Some rows'" "rows = r # rows'" by blast
    from Suc.hyps(2) w(2) have "n = length rows'" by simp
    from Suc.hyps(1)[OF this w(1)] have "set (rest @ derived_rows links r) \<subseteq> set rows'"
      "\<forall>r \<in> set rows'. set (derived_rows links r) \<subseteq> set rows'" by blast+
    then show ?thesis unfolding Cons w(2) set_append list.set by blast
  qed
qed

lemma walk_rows_sound:
  assumes "walk_rows links q = Some rows" "\<forall>r \<in> set q. P r" "\<And>r r'. P r \<Longrightarrow> r' \<in> set (derived_rows links r) \<Longrightarrow> P r'"
  shows "\<forall>r \<in> set rows. P r"
  using assms(1,2)
proof (induction "length rows" arbitrary: q rows)
  case (Suc n)
  show ?case
  proof (cases q)
    case Nil
    with Suc show ?thesis by simp
  next
    case (Cons r rest)
    from walk_rows_ConsD[OF Suc.prems(1)[unfolded Cons]] obtain rows' where
      w: "walk_rows links (rest @ derived_rows links r) = Some rows'" "rows = r # rows'" by blast
    from Suc.hyps(2) w(2) have n: "n = length rows'" by simp
    have "\<forall>x \<in> set (rest @ derived_rows links r). P x" using Suc.prems(2) assms(3)[of r] by (auto simp: Cons)
    from Suc.hyps(1)[OF n w(1) this] Suc.prems(2) show ?thesis by (auto simp: Cons w(2))
  qed
qed simp

lemma walk_row_of_path:
  assumes "walk_rows links q = Some rows" "r \<in> set rows" "(st_summary_id r, s) \<in> made_from links ^^ n"
  shows "\<exists>r' \<in> set rows. st_summary_id r' = s \<and> st_depth_from_root r' = st_depth_from_root r + n"
  using assms(3)
proof (induction n arbitrary: s)
  case 0
  then show ?case using assms(2) by auto
next
  case (Suc n)
  then obtain t where t: "(st_summary_id r, t) \<in> made_from links ^^ n" "(t, s) \<in> made_from links" by auto
  from Suc.IH[OF t(1)] obtain r1 where r1: "r1 \<in> set rows" "st_summary_id r1 = t" "st_depth_from_root r1 = st_depth_from_root r + n" by auto
  from t(2) r1(2) derived_ids[of links r1] obtain r2 where "r2 \<in> set (derived_rows links r1)" "st_summary_id r2 = s" by force
  moreover from this have "st_depth_from_root r2 = st_depth_from_root r1 + 1" by (auto simp: derived_rows_def)
  ultimately show ?case using walk_rows_closed[OF assms(1)] r1 by force
qed

lemma walk_ids:
  assumes "walk_rows links [seed_row sid] = Some rows"
  shows "st_summary_id ` set rows = {s. (sid, s) \<in> (made_from links)\<^sup>*}"
proof -
  have "seed_row sid \<in> set rows" using walk_rows_closed[OF assms] by simp
  then have "\<exists>r \<in> set rows. st_summary_id r = s" if "(sid, s) \<in> (made_from links)\<^sup>*" for s
    using walk_row_of_path[OF assms, of "seed_row sid" s] that by (auto simp: rtrancl_power seed_row_def)
  moreover have "\<forall>r \<in> set rows. (sid, st_summary_id r) \<in> (made_from links)\<^sup>*"
  proof (rule walk_rows_sound[OF assms])
    show "\<forall>r \<in> set [seed_row sid]. (sid, st_summary_id r) \<in> (made_from links)\<^sup>*" by (simp add: seed_row_def)
    show "(sid, st_summary_id r') \<in> (made_from links)\<^sup>*"
      if "(sid, st_summary_id r) \<in> (made_from links)\<^sup>*" "r' \<in> set (derived_rows links r)" for r r'
    proof -
      from that(2) derived_ids[of links r] have "(st_summary_id r, st_summary_id r') \<in> made_from links" by blast
      with that(1) show ?thesis by (rule rtrancl_into_rtrancl)
    qed
  qed
  ultimately show ?thesis by force
qed

lemma walk_cycle_None:
  assumes "(sid, x) \<in> (made_from links)\<^sup>*" "(x, x) \<in> (made_from links)\<^sup>+"
  shows "walk_rows links [seed_row sid] = None"
proof (rule ccontr)
  assume "walk_rows links [seed_row sid] \<noteq> None"
  then obtain rows where rows: "walk_rows links [seed_row sid] = Some rows" by blast
  obtain k where k: "0 < k" "(x, x) \<in> made_from links ^^ k" using assms(2) trancl_power by blast
  have loop: "(x, x) \<in> made_from links ^^ (n * k)" for n
  proof (induction n)
    case (Suc n)
    from k(2) Suc have "(x, x) \<in> made_from links ^^ k O made_from links ^^ (n * k)" by blast
    then show ?case by (simp add: relpow_add)
  qed simp
  from walk_ids[OF rows] assms(1) obtain r where r: "r \<in> set rows" "st_summary_id r = x" by force
  have deep: "\<exists>r' \<in> set rows. st_depth_from_root r' = st_depth_from_root r + n * k" for n
    using walk_row_of_path[OF rows r(1), of x "n * k"] loop[of n] r(2) by auto
  let ?ds = "st_depth_from_root ` set rows"
  have "Max ?ds < st_depth_from_root r + Suc (Max ?ds) * k" using k(1) by (cases k) auto
  moreover have "st_depth_from_root r + Suc (Max ?ds) * k \<in> ?ds" using deep[of "Suc (Max ?ds)"] by force
  ultimately show False
    using Max_ge[of ?ds "st_depth_from_root r + Suc (Max ?ds) * k"] finite_imageI[OF finite_set[of rows], of st_depth_from_root]
    by (meson not_less)
qed

subsection \<open>What the walk finds\<close>

definition node_id :: "subtree_node \<Rightarrow> string" where "node_id n = sr_summary_id (sn_summary n)"

lemma first_rows_ids:
  "distinct (map node_id (first_rows seen ns)) \<and> set (map node_id (first_rows seen ns)) = set (map node_id ns) - set seen"
  by (induction seen ns rule: first_rows.induct) (auto simp: node_id_def)

lemma first_rows_subset: "set (first_rows seen ns) \<subseteq> set ns"
  by (induction seen ns rule: first_rows.induct) auto

lemma join_summary_Some:
  assumes "wf_db db"
  shows "(\<exists>n. join_summary db r = Some n \<and> node_id n = s) \<longleftrightarrow>
    st_summary_id r = s \<and> (\<exists>x \<in> set (db_summaries db). sr_summary_id x = s \<and> \<not> sr_suppressed x)"
proof -
  have "(\<exists>x. List.find P xs = Some x \<and> Q x) \<longleftrightarrow> (\<exists>x \<in> set xs. P x) \<and> (\<forall>x. List.find P xs = Some x \<longrightarrow> Q x)"
    for P Q and xs :: "summary_record list" by (cases "List.find P xs") (auto simp: find_None_iff dest!: find_SomeD)
  then show ?thesis
    by (cases "List.find (\<lambda>x. sr_summary_id x = st_summary_id r \<and> \<not> sr_suppressed x) (db_summaries db)")
      (auto simp: join_summary_def node_id_def find_None_iff dest: find_SomeD)
qed

lemma ordered_rows_ids:
  assumes "wf_db db"
  shows "set (map node_id (ordered_rows db rows)) =
    {s \<in> st_summary_id ` set rows. \<exists>x \<in> set (db_summaries db). sr_summary_id x = s \<and> \<not> sr_suppressed x}"
proof -
  have "s \<in> set (map node_id (ordered_rows db rows)) \<longleftrightarrow> (\<exists>r \<in> set rows. \<exists>n. join_summary db r = Some n \<and> node_id n = s)" for s
    by (auto simp: ordered_rows_def set_map_filter)
  then show ?thesis unfolding join_summary_Some[OF assms] image_iff by (intro set_eqI) (simp only: mem_Collect_eq, metis)
qed

text \<open>The subtree of a summary holds what was made from it. When no summary is, over any number of steps, made from
  itself, the query ends, lists each summary once, and, as long as its rows stay below the cap, lists exactly
  the summaries that are not suppressed among the given one and those that were made from it directly or
  indirectly. The summaries that it was made from itself are never listed.\<close>

theorem subtree_holds_derived:
  assumes "wf_db db" "acyclic (made_from (db_summary_parents db))"
  shows "\<exists>rows nodes. walk_rows (db_summary_parents db) [seed_row sid] = Some rows
    \<and> get_summary_subtree db sid = Some nodes \<and> distinct (map node_id nodes)
    \<and> (length (ordered_rows db rows) \<le> subtree_hard_cap \<longrightarrow>
        set (map node_id nodes) = {s. (sid, s) \<in> (made_from (db_summary_parents db))\<^sup>*
          \<and> (\<exists>x \<in> set (db_summaries db). sr_summary_id x = s \<and> \<not> sr_suppressed x)})
    \<and> (\<forall>p. (p, sid) \<in> made_from (db_summary_parents db) \<longrightarrow> p \<notin> set (map node_id nodes))"
proof -
  let ?E = "made_from (db_summary_parents db)"
  obtain rows where rows: "walk_rows (db_summary_parents db) [seed_row sid] = Some rows"
    using walk_rows_total[OF assms(2)] by blast
  let ?nodes = "first_rows [] (take subtree_hard_cap (ordered_rows db rows))"
  have get: "get_summary_subtree db sid = Some ?nodes" by (simp add: get_summary_subtree_def rows)
  have ids: "set (map node_id ?nodes) = set (map node_id (take subtree_hard_cap (ordered_rows db rows)))"
    "distinct (map node_id ?nodes)" using first_rows_ids[of "[]"] by auto
  note all = ordered_rows_ids[OF assms(1), of rows]
  have sub: "set (map node_id ?nodes) \<subseteq> set (map node_id (ordered_rows db rows))"
    unfolding ids(1) by (auto dest: in_set_takeD)
  have full: "set (map node_id ?nodes) = {s. (sid, s) \<in> ?E\<^sup>* \<and> (\<exists>x \<in> set (db_summaries db). sr_summary_id x = s \<and> \<not> sr_suppressed x)}"
    if "length (ordered_rows db rows) \<le> subtree_hard_cap"
  proof -
    have "take subtree_hard_cap (ordered_rows db rows) = ordered_rows db rows" using that by simp
    with ids(1) all walk_ids[OF rows] show ?thesis by auto
  qed
  have "p \<notin> set (map node_id ?nodes)" if "(p, sid) \<in> ?E" for p
  proof
    assume "p \<in> set (map node_id ?nodes)"
    with sub all walk_ids[OF rows] have "(sid, p) \<in> ?E\<^sup>*" by blast
    with that have "(p, p) \<in> ?E\<^sup>+" by (rule rtrancl_into_trancl2)
    with assms(2) show False by (simp add: acyclic_def)
  qed
  with rows get ids(2) full show ?thesis by blast
qed

text \<open>On a cycle the query does not end. If a summary that was made from the given one is, over any number of steps,
  made from itself, the recursive query goes on for ever: neither the cap nor the removal of repeated rows,
  which both come after it, is reached.\<close>

theorem subtree_cycle_never_ends:
  assumes "(sid, x) \<in> (made_from (db_summary_parents db))\<^sup>*" "(x, x) \<in> (made_from (db_summary_parents db))\<^sup>+"
  shows "get_summary_subtree db sid = None"
  using walk_cycle_None[OF assms] by (simp add: get_summary_subtree_def)

subsection \<open>What the transcript may lose\<close>

lemma collect_sound:
  "g \<in> set (collect_candidates loads left seen rows) \<Longrightarrow> \<exists>row \<in> set rows. to_gc_candidate loads row = Some g \<and> mr_message_id (fst row) \<notin> set seen"
proof (induction loads left seen rows rule: collect_candidates.induct)
  case (2 loads left seen row rows)
  then show ?case by (cases row) (auto split: if_splits option.splits)
qed simp

lemma candidate_message: "to_gc_candidate loads row = Some g \<Longrightarrow>
    gc_message_id g = mr_message_id (fst row) \<and> gc_tool_call_id g \<noteq> [] \<and> mp_metadata (snd row) \<noteq> None"
  by (cases row) (auto simp: to_gc_candidate_def Let_def split: option.splits if_splits)

lemma collect_distinct:
  "distinct (map gc_message_id (collect_candidates loads left seen rows))
    \<and> set (map gc_message_id (collect_candidates loads left seen rows)) \<inter> set seen = {}"
proof (induction loads left seen rows rule: collect_candidates.induct)
  case (2 loads left seen row rows)
  then show ?case using candidate_message[of loads row] by (auto split: option.splits)
qed simp

lemma collect_length: "1 \<le> left \<Longrightarrow> length (collect_candidates loads left seen rows) \<le> left"
proof (induction loads left seen rows rule: collect_candidates.induct)
  case (2 loads left seen row rows)
  show ?case
  proof (cases "left \<le> 1")
    case False
    then have "1 \<le> left - 1" by simp
    with 2 False show ?thesis by (auto split: option.splits)
  qed (use 2 in \<open>auto split: option.splits\<close>)
qed simp

text \<open>The transcript loses only what a summary covers and the context does not show. Every candidate is a tool
  message of the conversation that some summary was made from and that no context item of its conversation
  points to; each message is listed once, and at most the asked number of them.\<close>

theorem gc_candidates_safe:
  shows "distinct (map gc_message_id (list_transcript_gc_candidates loads db c limit))
    \<and> int (length (list_transcript_gc_candidates loads db c limit)) \<le> (if limit \<le> 0 then 25 else limit)
    \<and> list_all (\<lambda>g. list_ex (\<lambda>m. mr_message_id m = gc_message_id g \<and> mr_conversation_id m = c \<and> mr_role m = Role_Tool
        \<and> list_ex (\<lambda>(_, mid, _). mid = mr_message_id m) (db_summary_messages db)
        \<and> Msg (mr_message_id m) \<notin> set (context_refs db c)) (db_messages db))
      (list_transcript_gc_candidates loads db c limit)"
proof -
  let ?gs = "list_transcript_gc_candidates loads db c limit"
  have row: "\<exists>m \<in> set (db_messages db). mr_message_id m = gc_message_id g \<and> mr_conversation_id m = c \<and> mr_role m = Role_Tool
      \<and> summarized db m \<and> \<not> in_raw_context db m" if "g \<in> set ?gs" for g
  proof -
    from that obtain r where r: "r \<in> set (gc_rows db c)" "to_gc_candidate loads r = Some g"
      unfolding list_transcript_gc_candidates_def by (blast dest: collect_sound)
    from r(1) have "fst r \<in> set (db_messages db) \<and> mr_conversation_id (fst r) = c \<and> mr_role (fst r) = Role_Tool
      \<and> summarized db (fst r) \<and> \<not> in_raw_context db (fst r)" by (auto simp: gc_rows_def)
    with candidate_message[OF r(2)] show ?thesis by metis
  qed
  have "\<not> in_raw_context db m \<Longrightarrow> mr_conversation_id m = c \<Longrightarrow> Msg (mr_message_id m) \<notin> set (context_refs db c)" for m
    by (auto simp: in_raw_context_def list_ex_iff context_refs_def context_rows_def)
  with row have "list_all (\<lambda>g. list_ex (\<lambda>m. mr_message_id m = gc_message_id g \<and> mr_conversation_id m = c \<and> mr_role m = Role_Tool
        \<and> list_ex (\<lambda>(_, mid, _). mid = mr_message_id m) (db_summary_messages db)
        \<and> Msg (mr_message_id m) \<notin> set (context_refs db c)) (db_messages db)) ?gs"
    unfolding list_all_iff list_ex_iff[of _ "db_messages db"] summarized_def by blast
  moreover have "length ?gs \<le> (if limit \<le> 0 then 25 else nat limit)"
    unfolding list_transcript_gc_candidates_def by (rule collect_length) auto
  ultimately show ?thesis
    using collect_distinct[of loads "if limit \<le> 0 then 25 else nat limit" "[]" "gc_rows db c"]
    by (auto simp: list_transcript_gc_candidates_def split: if_splits)
qed

subsection \<open>Concrete walks\<close>

text \<open>Two leaves, the summary made from them, and one made from that.\<close>

definition pyramid :: lcm_db where
  "pyramid = empty_db\<lparr>db_summaries := map (\<lambda>sid. summary_of_input 0 (sample_input sid)) [''a'', ''b'', ''m'', ''r''],
     db_summary_parents := [(''m'', ''a'', 0), (''m'', ''b'', 1), (''r'', ''m'', 0)]\<rparr>"

lemma pyramid_wf: "wf_db pyramid"
  by (simp add: wf_db_def pyramid_def empty_db_def summary_of_input_def sample_input_def)

lemma pyramid_edges: "made_from (db_summary_parents pyramid) = {(''a'', ''m''), (''b'', ''m''), (''m'', ''r'')}"
  by (auto simp: made_from_def pyramid_def)

theorem subtree_holds_derived_witness:
  "\<exists>nodes. get_summary_subtree pyramid ''m'' = Some nodes \<and> ''a'' \<notin> set (map node_id nodes) \<and> distinct (map node_id nodes)"
proof -
  have "acyclic (made_from (db_summary_parents pyramid))"
    unfolding pyramid_edges
    by (rule acyclic_subset[OF wf_acyclic[OF wf_measure[of "\<lambda>s. if s = ''r'' then 0 else if s = ''m'' then 2 else (3 :: nat)"], THEN acyclic_converse[THEN iffD2]]])
      auto
  from subtree_holds_derived[OF pyramid_wf this, of "''m''"] show ?thesis
    by (auto simp: pyramid_edges)
qed

definition looped :: lcm_db where
  "looped = pyramid\<lparr>db_summary_parents := [(''m'', ''a'', 0), (''a'', ''m'', 0)]\<rparr>"

theorem subtree_cycle_never_ends_witness: "wf_db looped \<and> get_summary_subtree looped ''a'' = None"
proof -
  have e: "(''a'', ''m'') \<in> made_from (db_summary_parents looped)" "(''m'', ''a'') \<in> made_from (db_summary_parents looped)"
    by (auto simp: made_from_def looped_def)
  then have "(''a'', ''a'') \<in> (made_from (db_summary_parents looped))\<^sup>+" by (meson trancl.simps)
  moreover have "wf_db looped"
    by (simp add: wf_db_def looped_def pyramid_def empty_db_def summary_of_input_def sample_input_def)
  ultimately show ?thesis using subtree_cycle_never_ends[of "''a''" "''a''" looped] by simp
qed

end
