(* ===== verification/Search_Text.thy ===== *)
theory Search_Text
  imports Media_Text
begin

text \<open>
  The texts of a search: \<open>store/fts5_sanitize.py\<close>, which turns a query into quoted tokens for SQLite's full-text index,
  and \<open>store/full_text_fallback.py\<close>, which turns it into \<open>LIKE\<close> patterns and cuts the snippet of a hit, with the
  helpers for queries in Chinese, Japanese and Korean of \<open>store/summary.py\<close>. \<open>lower\<close> is Python's \<open>str.lower\<close>. What
  SQLite makes of the results is written out: the tokens of a full-text query, and \<open>LIKE\<close> with
  \<open>ESCAPE\<close>, which ignores the case of ASCII letters only, as its function \<open>LOWER\<close> does.
\<close>

subsection \<open>Quoted phrases and runs\<close>

datatype piece = Plain utext | Phrase utext

text \<open>\<open>finditer\<close> with \<open>"([^"]+)"\<close>, and the text between its matches.\<close>

function scan_phrases :: "utext \<Rightarrow> utext \<Rightarrow> piece list" where
  "scan_phrases acc [] = [Plain (rev acc)]"
| "scan_phrases acc (c # s) =
     (let run = takeWhile (\<lambda>d. d \<noteq> 34) s; rest = dropWhile (\<lambda>d. d \<noteq> 34) s in
      if c = 34 \<and> run \<noteq> [] \<and> rest \<noteq> [] then Plain (rev acc) # Phrase run # scan_phrases [] (tl rest)
      else scan_phrases (c # acc) s)"
  by pat_completeness auto
termination
proof (relation "measure (\<lambda>(acc, s). length s)")
  fix acc :: utext and c :: nat and s run rest :: utext
  assume "rest = dropWhile (\<lambda>d. d \<noteq> 34) s"
  then have "length (tl rest) \<le> length s" using length_dropWhile_le[of "\<lambda>d. d \<noteq> 34" s] by simp
  then show "(([], tl rest), acc, c # s) \<in> measure (\<lambda>(acc, s). length s)" by simp
qed auto

text \<open>The maximal runs of code points with a property: \<open>re.split\<close> on the others, empty parts dropped.\<close>

function runs_of :: "(nat \<Rightarrow> bool) \<Rightarrow> utext \<Rightarrow> utext list" where
  "runs_of P [] = []"
| "runs_of P (c # s) = (if P c then (c # takeWhile P s) # runs_of P (dropWhile P s) else runs_of P s)"
  by pat_completeness auto
termination
  by (relation "measure (\<lambda>(P, s). length s)") (auto simp: less_Suc_eq_le length_dropWhile_le)

definition gap_words :: "utext \<Rightarrow> utext list" where
  "gap_words s = runs_of (\<lambda>c. \<not> u_isspace c) s"

definition without_quotes :: "utext \<Rightarrow> utext" where
  "without_quotes s = filter (\<lambda>c. c \<noteq> 34) s"

subsection \<open>Full-text queries\<close>

definition fts_quoted :: "utext \<Rightarrow> utext" where "fts_quoted s = 34 # s @ [34]"

fun piece_tokens :: "piece \<Rightarrow> utext list" where
  "piece_tokens (Plain s) = map without_quotes (gap_words s)"
| "piece_tokens (Phrase s) = (let phrase = u_strip (without_quotes s) in if phrase = [] then [] else [phrase])"

definition query_tokens :: "utext \<Rightarrow> utext list" where
  "query_tokens raw = concat (map piece_tokens (scan_phrases [] raw))"

definition sanitize_fts5_query :: "utext \<Rightarrow> utext" where
  "sanitize_fts5_query raw =
     (let parts = map fts_quoted (query_tokens raw) in if parts = [] then [34, 34] else u_join [32] parts)"

text \<open>The tokens that SQLite reads in a full-text query: strings, in which a doubled quote stands for one, words, which may
  be operators, and other characters, which are operators or errors.\<close>

datatype fts_token = Fts_String utext | Fts_Word utext | Fts_Char nat

fun read_string :: "utext \<Rightarrow> (utext \<times> utext) option" where
  "read_string [] = None"
| "read_string (c # s) =
     (if c \<noteq> 34 then map_option (\<lambda>(t, r). (c # t, r)) (read_string s)
      else (case s of
          d # r \<Rightarrow> if d = 34 then map_option (\<lambda>(t, r'). (34 # t, r')) (read_string r) else Some ([], s)
        | [] \<Rightarrow> Some ([], [])))"

definition fts_space :: "nat \<Rightarrow> bool" where "fts_space c \<longleftrightarrow> c = 32 \<or> c = 9 \<or> c = 10 \<or> c = 13"

definition fts_bare :: "nat \<Rightarrow> bool" where
  "fts_bare c \<longleftrightarrow> u_alpha c \<or> u_digit c \<or> c = 95 \<or> c = 26 \<or> 128 \<le> c"

lemma read_string_length: "read_string s = Some (t, r) \<Longrightarrow> length r \<le> length s"
proof (induction s arbitrary: t r rule: read_string.induct)
  case (2 c s)
  then show ?case by (cases "c = 34"; cases s) (auto split: if_splits, fastforce+)
qed simp

function fts_tokens :: "utext \<Rightarrow> fts_token list option" where
  "fts_tokens [] = Some []"
| "fts_tokens (c # s) =
     (if fts_space c then fts_tokens s
      else if c = 34 then (case read_string s of
          None \<Rightarrow> None
        | Some (t, r) \<Rightarrow> map_option (\<lambda>ts. Fts_String t # ts) (fts_tokens r))
      else if fts_bare c then map_option (\<lambda>ts. Fts_Word (c # takeWhile fts_bare s) # ts) (fts_tokens (dropWhile fts_bare s))
      else map_option (\<lambda>ts. Fts_Char c # ts) (fts_tokens s))"
  by pat_completeness auto
termination
  by (relation "measure length") (auto simp: less_Suc_eq_le length_dropWhile_le dest: read_string_length)

lemma read_string_quoted: "34 \<notin> set p \<Longrightarrow> r = [] \<or> hd r \<noteq> 34 \<Longrightarrow> read_string (p @ 34 # r) = Some (p, r)"
  by (induction p) (auto split: list.split)

lemma fts_tokens_quoted:
  "34 \<notin> set p \<Longrightarrow> r = [] \<or> hd r \<noteq> 34 \<Longrightarrow> fts_tokens (fts_quoted p @ r) = map_option (\<lambda>ts. Fts_String p # ts) (fts_tokens r)"
  by (simp add: fts_quoted_def fts_space_def read_string_quoted)

lemma fts_tokens_joined:
  "list_all (\<lambda>p. 34 \<notin> set p) ps \<Longrightarrow>
     fts_tokens (concat (map (\<lambda>q. [32] @ q) (map fts_quoted ps))) = Some (map Fts_String ps)"
proof (induction ps)
  case (Cons p ps)
  have sp: "fts_tokens (32 # x) = fts_tokens x" for x by (simp add: fts_space_def)
  let ?r = "concat (map (\<lambda>q. [32] @ q) (map fts_quoted ps))"
  have "?r = [] \<or> hd ?r \<noteq> 34" by (cases ps) auto
  then have "fts_tokens (fts_quoted p @ ?r) = Some (Fts_String p # map Fts_String ps)"
    using Cons fts_tokens_quoted[of p ?r] by simp
  then show ?case by (simp add: sp comp_def del: fts_tokens.simps)
qed simp

lemma query_tokens_quote_free: "list_all (\<lambda>p. 34 \<notin> set p) (query_tokens raw)"
proof -
  have strip: "set (u_strip s) \<subseteq> set s" for s
    by (auto simp: u_strip_def u_lstrip_def u_rstrip_def dest!: set_dropWhileD)
  have free: "34 \<notin> set (u_strip (without_quotes s))" "34 \<notin> set (without_quotes s)" for s
    using strip[of "without_quotes s"] by (auto simp: without_quotes_def)
  have "list_all (\<lambda>p. 34 \<notin> set p) (piece_tokens pc)" for pc
    by (cases pc) (auto simp: list_all_iff Let_def free)
  then show ?thesis by (auto simp: query_tokens_def list_all_iff)
qed


subsection \<open>Patterns of \<open>LIKE\<close>\<close>

definition ascii_fold :: "nat \<Rightarrow> nat" where
  "ascii_fold c = (if 65 \<le> c \<and> c \<le> 90 then c + 32 else c)"

text \<open>\<open>x LIKE pattern ESCAPE '\'\<close>: \<open>%\<close> is 37, \<open>_\<close> is 95 and the escape character is 92.\<close>

function like :: "utext \<Rightarrow> utext \<Rightarrow> bool" where
  "like [] t = (t = [])"
| "like (p # ps) t =
     (if p = 92 then (case ps of [] \<Rightarrow> False
        | q # qs \<Rightarrow> (case t of [] \<Rightarrow> False | c # cs \<Rightarrow> ascii_fold q = ascii_fold c \<and> like qs cs))
      else if p = 37 then like ps t \<or> (case t of [] \<Rightarrow> False | c # cs \<Rightarrow> like (p # ps) cs)
      else (case t of [] \<Rightarrow> False | c # cs \<Rightarrow> (p = 95 \<or> ascii_fold p = ascii_fold c) \<and> like ps cs))"
  by pat_completeness auto
termination by (relation "measures [\<lambda>(p, t). length p + length t]") auto

definition escape_like :: "utext \<Rightarrow> utext" where
  "escape_like term = concat (map (\<lambda>c. if c = 92 \<or> c = 37 \<or> c = 95 then [92, c] else [c]) term)"

definition contains_pattern :: "utext \<Rightarrow> utext" where
  "contains_pattern term = [37] @ escape_like term @ [37]"

definition folds_to :: "utext \<Rightarrow> utext \<Rightarrow> bool" where
  "folds_to a b \<longleftrightarrow> map ascii_fold a = map ascii_fold b"

lemma like_percent: "like (37 # p) t \<longleftrightarrow> (\<exists>a b. t = a @ b \<and> like p b)"
proof (induction t)
  case (Cons c cs)
  have "like (37 # p) (c # cs) \<longleftrightarrow> like p (c # cs) \<or> like (37 # p) cs" by simp
  also have "\<dots> \<longleftrightarrow> (\<exists>a b. c # cs = a @ b \<and> like p b)"
    unfolding Cons.IH by (metis append_Cons append_Nil append_eq_Cons_conv)
  finally show ?case .
qed simp

lemma like_all: "like [37] t"
  by (induction t) auto

lemma like_escaped: "like (escape_like term @ p) t \<longleftrightarrow> (\<exists>a b. t = a @ b \<and> folds_to term a \<and> like p b)"
proof (induction "term" arbitrary: t)
  case Nil
  then show ?case by (simp add: escape_like_def folds_to_def)
next
  case (Cons c cs)
  have "like (escape_like (c # cs) @ p) t \<longleftrightarrow> (\<exists>d ds. t = d # ds \<and> ascii_fold c = ascii_fold d \<and> like (escape_like cs @ p) ds)"
    by (cases t) (auto simp: escape_like_def)
  also have "\<dots> \<longleftrightarrow> (\<exists>a b. t = a @ b \<and> folds_to (c # cs) a \<and> like p b)"
    unfolding Cons.IH by (auto simp: folds_to_def map_eq_Cons_conv Cons_eq_map_conv) (metis append_Cons list.simps(9))+
  finally show ?case .
qed

lemma like_contains:
  "like (contains_pattern term) t \<longleftrightarrow> (\<exists>a b c. t = a @ b @ c \<and> folds_to term b)"
proof -
  have "like (contains_pattern term) t \<longleftrightarrow> (\<exists>a b. t = a @ b \<and> (\<exists>m c. b = m @ c \<and> folds_to term m))"
    by (simp add: contains_pattern_def like_percent[of "escape_like term @ [37]"] like_escaped like_all del: like.simps)
  then show ?thesis by blast
qed

subsection \<open>The fallback plan\<close>

definition edge_punct :: "nat \<Rightarrow> bool" where
  "edge_punct c \<longleftrightarrow> c \<in> set (cps ''`'' @ [39, 34] @ cps ''()[]{}<>.,:;!?*_+=|'' @ [92] @ cps ''/-'')"

definition trim_edges :: "utext \<Rightarrow> utext" where
  "trim_edges s = rev (dropWhile edge_punct (rev (dropWhile edge_punct s)))"

definition normalize_fallback_term :: "(utext \<Rightarrow> utext) \<Rightarrow> utext \<Rightarrow> utext" where
  "normalize_fallback_term lower raw = lower (trim_edges (u_strip raw))"

text \<open>\<open>finditer\<close> with \<open>"([^"]+)"|(\S+)\<close>.\<close>

function raw_terms :: "utext \<Rightarrow> utext list" where
  "raw_terms [] = []"
| "raw_terms (c # s) =
     (let run = takeWhile (\<lambda>d. d \<noteq> 34) s; rest = dropWhile (\<lambda>d. d \<noteq> 34) s in
      if c = 34 \<and> run \<noteq> [] \<and> rest \<noteq> [] then run # raw_terms (tl rest)
      else if \<not> u_isspace c then (c # takeWhile (\<lambda>d. \<not> u_isspace d) s) # raw_terms (dropWhile (\<lambda>d. \<not> u_isspace d) s)
      else raw_terms s)"
  by pat_completeness auto
termination
proof (relation "measure length")
  fix c :: nat and s run rest :: utext
  assume "rest = dropWhile (\<lambda>d. d \<noteq> 34) s"
  then have "length (tl rest) \<le> length s" using length_dropWhile_le[of "\<lambda>d. d \<noteq> 34" s] by simp
  then show "(tl rest, c # s) \<in> measure length" by simp
next
  fix c :: nat and s :: utext
  show "(dropWhile (\<lambda>d. \<not> u_isspace d) s, c # s) \<in> measure length"
    by (simp add: less_Suc_eq_le length_dropWhile_le)
qed auto

text \<open>The terms, without empty ones and repetitions, in the order of their first occurrence.\<close>

definition unique_terms :: "utext list \<Rightarrow> utext list" where
  "unique_terms ts = rev (remdups (rev ts))"

definition build_like_search_plan :: "(utext \<Rightarrow> utext) \<Rightarrow> utext \<Rightarrow> utext list" where
  "build_like_search_plan lower query =
     (let terms = unique_terms (filter (\<lambda>t. t \<noteq> []) (map (normalize_fallback_term lower) (raw_terms query)));
          fallback = normalize_fallback_term lower query in
      if terms \<noteq> [] then terms else if fallback \<noteq> [] then [fallback] else [])"

definition sql_lower :: "utext \<Rightarrow> utext" where "sql_lower s = map ascii_fold s"

text \<open>One clause \<open>LOWER(content) LIKE ? ESCAPE '\'\<close> per term.\<close>

definition like_clause :: "utext \<Rightarrow> utext \<Rightarrow> bool" where
  "like_clause content term \<longleftrightarrow> like (contains_pattern term) (sql_lower content)"

definition plan_matches :: "utext list \<Rightarrow> utext \<Rightarrow> bool" where
  "plan_matches terms content \<longleftrightarrow> list_all (like_clause content) terms"

subsection \<open>Snippets\<close>

fun find_sub :: "utext \<Rightarrow> utext \<Rightarrow> nat option" where
  "find_sub pat [] = (if pat = [] then Some 0 else None)"
| "find_sub pat (c # s) = (if take (length pat) (c # s) = pat then Some 0 else map_option Suc (find_sub pat s))"

definition earliest_match :: "utext \<Rightarrow> utext list \<Rightarrow> (nat \<times> nat) option" where
  "earliest_match haystack terms = fold (\<lambda>term best.
     case find_sub term haystack of None \<Rightarrow> best
     | Some i \<Rightarrow> (case best of None \<Rightarrow> Some (i, length term)
         | Some (j, _) \<Rightarrow> if i < j then Some (i, length term) else best)) terms None"

definition create_fallback_snippet :: "(utext \<Rightarrow> utext) \<Rightarrow> utext \<Rightarrow> utext list \<Rightarrow> utext" where
  "create_fallback_snippet lower content terms =
     (case earliest_match (lower content) terms of
        None \<Rightarrow> (let head = u_strip content in
          if length head \<le> 80 then head else u_rstrip (take 77 head) @ cps ''...'')
      | Some (match_index, match_length) \<Rightarrow>
          (let start = match_index - 24; end_index = min (length content) (match_index + max match_length 1 + 40) in
           (if 0 < start then cps ''...'' else [])
           @ u_strip (take (end_index - start) (drop start content))
           @ (if end_index < length content then cps ''...'' else [])))"

subsection \<open>Queries in Chinese, Japanese and Korean\<close>

definition cjk_char :: "nat \<Rightarrow> bool" where
  "cjk_char c \<longleftrightarrow> (0x2E80 \<le> c \<and> c \<le> 0x9FFF) \<or> (0x3400 \<le> c \<and> c \<le> 0x4DBF) \<or> (0xF900 \<le> c \<and> c \<le> 0xFAFF)
     \<or> (0xAC00 \<le> c \<and> c \<le> 0xD7AF) \<or> (0x3040 \<le> c \<and> c \<le> 0x309F) \<or> (0x30A0 \<le> c \<and> c \<le> 0x30FF)"

definition contains_cjk :: "utext \<Rightarrow> bool" where "contains_cjk s \<longleftrightarrow> list_ex cjk_char s"

definition extract_cjk_segments :: "utext \<Rightarrow> utext list" where
  "extract_cjk_segments query = runs_of cjk_char query"

text \<open>\<open>[a-zA-Z0-9][\w./\-]*\<close>; \<open>is_alnum\<close> is the table behind \<open>\w\<close>.\<close>

definition latin_rest :: "(nat \<Rightarrow> bool) \<Rightarrow> nat \<Rightarrow> bool" where
  "latin_rest is_alnum c \<longleftrightarrow> is_alnum c \<or> c = 95 \<or> c = 46 \<or> c = 47 \<or> c = 45"

function latin_runs :: "(nat \<Rightarrow> bool) \<Rightarrow> utext \<Rightarrow> utext list" where
  "latin_runs is_alnum [] = []"
| "latin_runs is_alnum (c # s) =
     (if u_alpha c \<or> u_digit c
      then (c # takeWhile (latin_rest is_alnum) s) # latin_runs is_alnum (dropWhile (latin_rest is_alnum) s)
      else latin_runs is_alnum s)"
  by pat_completeness auto
termination
  by (relation "measure (\<lambda>(P, s). length s)") (auto simp: less_Suc_eq_le length_dropWhile_le)

definition extract_latin_tokens :: "(nat \<Rightarrow> bool) \<Rightarrow> (utext \<Rightarrow> utext) \<Rightarrow> utext \<Rightarrow> utext list" where
  "extract_latin_tokens is_alnum lower query = unique_terms (map lower (latin_runs is_alnum query))"

definition split_cjk_chunks :: "utext \<Rightarrow> nat \<Rightarrow> utext list" where
  "split_cjk_chunks s n = unique_terms (map (\<lambda>i. take n (drop i s)) [0..<length s + 1 - n])"

subsection \<open>What the plan finds\<close>

lemma unique_terms_set [simp]: "set (unique_terms ts) = set ts" "unique_terms [] = []" "unique_terms [t] = [t]"
  by (simp_all add: unique_terms_def)

definition plain_word :: "utext \<Rightarrow> bool" where
  "plain_word w \<longleftrightarrow> w \<noteq> [] \<and> list_all (\<lambda>c. \<not> u_isspace c \<and> \<not> edge_punct c) w"

lemma plain_word_plan:
  assumes "plain_word w" "lower w \<noteq> []"
  shows "build_like_search_plan lower w = [lower w]"
proof -
  obtain c s where w: "w = c # s" using assms(1) by (cases w) (auto simp: plain_word_def)
  have all: "\<forall>d \<in> set w. \<not> u_isspace d \<and> \<not> edge_punct d" using assms(1) by (simp add: plain_word_def list_all_iff)
  then have "c \<noteq> 34" by (auto simp: w edge_punct_def)
  moreover have d: "takeWhile (\<lambda>d. \<not> u_isspace d) s = s" "dropWhile (\<lambda>d. \<not> u_isspace d) s = []"
    using all by (auto simp: w takeWhile_eq_all_conv)
  ultimately have raw: "raw_terms w = [w]" using all by (simp add: w Let_def d(1)) (simp add: d(2))
  have id: "dropWhile P x = x" if "\<forall>d \<in> set x. \<not> P d" for P and x :: utext using that by (cases x) auto
  have "trim_edges (u_strip w) = w"
    using all by (simp add: trim_edges_def u_strip_def u_lstrip_def u_rstrip_def id)
  then show ?thesis using assms(2) by (simp add: build_like_search_plan_def raw normalize_fallback_term_def)
qed

lemma ascii_fold_high: "128 \<le> d \<Longrightarrow> ascii_fold c = ascii_fold d \<longleftrightarrow> c = d"
  by (auto simp: ascii_fold_def)

text \<open>A capital letter outside ASCII hides a text from its own query. Python puts the term in lower case, SQLite's
  \<open>LOWER\<close> and \<open>LIKE\<close> leave other letters than ASCII ones as they are: a word with such a capital letter, searched for
  exactly as it stands in a text that is this word, is not found.\<close>

theorem capital_letter_not_found:
  assumes "plain_word w" "d \<in> set (lower w)" "128 \<le> d" "d \<notin> set w"
  shows "build_like_search_plan lower w = [lower w] \<and> \<not> plan_matches (build_like_search_plan lower w) w"
proof -
  have plan: "build_like_search_plan lower w = [lower w]"
    using assms(1,2) by (intro plain_word_plan) auto
  have "\<not> like (contains_pattern (lower w)) (sql_lower w)"
  proof
    assume "like (contains_pattern (lower w)) (sql_lower w)"
    then obtain a b c where t: "sql_lower w = a @ b @ c" "folds_to (lower w) b"
      unfolding contains_pattern_def by (auto simp: like_percent like_escaped simp del: like.simps)
    have "ascii_fold d \<in> set (map ascii_fold (lower w))" using assms(2) by simp
    then have "ascii_fold d \<in> set (map ascii_fold b)" using t(2) by (simp only: folds_to_def)
    then obtain e where "e \<in> set b" "ascii_fold e = ascii_fold d" by auto
    then have "d \<in> set (sql_lower w)" using t(1) ascii_fold_high[OF assms(3)] by auto
    then obtain x where "x \<in> set w" "ascii_fold x = d" by (auto simp: sql_lower_def)
    with assms(3) have "x = d" by (auto simp: ascii_fold_def split: if_splits)
    with \<open>x \<in> set w\<close> assms(4) show False by simp
  qed
  then show ?thesis by (simp add: plan plan_matches_def like_clause_def)
qed

theorem capital_letter_not_found_witness:
  "\<not> plan_matches (build_like_search_plan (map (\<lambda>c. if c = 201 then 233 else c)) [201, 99]) [201, 99]"
  by (rule capital_letter_not_found[where d = 233, THEN conjunct2])
    (simp_all add: plain_word_def u_isspace_def edge_punct_def cps_def)

lemma snippet_length:
  "length (create_fallback_snippet lower content terms) \<le> max 80 (70 + Max (insert 1 (length ` set terms)))"
proof -
  have strip: "length (u_strip s) \<le> length s" "length (u_rstrip s) \<le> length s" for s
    using length_dropWhile_le[of u_isspace "rev s"] length_dropWhile_le[of u_isspace s]
      length_dropWhile_le[of u_isspace "rev (dropWhile u_isspace s)"]
    by (simp_all add: u_strip_def u_lstrip_def u_rstrip_def)
  show ?thesis
  proof (cases "earliest_match (lower content) terms")
    case None
    have "length (u_rstrip (take 77 (u_strip content))) \<le> 77" using strip(2)[of "take 77 (u_strip content)"] by simp
    with None have "length (create_fallback_snippet lower content terms) \<le> 80"
      by (simp add: create_fallback_snippet_def Let_def cps_def)
    then show ?thesis by (rule max.coboundedI1)
  next
    case (Some p)
    obtain i n where p: "p = (i, n)" by fastforce
    have fold: "fold (\<lambda>term best. case find_sub term h of None \<Rightarrow> best
       | Some i \<Rightarrow> (case best of None \<Rightarrow> Some (i, length term)
         | Some (j, _) \<Rightarrow> if i < j then Some (i, length term) else best)) ts best = Some (i, n)
       \<Longrightarrow> n \<in> length ` set ts \<or> (\<exists>j. best = Some (j, n))" for h ts best
      by (induction ts arbitrary: best) (fastforce split: option.splits if_splits prod.splits)+
    then have "n \<in> length ` set terms" using Some by (auto simp: earliest_match_def p)
    then have n: "max n 1 \<le> Max (insert 1 (length ` set terms))" by (intro Max_ge) (auto simp: max_def)
    let ?s = "take (min (length content) (i + max n 1 + 40) - (i - 24)) (drop (i - 24) content)"
    have "length (u_strip ?s) \<le> length ?s" by (rule strip(1))
    also have "\<dots> \<le> max n 1 + 64" by simp
    finally have len: "length (u_strip ?s) \<le> max n 1 + 64" .
    have "create_fallback_snippet lower content terms = (if 0 < i - 24 then cps ''...'' else []) @ u_strip ?s
        @ (if min (length content) (i + max n 1 + 40) < length content then cps ''...'' else [])"
      by (simp only: create_fallback_snippet_def Some p Let_def option.case prod.case)
    moreover have "length (if b then cps ''...'' else []) \<le> 3" for b by (simp add: cps_def)
    ultimately have "length (create_fallback_snippet lower content terms) \<le> 3 + length (u_strip ?s) + 3"
      by (simp only: length_append) (auto simp: cps_def)
    with len n have "length (create_fallback_snippet lower content terms) \<le> 70 + Max (insert 1 (length ` set terms))" by linarith
    then show ?thesis by (rule max.coboundedI2)
  qed
qed

end
