(* ===== verification/Store_Search.thy ===== *)
theory Store_Search
  imports Search_Text Context_Store "HOL-Library.Product_Lexorder"
begin

text \<open>
  The searches of \<open>store/summary.py\<close> (\<open>search_summaries\<close>) and \<open>store/conversation.py\<close> (\<open>search_messages\<close>), with
  \<open>store/conversation_scope.py\<close> and \<open>store/full_text_sort.py\<close>. The full-text tables, regular expressions and
  Python's case and word tables are arguments (\<open>search_env\<close>): \<open>se_fts\<close> gives the rows that match a full-text query,
  \<open>None\<close> when SQLite raises. Times are seconds. Where the code orders rows by the text of a
  time, the day counts first, and on one day the form with \<open>T\<close> (written by \<open>isoformat\<close>) comes after the form
  with a blank (written by \<open>datetime('now')\<close>). Rows that are equal in the order keep their place in the table.
\<close>

subsection \<open>Filters and orders\<close>

datatype search_sort = Recency | Relevance | Hybrid

record search_input =
  si_query :: utext
  si_full_text :: bool
  si_conversation_id :: "int option"
  si_conversation_ids :: "int list option"
  si_since :: "int option"
  si_before :: "int option"
  si_limit :: "int option"
  si_sort :: "search_sort option"

record ('k, 'r) search_env =
  se_lower :: "utext \<Rightarrow> utext"
  se_word :: "nat \<Rightarrow> bool"
  se_digit :: "nat \<Rightarrow> bool"
  se_compile :: "utext \<Rightarrow> (utext \<Rightarrow> utext option) option"
  se_fts5_available :: bool
  se_fts :: "utext \<Rightarrow> ('k \<times> utext \<times> 'r) list option"
  se_fts_cjk :: "utext \<Rightarrow> ('k \<times> utext \<times> 'r) list option"
  se_age_decay :: "'r \<Rightarrow> int \<Rightarrow> 'r"

text \<open>The conversations of the scope; no conversation means no constraint.\<close>

definition scope_ids :: "int option \<Rightarrow> int list option \<Rightarrow> int list" where
  "scope_ids one many = (let normalized = (case many of Some ids \<Rightarrow> rev (remdups (rev ids)) | None \<Rightarrow> []) in
     if normalized \<noteq> [] then normalized else (case one of Some c \<Rightarrow> [c] | None \<Rightarrow> []))"

definition in_scope :: "search_input \<Rightarrow> int \<Rightarrow> bool" where
  "in_scope inp c \<longleftrightarrow> (let ids = scope_ids (si_conversation_id inp) (si_conversation_ids inp) in ids = [] \<or> c \<in> set ids)"

definition in_window :: "search_input \<Rightarrow> int \<Rightarrow> bool" where
  "in_window inp t \<longleftrightarrow> (case si_since inp of Some a \<Rightarrow> a \<le> t | None \<Rightarrow> True) \<and> (case si_before inp of Some b \<Rightarrow> t < b | None \<Rightarrow> True)"

definition search_limit :: "search_input \<Rightarrow> int" where
  "search_limit inp = (case si_limit inp of Some n \<Rightarrow> n | None \<Rightarrow> 50)"

text \<open>\<open>LIMIT\<close>: a negative number is none.\<close>

definition sql_limit :: "int \<Rightarrow> 'a list \<Rightarrow> 'a list" where
  "sql_limit n xs = (if n < 0 then xs else take (nat n) xs)"

text \<open>\<open>build_fts_order_by\<close>, given the rank, the time and the key of the newest-first order of a row.\<close>

definition fts_order ::
    "('r::linorder \<Rightarrow> int \<Rightarrow> 'r) \<Rightarrow> search_sort option \<Rightarrow> ('a \<Rightarrow> 'r) \<Rightarrow> ('a \<Rightarrow> int) \<Rightarrow> ('a \<Rightarrow> 'b::linorder) \<Rightarrow> 'a list \<Rightarrow> 'a list" where
  "fts_order decay mode_opt rank time newest rows = (case (case mode_opt of Some mode \<Rightarrow> mode | None \<Rightarrow> Recency) of
     Relevance \<Rightarrow> sort_key (\<lambda>x. (rank x, newest x)) rows
   | Hybrid \<Rightarrow> sort_key (\<lambda>x. (decay (rank x) (time x), newest x)) rows
   | Recency \<Rightarrow> sort_key newest rows)"

text \<open>The guards against slow patterns: a quantifier, a closing bracket and a quantifier.\<close>

fun nested_quantifier :: "(utext \<Rightarrow> bool) \<Rightarrow> utext \<Rightarrow> bool" where
  "nested_quantifier again [] = False"
| "nested_quantifier again (c # s) =
     (c \<in> {42, 43, 63} \<and> (case s of d # r \<Rightarrow> d = 41 \<and> again r | [] \<Rightarrow> False) \<or> nested_quantifier again s)"

text \<open>The loop over the rows of a regex search, with the numbers of rows found and scanned so far.\<close>

definition regex_max_row_scan :: nat where "regex_max_row_scan = 10000"

fun regex_scan :: "('a \<Rightarrow> 'h option) \<Rightarrow> int \<Rightarrow> nat \<Rightarrow> nat \<Rightarrow> 'a list \<Rightarrow> 'h list" where
  "regex_scan hit limit found scanned [] = []"
| "regex_scan hit limit found scanned (r # rows) =
     (if limit \<le> int found \<or> regex_max_row_scan \<le> scanned then []
      else (case hit r of Some h \<Rightarrow> h # regex_scan hit limit (found + 1) (scanned + 1) rows
        | None \<Rightarrow> regex_scan hit limit found (scanned + 1) rows))"

subsection \<open>Summaries\<close>

record 'r summary_hit =
  sh_summary_id :: string
  sh_conversation_id :: int
  sh_kind :: summary_kind
  sh_snippet :: utext
  sh_created_at :: int
  sh_rank :: "'r option"

text \<open>\<open>COALESCE(latest_at, created_at)\<close>, and its place among texts of times, the newest first.\<close>

definition effective_at :: "summary_record \<Rightarrow> int" where
  "effective_at s = (case sr_latest_at s of Some t \<Rightarrow> t | None \<Rightarrow> sr_created_at s)"

definition newest_key :: "summary_record \<Rightarrow> int \<times> bool \<times> int" where
  "newest_key s = (- (effective_at s div 86400), sr_latest_at s = None, - effective_at s)"

definition summary_visible :: "search_input \<Rightarrow> summary_record \<Rightarrow> bool" where
  "summary_visible inp s \<longleftrightarrow> \<not> sr_suppressed s \<and> in_scope inp (sr_conversation_id s) \<and> in_window inp (effective_at s)"

definition summary_hit_of :: "utext \<Rightarrow> 'r option \<Rightarrow> summary_record \<Rightarrow> 'r summary_hit" where
  "summary_hit_of snippet rank s = \<lparr>sh_summary_id = sr_summary_id s, sh_conversation_id = sr_conversation_id s,
     sh_kind = sr_kind s, sh_snippet = snippet, sh_created_at = effective_at s, sh_rank = rank\<rparr>"

definition newest_summaries :: "lcm_db \<Rightarrow> (summary_record \<Rightarrow> bool) \<Rightarrow> int \<Rightarrow> summary_record list" where
  "newest_summaries db P n = sql_limit n (sort_key newest_key (filter P (db_summaries db)))"

definition join_fts_rows ::
    "lcm_db \<Rightarrow> (summary_record \<Rightarrow> bool) \<Rightarrow> (string \<times> utext \<times> 'r) list \<Rightarrow> (summary_record \<times> utext \<times> 'r) list" where
  "join_fts_rows db P rows = List.map_filter (\<lambda>(sid, snippet, rank).
     map_option (\<lambda>s. (s, snippet, rank)) (List.find (\<lambda>s. sr_summary_id s = sid \<and> P s) (db_summaries db))) rows"

definition fts_hits ::
    "(string, 'r::linorder) search_env \<Rightarrow> lcm_db \<Rightarrow> search_input \<Rightarrow> int \<Rightarrow> (summary_record \<Rightarrow> bool)
      \<Rightarrow> (string \<times> utext \<times> 'r) list \<Rightarrow> 'r summary_hit list" where
  "fts_hits env db inp limit P rows = map (\<lambda>(s, snippet, rank). summary_hit_of snippet (Some rank) s)
     (sql_limit limit (fts_order (se_age_decay env) (si_sort inp) (\<lambda>(s, _, rank). rank) (\<lambda>(s, _). effective_at s)
        (\<lambda>(s, _). newest_key s) (join_fts_rows db P rows)))"

definition search_full_text ::
    "(string, 'r::linorder) search_env \<Rightarrow> lcm_db \<Rightarrow> search_input \<Rightarrow> int \<Rightarrow> 'r summary_hit list option" where
  "search_full_text env db inp limit =
     map_option (fts_hits env db inp limit (summary_visible inp)) (se_fts env (sanitize_fts5_query (si_query inp)))"

definition search_like :: "(string, 'r) search_env \<Rightarrow> lcm_db \<Rightarrow> search_input \<Rightarrow> int \<Rightarrow> 'r summary_hit list" where
  "search_like env db inp limit =
     (let terms = build_like_search_plan (se_lower env) (si_query inp) in
      if terms = [] then []
      else map (\<lambda>s. summary_hit_of (create_fallback_snippet (se_lower env) (sr_content s) terms) None s)
        (newest_summaries db (\<lambda>s. plan_matches terms (sr_content s) \<and> summary_visible inp s) limit))"

definition trigram_group :: "utext \<Rightarrow> utext" where
  "trigram_group segment =
     (let terms = (if length segment \<le> 4 then [segment] else split_cjk_chunks segment 4) in
      cps ''('' @ u_join (cps '' OR '') (map (\<lambda>t. fts_quoted (concat (map (\<lambda>c. if c = 34 then [34, 34] else [c]) t))) (unique_terms terms))
      @ cps '')'')"

definition search_cjk_trigram ::
    "(string, 'r::linorder) search_env \<Rightarrow> lcm_db \<Rightarrow> search_input \<Rightarrow> int \<Rightarrow> 'r summary_hit list option" where
  "search_cjk_trigram env db inp limit =
     (let segments = filter (\<lambda>s. 3 \<le> length s) (extract_cjk_segments (si_query inp));
          latin = extract_latin_tokens (se_word env) (se_lower env) (si_query inp) in
      if segments = [] then Some []
      else map_option (fts_hits env db inp limit (\<lambda>s. summary_visible inp s \<and> plan_matches latin (sr_content s)))
        (se_fts_cjk env (u_join (cps '' AND '') (map trigram_group segments))))"

definition cjk_like_terms :: "utext \<Rightarrow> utext list" where
  "cjk_like_terms segment = unique_terms (if length segment \<le> 2 then [segment] else split_cjk_chunks segment 2)"

definition cjk_matches :: "(utext \<Rightarrow> utext) \<Rightarrow> utext list \<Rightarrow> utext list \<Rightarrow> utext \<Rightarrow> bool" where
  "cjk_matches lower segments latin content \<longleftrightarrow>
     list_all (\<lambda>seg. list_ex (\<lambda>t. like_clause content (lower t)) (cjk_like_terms seg)) segments \<and> plan_matches latin content"

definition search_like_cjk :: "(string, 'r) search_env \<Rightarrow> lcm_db \<Rightarrow> search_input \<Rightarrow> int \<Rightarrow> 'r summary_hit list" where
  "search_like_cjk env db inp limit =
     (let segments = extract_cjk_segments (si_query inp);
          latin = extract_latin_tokens (se_word env) (se_lower env) (si_query inp);
          snippet_terms = unique_terms (concat (map cjk_like_terms segments) @ latin) in
      if segments = [] \<and> latin = [] then []
      else map (\<lambda>s. summary_hit_of (create_fallback_snippet (se_lower env) (sr_content s) snippet_terms) None s)
        (newest_summaries db (\<lambda>s. cjk_matches (se_lower env) segments latin (sr_content s) \<and> summary_visible inp s) limit))"

definition summary_redos :: "utext \<Rightarrow> bool" where
  "summary_redos pattern \<longleftrightarrow> nested_quantifier (\<lambda>r. case r of c # _ \<Rightarrow> c \<in> {42, 43, 63, 123} | [] \<Rightarrow> False) pattern"

definition search_regex :: "(string, 'r) search_env \<Rightarrow> lcm_db \<Rightarrow> search_input \<Rightarrow> int \<Rightarrow> 'r summary_hit list" where
  "search_regex env db inp limit =
     (if 500 < length (si_query inp) \<or> summary_redos (si_query inp) then []
      else case se_compile env (si_query inp) of
        None \<Rightarrow> []
      | Some search \<Rightarrow> regex_scan (\<lambda>s. map_option (\<lambda>m. summary_hit_of m None s) (search (sr_content s))) limit 0 0
          (newest_summaries db (summary_visible inp) 10000))"

definition search_summaries :: "(string, 'r::linorder) search_env \<Rightarrow> lcm_db \<Rightarrow> search_input \<Rightarrow> 'r summary_hit list" where
  "search_summaries env db inp =
     (let limit = search_limit inp in
      if si_full_text inp then
        (if contains_cjk (si_query inp) then
           (let short = list_ex (\<lambda>seg. length seg < 3) (extract_cjk_segments (si_query inp)) in
            case (if short then None else search_cjk_trigram env db inp limit) of
              Some (h # hs) \<Rightarrow> h # hs
            | _ \<Rightarrow> search_like_cjk env db inp limit)
         else if se_fts5_available env then
           (case search_full_text env db inp limit of Some hits \<Rightarrow> hits | None \<Rightarrow> search_like env db inp limit)
         else search_like env db inp limit)
      else search_regex env db inp limit)"

subsection \<open>Messages\<close>

text \<open>\<open>_normalize_message_content_for_full_text_index\<close>.\<close>

fun reference_lines :: "bool \<Rightarrow> utext list \<Rightarrow> utext list" where
  "reference_lines in_summary [] = []"
| "reference_lines in_summary (l # ls) =
     (if l = cps ''Exploration Summary:'' then reference_lines True ls
      else if take (length ''Use lcm_describe'') l = cps ''Use lcm_describe'' then reference_lines in_summary ls
      else (if in_summary then [l] else []) @ reference_lines in_summary ls)"

definition starts_text :: "string \<Rightarrow> utext \<Rightarrow> bool" where
  "starts_text p s \<longleftrightarrow> take (length p) s = cps p"

definition normalize_for_index :: "utext \<Rightarrow> utext option" where
  "normalize_for_index content =
     (let trimmed = u_strip content in
      if trimmed = [] then None
      else if \<not> (starts_text ''[LCM File:'' trimmed \<or> starts_text ''[LCM Tool Output:'' trimmed) then Some content
      else (case filter (\<lambda>l. l \<noteq> []) (map u_strip (split_lines trimmed)) of
          [] \<Rightarrow> None
        | header # rest \<Rightarrow> Some (u_join [10] (header # reference_lines False rest))))"

record 'r message_hit =
  mh_message_id :: int
  mh_conversation_id :: int
  mh_role :: message_role
  mh_snippet :: utext
  mh_created_at :: int
  mh_rank :: "'r option"

definition message_visible :: "search_input \<Rightarrow> message_record \<Rightarrow> bool" where
  "message_visible inp m \<longleftrightarrow> \<not> mr_suppressed m \<and> in_scope inp (mr_conversation_id m) \<and> in_window inp (mr_created_at m)"

definition message_hit_of :: "utext \<Rightarrow> 'r option \<Rightarrow> message_record \<Rightarrow> 'r message_hit" where
  "message_hit_of snippet rank m = \<lparr>mh_message_id = mr_message_id m, mh_conversation_id = mr_conversation_id m,
     mh_role = mr_role m, mh_snippet = snippet, mh_created_at = mr_created_at m, mh_rank = rank\<rparr>"

definition newest_messages :: "lcm_db \<Rightarrow> (message_record \<Rightarrow> bool) \<Rightarrow> int \<Rightarrow> message_record list" where
  "newest_messages db P n = sql_limit n (sort_key (\<lambda>m. - mr_created_at m) (filter P (db_messages db)))"

definition search_messages_full_text ::
    "(int, 'r::linorder) search_env \<Rightarrow> lcm_db \<Rightarrow> search_input \<Rightarrow> int \<Rightarrow> 'r message_hit list option" where
  "search_messages_full_text env db inp limit =
     map_option (\<lambda>rows. map (\<lambda>(m, snippet, rank). message_hit_of snippet (Some rank) m)
         (sql_limit limit (fts_order (se_age_decay env) (si_sort inp) (\<lambda>(m, _, rank). rank) (\<lambda>(m, _). mr_created_at m)
            (\<lambda>(m, _). - mr_created_at m)
            (List.map_filter (\<lambda>(mid, snippet, rank). map_option (\<lambda>m. (m, snippet, rank))
                (List.find (\<lambda>m. mr_message_id m = mid \<and> message_visible inp m) (db_messages db))) rows))))
       (se_fts env (sanitize_fts5_query (si_query inp)))"

text \<open>The text that a hit is looked for in by Python, after the rows have come from SQLite.\<close>

definition indexed_text :: "message_record \<Rightarrow> utext" where
  "indexed_text m = (case normalize_for_index (mr_content m) of Some t \<Rightarrow> t | None \<Rightarrow> mr_content m)"

definition search_messages_like :: "(int, 'r) search_env \<Rightarrow> lcm_db \<Rightarrow> search_input \<Rightarrow> int \<Rightarrow> 'r message_hit list" where
  "search_messages_like env db inp limit =
     (let terms = build_like_search_plan (se_lower env) (si_query inp) in
      if terms = [] then []
      else map (\<lambda>m. message_hit_of (create_fallback_snippet (se_lower env) (indexed_text m) terms) None m)
        (filter (\<lambda>m. list_all (\<lambda>t. find_sub t (se_lower env (indexed_text m)) \<noteq> None) terms)
          (newest_messages db (\<lambda>m. plan_matches terms (mr_content m) \<and> message_visible inp m) limit)))"

definition message_redos :: "(nat \<Rightarrow> bool) \<Rightarrow> utext \<Rightarrow> bool" where
  "message_redos is_digit pattern \<longleftrightarrow> nested_quantifier (\<lambda>r. case r of
       c # s \<Rightarrow> c \<in> {42, 43, 63} \<or> c = 123 \<and> (case s of d # _ \<Rightarrow> is_digit d | [] \<Rightarrow> False) | [] \<Rightarrow> False) pattern"

definition search_messages_regex :: "(int, 'r) search_env \<Rightarrow> lcm_db \<Rightarrow> search_input \<Rightarrow> int \<Rightarrow> 'r message_hit list" where
  "search_messages_regex env db inp limit =
     (if 500 < length (si_query inp) \<or> message_redos (se_digit env) (si_query inp) then []
      else case se_compile env (si_query inp) of
        None \<Rightarrow> []
      | Some search \<Rightarrow> regex_scan (\<lambda>m. map_option (\<lambda>t. message_hit_of t None m) (search (mr_content m))) limit 0 0
          (newest_messages db (message_visible inp) 10000))"

definition search_messages :: "(int, 'r::linorder) search_env \<Rightarrow> lcm_db \<Rightarrow> search_input \<Rightarrow> 'r message_hit list" where
  "search_messages env db inp =
     (let limit = search_limit inp in
      if si_full_text inp then
        (if contains_cjk (si_query inp) then search_messages_like env db inp limit
         else if se_fts5_available env then
           (case search_messages_full_text env db inp limit of Some hits \<Rightarrow> hits | None \<Rightarrow> search_messages_like env db inp limit)
         else search_messages_like env db inp limit)
      else search_messages_regex env db inp limit)"

subsection \<open>What a search may return\<close>

lemma sql_limit_subset: "set (sql_limit n xs) \<subseteq> set xs"
  by (auto simp: sql_limit_def dest: in_set_takeD)

lemma sql_limit_length: "n < 0 \<or> int (length (sql_limit n xs)) \<le> n"
  by (auto simp: sql_limit_def)

lemma regex_scan_subset: "set (regex_scan hit limit found scanned rows) \<subseteq> {h. \<exists>r \<in> set rows. hit r = Some h}"
  by (induction hit limit found scanned rows rule: regex_scan.induct) (auto split: option.splits if_splits)

lemma regex_scan_length: "int found \<le> limit \<Longrightarrow> int found + int (length (regex_scan hit limit found scanned rows)) \<le> limit"
proof (induction hit limit found scanned rows rule: regex_scan.induct)
  case (2 hit limit found scanned r rows)
  show ?case
  proof (cases "limit \<le> int found \<or> regex_max_row_scan \<le> scanned")
    case False
    then show ?thesis using 2 by (cases "hit r") auto
  qed (use 2 in simp)
qed simp

lemma regex_scan_bound: "limit < 0 \<or> int (length (regex_scan hit limit 0 0 rows)) \<le> limit"
  using regex_scan_length[of 0 limit hit 0 rows] by force

lemma fts_order_set: "set (fts_order decay mode_opt rank time newest rows) = set rows"
  by (simp add: fts_order_def split: search_sort.splits)

text \<open>A hit stands for a row that the caller may see.\<close>

definition hit_allowed :: "lcm_db \<Rightarrow> search_input \<Rightarrow> 'r summary_hit \<Rightarrow> bool" where
  "hit_allowed db inp h \<longleftrightarrow> list_ex (\<lambda>s. summary_visible inp s \<and> sh_summary_id h = sr_summary_id s
     \<and> sh_conversation_id h = sr_conversation_id s \<and> sh_created_at h = effective_at s) (db_summaries db)"

definition hits_bounded :: "lcm_db \<Rightarrow> search_input \<Rightarrow> int \<Rightarrow> 'r summary_hit list \<Rightarrow> bool" where
  "hits_bounded db inp limit hits \<longleftrightarrow> list_all (hit_allowed db inp) hits \<and> (limit < 0 \<or> int (length hits) \<le> limit)"

lemma hit_allowedI: "s \<in> set (db_summaries db) \<Longrightarrow> summary_visible inp s \<Longrightarrow> hit_allowed db inp (summary_hit_of snippet rank s)"
  by (auto simp: hit_allowed_def summary_hit_of_def list_ex_iff)

lemma newest_summaries_subset: "s \<in> set (newest_summaries db P n) \<Longrightarrow> s \<in> set (db_summaries db) \<and> P s"
  unfolding newest_summaries_def using sql_limit_subset by fastforce

lemma newest_summaries_length: "n < 0 \<or> int (length (newest_summaries db P n)) \<le> n"
  unfolding newest_summaries_def by (rule sql_limit_length)

lemma mapped_bounded:
  assumes "\<And>s. P s \<Longrightarrow> summary_visible inp s"
  shows "hits_bounded db inp limit (map (\<lambda>s. summary_hit_of (f s) rank s) (newest_summaries db P limit))"
  unfolding hits_bounded_def list_all_iff
  using newest_summaries_length[of limit db P] assms by (auto intro!: hit_allowedI dest!: newest_summaries_subset)

lemma join_fts_subset: "(s, x) \<in> set (join_fts_rows db P rows) \<Longrightarrow> s \<in> set (db_summaries db) \<and> P s"
  by (auto simp: join_fts_rows_def set_map_filter dest!: find_SomeD)

lemma fts_hits_bounded:
  assumes "\<And>s. P s \<Longrightarrow> summary_visible inp s"
  shows "hits_bounded db inp limit (fts_hits env db inp limit P rows)"
proof -
  have "hit_allowed db inp (case x of (s, snippet, rank) \<Rightarrow> summary_hit_of snippet (Some rank) s)"
    if "x \<in> set (sql_limit limit (fts_order d m rk tm nw (join_fts_rows db P rows)))" for x d m rk tm nw
  proof -
    obtain s sn rank where x: "x = (s, sn, rank)" by (cases x)
    with that have "x \<in> set (join_fts_rows db P rows)" using sql_limit_subset fts_order_set by fastforce
    with x assms show ?thesis by (auto intro!: hit_allowedI dest!: join_fts_subset)
  qed
  then show ?thesis
    unfolding hits_bounded_def fts_hits_def list_all_iff by (auto simp: sql_limit_length split: prod.splits)
qed

lemma paths_bounded:
  "hits_bounded db inp limit (search_like env db inp limit)"
  "hits_bounded db inp limit (search_like_cjk env db inp limit)"
  "search_full_text env db inp limit = Some hits \<Longrightarrow> hits_bounded db inp limit hits"
  "search_cjk_trigram env db inp limit = Some hits \<Longrightarrow> hits_bounded db inp limit hits"
  "hits_bounded db inp limit (search_regex env db inp limit)"
proof -
  have nil: "hits_bounded db inp limit ([] :: 'a summary_hit list)" by (auto simp: hits_bounded_def)
  show "hits_bounded db inp limit (search_like env db inp limit)"
    "hits_bounded db inp limit (search_like_cjk env db inp limit)"
    by (auto simp: search_like_def search_like_cjk_def Let_def nil intro!: mapped_bounded)
  show "search_full_text env db inp limit = Some hits \<Longrightarrow> hits_bounded db inp limit hits"
    "search_cjk_trigram env db inp limit = Some hits \<Longrightarrow> hits_bounded db inp limit hits"
    by (auto simp: search_full_text_def search_cjk_trigram_def Let_def nil intro!: fts_hits_bounded split: if_splits)
  have "hits_bounded db inp limit (regex_scan (\<lambda>s. map_option (\<lambda>m. summary_hit_of m None s) (search (sr_content s))) limit 0 0
      (newest_summaries db (summary_visible inp) 10000))" for search
    unfolding hits_bounded_def list_all_iff
    by (intro conjI ballI regex_scan_bound) (auto intro!: hit_allowedI dest!: regex_scan_subset[THEN subsetD] newest_summaries_subset)
  then show "hits_bounded db inp limit (search_regex env db inp limit)"
    by (auto simp: search_regex_def nil split: option.splits)
qed

text \<open>Every search of summaries respects its filters. On each of the five paths a result is a stored
  summary that is not suppressed, belongs to the conversations asked for and whose effective time lies in the
  window asked for, and it is reported with its own conversation and time; with a limit that is not negative there are at
  most that many results, whatever the full-text index, the expressions and Python's tables give.\<close>

theorem search_respects_filters:
  "hits_bounded db inp (search_limit inp) (search_summaries env db inp)"
  unfolding search_summaries_def Let_def
  by (auto intro: paths_bounded split: option.splits list.splits if_splits)


subsection \<open>Orders and limits that hide hits\<close>

text \<open>On one day a summary with its own latest time counts as newer than one without. The times are ordered as texts, and the two
  ways they are written differ in their eleventh character: a summary that covers messages up to any time of a day
  comes before one without that column that was stored later on the same day, and a search for one result returns the older one.\<close>

theorem same_day_order_by_form:
  assumes "db_summaries db = [a, b] \<or> db_summaries db = [b, a]"
    and "sr_latest_at a = Some t" "sr_latest_at b = None" "t div 86400 = sr_created_at b div 86400"
    and "t < sr_created_at b" "P a" "P b"
  shows "newest_summaries db P 1 = [a] \<and> effective_at a < effective_at b"
  using assms by (auto simp: newest_summaries_def sql_limit_def newest_key_def effective_at_def)

definition morning_summary :: summary_record where
  "morning_summary = (summary_of_input 0 (sample_input ''a''))\<lparr>sr_latest_at := Some 100\<rparr>"

definition evening_summary :: summary_record where
  "evening_summary = summary_of_input 80000 (sample_input ''b'')"

theorem same_day_order_by_form_witness:
  "newest_summaries (empty_db\<lparr>db_summaries := [evening_summary, morning_summary]\<rparr>) (\<lambda>s. \<not> sr_suppressed s) 1 = [morning_summary]"
  by (rule same_day_order_by_form[where b = evening_summary and t = 100, THEN conjunct1])
    (simp_all add: morning_summary_def evening_summary_def summary_of_input_def sample_input_def)

text \<open>The limit counts messages that the search throws away afterwards. SQLite cuts its rows at the limit, and only then Python drops those whose
  indexed text has not every term. When the newest rows up to the limit are such ones, the search returns nothing, however many
  older messages have the terms.\<close>

theorem late_filter_hides_hits:
  assumes "build_like_search_plan (se_lower env) (si_query inp) = [t]" "0 \<le> limit"
    and "list_all (\<lambda>m. find_sub t (se_lower env (indexed_text m)) = None)
      (newest_messages db (\<lambda>m. plan_matches [t] (mr_content m) \<and> message_visible inp m) limit)"
  shows "search_messages_like env db inp limit = []"
  using assms by (simp add: search_messages_like_def list_all_iff filter_empty_conv)

text \<open>The newest message is the reference of a file, with the line that names the tool; an older one has the word itself.\<close>

definition describe_message :: "int \<Rightarrow> utext \<Rightarrow> message_record" where
  "describe_message n content = \<lparr>mr_message_id = n, mr_conversation_id = 1, mr_seq = n, mr_role = Role_User,
     mr_content = content, mr_token_count = 1, mr_identity_hash = [], mr_created_at = n, mr_suppressed = False\<rparr>"

definition describe_db :: lcm_db where
  "describe_db = empty_db\<lparr>db_messages := [describe_message 1 (cps ''ab''),
     describe_message 2 (cps ''[LCM File: f]'' @ [10] @ cps ''Use lcm_describe ab'')]\<rparr>"

definition plain_env :: "(int, int) search_env" where
  "plain_env = \<lparr>se_lower = map ascii_fold, se_word = (\<lambda>_. False), se_digit = u_digit, se_compile = (\<lambda>_. None),
     se_fts5_available = False, se_fts = (\<lambda>_. None), se_fts_cjk = (\<lambda>_. None), se_age_decay = (\<lambda>r _. r)\<rparr>"

definition describe_search :: search_input where
  "describe_search = \<lparr>si_query = cps ''ab'', si_full_text = True, si_conversation_id = None, si_conversation_ids = None,
     si_since = None, si_before = None, si_limit = Some 1, si_sort = None\<rparr>"

lemma describe_plan: "build_like_search_plan (se_lower plain_env) (si_query describe_search) = [[97, 98]]"
  by (simp add: plain_env_def describe_search_def cps_def build_like_search_plan_def normalize_fallback_term_def
      trim_edges_def edge_punct_def u_isspace_def u_strip_def u_lstrip_def u_rstrip_def ascii_fold_def)

lemma describe_newest: "newest_messages describe_db (\<lambda>m. plan_matches [[97, 98]] (mr_content m) \<and> message_visible describe_search m) 1
    = [describe_message 2 (cps ''[LCM File: f]'' @ [10] @ cps ''Use lcm_describe ab'')]"
proof -
  have "plan_matches [[97, 98]] (mr_content m)" if "m \<in> set (db_messages describe_db)" for m
    using that by (auto simp: describe_db_def describe_message_def plan_matches_def like_clause_def contains_pattern_def
        escape_like_def sql_lower_def ascii_fold_def cps_def)
  moreover have "message_visible describe_search m" if "m \<in> set (db_messages describe_db)" for m
    using that by (auto simp: describe_db_def describe_message_def describe_search_def message_visible_def in_scope_def
        scope_ids_def in_window_def)
  ultimately have "filter (\<lambda>m. plan_matches [[97, 98]] (mr_content m) \<and> message_visible describe_search m) (db_messages describe_db)
      = db_messages describe_db" by (simp add: filter_id_conv)
  then show ?thesis by (simp add: newest_messages_def sql_limit_def describe_db_def describe_message_def)
qed

theorem late_filter_hides_hits_witness: "search_messages_like plain_env describe_db describe_search 1 = []"
proof (rule late_filter_hides_hits[OF describe_plan])
  show "list_all (\<lambda>m. find_sub [97, 98] (se_lower plain_env (indexed_text m)) = None)
      (newest_messages describe_db (\<lambda>m. plan_matches [[97, 98]] (mr_content m) \<and> message_visible describe_search m) 1)"
    unfolding describe_newest
    by (simp add: indexed_text_def describe_message_def normalize_for_index_def starts_text_def cps_def u_strip_def u_lstrip_def
        u_rstrip_def u_isspace_def split_lines_def drop_cr_def u_join_def plain_env_def ascii_fold_def)
qed simp

text \<open>A pattern with nested quantifiers passes the guards when its groups are nested too: \<open>((a+))+\<close>.\<close>

lemma double_group_passes_guards:
  "\<not> summary_redos (cps ''((a+))+'') \<and> \<not> message_redos is_digit (cps ''((a+))+'') \<and> summary_redos (cps ''(a+)+'')"
  by (simp add: summary_redos_def message_redos_def cps_def)

end
