(* ===== verification/Synthesis_Prompts.thy ===== *)
theory Synthesis_Prompts
  imports Media_Text
begin

text \<open>
  The registry of prompts of \<open>synthesis/prompt_registry.py\<close>: versioned rows of \<open>lcm_prompt_registry\<close> by
  memory type, tier and pass. Registering is one transaction, which ends the active version of the lane and
  inserts the next one; the table's keys (the identifier, and the version within a lane) are SQLite's errors.
\<close>

subsection \<open>Rows\<close>

datatype memory_type = Episodic_Leaf | Episodic_Condensed | Episodic_Yearly | Procedural_Extract | Entity_Extract | Theme_Consolidation

datatype pass_kind = Single_Pass | Verify_Fidelity | Best_Of_N_Judge

record prompt_record =
  pr_prompt_id :: string
  pr_memory_type :: memory_type
  pr_tier_label :: "utext option"
  pr_pass_kind :: pass_kind
  pr_version :: int
  pr_template :: utext
  pr_model_recommendation :: "utext option"
  pr_active :: bool
  pr_bundle_version :: int
  pr_notes :: "utext option"

record register_prompt_options =
  ro_memory_type :: memory_type
  ro_pass_kind :: pass_kind
  ro_template :: utext
  ro_tier_label :: "utext option"
  ro_model_recommendation :: "utext option"
  ro_bundle_version :: int
  ro_notes :: "utext option"
  ro_prompt_id_override :: "string option"

definition normal_tier :: "utext option \<Rightarrow> utext option" where
  "normal_tier tier = (if tier = Some [] then None else tier)"

definition in_lane :: "memory_type \<Rightarrow> utext option \<Rightarrow> pass_kind \<Rightarrow> prompt_record \<Rightarrow> bool" where
  "in_lane mt tier pk r \<longleftrightarrow> pr_memory_type r = mt \<and> pr_tier_label r = tier \<and> pr_pass_kind r = pk"

text \<open>\<open>ORDER BY version DESC LIMIT 1\<close>.\<close>

definition get_active_prompt :: "prompt_record list \<Rightarrow> memory_type \<Rightarrow> utext option \<Rightarrow> pass_kind \<Rightarrow> prompt_record option" where
  "get_active_prompt rows mt tier pk =
     (case sort_key (\<lambda>r. - pr_version r) (filter (\<lambda>r. in_lane mt (normal_tier tier) pk r \<and> pr_active r) rows) of
        [] \<Rightarrow> None | r # _ \<Rightarrow> Some r)"

definition get_prompt_by_id :: "prompt_record list \<Rightarrow> string \<Rightarrow> prompt_record option" where
  "get_prompt_by_id rows pid = List.find (\<lambda>r. pr_prompt_id r = pid) rows"

text \<open>\<open>INSERT\<close>, \<open>None\<close> for an \<open>IntegrityError\<close> of the two keys.\<close>

definition insert_prompt :: "prompt_record \<Rightarrow> prompt_record list \<Rightarrow> prompt_record list option" where
  "insert_prompt r rows =
     (if list_ex (\<lambda>x. pr_prompt_id x = pr_prompt_id r
          \<or> in_lane (pr_memory_type r) (pr_tier_label r) (pr_pass_kind r) x \<and> pr_version x = pr_version r) rows
      then None else Some (rows @ [r]))"

definition lane_max_version :: "memory_type \<Rightarrow> utext option \<Rightarrow> pass_kind \<Rightarrow> prompt_record list \<Rightarrow> int" where
  "lane_max_version mt tier pk rows =
     (let versions = map pr_version (filter (in_lane mt tier pk) rows) in if versions = [] then 0 else Max (set versions))"

definition deactivate_lane :: "memory_type \<Rightarrow> utext option \<Rightarrow> pass_kind \<Rightarrow> prompt_record list \<Rightarrow> prompt_record list" where
  "deactivate_lane mt tier pk rows = map (\<lambda>r. if in_lane mt tier pk r \<and> pr_active r then r\<lparr>pr_active := False\<rparr> else r) rows"

text \<open>The rows after the transaction, and the identifier or a collision. \<open>fresh\<close> is \<open>_generate_prompt_id()\<close>.\<close>

definition register_prompt ::
    "string \<Rightarrow> register_prompt_options \<Rightarrow> prompt_record list \<Rightarrow> prompt_record list \<times> string option" where
  "register_prompt fresh opts rows =
     (let mt = ro_memory_type opts; tier = normal_tier (ro_tier_label opts); pk = ro_pass_kind opts;
          pid = (case ro_prompt_id_override opts of Some p \<Rightarrow> p | None \<Rightarrow> fresh);
          r = \<lparr>pr_prompt_id = pid, pr_memory_type = mt, pr_tier_label = tier, pr_pass_kind = pk,
               pr_version = lane_max_version mt tier pk rows + 1, pr_template = ro_template opts,
               pr_model_recommendation = ro_model_recommendation opts, pr_active = True,
               pr_bundle_version = ro_bundle_version opts, pr_notes = ro_notes opts\<rparr> in
      case insert_prompt r (deactivate_lane mt tier pk rows) of
        Some rows' \<Rightarrow> (rows', Some pid)
      | None \<Rightarrow> (rows, None))"

definition bump_bundle_version :: "prompt_record list \<Rightarrow> prompt_record list \<times> int" where
  "bump_bundle_version rows =
     (let rows' = map (\<lambda>r. if pr_active r then r\<lparr>pr_bundle_version := pr_bundle_version r + 1\<rparr> else r) rows in
      (rows', case filter pr_active rows' of [] \<Rightarrow> 0 | r # _ \<Rightarrow> pr_bundle_version r))"

subsection \<open>One active version per lane\<close>

definition lane_of :: "prompt_record \<Rightarrow> memory_type \<times> utext option \<times> pass_kind" where
  "lane_of r = (pr_memory_type r, pr_tier_label r, pr_pass_kind r)"

definition registry_ok :: "prompt_record list \<Rightarrow> bool" where
  "registry_ok rows \<longleftrightarrow> distinct (map pr_prompt_id rows) \<and> distinct (map (\<lambda>r. (lane_of r, pr_version r)) rows)
     \<and> distinct (map lane_of (filter pr_active rows)) \<and> list_all (\<lambda>r. pr_tier_label r \<noteq> Some []) rows
     \<and> list_all (\<lambda>r. pr_active r \<longrightarrow> pr_version r = lane_max_version (pr_memory_type r) (pr_tier_label r) (pr_pass_kind r) rows) rows"

text \<open>What never changes of a row.\<close>

definition fixed_part :: "prompt_record \<Rightarrow> prompt_record" where
  "fixed_part r = r\<lparr>pr_active := False, pr_bundle_version := 0\<rparr>"

datatype registry_op = Register string register_prompt_options | Bump

fun registry_step :: "registry_op \<Rightarrow> prompt_record list \<Rightarrow> prompt_record list" where
  "registry_step (Register fresh opts) rows = fst (register_prompt fresh opts rows)"
| "registry_step Bump rows = fst (bump_bundle_version rows)"

lemma in_lane_lane_of: "in_lane mt tier pk r \<longleftrightarrow> lane_of r = (mt, tier, pk)"
  by (auto simp: in_lane_def lane_of_def)

lemma lane_max_ge: "r \<in> set rows \<Longrightarrow> in_lane mt tier pk r \<Longrightarrow> pr_version r \<le> lane_max_version mt tier pk rows"
  by (auto simp: lane_max_version_def Let_def filter_empty_conv intro: Max_ge)

lemma lane_max_map:
  assumes "\<And>r. lane_of (f r) = lane_of r" "\<And>r. pr_version (f r) = pr_version r"
  shows "lane_max_version mt tier pk (map f rows) = lane_max_version mt tier pk rows"
proof -
  have "in_lane mt tier pk (f r) = in_lane mt tier pk r" for r using assms(1) by (simp add: in_lane_lane_of)
  then have "map pr_version (filter (in_lane mt tier pk) (map f rows)) = map pr_version (filter (in_lane mt tier pk) rows)"
    using assms(2) by (simp add: filter_map comp_def)
  then show ?thesis by (simp only: lane_max_version_def)
qed


lemma Max_snoc: "vs \<noteq> [] \<Longrightarrow> Max (set (vs @ [x])) = max (Max (set vs)) (x :: int)"
  by (simp add: max.commute)

lemma lane_max_append: "lane_max_version mt tier pk (rows @ [r]) =
    (if in_lane mt tier pk r then (if filter (in_lane mt tier pk) rows = [] then pr_version r
       else max (lane_max_version mt tier pk rows) (pr_version r)) else lane_max_version mt tier pk rows)"
  using Max_snoc[of "map pr_version (filter (in_lane mt tier pk) rows)" "pr_version r"]
  by (simp only: lane_max_version_def Let_def filter_append map_append) (simp del: set_append set_map set_filter)

lemma lane_of_simps [simp]:
  "lane_of (r\<lparr>pr_active := b\<rparr>) = lane_of r" "lane_of (r\<lparr>pr_bundle_version := n\<rparr>) = lane_of r"
  by (simp_all add: lane_of_def)

definition deactivated :: "memory_type \<Rightarrow> utext option \<Rightarrow> pass_kind \<Rightarrow> prompt_record \<Rightarrow> prompt_record" where
  "deactivated mt tier pk r = (if in_lane mt tier pk r \<and> pr_active r then r\<lparr>pr_active := False\<rparr> else r)"

lemma deactivated_simps [simp]:
  "pr_prompt_id (deactivated mt tier pk r) = pr_prompt_id r" "lane_of (deactivated mt tier pk r) = lane_of r"
  "pr_version (deactivated mt tier pk r) = pr_version r" "pr_tier_label (deactivated mt tier pk r) = pr_tier_label r"
  "pr_memory_type (deactivated mt tier pk r) = pr_memory_type r" "pr_pass_kind (deactivated mt tier pk r) = pr_pass_kind r"
  "fixed_part (deactivated mt tier pk r) = fixed_part r"
  "pr_active (deactivated mt tier pk r) \<longleftrightarrow> pr_active r \<and> \<not> in_lane mt tier pk r"
  by (auto simp: deactivated_def fixed_part_def lane_of_def)

lemma deactivate_lane_map: "deactivate_lane mt tier pk rows = map (deactivated mt tier pk) rows"
  by (simp add: deactivate_lane_def deactivated_def)

lemma active_after: "map lane_of (filter pr_active (map (deactivated mt tier pk) rows))
    = filter (\<lambda>l. l \<noteq> (mt, tier, pk)) (map lane_of (filter pr_active rows))"
  by (induction rows) (auto simp: in_lane_lane_of)

lemma registry_ok_register:
  assumes ok: "registry_ok rows" and opts: "register_prompt fresh opts rows = (rows', Some pid)"
  shows "registry_ok rows'"
proof -
  define mt tier pk where lane: "mt = ro_memory_type opts" "tier = normal_tier (ro_tier_label opts)" "pk = ro_pass_kind opts"
  let ?rows = "map (deactivated mt tier pk) rows"
  from opts obtain r where r: "rows' = ?rows @ [r]" "lane_of r = (mt, tier, pk)" "pr_active r"
      "pr_version r = lane_max_version mt tier pk rows + 1" "insert_prompt r ?rows = Some rows'"
    by (auto simp: register_prompt_def Let_def lane deactivate_lane_map lane_of_def insert_prompt_def split: option.splits if_splits)
  have new: "pr_prompt_id r \<notin> pr_prompt_id ` set rows"
    "\<And>x. x \<in> set rows \<Longrightarrow> lane_of x = lane_of r \<Longrightarrow> pr_version x \<noteq> pr_version r"
  proof -
    have clash: "\<not> (pr_prompt_id y = pr_prompt_id r \<or> lane_of y = lane_of r \<and> pr_version y = pr_version r)"
      if "y \<in> set ?rows" for y
      using r(5) that by (auto simp: insert_prompt_def list_ex_iff in_lane_lane_of lane_of_def split: if_splits)
    have "\<not> (pr_prompt_id x = pr_prompt_id r \<or> lane_of x = lane_of r \<and> pr_version x = pr_version r)" if "x \<in> set rows" for x
      using clash[of "deactivated mt tier pk x"] that by simp
    then show "pr_prompt_id r \<notin> pr_prompt_id ` set rows"
      "\<And>x. x \<in> set rows \<Longrightarrow> lane_of x = lane_of r \<Longrightarrow> pr_version x \<noteq> pr_version r" by (force, blast)
  qed
  have max_rows: "lane_max_version m t k ?rows = lane_max_version m t k rows" for m t k by (rule lane_max_map) simp_all
  have "distinct (map pr_prompt_id rows')" using ok new(1) by (auto simp: r(1) registry_ok_def comp_def)
  moreover have "distinct (map (\<lambda>x. (lane_of x, pr_version x)) rows')"
    using ok new(2)[of _, OF _ sym] by (fastforce simp: r(1) registry_ok_def comp_def)
  moreover have "distinct (map lane_of (filter pr_active rows'))"
    using ok by (simp add: r(1,2,3) active_after registry_ok_def)
  moreover have "tier \<noteq> Some []" by (simp add: lane normal_tier_def)
  then have "list_all (\<lambda>x. pr_tier_label x \<noteq> Some []) rows'"
    using ok r(2) by (auto simp: r(1) registry_ok_def list_all_iff lane_of_def)
  moreover have "pr_version x = lane_max_version (pr_memory_type x) (pr_tier_label x) (pr_pass_kind x) rows'"
    if "x \<in> set rows'" "pr_active x" for x
  proof (cases "x = r")
    case True
    have "lane_max_version mt tier pk rows' = pr_version r"
      using r(4) by (simp add: r(1) lane_max_append max_rows in_lane_lane_of r(2))
    moreover have "pr_memory_type r = mt" "pr_tier_label r = tier" "pr_pass_kind r = pk" using r(2) by (simp_all add: lane_of_def)
    ultimately show ?thesis by (simp add: True)
  next
    case False
    with that obtain y where y: "y \<in> set rows" "x = deactivated mt tier pk y" "pr_active y" "\<not> in_lane mt tier pk y"
      by (auto simp: r(1))
    then have "\<not> in_lane (pr_memory_type y) (pr_tier_label y) (pr_pass_kind y) r" using r(2) by (auto simp: in_lane_lane_of lane_of_def)
    with y ok show ?thesis by (auto simp: r(1) lane_max_append max_rows registry_ok_def list_all_iff)
  qed
  ultimately show ?thesis by (simp add: registry_ok_def list_all_iff)
qed

lemma registry_ok_step:
  assumes "registry_ok rows"
  shows "registry_ok (registry_step op rows)"
proof (cases op)
  case (Register fresh opts)
  then show ?thesis
    using assms registry_ok_register[of rows fresh opts] by (cases "register_prompt fresh opts rows") (auto simp: register_prompt_def Let_def split: option.splits)
next
  case Bump
  define f :: "prompt_record \<Rightarrow> prompt_record" where "f = (\<lambda>r. if pr_active r then r\<lparr>pr_bundle_version := pr_bundle_version r + 1\<rparr> else r)"
  have f: "pr_prompt_id (f r) = pr_prompt_id r" "lane_of (f r) = lane_of r" "pr_version (f r) = pr_version r" "pr_active (f r) = pr_active r"
    "pr_tier_label (f r) = pr_tier_label r" "pr_memory_type (f r) = pr_memory_type r" "pr_pass_kind (f r) = pr_pass_kind r" for r
    by (simp_all add: f_def)
  have "registry_step Bump rows = map f rows" by (simp add: bump_bundle_version_def Let_def f_def)
  moreover have "lane_max_version m t k (map f rows) = lane_max_version m t k rows" for m t k by (rule lane_max_map) (simp_all add: f)
  ultimately show ?thesis using assms Bump
    by (simp add: registry_ok_def comp_def f filter_map list_all_iff)
qed

lemma step_keeps_history: "\<exists>new. map fixed_part (registry_step op rows) = map fixed_part rows @ new"
proof (cases op)
  case (Register fresh opts)
  then show ?thesis
    by (auto simp: register_prompt_def Let_def insert_prompt_def deactivate_lane_map comp_def split: option.splits if_splits)
next
  case Bump
  have "fixed_part (if pr_active r then r\<lparr>pr_bundle_version := n\<rparr> else r) = fixed_part r" for r n by (simp add: fixed_part_def)
  then show ?thesis by (simp add: Bump bump_bundle_version_def Let_def comp_def)
qed

lemma run_registry: "registry_ok (fold registry_step ops []) \<and> (\<exists>new. map fixed_part (fold registry_step (ops @ later) []) = map fixed_part (fold registry_step ops []) @ new)"
proof
  show "registry_ok (fold registry_step ops [])"
    by (induction ops rule: rev_induct) (simp_all add: registry_ok_step, simp add: registry_ok_def)
  show "\<exists>new. map fixed_part (fold registry_step (ops @ later) []) = map fixed_part (fold registry_step ops []) @ new"
  proof (induction later rule: rev_induct)
    case (snoc op later)
    then show ?case using step_keeps_history[of op "fold registry_step (ops @ later) []"] by fastforce
  qed simp
qed

lemma active_unique:
  assumes "registry_ok rows" "r \<in> set rows" "pr_active r"
  shows "get_active_prompt rows (pr_memory_type r) (pr_tier_label r) (pr_pass_kind r) = Some r"
proof -
  have tier: "normal_tier (pr_tier_label r) = pr_tier_label r"
    using assms(1,2) by (auto simp: registry_ok_def list_all_iff normal_tier_def)
  let ?xs = "filter (\<lambda>x. in_lane (pr_memory_type r) (pr_tier_label r) (pr_pass_kind r) x \<and> pr_active x) rows"
  have eq: "x = r" if "x \<in> set ?xs" for x
  proof -
    from that have "lane_of x = lane_of r" by (auto simp: in_lane_lane_of lane_of_def)
    moreover have "inj_on lane_of (set (filter pr_active rows))" using assms(1) by (simp add: registry_ok_def distinct_map)
    ultimately show ?thesis using that assms(2,3) by (auto dest: inj_onD)
  qed
  have "r \<in> set ?xs" using assms by (auto simp: in_lane_def)
  then obtain y ys where ys: "sort_key (\<lambda>x. - pr_version x) ?xs = y # ys" by (cases "sort_key (\<lambda>x. - pr_version x) ?xs") (auto dest: arg_cong[where f = set])
  then have "y \<in> set ?xs" by (metis list.set_intros(1) set_sort)
  with eq ys show ?thesis by (simp add: get_active_prompt_def tier)
qed

lemma get_active_SomeD:
  assumes "get_active_prompt rows mt tier pk = Some r"
  shows "r \<in> set rows \<and> in_lane mt (normal_tier tier) pk r \<and> pr_active r"
proof -
  let ?xs = "filter (\<lambda>x. in_lane mt (normal_tier tier) pk x \<and> pr_active x) rows"
  from assms obtain ys where "sort_key (\<lambda>x. - pr_version x) ?xs = r # ys" by (auto simp: get_active_prompt_def split: list.splits)
  then have "r \<in> set ?xs" by (metis list.set_intros(1) set_sort)
  then show ?thesis by simp
qed

text \<open>The registry keeps one active version of each prompt and its whole history. After any registrations, failed ones
  among them, and bundle bumps, every lane has at most one active row, it is the one with the lane's highest version and the one that
  \<open>get_active_prompt\<close> returns; what it returns is active and has the memory type, the tier and the pass asked for; and no
  later operation changes the identifier, the lane, the version or the template of a row or removes one.\<close>

theorem registry_one_active:
  fixes ops later :: "registry_op list"
  defines "rows \<equiv> fold registry_step ops []"
  shows "distinct (map lane_of (filter pr_active rows))
    \<and> list_all (\<lambda>r. get_active_prompt rows (pr_memory_type r) (pr_tier_label r) (pr_pass_kind r) = Some r
        \<and> pr_version r = lane_max_version (pr_memory_type r) (pr_tier_label r) (pr_pass_kind r) rows) (filter pr_active rows)
    \<and> (case get_active_prompt rows mt tier pk of None \<Rightarrow> True
       | Some r \<Rightarrow> pr_active r \<and> pr_memory_type r = mt \<and> pr_tier_label r = normal_tier tier \<and> pr_pass_kind r = pk)
    \<and> (\<exists>new. map fixed_part (fold registry_step (ops @ later) []) = map fixed_part rows @ new)"
proof -
  have ok: "registry_ok rows" using run_registry[of ops later] by (simp add: rows_def)
  have "case get_active_prompt rows mt tier pk of None \<Rightarrow> True
      | Some r \<Rightarrow> pr_active r \<and> pr_memory_type r = mt \<and> pr_tier_label r = normal_tier tier \<and> pr_pass_kind r = pk"
    using get_active_SomeD[of rows mt tier pk] by (auto simp: in_lane_def split: option.split)
  with ok active_unique[OF ok] run_registry[of ops later] show ?thesis
    by (auto simp: registry_ok_def list_all_iff rows_def)
qed

end
