(* ===== verification/Synthesis_Dispatch.thy ===== *)
theory Synthesis_Dispatch
  imports Synthesis_Prompts
begin

text \<open>
  The synthesis of a text of memory by \<open>synthesis/dispatch.py\<close>, with the audit rows of \<open>synthesis/audit.py\<close>: one pass, a
  pass that is checked by a second one (monthly), or several candidates and a judge (yearly). The language model, the
  random identifiers, the order in which concurrent calls end, the failures of the database and Python's tables for
  \<open>\w\<close>, \<open>\d\<close> and \<open>IGNORECASE\<close> are arguments (\<open>synth_env\<close>). Latencies are whole milliseconds.
\<close>

subsection \<open>Templates\<close>

text \<open>What \<open>re\<close> makes of a replacement text: a backslash starts an escape. \<open>Whole\<close> is \<open>\g<0>\<close>, the match itself;
  \<open>None\<close> is the exception for an escape that \<open>re\<close> does not know.\<close>

datatype repl_part = Lit nat | Whole

definition known_escape :: "nat \<Rightarrow> nat option" where
  "known_escape d = map_of [(97, 7), (98, 8), (102, 12), (110, 10), (114, 13), (116, 9), (118, 11), (92, 92)] d"

definition octal_digit :: "nat \<Rightarrow> bool" where "octal_digit d \<longleftrightarrow> 48 \<le> d \<and> d \<le> 55"

definition octal_value :: "utext \<Rightarrow> nat" where
  "octal_value ds = foldl (\<lambda>n d. 8 * n + (d - 48)) 0 ds"

function compile_repl :: "utext \<Rightarrow> repl_part list option" where
  "compile_repl [] = Some []"
| "compile_repl (c # s) =
     (if c \<noteq> 92 then map_option (Cons (Lit c)) (compile_repl s)
      else case s of
        [] \<Rightarrow> None
      | d # r \<Rightarrow>
          if d = 103 then
            (let zeros = takeWhile (\<lambda>x. x = 48) (drop 1 r); rest = dropWhile (\<lambda>x. x = 48) (drop 1 r) in
             if take 1 r = [60] \<and> zeros \<noteq> [] \<and> take 1 rest = [62] then map_option (Cons Whole) (compile_repl (drop 1 rest))
             else None)
          else if d = 48 then
            (let os = takeWhile octal_digit (take 2 r) in
             map_option (Cons (Lit (octal_value os))) (compile_repl (drop (length os) r)))
          else if 49 \<le> d \<and> d \<le> 57 then
            (if octal_digit d \<and> list_all octal_digit (take 2 r) \<and> 2 \<le> length r \<and> octal_value (d # take 2 r) \<le> 255
             then map_option (Cons (Lit (octal_value (d # take 2 r)))) (compile_repl (drop 2 r)) else None)
          else case known_escape d of
            Some v \<Rightarrow> map_option (Cons (Lit v)) (compile_repl r)
          | None \<Rightarrow> if u_alpha d then None else map_option (\<lambda>ps. Lit 92 # Lit d # ps) (compile_repl r))"
  by pat_completeness auto
termination
proof (relation "measure length", goal_cases)
  case (3 c s d r zeros rest)
  then show ?case using length_dropWhile_le[of "\<lambda>x. x = 48" "drop 1 r"] by simp
qed auto

text \<open>\<open>{{\s*name\s*}}\<close> at the start of a text, and the text after it.\<close>

definition match_placeholder :: "utext \<Rightarrow> utext \<Rightarrow> utext option" where
  "match_placeholder name s =
     (let inner = dropWhile u_isspace (drop 2 s); rest = dropWhile u_isspace (drop (length name) inner) in
      if take 2 s = [123, 123] \<and> take (length name) inner = name \<and> take 2 rest = [125, 125] then Some (drop 2 rest) else None)"

definition fill_part :: "utext \<Rightarrow> repl_part list \<Rightarrow> utext" where
  "fill_part matched parts = concat (map (\<lambda>p. case p of Lit c \<Rightarrow> [c] | Whole \<Rightarrow> matched) parts)"

lemma match_placeholder_length:
  assumes "match_placeholder name s = Some rest"
  shows "length rest < length s"
proof -
  let ?inner = "dropWhile u_isspace (drop 2 s)"
  have "rest = drop 2 (dropWhile u_isspace (drop (length name) ?inner))" "take 2 s = [123, 123]"
    using assms by (auto simp: match_placeholder_def Let_def split: if_splits)
  moreover from this(2) have "2 \<le> length s" by (cases s; cases "tl s") auto
  ultimately show ?thesis
    using length_dropWhile_le[of u_isspace "drop (length name) ?inner"] length_dropWhile_le[of u_isspace "drop 2 s"] by simp
qed

function sub_placeholder :: "utext \<Rightarrow> repl_part list \<Rightarrow> utext \<Rightarrow> utext" where
  "sub_placeholder name parts [] = []"
| "sub_placeholder name parts (c # s) =
     (case match_placeholder name (c # s) of
        Some rest \<Rightarrow> fill_part (take (length (c # s) - length rest) (c # s)) parts @ sub_placeholder name parts rest
      | None \<Rightarrow> c # sub_placeholder name parts s)"
  by pat_completeness auto
termination by (relation "measure (\<lambda>(n, p, s). length s)") (auto dest: match_placeholder_length)

text \<open>\<open>pattern.sub(value, text)\<close>: the value is compiled first, whether or not the pattern occurs.\<close>

definition sub_value :: "string \<Rightarrow> utext \<Rightarrow> utext \<Rightarrow> utext option" where
  "sub_value name val text_in = map_option (\<lambda>parts. sub_placeholder (cps name) parts text_in) (compile_repl val)"

datatype tier_label = Daily | Weekly | Monthly | Yearly | Custom | Filtered

fun tier_text :: "tier_label \<Rightarrow> utext" where
  "tier_text Daily = cps ''daily''" | "tier_text Weekly = cps ''weekly''" | "tier_text Monthly = cps ''monthly''"
| "tier_text Yearly = cps ''yearly''" | "tier_text Custom = cps ''custom''" | "tier_text Filtered = cps ''filtered''"

fun memory_text :: "memory_type \<Rightarrow> utext" where
  "memory_text Episodic_Leaf = cps ''episodic-leaf''" | "memory_text Episodic_Condensed = cps ''episodic-condensed''"
| "memory_text Episodic_Yearly = cps ''episodic-yearly''" | "memory_text Procedural_Extract = cps ''procedural-extract''"
| "memory_text Entity_Extract = cps ''entity-extract''" | "memory_text Theme_Consolidation = cps ''theme-consolidation''"

record synth_request =
  sy_tier :: tier_label
  sy_memory_type :: memory_type
  sy_source_text :: utext
  sy_pass_session_id :: string
  sy_target_summary_id :: "string option"
  sy_target_cache_id :: "string option"
  sy_model_override :: "utext option"
  sy_force_model :: bool
  sy_best_of_n :: "int option"

definition render_prompt :: "utext \<Rightarrow> synth_request \<Rightarrow> utext option" where
  "render_prompt template req =
     Option.bind (sub_value ''source_text'' (sy_source_text req) template) (\<lambda>out.
     Option.bind (sub_value ''tier'' (tier_text (sy_tier req)) out) (\<lambda>out.
     sub_value ''memory_type'' (memory_text (sy_memory_type req)) out))"

definition render_verify_prompt :: "utext \<Rightarrow> utext \<Rightarrow> utext \<Rightarrow> utext option" where
  "render_verify_prompt template source candidate =
     Option.bind (sub_value ''source_text'' source template) (\<lambda>out.
     Option.bind (sub_value ''source_leaves'' source out) (\<lambda>out.
     Option.bind (sub_value ''candidate_summary'' candidate out) (\<lambda>out.
     sub_value ''draft'' candidate out)))"

definition render_judge_prompt :: "utext \<Rightarrow> utext \<Rightarrow> utext list \<Rightarrow> utext option" where
  "render_judge_prompt template source candidates =
     Option.bind (sub_value ''source_text'' source template) (\<lambda>out.
     sub_value ''candidates'' (u_join [10, 10]
       (map (\<lambda>(i, c). cps ''### Candidate '' @ dec_digits i @ [10, 10] @ c) (zip [0..<length candidates] candidates))) out)"

subsection \<open>Reading the answers\<close>

record llm_args =
  la_model :: utext
  la_prompt :: utext
  la_pass_kind :: pass_kind
  la_max_output_tokens :: "int option"

record llm_answer =
  lr_output :: utext
  lr_latency_ms :: int
  lr_cost_cents :: "int option"
  lr_actual_model :: "utext option"

text \<open>The model's answer to the call number \<open>n\<close>, or the text of its exception; the identifier number \<open>n\<close>; which inserts and
  updates SQLite refuses; the order in which the candidates of one request end.\<close>

record synth_env =
  sv_llm :: "nat \<Rightarrow> llm_args \<Rightarrow> utext + llm_answer"
  sv_audit_id :: "nat \<Rightarrow> string"
  sv_insert_fails :: "nat \<Rightarrow> bool"
  sv_update_fails :: "string \<Rightarrow> bool"
  sv_order :: "nat list"
  sv_now :: int
  sv_summaries :: "string list"
  sv_caches :: "string list"
  sv_default_model :: utext
  sv_word :: "nat \<Rightarrow> bool"
  sv_digit :: "nat \<Rightarrow> nat option"
  sv_same_letter :: "nat \<Rightarrow> nat \<Rightarrow> bool"

text \<open>A literal text at the start, as \<open>IGNORECASE\<close> matches it.\<close>

definition starts_like :: "synth_env \<Rightarrow> string \<Rightarrow> utext \<Rightarrow> bool" where
  "starts_like env p s \<longleftrightarrow> length p \<le> length s \<and> list_all2 (sv_same_letter env) (cps p) (take (length p) s)"

text \<open>\<open>(?:^|\n)\s*\<close> before a property of the rest.\<close>

fun after_newline :: "(utext \<Rightarrow> bool) \<Rightarrow> utext \<Rightarrow> bool" where
  "after_newline P [] = False"
| "after_newline P (c # s) = (c = 10 \<and> P (dropWhile u_isspace s) \<or> after_newline P s)"

definition line_starts :: "(utext \<Rightarrow> bool) \<Rightarrow> utext \<Rightarrow> bool" where
  "line_starts P s \<longleftrightarrow> P (dropWhile u_isspace s) \<or> after_newline P s"

definition parse_verify_output :: "synth_env \<Rightarrow> utext \<Rightarrow> bool" where
  "parse_verify_output env output =
     (let ok = line_starts (\<lambda>s. starts_like env ''OK'' s \<and> (case drop 2 s of [] \<Rightarrow> True | c # _ \<Rightarrow> \<not> sv_word env c)) output;
          marker = (\<lambda>p s. starts_like env p s \<and> take 1 (dropWhile u_isspace (drop (length p) s)) = [58]);
          negative = line_starts (\<lambda>s. marker ''UNSUPPORTED'' s \<or> marker ''HALLUCINATION'' s) output in
      negative \<or> \<not> ok)"

definition digit_run :: "synth_env \<Rightarrow> utext \<Rightarrow> utext" where
  "digit_run env s = takeWhile (\<lambda>c. sv_digit env c \<noteq> None) s"

definition digits_value :: "synth_env \<Rightarrow> utext \<Rightarrow> nat" where
  "digits_value env ds = foldl (\<lambda>n c. 10 * n + (case sv_digit env c of Some v \<Rightarrow> v | None \<Rightarrow> 0)) 0 ds"

text \<open>\<open>(?:^|\b)Winner\s*[:\s]\s*(\d+)\<close>: the first match.\<close>

definition winner_here :: "synth_env \<Rightarrow> utext \<Rightarrow> nat option" where
  "winner_here env s =
     (if starts_like env ''Winner'' s then
        (let spaces = takeWhile u_isspace (drop 6 s); rest = dropWhile u_isspace (drop 6 s);
             number = (\<lambda>r. if digit_run env r = [] then None else Some (digits_value env (digit_run env r))) in
         if take 1 rest = [58] then number (dropWhile u_isspace (drop 1 rest))
         else if spaces \<noteq> [] then number rest else None)
      else None)"

fun find_winner :: "synth_env \<Rightarrow> bool \<Rightarrow> utext \<Rightarrow> nat option" where
  "find_winner env after_word [] = None"
| "find_winner env after_word (c # s) =
     (case (if after_word then None else winner_here env (c # s)) of
        Some n \<Rightarrow> Some n
      | None \<Rightarrow> find_winner env (sv_word env c) s)"

function all_digits :: "synth_env \<Rightarrow> utext \<Rightarrow> nat list" where
  "all_digits env [] = []"
| "all_digits env (c # s) =
     (if sv_digit env c \<noteq> None
      then digits_value env (c # digit_run env s) # all_digits env (dropWhile (\<lambda>d. sv_digit env d \<noteq> None) s)
      else all_digits env s)"
  by pat_completeness auto
termination
  by (relation "measure (\<lambda>(e, s). length s)") (auto simp: less_Suc_eq_le length_dropWhile_le)

text \<open>The index, \<open>None\<close> for a judge failure.\<close>

definition parse_judge_output :: "synth_env \<Rightarrow> utext \<Rightarrow> nat \<Rightarrow> nat option" where
  "parse_judge_output env output n =
     (case find_winner env False output of
        Some i \<Rightarrow> if i < n then Some i else List.find (\<lambda>i. i < n) (rev (all_digits env output))
      | None \<Rightarrow> List.find (\<lambda>i. i < n) (rev (all_digits env output)))"

subsection \<open>Audit rows\<close>

datatype audit_status = Started | Completed | Failed

record audit_row =
  au_audit_id :: string
  au_pass_session_id :: string
  au_target_summary_id :: "string option"
  au_target_cache_id :: "string option"
  au_prompt_id :: string
  au_pass_kind :: pass_kind
  au_pass_input_truncated :: utext
  au_pass_output :: "utext option"
  au_status :: audit_status
  au_model_used :: utext
  au_latency_ms :: "int option"
  au_cost_usd_cents :: "int option"
  au_last_error :: "utext option"
  au_ran_at :: int

record synth_state =
  ss_prompts :: "prompt_record list"
  ss_audit :: "audit_row list"
  ss_calls :: "llm_args list"
  ss_drawn :: nat

definition audit_max_len :: nat where "audit_max_len = 8000"

definition truncate_for_audit :: "utext \<Rightarrow> utext" where
  "truncate_for_audit s = (if audit_max_len < length s then take audit_max_len s @ [0x2026] @ cps ''(truncated)'' else s)"

text \<open>\<open>INSERT\<close> with the table's key, its \<open>CHECK\<close> and its foreign keys; \<open>None\<close> for any error.\<close>

definition insert_audit_started :: "synth_env \<Rightarrow> nat \<Rightarrow> audit_row \<Rightarrow> synth_state \<Rightarrow> synth_state option" where
  "insert_audit_started env n row st =
     (if au_target_summary_id row = None \<and> au_target_cache_id row = None
        \<or> list_ex (\<lambda>x. au_audit_id x = au_audit_id row) (ss_audit st)
        \<or> \<not> list_ex (\<lambda>p. pr_prompt_id p = au_prompt_id row) (ss_prompts st)
        \<or> (case au_target_summary_id row of Some sid \<Rightarrow> sid \<notin> set (sv_summaries env) | None \<Rightarrow> False)
        \<or> (case au_target_cache_id row of Some cid \<Rightarrow> cid \<notin> set (sv_caches env) | None \<Rightarrow> False)
        \<or> sv_insert_fails env n
      then None else Some (st\<lparr>ss_audit := ss_audit st @ [row]\<rparr>))"

definition update_audit_row :: "string \<Rightarrow> (audit_row \<Rightarrow> audit_row) \<Rightarrow> synth_state \<Rightarrow> synth_state" where
  "update_audit_row aid f st = st\<lparr>ss_audit := map (\<lambda>r. if au_audit_id r = aid then f r else r) (ss_audit st)\<rparr>"

definition update_audit_failed :: "string \<Rightarrow> utext \<Rightarrow> synth_state \<Rightarrow> synth_state" where
  "update_audit_failed aid err = update_audit_row aid (\<lambda>r. r\<lparr>au_status := Failed, au_last_error := Some (take 500 err)\<rparr>)"

definition actual_model :: "utext \<Rightarrow> llm_answer \<Rightarrow> utext" where
  "actual_model model r = (case lr_actual_model r of Some m \<Rightarrow> if m = [] then model else m | None \<Rightarrow> model)"

definition update_audit_completed :: "string \<Rightarrow> utext \<Rightarrow> llm_answer \<Rightarrow> synth_state \<Rightarrow> synth_state" where
  "update_audit_completed aid model r = update_audit_row aid (\<lambda>x. x\<lparr>au_status := Completed,
     au_pass_output := Some (truncate_for_audit (lr_output r)), au_model_used := actual_model model r,
     au_latency_ms := Some (lr_latency_ms r),
     au_cost_usd_cents := (case lr_cost_cents r of Some c \<Rightarrow> Some c | None \<Rightarrow> au_cost_usd_cents x)\<rparr>)"

definition sweep_orphan_audit_starts :: "int \<Rightarrow> int \<Rightarrow> synth_state \<Rightarrow> synth_state \<times> nat" where
  "sweep_orphan_audit_starts now cutoff_minutes st =
     (let gone = (\<lambda>r. au_status r = Started \<and> au_ran_at r < now - 60 * cutoff_minutes) in
      (st\<lparr>ss_audit := filter (\<lambda>r. \<not> gone r) (ss_audit st)\<rparr>, length (filter gone (ss_audit st))))"

definition sweep_terminal_audit_rows :: "int \<Rightarrow> int \<Rightarrow> synth_state \<Rightarrow> synth_state \<times> nat" where
  "sweep_terminal_audit_rows now days st =
     (let gone = (\<lambda>r. au_status r \<noteq> Started \<and> au_ran_at r < now - 86400 * days) in
      (st\<lparr>ss_audit := filter (\<lambda>r. \<not> gone r) (ss_audit st)\<rparr>, length (filter gone (ss_audit st))))"

subsection \<open>One pass\<close>

datatype dispatch_error = Missing_Prompt | Missing_Target | Llm_Failure | Judge_Failure | Audit_Insert_Failure
  | Template_Error | Database_Error

record pass_audit_ctx =
  px_pass_session_id :: string
  px_prompt_id :: string
  px_target_summary_id :: "string option"
  px_target_cache_id :: "string option"
  px_pass_input :: utext

record pass_result =
  ps_audit_id :: string
  ps_output :: utext
  ps_latency_ms :: int
  ps_cost_cents :: "int option"

definition started_row :: "synth_env \<Rightarrow> llm_args \<Rightarrow> pass_audit_ctx \<Rightarrow> string \<Rightarrow> audit_row" where
  "started_row env args ctx aid = \<lparr>au_audit_id = aid, au_pass_session_id = px_pass_session_id ctx,
     au_target_summary_id = px_target_summary_id ctx, au_target_cache_id = px_target_cache_id ctx,
     au_prompt_id = px_prompt_id ctx, au_pass_kind = la_pass_kind args,
     au_pass_input_truncated = truncate_for_audit (px_pass_input ctx), au_pass_output = None, au_status = Started,
     au_model_used = la_model args, au_latency_ms = None, au_cost_usd_cents = None, au_last_error = None,
     au_ran_at = sv_now env\<rparr>"

text \<open>From the identifier to the call of the model; the answer comes later.\<close>

definition start_pass ::
    "synth_env \<Rightarrow> llm_args \<Rightarrow> pass_audit_ctx \<Rightarrow> synth_state \<Rightarrow> synth_state \<times> (string \<times> (utext + llm_answer)) option" where
  "start_pass env args ctx st =
     (let n = ss_drawn st; aid = sv_audit_id env n; st = st\<lparr>ss_drawn := n + 1\<rparr> in
      case insert_audit_started env n (started_row env args ctx aid) st of
        None \<Rightarrow> (st, None)
      | Some st \<Rightarrow> (st\<lparr>ss_calls := ss_calls st @ [args]\<rparr>, Some (aid, sv_llm env (length (ss_calls st)) args)))"

text \<open>From the answer on: the row, and the result.\<close>

definition finish_state :: "synth_env \<Rightarrow> utext \<Rightarrow> (string \<times> (utext + llm_answer)) option \<Rightarrow> synth_state \<Rightarrow> synth_state" where
  "finish_state env model begun st = (case begun of None \<Rightarrow> st
   | Some (aid, ans) \<Rightarrow> if sv_update_fails env aid then st
       else (case ans of Inl err \<Rightarrow> update_audit_failed aid err st | Inr r \<Rightarrow> update_audit_completed aid model r st))"

definition finish_result :: "synth_env \<Rightarrow> (string \<times> (utext + llm_answer)) option \<Rightarrow> dispatch_error + pass_result" where
  "finish_result env begun = (case begun of None \<Rightarrow> Inl Audit_Insert_Failure
   | Some (aid, ans) \<Rightarrow> if sv_update_fails env aid then Inl Database_Error
       else (case ans of Inl _ \<Rightarrow> Inl Llm_Failure
         | Inr r \<Rightarrow> Inr \<lparr>ps_audit_id = aid, ps_output = lr_output r, ps_latency_ms = lr_latency_ms r, ps_cost_cents = lr_cost_cents r\<rparr>))"

definition run_pass_with_audit ::
    "synth_env \<Rightarrow> llm_args \<Rightarrow> pass_audit_ctx \<Rightarrow> synth_state \<Rightarrow> synth_state \<times> (dispatch_error + pass_result)" where
  "run_pass_with_audit env args ctx st = (case start_pass env args ctx st of
     (st, begun) \<Rightarrow> (finish_state env (la_model args) begun st, finish_result env begun))"

subsection \<open>A request\<close>

record best_of_n_detail =
  bd_n :: nat
  bd_selected_index :: nat
  bd_candidates :: "utext list"
  bd_requested :: "int option"
  bd_capped :: bool

record synth_result =
  sx_output :: utext
  sx_primary_prompt_id :: string
  sx_audit_ids :: "string list"
  sx_total_latency_ms :: int
  sx_total_cost_cents :: int
  sx_hallucination_flagged :: "bool option"
  sx_best_of_n :: "best_of_n_detail option"

definition or_zero :: "int option \<Rightarrow> int" where "or_zero c = (case c of Some n \<Rightarrow> n | None \<Rightarrow> 0)"

definition or_model :: "utext option \<Rightarrow> utext \<Rightarrow> utext" where
  "or_model m d = (case m of Some x \<Rightarrow> if x = [] then d else x | None \<Rightarrow> d)"

definition pick_model :: "synth_env \<Rightarrow> synth_request \<Rightarrow> prompt_record \<Rightarrow> utext" where
  "pick_model env req prompt =
     (if sy_force_model req then or_model (sy_model_override req) (sv_default_model env)
      else or_model (pr_model_recommendation prompt) (or_model (sy_model_override req) (sv_default_model env)))"

definition pass_ctx :: "synth_request \<Rightarrow> prompt_record \<Rightarrow> utext \<Rightarrow> pass_audit_ctx" where
  "pass_ctx req prompt input = \<lparr>px_pass_session_id = sy_pass_session_id req, px_prompt_id = pr_prompt_id prompt,
     px_target_summary_id = sy_target_summary_id req, px_target_cache_id = sy_target_cache_id req, px_pass_input = input\<rparr>"

text \<open>The candidates run at once: all of them reach their call before one ends, and they end in some order.\<close>

fun start_candidates ::
    "synth_env \<Rightarrow> llm_args \<Rightarrow> pass_audit_ctx \<Rightarrow> nat \<Rightarrow> synth_state \<Rightarrow> synth_state \<times> (string \<times> (utext + llm_answer)) option list" where
  "start_candidates env args ctx 0 st = (st, [])"
| "start_candidates env args ctx (Suc n) st = (case start_pass env args ctx st of (st, begun) \<Rightarrow>
     (case start_candidates env args ctx n st of (st, rest) \<Rightarrow> (st, begun # rest)))"

definition ending_order :: "synth_env \<Rightarrow> nat \<Rightarrow> nat list" where
  "ending_order env n = (let o' = filter (\<lambda>i. i < n) (remdups (sv_order env)) in o' @ filter (\<lambda>i. i \<notin> set o') [0..<n])"

definition successes :: "('a + 'b) list \<Rightarrow> 'b list" where
  "successes xs = List.map_filter (\<lambda>x. case x of Inl _ \<Rightarrow> None | Inr y \<Rightarrow> Some y) xs"

definition best_detail :: "nat \<Rightarrow> nat \<Rightarrow> utext list \<Rightarrow> best_of_n_detail" where
  "best_detail n i outputs = \<lparr>bd_n = n, bd_selected_index = i, bd_candidates = outputs, bd_requested = None, bd_capped = False\<rparr>"

text \<open>The judge of two and more candidates.\<close>

definition judge_candidates ::
    "synth_env \<Rightarrow> synth_request \<Rightarrow> prompt_record \<Rightarrow> utext \<Rightarrow> pass_result list \<Rightarrow> synth_state \<Rightarrow> synth_state \<times> (dispatch_error + synth_result)" where
  "judge_candidates env req prompt model cands st =
     (case get_active_prompt (ss_prompts st) (sy_memory_type req) (Some (tier_text (sy_tier req))) Best_Of_N_Judge of
        None \<Rightarrow> (st, Inl Missing_Prompt)
      | Some judge \<Rightarrow>
     (case render_judge_prompt (pr_template judge) (sy_source_text req) (map ps_output cands) of
        None \<Rightarrow> (st, Inl Template_Error)
      | Some rendered \<Rightarrow>
     (case run_pass_with_audit env \<lparr>la_model = model, la_prompt = rendered, la_pass_kind = Best_Of_N_Judge,
           la_max_output_tokens = Some 50\<rparr> (pass_ctx req judge (u_join [10, 45, 45, 45, 10] (map ps_output cands))) st of
        (st, Inl e) \<Rightarrow> (st, Inl e)
      | (st, Inr jr) \<Rightarrow>
     (case parse_judge_output env (ps_output jr) (length cands) of
        None \<Rightarrow> (st, Inl Judge_Failure)
      | Some i \<Rightarrow> (st, Inr \<lparr>sx_output = ps_output (cands ! i), sx_primary_prompt_id = pr_prompt_id prompt,
           sx_audit_ids = map ps_audit_id cands @ [ps_audit_id jr],
           sx_total_latency_ms = sum_list (map ps_latency_ms cands) + ps_latency_ms jr,
           sx_total_cost_cents = sum_list (map (\<lambda>c. or_zero (ps_cost_cents c)) cands) + or_zero (ps_cost_cents jr),
           sx_hallucination_flagged = None, sx_best_of_n = Some (best_detail (length cands) i (map ps_output cands))\<rparr>)))))"

definition run_best_of_n_yearly ::
    "synth_env \<Rightarrow> synth_request \<Rightarrow> prompt_record \<Rightarrow> utext \<Rightarrow> nat \<Rightarrow> synth_state \<Rightarrow> synth_state \<times> (dispatch_error + synth_result)" where
  "run_best_of_n_yearly env req prompt model n st =
     (case render_prompt (pr_template prompt) req of None \<Rightarrow> (st, Inl Template_Error)
      | Some rendered \<Rightarrow>
     (let args = \<lparr>la_model = model, la_prompt = rendered, la_pass_kind = Single_Pass, la_max_output_tokens = None\<rparr> in
      case start_candidates env args (pass_ctx req prompt (sy_source_text req)) n st of (st, begun) \<Rightarrow>
      let st = fold (\<lambda>i. finish_state env model (begun ! i)) (ending_order env n) st;
          cands = successes (map (finish_result env) begun) in
      case cands of
        [] \<Rightarrow> (st, Inl Llm_Failure)
      | [sole] \<Rightarrow> (st, Inr \<lparr>sx_output = ps_output sole, sx_primary_prompt_id = pr_prompt_id prompt, sx_audit_ids = [ps_audit_id sole],
            sx_total_latency_ms = ps_latency_ms sole, sx_total_cost_cents = or_zero (ps_cost_cents sole),
            sx_hallucination_flagged = None, sx_best_of_n = Some (best_detail 1 0 [ps_output sole])\<rparr>)
      | _ \<Rightarrow> judge_candidates env req prompt model cands st))"

definition hard_cap_best_of_n :: int where "hard_cap_best_of_n = 5"

definition with_request :: "int \<Rightarrow> synth_result \<Rightarrow> synth_result" where
  "with_request requested r = r\<lparr>sx_best_of_n := map_option (\<lambda>d. d\<lparr>bd_requested := Some requested,
     bd_capped := hard_cap_best_of_n < requested\<rparr>) (sx_best_of_n r)\<rparr>"

definition verify_pass ::
    "synth_env \<Rightarrow> synth_request \<Rightarrow> utext \<Rightarrow> synth_result \<Rightarrow> synth_state \<Rightarrow> synth_state \<times> (dispatch_error + synth_result)" where
  "verify_pass env req model res st =
     (case get_active_prompt (ss_prompts st) (sy_memory_type req) (Some (tier_text (sy_tier req))) Verify_Fidelity of
        None \<Rightarrow> (st, Inr res)
      | Some prompt \<Rightarrow>
     (case render_verify_prompt (pr_template prompt) (sy_source_text req) (sx_output res) of
        None \<Rightarrow> (st, Inl Template_Error)
      | Some rendered \<Rightarrow>
     (case run_pass_with_audit env \<lparr>la_model = model, la_prompt = rendered, la_pass_kind = Verify_Fidelity,
           la_max_output_tokens = Some 100\<rparr> (pass_ctx req prompt (sx_output res)) st of
        (st, Inl e) \<Rightarrow> (st, Inl e)
      | (st, Inr v) \<Rightarrow> (st, Inr (res\<lparr>sx_audit_ids := sx_audit_ids res @ [ps_audit_id v],
           sx_total_latency_ms := sx_total_latency_ms res + ps_latency_ms v,
           sx_total_cost_cents := sx_total_cost_cents res + or_zero (ps_cost_cents v),
           sx_hallucination_flagged := Some (parse_verify_output env (ps_output v))\<rparr>)))))"

definition synthesize :: "synth_env \<Rightarrow> synth_request \<Rightarrow> synth_state \<Rightarrow> synth_state \<times> (dispatch_error + synth_result)" where
  "synthesize env req st =
     (if sy_target_summary_id req = None \<and> sy_target_cache_id req = None then (st, Inl Missing_Target)
      else case get_active_prompt (ss_prompts st) (sy_memory_type req) (Some (tier_text (sy_tier req))) Single_Pass of
        None \<Rightarrow> (st, Inl Missing_Prompt)
      | Some prompt \<Rightarrow>
        (let model = pick_model env req prompt in
         if sy_tier req = Yearly then
           (let requested = (case sy_best_of_n req of Some n \<Rightarrow> n | None \<Rightarrow> 3) in
            case run_best_of_n_yearly env req prompt model (nat (max 1 (min hard_cap_best_of_n requested))) st of
              (st, Inl e) \<Rightarrow> (st, Inl e)
            | (st, Inr r) \<Rightarrow> (st, Inr (with_request requested r)))
         else
           (case render_prompt (pr_template prompt) req of None \<Rightarrow> (st, Inl Template_Error)
            | Some rendered \<Rightarrow>
           (case run_pass_with_audit env \<lparr>la_model = model, la_prompt = rendered, la_pass_kind = Single_Pass,
                 la_max_output_tokens = None\<rparr> (pass_ctx req prompt (sy_source_text req)) st of
              (st, Inl e) \<Rightarrow> (st, Inl e)
            | (st, Inr single) \<Rightarrow>
              (let res = \<lparr>sx_output = ps_output single, sx_primary_prompt_id = pr_prompt_id prompt,
                     sx_audit_ids = [ps_audit_id single], sx_total_latency_ms = ps_latency_ms single,
                     sx_total_cost_cents = or_zero (ps_cost_cents single), sx_hallucination_flagged = None, sx_best_of_n = None\<rparr> in
               if sy_tier req = Monthly then verify_pass env req model res st else (st, Inr res))))))"

subsection \<open>Audit rows of a request\<close>

definition finish_row :: "synth_env \<Rightarrow> utext \<Rightarrow> (string \<times> (utext + llm_answer)) option \<Rightarrow> audit_row \<Rightarrow> audit_row" where
  "finish_row env model begun row = (case begun of None \<Rightarrow> row
   | Some (aid, ans) \<Rightarrow> if sv_update_fails env aid \<or> au_audit_id row \<noteq> aid then row
       else (case ans of Inl err \<Rightarrow> row\<lparr>au_status := Failed, au_last_error := Some (take 500 err)\<rparr>
         | Inr r \<Rightarrow> row\<lparr>au_status := Completed,
             au_pass_output := Some (truncate_for_audit (lr_output r)), au_model_used := actual_model model r,
             au_latency_ms := Some (lr_latency_ms r),
             au_cost_usd_cents := (case lr_cost_cents r of Some c \<Rightarrow> Some c | None \<Rightarrow> au_cost_usd_cents row)\<rparr>))"

lemma finish_state_map: "finish_state env model begun st = st\<lparr>ss_audit := map (finish_row env model begun) (ss_audit st)\<rparr>"
proof -
  have off: "finish_row env model None = id" "sv_update_fails env aid \<Longrightarrow> finish_row env model (Some (aid, ans)) = id" for aid ans
    by (simp_all add: finish_row_def fun_eq_iff)
  have on: "finish_row env model (Some (aid, ans)) = (\<lambda>row. if au_audit_id row = aid then
      (case ans of Inl err \<Rightarrow> row\<lparr>au_status := Failed, au_last_error := Some (take 500 err)\<rparr>
         | Inr r \<Rightarrow> row\<lparr>au_status := Completed,
             au_pass_output := Some (truncate_for_audit (lr_output r)), au_model_used := actual_model model r,
             au_latency_ms := Some (lr_latency_ms r),
             au_cost_usd_cents := (case lr_cost_cents r of Some c \<Rightarrow> Some c | None \<Rightarrow> au_cost_usd_cents row)\<rparr>) else row)"
    if "\<not> sv_update_fails env aid" for aid ans
    using that by (simp add: finish_row_def fun_eq_iff)
  show ?thesis
    by (auto simp: finish_state_def off on update_audit_failed_def update_audit_completed_def update_audit_row_def
        split: option.split sum.split)
qed

lemma finish_row_simps [simp]:
  "au_audit_id (finish_row env model begun row) = au_audit_id row"
  "au_pass_kind (finish_row env model begun row) = au_pass_kind row"
  by (simp_all add: finish_row_def split: option.split sum.split)

lemma finish_row_other: "(\<And>aid ans. begun = Some (aid, ans) \<Longrightarrow> au_audit_id row \<noteq> aid) \<Longrightarrow> finish_row env model begun row = row"
  by (auto simp: finish_row_def split: option.split)

lemma finish_row_open: "au_status (finish_row env model begun row) = Started \<Longrightarrow> au_status row = Started"
  by (auto simp: finish_row_def split: option.splits sum.splits if_splits)

lemma finish_row_closes:
  "begun = Some (au_audit_id row, ans) \<Longrightarrow> \<not> sv_update_fails env (au_audit_id row) \<Longrightarrow> au_status (finish_row env model begun row) \<noteq> Started"
  by (auto simp: finish_row_def split: sum.split)

definition finish_all :: "synth_env \<Rightarrow> utext \<Rightarrow> (string \<times> (utext + llm_answer)) option list \<Rightarrow> nat list \<Rightarrow> audit_row \<Rightarrow> audit_row" where
  "finish_all env model begun order = fold (\<lambda>i. finish_row env model (begun ! i)) order"

lemma finish_fold_map: "fold (\<lambda>i. finish_state env model (begun ! i)) order st
    = st\<lparr>ss_audit := map (finish_all env model begun order) (ss_audit st)\<rparr>"
  by (induction order arbitrary: st) (simp_all add: finish_all_def finish_state_map comp_def)

lemma finish_all_simps [simp]:
  "au_audit_id (finish_all env model begun order row) = au_audit_id row"
  "au_pass_kind (finish_all env model begun order row) = au_pass_kind row"
  by (induction order arbitrary: row) (simp_all add: finish_all_def)

lemma finish_all_other:
  "(\<And>i aid ans. i \<in> set order \<Longrightarrow> begun ! i = Some (aid, ans) \<Longrightarrow> au_audit_id row \<noteq> aid) \<Longrightarrow> finish_all env model begun order row = row"
proof (induction order)
  case (Cons i order)
  then have "finish_row env model (begun ! i) row = row" by (intro finish_row_other) auto
  moreover have "finish_all env model begun order row = row" using Cons.prems by (intro Cons.IH) auto
  ultimately show ?case by (simp add: finish_all_def)
qed (simp add: finish_all_def)

lemma finish_all_open: "au_status (finish_all env model begun order row) = Started \<Longrightarrow> au_status row = Started"
  by (induction order arbitrary: row) (auto simp: finish_all_def dest: finish_row_open)

lemma finish_all_closes:
  "i \<in> set order \<Longrightarrow> begun ! i = Some (au_audit_id row, ans) \<Longrightarrow> \<not> sv_update_fails env (au_audit_id row) \<Longrightarrow>
     au_status (finish_all env model begun order row) \<noteq> Started"
proof (induction order arbitrary: row)
  case (Cons j order)
  let ?row = "finish_row env model (begun ! j) row"
  have eq: "finish_all env model begun (j # order) row = finish_all env model begun order ?row" by (simp add: finish_all_def)
  show ?case
  proof (cases "i = j")
    case True
    then have "au_status ?row \<noteq> Started" using Cons.prems by (intro finish_row_closes) auto
    then show ?thesis unfolding eq by (blast dest: finish_all_open)
  next
    case False
    then show ?thesis unfolding eq using Cons by simp
  qed
qed simp

lemma ending_order_set: "set (ending_order env n) = {..<n}"
  by (auto simp: ending_order_def Let_def)

text \<open>How a state grows: rows for calls, of the same passes in the same order, all of them closed unless SQLite refused.\<close>

definition grown :: "synth_env \<Rightarrow> synth_state \<Rightarrow> synth_state \<Rightarrow> audit_row list \<Rightarrow> llm_args list \<Rightarrow> bool" where
  "grown env st st' new calls \<longleftrightarrow> ss_audit st' = ss_audit st @ new \<and> ss_calls st' = ss_calls st @ calls
     \<and> ss_prompts st' = ss_prompts st \<and> map au_pass_kind new = map la_pass_kind calls
     \<and> list_all (\<lambda>r. au_status r = Started \<longrightarrow> sv_update_fails env (au_audit_id r)) new"

lemma grown_refl: "grown env st st [] []"
  by (simp add: grown_def)

lemma grown_trans: "grown env st st1 new1 calls1 \<Longrightarrow> grown env st1 st2 new2 calls2 \<Longrightarrow> grown env st st2 (new1 @ new2) (calls1 @ calls2)"
  by (simp add: grown_def)

lemma start_pass_cases:
  assumes "start_pass env args ctx st = (st', begun)"
  obtains (refused) "begun = None" "ss_audit st' = ss_audit st" "ss_calls st' = ss_calls st" "ss_prompts st' = ss_prompts st"
  | (begun) row where "begun = Some (au_audit_id row, sv_llm env (length (ss_calls st)) args)"
      "ss_audit st' = ss_audit st @ [row]" "ss_calls st' = ss_calls st @ [args]" "ss_prompts st' = ss_prompts st"
      "au_pass_kind row = la_pass_kind args" "au_audit_id row \<notin> au_audit_id ` set (ss_audit st)"
proof (cases begun)
  case None
  then show ?thesis using assms refused by (auto simp: start_pass_def Let_def insert_audit_started_def split: option.splits if_splits)
next
  case (Some b)
  let ?row = "started_row env args ctx (sv_audit_id env (ss_drawn st))"
  have row: "au_audit_id ?row = sv_audit_id env (ss_drawn st)" "au_pass_kind ?row = la_pass_kind args" by (simp_all add: started_row_def)
  have "\<not> list_ex (\<lambda>x. au_audit_id x = au_audit_id ?row) (ss_audit st)"
    using assms Some by (auto simp: start_pass_def Let_def insert_audit_started_def split: option.splits if_splits)
  with assms Some row show ?thesis
    by (intro that(2)[of ?row])
      (auto simp: start_pass_def Let_def insert_audit_started_def list_ex_iff split: option.splits if_splits)
qed

lemma run_pass_grown:
  assumes "run_pass_with_audit env args ctx st = (st', res)"
  shows "\<exists>new calls. grown env st st' new calls \<and> length calls \<le> 1 \<and>
    (case res of Inl _ \<Rightarrow> True | Inr p \<Rightarrow> calls = [args]
       \<and> (\<exists>ans. sv_llm env (length (ss_calls st)) args = Inr ans \<and> ps_output p = lr_output ans))"
proof -
  obtain st1 begun where b: "start_pass env args ctx st = (st1, begun)" by fastforce
  then have st': "st' = finish_state env (la_model args) begun st1" "res = finish_result env begun"
    using assms by (simp_all add: run_pass_with_audit_def)
  from b show ?thesis
  proof (cases rule: start_pass_cases)
    case refused
    then have "grown env st st' [] []" by (simp add: st' grown_def finish_state_def)
    then show ?thesis using refused(1) by (intro exI[of _ "[]"]) (simp add: st' finish_result_def)
  next
    case (begun row)
    have old: "finish_row env (la_model args) begun r = r" if "r \<in> set (ss_audit st)" for r
      using that begun(1,6) by (intro finish_row_other) (metis image_eqI option.inject prod.inject)
    then have "map (finish_row env (la_model args) begun) (ss_audit st) = ss_audit st" by (simp add: map_idI)
    moreover have "au_status (finish_row env (la_model args) begun row) = Started \<longrightarrow> sv_update_fails env (au_audit_id row)"
      using finish_row_closes[OF begun(1)] by blast
    ultimately have "grown env st st' [finish_row env (la_model args) begun row] [args]"
      using begun by (simp add: st' grown_def finish_state_map)
    then show ?thesis
      by (intro exI[of _ "[finish_row env (la_model args) begun row]"] exI[of _ "[args]"])
        (auto simp: st' begun(1) finish_result_def split: sum.splits)
  qed
qed

lemma start_candidates_grown:
  assumes "start_candidates env args ctx n st = (st', begun)"
  shows "\<exists>rows. ss_audit st' = ss_audit st @ rows \<and> ss_calls st' = ss_calls st @ replicate (length rows) args
    \<and> ss_prompts st' = ss_prompts st \<and> length begun = n \<and> length rows \<le> n
    \<and> list_all (\<lambda>r. au_pass_kind r = la_pass_kind args \<and> (\<exists>i < n. \<exists>ans. begun ! i = Some (au_audit_id r, ans))) rows
    \<and> au_audit_id ` set rows \<inter> au_audit_id ` set (ss_audit st) = {}
    \<and> (\<forall>i aid ans. i < n \<longrightarrow> begun ! i = Some (aid, ans) \<longrightarrow> aid \<in> au_audit_id ` set rows
        \<and> (\<exists>k < length rows. ans = sv_llm env (length (ss_calls st) + k) args))"
  using assms
proof (induction n arbitrary: st st' begun)
  case (Suc n)
  from Suc.prems obtain st1 b bs where b: "start_pass env args ctx st = (st1, b)"
    and bs: "start_candidates env args ctx n st1 = (st', bs)" "begun = b # bs"
    by (auto split: prod.splits)
  from Suc.IH[OF bs(1)] obtain rows where rows: "ss_audit st' = ss_audit st1 @ rows"
    "ss_calls st' = ss_calls st1 @ replicate (length rows) args" "ss_prompts st' = ss_prompts st1" "length bs = n" "length rows \<le> n"
    "list_all (\<lambda>r. au_pass_kind r = la_pass_kind args \<and> (\<exists>i < n. \<exists>ans. bs ! i = Some (au_audit_id r, ans))) rows"
    "au_audit_id ` set rows \<inter> au_audit_id ` set (ss_audit st1) = {}"
    "\<forall>i aid ans. i < n \<longrightarrow> bs ! i = Some (aid, ans) \<longrightarrow> aid \<in> au_audit_id ` set rows
        \<and> (\<exists>k < length rows. ans = sv_llm env (length (ss_calls st1) + k) args)"
    by blast
  have shift: "\<exists>i < Suc n. \<exists>ans. begun ! i = Some (au_audit_id r, ans)" if "\<exists>i < n. \<exists>ans. bs ! i = Some (au_audit_id r, ans)" for r
    using that bs(2) by (metis Suc_mono nth_Cons_Suc)
  from b show ?case
  proof (cases rule: start_pass_cases)
    case refused
    have "list_all (\<lambda>r. au_pass_kind r = la_pass_kind args \<and> (\<exists>i < Suc n. \<exists>ans. begun ! i = Some (au_audit_id r, ans))) rows"
      using rows(6) shift unfolding list_all_iff by blast
    moreover have "aid \<in> au_audit_id ` set rows \<and> (\<exists>k < length rows. ans = sv_llm env (length (ss_calls st) + k) args)"
      if "i < Suc n" "begun ! i = Some (aid, ans)" for i aid ans
      using that rows(8) refused(1,3) bs(2) by (cases i) auto
    ultimately show ?thesis using refused rows bs(2) by (intro exI[of _ rows]) auto
  next
    case (begun row)
    have "\<exists>i < Suc n. \<exists>ans. (b # bs) ! i = Some (au_audit_id row, ans)" using begun(1) by (intro exI[of _ 0]) simp
    then have "list_all (\<lambda>r. au_pass_kind r = la_pass_kind args \<and> (\<exists>i < Suc n. \<exists>ans. (b # bs) ! i = Some (au_audit_id r, ans))) (row # rows)"
      using begun(5) rows(6) shift[unfolded bs(2)] unfolding list_all_iff list.set by blast
    moreover have "aid \<in> au_audit_id ` set (row # rows) \<and> (\<exists>k < length (row # rows). ans = sv_llm env (length (ss_calls st) + k) args)"
      if "i < Suc n" "(b # bs) ! i = Some (aid, ans)" for i aid ans
    proof (cases i)
      case 0
      with that begun(1) show ?thesis by (intro conjI exI[of _ 0]) auto
    next
      case (Suc j)
      then have "j < n" "bs ! j = Some (aid, ans)" using that by simp_all
      with rows(8) obtain k where "aid \<in> au_audit_id ` set rows" "k < length rows" "ans = sv_llm env (length (ss_calls st1) + k) args" by blast
      with begun(3) show ?thesis by (intro conjI exI[of _ "Suc k"]) auto
    qed
    ultimately show ?thesis
      by (intro exI[of _ "row # rows"] conjI allI impI) (use begun rows bs(2) in auto)
  qed
qed auto

lemma successes_iff: "y \<in> set (successes xs) \<longleftrightarrow> Inr y \<in> set xs"
  by (induction xs) (auto simp: successes_def map_filter_simps split: sum.splits)

lemma successes_length: "length (successes xs) \<le> length xs"
  by (induction xs) (auto simp: successes_def map_filter_simps split: sum.splits)

lemma candidates_finish_grown:
  assumes "start_candidates env args ctx n st = (st1, begun)"
    and "st2 = fold (\<lambda>i. finish_state env model (begun ! i)) (ending_order env n) st1"
  shows "\<exists>new calls. grown env st st2 new calls \<and> length calls \<le> n \<and> set calls \<subseteq> {args}
    \<and> list_all (\<lambda>p. \<exists>k < length calls. \<exists>ans. sv_llm env (length (ss_calls st) + k) args = Inr ans \<and> ps_output p = lr_output ans)
        (successes (map (finish_result env) begun))
    \<and> length (successes (map (finish_result env) begun)) \<le> n"
proof -
  from start_candidates_grown[OF assms(1)] obtain rows where rows: "ss_audit st1 = ss_audit st @ rows"
    "ss_calls st1 = ss_calls st @ replicate (length rows) args" "ss_prompts st1 = ss_prompts st" "length begun = n" "length rows \<le> n"
    "list_all (\<lambda>r. au_pass_kind r = la_pass_kind args \<and> (\<exists>i < n. \<exists>ans. begun ! i = Some (au_audit_id r, ans))) rows"
    "au_audit_id ` set rows \<inter> au_audit_id ` set (ss_audit st) = {}"
    "\<And>i aid ans. i < n \<Longrightarrow> begun ! i = Some (aid, ans) \<Longrightarrow> aid \<in> au_audit_id ` set rows
        \<and> (\<exists>k < length rows. ans = sv_llm env (length (ss_calls st) + k) args)"
    by blast
  let ?F = "finish_all env model begun (ending_order env n)"
  have "?F r = r" if "r \<in> set (ss_audit st)" for r
    using that rows(7) rows(8) by (intro finish_all_other) (fastforce simp: ending_order_set)
  then have old: "map ?F (ss_audit st) = ss_audit st" by (simp add: map_idI)
  have closed: "au_status (?F r) = Started \<longrightarrow> sv_update_fails env (au_audit_id r)" if "r \<in> set rows" for r
    using that rows(6) finish_all_closes[of _ "ending_order env n" begun r] by (fastforce simp: list_all_iff ending_order_set)
  have "map au_pass_kind (map ?F rows) = map la_pass_kind (replicate (length rows) args)"
    using rows(6) by (intro nth_equalityI) (auto simp: list_all_length)
  then have "grown env st st2 (map ?F rows) (replicate (length rows) args)"
    using closed by (simp add: assms(2) finish_fold_map grown_def rows(1,2,3) old list_all_iff)
  moreover have "\<exists>k < length rows. \<exists>ans. sv_llm env (length (ss_calls st) + k) args = Inr ans \<and> ps_output p = lr_output ans"
    if "p \<in> set (successes (map (finish_result env) begun))" for p
  proof -
    from that have "Inr p \<in> finish_result env ` set begun" by (simp add: successes_iff)
    then obtain i where i: "i < n" "finish_result env (begun ! i) = Inr p"
      using rows(4) by (metis imageE in_set_conv_nth)
    then obtain aid ans where "begun ! i = Some (aid, Inr ans)" "ps_output p = lr_output ans"
      by (auto simp: finish_result_def split: option.splits if_splits sum.splits)
    with rows(8)[OF i(1)] show ?thesis by metis
  qed
  moreover have "length (successes (map (finish_result env) begun)) \<le> n"
    using rows(4) successes_length[of "map (finish_result env) begun"] by simp
  ultimately show ?thesis
    using rows(5) by (intro exI[of _ "map ?F rows"] exI[of _ "replicate (length rows) args"]) (auto simp: list_all_iff)
qed

text \<open>What a request may answer: the output of a primary call of its own.\<close>

definition said_by_model :: "synth_env \<Rightarrow> synth_state \<Rightarrow> synth_state \<Rightarrow> utext \<Rightarrow> bool" where
  "said_by_model env st st' out \<longleftrightarrow> (\<exists>k args ans. k < length (ss_calls st') \<and> length (ss_calls st) \<le> k \<and> ss_calls st' ! k = args
     \<and> la_pass_kind args = Single_Pass \<and> sv_llm env k args = Inr ans \<and> lr_output ans = out)"

definition request_ok :: "synth_env \<Rightarrow> nat \<Rightarrow> synth_state \<Rightarrow> synth_state \<Rightarrow> dispatch_error + synth_result \<Rightarrow> bool" where
  "request_ok env bound st st' res \<longleftrightarrow> (\<exists>new calls. grown env st st' new calls \<and> length calls \<le> bound)
     \<and> (case res of Inl _ \<Rightarrow> True | Inr r \<Rightarrow> said_by_model env st st' (sx_output r)
         \<and> (case sx_best_of_n r of None \<Rightarrow> True
            | Some d \<Rightarrow> bd_n d = length (bd_candidates d) \<and> bd_selected_index d < bd_n d \<and> bd_n d < bound
                \<and> sx_output r = bd_candidates d ! bd_selected_index d))"

lemma said_by_modelI:
  assumes "grown env st st1 new calls" "grown env st1 st2 new2 calls2" "k < length calls" "calls ! k = args"
    and "la_pass_kind args = Single_Pass" "sv_llm env (length (ss_calls st) + k) args = Inr ans"
  shows "said_by_model env st st2 (lr_output ans)"
  unfolding said_by_model_def using assms
  by (intro exI[of _ "length (ss_calls st) + k"] exI[of _ args] exI[of _ ans]) (simp add: grown_def nth_append)

lemma parse_judge_bound: "parse_judge_output env out n = Some i \<Longrightarrow> i < n"
  by (auto simp: parse_judge_output_def dest!: find_SomeD split: option.splits if_splits)

lemma all_args: "set calls \<subseteq> {a} \<Longrightarrow> k < length calls \<Longrightarrow> calls ! k = a"
  using nth_mem by blast

lemma judge_candidates_grown:
  assumes "judge_candidates env req prompt model cands st = (st', res)"
  shows "\<exists>new calls. grown env st st' new calls \<and> length calls \<le> 1 \<and> (case res of Inl _ \<Rightarrow> True
    | Inr r \<Rightarrow> \<exists>i < length cands. sx_output r = ps_output (cands ! i)
        \<and> sx_best_of_n r = Some (best_detail (length cands) i (map ps_output cands)))"
proof (cases "get_active_prompt (ss_prompts st) (sy_memory_type req) (Some (tier_text (sy_tier req))) Best_Of_N_Judge")
  case None
  then show ?thesis using assms grown_refl[of env st] by (intro exI[of _ "[]"]) (auto simp: judge_candidates_def)
next
  case (Some judge)
  show ?thesis
  proof (cases "render_judge_prompt (pr_template judge) (sy_source_text req) (map ps_output cands)")
    case None
    then show ?thesis using assms Some grown_refl[of env st] by (intro exI[of _ "[]"]) (auto simp: judge_candidates_def)
  next
    case (Some rj)
    obtain st1 jres where j: "run_pass_with_audit env \<lparr>la_model = model, la_prompt = rj, la_pass_kind = Best_Of_N_Judge,
        la_max_output_tokens = Some 50\<rparr> (pass_ctx req judge (u_join [10, 45, 45, 45, 10] (map ps_output cands))) st = (st1, jres)"
      by fastforce
    from run_pass_grown[OF j] obtain new calls where g: "grown env st st1 new calls" "length calls \<le> 1" by blast
    have "st' = st1 \<and> (case res of Inl _ \<Rightarrow> True
        | Inr r \<Rightarrow> \<exists>i < length cands. sx_output r = ps_output (cands ! i)
            \<and> sx_best_of_n r = Some (best_detail (length cands) i (map ps_output cands)))"
    proof (cases "case jres of Inl _ \<Rightarrow> None | Inr jr \<Rightarrow> parse_judge_output env (ps_output jr) (length cands)")
      case None
      then show ?thesis using assms j Some \<open>get_active_prompt _ _ _ _ = Some judge\<close>
        by (auto simp: judge_candidates_def split: sum.splits)
    next
      case (Some i)
      then obtain jr where "jres = Inr jr" "parse_judge_output env (ps_output jr) (length cands) = Some i" by (auto split: sum.splits)
      moreover from this(2) have "i < length cands" by (rule parse_judge_bound)
      ultimately show ?thesis using assms j \<open>render_judge_prompt _ _ _ = Some rj\<close> \<open>get_active_prompt _ _ _ _ = Some judge\<close>
        by (auto simp: judge_candidates_def)
    qed
    then show ?thesis using g by blast
  qed
qed

lemma run_best_of_n_ok:
  assumes "run_best_of_n_yearly env req prompt model n st = (st', res)"
  shows "request_ok env (n + 1) st st' res"
proof (cases "render_prompt (pr_template prompt) req")
  case None
  then show ?thesis using assms grown_refl[of env st] by (auto simp: run_best_of_n_yearly_def request_ok_def intro!: exI[of _ "[]"])
next
  case (Some rendered)
  define args where "args = \<lparr>la_model = model, la_prompt = rendered, la_pass_kind = Single_Pass, la_max_output_tokens = None\<rparr>"
  obtain st1 begun where b: "start_candidates env args (pass_ctx req prompt (sy_source_text req)) n st = (st1, begun)" by fastforce
  define st2 where "st2 = fold (\<lambda>i. finish_state env model (begun ! i)) (ending_order env n) st1"
  define cands where "cands = successes (map (finish_result env) begun)"
  from candidates_finish_grown[OF b st2_def] obtain new calls where g: "grown env st st2 new calls" "length calls \<le> n" "set calls \<subseteq> {args}"
    "list_all (\<lambda>p. \<exists>k < length calls. \<exists>ans. sv_llm env (length (ss_calls st) + k) args = Inr ans \<and> ps_output p = lr_output ans) cands"
    "length cands \<le> n"
    unfolding cands_def by blast
  have said: "said_by_model env st st3 (ps_output p)" if "p \<in> set cands" "grown env st2 st3 new2 calls2" for p st3 new2 calls2
  proof -
    from that(1) g(4) obtain k ans where k: "k < length calls" "sv_llm env (length (ss_calls st) + k) args = Inr ans" "ps_output p = lr_output ans"
      unfolding list_all_iff by blast
    show ?thesis unfolding k(3)
      by (rule said_by_modelI[OF g(1) that(2) k(1) all_args[OF g(3) k(1)] _ k(2)]) (simp add: args_def)
  qed
  have few: "\<exists>new calls. grown env st st2 new calls \<and> length calls \<le> n + 1" using g(1,2) by (intro exI[of _ new] exI[of _ calls]) simp
  note res = assms[unfolded run_best_of_n_yearly_def, simplified Some option.case Let_def args_def[symmetric] b prod.case
      st2_def[symmetric] cands_def[symmetric]]
  show ?thesis
  proof (cases cands)
    case Nil
    then show ?thesis using res few by (auto simp: request_ok_def)
  next
    case (Cons c cs)
    show ?thesis
    proof (cases cs)
      case Nil
      then show ?thesis using res Cons few g(5) said[OF _ grown_refl, of c] by (auto simp: request_ok_def best_detail_def)
    next
      case (Cons d ds)
      with res \<open>cands = c # cs\<close> have j: "judge_candidates env req prompt model cands st2 = (st', res)" by simp
      from judge_candidates_grown[OF j] obtain new2 calls2 where g2: "grown env st2 st' new2 calls2" "length calls2 \<le> 1"
        "case res of Inl _ \<Rightarrow> True | Inr r \<Rightarrow> \<exists>i < length cands. sx_output r = ps_output (cands ! i)
          \<and> sx_best_of_n r = Some (best_detail (length cands) i (map ps_output cands))" by blast
      have "\<exists>new calls. grown env st st' new calls \<and> length calls \<le> n + 1"
        using grown_trans[OF g(1) g2(1)] g(2) g2(2) by (intro exI conjI) auto
      with g2(3) g(5) said[OF nth_mem g2(1)] show ?thesis
        by (auto simp: request_ok_def best_detail_def split: sum.splits)
    qed
  qed
qed

lemma request_fails: "request_ok env bound st st (Inl e)"
  using grown_refl[of env st] by (auto simp: request_ok_def intro!: exI[of _ "[]"])

lemma request_ok_mono:
  assumes "request_ok env b st st' res" "b \<le> b'"
  shows "request_ok env b' st st' res"
proof -
  from assms obtain new calls where "grown env st st' new calls" "length calls \<le> b'" by (auto simp: request_ok_def)
  then have "\<exists>new calls. grown env st st' new calls \<and> length calls \<le> b'" by blast
  with assms show ?thesis unfolding request_ok_def by (auto split: sum.splits option.splits)
qed

lemma verify_pass_ok:
  assumes "verify_pass env req model single st1 = (st', res)" "grown env st st1 new calls" "length calls \<le> 1"
    and "said_by_model env st st1 (sx_output single)" "sx_best_of_n single = None"
  shows "request_ok env 2 st st' res"
proof -
  have few: "\<exists>new calls. grown env st st1 new calls \<and> length calls \<le> 2" using assms(2,3) by (intro exI[of _ new] exI[of _ calls]) simp
  have mono: "said_by_model env st st2 (sx_output single)" if "grown env st1 st2 new2 calls2" for st2 new2 calls2
  proof -
    from assms(4) obtain k args ans where "k < length (ss_calls st1)" "length (ss_calls st) \<le> k" "ss_calls st1 ! k = args"
      "la_pass_kind args = Single_Pass" "sv_llm env k args = Inr ans" "lr_output ans = sx_output single"
      unfolding said_by_model_def by blast
    then show ?thesis using that unfolding said_by_model_def grown_def
      by (intro exI[of _ k] exI[of _ args] exI[of _ ans]) (simp add: nth_append)
  qed
  show ?thesis
  proof (cases "get_active_prompt (ss_prompts st1) (sy_memory_type req) (Some (tier_text (sy_tier req))) Verify_Fidelity")
    case None
    then show ?thesis using assms few by (auto simp: verify_pass_def request_ok_def)
  next
    case (Some vp)
    show ?thesis
    proof (cases "render_verify_prompt (pr_template vp) (sy_source_text req) (sx_output single)")
      case None
      then show ?thesis using assms(1) Some few by (auto simp: verify_pass_def request_ok_def)
    next
      case (Some rv)
      obtain st2 vres where v: "run_pass_with_audit env \<lparr>la_model = model, la_prompt = rv, la_pass_kind = Verify_Fidelity,
          la_max_output_tokens = Some 100\<rparr> (pass_ctx req vp (sx_output single)) st1 = (st2, vres)" by fastforce
      from run_pass_grown[OF v] obtain new2 calls2 where g2: "grown env st1 st2 new2 calls2" "length calls2 \<le> 1" by blast
      have "\<exists>new calls. grown env st st2 new calls \<and> length calls \<le> 2"
        using grown_trans[OF assms(2) g2(1)] assms(3) g2(2) by (intro exI conjI) auto
      then show ?thesis using assms(1,5) v Some \<open>get_active_prompt _ _ _ _ = Some vp\<close> mono[OF g2(1)]
        by (auto simp: verify_pass_def request_ok_def split: sum.splits)
    qed
  qed
qed

lemma plain_request_ok:
  assumes p: "get_active_prompt (ss_prompts st) (sy_memory_type req) (Some (tier_text (sy_tier req))) Single_Pass = Some prompt"
    "\<not> (sy_target_summary_id req = None \<and> sy_target_cache_id req = None)"
    and tier: "sy_tier req \<noteq> Yearly"
  shows "case synthesize env req st of (st', res) \<Rightarrow> request_ok env 2 st st' res"
proof (cases "render_prompt (pr_template prompt) req")
  case None
  then show ?thesis using tier p by (auto simp: synthesize_def Let_def request_fails)
next
  case (Some rendered)
  define model where "model = pick_model env req prompt"
  define args where "args = \<lparr>la_model = model, la_prompt = rendered, la_pass_kind = Single_Pass, la_max_output_tokens = None\<rparr>"
  obtain st1 r1 where r: "run_pass_with_audit env args (pass_ctx req prompt (sy_source_text req)) st = (st1, r1)" by fastforce
  from run_pass_grown[OF r] obtain new calls where g: "grown env st st1 new calls" "length calls \<le> 1"
    "case r1 of Inl _ \<Rightarrow> True | Inr p \<Rightarrow> calls = [args] \<and> (\<exists>ans. sv_llm env (length (ss_calls st)) args = Inr ans \<and> ps_output p = lr_output ans)"
    by blast
  have few: "\<exists>new calls. grown env st st1 new calls \<and> length calls \<le> 2" using g(1,2) by (intro exI[of _ new] exI[of _ calls]) simp
  show ?thesis
  proof (cases r1)
    case (Inl e)
    then show ?thesis using tier p r Some few by (auto simp: synthesize_def Let_def model_def args_def request_ok_def)
  next
    case (Inr single)
    define res1 where "res1 = \<lparr>sx_output = ps_output single, sx_primary_prompt_id = pr_prompt_id prompt,
               sx_audit_ids = [ps_audit_id single], sx_total_latency_ms = ps_latency_ms single,
               sx_total_cost_cents = or_zero (ps_cost_cents single), sx_hallucination_flagged = None, sx_best_of_n = None\<rparr>"
    from g(3) Inr obtain ans where "calls = [args]" "sv_llm env (length (ss_calls st)) args = Inr ans" "ps_output single = lr_output ans" by auto
    then have said: "said_by_model env st st1 (sx_output res1)"
      using said_by_modelI[OF g(1) grown_refl, of 0 args ans] by (simp add: args_def res1_def)
    have none: "sx_best_of_n res1 = None" by (simp add: res1_def)
    have "synthesize env req st = (if sy_tier req = Monthly then verify_pass env req model res1 st1 else (st1, Inr res1))"
      by (simp only: synthesize_def p(1) p(2)[THEN eq_False[THEN iffD2]] tier[THEN eq_False[THEN iffD2]] if_False Let_def option.case
          Some prod.case sum.case model_def[symmetric] args_def[symmetric] r Inr res1_def)
    moreover have "case verify_pass env req model res1 st1 of (st', res) \<Rightarrow> request_ok env 2 st st' res"
      using verify_pass_ok[OF _ g(1,2) said none] by (auto split: prod.split)
    ultimately show ?thesis using few said none by (auto simp: request_ok_def)
  qed
qed

lemma yearly_request_ok:
  assumes p: "get_active_prompt (ss_prompts st) (sy_memory_type req) (Some (tier_text (sy_tier req))) Single_Pass = Some prompt"
    "\<not> (sy_target_summary_id req = None \<and> sy_target_cache_id req = None)"
    and tier: "sy_tier req = Yearly"
  shows "case synthesize env req st of (st', res) \<Rightarrow> request_ok env 6 st st' res"
proof -
  define model where "model = pick_model env req prompt"
  define n where "n = (case sy_best_of_n req of Some n \<Rightarrow> n | None \<Rightarrow> 3)"
  obtain st1 r1 where r: "run_best_of_n_yearly env req prompt model (nat (max 1 (min hard_cap_best_of_n n))) st = (st1, r1)" by fastforce
  have n: "nat (max 1 (min hard_cap_best_of_n n)) + 1 \<le> 6" by (simp add: hard_cap_best_of_n_def)
  have "request_ok env 6 st st1 r1" by (rule request_ok_mono[OF run_best_of_n_ok[OF r] n])
  then show ?thesis using tier p r
    by (auto simp: synthesize_def Let_def model_def n_def request_ok_def with_request_def split: sum.splits option.splits)
qed

text \<open>C29. Every call of the model leaves one audit row, and the answer is one the model gave. Whatever the model, the
  database, the identifiers and the order of concurrent calls do, a request appends exactly one row per call, of the same pass and in the
  same order, touches no row of another request, and leaves none of its rows open unless SQLite refused the update; it makes at most
  two calls, and at most six for a year; its text is the output of a primary call of its own; and for a
  year the chosen index lies among at most five candidates and names the text that is returned.\<close>

theorem synthesis_audited:
  "case synthesize env req st of (st', res) \<Rightarrow> request_ok env (if sy_tier req = Yearly then 6 else 2) st st' res"
proof (cases "sy_target_summary_id req = None \<and> sy_target_cache_id req = None
    \<or> get_active_prompt (ss_prompts st) (sy_memory_type req) (Some (tier_text (sy_tier req))) Single_Pass = None")
  case True
  then show ?thesis by (auto simp: synthesize_def request_fails)
next
  case False
  then obtain prompt where "get_active_prompt (ss_prompts st) (sy_memory_type req) (Some (tier_text (sy_tier req))) Single_Pass = Some prompt"
    "\<not> (sy_target_summary_id req = None \<and> sy_target_cache_id req = None)" by blast
  note p = this
  show ?thesis using plain_request_ok[OF p] yearly_request_ok[OF p] by (cases "sy_tier req = Yearly") simp_all
qed

subsection \<open>Texts with backslashes\<close>

lemma compile_repl_bad:
  assumes "92 \<notin> set a" "u_alpha d" "known_escape d = None" "d \<noteq> 103"
  shows "compile_repl (a @ 92 # d # b) = None"
  using assms(1)
proof (induction a)
  case Nil
  have d: "\<not> (49 \<le> d \<and> d \<le> 57)" "d \<noteq> 48" using assms(2) by (auto simp: u_alpha_def)
  show ?case unfolding append_Nil compile_repl.simps
    by (subst if_not_P, simp, simp only: list.case, subst if_not_P[OF assms(4)], subst if_not_P[OF d(2)], subst if_not_P[OF d(1)])
      (simp add: assms(2,3))
qed simp

lemma compile_repl_plain: "92 \<notin> set a \<Longrightarrow> compile_repl a = Some (map Lit a)"
  by (induction a) simp_all

text \<open>C30. A backslash in the conversation stops the synthesis. When the source text has, at its first backslash, a letter that
  \<open>re\<close> does not know as an escape (a path \<open>C:\users\<close>, a pattern \<open>\d\<close>), no request for it succeeds, whatever its tier,
  prompt and model: the template engine raises before the first row is written and the first call is made.\<close>

theorem backslash_stops_synthesis:
  assumes "sy_source_text req = a @ [92, d] @ b" "92 \<notin> set a" "u_alpha d" "known_escape d = None" "d \<noteq> 103"
  shows "fst (synthesize env req st) = st \<and> snd (synthesize env req st) \<in> {Inl Missing_Target, Inl Missing_Prompt, Inl Template_Error}"
proof -
  have "compile_repl (sy_source_text req) = None" using compile_repl_bad[OF assms(2-5)] by (simp add: assms(1))
  then have "render_prompt t req = None" for t by (simp add: render_prompt_def sub_value_def)
  then show ?thesis by (auto simp: synthesize_def run_best_of_n_yearly_def Let_def split: option.splits)
qed

definition week_prompt :: prompt_record where
  "week_prompt = \<lparr>pr_prompt_id = ''p'', pr_memory_type = Episodic_Condensed, pr_tier_label = Some (cps ''weekly''),
     pr_pass_kind = Single_Pass, pr_version = 1, pr_template = cps ''Summarize {{source_text}}'', pr_model_recommendation = None,
     pr_active = True, pr_bundle_version = 1, pr_notes = None\<rparr>"

definition week_request :: "utext \<Rightarrow> synth_request" where
  "week_request source = \<lparr>sy_tier = Weekly, sy_memory_type = Episodic_Condensed, sy_source_text = source, sy_pass_session_id = ''s'',
     sy_target_summary_id = Some ''x'', sy_target_cache_id = None, sy_model_override = None, sy_force_model = False,
     sy_best_of_n = None\<rparr>"

definition week_state :: synth_state where
  "week_state = \<lparr>ss_prompts = [week_prompt], ss_audit = [], ss_calls = [], ss_drawn = 0\<rparr>"

theorem backslash_stops_synthesis_witness:
  "\<forall>env. snd (synthesize env (week_request (cps ''open C:'' @ [92] @ cps ''users'')) week_state) = Inl Template_Error"
proof (rule allI)
  fix env
  let ?req = "week_request (cps ''open C:'' @ [92] @ cps ''users'')"
  have "get_active_prompt (ss_prompts week_state) (sy_memory_type ?req) (Some (tier_text (sy_tier ?req))) Single_Pass = Some week_prompt"
    by (simp add: get_active_prompt_def week_state_def week_request_def week_prompt_def in_lane_def normal_tier_def cps_def)
  then have "snd (synthesize env ?req week_state) \<notin> {Inl Missing_Target, Inl Missing_Prompt}"
    by (auto simp: synthesize_def week_request_def Let_def run_pass_with_audit_def finish_result_def split: option.splits sum.splits if_splits prod.splits)
  moreover have "snd (synthesize env ?req week_state) \<in> {Inl Missing_Target, Inl Missing_Prompt, Inl Template_Error}"
    by (rule backslash_stops_synthesis[where a = "cps ''open C:''" and d = 117 and b = "cps ''sers''", THEN conjunct2])
      (simp_all add: week_request_def cps_def u_alpha_def known_escape_def)
  ultimately show "snd (synthesize env ?req week_state) = Inl Template_Error" by blast
qed

text \<open>A source text that shows a placeholder is rewritten too.\<close>

lemma source_placeholder_rewritten:
  "render_prompt (cps ''{{source_text}}'') (week_request (cps ''{{tier}}'')) = Some (cps ''weekly'')"
  by (simp add: render_prompt_def sub_value_def week_request_def cps_def compile_repl_plain match_placeholder_def fill_part_def u_isspace_def Let_def)

end
