(* ===== verification/Period_Parser.thy ===== *)
theory Period_Parser
  imports Media_Text
begin

text \<open>
  The periods of \<open>tools/_period_parser.py\<close>. An instant is a number of milliseconds since 1970 in UTC; a time zone is
  its table \<open>zone\<close>, which gives the offset of the local clock from UTC at an instant (\<open>zoneinfo\<close>). A local clock
  reading is written as the instant at which UTC shows it. The calendar is that of Python's \<open>datetime\<close>, its day numbers are
  \<open>date.toordinal()\<close>. \<open>digit\<close> is the table behind \<open>\d\<close> and \<open>lower\<close> is \<open>str.lower\<close>.
\<close>

subsection \<open>The calendar\<close>

definition hour_ms :: int where "hour_ms = 3600000"
definition day_ms :: int where "day_ms = 24 * hour_ms"
definition half_day_ms :: int where "half_day_ms = 12 * hour_ms"
definition minute_ms :: int where "minute_ms = 60000"

definition leap_year :: "int \<Rightarrow> bool" where
  "leap_year y \<longleftrightarrow> y mod 4 = 0 \<and> (y mod 100 \<noteq> 0 \<or> y mod 400 = 0)"

definition days_in_month :: "int \<Rightarrow> int \<Rightarrow> int" where
  "days_in_month y m = (if m = 2 then (if leap_year y then 29 else 28) else if m \<in> {4, 6, 9, 11} then 30 else 31)"

definition next_month :: "int \<times> int \<Rightarrow> int \<times> int" where
  "next_month ym = (case ym of (y, m) \<Rightarrow> if m = 12 then (y + 1, 1) else (y, m + 1))"

definition previous_month :: "int \<times> int \<Rightarrow> int \<times> int" where
  "previous_month ym = (case ym of (y, m) \<Rightarrow> if m = 1 then (y - 1, 12) else (y, m - 1))"

text \<open>The months one after the other from the first of January of the year 1, day 1: the month of a day and the days before it.\<close>

function month_from :: "int \<times> int \<Rightarrow> int \<Rightarrow> int \<Rightarrow> (int \<times> int) \<times> int" where
  "month_from ym before d =
     (if d - before \<le> days_in_month (fst ym) (snd ym) then (ym, before)
      else month_from (next_month ym) (before + days_in_month (fst ym) (snd ym)) d)"
  by pat_completeness auto
termination
  by (relation "measure (\<lambda>(ym, before, d). nat (d - before))") (auto simp: days_in_month_def split: if_splits)

declare month_from.simps [simp del]

text \<open>The day number of an instant, and the year and month of a day.\<close>

definition epoch_ordinal :: int where "epoch_ordinal = 719163"

definition day_of :: "int \<Rightarrow> int" where "day_of t = t div day_ms + epoch_ordinal"

definition month_of_day :: "int \<Rightarrow> int \<times> int" where "month_of_day d = fst (month_from (1, 1) 0 d)"

text \<open>Noon of the first of a month, found from a day of the month: \<open>datetime(y, m, 1, 12)\<close> for the month, the next one
  and the one before.\<close>

definition first_of_month :: "int \<Rightarrow> int" where "first_of_month d = snd (month_from (1, 1) 0 d) + 1"

definition first_of_next_month :: "int \<Rightarrow> int" where
  "first_of_next_month d = first_of_month d + (case month_of_day d of (y, m) \<Rightarrow> days_in_month y m)"

definition first_of_previous_month :: "int \<Rightarrow> int" where
  "first_of_previous_month d = first_of_month d - (case previous_month (month_of_day d) of (y, m) \<Rightarrow> days_in_month y m)"

definition noon_of :: "int \<Rightarrow> int" where "noon_of d = (d - epoch_ordinal) * day_ms + half_day_ms"

text \<open>Monday is 1; day 1 is a Monday.\<close>

definition isoweekday :: "int \<Rightarrow> int" where "isoweekday d = (d - 1) mod 7 + 1"

subsection \<open>Local days\<close>

fun converge :: "(int \<Rightarrow> int) \<Rightarrow> int \<Rightarrow> nat \<Rightarrow> int \<Rightarrow> int" where
  "converge zone target 0 probe = probe"
| "converge zone target (Suc n) probe =
     (let rendered = (probe + zone probe) div minute_ms * minute_ms; delta = rendered - target in
      if delta = 0 then probe else converge zone target n (probe - delta))"

definition get_local_day_start_utc :: "(int \<Rightarrow> int) \<Rightarrow> int \<Rightarrow> int" where
  "get_local_day_start_utc zone t =
     (let target = (t + zone t) div day_ms * day_ms in converge zone target 3 target)"

definition get_local_day_duration_ms :: "(int \<Rightarrow> int) \<Rightarrow> int \<Rightarrow> int" where
  "get_local_day_duration_ms zone start =
     (let ms = get_local_day_start_utc zone (start + 36 * hour_ms) - start in
      if ms < 22 * hour_ms \<or> 26 * hour_ms < ms then day_ms else ms)"

definition compute_iso_dow :: "(int \<Rightarrow> int) \<Rightarrow> int \<Rightarrow> int" where
  "compute_iso_dow zone midnight = isoweekday (day_of (midnight + zone midnight))"

subsection \<open>The parser\<close>

record period_result =
  pd_since :: int
  pd_before :: int
  pd_label :: utext

datatype period_error = Unrecognized_Period

definition number_of :: "(nat \<Rightarrow> nat option) \<Rightarrow> utext \<Rightarrow> int option" where
  "number_of digit s = (if s \<noteq> [] \<and> list_all (\<lambda>c. digit c \<noteq> None) s
     then Some (int (foldl (\<lambda>n c. 10 * n + (case digit c of Some v \<Rightarrow> v | None \<Rightarrow> 0)) 0 s)) else None)"

text \<open>\<open>^last-(\d+)suffix$\<close>.\<close>

definition last_n :: "(nat \<Rightarrow> nat option) \<Rightarrow> string \<Rightarrow> utext \<Rightarrow> int option" where
  "last_n digit suffix s =
     (let inner = drop 5 s; n = length inner - length suffix in
      if take 5 s = cps ''last-'' \<and> length suffix \<le> length inner \<and> drop n inner = cps suffix then number_of digit (take n inner) else None)"

definition monday_of :: "(int \<Rightarrow> int) \<Rightarrow> int \<Rightarrow> int" where
  "monday_of zone midnight =
     get_local_day_start_utc zone (midnight - ((compute_iso_dow zone midnight - 1) * day_ms - half_day_ms))"

definition parse_period_shortcut ::
    "(utext \<Rightarrow> utext) \<Rightarrow> (nat \<Rightarrow> nat option) \<Rightarrow> (int \<Rightarrow> int) \<Rightarrow> int \<Rightarrow> utext \<Rightarrow> period_error + period_result" where
  "parse_period_shortcut lower digit zone now raw =
     (let period = lower (u_strip raw); midnight = get_local_day_start_utc zone now;
          result = (\<lambda>s b l. Inr \<lparr>pd_since = s, pd_before = b, pd_label = l\<rparr>);
          today = day_of (now + zone now) in
      if period = cps ''today'' then
        result midnight (midnight + get_local_day_duration_ms zone midnight) (cps ''today'')
      else if period = cps ''yesterday'' then
        result (get_local_day_start_utc zone (midnight - half_day_ms)) midnight (cps ''yesterday'')
      else if period = cps ''this-week'' then
        result (monday_of zone midnight)
          (get_local_day_start_utc zone (monday_of zone midnight + (7 * day_ms + half_day_ms))) (cps ''this-week'')
      else if period = cps ''last-week'' then
        result (get_local_day_start_utc zone (monday_of zone midnight - (7 * day_ms - half_day_ms)))
          (monday_of zone midnight) (cps ''last-week'')
      else if period = cps ''this-month'' then
        result (get_local_day_start_utc zone (noon_of (first_of_month today)))
          (get_local_day_start_utc zone (noon_of (first_of_next_month today))) (cps ''this-month'')
      else if period = cps ''last-month'' then
        result (get_local_day_start_utc zone (noon_of (first_of_previous_month today)))
          (get_local_day_start_utc zone (noon_of (first_of_month today))) (cps ''last-month'')
      else case last_n digit ''h'' period of
        Some n \<Rightarrow> (let hours = min (24 * 90) (max 1 n) in
          result (now - hours * hour_ms) now (cps ''last-'' @ dec_digits (nat hours) @ cps ''h''))
      | None \<Rightarrow>
        (case (case last_n digit ''d'' period of Some n \<Rightarrow> Some n | None \<Rightarrow> last_n digit ''-days'' period) of
           Some n \<Rightarrow> (let days = min 366 (max 1 n) in
             result (now - days * day_ms) now (cps ''last-'' @ dec_digits (nat days) @ cps ''d''))
         | None \<Rightarrow> Inl Unrecognized_Period))"

subsection \<open>Zones with a fixed offset\<close>

lemma time_units: "hour_ms = 3600000" "day_ms = 86400000" "half_day_ms = 43200000" "minute_ms = 60000"
  by (simp_all add: hour_ms_def day_ms_def half_day_ms_def minute_ms_def)

text \<open>A fixed offset of whole minutes, up to fourteen hours.\<close>

definition fixed_zone :: "(int \<Rightarrow> int) \<Rightarrow> int \<Rightarrow> bool" where
  "fixed_zone zone off \<longleftrightarrow> zone = (\<lambda>_. off) \<and> off mod minute_ms = 0 \<and> \<bar>off\<bar> \<le> 14 * hour_ms"

lemma minute_floor: "a mod minute_ms = 0 \<Longrightarrow> a div minute_ms * minute_ms = (a :: int)"
  by (metis add.right_neutral div_mult_mod_eq)

lemma fixed_day_start:
  assumes "fixed_zone zone off"
  shows "get_local_day_start_utc zone t = (t + off) div day_ms * day_ms - off"
proof -
  define target where "target = (t + off) div day_ms * day_ms"
  have "target mod minute_ms = 0" by (simp add: target_def day_ms_def hour_ms_def minute_ms_def mod_mult_right_eq) 
  then have m: "target mod minute_ms = 0" "(target + off) mod minute_ms = 0" using assms by (auto simp: fixed_zone_def mod_add_eq)
  have zone: "zone x = off" for x using assms by (simp add: fixed_zone_def)
  have "converge zone target 3 target = target - off"
    using m by (simp add: numeral_3_eq_3 Let_def zone minute_floor)
  then show ?thesis by (simp add: get_local_day_start_utc_def Let_def zone target_def)
qed

lemma month_from_bounds:
  "before < d \<Longrightarrow> month_from ym before d = ((y, m), b) \<Longrightarrow> b < d \<and> d \<le> b + days_in_month y m"
proof (induction ym before d rule: month_from.induct)
  case (1 ym before d)
  show ?case
  proof (cases "d - before \<le> days_in_month (fst ym) (snd ym)")
    case True
    then show ?thesis using 1 by (auto simp: month_from.simps[of ym before d])
  next
    case False
    then show ?thesis using 1 by (simp add: month_from.simps[of ym before d])
  qed
qed

lemma first_of_month_bounds: "1 \<le> d \<Longrightarrow> first_of_month d \<le> d \<and> d < first_of_next_month d"
  using month_from_bounds[of 0 d "(1, 1)"]
  by (cases "month_from (1, 1) 0 d") (auto simp: first_of_month_def first_of_next_month_def month_of_day_def split: prod.splits)

text \<open>The days of a period, as day numbers.\<close>

datatype period_name = Today | Yesterday | This_Week | Last_Week | This_Month | Last_Month

fun name_text :: "period_name \<Rightarrow> string" where
  "name_text Today = ''today''" | "name_text Yesterday = ''yesterday''" | "name_text This_Week = ''this-week''"
| "name_text Last_Week = ''last-week''" | "name_text This_Month = ''this-month''" | "name_text Last_Month = ''last-month''"

fun calendar_days :: "period_name \<Rightarrow> int \<Rightarrow> int \<times> int" where
  "calendar_days Today d = (d, d + 1)"
| "calendar_days Yesterday d = (d - 1, d)"
| "calendar_days This_Week d = (d - (isoweekday d - 1), d - (isoweekday d - 1) + 7)"
| "calendar_days Last_Week d = (d - (isoweekday d - 1) - 7, d - (isoweekday d - 1))"
| "calendar_days This_Month d = (first_of_month d, first_of_next_month d)"
| "calendar_days Last_Month d = (first_of_previous_month d, first_of_month d)"

text \<open>Midnight of a day in a zone with a fixed offset.\<close>

definition midnight :: "int \<Rightarrow> int \<Rightarrow> int" where "midnight off d = (d - epoch_ordinal) * day_ms - off"

lemma half_day: "0 \<le> half_day_ms" "half_day_ms < day_ms"
  by (simp_all add: time_units)

lemma fixed_start_of:
  assumes "fixed_zone zone off" "0 \<le> r" "r < day_ms"
  shows "get_local_day_start_utc zone (midnight off d + r) = midnight off d"
proof -
  have "((d - epoch_ordinal) * day_ms + r) div day_ms = d - epoch_ordinal" using assms(2,3) by simp
  then have "(midnight off d + r + off) div day_ms = d - epoch_ordinal" by (simp add: midnight_def)
  then show ?thesis by (simp add: fixed_day_start[OF assms(1)] midnight_def)
qed

lemma fixed_start_now:
  assumes "fixed_zone zone off"
  shows "get_local_day_start_utc zone now = midnight off (day_of (now + off))"
  using fixed_day_start[OF assms] by (simp add: midnight_def day_of_def)

lemma fixed_duration:
  assumes "fixed_zone zone off"
  shows "get_local_day_duration_ms zone (midnight off d) = day_ms"
proof -
  have "midnight off d + 36 * hour_ms = midnight off (d + 1) + half_day_ms" by (simp add: midnight_def time_units algebra_simps)
  then have "get_local_day_start_utc zone (midnight off d + 36 * hour_ms) = midnight off (d + 1)"
    using fixed_start_of[OF assms half_day, of "d + 1"] by simp
  then show ?thesis by (simp add: get_local_day_duration_ms_def midnight_def time_units algebra_simps)
qed

lemma fixed_monday:
  assumes "fixed_zone zone off"
  shows "monday_of zone (midnight off d) = midnight off (d - (isoweekday d - 1))"
proof -
  have "day_of (midnight off d + off) = d" by (simp add: day_of_def midnight_def day_ms_def hour_ms_def)
  then have "compute_iso_dow zone (midnight off d) = isoweekday d" using assms by (simp add: compute_iso_dow_def fixed_zone_def)
  then have "midnight off d - ((compute_iso_dow zone (midnight off d) - 1) * day_ms - half_day_ms) = midnight off (d - (isoweekday d - 1)) + half_day_ms"
    by (simp add: midnight_def algebra_simps)
  then show ?thesis by (simp only: monday_of_def fixed_start_of[OF assms half_day])
qed

lemma fixed_noon:
  assumes "fixed_zone zone off" "- half_day_ms \<le> off" "off < half_day_ms"
  shows "get_local_day_start_utc zone (noon_of d) = midnight off d"
  using fixed_start_of[OF assms(1), of "half_day_ms + off" d] assms(2,3) by (simp add: noon_of_def midnight_def time_units algebra_simps)

lemma fixed_noon_east:
  assumes "fixed_zone zone off" "half_day_ms \<le> off"
  shows "get_local_day_start_utc zone (noon_of d) = midnight off (d + 1)"
proof -
  have "noon_of d = midnight off (d + 1) + (off - half_day_ms)" by (simp add: noon_of_def midnight_def time_units algebra_simps)
  moreover have "off - half_day_ms < day_ms" using assms(1) by (auto simp: fixed_zone_def time_units)
  ultimately show ?thesis using fixed_start_of[OF assms(1), of "off - half_day_ms" "d + 1"] assms(2) by simp
qed

lemma name_text_inj: "cps (name_text p) = cps (name_text q) \<longleftrightarrow> p = q"
  by (cases p; cases q) (simp_all add: cps_def)

lemma now_inside:
  assumes "d = day_of (now + off)" "a \<le> d" "d < b"
  shows "midnight off a \<le> now \<and> now < midnight off b"
proof -
  have "(now + off) div day_ms * day_ms \<le> now + off" "now + off < ((now + off) div day_ms + 1) * day_ms"
    by (simp_all add: day_ms_def hour_ms_def)
  then have now: "midnight off d \<le> now" "now < midnight off (d + 1)" by (simp_all add: assms(1) midnight_def day_of_def)
  have mono: "x \<le> y \<Longrightarrow> midnight off x \<le> midnight off y" for x y by (simp add: midnight_def day_ms_def hour_ms_def)
  show ?thesis using mono[OF assms(2)] mono[of "d + 1" b] assms(3) now by linarith
qed



text \<open>East of twelve hours a month begins on its second day. In a zone whose clock is twelve hours or more ahead of UTC, the months
  are taken from noon of their first day in UTC, where the second day has begun: this month and last month leave out their
  first day, and take in the first day of the month after.\<close>

theorem eastern_months_start_late:
  assumes "fixed_zone zone off" "half_day_ms \<le> off" "d = day_of (now + off)"
    and "lower (u_strip raw) = cps (name_text p)" "p = This_Month \<or> p = Last_Month"
  shows "parse_period_shortcut lower digit zone now raw = Inr \<lparr>pd_since = midnight off (fst (calendar_days p d) + 1),
      pd_before = midnight off (snd (calendar_days p d) + 1), pd_label = cps (name_text p)\<rparr>"
proof -
  have zone: "zone x = off" for x using assms(1) by (simp add: fixed_zone_def)
  show ?thesis using assms(5)
    by (auto simp: parse_period_shortcut_def Let_def assms(4) fixed_noon_east[OF assms(1,2)] zone assms(3)[symmetric] cps_def)
qed

theorem eastern_months_start_late_witness:
  "parse_period_shortcut id (\<lambda>_. None) (\<lambda>_. 46800000) 0 (cps ''this-month'')
    = Inr \<lparr>pd_since = midnight 46800000 (first_of_month 719163 + 1), pd_before = midnight 46800000 (first_of_next_month 719163 + 1),
        pd_label = cps ''this-month''\<rparr>"
  using eastern_months_start_late[of "\<lambda>_. 46800000" 46800000 719163 0 id "cps ''this-month''" This_Month "\<lambda>_. None"]
  by (simp add: fixed_zone_def time_units day_of_def epoch_ordinal_def cps_def u_strip_def u_lstrip_def u_rstrip_def u_isspace_def)

text \<open>The periods that count back from now are never empty and never longer than 366 days.\<close>

lemma counted_periods_bounded:
  assumes "parse_period_shortcut lower digit zone now raw = Inr r" "pd_before r = now"
    and "\<And>p. lower (u_strip raw) \<noteq> cps (name_text p)"
  shows "hour_ms \<le> pd_before r - pd_since r \<and> pd_before r - pd_since r \<le> 366 * day_ms"
  using assms(1,2) assms(3)[of Today] assms(3)[of Yesterday] assms(3)[of This_Week] assms(3)[of Last_Week] assms(3)[of This_Month] assms(3)[of Last_Month]
  by (auto simp: parse_period_shortcut_def Let_def time_units min_def max_def split: option.splits if_splits)

end
