(* ===== verification/Tool_Scope.thy ===== *)
theory Tool_Scope
  imports Conversation_Store Media_Text
begin

text \<open>
  Which conversations a tool call may read: \<open>tools/conversation_scope.py\<close>, with the parameter readers of
  \<open>tools/_common.py\<close>. The arguments of a call are a JSON object without fractions. \<open>str_of_int\<close> is Python's \<open>str\<close> on integers,
  and \<open>lookup\<close> is the host's map from session keys to session ids.
\<close>

subsection \<open>Parameters\<close>

datatype param_error = Required | Must_Be_String | Must_Be_Boolean

definition read_string_param ::
    "(int \<Rightarrow> utext) \<Rightarrow> json \<Rightarrow> string \<Rightarrow> bool \<Rightarrow> utext option \<Rightarrow> param_error + utext option" where
  "read_string_param str_of_int params key required dflt =
     (let missing = (if required then Inl Required else Inr dflt);
          value_of = (\<lambda>raw. let v = u_strip raw in if v = [] then missing else Inr (Some v)) in
      case jget key params of
        JNull \<Rightarrow> missing
      | JStr s \<Rightarrow> value_of s
      | JInt n \<Rightarrow> value_of (str_of_int n)
      | JBool b \<Rightarrow> value_of (if b then cps ''True'' else cps ''False'')
      | _ \<Rightarrow> Inl Must_Be_String)"

definition read_bool_param :: "(utext \<Rightarrow> utext) \<Rightarrow> json \<Rightarrow> string \<Rightarrow> bool \<Rightarrow> param_error + bool" where
  "read_bool_param lower params key dflt =
     (case jget key params of
        JNull \<Rightarrow> Inr dflt
      | JBool b \<Rightarrow> Inr b
      | JInt n \<Rightarrow> if n = 1 then Inr True else if n = 0 then Inr False else Inl Must_Be_Boolean
      | JStr s \<Rightarrow> (let v = lower (u_strip s) in
          if v \<in> {cps ''true'', cps ''1'', cps ''yes'', cps ''on''} then Inr True
          else if v \<in> {cps ''false'', cps ''0'', cps ''no'', cps ''off''} then Inr False
          else Inl Must_Be_Boolean)
      | _ \<Rightarrow> Inl Must_Be_Boolean)"

subsection \<open>Scopes\<close>

record conversation_scope =
  sc_conversation_id :: "int option"
  sc_conversation_ids :: "int list option"
  sc_all_conversations :: bool

definition no_scope :: conversation_scope where
  "no_scope = \<lparr>sc_conversation_id = None, sc_conversation_ids = None, sc_all_conversations = False\<rparr>"

definition family_scope :: "int \<Rightarrow> int list \<Rightarrow> conversation_scope" where
  "family_scope cid ids = \<lparr>sc_conversation_id = Some cid, sc_conversation_ids = Some (if ids \<noteq> [] then ids else [cid]),
     sc_all_conversations = False\<rparr>"

definition stripped :: "utext option \<Rightarrow> utext" where
  "stripped t = (case t of Some s \<Rightarrow> u_strip s | None \<Rightarrow> [])"

definition or_none :: "utext \<Rightarrow> utext option" where "or_none t = (if t = [] then None else Some t)"

definition resolve_lcm_conversation_scope ::
    "conversation_table \<Rightarrow> (utext \<Rightarrow> utext option) option \<Rightarrow> json \<Rightarrow> utext option \<Rightarrow> utext option \<Rightarrow> conversation_scope" where
  "resolve_lcm_conversation_scope t lookup params session_id session_key =
     (case jget ''conversationId'' params of
        JInt n \<Rightarrow> \<lparr>sc_conversation_id = Some n, sc_conversation_ids = Some [n], sc_all_conversations = False\<rparr>
      | _ \<Rightarrow>
        if jget ''allConversations'' params = JBool True then
          \<lparr>sc_conversation_id = None, sc_conversation_ids = None, sc_all_conversations = True\<rparr>
        else
          (let key = stripped session_key in
           case (if key = [] then None else get_conversation_by_session_key t key) of
             Some c \<Rightarrow> family_scope (cv_conversation_id c)
               (get_conversation_family_ids t (Some (cv_conversation_id c)) None (Some key))
           | None \<Rightarrow>
             (let sid0 = stripped session_id;
                  sid = (if sid0 = [] \<and> key \<noteq> [] then (case lookup of None \<Rightarrow> [] | Some f \<Rightarrow> stripped (f key)) else sid0) in
              if sid = [] \<and> key = [] then no_scope
              else case get_conversation_for_session t (or_none sid) (or_none key) of
                None \<Rightarrow> no_scope
              | Some c \<Rightarrow> family_scope (cv_conversation_id c)
                  (get_conversation_family_ids t (Some (cv_conversation_id c)) (or_none sid) (or_none key)))))"

text \<open>The conversations that share the session key of one, or, without a key, its session id.\<close>

definition same_family :: "conversation_record \<Rightarrow> conversation_record \<Rightarrow> bool" where
  "same_family base c \<longleftrightarrow> (case normalized (cv_session_key base) of
     Some k \<Rightarrow> cv_session_key c = Some k | None \<Rightarrow> cv_session_id c = cv_session_id base)"

definition scope_within :: "conversation_table \<Rightarrow> conversation_record \<Rightarrow> conversation_scope \<Rightarrow> bool" where
  "scope_within t base scope \<longleftrightarrow> \<not> sc_all_conversations scope \<and> sc_conversation_id scope = Some (cv_conversation_id base)
     \<and> (case sc_conversation_ids scope of None \<Rightarrow> False
        | Some ids \<Rightarrow> list_all (\<lambda>i. i = cv_conversation_id base
            \<or> list_ex (\<lambda>c. cv_conversation_id c = i \<and> same_family base c) (ct_rows t)) ids)"

lemma family_within:
  assumes "wf_conversations t" "c \<in> set (ct_rows t)"
  shows "scope_within t c (family_scope (cv_conversation_id c) (get_conversation_family_ids t (Some (cv_conversation_id c)) sid key))"
  using get_conversation_row[OF assms]
  by (auto simp: scope_within_def family_scope_def get_conversation_family_ids_def list_all_iff list_ex_iff same_family_def split: option.split)

definition caller_names ::
    "(utext \<Rightarrow> utext option) option \<Rightarrow> utext option \<Rightarrow> utext option \<Rightarrow> conversation_record \<Rightarrow> bool" where
  "caller_names lookup session_id session_key c \<longleftrightarrow>
     cv_session_key c = Some (stripped session_key) \<or> cv_session_id c = stripped session_id
     \<or> (case lookup of None \<Rightarrow> False | Some f \<Rightarrow> cv_session_id c = stripped (f (stripped session_key)))"

lemma strip_idem: "u_strip (u_strip s) = u_strip s"
proof -
  let ?a = "dropWhile u_isspace s" let ?b = "rev (dropWhile u_isspace (rev ?a))"
  have "u_lstrip ?b = ?b"
  proof (cases ?a)
    case (Cons c cs)
    have "\<not> u_isspace c" using Cons hd_dropWhile[of u_isspace s] by force
    then have "\<exists>ds. dropWhile u_isspace (rev cs @ [c]) = ds @ [c]" by (simp add: dropWhile_append)
    then obtain ds where "?b = c # rev ds" by (auto simp: Cons)
    then show ?thesis using \<open>\<not> u_isspace c\<close> by (simp add: u_lstrip_def)
  next
    case Nil
    then show ?thesis by (simp only: Nil) (simp add: u_lstrip_def)
  qed
  moreover have "u_rstrip ?b = ?b" by (simp add: u_rstrip_def)
  ultimately show ?thesis by (simp add: u_strip_def u_rstrip_def u_lstrip_def)
qed

lemma or_none_stripped: "normalized (or_none (stripped x)) = or_none (stripped x)"
  by (auto simp: or_none_def stripped_def normalized_def strip_idem split: option.split)

text \<open>C32. A tool call without an explicit conversation stays in the caller's family. Unless the arguments name a conversation or ask
  for all of them, the scope is empty or holds the conversation that the caller's session key or session id (or the host's one for
  the key) names, and beside it only conversations with the same session key, or, when it has none, with the same session id.\<close>

theorem scope_stays_in_family:
  assumes "wf_conversations t" "\<And>n. jget ''conversationId'' params \<noteq> JInt n" "jget ''allConversations'' params \<noteq> JBool True"
  shows "resolve_lcm_conversation_scope t lookup params session_id session_key = no_scope
    \<or> (\<exists>base. base \<in> set (ct_rows t) \<and> caller_names lookup session_id session_key base
        \<and> scope_within t base (resolve_lcm_conversation_scope t lookup params session_id session_key))"
proof -
  let ?key = "stripped session_key"
  define sid where "sid = (if stripped session_id = [] \<and> ?key \<noteq> [] then (case lookup of None \<Rightarrow> [] | Some f \<Rightarrow> stripped (f ?key)) else stripped session_id)"
  have eq: "resolve_lcm_conversation_scope t lookup params session_id session_key =
      (case (if ?key = [] then None else get_conversation_by_session_key t ?key) of
         Some c \<Rightarrow> family_scope (cv_conversation_id c) (get_conversation_family_ids t (Some (cv_conversation_id c)) None (Some ?key))
       | None \<Rightarrow> if sid = [] \<and> ?key = [] then no_scope
           else case get_conversation_for_session t (or_none sid) (or_none ?key) of
             None \<Rightarrow> no_scope
           | Some c \<Rightarrow> family_scope (cv_conversation_id c)
               (get_conversation_family_ids t (Some (cv_conversation_id c)) (or_none sid) (or_none ?key)))"
    using assms(2,3) by (auto simp: resolve_lcm_conversation_scope_def sid_def Let_def split: gjson.split option.split)
  have key: "c \<in> set (ct_rows t) \<and> cv_session_key c = Some k" if "get_conversation_by_session_key t k = Some c" for c k
    using that by (auto simp: get_conversation_by_session_key_def dest!: first_of_set(1))
  have sid_norm: "normalized (or_none sid) = or_none sid"
  proof -
    have "sid = stripped None \<or> sid = stripped session_id \<or> (\<exists>f. sid = stripped (f ?key))"
      by (auto simp: sid_def stripped_def[of None] split: option.split)
    then show ?thesis using or_none_stripped by blast
  qed
  have sess: "c \<in> set (ct_rows t) \<and> (cv_session_key c = Some ?key \<or> cv_session_id c = sid)"
    if "get_conversation_for_session t (or_none sid) (or_none ?key) = Some c" for c
    using that key by (auto simp: get_conversation_for_session_def or_none_stripped sid_norm dest: by_id_Some split: option.splits)
      (auto simp: or_none_def dest: by_id_Some split: if_splits)
  have named: "cv_session_id c = sid \<Longrightarrow> caller_names lookup session_id session_key c" for c
    by (auto simp: caller_names_def sid_def split: if_splits option.splits)
  show ?thesis
  proof (cases "if ?key = [] then None else get_conversation_by_session_key t ?key")
    case (Some c)
    then have "c \<in> set (ct_rows t) \<and> cv_session_key c = Some ?key" using key by (auto split: if_splits)
    then show ?thesis unfolding eq Some option.case
      by (intro disjI2 exI[of _ c] conjI family_within[OF assms(1)]) (auto simp: caller_names_def)
  next
    case None
    show ?thesis
    proof (cases "if sid = [] \<and> ?key = [] then None else get_conversation_for_session t (or_none sid) (or_none ?key)")
      case inner: None
      then show ?thesis unfolding eq None by (auto split: if_splits)
    next
      case (Some c)
      then have c: "get_conversation_for_session t (or_none sid) (or_none ?key) = Some c" "\<not> (sid = [] \<and> ?key = [])" by (auto split: if_splits)
      from sess[OF c(1)] have "c \<in> set (ct_rows t)" "caller_names lookup session_id session_key c"
        using named by (auto simp: caller_names_def)
      then show ?thesis unfolding eq None option.case c(1) if_not_P[OF c(2)]
        by (intro disjI2 exI[of _ c] conjI family_within[OF assms(1)])
    qed
  qed
qed

definition family_pair :: conversation_table where
  "family_pair = \<lparr>ct_rows = map (\<lambda>(n, k). \<lparr>cv_conversation_id = n, cv_session_id = cps ''s'', cv_session_key = Some (cps k), cv_active = True,
     cv_archived_at = None, cv_title = None, cv_bootstrapped_at = None, cv_created_at = 0, cv_updated_at = 0\<rparr>) [(1, ''a''), (2, ''b'')],
     ct_next_id = 3\<rparr>"

theorem scope_stays_in_family_witness:
  "resolve_lcm_conversation_scope family_pair None (JObj []) None (Some (cps ''b'')) = no_scope
    \<or> (\<exists>base. base \<in> set (ct_rows family_pair) \<and> caller_names None None (Some (cps ''b'')) base
        \<and> scope_within family_pair base (resolve_lcm_conversation_scope family_pair None (JObj []) None (Some (cps ''b''))))"
  by (rule scope_stays_in_family) (simp_all add: wf_conversations_def family_pair_def map_filter_simps)

end
