(* ===== verification/Synthesis_Around.thy ===== *)
theory Synthesis_Around
  imports "HOL-Library.Product_Lexorder" Synthesis_Dispatch Context_Store Period_Parser Tool_Scope Estimate_Tokens
begin

text \<open>
  The tool \<open>lcm_synthesize_around\<close> of \<open>tools/synthesize_around.py\<close> with its cache (\<open>synthesis/cache_key.py\<close>) and the
  references from cached texts to leaves (\<open>synthesis/invalidation.py\<close>). The rows of \<open>lcm_synthesis_cache\<close> have one unique key.
  The bounds of a window are milliseconds. SHA-256, the identifiers, the form of a stored time, the column \<open>session_key\<close> of
  summaries and the parsing of the ISO bounds are arguments.
\<close>

subsection \<open>The cache\<close>

datatype cache_status = Building | Ready | Cache_Failed

record cache_key =
  ck_session_key :: utext
  ck_range_start :: int
  ck_range_end :: int
  ck_leaf_fingerprint :: string
  ck_grep_filter :: "utext option"
  ck_tier_label :: utext
  ck_prompt_id :: string

record cache_row =
  cc_cache_id :: string
  cc_key :: cache_key
  cc_content :: "utext option"
  cc_status :: cache_status
  cc_model_used :: utext
  cc_source_leaf_ids :: "string list"
  cc_source_token_count :: int
  cc_output_token_count :: int
  cc_building_started_at :: "int option"
  cc_failure_reason :: "utext option"

record synthesis_cache =
  sk_rows :: "cache_row list"
  sk_leaf_refs :: "(string \<times> string) list"

text \<open>The ids, each with a zero after it, under SHA-256; \<open>None\<close> for an id with a zero in it.\<close>

definition leaf_fingerprint :: "(utext \<Rightarrow> string) \<Rightarrow> string list \<Rightarrow> string option" where
  "leaf_fingerprint sha ids =
     (if list_ex (\<lambda>i. 0 \<in> set (cps i)) ids then None else Some (take 24 (sha (concat (map (\<lambda>i. cps i @ [0]) ids)))))"

definition default_session_key :: utext where "default_session_key = cps ''agent:main:main''"

fun first_conversation_key :: "conversation_table \<Rightarrow> int list \<Rightarrow> utext option" where
  "first_conversation_key t [] = None"
| "first_conversation_key t (c # cs) =
     (let key = (case get_conversation t c of Some r \<Rightarrow> stripped (cv_session_key r) | None \<Rightarrow> []) in
      if key \<noteq> [] then Some key else first_conversation_key t cs)"

definition resolve_session_key :: "conversation_table \<Rightarrow> utext option \<Rightarrow> utext option \<Rightarrow> int list \<Rightarrow> utext" where
  "resolve_session_key t target_key input_key ids =
     (if stripped target_key \<noteq> [] then stripped target_key
      else if stripped input_key \<noteq> [] then stripped input_key
      else (case first_conversation_key t ids of Some k \<Rightarrow> k | None \<Rightarrow> default_session_key))"

definition same_key :: "cache_key \<Rightarrow> cache_key \<Rightarrow> bool" where
  "same_key a b \<longleftrightarrow> a\<lparr>ck_grep_filter := None\<rparr> = b\<lparr>ck_grep_filter := None\<rparr>
     \<and> (case ck_grep_filter a of Some x \<Rightarrow> x | None \<Rightarrow> []) = (case ck_grep_filter b of Some x \<Rightarrow> x | None \<Rightarrow> [])"

definition lookup_cache_row :: "cache_row list \<Rightarrow> cache_key \<Rightarrow> cache_row option" where
  "lookup_cache_row rows key =
     (case sort_key (\<lambda>r. case cc_building_started_at r of Some t \<Rightarrow> (0 :: nat, - t) | None \<Rightarrow> (1, 0))
        (filter (\<lambda>r. same_key (cc_key r) key) rows) of [] \<Rightarrow> None | r # _ \<Rightarrow> Some r)"

definition tier_labels :: "utext list" where
  "tier_labels = map cps [''year'', ''yearly'', ''monthly'', ''weekly'', ''daily'', ''custom'', ''filtered'']"

text \<open>\<open>INSERT OR IGNORE\<close>: a clash of the keys or a tier that the table does not allow inserts nothing; an unknown prompt raises
  (\<open>None\<close>). The result is the identifier of the row in the table and whether it is the caller's.\<close>

definition insert_cache_row_single_flight ::
    "prompt_record list \<Rightarrow> cache_row \<Rightarrow> cache_row list \<Rightarrow> (cache_row list \<times> string \<times> bool) option" where
  "insert_cache_row_single_flight prompts row rows =
     (if list_ex (\<lambda>r. cc_cache_id r = cc_cache_id row \<or> same_key (cc_key r) (cc_key row)) rows \<or> ck_tier_label (cc_key row) \<notin> set tier_labels
      then (case lookup_cache_row rows (cc_key row) of
          None \<Rightarrow> Some (rows, [], False)
        | Some r \<Rightarrow> Some (rows, cc_cache_id r, False))
      else if \<not> list_ex (\<lambda>p. pr_prompt_id p = ck_prompt_id (cc_key row)) prompts then None
      else Some (rows @ [row], cc_cache_id row, True))"

definition update_cache_row :: "string \<Rightarrow> (cache_row \<Rightarrow> cache_row) \<Rightarrow> synthesis_cache \<Rightarrow> synthesis_cache" where
  "update_cache_row cid f c = c\<lparr>sk_rows := map (\<lambda>r. if cc_cache_id r = cid then f r else r) (sk_rows c)\<rparr>"

definition mark_cache_failed :: "string \<Rightarrow> utext \<Rightarrow> synthesis_cache \<Rightarrow> synthesis_cache" where
  "mark_cache_failed cid reason = update_cache_row cid (\<lambda>r. r\<lparr>cc_status := Cache_Failed, cc_failure_reason := Some (take 800 reason)\<rparr>)"

definition mark_cache_ready :: "string \<Rightarrow> utext \<Rightarrow> string \<Rightarrow> synthesis_cache \<Rightarrow> synthesis_cache" where
  "mark_cache_ready cid content prompt = update_cache_row cid (\<lambda>r. r\<lparr>cc_status := Ready, cc_content := Some content,
     cc_output_token_count := estimate_tokens content, cc_key := (cc_key r)\<lparr>ck_prompt_id := prompt\<rparr>, cc_building_started_at := None\<rparr>)"

text \<open>One reference per leaf; a leaf that is no longer in the table is skipped (a foreign key), and so is a repetition.\<close>

definition record_cache_leaf_refs :: "lcm_db \<Rightarrow> string \<Rightarrow> string list \<Rightarrow> synthesis_cache \<Rightarrow> synthesis_cache" where
  "record_cache_leaf_refs db cid ids c = fold (\<lambda>i c.
     if list_ex (\<lambda>s. sr_summary_id s = i) (db_summaries db) \<and> (cid, i) \<notin> set (sk_leaf_refs c)
       \<and> list_ex (\<lambda>r. cc_cache_id r = cid) (sk_rows c)
     then c\<lparr>sk_leaf_refs := sk_leaf_refs c @ [(cid, i)]\<rparr> else c) ids c"

definition invalidate_caches_for_suppressed_leaves :: "string list \<Rightarrow> synthesis_cache \<Rightarrow> synthesis_cache \<times> nat" where
  "invalidate_caches_for_suppressed_leaves ids c =
     (let gone = (\<lambda>r. list_ex (\<lambda>(cid, i). cid = cc_cache_id r \<and> i \<in> set ids) (sk_leaf_refs c)) in
      (c\<lparr>sk_rows := filter (\<lambda>r. \<not> gone r) (sk_rows c),
         sk_leaf_refs := filter (\<lambda>(cid, _). \<not> list_ex (\<lambda>r. cc_cache_id r = cid \<and> gone r) (sk_rows c)) (sk_leaf_refs c)\<rparr>,
       length (filter gone (sk_rows c))))"

subsection \<open>The leaves of a window\<close>

definition leaf_time :: "summary_record \<Rightarrow> int" where
  "leaf_time s = 1000 * (case sr_latest_at s of Some t \<Rightarrow> t | None \<Rightarrow> sr_created_at s)"

definition conversation_filter :: "int list option \<Rightarrow> int \<Rightarrow> bool" where
  "conversation_filter ids c \<longleftrightarrow> (case ids of Some (i # is) \<Rightarrow> c \<in> set (i # is) | _ \<Rightarrow> True)"

definition in_time_window :: "int \<Rightarrow> int \<Rightarrow> int list option \<Rightarrow> string option \<Rightarrow> summary_record \<Rightarrow> bool" where
  "in_time_window from_ms to_ms ids exclude s \<longleftrightarrow> from_ms \<le> leaf_time s \<and> leaf_time s < to_ms \<and> \<not> sr_suppressed s
     \<and> sr_kind s = Leaf \<and> conversation_filter ids (sr_conversation_id s) \<and> exclude \<noteq> Some (sr_summary_id s)"

definition select_time_window_leaves ::
    "lcm_db \<Rightarrow> int \<Rightarrow> int \<Rightarrow> int list option \<Rightarrow> string option \<Rightarrow> summary_record list" where
  "select_time_window_leaves db from_ms to_ms ids exclude =
     sort_key sr_created_at (filter (in_time_window from_ms to_ms ids exclude) (db_summaries db))"

definition max_source_text_tokens :: int where "max_source_text_tokens = 50000"

definition leaf_block :: "(int \<Rightarrow> utext) \<Rightarrow> summary_record \<Rightarrow> utext" where
  "leaf_block time_text s = cps ''### Leaf '' @ cps (sr_summary_id s) @ cps '' ('' @ time_text (sr_created_at s) @ cps '')''
     @ [10, 10] @ sr_content s"

definition block_tokens :: "(int \<Rightarrow> utext) \<Rightarrow> summary_record \<Rightarrow> int" where
  "block_tokens time_text s = (if 0 < sr_token_count s then sr_token_count s else estimate_tokens (leaf_block time_text s))"

text \<open>The leaves that are taken, with the tokens so far.\<close>

fun taken_leaves :: "(int \<Rightarrow> utext) \<Rightarrow> int \<Rightarrow> summary_record list \<Rightarrow> summary_record list" where
  "taken_leaves time_text so_far [] = []"
| "taken_leaves time_text so_far (s # ss) =
     (if max_source_text_tokens < so_far + block_tokens time_text s then []
      else s # taken_leaves time_text (so_far + block_tokens time_text s) ss)"

definition build_source_text :: "(int \<Rightarrow> utext) \<Rightarrow> summary_record list \<Rightarrow> utext \<times> nat option" where
  "build_source_text time_text rows =
     (let taken = taken_leaves time_text 0 rows in
      (u_join [10, 10, 45, 45, 45, 10, 10] (map (leaf_block time_text) taken),
       if length taken < length rows then Some (length taken) else None))"

subsection \<open>The tool\<close>

datatype window_kind = Time_Window | Semantic_Window | Period_Window

record around_args =
  aw_window_kind :: window_kind
  aw_target :: utext
  aw_window_hours :: "int option"
  aw_tier :: "utext option"
  aw_since :: "int option"
  aw_before :: "int option"
  aw_period :: "utext option"
  aw_params :: json
  aw_session_id :: "utext option"
  aw_session_key :: "utext option"

record around_env =
  an_now :: int
  an_cache_id :: string
  an_pass_session_id :: string
  an_sha :: "utext \<Rightarrow> string"
  an_time_text :: "int \<Rightarrow> utext"
  an_id_of_text :: "utext \<Rightarrow> string"
  an_summary_key :: "string \<Rightarrow> utext option"
  an_zone :: "int \<Rightarrow> int"
  an_lower :: "utext \<Rightarrow> utext"
  an_lookup :: "(utext \<Rightarrow> utext option) option"
  an_model :: "utext option"
  an_synth :: synth_env
  an_error_text :: "dispatch_error \<Rightarrow> utext"

record around_state =
  ar_db :: lcm_db
  ar_conversations :: conversation_table
  ar_cache :: synthesis_cache
  ar_synth :: synth_state

datatype around_error = Target_Required | Empty_Bounds | No_Conversation | Target_Not_Found | Target_Not_Summary | Bad_Period
  | Missing_Range | Empty_Window | Semantic_Unavailable | No_Leaves | Bad_Leaf_Id | No_Prompt | No_Model | Insert_Failed
  | Dispatch_Failed dispatch_error

datatype around_answer = Around_Error around_error
  | Cached string utext
  | Building_Elsewhere string "int option"
  | Recent_Failure string "int option"
  | Synthesized string synth_result "string list"

definition clamp_hours :: "int option \<Rightarrow> int" where
  "clamp_hours h = (case h of None \<Rightarrow> 24 | Some n \<Rightarrow> if n < 1 then 1 else if 24 * 7 * 4 < n then 24 * 7 * 4 else n)"

definition around_tier :: "utext option \<Rightarrow> tier_label" where
  "around_tier t = (if t = Some (cps ''filtered'') then Filtered else Custom)"

definition tightest_lower :: "int option \<Rightarrow> int option \<Rightarrow> int option" where
  "tightest_lower a b = (case a of None \<Rightarrow> b | Some x \<Rightarrow> (case b of None \<Rightarrow> a | Some y \<Rightarrow> Some (max x y)))"

definition tightest_upper :: "int option \<Rightarrow> int option \<Rightarrow> int option" where
  "tightest_upper a b = (case a of None \<Rightarrow> b | Some x \<Rightarrow> (case b of None \<Rightarrow> a | Some y \<Rightarrow> Some (min x y)))"

definition lookup_target_summary :: "lcm_db \<Rightarrow> string \<Rightarrow> int list option \<Rightarrow> summary_record option" where
  "lookup_target_summary db sid ids =
     List.find (\<lambda>s. sr_summary_id s = sid \<and> \<not> sr_suppressed s \<and> conversation_filter ids (sr_conversation_id s)) (db_summaries db)"

text \<open>The window, and the leaf that is left out.\<close>

definition around_window :: "around_env \<Rightarrow> around_args \<Rightarrow> summary_record option \<Rightarrow> around_error + int \<times> int" where
  "around_window env args target =
     (case aw_window_kind args of
        Semantic_Window \<Rightarrow> Inl Semantic_Unavailable
      | Period_Window \<Rightarrow>
          (let bounds = (\<lambda>ps pb. case (tightest_lower (aw_since args) ps, tightest_upper (aw_before args) pb) of
                 (Some a, Some b) \<Rightarrow> if b \<le> a then Inl Empty_Window else Inr (a, b)
               | _ \<Rightarrow> Inl Missing_Range) in
           case aw_period args of
             Some p \<Rightarrow> (if u_strip p = [] then bounds None None
               else case parse_period_shortcut (an_lower env) (sv_digit (an_synth env)) (an_zone env) (an_now env) p of
                 Inl _ \<Rightarrow> Inl Bad_Period
               | Inr r \<Rightarrow> bounds (Some (pd_since r)) (Some (pd_before r)))
           | None \<Rightarrow> bounds None None)
      | Time_Window \<Rightarrow>
          (case target of
             None \<Rightarrow> Inl Target_Not_Summary
           | Some s \<Rightarrow>
             (let anchor = 1000 * sr_created_at s; half = clamp_hours (aw_window_hours args) * hour_ms;
                  a = (case aw_since args of Some x \<Rightarrow> max x (anchor - half) | None \<Rightarrow> anchor - half);
                  b = (case aw_before args of Some x \<Rightarrow> min x (anchor + half) | None \<Rightarrow> anchor + half) in
              if b \<le> a then Inl Empty_Window else Inr (a, b))))"

definition retry_after :: "int \<Rightarrow> int option \<Rightarrow> int option" where
  "retry_after now started = map_option (\<lambda>t. max 0 (1000 * t + 10 * 60 * 1000 - now)) started"

definition loser_answer :: "int \<Rightarrow> cache_row option \<Rightarrow> string \<Rightarrow> around_answer" where
  "loser_answer now existing cid =
     (case existing of
        None \<Rightarrow> Building_Elsewhere cid None
      | Some r \<Rightarrow> (case (cc_status r, cc_content r) of
          (Ready, Some text) \<Rightarrow> Cached (cc_cache_id r) text
        | (Cache_Failed, _) \<Rightarrow> Recent_Failure (cc_cache_id r) (retry_after now (cc_building_started_at r))
        | _ \<Rightarrow> Building_Elsewhere (cc_cache_id r) (retry_after now (cc_building_started_at r))))"

text \<open>The run of the winner: the dispatch, then the row, then the references.\<close>

definition run_winner ::
    "around_env \<Rightarrow> tier_label \<Rightarrow> utext \<Rightarrow> string list \<Rightarrow> string \<Rightarrow> around_state \<Rightarrow> around_state \<times> around_answer" where
  "run_winner env tier source ids cid st =
     (let senv = (an_synth env)\<lparr>sv_caches := map cc_cache_id (sk_rows (ar_cache st)),
            sv_summaries := map sr_summary_id (db_summaries (ar_db st))\<rparr> in
      case synthesize senv \<lparr>sy_tier = tier, sy_memory_type = Episodic_Condensed, sy_source_text = source,
          sy_pass_session_id = an_pass_session_id env, sy_target_summary_id = None, sy_target_cache_id = Some cid,
          sy_model_override = None, sy_force_model = False, sy_best_of_n = None\<rparr> (ar_synth st) of
        (synth, Inl e) \<Rightarrow>
          (st\<lparr>ar_synth := synth, ar_cache := mark_cache_failed cid (an_error_text env e) (ar_cache st)\<rparr>, Around_Error (Dispatch_Failed e))
      | (synth, Inr r) \<Rightarrow>
          (st\<lparr>ar_synth := synth, ar_cache := record_cache_leaf_refs (ar_db st) cid ids
             (mark_cache_ready cid (sx_output r) (sx_primary_prompt_id r) (ar_cache st))\<rparr>, Synthesized cid r ids))"

text \<open>The row of a request that has found its window, with the source text.\<close>

definition window_row ::
    "around_env \<Rightarrow> around_args \<Rightarrow> utext \<Rightarrow> int list option \<Rightarrow> summary_record option \<Rightarrow> int \<times> int \<Rightarrow> around_state
      \<Rightarrow> around_error + cache_row \<times> utext" where
  "window_row env args key ids target bounds st =
     (let rows = select_time_window_leaves (ar_db st) (fst bounds) (snd bounds) ids (map_option sr_summary_id target);
          tier = tier_text (around_tier (aw_tier args)) in
      if rows = [] then Inl No_Leaves
      else
        (let built = build_source_text (an_time_text env) rows;
             leaf_ids = map sr_summary_id (case snd built of Some n \<Rightarrow> take n rows | None \<Rightarrow> rows) in
         case leaf_fingerprint (an_sha env) leaf_ids of
           None \<Rightarrow> Inl Bad_Leaf_Id
         | Some fp \<Rightarrow>
           (case get_active_prompt (ss_prompts (ar_synth st)) Episodic_Condensed (Some tier) Single_Pass of
              None \<Rightarrow> Inl No_Prompt
            | Some prompt \<Rightarrow>
              (case an_model env of
                 None \<Rightarrow> Inl No_Model
               | Some model \<Rightarrow>
                 Inr (\<lparr>cc_cache_id = an_cache_id env,
                     cc_key = \<lparr>ck_session_key = key, ck_range_start = fst bounds, ck_range_end = snd bounds, ck_leaf_fingerprint = fp,
                       ck_grep_filter = None, ck_tier_label = tier, ck_prompt_id = pr_prompt_id prompt\<rparr>,
                     cc_content = None, cc_status = Building, cc_model_used = model, cc_source_leaf_ids = leaf_ids,
                     cc_source_token_count = estimate_tokens (fst built), cc_output_token_count = 0,
                     cc_building_started_at = Some (an_now env div 1000), cc_failure_reason = None\<rparr>, fst built)))))"

text \<open>The arguments: the session key of the cache, the conversations and the target.\<close>

definition around_request ::
    "around_env \<Rightarrow> around_args \<Rightarrow> around_state \<Rightarrow> around_error + utext \<times> int list option \<times> summary_record option" where
  "around_request env args st =
     (if aw_target args = [] \<and> aw_window_kind args \<noteq> Period_Window then Inl Target_Required
      else if (case (aw_since args, aw_before args) of (Some a, Some b) \<Rightarrow> b \<le> a | _ \<Rightarrow> False) then Inl Empty_Bounds
      else
        (let scope = resolve_lcm_conversation_scope (ar_conversations st) (an_lookup env) (aw_params args) (aw_session_id args) (aw_session_key args) in
         if \<not> sc_all_conversations scope \<and> sc_conversation_id scope = None then Inl No_Conversation
         else
           (let ids = (if sc_all_conversations scope then None
                  else case sc_conversation_ids scope of Some (i # is) \<Rightarrow> Some (i # is)
                    | _ \<Rightarrow> map_option (\<lambda>c. [c]) (sc_conversation_id scope));
                is_id = take 4 (aw_target args) = cps ''sum_'';
                target = (if is_id then lookup_target_summary (ar_db st) (an_id_of_text env (aw_target args)) ids else None) in
            if is_id \<and> target = None then Inl Target_Not_Found
            else if \<not> is_id \<and> aw_window_kind args = Time_Window then Inl Target_Not_Summary
            else Inr (resolve_session_key (ar_conversations st)
                (case target of Some s \<Rightarrow> an_summary_key env (sr_summary_id s) | None \<Rightarrow> None) (aw_session_key args)
                (case ids of Some is \<Rightarrow> is | None \<Rightarrow> []), ids, target))))"

definition around_plan :: "around_env \<Rightarrow> around_args \<Rightarrow> around_state \<Rightarrow> around_error + cache_row \<times> utext" where
  "around_plan env args st =
     (case around_request env args st of
        Inl e \<Rightarrow> Inl e
      | Inr (key, ids, target) \<Rightarrow>
        (case around_window env args target of
           Inl e \<Rightarrow> Inl e
         | Inr bounds \<Rightarrow> window_row env args key ids target bounds st))"

definition handle_lcm_synthesize_around :: "around_env \<Rightarrow> around_args \<Rightarrow> around_state \<Rightarrow> around_state \<times> around_answer" where
  "handle_lcm_synthesize_around env args st =
     (case around_plan env args st of
        Inl e \<Rightarrow> (st, Around_Error e)
      | Inr (row, source) \<Rightarrow>
        (case insert_cache_row_single_flight (ss_prompts (ar_synth st)) row (sk_rows (ar_cache st)) of
           None \<Rightarrow> (st, Around_Error Insert_Failed)
         | Some (rows, cid, won) \<Rightarrow>
           if won then run_winner env (around_tier (aw_tier args)) source (cc_source_leaf_ids row) cid
             (st\<lparr>ar_cache := (ar_cache st)\<lparr>sk_rows := rows\<rparr>\<rparr>)
           else (st, loser_answer (an_now env) (lookup_cache_row rows (cc_key row)) cid)))"

subsection \<open>The source text\<close>

lemma taken_leaves_prefix:
  "\<exists>rest. rows = taken_leaves time_text so_far rows @ rest \<and> (case rest of [] \<Rightarrow> True
     | s # _ \<Rightarrow> max_source_text_tokens < so_far + (\<Sum>x\<leftarrow>taken_leaves time_text so_far rows @ [s]. block_tokens time_text x))"
proof (induction rows arbitrary: so_far)
  case (Cons s ss)
  show ?case
  proof (cases "max_source_text_tokens < so_far + block_tokens time_text s")
    case False
    from Cons.IH[of "so_far + block_tokens time_text s"] obtain rest where rest:
      "ss = taken_leaves time_text (so_far + block_tokens time_text s) ss @ rest"
      "case rest of [] \<Rightarrow> True | x # _ \<Rightarrow> max_source_text_tokens < so_far + block_tokens time_text s
         + (\<Sum>y\<leftarrow>taken_leaves time_text (so_far + block_tokens time_text s) ss @ [x]. block_tokens time_text y)" by blast
    show ?thesis using False rest by (intro exI[of _ rest]) (auto simp: algebra_simps split: list.splits)
  qed simp
qed simp

lemma taken_leaves_bounded:
  "so_far \<le> max_source_text_tokens \<Longrightarrow>
   so_far + (\<Sum>x\<leftarrow>taken_leaves time_text so_far rows. block_tokens time_text x) \<le> max_source_text_tokens"
proof (induction rows arbitrary: so_far)
  case (Cons s ss)
  then show ?case using Cons.IH[of "so_far + block_tokens time_text s"] by (simp add: algebra_simps)
qed simp

text \<open>The source text of a synthesis is the longest run of leaves, from the oldest, within fifty thousand tokens. Its blocks
  are those of the first leaves, their tokens sum to at most the limit, the next leaf, if there is one, would pass it, and the cut
  that is reported is the number of leaves taken.\<close>

theorem source_text_longest_prefix:
  "\<exists>taken rest. rows = taken @ rest
     \<and> fst (build_source_text time_text rows) = u_join [10, 10, 45, 45, 45, 10, 10] (map (leaf_block time_text) taken)
     \<and> (\<Sum>x\<leftarrow>taken. block_tokens time_text x) \<le> max_source_text_tokens
     \<and> (case rest of [] \<Rightarrow> snd (build_source_text time_text rows) = None
        | s # _ \<Rightarrow> snd (build_source_text time_text rows) = Some (length taken)
            \<and> max_source_text_tokens < (\<Sum>x\<leftarrow>taken @ [s]. block_tokens time_text x))"
proof -
  let ?taken = "taken_leaves time_text 0 rows"
  from taken_leaves_prefix[of rows time_text 0] obtain rest where rest: "rows = ?taken @ rest"
    "case rest of [] \<Rightarrow> True | s # _ \<Rightarrow> max_source_text_tokens < (\<Sum>x\<leftarrow>?taken @ [s]. block_tokens time_text x)"
    unfolding add_0 by blast
  then have "length rows = length ?taken + length rest" by (metis length_append)
  then show ?thesis using rest taken_leaves_bounded[of 0 time_text rows]
    by (intro exI[of _ ?taken] exI[of _ rest]) (simp add: build_source_text_def Let_def max_source_text_tokens_def split: list.splits)
qed

text \<open>A first leaf over the limit leaves nothing: the text is empty, and so is the list of the leaves that the row and its
  fingerprint name.\<close>

lemma large_first_leaf_empties:
  "max_source_text_tokens < block_tokens time_text s \<Longrightarrow> build_source_text time_text (s # ss) = ([], Some 0)"
  by (simp add: build_source_text_def u_join_def)

lemma build_taken:
  "(case snd (build_source_text time_text rows) of Some n \<Rightarrow> take n rows | None \<Rightarrow> rows) = taken_leaves time_text 0 rows"
proof -
  from taken_leaves_prefix[of rows time_text 0] obtain rest where "rows = taken_leaves time_text 0 rows @ rest" by blast
  then have "take (length (taken_leaves time_text 0 rows)) rows = taken_leaves time_text 0 rows"
    "length rows = length (taken_leaves time_text 0 rows) + length rest" by (metis append_eq_conv_conj, metis length_append)
  then show ?thesis by (auto simp: build_source_text_def Let_def split: option.split)
qed

lemma set_taken_leaves: "set (taken_leaves time_text so_far rows) \<subseteq> set rows"
  using taken_leaves_prefix[of rows time_text so_far] by (metis Un_upper1 set_append)

subsection \<open>The cache stays consistent\<close>

definition key_norm :: "cache_key \<Rightarrow> cache_key" where
  "key_norm k = k\<lparr>ck_grep_filter := Some (case ck_grep_filter k of Some x \<Rightarrow> x | None \<Rightarrow> [])\<rparr>"

lemma same_key_norm: "same_key a b \<longleftrightarrow> key_norm a = key_norm b"
proof -
  have "key_norm a = key_norm b \<Longrightarrow> a\<lparr>ck_grep_filter := None\<rparr> = b\<lparr>ck_grep_filter := None\<rparr>"
    by (cases a, cases b) (simp add: key_norm_def)
  moreover have "key_norm a = key_norm b \<Longrightarrow> (case ck_grep_filter a of Some x \<Rightarrow> x | None \<Rightarrow> []) = (case ck_grep_filter b of Some x \<Rightarrow> x | None \<Rightarrow> [])"
    unfolding key_norm_def by (metis cache_key.select_convs(5) cache_key.surjective cache_key.update_convs(5) option.inject)
  moreover have "same_key a b \<Longrightarrow> key_norm a = key_norm b"
    by (cases a, cases b) (simp add: key_norm_def same_key_def)
  ultimately show ?thesis unfolding same_key_def by blast
qed

definition row_ok :: "(utext \<Rightarrow> string) \<Rightarrow> cache_row \<Rightarrow> bool" where
  "row_ok sha r \<longleftrightarrow> leaf_fingerprint sha (cc_source_leaf_ids r) = Some (ck_leaf_fingerprint (cc_key r))
     \<and> (cc_status r = Ready \<longrightarrow> cc_content r \<noteq> None)"

definition cache_ok :: "(utext \<Rightarrow> string) \<Rightarrow> synthesis_cache \<Rightarrow> bool" where
  "cache_ok sha c \<longleftrightarrow> distinct (map cc_cache_id (sk_rows c)) \<and> distinct (map (\<lambda>r. key_norm (cc_key r)) (sk_rows c))
     \<and> list_all (row_ok sha) (sk_rows c) \<and> list_all (\<lambda>(cid, _). cid \<in> cc_cache_id ` set (sk_rows c)) (sk_leaf_refs c)"

lemma update_cache_row_ok:
  assumes "cache_ok sha c" "\<And>r. r \<in> set (sk_rows c) \<Longrightarrow> cc_cache_id r = cid \<Longrightarrow>
      cc_cache_id (f r) = cid \<and> cc_key (f r) = cc_key r \<and> (row_ok sha r \<longrightarrow> row_ok sha (f r))"
  shows "cache_ok sha (update_cache_row cid f c)"
proof -
  define g where "g = (\<lambda>r. if cc_cache_id r = cid then f r else r)"
  have g: "cc_cache_id (g r) = cc_cache_id r \<and> cc_key (g r) = cc_key r \<and> row_ok sha (g r)" if "r \<in> set (sk_rows c)" for r
    using that assms by (simp add: g_def cache_ok_def list_all_iff)
  then have eqs: "map (\<lambda>r. cc_cache_id (g r)) (sk_rows c) = map cc_cache_id (sk_rows c)"
    "map (\<lambda>r. key_norm (cc_key (g r))) (sk_rows c) = map (\<lambda>r. key_norm (cc_key r)) (sk_rows c)"
    "(\<lambda>r. cc_cache_id (g r)) ` set (sk_rows c) = cc_cache_id ` set (sk_rows c)" "list_all (\<lambda>r. row_ok sha (g r)) (sk_rows c)"
    by (auto simp: list_all_iff intro: image_cong)
  have new: "sk_rows (update_cache_row cid f c) = map g (sk_rows c)" "sk_leaf_refs (update_cache_row cid f c) = sk_leaf_refs c"
    by (simp_all add: update_cache_row_def g_def)
  from assms(1) eqs(4) show ?thesis
    by (simp only: cache_ok_def new o_def image_image list.pred_map list.map_comp set_map eqs(1-3))
qed

lemma record_refs_rows: "sk_rows (record_cache_leaf_refs db cid ids c) = sk_rows c"
  unfolding record_cache_leaf_refs_def by (induction ids arbitrary: c) simp_all

lemma record_refs_ok: "cache_ok sha c \<Longrightarrow> cache_ok sha (record_cache_leaf_refs db cid ids c)"
  unfolding record_cache_leaf_refs_def
proof (induction ids arbitrary: c)
  case (Cons i ids)
  have "cache_ok sha c \<Longrightarrow> list_ex (\<lambda>r. cc_cache_id r = cid) (sk_rows c) \<Longrightarrow> cache_ok sha (c\<lparr>sk_leaf_refs := sk_leaf_refs c @ [(cid, i)]\<rparr>)"
    by (auto simp: cache_ok_def list_ex_iff)
  then show ?case using Cons by simp
qed simp

lemma invalidate_ok: "cache_ok sha c \<Longrightarrow> cache_ok sha (fst (invalidate_caches_for_suppressed_leaves ids c))"
  unfolding cache_ok_def invalidate_caches_for_suppressed_leaves_def Let_def
  by (auto simp: list_all_iff list_ex_iff distinct_map_filter)

lemma plain_synthesize:
  assumes "sy_tier req \<noteq> Yearly" "sy_tier req \<noteq> Monthly" "synthesize env req st = (st', res)"
  shows "ss_prompts st' = ss_prompts st \<and> (case res of Inl _ \<Rightarrow> True | Inr r \<Rightarrow>
    \<exists>p. get_active_prompt (ss_prompts st) (sy_memory_type req) (Some (tier_text (sy_tier req))) Single_Pass = Some p
      \<and> sx_primary_prompt_id r = pr_prompt_id p)"
proof -
  have kept: "ss_prompts st1 = ss_prompts st" if "run_pass_with_audit env a c st = (st1, r)" for a c st1 r
    using run_pass_grown[OF that] by (auto simp: grown_def)
  show ?thesis using assms
    by (auto simp: synthesize_def Let_def dest: kept split: if_splits option.splits sum.splits prod.splits)
qed

definition no_winner :: "around_answer \<Rightarrow> bool" where
  "no_winner a \<longleftrightarrow> (case a of Synthesized _ _ _ \<Rightarrow> False | Around_Error (Dispatch_Failed _) \<Rightarrow> False | _ \<Rightarrow> True)"

lemma window_row_fields:
  assumes "window_row env args key ids target bounds st = Inr (row, source)"
  shows "leaf_fingerprint (an_sha env) (cc_source_leaf_ids row) = Some (ck_leaf_fingerprint (cc_key row))"
    and "cc_status row = Building" and "ck_tier_label (cc_key row) = tier_text (around_tier (aw_tier args))"
    and "\<exists>p. get_active_prompt (ss_prompts (ar_synth st)) Episodic_Condensed (Some (ck_tier_label (cc_key row))) Single_Pass = Some p
      \<and> ck_prompt_id (cc_key row) = pr_prompt_id p"
    and "list_all (\<lambda>i. list_ex (\<lambda>s. sr_summary_id s = i \<and> sr_kind s = Leaf \<and> \<not> sr_suppressed s) (db_summaries (ar_db st))) (cc_source_leaf_ids row)"
proof -
  let ?rows = "select_time_window_leaves (ar_db st) (fst bounds) (snd bounds) ids (map_option sr_summary_id target)"
  have ids: "cc_source_leaf_ids row = map sr_summary_id (taken_leaves (an_time_text env) 0 ?rows)"
    using assms unfolding window_row_def Let_def build_taken
    by (simp split: if_splits option.splits) (metis cache_row.select_convs(6))
  have "set (taken_leaves (an_time_text env) 0 ?rows) \<subseteq> {s \<in> set (db_summaries (ar_db st)). sr_kind s = Leaf \<and> \<not> sr_suppressed s}"
    using set_taken_leaves[of "an_time_text env" 0 ?rows] by (auto simp: select_time_window_leaves_def in_time_window_def)
  then show "list_all (\<lambda>i. list_ex (\<lambda>s. sr_summary_id s = i \<and> sr_kind s = Leaf \<and> \<not> sr_suppressed s) (db_summaries (ar_db st))) (cc_source_leaf_ids row)"
    by (auto simp: ids list_all_iff list_ex_iff)
  show "leaf_fingerprint (an_sha env) (cc_source_leaf_ids row) = Some (ck_leaf_fingerprint (cc_key row))"
    "cc_status row = Building" "ck_tier_label (cc_key row) = tier_text (around_tier (aw_tier args))"
    "\<exists>p. get_active_prompt (ss_prompts (ar_synth st)) Episodic_Condensed (Some (ck_tier_label (cc_key row))) Single_Pass = Some p
      \<and> ck_prompt_id (cc_key row) = pr_prompt_id p"
    using assms by (auto simp: window_row_def Let_def split: if_splits option.splits)
qed

lemma around_plan_row:
  assumes "around_plan env args st = Inr (row, source)"
  obtains key ids target bounds where "around_request env args st = Inr (key, ids, target)"
    "around_window env args target = Inr bounds" "window_row env args key ids target bounds st = Inr (row, source)"
  using assms by (auto simp: around_plan_def split: sum.splits)

lemma winner_keeps_cache:
  assumes "around_plan env args st = Inr (row, source)"
    and "insert_cache_row_single_flight (ss_prompts (ar_synth st)) row (sk_rows (ar_cache st)) = Some (rows, cid, True)"
    and "cache_ok (an_sha env) (ar_cache st)"
  shows "cache_ok (an_sha env) (ar_cache (fst (run_winner env (around_tier (aw_tier args)) source (cc_source_leaf_ids row) cid
    (st\<lparr>ar_cache := (ar_cache st)\<lparr>sk_rows := rows\<rparr>\<rparr>))))"
proof -
  obtain key ids target bounds where "window_row env args key ids target bounds st = Inr (row, source)"
    using assms(1) by (rule around_plan_row)
  note f = window_row_fields[OF this]
  have new: "rows = sk_rows (ar_cache st) @ [row]" "cid = cc_cache_id row"
    "\<not> list_ex (\<lambda>r. cc_cache_id r = cc_cache_id row \<or> same_key (cc_key r) (cc_key row)) (sk_rows (ar_cache st))"
    using assms(2) by (auto simp: insert_cache_row_single_flight_def split: if_splits option.splits)
  let ?c = "(ar_cache st)\<lparr>sk_rows := rows\<rparr>"
  have ok: "cache_ok (an_sha env) ?c" using assms(3) new(3) f(1,2)
    by (auto simp: cache_ok_def new(1) row_ok_def list_ex_iff list_all_iff same_key_norm)
  have only: "r = row" if "r \<in> set rows" "cc_cache_id r = cid" for r using that new by (auto simp: list_ex_iff)
  have failed: "cache_ok (an_sha env) (mark_cache_failed cid t ?c)" for t
    unfolding mark_cache_failed_def by (rule update_cache_row_ok[OF ok]) (simp add: row_ok_def)
  have ready: "cache_ok (an_sha env) (mark_cache_ready cid t (ck_prompt_id (cc_key row)) ?c)" for t
    unfolding mark_cache_ready_def by (rule update_cache_row_ok[OF ok]) (auto simp: row_ok_def dest: only)
  define req where "req = \<lparr>sy_tier = around_tier (aw_tier args), sy_memory_type = Episodic_Condensed, sy_source_text = source,
    sy_pass_session_id = an_pass_session_id env, sy_target_summary_id = None, sy_target_cache_id = Some cid,
    sy_model_override = None, sy_force_model = False, sy_best_of_n = None\<rparr>"
  define senv where "senv = (an_synth env)\<lparr>sv_caches := map cc_cache_id rows, sv_summaries := map sr_summary_id (db_summaries (ar_db st))\<rparr>"
  obtain st' res where r: "synthesize senv req (ar_synth st) = (st', res)" by fastforce
  have "sy_tier req \<noteq> Yearly" "sy_tier req \<noteq> Monthly" by (simp_all add: req_def around_tier_def)
  from plain_synthesize[OF this r] have prompt: "res = Inr x \<Longrightarrow> sx_primary_prompt_id x = ck_prompt_id (cc_key row)" for x
    using f(3,4) by (auto simp: req_def)
  show ?thesis using prompt failed ready
    by (cases res) (simp_all add: run_winner_def Let_def req_def[symmetric] senv_def[symmetric] r record_refs_ok)
qed

lemma around_request_quiet: "around_request env args st \<noteq> Inl (Dispatch_Failed x)"
  unfolding around_request_def Let_def by (auto split: if_splits)

lemma around_window_quiet: "around_window env args target \<noteq> Inl (Dispatch_Failed x)"
  by (cases "aw_window_kind args") (auto simp: around_window_def Let_def split: sum.split option.split)

lemma window_row_quiet: "window_row env args key ids target bounds st \<noteq> Inl (Dispatch_Failed x)"
  unfolding window_row_def Let_def by (auto split: option.split)

lemma around_plan_quiet: "around_plan env args st \<noteq> Inl (Dispatch_Failed x)"
proof (cases "around_request env args st")
  case (Inl e)
  then show ?thesis using around_request_quiet[of env args st x] by (simp add: around_plan_def)
next
  case (Inr p)
  obtain key ids target where "p = (key, ids, target)" by (cases p)
  then show ?thesis using Inr around_window_quiet[of env args target x] window_row_quiet
    by (cases "around_window env args target") (simp_all add: around_plan_def)
qed

lemma loser_answer_quiet: "no_winner (loser_answer now existing cid)"
  by (simp add: no_winner_def loser_answer_def split: option.split cache_status.split)

lemma loser_answer_Cached:
  "Cached cid t = loser_answer now existing c \<Longrightarrow> \<exists>r. existing = Some r \<and> cc_cache_id r = cid \<and> cc_status r = Ready \<and> cc_content r = Some t"
  by (cases existing) (auto simp: loser_answer_def split: option.splits cache_status.splits)

lemma handle_around_cases:
  assumes "handle_lcm_synthesize_around env args st = (st', a)"
  obtains (same) "st' = st" "no_winner a"
    "\<And>cid t. a = Cached cid t \<Longrightarrow> \<exists>row source r. around_plan env args st = Inr (row, source)
       \<and> lookup_cache_row (sk_rows (ar_cache st)) (cc_key row) = Some r \<and> cc_cache_id r = cid \<and> cc_status r = Ready \<and> cc_content r = Some t"
  | (won) row source rows cid where "around_plan env args st = Inr (row, source)"
    "insert_cache_row_single_flight (ss_prompts (ar_synth st)) row (sk_rows (ar_cache st)) = Some (rows, cid, True)"
    "(st', a) = run_winner env (around_tier (aw_tier args)) source (cc_source_leaf_ids row) cid (st\<lparr>ar_cache := (ar_cache st)\<lparr>sk_rows := rows\<rparr>\<rparr>)"
proof (cases "around_plan env args st")
  case (Inl e)
  have "e \<noteq> Dispatch_Failed x" for x using Inl around_plan_quiet by metis
  then show ?thesis using Inl assms
    by (intro same) (auto simp: handle_lcm_synthesize_around_def no_winner_def split: around_error.splits)
next
  case (Inr p)
  obtain row source where p: "around_plan env args st = Inr (row, source)" using Inr by (cases p) simp
  have lost: "rows = sk_rows (ar_cache st)" if "insert_cache_row_single_flight ps row (sk_rows (ar_cache st)) = Some (rows, cid, False)" for ps rows cid
    using that by (auto simp: insert_cache_row_single_flight_def split: if_splits option.splits)
  show ?thesis
  proof (cases "\<exists>rows cid. insert_cache_row_single_flight (ss_prompts (ar_synth st)) row (sk_rows (ar_cache st)) = Some (rows, cid, True)")
    case True
    then obtain rows cid where i: "insert_cache_row_single_flight (ss_prompts (ar_synth st)) row (sk_rows (ar_cache st)) = Some (rows, cid, True)" by blast
    then show ?thesis using assms by (intro won[OF p i]) (simp add: handle_lcm_synthesize_around_def p)
  next
    case False
    then have "st' = st \<and> (a = Around_Error Insert_Failed \<or> (\<exists>cid. a = loser_answer (an_now env) (lookup_cache_row (sk_rows (ar_cache st)) (cc_key row)) cid))"
    proof (cases "insert_cache_row_single_flight (ss_prompts (ar_synth st)) row (sk_rows (ar_cache st))")
      case None
      then show ?thesis using assms by (simp add: handle_lcm_synthesize_around_def p)
    next
      case (Some x)
      obtain rows cid b where x: "x = (rows, cid, b)" by (cases x)
      with Some False have b: "\<not> b" by auto
      with lost Some x have "rows = sk_rows (ar_cache st)" by simp
      then show ?thesis using assms Some x b by (auto simp: handle_lcm_synthesize_around_def p)
    qed
    then show ?thesis using p loser_answer_quiet loser_answer_Cached
      by (intro same) (auto simp: no_winner_def[of "Around_Error Insert_Failed"])
  qed
qed

inductive around_reach :: "(utext \<Rightarrow> string) \<Rightarrow> around_state \<Rightarrow> bool" for sha where
  start: "sk_rows (ar_cache st) = [] \<Longrightarrow> sk_leaf_refs (ar_cache st) = [] \<Longrightarrow> around_reach sha st"
| tool: "around_reach sha st \<Longrightarrow> an_sha env = sha \<Longrightarrow> around_reach sha (fst (handle_lcm_synthesize_around env args st))"
| invalidate: "around_reach sha st \<Longrightarrow>
    around_reach sha (st\<lparr>ar_cache := fst (invalidate_caches_for_suppressed_leaves ids (ar_cache st))\<rparr>)"
| other: "around_reach sha st \<Longrightarrow> around_reach sha (st\<lparr>ar_db := db, ar_conversations := t, ar_synth := s\<rparr>)"

lemma around_reach_ok: "around_reach sha st \<Longrightarrow> cache_ok sha (ar_cache st)"
proof (induction rule: around_reach.induct)
  case (start st)
  then show ?case by (simp add: cache_ok_def)
next
  case (tool st env args)
  obtain st' a where h: "handle_lcm_synthesize_around env args st = (st', a)" by fastforce
  then show ?case
  proof (cases rule: handle_around_cases)
    case (won row source rows cid)
    then show ?thesis using winner_keeps_cache[OF won(1,2)] tool by (metis fst_conv h)
  qed (use tool h in simp)
qed (simp_all add: invalidate_ok)

text \<open>C33. The tool pays for a window once. In every state that calls of the tool, invalidations and changes of the rest of the
  database lead to, the cache has one row per key, each row's fingerprint is that of its leaves and a ready row has its text; and a
  call that reaches the model or writes an audit row is for a key that no row of the cache has.\<close>

theorem synthesis_single_flight:
  assumes "around_reach (an_sha env) st"
  shows "cache_ok (an_sha env) (ar_cache st)
    \<and> (ar_synth (fst (handle_lcm_synthesize_around env args st)) = ar_synth st
       \<or> (\<exists>row source. around_plan env args st = Inr (row, source)
          \<and> \<not> list_ex (\<lambda>r. same_key (cc_key r) (cc_key row)) (sk_rows (ar_cache st))))"
proof -
  obtain st' a where h: "handle_lcm_synthesize_around env args st = (st', a)" by fastforce
  then have "ar_synth st' = ar_synth st \<or> (\<exists>row source. around_plan env args st = Inr (row, source)
      \<and> \<not> list_ex (\<lambda>r. same_key (cc_key r) (cc_key row)) (sk_rows (ar_cache st)))"
  proof (cases rule: handle_around_cases)
    case (won row source rows cid)
    from won(2) have "\<not> list_ex (\<lambda>r. same_key (cc_key r) (cc_key row)) (sk_rows (ar_cache st))"
      by (auto simp: insert_cache_row_single_flight_def list_ex_iff split: if_splits option.splits)
    with won(1) show ?thesis by blast
  qed simp
  with around_reach_ok[OF assms] show ?thesis by (simp add: h)
qed

lemma lookup_cache_row_SomeD: "lookup_cache_row rows key = Some r \<Longrightarrow> r \<in> set rows \<and> same_key (cc_key r) key"
proof -
  let ?k = "\<lambda>r. case cc_building_started_at r of Some t \<Rightarrow> (0 :: nat, - t) | None \<Rightarrow> (1, 0)"
  assume "lookup_cache_row rows key = Some r"
  then obtain ys where "sort_key ?k (filter (\<lambda>r. same_key (cc_key r) key) rows) = r # ys"
    by (auto simp: lookup_cache_row_def split: list.splits)
  then have "r \<in> set (sort_key ?k (filter (\<lambda>r. same_key (cc_key r) key) rows))" by simp
  then show ?thesis by simp
qed

text \<open>C34. A cached text is served only for leaves that can be seen now. A cached answer changes nothing and is the text of a ready
  row of the cache for the same session key, bounds, tier and prompt, whose leaves have the fingerprint of the leaves that the
  request selects at this moment, all of them leaves of the table that are not suppressed.\<close>

theorem cached_text_of_visible_leaves:
  assumes "around_reach (an_sha env) st" "handle_lcm_synthesize_around env args st = (st', Cached cid content)"
  shows "st' = st \<and> (\<exists>r row source. r \<in> set (sk_rows (ar_cache st)) \<and> cc_cache_id r = cid \<and> cc_status r = Ready \<and> cc_content r = Some content
    \<and> around_plan env args st = Inr (row, source) \<and> same_key (cc_key r) (cc_key row)
    \<and> leaf_fingerprint (an_sha env) (cc_source_leaf_ids r) = leaf_fingerprint (an_sha env) (cc_source_leaf_ids row)
    \<and> list_all (\<lambda>i. list_ex (\<lambda>s. sr_summary_id s = i \<and> sr_kind s = Leaf \<and> \<not> sr_suppressed s) (db_summaries (ar_db st))) (cc_source_leaf_ids row))"
  using assms(2)
proof (cases rule: handle_around_cases)
  case same
  from same(3)[OF refl] obtain row source r where r: "around_plan env args st = Inr (row, source)"
    "lookup_cache_row (sk_rows (ar_cache st)) (cc_key row) = Some r" "cc_cache_id r = cid" "cc_status r = Ready" "cc_content r = Some content" by blast
  obtain key ids target bounds where "window_row env args key ids target bounds st = Inr (row, source)" using r(1) by (rule around_plan_row)
  note f = window_row_fields[OF this]
  from lookup_cache_row_SomeD[OF r(2)] have k: "r \<in> set (sk_rows (ar_cache st))" "same_key (cc_key r) (cc_key row)" by auto
  then have "ck_leaf_fingerprint (cc_key r) = ck_leaf_fingerprint (cc_key row)"
    unfolding same_key_def by (metis cache_key.ext_inject cache_key.surjective cache_key.update_convs(5))
  moreover have "row_ok (an_sha env) r" using around_reach_ok[OF assms(1)] k(1) by (simp add: cache_ok_def list_all_iff)
  ultimately have "leaf_fingerprint (an_sha env) (cc_source_leaf_ids r) = leaf_fingerprint (an_sha env) (cc_source_leaf_ids row)"
    by (simp add: row_ok_def f(1))
  with same(1) r k f(5) show ?thesis by blast
next
  case (won row source rows c)
  then show ?thesis by (auto simp: run_winner_def Let_def split: prod.splits sum.splits)
qed

subsection \<open>A failure is kept\<close>

lemma around_plan_again:
  assumes "around_plan env args st = Inr (row, source)" "aw_window_kind args = Time_Window" "ar_db st' = ar_db st"
    and "ar_conversations st' = ar_conversations st" "ss_prompts (ar_synth st') = ss_prompts (ar_synth st)"
  shows "around_plan (env\<lparr>an_now := n, an_cache_id := c, an_pass_session_id := p, an_synth := s\<rparr>) args st'
    = Inr (row\<lparr>cc_cache_id := c, cc_building_started_at := Some (n div 1000)\<rparr>, source)"
proof -
  let ?env = "env\<lparr>an_now := n, an_cache_id := c, an_pass_session_id := p, an_synth := s\<rparr>"
  obtain key ids target bounds where r: "around_request env args st = Inr (key, ids, target)"
    "around_window env args target = Inr bounds" "window_row env args key ids target bounds st = Inr (row, source)"
    using assms(1) by (rule around_plan_row)
  have sel: "an_lookup ?env = an_lookup env" "an_id_of_text ?env = an_id_of_text env" "an_summary_key ?env = an_summary_key env" by simp_all
  have "around_request ?env args st' = around_request env args st" unfolding around_request_def assms(3,4) sel by (rule refl)
  moreover have "around_window ?env args target = around_window env args target" by (simp add: around_window_def assms(2))
  moreover have "window_row ?env args key ids target bounds st' = Inr (row\<lparr>cc_cache_id := c, cc_building_started_at := Some (n div 1000)\<rparr>, source)"
    using r(3) by (auto simp: window_row_def Let_def assms(3,5) split: if_splits option.splits)
  ultimately show ?thesis using r(1,2) by (simp add: around_plan_def)
qed

lemma lost_to_failed:
  assumes "filter (\<lambda>r. same_key (cc_key r) (cc_key row)) rows = [r]" "cc_status r = Cache_Failed"
  shows "insert_cache_row_single_flight ps row rows = Some (rows, cc_cache_id r, False)"
    and "loser_answer now (lookup_cache_row rows (cc_key row)) cid = Recent_Failure (cc_cache_id r) (retry_after now (cc_building_started_at r))"
proof -
  have "r \<in> set (filter (\<lambda>r. same_key (cc_key r) (cc_key row)) rows)" by (simp add: assms(1))
  then have "list_ex (\<lambda>r. cc_cache_id r = cc_cache_id row \<or> same_key (cc_key r) (cc_key row)) rows" by (auto simp: list_ex_iff)
  moreover have l: "lookup_cache_row rows (cc_key row) = Some r" by (simp add: lookup_cache_row_def assms(1))
  ultimately show "insert_cache_row_single_flight ps row rows = Some (rows, cc_cache_id r, False)"
    by (simp add: insert_cache_row_single_flight_def)
  show "loser_answer now (lookup_cache_row rows (cc_key row)) cid = Recent_Failure (cc_cache_id r) (retry_after now (cc_building_started_at r))"
    by (simp add: l loser_answer_def assms(2))
qed


subsection \<open>The session key of the cache\<close>

lemma stripped_strip: "u_strip (stripped k) = stripped k"
  by (cases k) (simp_all add: stripped_def strip_idem, simp add: u_strip_def u_lstrip_def u_rstrip_def)

lemma first_conversation_key_SomeD: "first_conversation_key t ids = Some k \<Longrightarrow> k \<noteq> [] \<and> u_strip k = k"
  by (induction ids) (auto simp: Let_def stripped_strip split: if_splits option.splits)

text \<open>C36. A cached text always has a session key: the key of the cache is never blank and has no white space around it, whatever
  keys the target, the caller and the conversations have.\<close>

theorem cache_session_key_type:
  "resolve_session_key t target_key input_key ids \<noteq> [] \<and> u_strip (resolve_session_key t target_key input_key ids) = resolve_session_key t target_key input_key ids"
proof -
  have "u_strip default_session_key = default_session_key \<and> default_session_key \<noteq> []"
    by (simp add: default_session_key_def cps_def u_strip_def u_lstrip_def u_rstrip_def u_isspace_def)
  then show ?thesis
    by (auto simp: resolve_session_key_def stripped_strip dest: first_conversation_key_SomeD split: option.split)
qed

subsection \<open>Examples\<close>

definition leaf_row :: "string \<Rightarrow> int \<Rightarrow> utext \<Rightarrow> summary_record" where
  "leaf_row sid t content = \<lparr>sr_summary_id = sid, sr_conversation_id = 1, sr_kind = Leaf, sr_depth = 0, sr_content = content,
     sr_token_count = 10, sr_file_ids = [], sr_earliest_at = None, sr_latest_at = None, sr_descendant_count = 0,
     sr_descendant_token_count = 0, sr_source_message_token_count = 0, sr_model = [], sr_created_at = t, sr_suppressed = False\<rparr>"

definition two_leaves :: "utext \<Rightarrow> around_state" where
  "two_leaves content = \<lparr>ar_db = empty_db\<lparr>db_summaries := [leaf_row ''sum_a'' 100 (cps ''a''), leaf_row ''sum_b'' 200 content]\<rparr>,
     ar_conversations = \<lparr>ct_rows = [], ct_next_id = 1\<rparr>, ar_cache = \<lparr>sk_rows = [], sk_leaf_refs = []\<rparr>,
     ar_synth = \<lparr>ss_prompts = [week_prompt\<lparr>pr_tier_label := Some (cps ''custom'')\<rparr>], ss_audit = [], ss_calls = [], ss_drawn = 0\<rparr>\<rparr>"

definition quiet_around :: around_env where
  "quiet_around = \<lparr>an_now = 0, an_cache_id = ''c'', an_pass_session_id = ''s'', an_sha = (\<lambda>_. ''h''), an_time_text = (\<lambda>_. []),
     an_id_of_text = (\<lambda>_. ''sum_a''), an_summary_key = (\<lambda>_. None), an_zone = (\<lambda>_. 0), an_lower = (\<lambda>t. t), an_lookup = None,
     an_model = Some (cps ''m''),
     an_synth = \<lparr>sv_llm = (\<lambda>_ _. Inr \<lparr>lr_output = cps ''done'', lr_latency_ms = 1, lr_cost_cents = None, lr_actual_model = None\<rparr>),
       sv_audit_id = (\<lambda>_. ''u''), sv_insert_fails = (\<lambda>_. False), sv_update_fails = (\<lambda>_. False), sv_order = [], sv_now = 0,
       sv_summaries = [], sv_caches = [], sv_default_model = cps ''m'', sv_word = (\<lambda>_. True), sv_digit = (\<lambda>_. None),
       sv_same_letter = (=)\<rparr>,
     an_error_text = (\<lambda>_. [])\<rparr>"

definition around_sum_a :: around_args where
  "around_sum_a = \<lparr>aw_window_kind = Time_Window, aw_target = cps ''sum_a'', aw_window_hours = None, aw_tier = None, aw_since = None,
     aw_before = None, aw_period = None, aw_params = JObj [(''conversationId'', JInt 1)], aw_session_id = None, aw_session_key = None\<rparr>"

definition two_row :: "utext \<Rightarrow> cache_row" where
  "two_row source = \<lparr>cc_cache_id = ''c'', cc_key = \<lparr>ck_session_key = default_session_key, ck_range_start = 100000 - 24 * hour_ms,
       ck_range_end = 100000 + 24 * hour_ms, ck_leaf_fingerprint = ''h'', ck_grep_filter = None, ck_tier_label = cps ''custom'',
       ck_prompt_id = ''p''\<rparr>, cc_content = None, cc_status = Building, cc_model_used = cps ''m'', cc_source_leaf_ids = [''sum_b''],
     cc_source_token_count = estimate_tokens source, cc_output_token_count = 0, cc_building_started_at = Some 0, cc_failure_reason = None\<rparr>"

definition leaf_b :: "utext \<Rightarrow> summary_record" where "leaf_b content = leaf_row ''sum_b'' 200 content"

lemma request_two_leaves:
  "around_request quiet_around around_sum_a (two_leaves content) = Inr (default_session_key, Some [1], Some (leaf_row ''sum_a'' 100 (cps ''a'')))"
  by (simp add: around_request_def around_sum_a_def quiet_around_def two_leaves_def resolve_lcm_conversation_scope_def cps_def jget.simps
      lookup_target_summary_def leaf_row_def conversation_filter_def resolve_session_key_def stripped_def Let_def
      get_conversation_def)

lemma leaves_two_leaves:
  "select_time_window_leaves (ar_db (two_leaves content)) (100000 - 24 * hour_ms) (100000 + 24 * hour_ms) (Some [1]) (Some ''sum_a'') = [leaf_b content]"
  by (simp add: select_time_window_leaves_def in_time_window_def two_leaves_def leaf_row_def leaf_b_def leaf_time_def conversation_filter_def hour_ms_def)

lemma source_two_leaves: "build_source_text tt [leaf_b content] = (leaf_block tt (leaf_b content), None)"
  by (simp add: build_source_text_def Let_def block_tokens_def max_source_text_tokens_def leaf_b_def leaf_row_def u_join_def)

lemma plan_two_leaves:
  "around_plan quiet_around around_sum_a (two_leaves content) =
    Inr (two_row (leaf_block (\<lambda>_. []) (leaf_b content)), leaf_block (\<lambda>_. []) (leaf_b content))"
proof -
  have "around_window quiet_around around_sum_a (Some (leaf_row ''sum_a'' 100 (cps ''a''))) = Inr (100000 - 24 * hour_ms, 100000 + 24 * hour_ms)"
    by (simp add: around_window_def around_sum_a_def clamp_hours_def leaf_row_def hour_ms_def Let_def)
  moreover have "window_row quiet_around around_sum_a default_session_key (Some [1]) (Some (leaf_row ''sum_a'' 100 (cps ''a'')))
      (100000 - 24 * hour_ms, 100000 + 24 * hour_ms) (two_leaves content) =
    Inr (two_row (leaf_block (\<lambda>_. []) (leaf_b content)), leaf_block (\<lambda>_. []) (leaf_b content))"
  proof -
    have p: "get_active_prompt (ss_prompts (ar_synth (two_leaves content))) Episodic_Condensed (Some (cps ''custom'')) Single_Pass =
        Some (week_prompt\<lparr>pr_tier_label := Some (cps ''custom'')\<rparr>)"
      by (simp add: get_active_prompt_def two_leaves_def week_prompt_def in_lane_def normal_tier_def cps_def)
    have t: "tier_text (around_tier (aw_tier around_sum_a)) = cps ''custom''" by (simp add: around_sum_a_def around_tier_def)
    have f: "leaf_fingerprint (an_sha quiet_around) [''sum_b''] = Some ''h''" by (simp add: leaf_fingerprint_def quiet_around_def cps_def)
    have e: "an_model quiet_around = Some (cps ''m'')" "an_time_text quiet_around = (\<lambda>_. [])" "an_cache_id quiet_around = ''c''" "an_now quiet_around = 0"
      by (simp_all add: quiet_around_def)
    have a: "map_option sr_summary_id (Some (leaf_row ''sum_a'' 100 (cps ''a''))) = Some ''sum_a''" "sr_summary_id (leaf_b content) = ''sum_b''"
      by (simp_all add: leaf_row_def leaf_b_def)
    have q: "pr_prompt_id (week_prompt\<lparr>pr_tier_label := Some (cps ''custom'')\<rparr>) = ''p''" by (simp add: week_prompt_def)
    show ?thesis
      unfolding window_row_def Let_def fst_conv snd_conv a(1) leaves_two_leaves t e source_two_leaves p
      by (simp add: a(2) f q two_row_def)
  qed
  ultimately show ?thesis by (simp add: around_plan_def request_two_leaves)
qed

lemma block_plain: "92 \<notin> set content \<Longrightarrow> compile_repl (leaf_block (\<lambda>_. []) (leaf_b content)) \<noteq> None"
  by (simp add: compile_repl_plain leaf_block_def leaf_b_def leaf_row_def cps_def)

definition a_path :: utext where "a_path = cps ''C:'' @ [92] @ cps ''users''"

lemma block_path: "compile_repl (leaf_block (\<lambda>_. []) (leaf_b a_path)) = None"
proof -
  have "leaf_block (\<lambda>_. []) (leaf_b a_path) = (cps ''### Leaf sum_b ()'' @ [10, 10] @ cps ''C:'') @ 92 # 117 # cps ''sers''"
    by (simp add: leaf_block_def leaf_b_def leaf_row_def cps_def a_path_def)
  also have "compile_repl \<dots> = None" by (rule compile_repl_bad) (simp_all add: cps_def u_alpha_def known_escape_def)
  finally show ?thesis .
qed

lemma insert_two_leaves:
  "insert_cache_row_single_flight (ss_prompts (ar_synth (two_leaves content))) (two_row src) (sk_rows (ar_cache (two_leaves content)))
    = Some ([two_row src], ''c'', True)"
  by (simp add: insert_cache_row_single_flight_def two_leaves_def two_row_def tier_labels_def week_prompt_def)

lemma handle_two_leaves:
  defines "src c \<equiv> leaf_block (\<lambda>_. []) (leaf_b c)"
  shows "handle_lcm_synthesize_around quiet_around around_sum_a (two_leaves c) =
    run_winner quiet_around Custom (src c) [''sum_b''] ''c'' (two_leaves c\<lparr>ar_cache := \<lparr>sk_rows = [two_row (src c)], sk_leaf_refs = []\<rparr>\<rparr>)"
proof -
  have "around_tier (aw_tier around_sum_a) = Custom" by (simp add: around_sum_a_def around_tier_def)
  moreover have "cc_source_leaf_ids (two_row x) = [''sum_b'']" for x by (simp add: two_row_def)
  moreover have "(ar_cache (two_leaves c))\<lparr>sk_rows := rows\<rparr> = \<lparr>sk_rows = rows, sk_leaf_refs = []\<rparr>" for rows by (simp add: two_leaves_def)
  ultimately show ?thesis
    by (simp add: handle_lcm_synthesize_around_def plan_two_leaves insert_two_leaves src_def)
qed

lemma prompt_two_leaves:
  "get_active_prompt (ss_prompts (ar_synth (two_leaves c))) Episodic_Condensed (Some (cps ''custom'')) Single_Pass =
    Some (week_prompt\<lparr>pr_tier_label := Some (cps ''custom'')\<rparr>)"
  by (simp add: get_active_prompt_def two_leaves_def week_prompt_def in_lane_def normal_tier_def cps_def)

lemma path_fails:
  "\<exists>st'. handle_lcm_synthesize_around quiet_around around_sum_a (two_leaves a_path) = (st', Around_Error (Dispatch_Failed Template_Error))"
  by (simp add: handle_two_leaves run_winner_def synthesize_def prompt_two_leaves render_prompt_def sub_value_def block_path Let_def)

lemma run_two_leaves:
  assumes "compile_repl src \<noteq> None"
  shows "\<exists>synth r. run_winner quiet_around Custom src [''sum_b''] ''c'' (two_leaves c\<lparr>ar_cache := \<lparr>sk_rows = [two_row src], sk_leaf_refs = []\<rparr>\<rparr>) =
    (two_leaves c\<lparr>ar_synth := synth, ar_cache := \<lparr>sk_rows = [(two_row src)\<lparr>cc_status := Ready, cc_content := Some (cps ''done''),
       cc_output_token_count := estimate_tokens (cps ''done''), cc_building_started_at := None\<rparr>],
       sk_leaf_refs = [(''c'', ''sum_b'')]\<rparr>\<rparr>, Synthesized ''c'' r [''sum_b''])
    \<and> ss_prompts synth = ss_prompts (ar_synth (two_leaves c))"
proof -
  define req where "req = \<lparr>sy_tier = Custom, sy_memory_type = Episodic_Condensed, sy_source_text = src, sy_pass_session_id = an_pass_session_id quiet_around,
    sy_target_summary_id = None, sy_target_cache_id = Some ''c'', sy_model_override = None, sy_force_model = False, sy_best_of_n = None\<rparr>"
  define senv where "senv = (an_synth quiet_around)\<lparr>sv_caches := [''c''], sv_summaries := map sr_summary_id (db_summaries (ar_db (two_leaves c)))\<rparr>"
  obtain parts where "compile_repl src = Some parts" using assms by blast
  moreover have "compile_repl (cps ''custom'') \<noteq> None" "compile_repl (cps ''episodic-condensed'') \<noteq> None"
    by (simp_all add: compile_repl_plain cps_def)
  ultimately obtain rendered where rendered: "render_prompt (pr_template (week_prompt\<lparr>pr_tier_label := Some (cps ''custom'')\<rparr>)) req = Some rendered"
    by (auto simp: render_prompt_def sub_value_def req_def)
  have "\<exists>synth r. synthesize senv req (ar_synth (two_leaves c)) = (synth, Inr r) \<and> sx_output r = cps ''done'' \<and> sx_primary_prompt_id r = ''p''
      \<and> ss_prompts synth = ss_prompts (ar_synth (two_leaves c))"
  proof -
    have req: "sy_tier req = Custom" "sy_memory_type req = Episodic_Condensed" "sy_target_summary_id req = None" "sy_target_cache_id req = Some ''c''"
      by (simp_all add: req_def)
    have senv: "sv_audit_id senv n = ''u''" "\<not> sv_insert_fails senv n" "\<not> sv_update_fails senv t" "sv_caches senv = [''c'']"
      "sv_llm senv n a = Inr \<lparr>lr_output = cps ''done'', lr_latency_ms = 1, lr_cost_cents = None, lr_actual_model = None\<rparr>" for n t a
      by (simp_all add: senv_def quiet_around_def)
    have st: "ss_audit (ar_synth (two_leaves c)) = []" "ss_prompts (ar_synth (two_leaves c)) = [week_prompt\<lparr>pr_tier_label := Some (cps ''custom'')\<rparr>]"
      by (simp_all add: two_leaves_def)
    have id: "pr_prompt_id (week_prompt\<lparr>pr_tier_label := Some (cps ''custom'')\<rparr>) = ''p''" by (simp add: week_prompt_def)
    have prompt: "get_active_prompt (ss_prompts (ar_synth (two_leaves c))) Episodic_Condensed (Some (tier_text Custom)) Single_Pass =
      Some (week_prompt\<lparr>pr_tier_label := Some (cps ''custom'')\<rparr>)" using prompt_two_leaves by simp
    show ?thesis
      unfolding synthesize_def req prompt option.case rendered Let_def
      by (simp add: run_pass_with_audit_def start_pass_def insert_audit_started_def started_row_def pass_ctx_def finish_state_def
          finish_result_def update_audit_completed_def update_audit_row_def senv st id req Let_def)
  qed
  then obtain synth r where r: "synthesize senv req (ar_synth (two_leaves c)) = (synth, Inr r)" "sx_output r = cps ''done''" "sx_primary_prompt_id r = ''p''"
    "ss_prompts synth = ss_prompts (ar_synth (two_leaves c))" by blast
  have ids: "cc_cache_id (two_row src) = ''c''" "cc_key (two_row src)\<lparr>ck_prompt_id := ''p''\<rparr> = cc_key (two_row src)" by (simp_all add: two_row_def)
  show ?thesis
    by (intro exI[of _ synth] exI[of _ r])
      (simp add: run_winner_def Let_def req_def[symmetric] senv_def[symmetric] ids r mark_cache_ready_def update_cache_row_def
        record_cache_leaf_refs_def, simp add: two_leaves_def leaf_row_def two_row_def r(4))
qed

lemma text_cached:
  "snd (handle_lcm_synthesize_around quiet_around around_sum_a
     (fst (handle_lcm_synthesize_around quiet_around around_sum_a (two_leaves (cps ''b''))))) = Cached ''c'' (cps ''done'')"
proof -
  define src where "src = leaf_block (\<lambda>_. []) (leaf_b (cps ''b''))"
  define row where "row = (two_row src)\<lparr>cc_status := Ready, cc_content := Some (cps ''done''),
       cc_output_token_count := estimate_tokens (cps ''done''), cc_building_started_at := None\<rparr>"
  have "compile_repl src \<noteq> None" unfolding src_def by (rule block_plain) (simp add: cps_def)
  from run_two_leaves[OF this, of "cps ''b''"] obtain synth r where
    first: "fst (handle_lcm_synthesize_around quiet_around around_sum_a (two_leaves (cps ''b''))) =
      two_leaves (cps ''b'')\<lparr>ar_synth := synth, ar_cache := \<lparr>sk_rows = [row], sk_leaf_refs = [(''c'', ''sum_b'')]\<rparr>\<rparr>"
    "ss_prompts synth = ss_prompts (ar_synth (two_leaves (cps ''b'')))"
    unfolding handle_two_leaves src_def[symmetric] row_def[symmetric] by auto
  let ?st = "two_leaves (cps ''b'')\<lparr>ar_synth := synth, ar_cache := \<lparr>sk_rows = [row], sk_leaf_refs = [(''c'', ''sum_b'')]\<rparr>\<rparr>"
  have "aw_window_kind around_sum_a = Time_Window" by (simp add: around_sum_a_def)
  from around_plan_again[OF plan_two_leaves this, where st' = ?st and n = 0 and c = "''c''" and p = "''s''" and s = "an_synth quiet_around"] first(2)
  have "around_plan (quiet_around\<lparr>an_now := 0, an_cache_id := ''c'', an_pass_session_id := ''s'', an_synth := an_synth quiet_around\<rparr>) around_sum_a ?st =
      Inr (two_row src\<lparr>cc_cache_id := ''c'', cc_building_started_at := Some 0\<rparr>, src)" by (simp add: src_def)
  moreover have "quiet_around\<lparr>an_now := 0, an_cache_id := ''c'', an_pass_session_id := ''s'', an_synth := an_synth quiet_around\<rparr> = quiet_around"
    "two_row src\<lparr>cc_cache_id := ''c'', cc_building_started_at := Some 0\<rparr> = two_row src" by (simp_all add: quiet_around_def two_row_def)
  ultimately have plan: "around_plan quiet_around around_sum_a ?st = Inr (two_row src, src)" by simp
  have key: "cc_key row = cc_key (two_row src)" "cc_cache_id row = ''c''" by (simp_all add: row_def two_row_def)
  have look: "lookup_cache_row [row] (cc_key (two_row src)) = Some row" by (simp add: lookup_cache_row_def key same_key_norm)
  have "cc_status row = Ready" "cc_content row = Some (cps ''done'')" by (simp_all add: row_def)
  then have "snd (handle_lcm_synthesize_around quiet_around around_sum_a ?st) = Cached ''c'' (cps ''done'')"
    by (simp add: handle_lcm_synthesize_around_def plan insert_cache_row_single_flight_def key same_key_norm look loser_answer_def)
  then show ?thesis by (simp only: first(1))
qed

lemma reach_two_leaves: "around_reach sha (two_leaves content)"
  by (rule around_reach.start) (simp_all add: two_leaves_def)

lemma handle_eta: "snd (handle_lcm_synthesize_around env args st) = a \<Longrightarrow>
    handle_lcm_synthesize_around env args st = (fst (handle_lcm_synthesize_around env args st), a)"
  by (metis prod.collapse)

theorem synthesis_single_flight_witness:
  "cache_ok (an_sha quiet_around) (ar_cache (two_leaves (cps ''b'')))
    \<and> (ar_synth (fst (handle_lcm_synthesize_around quiet_around around_sum_a (two_leaves (cps ''b'')))) = ar_synth (two_leaves (cps ''b''))
       \<or> (\<exists>row source. around_plan quiet_around around_sum_a (two_leaves (cps ''b'')) = Inr (row, source)
          \<and> \<not> list_ex (\<lambda>r. same_key (cc_key r) (cc_key row)) (sk_rows (ar_cache (two_leaves (cps ''b''))))))"
  by (rule synthesis_single_flight[OF reach_two_leaves])

theorem cached_text_of_visible_leaves_witness:
  "\<exists>st. around_reach (an_sha quiet_around) st \<and> fst (handle_lcm_synthesize_around quiet_around around_sum_a st) = st
    \<and> list_ex (\<lambda>r. cc_cache_id r = ''c'' \<and> cc_content r = Some (cps ''done'')) (sk_rows (ar_cache st))"
proof -
  let ?st = "fst (handle_lcm_synthesize_around quiet_around around_sum_a (two_leaves (cps ''b'')))"
  have reach: "around_reach (an_sha quiet_around) ?st" by (rule around_reach.tool[OF reach_two_leaves refl])
  from cached_text_of_visible_leaves[OF reach handle_eta[OF text_cached]] reach show ?thesis
    by (intro exI[of _ ?st]) (auto simp: list_ex_iff)
qed


end
