(* ===== verification/Coreference.thy ===== *)
theory Coreference
  imports Search_Text "HOL-Library.Word"
begin

unbundle bit_operations_syntax

text \<open>
  The entity extraction of \<open>extraction/coreference.py\<close>: one tick drains the queue of leaves, asks an extractor for the entities of
  each and stores them with their mentions. The answers of the extractor, of the heartbeat and of the random generator, and which
  statements SQLite refuses are arguments; a call is known by the position of its row in the tick. The leaves are an argument of
  the selection and, per item, of the foreign keys, since a leaf may go away while the extractor works.
\<close>

subsection \<open>Rows\<close>

datatype queue_kind = Entity_Job | Procedure_Recheck

record queue_row =
  qr_queue_id :: string
  qr_leaf_id :: string
  qr_kind :: queue_kind
  qr_queued_at :: int
  qr_completed_at :: "int option"
  qr_attempts :: int
  qr_last_error :: "utext option"

record entity_row =
  en_entity_id :: utext
  en_session_key :: utext
  en_canonical :: utext
  en_type :: utext
  en_first_seen_at :: int
  en_last_seen_at :: int
  en_first_leaf :: string
  en_count :: nat

record mention_row =
  mn_mention_id :: utext
  mn_entity_id :: utext
  mn_leaf :: string
  mn_surface :: utext
  mn_span :: "int option \<times> int option"
  mn_at :: int

record extracted_entity =
  xe_surface :: utext
  xe_type :: utext
  xe_span_start :: "int option"
  xe_span_end :: "int option"
  xe_canonical :: "utext option"

record coref_leaf =
  cl_summary_id :: string
  cl_content :: utext
  cl_session_key :: utext
  cl_suppressed :: bool

record coref_state =
  cs_queue :: "queue_row list"
  cs_entities :: "entity_row list"
  cs_mentions :: "mention_row list"
  cs_types :: "(utext \<times> nat) list"
  cs_drawn :: nat

record coref_env =
  cf_extract :: "nat \<Rightarrow> string \<Rightarrow> utext \<Rightarrow> utext \<Rightarrow> utext + extracted_entity list"
  cf_held :: "nat \<Rightarrow> bool"
  cf_suffix :: "nat \<Rightarrow> utext"
  cf_now :: int
  cf_update_error :: "nat \<Rightarrow> utext option"
  cf_retry_fails :: "nat \<Rightarrow> bool"
  cf_begin_fails :: "nat \<Rightarrow> bool"
  cf_write_error :: "nat \<Rightarrow> utext option"
  cf_key_error :: utext
  cf_leaves :: "nat \<Rightarrow> string list"

record item_detail =
  id_queue_id :: string
  id_leaf_id :: string
  id_success :: bool
  id_entity_count :: nat
  id_mention_count :: nat
  id_error :: "utext option"

record coref_result =
  cr_processed_count :: nat
  cr_new_entities :: nat
  cr_new_mentions :: nat
  cr_extractor_failures :: nat
  cr_lock_lost_mid_tick :: bool
  cr_per_item :: "item_detail list"

subsection \<open>Identifiers of mentions\<close>

definition fnv_step :: "32 word \<Rightarrow> nat \<Rightarrow> 32 word" where
  "fnv_step h c = (h XOR of_nat c) * 0x01000193"

definition fnv1a :: "utext \<Rightarrow> 32 word" where "fnv1a s = foldl fnv_step 0x811C9DC5 s"

definition hex_digit :: "nat \<Rightarrow> nat" where "hex_digit d = (if d < 10 then 48 + d else 87 + d)"

definition hex8 :: "32 word \<Rightarrow> utext" where
  "hex8 w = map (\<lambda>i. hex_digit (unat (drop_bit (4 * i) w) mod 16)) (rev [0..<8])"

definition surface_hash_for_id :: "utext \<Rightarrow> nat \<Rightarrow> utext" where
  "surface_hash_for_id surface max_bytes =
     (let hex = hex8 (fnv1a surface);
          prefix = take (max_bytes - length hex - 1) (map (\<lambda>c. if u_alpha c \<or> u_digit c then c else 95) surface) in
      if prefix \<noteq> [] then prefix @ [95] @ hex else hex)"

definition mention_id :: "utext \<Rightarrow> string \<Rightarrow> utext \<Rightarrow> utext" where
  "mention_id eid leaf surface = cps ''men_'' @ eid @ [95] @ cps leaf @ [95] @ surface_hash_for_id surface 16"

subsection \<open>One entity\<close>

definition canonical_of :: "extracted_entity \<Rightarrow> utext" where
  "canonical_of e = u_strip (case xe_canonical e of Some c \<Rightarrow> c | None \<Rightarrow> xe_surface e)"

definition nocase :: "utext \<Rightarrow> utext" where "nocase s = map ascii_fold s"

definition find_entity :: "utext \<Rightarrow> utext \<Rightarrow> entity_row list \<Rightarrow> entity_row option" where
  "find_entity key canonical rows = List.find (\<lambda>e. en_session_key e = key \<and> nocase (en_canonical e) = nocase canonical) rows"

fun count_type :: "utext \<Rightarrow> (utext \<times> nat) list \<Rightarrow> (utext \<times> nat) list" where
  "count_type ty [] = [(ty, 1)]"
| "count_type ty ((t, n) # ts) = (if t = ty then (t, n + 1) # ts else (t, n) # count_type ty ts)"

text \<open>The entity's identifier and whether its row is new; \<open>None\<close> when the foreign key of the leaf fails. An identifier that is
  already taken makes \<open>INSERT OR IGNORE\<close> do nothing, and the second \<open>SELECT\<close> finds nothing either.\<close>

definition resolve_entity ::
    "coref_env \<Rightarrow> string list \<Rightarrow> utext \<Rightarrow> string \<Rightarrow> extracted_entity \<Rightarrow> coref_state \<Rightarrow> coref_state \<times> (utext \<times> nat) option" where
  "resolve_entity env leaves key leaf e st =
     (case find_entity key (canonical_of e) (cs_entities st) of
        Some r \<Rightarrow> (st, Some (en_entity_id r, 0))
      | None \<Rightarrow>
        (let eid = cps ''ent_'' @ cf_suffix env (cs_drawn st); st = st\<lparr>cs_drawn := cs_drawn st + 1\<rparr> in
         if list_ex (\<lambda>r. en_entity_id r = eid) (cs_entities st) then (st, Some (eid, 0))
         else if leaf \<notin> set leaves then (st, None)
         else (st\<lparr>cs_entities := cs_entities st @ [\<lparr>en_entity_id = eid, en_session_key = key, en_canonical = canonical_of e,
                   en_type = xe_type e, en_first_seen_at = cf_now env, en_last_seen_at = cf_now env, en_first_leaf = leaf, en_count = 0\<rparr>],
                 cs_types := count_type (xe_type e) (cs_types st)\<rparr>, Some (eid, 1))))"

definition count_mention :: "int \<Rightarrow> utext \<Rightarrow> entity_row list \<Rightarrow> entity_row list" where
  "count_mention now eid rows = map (\<lambda>r. if en_entity_id r = eid then r\<lparr>en_count := en_count r + 1, en_last_seen_at := now\<rparr> else r) rows"

definition insert_mention ::
    "coref_env \<Rightarrow> string list \<Rightarrow> utext \<Rightarrow> string \<Rightarrow> extracted_entity \<Rightarrow> coref_state \<Rightarrow> (coref_state \<times> nat) option" where
  "insert_mention env leaves eid leaf e st =
     (let mid = mention_id eid leaf (xe_surface e) in
      if list_ex (\<lambda>r. mn_mention_id r = mid) (cs_mentions st) then Some (st, 0)
      else if \<not> list_ex (\<lambda>r. en_entity_id r = eid) (cs_entities st) \<or> leaf \<notin> set leaves then None
      else Some (st\<lparr>cs_mentions := cs_mentions st @ [\<lparr>mn_mention_id = mid, mn_entity_id = eid, mn_leaf = leaf, mn_surface = xe_surface e,
                      mn_span = (xe_span_start e, xe_span_end e), mn_at = cf_now env\<rparr>],
                    cs_entities := count_mention (cf_now env) eid (cs_entities st)\<rparr>, 1))"

type_synonym item_progress = "coref_state \<times> nat \<times> nat \<times> utext option"

definition row_failed :: "coref_env \<Rightarrow> nat \<Rightarrow> utext option \<Rightarrow> utext option" where
  "row_failed env idx err = Some ((case err of Some m \<Rightarrow> m | None \<Rightarrow> []) @ cps '' | per-row-failed['' @ int_text (int idx)
     @ cps '']: '' @ take 200 (cf_key_error env))"

text \<open>One entity in its savepoint. A rollback takes the rows back, not the counters of the item.\<close>

definition store_entity ::
    "coref_env \<Rightarrow> string list \<Rightarrow> utext \<Rightarrow> string \<Rightarrow> nat \<times> extracted_entity \<Rightarrow> item_progress \<Rightarrow> item_progress" where
  "store_entity env leaves key leaf ie p = (case (ie, p) of ((idx, e), (st, ec, mc, err)) \<Rightarrow>
     if canonical_of e = [] then p
     else (case resolve_entity env leaves key leaf e st of
         (st1, None) \<Rightarrow> (st\<lparr>cs_drawn := cs_drawn st1\<rparr>, ec, mc, row_failed env idx err)
       | (st1, Some (eid, n)) \<Rightarrow>
         (case insert_mention env leaves eid leaf e st1 of
            None \<Rightarrow> (st\<lparr>cs_drawn := cs_drawn st1\<rparr>, ec + n, mc, row_failed env idx err)
          | Some (st2, k) \<Rightarrow> (st2, ec + n, mc + k, err))))"

definition store_entities ::
    "coref_env \<Rightarrow> string list \<Rightarrow> utext \<Rightarrow> string \<Rightarrow> extracted_entity list \<Rightarrow> coref_state \<Rightarrow> item_progress" where
  "store_entities env leaves key leaf es st = fold (store_entity env leaves key leaf) (enumerate 0 es) (st, 0, 0, None)"

subsection \<open>The tick\<close>

definition default_per_tick_limit :: nat where "default_per_tick_limit = 50"
definition max_attempts :: int where "max_attempts = 5"

definition update_queue :: "string \<Rightarrow> (queue_row \<Rightarrow> queue_row) \<Rightarrow> coref_state \<Rightarrow> coref_state" where
  "update_queue qid f st = st\<lparr>cs_queue := map (\<lambda>q. if qr_queue_id q = qid then f q else q) (cs_queue st)\<rparr>"

definition leaf_of :: "coref_leaf list \<Rightarrow> queue_row \<Rightarrow> coref_leaf option" where
  "leaf_of leaves q = List.find (\<lambda>s. cl_summary_id s = qr_leaf_id q) leaves"

definition pending_row :: "coref_leaf list \<Rightarrow> queue_kind \<Rightarrow> queue_row \<Rightarrow> bool" where
  "pending_row leaves kind q \<longleftrightarrow> qr_kind q = kind \<and> qr_completed_at q = None \<and> qr_attempts q < max_attempts
     \<and> (case leaf_of leaves q of Some s \<Rightarrow> \<not> cl_suppressed s | None \<Rightarrow> False)"

definition count_pending_extractions :: "coref_leaf list \<Rightarrow> queue_kind \<Rightarrow> coref_state \<Rightarrow> nat" where
  "count_pending_extractions leaves kind st = length (filter (pending_row leaves kind) (cs_queue st))"

definition drawn_rows :: "coref_leaf list \<Rightarrow> nat \<Rightarrow> coref_state \<Rightarrow> queue_row list" where
  "drawn_rows leaves limit st = take limit (sort_key qr_queued_at (filter (pending_row leaves Entity_Job) (cs_queue st)))"

definition bump_attempts :: "queue_row \<Rightarrow> queue_row" where "bump_attempts q = q\<lparr>qr_attempts := qr_attempts q + 1\<rparr>"

text \<open>The extractor has failed.\<close>

definition dead_letter :: "coref_env \<Rightarrow> nat \<Rightarrow> queue_row \<Rightarrow> utext \<Rightarrow> coref_state \<times> coref_result \<Rightarrow> coref_state \<times> coref_result" where
  "dead_letter env n q msg p = (case p of (st, res) \<Rightarrow>
     let detail = (\<lambda>t. \<lparr>id_queue_id = qr_queue_id q, id_leaf_id = qr_leaf_id q, id_success = False, id_entity_count = 0, id_mention_count = 0,
           id_error = Some t\<rparr>);
         failed = res\<lparr>cr_extractor_failures := cr_extractor_failures res + 1\<rparr> in
     case cf_update_error env n of
       None \<Rightarrow> (update_queue (qr_queue_id q) (\<lambda>q. (bump_attempts q)\<lparr>qr_last_error := Some (take 500 msg)\<rparr>) st,
         failed\<lparr>cr_per_item := cr_per_item res @ [detail (take 500 msg)]\<rparr>)
     | Some e \<Rightarrow> (if cf_retry_fails env n then st else update_queue (qr_queue_id q) bump_attempts st,
         failed\<lparr>cr_per_item := cr_per_item res @ [detail (take 500 msg @ cps '' | dead-letter-update-failed: '' @ take 500 e)]\<rparr>))"

text \<open>The extractor has answered; a refused write or commit rolls the item back.\<close>

definition write_item ::
    "coref_env \<Rightarrow> nat \<Rightarrow> queue_row \<Rightarrow> coref_leaf \<Rightarrow> extracted_entity list \<Rightarrow> coref_state \<times> coref_result \<Rightarrow> coref_state \<times> coref_result" where
  "write_item env n q s es p = (case p of (st, res) \<Rightarrow>
     case store_entities env (cf_leaves env n) (cl_session_key s) (qr_leaf_id q) es st of (st1, ec, mc, err) \<Rightarrow>
     let detail = \<lparr>id_queue_id = qr_queue_id q, id_leaf_id = qr_leaf_id q, id_success = False, id_entity_count = 0, id_mention_count = 0, id_error = err\<rparr> in
     case cf_write_error env n of
       Some e \<Rightarrow> (st\<lparr>cs_drawn := cs_drawn st1\<rparr>, res\<lparr>cr_extractor_failures := cr_extractor_failures res + 1,
         cr_per_item := cr_per_item res @ [detail\<lparr>id_error := Some (cps ''tx-rollback: '' @ take 500 e)\<rparr>]\<rparr>)
     | None \<Rightarrow> (update_queue (qr_queue_id q) (\<lambda>q. q\<lparr>qr_completed_at := Some (cf_now env)\<rparr>) st1,
         res\<lparr>cr_processed_count := cr_processed_count res + 1, cr_new_entities := cr_new_entities res + ec,
           cr_new_mentions := cr_new_mentions res + mc,
           cr_per_item := cr_per_item res @ [detail\<lparr>id_success := True, id_entity_count := ec, id_mention_count := mc\<rparr>]\<rparr>))"

text \<open>The rows of the tick in order; no result when \<open>BEGIN IMMEDIATE\<close> raises.\<close>

fun tick_rows ::
    "coref_env \<Rightarrow> nat \<Rightarrow> (queue_row \<times> coref_leaf) list \<Rightarrow> coref_state \<times> coref_result \<Rightarrow> coref_state \<times> coref_result option" where
  "tick_rows env n [] (st, res) = (st, Some res)"
| "tick_rows env n ((q, s) # rows) (st, res) =
     (if \<not> cf_held env n then (st, Some (res\<lparr>cr_lock_lost_mid_tick := True\<rparr>))
      else case cf_extract env n (qr_leaf_id q) (cl_session_key s) (cl_content s) of
          Inl msg \<Rightarrow> tick_rows env (Suc n) rows (dead_letter env n q msg (st, res))
        | Inr es \<Rightarrow> if cf_begin_fails env n then (st, None)
            else tick_rows env (Suc n) rows (write_item env n q s es (st, res)))"

definition empty_result :: coref_result where
  "empty_result = \<lparr>cr_processed_count = 0, cr_new_entities = 0, cr_new_mentions = 0, cr_extractor_failures = 0,
     cr_lock_lost_mid_tick = False, cr_per_item = []\<rparr>"

definition run_coreference_tick :: "coref_env \<Rightarrow> coref_leaf list \<Rightarrow> nat \<Rightarrow> coref_state \<Rightarrow> coref_state \<times> coref_result option" where
  "run_coreference_tick env leaves limit st =
     tick_rows env 0 (List.map_filter (\<lambda>q. map_option (Pair q) (leaf_of leaves q)) (drawn_rows leaves limit st)) (st, empty_result)"

subsection \<open>The catalog stays consistent\<close>

definition entity_key :: "entity_row \<Rightarrow> utext \<times> utext" where "entity_key e = (en_session_key e, nocase (en_canonical e))"

definition coref_ok :: "coref_state \<Rightarrow> bool" where
  "coref_ok st \<longleftrightarrow> distinct (map en_entity_id (cs_entities st)) \<and> distinct (map entity_key (cs_entities st))
     \<and> distinct (map mn_mention_id (cs_mentions st))
     \<and> list_all (\<lambda>e. en_count e = length (filter (\<lambda>m. mn_entity_id m = en_entity_id e) (cs_mentions st))) (cs_entities st)
     \<and> list_all (\<lambda>m. mn_entity_id m \<in> en_entity_id ` set (cs_entities st)) (cs_mentions st)"

lemma coref_ok_cong: "cs_entities st' = cs_entities st \<Longrightarrow> cs_mentions st' = cs_mentions st \<Longrightarrow> coref_ok st' = coref_ok st"
  by (simp add: coref_ok_def)

lemma update_queue_tables [simp]:
  "cs_entities (update_queue qid f st) = cs_entities st" "cs_mentions (update_queue qid f st) = cs_mentions st"
  "coref_ok (update_queue qid f st) = coref_ok st" "coref_ok (st\<lparr>cs_drawn := n\<rparr>) = coref_ok st"
  by (simp_all add: update_queue_def coref_ok_def)

lemma find_entity_NoneD: "find_entity key c rows = None \<Longrightarrow> e \<in> set rows \<Longrightarrow> entity_key e \<noteq> (key, nocase c)"
  by (auto simp: find_entity_def find_None_iff entity_key_def)

lemma find_entity_SomeD: "find_entity key c rows = Some e \<Longrightarrow> e \<in> set rows \<and> entity_key e = (key, nocase c)"
  by (auto simp: find_entity_def find_Some_iff entity_key_def)

lemma resolve_entity_ok: "coref_ok st \<Longrightarrow> resolve_entity env leaves key leaf e st = (st', r) \<Longrightarrow> coref_ok st'"
proof -
  assume ok: "coref_ok st" and r: "resolve_entity env leaves key leaf e st = (st', r)"
  show ?thesis
  proof (cases "find_entity key (canonical_of e) (cs_entities st)")
    case None
    define eid where "eid = cps ''ent_'' @ cf_suffix env (cs_drawn st)"
    define row where "row = \<lparr>en_entity_id = eid, en_session_key = key, en_canonical = canonical_of e,
      en_type = xe_type e, en_first_seen_at = cf_now env, en_last_seen_at = cf_now env, en_first_leaf = leaf, en_count = 0\<rparr>"
    have key: "entity_key row = (key, nocase (canonical_of e))" by (simp add: row_def entity_key_def)
    have "coref_ok st' = coref_ok st \<or> (cs_entities st' = cs_entities st @ [row] \<and> cs_mentions st' = cs_mentions st
        \<and> eid \<notin> en_entity_id ` set (cs_entities st))"
      using r by (auto simp: resolve_entity_def None Let_def eid_def[symmetric] row_def[symmetric] list_ex_iff split: if_splits)
    then consider "coref_ok st' = coref_ok st"
      | "cs_entities st' = cs_entities st @ [row]" "cs_mentions st' = cs_mentions st" "eid \<notin> en_entity_id ` set (cs_entities st)" by blast
    then show ?thesis
    proof cases
      case 2
      have "filter (\<lambda>m. mn_entity_id m = eid) (cs_mentions st) = []"
        using ok 2(3) by (auto simp: coref_ok_def list_all_iff filter_empty_conv)
      moreover have "en_entity_id row = eid" "en_count row = 0" by (simp_all add: row_def)
      moreover have "entity_key row \<notin> entity_key ` set (cs_entities st)" using find_entity_NoneD[OF None] by (metis imageE key)
      ultimately show ?thesis using ok 2 by (auto simp: coref_ok_def list_all_iff)
    qed (use ok in simp)
  qed (use ok r in \<open>simp add: resolve_entity_def\<close>)
qed

lemma insert_mention_ok:
  assumes "coref_ok st" "insert_mention env leaves eid leaf e st = Some (st', k)"
  shows "coref_ok st'"
proof -
  define mid where "mid = mention_id eid leaf (xe_surface e)"
  define row where "row = \<lparr>mn_mention_id = mid, mn_entity_id = eid, mn_leaf = leaf, mn_surface = xe_surface e,
                      mn_span = (xe_span_start e, xe_span_end e), mn_at = cf_now env\<rparr>"
  have row: "mn_mention_id row = mid" "mn_entity_id row = eid" by (simp_all add: row_def)
  have "st' = st \<or> (cs_mentions st' = cs_mentions st @ [row] \<and> cs_entities st' = count_mention (cf_now env) eid (cs_entities st)
      \<and> mid \<notin> mn_mention_id ` set (cs_mentions st) \<and> eid \<in> en_entity_id ` set (cs_entities st))"
    using assms(2) by (auto simp: insert_mention_def Let_def mid_def[symmetric] row_def[symmetric] list_ex_iff split: if_splits)
  then consider "st' = st"
    | "cs_mentions st' = cs_mentions st @ [row]" "cs_entities st' = count_mention (cf_now env) eid (cs_entities st)"
      "mid \<notin> mn_mention_id ` set (cs_mentions st)" "eid \<in> en_entity_id ` set (cs_entities st)" by blast
  then show ?thesis
  proof cases
    case 2
    have "map en_entity_id (cs_entities st') = map en_entity_id (cs_entities st)" "map entity_key (cs_entities st') = map entity_key (cs_entities st)"
      by (simp_all add: 2(2) count_mention_def entity_key_def)
    moreover from this(1) have "en_entity_id ` set (cs_entities st') = en_entity_id ` set (cs_entities st)" by (metis set_map)
    moreover have "list_all (\<lambda>e. en_count e = length (filter (\<lambda>m. mn_entity_id m = en_entity_id e) (cs_mentions st'))) (cs_entities st')"
      using assms(1) by (auto simp: coref_ok_def 2(1,2) count_mention_def list_all_iff row)
    ultimately show ?thesis using assms(1) 2(1,3,4) by (simp add: coref_ok_def row list_all_iff)
  qed (use assms(1) in simp)
qed

lemma store_entity_ok: "coref_ok (fst p) \<Longrightarrow> coref_ok (fst (store_entity env leaves key leaf ie p))"
  by (auto simp: store_entity_def dest: resolve_entity_ok insert_mention_ok split: prod.split option.split)

lemma store_entities_ok: "coref_ok st \<Longrightarrow> coref_ok (fst (store_entities env leaves key leaf es st))"
proof -
  have "coref_ok (fst p) \<Longrightarrow> coref_ok (fst (fold (store_entity env leaves key leaf) ies p))" for ies p
    by (induction ies arbitrary: p) (simp_all add: store_entity_ok)
  then show "coref_ok st \<Longrightarrow> ?thesis" by (simp add: store_entities_def)
qed

lemma tick_rows_ok: "coref_ok (fst p) \<Longrightarrow> coref_ok (fst (tick_rows env n rows p))"
proof (induction rows arbitrary: n p)
  case Nil
  then show ?case by (cases p) simp
next
  case (Cons r rows)
  obtain q s st res where p: "r = (q, s)" "p = (st, res)" by (cases r, cases p)
  have "coref_ok (fst (dead_letter env n q msg (st, res)))" for msg
    using Cons.prems p by (auto simp: dead_letter_def Let_def split: option.split)
  moreover have "coref_ok (fst (write_item env n q s es (st, res)))" for es
    using Cons.prems p store_entities_ok[of st env "cf_leaves env n" "cl_session_key s" "qr_leaf_id q" es]
    by (auto simp: write_item_def Let_def split: prod.split option.split)
  ultimately show ?case using Cons p by (auto split: sum.split)
qed

text \<open>Any number of ticks and of new jobs, from empty tables.\<close>

definition coref_step :: "coref_env \<times> coref_leaf list \<times> nat \<times> queue_row list \<Rightarrow> coref_state \<Rightarrow> coref_state" where
  "coref_step x st = (case x of (env, leaves, limit, jobs) \<Rightarrow>
     fst (run_coreference_tick env leaves limit (st\<lparr>cs_queue := cs_queue st @ jobs\<rparr>)))"

definition empty_coref :: coref_state where
  "empty_coref = \<lparr>cs_queue = [], cs_entities = [], cs_mentions = [], cs_types = [], cs_drawn = 0\<rparr>"

text \<open>C37. The catalog of entities is consistent and counts right. Whatever the extractor answers, whatever the random generator
  draws and whichever writes SQLite refuses, after any number of ticks over any queues each session has one entity per name up to
  ASCII case, each mention belongs to an entity, no mention is stored twice, and every entity's occurrence count is the number of
  its mentions.\<close>

theorem catalog_counts_exact: "coref_ok (fold coref_step steps empty_coref)"
proof -
  have step: "coref_ok st \<Longrightarrow> coref_ok (coref_step x st)" for x st
  proof -
    assume "coref_ok st"
    then have "coref_ok (st\<lparr>cs_queue := cs_queue st @ jobs\<rparr>)" for jobs by (simp add: coref_ok_def)
    then show ?thesis using tick_rows_ok by (simp add: coref_step_def run_coreference_tick_def split: prod.split)
  qed
  have "coref_ok st \<Longrightarrow> coref_ok (fold coref_step steps st)" for st by (induction steps arbitrary: st) (simp_all add: step)
  then show ?thesis by (simp add: coref_ok_def empty_coref_def)
qed

subsection \<open>A leaf that is processed again\<close>

text \<open>What later entities keep: the identifier and key of every entity, and every mention.\<close>

definition known :: "utext \<Rightarrow> string \<Rightarrow> extracted_entity \<Rightarrow> coref_state \<Rightarrow> bool" where
  "known key leaf e st \<longleftrightarrow> canonical_of e = [] \<or> (\<exists>r \<in> set (cs_entities st). entity_key r = (key, nocase (canonical_of e))
     \<and> mention_id (en_entity_id r) leaf (xe_surface e) \<in> mn_mention_id ` set (cs_mentions st))"

definition keeps_rows :: "coref_state \<Rightarrow> coref_state \<Rightarrow> bool" where
  "keeps_rows st st' \<longleftrightarrow> (\<forall>r \<in> set (cs_entities st). \<exists>r' \<in> set (cs_entities st'). entity_key r' = entity_key r \<and> en_entity_id r' = en_entity_id r)
     \<and> mn_mention_id ` set (cs_mentions st) \<subseteq> mn_mention_id ` set (cs_mentions st')"

lemma keeps_rows_refl: "keeps_rows st st"
  by (auto simp: keeps_rows_def)

lemma keeps_rows_trans: "keeps_rows a b \<Longrightarrow> keeps_rows b c \<Longrightarrow> keeps_rows a c"
  unfolding keeps_rows_def by (metis subset_trans)

lemma known_keeps: "known key leaf e st \<Longrightarrow> keeps_rows st st' \<Longrightarrow> known key leaf e st'"
  unfolding known_def keeps_rows_def by (metis subsetD)

lemma resolve_entity_keeps: "resolve_entity env leaves key leaf e st = (st', r) \<Longrightarrow> keeps_rows st st'"
  by (auto simp: resolve_entity_def Let_def keeps_rows_def split: option.splits if_splits)

lemma count_mention_same:
  "r \<in> set rows \<Longrightarrow> \<exists>r' \<in> set (count_mention now eid rows). entity_key r' = entity_key r \<and> en_entity_id r' = en_entity_id r"
  by (intro bexI[of _ "if en_entity_id r = eid then r\<lparr>en_count := en_count r + 1, en_last_seen_at := now\<rparr> else r"])
    (simp_all add: count_mention_def entity_key_def)

lemma insert_mention_keeps: "insert_mention env leaves eid leaf e st = Some (st', k) \<Longrightarrow> keeps_rows st st'"
  by (auto simp: insert_mention_def Let_def keeps_rows_def count_mention_same split: if_splits)

lemma count_mention_ids: "en_entity_id ` set (count_mention now eid rows) = en_entity_id ` set rows"
proof -
  have "map en_entity_id (count_mention now eid rows) = map en_entity_id rows" by (simp add: count_mention_def)
  then show ?thesis by (metis set_map)
qed

lemma store_entity_keeps: "keeps_rows (fst p) (fst (store_entity env leaves key leaf ie p))"
proof -
  obtain idx e st ec mc err where p: "ie = (idx, e)" "p = (st, ec, mc, err)" by (cases ie, cases p)
  have drawn: "keeps_rows st (st\<lparr>cs_drawn := n\<rparr>)" for n by (auto simp: keeps_rows_def)
  show ?thesis
    by (auto simp: store_entity_def p keeps_rows_refl drawn split: prod.split option.split
        dest!: resolve_entity_keeps insert_mention_keeps intro: keeps_rows_trans)
qed

text \<open>An entity is known once it is stored without an error; a known one is stored without a change.\<close>

definition fresh_draws :: "coref_env \<Rightarrow> coref_state \<Rightarrow> bool" where
  "fresh_draws env st \<longleftrightarrow> inj (cf_suffix env)
     \<and> (\<forall>k \<ge> cs_drawn st. cps ''ent_'' @ cf_suffix env k \<notin> en_entity_id ` set (cs_entities st))"

lemma fresh_draws_same: "fresh_draws env st \<Longrightarrow> en_entity_id ` set (cs_entities st') = en_entity_id ` set (cs_entities st)
    \<Longrightarrow> cs_drawn st \<le> cs_drawn st' \<Longrightarrow> fresh_draws env st'"
  by (auto simp: fresh_draws_def)

lemma resolve_entity_knows:
  assumes "leaf \<in> set leaves" "fresh_draws env st"
  obtains st' eid n r where "resolve_entity env leaves key leaf e st = (st', Some (eid, n))" "fresh_draws env st'"
    "r \<in> set (cs_entities st')" "entity_key r = (key, nocase (canonical_of e))" "en_entity_id r = eid"
proof (cases "find_entity key (canonical_of e) (cs_entities st)")
  case None
  define row where "row = \<lparr>en_entity_id = cps ''ent_'' @ cf_suffix env (cs_drawn st), en_session_key = key, en_canonical = canonical_of e,
      en_type = xe_type e, en_first_seen_at = cf_now env, en_last_seen_at = cf_now env, en_first_leaf = leaf, en_count = 0\<rparr>"
  define st' where "st' = st\<lparr>cs_drawn := cs_drawn st + 1, cs_entities := cs_entities st @ [row], cs_types := count_type (xe_type e) (cs_types st)\<rparr>"
  have new: "\<not> list_ex (\<lambda>r. en_entity_id r = cps ''ent_'' @ cf_suffix env (cs_drawn st)) (cs_entities st)"
    using assms(2) by (force simp: fresh_draws_def list_ex_iff)
  have "fresh_draws env st'" using assms(2) unfolding fresh_draws_def inj_def st'_def row_def
    by auto (metis Suc_n_not_le_n)
  then show ?thesis using None new assms(1)
    by (intro that[of st' "en_entity_id row" 1 row]) (simp_all add: resolve_entity_def Let_def st'_def row_def entity_key_def)
next
  case (Some r)
  then show ?thesis using find_entity_SomeD[OF Some] assms(2) by (intro that[of st "en_entity_id r" 0 r]) (simp_all add: resolve_entity_def)
qed

lemma store_entity_knows:
  assumes "leaf \<in> set leaves" "fresh_draws env st"
  obtains st' ec' mc' where "store_entity env leaves key leaf (idx, e) (st, ec, mc, err) = (st', ec', mc', err)"
    "fresh_draws env st'" "known key leaf e st'"
proof (cases "canonical_of e = []")
  case True
  then show ?thesis using assms(2) by (intro that[of st ec mc]) (simp_all add: store_entity_def known_def)
next
  case False
  obtain st1 eid n r where r: "resolve_entity env leaves key leaf e st = (st1, Some (eid, n))" "fresh_draws env st1"
    "r \<in> set (cs_entities st1)" "entity_key r = (key, nocase (canonical_of e))" "en_entity_id r = eid"
    using resolve_entity_knows[OF assms] by blast
  have "\<exists>st2 k. insert_mention env leaves eid leaf e st1 = Some (st2, k) \<and> mention_id eid leaf (xe_surface e) \<in> mn_mention_id ` set (cs_mentions st2)
      \<and> en_entity_id ` set (cs_entities st2) = en_entity_id ` set (cs_entities st1) \<and> cs_drawn st2 = cs_drawn st1"
    using r(3,5) assms(1) by (auto simp: insert_mention_def Let_def list_ex_iff count_mention_ids) (metis imageI)
  then obtain st2 k where k: "insert_mention env leaves eid leaf e st1 = Some (st2, k)" "mention_id eid leaf (xe_surface e) \<in> mn_mention_id ` set (cs_mentions st2)"
    "en_entity_id ` set (cs_entities st2) = en_entity_id ` set (cs_entities st1)" "cs_drawn st2 = cs_drawn st1" by blast
  from insert_mention_keeps[OF k(1)] r(3-5) k(2) have "known key leaf e st2" unfolding known_def keeps_rows_def by metis
  moreover have "fresh_draws env st2" using fresh_draws_same[OF r(2) k(3)] k(4) by simp
  ultimately show ?thesis using False r(1) k(1) by (intro that[of st2 "ec + n" "mc + k"]) (simp_all add: store_entity_def)
qed

lemma store_known:
  assumes "coref_ok st" "known key leaf e st"
  shows "store_entity env leaves key leaf (idx, e) (st, ec, mc, err) = (st, ec, mc, err)"
proof (cases "canonical_of e = []")
  case False
  with assms(2) obtain r where r: "r \<in> set (cs_entities st)" "entity_key r = (key, nocase (canonical_of e))"
    "mention_id (en_entity_id r) leaf (xe_surface e) \<in> mn_mention_id ` set (cs_mentions st)" by (auto simp: known_def)
  then obtain r' where r': "find_entity key (canonical_of e) (cs_entities st) = Some r'"
    using find_entity_NoneD[of key "canonical_of e" "cs_entities st" r] by (cases "find_entity key (canonical_of e) (cs_entities st)") auto
  have "inj_on entity_key (set (cs_entities st))" using assms(1) by (simp add: coref_ok_def distinct_map)
  then have "r' = r" using find_entity_SomeD[OF r'] r(1,2) unfolding inj_on_def by auto
  moreover have "list_ex (\<lambda>m. mn_mention_id m = mention_id (en_entity_id r) leaf (xe_surface e)) (cs_mentions st)"
    using r(3) by (auto simp: list_ex_iff)
  ultimately show ?thesis using r' by (simp add: store_entity_def resolve_entity_def insert_mention_def)
qed (simp add: store_entity_def)

lemma fold_store_keeps: "keeps_rows (fst p) (fst (fold (store_entity env leaves key leaf) ies p))"
proof (induction ies arbitrary: p)
  case (Cons ie ies)
  show ?case using keeps_rows_trans[OF store_entity_keeps Cons.IH] by simp
qed (simp add: keeps_rows_refl)

lemma fold_store_knows:
  assumes "leaf \<in> set leaves" "fresh_draws env (fst p)"
  shows "list_all (\<lambda>ie. known key leaf (snd ie) (fst (fold (store_entity env leaves key leaf) ies p))) ies
    \<and> snd (snd (snd (fold (store_entity env leaves key leaf) ies p))) = snd (snd (snd p))"
  using assms(2)
proof (induction ies arbitrary: p)
  case (Cons ie ies)
  obtain idx e st ec mc err where p: "ie = (idx, e)" "p = (st, ec, mc, err)" by (cases ie, cases p)
  obtain st' ec' mc' where s: "store_entity env leaves key leaf (idx, e) (st, ec, mc, err) = (st', ec', mc', err)"
    "fresh_draws env st'" "known key leaf e st'" using store_entity_knows[OF assms(1)] Cons.prems p(2) by (metis fst_conv)
  have "known key leaf e (fst (fold (store_entity env leaves key leaf) ies (st', ec', mc', err)))"
    using known_keeps[OF s(3)] fold_store_keeps[of "(st', ec', mc', err)"] by simp
  then show ?case using Cons.IH[of "(st', ec', mc', err)"] s by (simp add: p)
qed simp

lemma fold_store_known:
  "coref_ok st \<Longrightarrow> list_all (\<lambda>ie. known key leaf (snd ie) st) ies \<Longrightarrow>
   fold (store_entity env leaves key leaf) ies (st, ec, mc, err) = (st, ec, mc, err)"
  by (induction ies) (auto simp: store_known)

text \<open>C39. A leaf that is processed again changes nothing. When its entities have been stored, with identifiers that were not taken,
  storing the same answer again, at any time and with any other random identifiers, adds no entity and no mention, counts nothing
  twice and reports no error, even when two surfaces of the leaf have the same hash.\<close>

theorem reprocessing_changes_nothing:
  assumes "coref_ok st" "leaf \<in> set leaves" "fresh_draws env st" "store_entities env leaves key leaf es st = (st', ec, mc, err)"
  shows "err = None \<and> store_entities env' leaves' key leaf es st' = (st', 0, 0, None)"
proof -
  have st': "st' = fst (fold (store_entity env leaves key leaf) (enumerate 0 es) (st, 0, 0, None))"
    "err = snd (snd (snd (fold (store_entity env leaves key leaf) (enumerate 0 es) (st, 0, 0, None))))"
    using assms(4) by (simp_all add: store_entities_def)
  have "coref_ok st'" using store_entities_ok[OF assms(1), of env leaves key leaf es] assms(4) by simp
  then show ?thesis using fold_store_knows[OF assms(2), of env "(st, 0, 0, None)" key "enumerate 0 es"] assms(3)
    unfolding st'[symmetric] by (simp add: store_entities_def fold_store_known)
qed

subsection \<open>The queue drains\<close>

definition attempts_left :: "coref_leaf list \<Rightarrow> queue_row \<Rightarrow> nat" where
  "attempts_left leaves q = (if pending_row leaves Entity_Job q then nat (max_attempts - qr_attempts q) else 0)"

definition remaining :: "coref_leaf list \<Rightarrow> coref_state \<Rightarrow> nat" where
  "remaining leaves st = sum_list (map (attempts_left leaves) (cs_queue st))"

text \<open>A tick in which the lock is held, SQLite refuses no transaction, and attempts are counted.\<close>

definition smooth :: "coref_env \<Rightarrow> bool" where
  "smooth env \<longleftrightarrow> (\<forall>n. cf_held env n \<and> \<not> cf_begin_fails env n \<and> cf_write_error env n = None
     \<and> (cf_update_error env n = None \<or> \<not> cf_retry_fails env n))"

lemma attempts_left_steps:
  "attempts_left leaves ((bump_attempts q)\<lparr>qr_last_error := m\<rparr>) \<le> attempts_left leaves q" "attempts_left leaves (bump_attempts q) \<le> attempts_left leaves q"
  "attempts_left leaves (q\<lparr>qr_completed_at := Some t\<rparr>) \<le> attempts_left leaves q"
  "pending_row leaves Entity_Job q \<Longrightarrow> attempts_left leaves ((bump_attempts q)\<lparr>qr_last_error := m\<rparr>) < attempts_left leaves q"
  "pending_row leaves Entity_Job q \<Longrightarrow> attempts_left leaves (bump_attempts q) < attempts_left leaves q"
  "pending_row leaves Entity_Job q \<Longrightarrow> attempts_left leaves (q\<lparr>qr_completed_at := Some t\<rparr>) < attempts_left leaves q"
  by (auto simp: attempts_left_def pending_row_def bump_attempts_def leaf_of_def max_attempts_def)

lemma update_queue_remaining:
  assumes "\<And>q. attempts_left leaves (f q) \<le> attempts_left leaves q"
  shows "remaining leaves (update_queue qid f st) \<le> remaining leaves st"
    and "q \<in> set (cs_queue st) \<Longrightarrow> qr_queue_id q = qid \<Longrightarrow> attempts_left leaves (f q) < attempts_left leaves q
      \<Longrightarrow> remaining leaves (update_queue qid f st) < remaining leaves st"
proof -
  let ?g = "\<lambda>q. if qr_queue_id q = qid then f q else q"
  have le: "sum_list (map (\<lambda>q. attempts_left leaves (?g q)) xs) \<le> sum_list (map (attempts_left leaves) xs)" for xs
    using assms by (intro sum_list_mono) simp
  show "remaining leaves (update_queue qid f st) \<le> remaining leaves st" using le by (simp add: remaining_def update_queue_def o_def)
  assume q: "q \<in> set (cs_queue st)" "qr_queue_id q = qid" "attempts_left leaves (f q) < attempts_left leaves q"
  then obtain as bs where split: "cs_queue st = as @ q # bs" by (metis split_list)
  have "attempts_left leaves (?g q) < attempts_left leaves q" using q by simp
  then have "sum_list (map (\<lambda>q. attempts_left leaves (?g q)) (as @ q # bs)) < sum_list (map (attempts_left leaves) (as @ q # bs))"
    using le[of as] le[of bs] by simp
  then show "remaining leaves (update_queue qid f st) < remaining leaves st" by (simp add: remaining_def update_queue_def o_def split)
qed

lemma store_entities_queue: "cs_queue (fst (store_entities env leaves key leaf es st)) = cs_queue st"
proof -
  have step: "cs_queue (fst (store_entity env leaves key leaf ie p)) = cs_queue (fst p)" for ie p
    by (auto simp: store_entity_def resolve_entity_def insert_mention_def Let_def split: prod.split option.split if_splits)
  have "cs_queue (fst (fold (store_entity env leaves key leaf) ies p)) = cs_queue (fst p)" for ies p
    by (induction ies arbitrary: p) (simp_all add: step)
  then show ?thesis by (simp add: store_entities_def)
qed

lemma remaining_cong: "cs_queue st' = cs_queue st \<Longrightarrow> remaining leaves st' = remaining leaves st"
  by (simp add: remaining_def)

lemma dead_letter_remaining:
  "remaining leaves (fst (dead_letter env n q msg (st, res))) \<le> remaining leaves st"
  "smooth env \<Longrightarrow> q \<in> set (cs_queue st) \<Longrightarrow> pending_row leaves Entity_Job q \<Longrightarrow>
   remaining leaves (fst (dead_letter env n q msg (st, res))) < remaining leaves st"
proof -
  note steps = update_queue_remaining(1)[of leaves, OF attempts_left_steps(1)] update_queue_remaining(1)[of leaves, OF attempts_left_steps(2)]
  show "remaining leaves (fst (dead_letter env n q msg (st, res))) \<le> remaining leaves st"
    using steps by (simp add: dead_letter_def Let_def split: option.split)
  assume a: "smooth env" "q \<in> set (cs_queue st)" "pending_row leaves Entity_Job q"
  note strict = update_queue_remaining(2)[of leaves, OF attempts_left_steps(1) a(2) refl attempts_left_steps(4)[OF a(3)]]
    update_queue_remaining(2)[of leaves, OF attempts_left_steps(2) a(2) refl attempts_left_steps(5)[OF a(3)]]
  have "cf_update_error env n = None \<or> \<not> cf_retry_fails env n" using a(1) by (simp add: smooth_def)
  then show "remaining leaves (fst (dead_letter env n q msg (st, res))) < remaining leaves st"
    using strict by (auto simp: dead_letter_def Let_def split: option.split)
qed

lemma write_item_remaining:
  "remaining leaves (fst (write_item env n q s es (st, res))) \<le> remaining leaves st"
  "smooth env \<Longrightarrow> q \<in> set (cs_queue st) \<Longrightarrow> pending_row leaves Entity_Job q \<Longrightarrow>
   remaining leaves (fst (write_item env n q s es (st, res))) < remaining leaves st"
proof -
  obtain st1 ec mc err where s: "store_entities env (cf_leaves env n) (cl_session_key s) (qr_leaf_id q) es st = (st1, ec, mc, err)"
    by (metis prod_cases4)
  have q: "cs_queue st1 = cs_queue st" using store_entities_queue[of env "cf_leaves env n" "cl_session_key s" "qr_leaf_id q" es st] by (simp add: s)
  have same: "remaining leaves st1 = remaining leaves st" by (rule remaining_cong[OF q])
  let ?f = "\<lambda>q. q\<lparr>qr_completed_at := Some (cf_now env)\<rparr>"
  show "remaining leaves (fst (write_item env n q s es (st, res))) \<le> remaining leaves st"
    using update_queue_remaining(1)[of leaves ?f "qr_queue_id q" st1] attempts_left_steps(3) same
    by (auto simp: write_item_def s Let_def remaining_def split: option.split)
  assume "smooth env" "q \<in> set (cs_queue st)" "pending_row leaves Entity_Job q"
  then show "remaining leaves (fst (write_item env n q s es (st, res))) < remaining leaves st"
    using update_queue_remaining(2)[of leaves ?f q st1 "qr_queue_id q"] attempts_left_steps(3,6) same q
    by (simp add: write_item_def s Let_def smooth_def)
qed

lemma tick_rows_remaining: "remaining leaves (fst (tick_rows env n rows p)) \<le> remaining leaves (fst p)"
proof (induction rows arbitrary: n p)
  case Nil
  then show ?case by (cases p) simp
next
  case (Cons r rows)
  obtain q s st res where p: "r = (q, s)" "p = (st, res)" by (cases r, cases p)
  have "remaining leaves (fst (tick_rows env m rows p')) \<le> remaining leaves st" if "remaining leaves (fst p') \<le> remaining leaves st" for m p'
    using Cons.IH that by (rule order_trans)
  then show ?case by (simp add: p dead_letter_remaining(1) write_item_remaining(1) split: sum.split)
qed

lemma tick_progress:
  assumes "smooth env" "0 < limit" "count_pending_extractions leaves Entity_Job st \<noteq> 0"
  shows "remaining leaves (fst (run_coreference_tick env leaves limit st)) < remaining leaves st"
proof -
  let ?ps = "sort_key qr_queued_at (filter (pending_row leaves Entity_Job) (cs_queue st))"
  have "?ps \<noteq> []" using assms(3) by (metis count_pending_extractions_def length_0_conv length_sort)
  then obtain q ps where ps: "?ps = q # ps" by (cases ?ps) auto
  then have "q \<in> set ?ps" by simp
  then have q: "q \<in> set (cs_queue st)" "pending_row leaves Entity_Job q" by simp_all
  then obtain s where s: "leaf_of leaves q = Some s" by (auto simp: pending_row_def split: option.splits)
  obtain k where "limit = Suc k" using assms(2) by (cases limit) simp_all
  then obtain rows where rows: "List.map_filter (\<lambda>q. map_option (Pair q) (leaf_of leaves q)) (drawn_rows leaves limit st) = (q, s) # rows"
    by (simp add: drawn_rows_def ps map_filter_simps s)
  have "remaining leaves (fst (tick_rows env m rows p')) < remaining leaves st" if "remaining leaves (fst p') < remaining leaves st" for m p'
    using tick_rows_remaining that by (rule order_le_less_trans)
  moreover have "cf_held env 0" "\<not> cf_begin_fails env 0" using assms(1) by (simp_all add: smooth_def)
  ultimately show ?thesis
    by (simp add: run_coreference_tick_def rows dead_letter_remaining(2)[OF assms(1) q] write_item_remaining(2)[OF assms(1) q] split: sum.split)
qed

definition run_ticks :: "coref_env list \<Rightarrow> coref_leaf list \<Rightarrow> nat \<Rightarrow> coref_state \<Rightarrow> coref_state" where
  "run_ticks envs leaves limit st = fold (\<lambda>env st. fst (run_coreference_tick env leaves limit st)) envs st"

lemma remaining_zero:
  assumes "remaining leaves st = 0"
  shows "count_pending_extractions leaves Entity_Job st = 0"
proof -
  have "\<not> pending_row leaves Entity_Job q" if "q \<in> set (cs_queue st)" for q
  proof
    assume "pending_row leaves Entity_Job q"
    then have "0 < attempts_left leaves q" by (simp add: attempts_left_def pending_row_def)
    moreover have "attempts_left leaves q \<le> remaining leaves st" using that by (auto simp: remaining_def intro: member_le_sum_list)
    ultimately show False using assms by simp
  qed
  then show ?thesis by (simp add: count_pending_extractions_def filter_empty_conv)
qed

lemma tick_rests: "count_pending_extractions leaves Entity_Job st = 0 \<Longrightarrow> fst (run_coreference_tick env leaves limit st) = st"
  by (simp add: run_coreference_tick_def drawn_rows_def count_pending_extractions_def map_filter_simps)

lemma run_ticks_rest: "count_pending_extractions leaves Entity_Job st = 0 \<Longrightarrow> run_ticks envs leaves limit st = st"
  unfolding run_ticks_def by (induction envs arbitrary: st) (simp_all add: tick_rests)

text \<open>C38. The queue drains, failures included. When each tick holds the lock, gets its transactions through and counts the failed
  attempts, then after as many ticks as the pending rows have attempts left, five for a new row, no row is pending: each leaf has
  been stored or has failed five times. It does not matter what the extractor answers or how small the limit of a tick is.\<close>

theorem queue_drains:
  assumes "list_all smooth envs" "0 < limit" "remaining leaves st \<le> length envs"
  shows "count_pending_extractions leaves Entity_Job (run_ticks envs leaves limit st) = 0"
  using assms(1,3)
proof (induction envs arbitrary: st)
  case Nil
  then show ?case by (simp add: run_ticks_def remaining_zero)
next
  case (Cons env envs)
  show ?case
  proof (cases "count_pending_extractions leaves Entity_Job st = 0")
    case False
    then have "remaining leaves (fst (run_coreference_tick env leaves limit st)) < remaining leaves st"
      using tick_progress Cons.prems(1) assms(2) by simp
    then show ?thesis using Cons.IH[of "fst (run_coreference_tick env leaves limit st)"] Cons.prems by (simp add: run_ticks_def)
  qed (simp add: run_ticks_rest)
qed

subsection \<open>Examples\<close>

definition named :: "string \<Rightarrow> extracted_entity" where
  "named n = \<lparr>xe_surface = cps n, xe_type = cps ''person'', xe_span_start = None, xe_span_end = None, xe_canonical = None\<rparr>"

definition quiet_env :: "(nat \<Rightarrow> utext) \<Rightarrow> coref_env" where
  "quiet_env suffix = \<lparr>cf_extract = (\<lambda>_ _ _ _. Inr [named ''Ada'']), cf_held = (\<lambda>_. True), cf_suffix = suffix, cf_now = 0,
     cf_update_error = (\<lambda>_. None), cf_retry_fails = (\<lambda>_. False), cf_begin_fails = (\<lambda>_. False), cf_write_error = (\<lambda>_. None),
     cf_key_error = [], cf_leaves = (\<lambda>_. [''l''])\<rparr>"

lemma quiet_fresh: "fresh_draws (quiet_env (\<lambda>n. replicate n 48)) empty_coref"
  by (auto simp: fresh_draws_def quiet_env_def empty_coref_def inj_def)

theorem reprocessing_changes_nothing_witness:
  "\<exists>st' ec mc. store_entities (quiet_env (\<lambda>n. replicate n 48)) [''l''] (cps ''k'') ''l'' [named ''Ada'', named ''ADA''] empty_coref = (st', ec, mc, None)
    \<and> store_entities (quiet_env (\<lambda>n. [])) [] (cps ''k'') ''l'' [named ''Ada'', named ''ADA''] st' = (st', 0, 0, None)"
proof -
  obtain st' ec mc err where s: "store_entities (quiet_env (\<lambda>n. replicate n 48)) [''l''] (cps ''k'') ''l'' [named ''Ada'', named ''ADA''] empty_coref = (st', ec, mc, err)"
    by (metis prod_cases4)
  have "err = None \<and> store_entities (quiet_env (\<lambda>n. [])) [] (cps ''k'') ''l'' [named ''Ada'', named ''ADA''] st' = (st', 0, 0, None)"
    by (rule reprocessing_changes_nothing[OF _ _ quiet_fresh s]) (simp_all add: coref_ok_def empty_coref_def)
  with s show ?thesis by blast
qed

definition one_job :: coref_state where
  "one_job = empty_coref\<lparr>cs_queue := [\<lparr>qr_queue_id = ''q'', qr_leaf_id = ''l'', qr_kind = Entity_Job, qr_queued_at = 0, qr_completed_at = None,
     qr_attempts = 0, qr_last_error = None\<rparr>]\<rparr>"

theorem queue_drains_witness:
  "count_pending_extractions [\<lparr>cl_summary_id = ''l'', cl_content = [], cl_session_key = cps ''k'', cl_suppressed = False\<rparr>] Entity_Job
    (run_ticks (replicate 5 (quiet_env (\<lambda>n. replicate n 48)))
      [\<lparr>cl_summary_id = ''l'', cl_content = [], cl_session_key = cps ''k'', cl_suppressed = False\<rparr>] 1 one_job) = 0"
  by (rule queue_drains) (simp_all add: smooth_def quiet_env_def list_all_iff remaining_def one_job_def empty_coref_def attempts_left_def max_attempts_def)

lemma length_hex8: "length (hex8 w) = 8"
  by (simp add: hex8_def)

text \<open>An identifier that is drawn twice files a mention under another entity: the comment beside the code expects the foreign key to
  stop it, but the row with that identifier is there.\<close>

lemma id_clash_misfiles_mention:
  "map (\<lambda>m. (mn_entity_id m, mn_surface m)) (cs_mentions (fst (store_entities (quiet_env (\<lambda>_. cps ''0'')) [''l''] (cps ''k'') ''l''
      [named ''Ada'', named ''Bob''] empty_coref))) = [(cps ''ent_0'', cps ''Ada''), (cps ''ent_0'', cps ''Bob'')]
   \<and> map en_canonical (cs_entities (fst (store_entities (quiet_env (\<lambda>_. cps ''0'')) [''l''] (cps ''k'') ''l''
      [named ''Ada'', named ''Bob''] empty_coref))) = [cps ''Ada'']"
  by (simp add: store_entities_def store_entity_def resolve_entity_def insert_mention_def find_entity_def quiet_env_def named_def empty_coref_def
      canonical_of_def cps_def u_strip_def u_lstrip_def u_rstrip_def u_isspace_def nocase_def ascii_fold_def mention_id_def
      surface_hash_for_id_def length_hex8 u_alpha_def count_mention_def Let_def)

text \<open>The part of a mention's identifier: at most the given length, or eight; and two different surfaces that share it.\<close>

lemma surface_hash_length: "length (surface_hash_for_id surface max_bytes) \<le> max 8 max_bytes"
  by (auto simp: surface_hash_for_id_def Let_def hex8_def)

lemma surface_hash_plain:
  "list_all (\<lambda>c. u_alpha c \<or> u_digit c \<or> c = 95) (surface_hash_for_id surface max_bytes)"
proof -
  have "u_alpha (hex_digit (d mod 16)) \<or> u_digit (hex_digit (d mod 16))" for d :: nat
  proof -
    have "d mod 16 < 16" by simp
    then show ?thesis by (auto simp: hex_digit_def u_alpha_def u_digit_def)
  qed
  then show ?thesis by (auto simp: surface_hash_for_id_def Let_def hex8_def list_all_iff dest!: in_set_takeD)
qed

lemma two_surfaces_one_mention:
  "surface_hash_for_id (cps ''Release hlpzub'') 16 = surface_hash_for_id (cps ''Release qabsec'') 16"
proof -
  have "fnv1a (cps ''Release hlpzub'') = fnv1a (cps ''Release qabsec'')" by (simp add: fnv1a_def fnv_step_def cps_def)
  then show ?thesis by (simp add: surface_hash_for_id_def length_hex8 cps_def u_alpha_def)
qed

end
