(* ===== verification/Compaction_Debt.thy ===== *)
theory Compaction_Debt
  imports Lcm_Prelude
begin

text \<open>
  The debts of compaction and its telemetry: \<open>store/compaction_maintenance.py\<close> and \<open>store/compaction_telemetry.py\<close>. Each
  table has at most one row per conversation; a stored time is an instant. An insert for a conversation that is not in
  \<open>conversations\<close> raises (\<open>None\<close>).
\<close>

subsection \<open>Rows\<close>

record maintenance_row =
  mt_conversation_id :: int
  mt_pending :: bool
  mt_requested_at :: "int option"
  mt_reason :: "utext option"
  mt_running :: bool
  mt_last_started_at :: "int option"
  mt_last_finished_at :: "int option"
  mt_last_failure_summary :: "utext option"
  mt_token_budget :: "int option"
  mt_current_token_count :: "int option"
  mt_updated_at :: int

datatype prompt_cache_state = Cache_Hot | Cache_Cold | Cache_Unknown
datatype activity_band = Low_Band | Medium_Band | High_Band

record telemetry_row =
  tl_conversation_id :: int
  tl_cache_read :: "int option"
  tl_cache_write :: "int option"
  tl_prompt_token_count :: "int option"
  tl_cache_hit_at :: "int option"
  tl_cache_break_at :: "int option"
  tl_cache_state :: prompt_cache_state
  tl_consecutive_cold :: int
  tl_retention :: "utext option"
  tl_last_leaf_compaction_at :: "int option"
  tl_turns_since_leaf :: int
  tl_tokens_since_leaf :: int
  tl_activity_band :: activity_band
  tl_last_api_call_at :: "int option"
  tl_last_cache_touch_at :: "int option"
  tl_provider :: "utext option"
  tl_model :: "utext option"
  tl_updated_at :: int

record debt_db =
  dd_conversations :: "int list"
  dd_maintenance :: "maintenance_row list"
  dd_telemetry :: "telemetry_row list"

subsection \<open>Debts\<close>

definition get_conversation_compaction_maintenance :: "debt_db \<Rightarrow> int \<Rightarrow> maintenance_row option" where
  "get_conversation_compaction_maintenance db c = List.find (\<lambda>r. mt_conversation_id r = c) (dd_maintenance db)"

definition put_maintenance :: "int \<Rightarrow> (maintenance_row \<Rightarrow> maintenance_row) \<Rightarrow> debt_db \<Rightarrow> debt_db" where
  "put_maintenance c f db = db\<lparr>dd_maintenance := map (\<lambda>r. if mt_conversation_id r = c then f r else r) (dd_maintenance db)\<rparr>"

definition coalesce :: "int option \<Rightarrow> int option \<Rightarrow> int option" where
  "coalesce a b = (case a of Some x \<Rightarrow> Some x | None \<Rightarrow> b)"

definition request_proactive_compaction_debt ::
    "int \<Rightarrow> int \<Rightarrow> utext \<Rightarrow> int option \<Rightarrow> int option \<Rightarrow> int option \<Rightarrow> debt_db \<Rightarrow> debt_db option" where
  "request_proactive_compaction_debt now c reason budget count requested db =
     (let stamp = Some (case requested of Some t \<Rightarrow> t | None \<Rightarrow> now) in
      if list_ex (\<lambda>r. mt_conversation_id r = c) (dd_maintenance db) then
        Some (put_maintenance c (\<lambda>r. r\<lparr>mt_pending := True, mt_requested_at := stamp, mt_reason := Some reason, mt_running := False,
          mt_token_budget := coalesce budget (mt_token_budget r),
          mt_current_token_count := coalesce count (mt_current_token_count r), mt_updated_at := now\<rparr>) db)
      else if c \<notin> set (dd_conversations db) then None
      else Some (db\<lparr>dd_maintenance := dd_maintenance db @ [\<lparr>mt_conversation_id = c, mt_pending = True, mt_requested_at = stamp,
        mt_reason = Some reason, mt_running = False, mt_last_started_at = None, mt_last_finished_at = None,
        mt_last_failure_summary = None, mt_token_budget = budget, mt_current_token_count = count, mt_updated_at = now\<rparr>]\<rparr>))"

definition claimable :: "int \<Rightarrow> maintenance_row \<Rightarrow> bool" where
  "claimable c r \<longleftrightarrow> mt_conversation_id r = c \<and> \<not> mt_running r \<and> mt_pending r"

definition mark_proactive_compaction_running :: "int \<Rightarrow> int \<Rightarrow> debt_db \<Rightarrow> debt_db \<times> bool" where
  "mark_proactive_compaction_running now c db =
     (db\<lparr>dd_maintenance := map (\<lambda>r. if claimable c r
        then r\<lparr>mt_running := True, mt_last_started_at := Some now, mt_updated_at := now\<rparr> else r) (dd_maintenance db)\<rparr>,
      length (filter (claimable c) (dd_maintenance db)) = 1)"

definition mark_proactive_compaction_finished :: "int \<Rightarrow> int \<Rightarrow> utext option \<Rightarrow> debt_db \<Rightarrow> debt_db" where
  "mark_proactive_compaction_finished now c failure =
     put_maintenance c (\<lambda>r. case failure of
         None \<Rightarrow> r\<lparr>mt_pending := False, mt_running := False, mt_last_finished_at := Some now, mt_last_failure_summary := None, mt_updated_at := now\<rparr>
       | Some f \<Rightarrow> r\<lparr>mt_running := False, mt_last_finished_at := Some now, mt_last_failure_summary := Some f, mt_updated_at := now\<rparr>)"

subsection \<open>Telemetry\<close>

definition get_conversation_compaction_telemetry :: "debt_db \<Rightarrow> int \<Rightarrow> telemetry_row option" where
  "get_conversation_compaction_telemetry db c = List.find (\<lambda>r. tl_conversation_id r = c) (dd_telemetry db)"

definition put_telemetry :: "int \<Rightarrow> (telemetry_row \<Rightarrow> telemetry_row) \<Rightarrow> debt_db \<Rightarrow> debt_db" where
  "put_telemetry c f db = db\<lparr>dd_telemetry := map (\<lambda>r. if tl_conversation_id r = c then f r else r) (dd_telemetry db)\<rparr>"

definition upsert_conversation_compaction_telemetry :: "int \<Rightarrow> telemetry_row \<Rightarrow> debt_db \<Rightarrow> debt_db option" where
  "upsert_conversation_compaction_telemetry now row db =
     (if list_ex (\<lambda>r. tl_conversation_id r = tl_conversation_id row) (dd_telemetry db)
      then Some (put_telemetry (tl_conversation_id row) (\<lambda>_. row\<lparr>tl_updated_at := now\<rparr>) db)
      else if tl_conversation_id row \<notin> set (dd_conversations db) then None
      else Some (db\<lparr>dd_telemetry := dd_telemetry db @ [row\<lparr>tl_updated_at := now\<rparr>]\<rparr>))"

definition mark_leaf_compaction_success :: "int \<Rightarrow> int \<Rightarrow> debt_db \<Rightarrow> debt_db" where
  "mark_leaf_compaction_success now c = put_telemetry c (\<lambda>r. r\<lparr>tl_last_leaf_compaction_at := Some now, tl_turns_since_leaf := 0,
     tl_tokens_since_leaf := 0, tl_updated_at := now\<rparr>)"

definition mark_condensed_compaction_success :: "int \<Rightarrow> int \<Rightarrow> debt_db \<Rightarrow> debt_db" where
  "mark_condensed_compaction_success now c = put_telemetry c (\<lambda>r. r\<lparr>tl_updated_at := now\<rparr>)"

definition mark_auth_failure :: "int \<Rightarrow> int \<Rightarrow> debt_db \<Rightarrow> debt_db" where
  "mark_auth_failure now c = put_telemetry c (\<lambda>r. r\<lparr>tl_updated_at := now\<rparr>)"

subsection \<open>The debt as a machine\<close>

datatype debt_phase = No_Debt | Waiting | Running

datatype debt_op = Request int int utext "int option" "int option" "int option" | Claim int int | Finish int int "utext option"

fun op_conversation :: "debt_op \<Rightarrow> int" where
  "op_conversation (Request now c reason b n t) = c"
| "op_conversation (Claim now c) = c"
| "op_conversation (Finish now c f) = c"

text \<open>What a caller sees of an operation: \<open>True\<close> for a claim that succeeds. A request that raises changes nothing.\<close>

fun run_op :: "debt_op \<Rightarrow> debt_db \<Rightarrow> debt_db \<times> bool" where
  "run_op (Request now c reason b n t) db =
     (case request_proactive_compaction_debt now c reason b n t db of Some db' \<Rightarrow> (db', False) | None \<Rightarrow> (db, False))"
| "run_op (Claim now c) db = mark_proactive_compaction_running now c db"
| "run_op (Finish now c f) db = (mark_proactive_compaction_finished now c f db, False)"

fun run_ops :: "debt_op list \<Rightarrow> debt_db \<Rightarrow> debt_db \<times> (debt_op \<times> bool) list" where
  "run_ops [] db = (db, [])"
| "run_ops (op # ops) db = (case run_op op db of (db1, ok) \<Rightarrow> case run_ops ops db1 of (db2, oks) \<Rightarrow> (db2, (op, ok) # oks))"

definition empty_debts :: "int list \<Rightarrow> debt_db" where
  "empty_debts cs = \<lparr>dd_conversations = cs, dd_maintenance = [], dd_telemetry = []\<rparr>"

definition phase_of :: "debt_db \<Rightarrow> int \<Rightarrow> debt_phase" where
  "phase_of db c = (case get_conversation_compaction_maintenance db c of
     None \<Rightarrow> No_Debt | Some r \<Rightarrow> if mt_running r then Running else if mt_pending r then Waiting else No_Debt)"

text \<open>The machine of one conversation, \<open>known\<close> when it is in the table of conversations.\<close>

fun phase_step :: "bool \<Rightarrow> debt_op \<Rightarrow> debt_phase \<Rightarrow> debt_phase \<times> bool" where
  "phase_step known (Request _ _ _ _ _ _) p = (if known then Waiting else p, False)"
| "phase_step known (Claim _ _) p = (if p = Waiting then (Running, True) else (p, False))"
| "phase_step known (Finish _ _ f) p = (case f of None \<Rightarrow> No_Debt | Some _ \<Rightarrow> if p = Running then Waiting else p, False)"

fun phase_run :: "bool \<Rightarrow> debt_op list \<Rightarrow> debt_phase \<Rightarrow> debt_phase \<times> (debt_op \<times> bool) list" where
  "phase_run known [] p = (p, [])"
| "phase_run known (op # ops) p = (case phase_step known op p of (p1, ok) \<Rightarrow> case phase_run known ops p1 of (p2, oks) \<Rightarrow> (p2, (op, ok) # oks))"

definition wf_debts :: "debt_db \<Rightarrow> bool" where
  "wf_debts db \<longleftrightarrow> distinct (map mt_conversation_id (dd_maintenance db))
     \<and> list_all (\<lambda>r. (mt_running r \<longrightarrow> mt_pending r) \<and> mt_conversation_id r \<in> set (dd_conversations db)) (dd_maintenance db)"

lemma find_map_row:
  "(\<And>r. r \<in> set rows \<Longrightarrow> mt_conversation_id (g r) = mt_conversation_id r) \<Longrightarrow>
   List.find (\<lambda>r. mt_conversation_id r = d) (map g rows) = map_option g (List.find (\<lambda>r. mt_conversation_id r = d) rows)"
  by (induction rows) auto

lemma get_SomeD: "get_conversation_compaction_maintenance db c = Some r \<Longrightarrow> r \<in> set (dd_maintenance db) \<and> mt_conversation_id r = c"
  by (auto simp: get_conversation_compaction_maintenance_def find_Some_iff)

lemma get_NoneD: "get_conversation_compaction_maintenance db c = None \<Longrightarrow> r \<in> set (dd_maintenance db) \<Longrightarrow> mt_conversation_id r \<noteq> c"
  by (auto simp: get_conversation_compaction_maintenance_def find_None_iff)

lemma map_rows_refines:
  assumes "wf_debts db" "\<And>r. r \<in> set (dd_maintenance db) \<Longrightarrow> mt_conversation_id (g r) = mt_conversation_id r"
    and "\<And>r. r \<in> set (dd_maintenance db) \<Longrightarrow> mt_running (g r) \<Longrightarrow> mt_pending (g r)"
  defines "db' \<equiv> db\<lparr>dd_maintenance := map g (dd_maintenance db)\<rparr>"
  shows "wf_debts db'" and "get_conversation_compaction_maintenance db' c = map_option g (get_conversation_compaction_maintenance db c)"
proof -
  have "map mt_conversation_id (map g (dd_maintenance db)) = map mt_conversation_id (dd_maintenance db)" using assms(2) by simp
  then show "wf_debts db'" using assms(1-3) by (auto simp: wf_debts_def db'_def list_all_iff simp del: map_map)
  show "get_conversation_compaction_maintenance db' c = map_option g (get_conversation_compaction_maintenance db c)"
    using assms(2) by (simp add: get_conversation_compaction_maintenance_def db'_def find_map_row)
qed

lemma claim_count: "wf_debts db \<Longrightarrow> (length (filter (claimable c) (dd_maintenance db)) = 1) = (phase_of db c = Waiting)"
proof -
  have "distinct (map mt_conversation_id rows) \<Longrightarrow> length (filter (claimable c) rows)
      = (case List.find (\<lambda>r. mt_conversation_id r = c) rows of Some r \<Rightarrow> if claimable c r then 1 else 0 | None \<Rightarrow> 0)" for rows
  proof (induction rows)
    case (Cons r rows)
    show ?case
    proof (cases "mt_conversation_id r = c")
      case True
      then have "filter (claimable c) rows = []" using Cons.prems by (auto simp: filter_empty_conv claimable_def) (metis imageI)
      then show ?thesis using True by simp
    next
      case False
      then show ?thesis using Cons by (simp add: claimable_def)
    qed
  qed simp
  note count = this
  assume "wf_debts db"
  then have "distinct (map mt_conversation_id (dd_maintenance db))" by (simp add: wf_debts_def)
  note count = count[OF this]
  show ?thesis
  proof (cases "get_conversation_compaction_maintenance db c")
    case None
    then show ?thesis using count by (simp add: get_conversation_compaction_maintenance_def phase_of_def)
  next
    case (Some r)
    then show ?thesis using count get_SomeD[OF Some]
      by (simp add: get_conversation_compaction_maintenance_def phase_of_def claimable_def)
  qed
qed

lemma phase_map:
  assumes "get_conversation_compaction_maintenance db' c = map_option g (get_conversation_compaction_maintenance db c)"
  shows "phase_of db' c = (case get_conversation_compaction_maintenance db c of None \<Rightarrow> No_Debt
    | Some r \<Rightarrow> if mt_running (g r) then Running else if mt_pending (g r) then Waiting else No_Debt)"
  by (simp add: phase_of_def assms split: option.split)

lemma wf_pending: "wf_debts db \<Longrightarrow> r \<in> set (dd_maintenance db) \<Longrightarrow> mt_running r \<Longrightarrow> mt_pending r"
  by (simp add: wf_debts_def list_all_iff)

lemma run_op_refines:
  assumes "wf_debts db" "run_op op db = (db', ok)"
  shows "wf_debts db' \<and> dd_conversations db' = dd_conversations db
    \<and> (if op_conversation op = c then (phase_of db' c, ok) = phase_step (c \<in> set (dd_conversations db)) op (phase_of db c)
       else phase_of db' c = phase_of db c)"
proof -
  have map_case: ?thesis
    if "db' = db\<lparr>dd_maintenance := map g (dd_maintenance db)\<rparr>" "\<And>r. mt_conversation_id (g r) = mt_conversation_id r"
      and "\<And>r. r \<in> set (dd_maintenance db) \<Longrightarrow> mt_running (g r) \<Longrightarrow> mt_pending (g r)"
      and "\<And>r. r \<in> set (dd_maintenance db) \<Longrightarrow> mt_conversation_id r \<noteq> op_conversation op \<Longrightarrow> g r = r"
      and "\<And>r. get_conversation_compaction_maintenance db c = Some r \<Longrightarrow> op_conversation op = c \<Longrightarrow>
        (if mt_running (g r) then Running else if mt_pending (g r) then Waiting else No_Debt, ok) =
          phase_step (c \<in> set (dd_conversations db)) op (phase_of db c)"
      and "get_conversation_compaction_maintenance db c = None \<Longrightarrow> op_conversation op = c \<Longrightarrow>
        (No_Debt, ok) = phase_step (c \<in> set (dd_conversations db)) op No_Debt"
    for g
  proof -
    have "get_conversation_compaction_maintenance db' c = map_option g (get_conversation_compaction_maintenance db c)"
      unfolding that(1) by (rule map_rows_refines(2)[OF assms(1) that(2,3)])
    note p = phase_map[OF this]
    have "wf_debts db'" unfolding that(1) by (rule map_rows_refines(1)[OF assms(1) that(2,3)])
    then show ?thesis using that(4-6) p get_SomeD[of db c]
      by (cases "get_conversation_compaction_maintenance db c") (auto simp: that(1) phase_of_def)
  qed
  show ?thesis
  proof (cases op)
    case (Request now d reason b n t)
    show ?thesis
    proof (cases "list_ex (\<lambda>r. mt_conversation_id r = d) (dd_maintenance db)")
      case True
      then have "d \<in> set (dd_conversations db)" using assms(1) by (auto simp: wf_debts_def list_all_iff list_ex_iff)
      moreover define g :: "maintenance_row \<Rightarrow> maintenance_row" where "g = (\<lambda>r. if mt_conversation_id r = d then r\<lparr>mt_pending := True,
          mt_requested_at := Some (case t of Some t \<Rightarrow> t | None \<Rightarrow> now), mt_reason := Some reason, mt_running := False,
          mt_token_budget := coalesce b (mt_token_budget r), mt_current_token_count := coalesce n (mt_current_token_count r),
          mt_updated_at := now\<rparr> else r)"
      moreover have "db' = db\<lparr>dd_maintenance := map g (dd_maintenance db)\<rparr>" "\<not> ok" using assms(2) Request True
        by (simp_all add: request_proactive_compaction_debt_def put_maintenance_def g_def Let_def)
      moreover have "get_conversation_compaction_maintenance db d \<noteq> None"
        using True by (auto simp: get_conversation_compaction_maintenance_def find_None_iff list_ex_iff)
      ultimately show ?thesis using Request
        by (intro map_case[of g]) (auto simp: wf_pending[OF assms(1)] dest: get_SomeD)
    next
      case False
      then have none: "get_conversation_compaction_maintenance db d = None"
        by (auto simp: get_conversation_compaction_maintenance_def find_None_iff list_ex_iff)
      show ?thesis
      proof (cases "d \<in> set (dd_conversations db)")
        case in_db: True
        obtain r where r: "db' = db\<lparr>dd_maintenance := dd_maintenance db @ [r]\<rparr>" "mt_conversation_id r = d" "mt_pending r" "\<not> mt_running r" "\<not> ok"
          using assms(2) False in_db Request by (auto simp: request_proactive_compaction_debt_def Let_def)
        have find: "List.find P (xs @ [y]) = (case List.find P xs of Some x \<Rightarrow> Some x | None \<Rightarrow> if P y then Some y else None)" for P xs and y :: maintenance_row
          by (induction xs) simp_all
        have "get_conversation_compaction_maintenance db' c = (if c = d then Some r else get_conversation_compaction_maintenance db c)"
          using none r(2) by (auto simp: get_conversation_compaction_maintenance_def r(1) find split: option.split)
        moreover have "wf_debts db'" using assms(1) r(2-4) False in_db by (auto simp: wf_debts_def r(1) list_ex_iff)
        ultimately show ?thesis using r in_db Request by (cases "c = d") (simp_all add: phase_of_def)
      next
        case False_db: False
        then show ?thesis using assms False Request none by (auto simp: request_proactive_compaction_debt_def Let_def phase_of_def)
      qed
    qed
  next
    case (Claim now d)
    have ok: "ok = (phase_of db d = Waiting)" using assms(2) Claim claim_count[OF assms(1)] by (auto simp: mark_proactive_compaction_running_def)
    show ?thesis using assms(2) Claim ok
      by (intro map_case[of "\<lambda>r. if claimable d r then r\<lparr>mt_running := True, mt_last_started_at := Some now, mt_updated_at := now\<rparr> else r"])
        (auto simp: mark_proactive_compaction_running_def claimable_def wf_pending[OF assms(1)] phase_of_def dest: get_SomeD split: if_splits)
  next
    case (Finish now d f)
    define h :: "maintenance_row \<Rightarrow> maintenance_row" where "h = (\<lambda>r. case f of None \<Rightarrow> r\<lparr>mt_pending := False, mt_running := False, mt_last_finished_at := Some now,
          mt_last_failure_summary := None, mt_updated_at := now\<rparr>
       | Some f \<Rightarrow> r\<lparr>mt_running := False, mt_last_finished_at := Some now, mt_last_failure_summary := Some f, mt_updated_at := now\<rparr>)"
    have h: "mt_conversation_id (h r) = mt_conversation_id r" "\<not> mt_running (h r)" "mt_pending (h r) = (f \<noteq> None \<and> mt_pending r)" for r
      by (simp_all add: h_def split: option.split)
    have "db' = db\<lparr>dd_maintenance := map (\<lambda>r. if mt_conversation_id r = d then h r else r) (dd_maintenance db)\<rparr>" "\<not> ok"
      using assms(2) Finish unfolding h_def by (auto simp: mark_proactive_compaction_finished_def put_maintenance_def)
    then show ?thesis using Finish
      by (intro map_case[of "\<lambda>r. if mt_conversation_id r = d then h r else r"])
        (auto simp: h wf_pending[OF assms(1)] phase_of_def dest: get_SomeD split: option.split)
  qed
qed

lemma run_ops_refines:
  "wf_debts db \<Longrightarrow> phase_of (fst (run_ops ops db)) c = fst (phase_run (c \<in> set (dd_conversations db)) (filter (\<lambda>op. op_conversation op = c) ops) (phase_of db c))
    \<and> filter (\<lambda>(op, _). op_conversation op = c) (snd (run_ops ops db))
      = snd (phase_run (c \<in> set (dd_conversations db)) (filter (\<lambda>op. op_conversation op = c) ops) (phase_of db c))"
proof (induction ops arbitrary: db)
  case (Cons op ops)
  obtain db1 ok where r: "run_op op db = (db1, ok)" by fastforce
  obtain db2 oks where rs: "run_ops ops db1 = (db2, oks)" by fastforce
  note step = run_op_refines[OF Cons.prems r, of c]
  note ih = Cons.IH[of db1]
  show ?case
  proof (cases "op_conversation op = c")
    case True
    then have eq: "phase_step (c \<in> set (dd_conversations db)) op (phase_of db c) = (phase_of db1 c, ok)" using step by simp
    have "wf_debts db1" "dd_conversations db1 = dd_conversations db" using step by simp_all
    then show ?thesis using True ih by (simp add: r rs eq split: prod.split)
  next
    case False
    then show ?thesis using ih step by (simp add: r rs)
  qed
qed simp

text \<open>C40. The stored debts are one small machine per conversation. Whatever operations run in whatever order over all conversations,
  from empty tables, each conversation's row goes through the phases of its own operations alone, and a claim succeeds exactly
  when that machine is waiting; operations on other conversations and on unknown ones change nothing there.\<close>

theorem debts_refine:
  "phase_of (fst (run_ops ops (empty_debts cs))) c = fst (phase_run (c \<in> set cs) (filter (\<lambda>op. op_conversation op = c) ops) No_Debt)
    \<and> filter (\<lambda>(op, _). op_conversation op = c) (snd (run_ops ops (empty_debts cs)))
      = snd (phase_run (c \<in> set cs) (filter (\<lambda>op. op_conversation op = c) ops) No_Debt)"
proof -
  have "wf_debts (empty_debts cs)" "phase_of (empty_debts cs) c = No_Debt" "dd_conversations (empty_debts cs) = cs"
    by (simp_all add: wf_debts_def empty_debts_def phase_of_def get_conversation_compaction_maintenance_def)
  then show ?thesis using run_ops_refines[of "empty_debts cs" ops c] by simp
qed

subsection \<open>What a claim protects\<close>

text \<open>While a run is marked, and nobody requests or finishes, no claim succeeds.\<close>

lemma running_blocks:
  "list_all (\<lambda>op. case op of Claim _ _ \<Rightarrow> True | _ \<Rightarrow> False) ops \<Longrightarrow> list_all (\<lambda>(_, ok). \<not> ok) (snd (phase_run known ops Running))
    \<and> fst (phase_run known ops Running) = Running"
proof (induction ops)
  case (Cons op ops)
  then show ?case by (cases op) (simp_all add: case_prod_beta)
qed simp

lemma run_ops_append:
  "run_ops (xs @ ys) db = (case run_ops xs db of (db1, oks) \<Rightarrow> case run_ops ys db1 of (db2, oks2) \<Rightarrow> (db2, oks @ oks2))"
  by (induction xs arbitrary: db) (simp_all split: prod.split)

lemma run_ops_wf: "wf_debts db \<Longrightarrow> wf_debts (fst (run_ops ops db)) \<and> dd_conversations (fst (run_ops ops db)) = dd_conversations db"
proof (induction ops arbitrary: db)
  case (Cons op ops)
  obtain db1 ok where r: "run_op op db = (db1, ok)" by fastforce
  show ?case using Cons.IH[of db1] run_op_refines[OF Cons.prems r] by (simp add: r split: prod.split) (metis fst_conv)
qed simp

lemma run_ops_ops: "map fst (snd (run_ops ops db)) = ops"
  by (induction ops arbitrary: db) (simp_all split: prod.split, metis snd_conv)

lemma run_own_ops:
  assumes "wf_debts db" "list_all (\<lambda>op. op_conversation op = c) ops"
  shows "snd (run_ops ops db) = snd (phase_run (c \<in> set (dd_conversations db)) ops (phase_of db c))"
    and "phase_of (fst (run_ops ops db)) c = fst (phase_run (c \<in> set (dd_conversations db)) ops (phase_of db c))"
proof -
  have own: "filter (\<lambda>op. op_conversation op = c) ops = ops" using assms(2) by (simp add: filter_id_conv list_all_iff)
  have "\<forall>x \<in> set (snd (run_ops ops db)). fst x \<in> set ops" by (metis image_eqI run_ops_ops set_map)
  then have "filter (\<lambda>(op, _). op_conversation op = c) (snd (run_ops ops db)) = snd (run_ops ops db)"
    using assms(2) by (auto simp: filter_id_conv list_all_iff)
  then show "snd (run_ops ops db) = snd (phase_run (c \<in> set (dd_conversations db)) ops (phase_of db c))"
    "phase_of (fst (run_ops ops db)) c = fst (phase_run (c \<in> set (dd_conversations db)) ops (phase_of db c))"
    using run_ops_refines[OF assms(1), of ops c] own by simp_all
qed

text \<open>A request during a run lets a second worker in, and the first worker's success then drops the newer debt. After any
  operations, when a debt is requested and claimed and then requested again, the next claim succeeds although the first run has not
  finished; and when, instead, the first run finishes with success, no debt is left, so the request that came during the run is
  served by nobody.\<close>

theorem request_during_run_overlaps:
  "snd (run_ops (ops @ [Request t1 c why b n r, Claim t2 c, Request t3 c why2 b2 n2 r2, Claim t4 c]) (empty_debts (c # cs)))
      = snd (run_ops ops (empty_debts (c # cs))) @ [(Request t1 c why b n r, False), (Claim t2 c, True),
          (Request t3 c why2 b2 n2 r2, False), (Claim t4 c, True)]
    \<and> phase_of (fst (run_ops (ops @ [Request t1 c why b n r, Claim t2 c, Request t3 c why2 b2 n2 r2, Finish t5 c None])
        (empty_debts (c # cs)))) c = No_Debt"
proof -
  obtain db oks where r: "run_ops ops (empty_debts (c # cs)) = (db, oks)" by fastforce
  have "wf_debts (empty_debts (c # cs))" by (simp add: wf_debts_def empty_debts_def)
  from run_ops_wf[OF this, of ops] have "wf_debts db" "dd_conversations db = dd_conversations (empty_debts (c # cs))" unfolding r by simp_all
  then have db: "wf_debts db" "c \<in> set (dd_conversations db)" by (simp_all add: empty_debts_def)
  show ?thesis
    using run_own_ops(1)[OF db(1), of c "[Request t1 c why b n r, Claim t2 c, Request t3 c why2 b2 n2 r2, Claim t4 c]"]
      run_own_ops(2)[OF db(1), of c "[Request t1 c why b n r, Claim t2 c, Request t3 c why2 b2 n2 r2, Finish t5 c None]"] db(2)
    unfolding run_ops_append r by (simp add: case_prod_beta del: run_ops.simps run_op.simps)
qed

subsection \<open>Telemetry\<close>

text \<open>Telemetry reads back. After an upsert that does not raise, the row of the conversation is the input with the time of the
  write, the rows of other conversations are as before, and it raises only for a conversation that is not stored and has no row.\<close>

theorem telemetry_reads_back:
  "case upsert_conversation_compaction_telemetry now row db of
     None \<Rightarrow> tl_conversation_id row \<notin> set (dd_conversations db) \<and> get_conversation_compaction_telemetry db (tl_conversation_id row) = None
   | Some db' \<Rightarrow> get_conversation_compaction_telemetry db' c =
       (if c = tl_conversation_id row then Some (row\<lparr>tl_updated_at := now\<rparr>) else get_conversation_compaction_telemetry db c)"
proof (cases "list_ex (\<lambda>r. tl_conversation_id r = tl_conversation_id row) (dd_telemetry db)")
  case True
  have "list_ex (\<lambda>r. tl_conversation_id r = tl_conversation_id row) rows \<Longrightarrow>
      List.find (\<lambda>r. tl_conversation_id r = c) (map (\<lambda>r. if tl_conversation_id r = tl_conversation_id row then row\<lparr>tl_updated_at := now\<rparr> else r) rows)
      = (if c = tl_conversation_id row then Some (row\<lparr>tl_updated_at := now\<rparr>) else List.find (\<lambda>r. tl_conversation_id r = c) rows)" for rows
  proof (induction rows)
    case (Cons r rows)
    have "\<not> list_ex (\<lambda>r. tl_conversation_id r = tl_conversation_id row) rows \<Longrightarrow>
      map (\<lambda>r. if tl_conversation_id r = tl_conversation_id row then row\<lparr>tl_updated_at := now\<rparr> else r) rows = rows"
      by (intro map_idI) (auto simp: list_ex_iff)
    then show ?case using Cons by (cases "list_ex (\<lambda>r. tl_conversation_id r = tl_conversation_id row) rows") auto
  qed simp
  then show ?thesis using True
    by (simp add: upsert_conversation_compaction_telemetry_def put_telemetry_def get_conversation_compaction_telemetry_def)
next
  case False
  have find: "List.find P (xs @ [y]) = (case List.find P xs of Some x \<Rightarrow> Some x | None \<Rightarrow> if P y then Some y else None)" for P xs and y :: telemetry_row
    by (induction xs) simp_all
  have none: "get_conversation_compaction_telemetry db (tl_conversation_id row) = None"
    using False by (auto simp: get_conversation_compaction_telemetry_def find_None_iff list_ex_iff)
  show ?thesis using False none
    by (auto simp: upsert_conversation_compaction_telemetry_def get_conversation_compaction_telemetry_def find split: option.split)
qed

end
