(* ===== verification/Spec2Isabelle.thy ===== *)
theory Spec2Isabelle
  imports Engine_System Session_Locks Worker_Lock Expansion_Guard Token_Gate Summarizer Integrity
    Transaction_Mutex Worker_Loop Hybrid_Search Summary_Tree Store_Search Synthesis_Around
    Coreference Compaction_Debt
begin

text \<open>
  A model of the core of lossless-hermes (\<open>src/lossless_hermes\<close>), a context engine that keeps the
  messages of an agent's sessions in SQLite, replaces old parts of a session's context by summaries
  (a DAG of leaf and condensed summaries), and builds the list of messages that is sent to the
  language model. The claim of the program is in its name: nothing that was ingested is lost, the
  newest messages stay as they are, and what is sent is a transcript a provider accepts.

  \<^bold>\<open>How the parts interact.\<close> A hook hands the message history to the ingest path, which stores the
  messages after its cursor (\<open>Ingest\<close>), each split into parts (\<open>Message_Parts\<close>) after the payload
  guard has moved large payloads into files (\<open>Ingest_Guard\<close>, \<open>Large_Files\<close>), under the row of its
  session (\<open>Conversation_Store\<close>). A stored message becomes the last item of the context of its
  conversation (\<open>Context_Store\<close>, \<open>Message_Store\<close>). Compaction (\<open>Compaction_Select\<close>,
  \<open>Compaction_Pass\<close>, \<open>Compaction_Sweep\<close>) chooses blocks of old items, asks a summarizer for a
  text and replaces the block by one summary. Before a turn the engine assembles the context
  (\<open>Assembler_Select\<close>, \<open>Assembler\<close>), repairs the pairing of tool calls and results
  (\<open>Transcript_Repair\<close>), replaces the live list by the result and sets the ingest cursor
  (\<open>Engine_Assemble\<close>). A circuit breaker (\<open>Circuit_Breaker\<close>) stands between the engine and a provider
  that refuses, and a lock row in the database (\<open>Worker_Lock\<close>) keeps background jobs apart.

  \<^bold>\<open>Theories and sources.\<close>

  \<^item> \<open>Lcm_Prelude\<close>: Python values (JSON, texts as code points, results as sums) and shared lemmas.
  \<^item> \<open>Estimate_Tokens\<close>: \<open>estimate_tokens.py\<close>. Bounds of the estimate, and the truncation as the longest
    prefix within a limit.
  \<^item> \<open>Media_Text\<close>: the text cleaning of \<open>compaction.py\<close>, the scan for file ids and the integer formats of
    \<open>large_files.py\<close>.
  \<^item> \<open>Lcm_Db\<close>, \<open>Context_Store\<close>, \<open>Message_Store\<close>, \<open>Conversation_Store\<close>: the tables of \<open>db/migration.py\<close>
    as lists of rows with their keys and foreign keys, and the operations of \<open>store/summary.py\<close> and
    \<open>store/conversation.py\<close> on them, with SQLite's errors as values. Well-formedness is kept by every
    operation, and replacing a range of the context refines splicing a list.
  \<^item> \<open>Compaction_Select\<close>, \<open>Compaction_Pass\<close>, \<open>Compaction_Sweep\<close>: \<open>compaction.py\<close>. What the triggers and the
    selections choose, one leaf or condensed pass with its escalation, the sweep and the round loop.
  \<^item> \<open>Message_Parts\<close>: the writer of message parts in \<open>engine/ingest.py\<close> and their reader in \<open>assembler.py\<close>.
  \<^item> \<open>Assembler_Select\<close>, \<open>Assembler\<close>: \<open>assembler.py\<close>, from the fresh tail and the budget walk to the
    message list.
  \<^item> \<open>Transcript_Repair\<close>: \<open>transcript_repair.py\<close>, with the direct recursion that the loop computes.
  \<^item> \<open>Large_Files\<close>, \<open>Ingest_Guard\<close>, \<open>Ingest\<close>: \<open>large_files.py\<close>, \<open>engine/ingest_guard.py\<close> and
    \<open>engine/ingest.py\<close>.
  \<^item> \<open>Engine_Assemble\<close>: \<open>engine/assemble.py\<close> and the cursor reset of \<open>engine/compact.py\<close>.
  \<^item> \<open>Engine_Compact\<close>: the gate, \<open>compress\<close> and \<open>compact\<close> of \<open>engine/compact.py\<close>, the latter as a client of
    the breakers.
  \<^item> \<open>Circuit_Breaker\<close>, \<open>Worker_Lock\<close>: \<open>engine/circuit_breaker.py\<close> and \<open>concurrency/worker_lock.py\<close>.
  \<^item> \<open>Session_Locks\<close>: \<open>engine/session_locks.py\<close> as a step relation of any number of callers.
  \<^item> \<open>Summary_Prompts\<close>, \<open>Summarizer\<close>: \<open>summarize.py\<close>, the prompts and the fallback, and the chain of providers with
    the reading of their answers and failures.
  \<^item> \<open>Pruning\<close>: \<open>prune.py\<close> and \<open>operator/purge.py\<close>, the cascade that takes summaries and messages out of
    sight, and that the two copies of it agree.
  \<^item> \<open>Summary_Tree\<close>: queries of \<open>store/summary.py\<close> over the links, the subtree walk with what it finds and when it
    does not end, and the candidates of the transcript collection.
  \<^item> \<open>Search_Text\<close>, \<open>Store_Search\<close>: \<open>store/fts5_sanitize.py\<close>, \<open>store/full_text_fallback.py\<close>, \<open>store/conversation_scope.py\<close>,
    \<open>store/full_text_sort.py\<close> and the searches of both stores. No query reaches the operators of the full-text
    index, no hit leaves the filters, and which matches the fallbacks miss.
  \<^item> \<open>Integrity\<close>: \<open>integrity.py\<close>, the eight checks of a conversation, the report, the repair plan and the
    metrics; what a report without failures says of the tables, that the conversations the engine itself
    stored fail it, that the suggestions for duplicates repair them and which prunes leave a gap.
  \<^item> \<open>Transaction_Mutex\<close>: \<open>transaction_mutex.py\<close> over a model of SQLite's savepoints, refined by transactions that
    nest; and the state a failed \<open>BEGIN\<close> leaves behind.
  \<^item> \<open>Worker_Loop\<close>: \<open>concurrency/worker_loop.py\<close>, the event loop's timers and runs as a step relation.
  \<^item> \<open>Hybrid_Search\<close>: \<open>embeddings/hybrid_search.py\<close>, the merge of two result lists, the packing for the reranker and
    the fusion by ranks under any monotone rounding of floats.
  \<^item> \<open>Synthesis_Prompts\<close>, \<open>Synthesis_Dispatch\<close>: \<open>synthesis/prompt_registry.py\<close>, \<open>synthesis/dispatch.py\<close> and
    \<open>synthesis/audit.py\<close>. One active prompt per lane; every call of the model has its audit row, and what a
    backslash in the conversation does to a request.
  \<^item> \<open>Period_Parser\<close>, \<open>Tool_Scope\<close>: \<open>tools/_period_parser.py\<close>, \<open>tools/conversation_scope.py\<close> and
    \<open>tools/_common.py\<close>. Periods as local days, and the conversations a tool call may see.
  \<^item> \<open>Synthesis_Around\<close>: \<open>tools/synthesize_around.py\<close> with \<open>synthesis/cache_key.py\<close> and \<open>synthesis/invalidation.py\<close>. One
    row per key, cached texts for visible leaves only, and that a failure is kept.
  \<^item> \<open>Coreference\<close>: \<open>extraction/coreference.py\<close>, a tick over the queue of leaves. Counts are exact, a leaf that is
    processed again changes nothing, and the queue drains.
  \<^item> \<open>Compaction_Debt\<close>: \<open>store/compaction_maintenance.py\<close> and \<open>store/compaction_telemetry.py\<close>. The debts refine one
    machine per conversation; telemetry reads back.
  \<^item> \<open>Expansion_Guard\<close>: \<open>tools/expansion_recursion_guard.py\<close>, the slots and the recursion guard of delegated
    sessions.
  \<^item> \<open>Token_Gate\<close>: \<open>plugin/result_budget.py\<close>, \<open>plugin/token_state.py\<close>, \<open>plugin/needs_compact_gate.py\<close> and the wrapper
    of the tool calls in \<open>engine/__init__.py\<close>.
  \<^item> \<open>Engine_System\<close>: runs of all of it, and that nothing that was stored is lost.

  \<^bold>\<open>State and time.\<close> A database is a record of lists of rows, an operation returns the new record or an
  error. Where a transaction rolls back the operation returns the old record. A clock, a random id or
  the answer of a provider is a function of a tick that counts the calls, so that a theorem holds for
  every behaviour of the environment. Texts are lists of code points; integers are \<open>int\<close>, as Python's
  are unbounded; the words of the byte encoding are 8 bits wide.

  \<^bold>\<open>Loops.\<close> The sweep and the passes are \<open>partial_function (option)\<close> where the source loops until nothing
  is left to do; that they return is part of the first properties (each pass shortens the context).
  Every other loop is a structural recursion or has a termination proof. No fuel is used.

  \<^bold>\<open>Parameters.\<close> \<open>json.dumps\<close> and \<open>json.loads\<close>, SHA-256, the clock, the random ids, the summarizer's calls
  and floating-point rounding are arguments. Compiled regular expressions of the user's configuration
  are predicates.

  \<^bold>\<open>Not modelled.\<close> SQL as such (the full-text index, schema migration, pragmas), the network clients of the
  language-model and embedding providers with the store of vectors, prompt texts, logging, the registration of
  hooks with the host, and the command line: they are input and output, or text, around the parts above. The
  remaining agent tools, the evaluation runs, the doctor and the scheduling of background jobs read and render
  the tables that are modelled here; they are left out.
\<close>

end
